(* ===== verification/Prelude.thy ===== *)
theory Prelude
  imports Complex_Main "HOL-Library.AList" "HOL-Library.Word"
begin

text \<open>
  Shared vocabulary of the development: Python exceptions as values of a sum type with a small
  result monad, insertion-ordered dictionaries as association lists, Python sequence indexing,
  little-endian integer codecs (\<^verbatim>\<open>int.to_bytes\<close>, \<^verbatim>\<open>int.from_bytes\<close>) and the generic list lemmas
  that several components use.
\<close>

named_theorems res_simps \<open>rewriting of the result monad\<close>
named_theorems layout_simps \<open>evaluation of the constant memory layouts\<close>

section \<open>Exceptions as values\<close>

datatype py_error =
    AssertionError | ValueError | KeyError | IndexError | IOError | NotImplementedError
  | OverflowError | ConfigException | TypeError | ZeroDivisionError
  | UnicodeError | RuntimeError | SystemExit | StopIteration | NameError

type_synonym 'a res = "py_error + 'a"

abbreviation ok :: "'a \<Rightarrow> 'a res" where
  "ok x \<equiv> Inr x"

abbreviation raise :: "py_error \<Rightarrow> 'a res" where
  "raise e \<equiv> Inl e"

definition rbind :: "'a res \<Rightarrow> ('a \<Rightarrow> 'b res) \<Rightarrow> 'b res" where
  "rbind m f = (case m of Inl e \<Rightarrow> Inl e | Inr x \<Rightarrow> f x)"

definition py_assert :: "bool \<Rightarrow> 'a res \<Rightarrow> 'a res" where
  "py_assert b m = (if b then m else raise AssertionError)"

lemma rbind_Inl [simp, res_simps]: "rbind (Inl e) f = Inl e"
  by (simp add: rbind_def)

lemma rbind_Inr [simp, res_simps]: "rbind (Inr x) f = f x"
  by (simp add: rbind_def)

lemma rbind_eq_Inr_iff [res_simps]: "rbind m f = Inr y \<longleftrightarrow> (\<exists>x. m = Inr x \<and> f x = Inr y)"
  by (cases m) auto

lemma rbind_eq_Inl_iff [res_simps]:
  "rbind m f = Inl e \<longleftrightarrow> m = Inl e \<or> (\<exists>x. m = Inr x \<and> f x = Inl e)"
  by (cases m) auto

lemma py_assert_True [simp, res_simps]: "py_assert True m = m"
  by (simp add: py_assert_def)

lemma py_assert_False [simp, res_simps]: "py_assert False m = Inl AssertionError"
  by (simp add: py_assert_def)

lemma py_assert_eq_Inr_iff [res_simps]: "py_assert b m = Inr y \<longleftrightarrow> b \<and> m = Inr y"
  by (simp add: py_assert_def)

fun rmapM :: "('a \<Rightarrow> 'b res) \<Rightarrow> 'a list \<Rightarrow> 'b list res" where
  "rmapM f [] = ok []"
| "rmapM f (x # xs) = rbind (f x) (\<lambda>y. rbind (rmapM f xs) (\<lambda>ys. ok (y # ys)))"

fun rfold :: "('s \<Rightarrow> 'a \<Rightarrow> 's res) \<Rightarrow> 's \<Rightarrow> 'a list \<Rightarrow> 's res" where
  "rfold f s [] = ok s"
| "rfold f s (x # xs) = rbind (f s x) (\<lambda>s'. rfold f s' xs)"

lemma rmapM_ok_iff: "rmapM f xs = Inr ys \<longleftrightarrow> map f xs = map Inr ys"
proof (induction xs arbitrary: ys)
  case (Cons x xs)
  then show ?case by (cases ys) (auto simp: rbind_eq_Inr_iff)
qed auto

lemma rmapM_length: "rmapM f xs = Inr ys \<Longrightarrow> length ys = length xs"
  by (auto simp: rmapM_ok_iff dest: map_eq_imp_length_eq)

lemma rmapM_nth: "rmapM f xs = Inr ys \<Longrightarrow> i < length xs \<Longrightarrow> f (xs ! i) = Inr (ys ! i)"
  by (metis nth_map rmapM_length rmapM_ok_iff)

lemma rmapM_Inr [simp]: "rmapM (\<lambda>x. Inr (f x)) xs = Inr (map f xs)"
  by (induction xs) auto

lemma rmapM_cong_Inr: "(\<And>x. x \<in> set xs \<Longrightarrow> f x = Inr (g x)) \<Longrightarrow> rmapM f xs = Inr (map g xs)"
  by (induction xs) auto

lemma rfold_append: "rfold f s (xs @ ys) = rbind (rfold f s xs) (\<lambda>s'. rfold f s' ys)"
proof (induction xs arbitrary: s)
  case (Cons x xs)
  then show ?case by (cases "f s x") auto
qed simp

lemma rfold_invariant:
  assumes "rfold f s xs = Inr t" and "P s"
    and step: "\<And>s x s'. P s \<Longrightarrow> x \<in> set xs \<Longrightarrow> f s x = Inr s' \<Longrightarrow> P s'"
  shows "P t"
  using assms(1,2) step
proof (induction xs arbitrary: s)
  case (Cons x xs)
  from Cons.prems(1) obtain s' where s': "f s x = Inr s'" "rfold f s' xs = Inr t"
    by (auto simp: rbind_eq_Inr_iff)
  have "P s'" by (rule Cons.prems(3) [OF Cons.prems(2) _ s'(1)]) simp
  then show ?case
    by (rule Cons.IH [OF s'(2)]) (rule Cons.prems(3) [OF _ list.set_intros(2)])
qed simp

section \<open>Python sequences and dictionaries\<close>

text \<open>Indexing with Python's rule for negative indices; out of range raises.\<close>

definition py_index :: "nat \<Rightarrow> int \<Rightarrow> nat res" where
  "py_index n i =
     (let j = (if i < 0 then int n + i else i)
      in if 0 \<le> j \<and> j < int n then ok (nat j) else raise IndexError)"

definition py_nth :: "'a list \<Rightarrow> int \<Rightarrow> 'a res" where
  "py_nth xs i = rbind (py_index (length xs) i) (\<lambda>j. ok (xs ! j))"

definition py_set :: "'a list \<Rightarrow> int \<Rightarrow> 'a \<Rightarrow> 'a list res" where
  "py_set xs i v = rbind (py_index (length xs) i) (\<lambda>j. ok (xs[j := v]))"

lemma py_index_nat [simp]: "i < n \<Longrightarrow> py_index n (int i) = Inr i"
  by (simp add: py_index_def)

lemma py_index_nat_error [simp]: "\<not> i < n \<Longrightarrow> py_index n (int i) = Inl IndexError"
  by (simp add: py_index_def)

lemma py_nth_nat [simp]: "i < length xs \<Longrightarrow> py_nth xs (int i) = Inr (xs ! i)"
  by (simp add: py_nth_def)

lemma py_set_nat [simp]: "i < length xs \<Longrightarrow> py_set xs (int i) v = Inr (xs[i := v])"
  by (simp add: py_set_def)

text \<open>
  A dictionary keeps its keys in insertion order: an association list, read by \<open>map_of\<close> and
  written by \<open>AList.update\<close>, which overwrites in place and appends new keys at the end.
\<close>

type_synonym ('k, 'v) dict = "('k \<times> 'v) list"

definition dict_get :: "('k, 'v) dict \<Rightarrow> 'k \<Rightarrow> 'v res" where
  "dict_get d k = (case map_of d k of None \<Rightarrow> raise KeyError | Some v \<Rightarrow> ok v)"

definition dict_get_default :: "('k, 'v) dict \<Rightarrow> 'k \<Rightarrow> 'v \<Rightarrow> 'v" where
  "dict_get_default d k v = (case map_of d k of None \<Rightarrow> v | Some w \<Rightarrow> w)"

abbreviation dict_set :: "('k, 'v) dict \<Rightarrow> 'k \<Rightarrow> 'v \<Rightarrow> ('k, 'v) dict" where
  "dict_set d k v \<equiv> AList.update k v d"

abbreviation dict_keys :: "('k, 'v) dict \<Rightarrow> 'k list" where
  "dict_keys d \<equiv> map fst d"

abbreviation dict_values :: "('k, 'v) dict \<Rightarrow> 'v list" where
  "dict_values d \<equiv> map snd d"

lemma dict_set_new: "k \<notin> set (dict_keys d) \<Longrightarrow> dict_set d k v = d @ [(k, v)]"
  by (induction d) auto

lemma dict_set_existing_keys: "k \<in> set (dict_keys d) \<Longrightarrow> dict_keys (dict_set d k v) = dict_keys d"
  by (induction d) auto

lemma distinct_dict_set: "distinct (dict_keys d) \<Longrightarrow> distinct (dict_keys (dict_set d k v))"
  by (simp add: distinct_update)

lemma set_dict_set_existing:
  assumes "distinct (dict_keys d)" and "k \<in> set (dict_keys d)"
  shows "set (dict_set d k v) = {(k, v)} \<union> {(k', w) \<in> set d. k' \<noteq> k}"
  using assms by (induction d) (auto, force+)

section \<open>Little-endian integers\<close>

type_synonym byte = "8 word"
type_synonym u64 = "64 word"

fun le_bytes :: "nat \<Rightarrow> nat \<Rightarrow> byte list" where
  "le_bytes 0 n = []"
| "le_bytes (Suc k) n = word_of_nat (n mod 256) # le_bytes k (n div 256)"

fun le_value :: "byte list \<Rightarrow> nat" where
  "le_value [] = 0"
| "le_value (b # bs) = unat b + 256 * le_value bs"

text \<open>\<^verbatim>\<open>n.to_bytes(k, byteorder='little')\<close>: a negative or too large value raises.\<close>

definition to_bytes :: "nat \<Rightarrow> int \<Rightarrow> byte list res" where
  "to_bytes k n = (if 0 \<le> n \<and> n < 256 ^ k then ok (le_bytes k (nat n)) else raise OverflowError)"

lemma length_le_bytes [simp]: "length (le_bytes k n) = k"
  by (induction k arbitrary: n) auto

lemma unat_byte_mod [simp]: "unat (word_of_nat (n mod 256) :: byte) = n mod 256"
  by (simp add: unat_of_nat)

lemma le_value_le_bytes: "n < 256 ^ k \<Longrightarrow> le_value (le_bytes k n) = n"
proof (induction k arbitrary: n)
  case (Suc k)
  have "n div 256 < 256 ^ k"
    using Suc.prems by (simp add: less_mult_imp_div_less mult.commute)
  then show ?case using Suc.IH by simp
qed simp

lemma unat_byte_less [simp]: "unat (b :: byte) < 256"
  using unsigned_less [of b] by simp

lemma le_value_less: "le_value bs < 256 ^ length bs"
proof (induction bs)
  case (Cons b bs)
  have "unat b \<le> 255" using unat_byte_less [of b] by linarith
  then have "unat b + 256 * le_value bs < 256 * 256 ^ length bs"
    using Cons.IH by linarith
  then show ?case by simp
qed simp

lemma le_bytes_le_value: "le_bytes (length bs) (le_value bs) = bs"
proof (induction bs)
  case (Cons b bs)
  have "(unat b + 256 * le_value bs) mod 256 = unat b"
    by simp
  moreover have "(unat b + 256 * le_value bs) div 256 = le_value bs"
    by simp
  ultimately show ?case
    using Cons.IH by simp
qed simp

lemma to_bytes_ok_iff: "to_bytes k n = Inr bs \<longleftrightarrow> 0 \<le> n \<and> n < 256 ^ k \<and> bs = le_bytes k (nat n)"
  by (auto simp: to_bytes_def)

lemma to_bytes_roundtrip: "to_bytes k n = Inr bs \<Longrightarrow> length bs = k \<and> int (le_value bs) = n"
  by (auto simp: to_bytes_ok_iff le_value_le_bytes nat_less_iff)

section \<open>Fixed-width chunks\<close>

text \<open>Cutting a list into chunks of \<open>w\<close> elements; a shorter rest is dropped.\<close>

function chunks :: "nat \<Rightarrow> 'a list \<Rightarrow> 'a list list" where
  "chunks w xs = (if w = 0 \<or> length xs < w then [] else take w xs # chunks w (drop w xs))"
  by pat_completeness auto
termination
  by (relation "measure (\<lambda>(w, xs). length xs)") auto

declare chunks.simps [simp del]

lemma chunks_Nil [simp]: "0 < w \<Longrightarrow> chunks w [] = []"
  by (simp add: chunks.simps)

lemma chunks_append: "length x = w \<Longrightarrow> 0 < w \<Longrightarrow> chunks w (x @ xs) = x # chunks w xs"
  by (simp add: chunks.simps [of w "x @ xs"])

lemma chunks_concat:
  "0 < w \<Longrightarrow> (\<And>x. x \<in> set xs \<Longrightarrow> length x = w) \<Longrightarrow> chunks w (concat xs) = xs"
  by (induction xs) (auto simp: chunks_append)

lemma chunks_concat_rest:
  "0 < w \<Longrightarrow> (\<And>x. x \<in> set xs \<Longrightarrow> length x = w) \<Longrightarrow> length r < w \<Longrightarrow> chunks w (concat xs @ r) = xs"
proof (induction xs)
  case Nil
  then show ?case by (simp add: chunks.simps [of w r])
qed (auto simp: chunks_append)

lemma length_concat_const: "(\<And>x. x \<in> set xs \<Longrightarrow> length x = w) \<Longrightarrow> length (concat xs) = w * length xs"
  by (induction xs) auto

section \<open>Generic list facts\<close>

lemma nth_concat_const:
  assumes "\<And>x. x \<in> set xs \<Longrightarrow> length x = w" and "i < length xs" and "j < w"
  shows "concat xs ! (i * w + j) = xs ! i ! j"
  using assms
proof (induction xs arbitrary: i)
  case (Cons x xs)
  show ?case
  proof (cases i)
    case 0
    then show ?thesis using Cons.prems by (simp add: nth_append)
  next
    case (Suc k)
    then have "concat (x # xs) ! (i * w + j) = concat xs ! (k * w + j)"
      using Cons.prems(1) [of x] by (simp add: nth_append)
    then show ?thesis using Cons.IH [of k] Cons.prems Suc by simp
  qed
qed simp

lemma take_drop_append: "take n (drop k xs) @ drop (k + n) xs = drop k xs"
  by (metis add.commute append_take_drop_id drop_drop)

lemma map_nth_upt: "length xs = n \<Longrightarrow> map (\<lambda>i. xs ! i) [0..<n] = xs"
  using map_nth [of xs] by simp

lemma filter_enumerate_distinct: "distinct (map fst (filter P (enumerate n xs)))"
proof -
  have "distinct (map fst (enumerate n xs))" by simp
  then show ?thesis by (rule distinct_map_filter)
qed

end
