(* ===== verification/Sandbox.thy ===== *)
theory Sandbox
  imports Prelude
begin

text \<open>
  Model of \<^verbatim>\<open>rvzr/sandbox.py\<close>: the layout of the data and code sandboxes shared by the executor, the
  model and the generators. A numpy structured dtype without alignment is a list of fields with
  their sizes in bytes; the offset of a field is the sum of the sizes before it. The lemmas show
  that every byte of the data sandbox lies in exactly one area of exactly one actor and that the
  address arithmetic of the class agrees with its precomputed tables.
\<close>

section \<open>Structured dtypes\<close>

type_synonym 'f dtype = "('f \<times> int) list"

definition dtype_itemsize :: "'f dtype \<Rightarrow> int" where
  "dtype_itemsize d = sum_list (map snd d)"

fun dtype_field_offset :: "'f dtype \<Rightarrow> 'f \<Rightarrow> int res" where
  "dtype_field_offset [] f = raise KeyError"
| "dtype_field_offset ((g, n) # d) f =
     (if g = f then ok 0 else rbind (dtype_field_offset d f) (\<lambda>k. ok (n + k)))"

section \<open>Areas\<close>

definition PAGE_SIZE :: int where
  "PAGE_SIZE = 4096"

datatype DataArea =
    DA_START | DA_MACRO_STACK | DA_UNDERFLOW_PAD | DA_MAIN | DA_FAULTY | DA_REG_INIT | DA_GPR
  | DA_SIMD | DA_OVERFLOW_PAD | DA_RSP_INIT

datatype CodeArea = CA_START | CA_MAIN | CA_MACRO

definition DataArea_members :: "DataArea list" where
  "DataArea_members = [DA_START, DA_MACRO_STACK, DA_UNDERFLOW_PAD, DA_MAIN, DA_FAULTY,
     DA_REG_INIT, DA_GPR, DA_SIMD, DA_OVERFLOW_PAD, DA_RSP_INIT]"

definition CodeArea_members :: "CodeArea list" where
  "CodeArea_members = [CA_START, CA_MAIN, CA_MACRO]"

definition DataAreaLayout :: "DataArea dtype" where
  "DataAreaLayout =
     [(DA_MACRO_STACK, 64), (DA_UNDERFLOW_PAD, PAGE_SIZE - 64), (DA_MAIN, PAGE_SIZE),
      (DA_FAULTY, PAGE_SIZE), (DA_GPR, 64), (DA_SIMD, 256), (DA_OVERFLOW_PAD, PAGE_SIZE - 64 - 256)]"

definition CodeAreaLayout :: "CodeArea dtype" where
  "CodeAreaLayout = [(CA_MAIN, 2 * PAGE_SIZE), (CA_MACRO, PAGE_SIZE)]"

definition data_area_size :: "DataArea \<Rightarrow> int res" where
  "data_area_size area = dict_get DataAreaLayout area"

definition data_area_offset :: "DataArea \<Rightarrow> int res" where
  "data_area_offset area =
     (if area = DA_START then ok 0
      else if area = DA_REG_INIT then dtype_field_offset DataAreaLayout DA_GPR
      else if area = DA_RSP_INIT then
        rbind (dtype_field_offset DataAreaLayout DA_FAULTY) (\<lambda>k. ok (k - 8))
      else dtype_field_offset DataAreaLayout area)"

definition data_size_per_actor :: int where
  "data_size_per_actor = dtype_itemsize DataAreaLayout"

definition code_area_size :: "CodeArea \<Rightarrow> int res" where
  "code_area_size area = dict_get CodeAreaLayout area"

definition code_area_offset :: "CodeArea \<Rightarrow> int res" where
  "code_area_offset area =
     (if area = CA_START then ok 0 else dtype_field_offset CodeAreaLayout area)"

definition code_size_per_actor :: int where
  "code_size_per_actor = dtype_itemsize CodeAreaLayout"

section \<open>The layout object\<close>

record SandboxLayout =
  data_start :: int
  data_end :: int
  data_size :: int
  code_start :: int
  code_end :: int
  code_size :: int
  data_addresses :: "(DataArea, int) dict list"
  code_addresses :: "(CodeArea, int) dict list"

definition area_table :: "('a \<Rightarrow> int res) \<Rightarrow> int \<Rightarrow> 'a list \<Rightarrow> ('a, int) dict res" where
  "area_table offset_of start areas =
     rmapM (\<lambda>area. rbind (offset_of area) (\<lambda>k. ok (area, start + k))) areas"

definition SandboxLayout_init :: "int \<times> int \<Rightarrow> nat \<Rightarrow> SandboxLayout res" where
  "SandboxLayout_init bases n_actors =
     (let data_sz = dtype_itemsize DataAreaLayout * int n_actors;
          code_sz = dtype_itemsize CodeAreaLayout * int n_actors
      in py_assert (data_sz mod PAGE_SIZE = 0)
           (py_assert (code_sz mod PAGE_SIZE = 0)
             (rbind (rmapM (\<lambda>actor_id. area_table data_area_offset
                        (fst bases + int actor_id * data_size_per_actor) DataArea_members)
                      [0..<n_actors])
               (\<lambda>dtab. rbind (rmapM (\<lambda>actor_id. area_table code_area_offset
                        (snd bases + int actor_id * code_size_per_actor) CodeArea_members)
                      [0..<n_actors])
                 (\<lambda>ctab. ok \<lparr>data_start = fst bases, data_end = fst bases + data_sz,
                     data_size = data_sz, code_start = snd bases, code_end = snd bases + code_sz,
                     code_size = code_sz, data_addresses = dtab, code_addresses = ctab\<rparr>)))))"

definition get_data_addr :: "SandboxLayout \<Rightarrow> DataArea \<Rightarrow> int \<Rightarrow> int res" where
  "get_data_addr l area actor_id =
     rbind (data_area_offset area)
       (\<lambda>k. ok (data_start l + actor_id * data_size_per_actor + k))"

definition get_code_addr :: "SandboxLayout \<Rightarrow> CodeArea \<Rightarrow> int \<Rightarrow> int res" where
  "get_code_addr l area actor_id =
     rbind (code_area_offset area)
       (\<lambda>k. ok (code_start l + actor_id * code_size_per_actor + k))"

definition is_data_addr :: "SandboxLayout \<Rightarrow> int \<Rightarrow> bool" where
  "is_data_addr l addr = (data_start l \<le> addr \<and> addr < data_end l)"

definition is_code_addr :: "SandboxLayout \<Rightarrow> int \<Rightarrow> bool" where
  "is_code_addr l addr = (code_start l \<le> addr \<and> addr < code_end l)"

definition data_addr_to_offset :: "SandboxLayout \<Rightarrow> int \<Rightarrow> int" where
  "data_addr_to_offset l addr = addr - data_start l"

definition code_addr_to_offset :: "SandboxLayout \<Rightarrow> int \<Rightarrow> int" where
  "code_addr_to_offset l addr = addr - code_start l"

definition code_addr_to_actor_id :: "SandboxLayout \<Rightarrow> int \<Rightarrow> int" where
  "code_addr_to_actor_id l addr = (addr - code_start l) div code_size_per_actor"

definition data_addr_to_actor_id :: "SandboxLayout \<Rightarrow> int \<Rightarrow> int" where
  "data_addr_to_actor_id l addr = (addr - data_start l) div data_size_per_actor"

section \<open>The constants of the layout\<close>

lemma data_size_per_actor_eq [layout_simps]: "data_size_per_actor = 16384"
  by (simp add: data_size_per_actor_def dtype_itemsize_def DataAreaLayout_def PAGE_SIZE_def)

lemma code_size_per_actor_eq [layout_simps]: "code_size_per_actor = 12288"
  by (simp add: code_size_per_actor_def dtype_itemsize_def CodeAreaLayout_def PAGE_SIZE_def)

text \<open>The offset of every member of the enumeration is defined; none raises.\<close>

fun area_off :: "DataArea \<Rightarrow> int" where
  "area_off DA_START = 0"
| "area_off DA_MACRO_STACK = 0"
| "area_off DA_UNDERFLOW_PAD = 64"
| "area_off DA_MAIN = 4096"
| "area_off DA_FAULTY = 8192"
| "area_off DA_REG_INIT = 12288"
| "area_off DA_GPR = 12288"
| "area_off DA_SIMD = 12352"
| "area_off DA_OVERFLOW_PAD = 12608"
| "area_off DA_RSP_INIT = 8184"

lemma data_area_offset_eq [layout_simps]: "data_area_offset area = Inr (area_off area)"
  by (cases area) (simp_all add: data_area_offset_def DataAreaLayout_def PAGE_SIZE_def)

lemma data_area_size_simps [layout_simps]:
  "data_area_size DA_MACRO_STACK = Inr 64"
  "data_area_size DA_UNDERFLOW_PAD = Inr 4032"
  "data_area_size DA_MAIN = Inr 4096"
  "data_area_size DA_FAULTY = Inr 4096"
  "data_area_size DA_GPR = Inr 64"
  "data_area_size DA_SIMD = Inr 256"
  "data_area_size DA_OVERFLOW_PAD = Inr 3776"
  "data_area_size DA_START = Inl KeyError"
  "data_area_size DA_REG_INIT = Inl KeyError"
  "data_area_size DA_RSP_INIT = Inl KeyError"
  by (simp_all add: data_area_size_def dict_get_def DataAreaLayout_def PAGE_SIZE_def)

fun code_off :: "CodeArea \<Rightarrow> int" where
  "code_off CA_START = 0"
| "code_off CA_MAIN = 0"
| "code_off CA_MACRO = 8192"

lemma code_area_offset_eq [layout_simps]: "code_area_offset area = Inr (code_off area)"
  by (cases area) (simp_all add: code_area_offset_def CodeAreaLayout_def PAGE_SIZE_def)

lemma area_table_eq:
  "(\<And>a. f a = Inr (g a)) \<Longrightarrow> area_table f start areas = Inr (map (\<lambda>a. (a, start + g a)) areas)"
  by (simp add: area_table_def)

lemma map_of_area_table:
  "a \<in> set areas \<Longrightarrow> map_of (map (\<lambda>a. (a, start + g a)) areas) a = Some (start + g a)"
  by (induction areas) auto

text \<open>The constructor never raises: both assertions on the page multiple hold for any count.\<close>

lemma SandboxLayout_init_ok:
  "SandboxLayout_init (d, c) n =
     Inr \<lparr>data_start = d, data_end = d + 16384 * int n, data_size = 16384 * int n,
          code_start = c, code_end = c + 12288 * int n, code_size = 12288 * int n,
          data_addresses =
            map (\<lambda>i. map (\<lambda>a. (a, d + int i * 16384 + area_off a)) DataArea_members) [0..<n],
          code_addresses =
            map (\<lambda>i. map (\<lambda>a. (a, c + int i * 12288 + code_off a)) CodeArea_members) [0..<n]\<rparr>"
proof -
  have d: "dtype_itemsize DataAreaLayout = 16384" and c: "dtype_itemsize CodeAreaLayout = 12288"
    using data_size_per_actor_eq code_size_per_actor_eq
    by (simp_all add: data_size_per_actor_def code_size_per_actor_def)
  have "(16384 * int n) mod PAGE_SIZE = 0" "(12288 * int n) mod PAGE_SIZE = 0"
    by (simp_all add: PAGE_SIZE_def mod_mult_left_eq [symmetric])
  then show ?thesis
    by (simp add: SandboxLayout_init_def Let_def d c layout_simps area_table_eq)
qed

lemma set_DataArea_members [simp]: "a \<in> set DataArea_members"
  by (cases a) (simp_all add: DataArea_members_def)

lemma set_CodeArea_members [simp]: "a \<in> set CodeArea_members"
  by (cases a) (simp_all add: CodeArea_members_def)

lemma get_data_addr_eq: "get_data_addr l a i = Inr (data_start l + i * 16384 + area_off a)"
  by (simp add: get_data_addr_def layout_simps)

lemma get_code_addr_eq: "get_code_addr l a i = Inr (code_start l + i * 12288 + code_off a)"
  by (simp add: get_code_addr_def layout_simps)

section \<open>Properties of the layout\<close>

text \<open>
  The precomputed address tables of a layout hold, for every actor and every area, exactly the
  address that \<^verbatim>\<open>get_data_addr\<close> and \<^verbatim>\<open>get_code_addr\<close> compute.
\<close>

theorem layout_tables_agree:
  assumes "SandboxLayout_init bases n = Inr l" and "i < n"
  shows "map_option Inr (map_of (data_addresses l ! i) a) = Some (get_data_addr l a (int i)) \<and>
     map_option Inr (map_of (code_addresses l ! i) b) = Some (get_code_addr l b (int i))"
proof -
  obtain d c where "bases = (d, c)" by (cases bases)
  with assms show ?thesis
    by (auto simp: SandboxLayout_init_ok get_data_addr_eq get_code_addr_eq map_of_area_table)
qed

theorem layout_tables_agree_witness:
  "\<exists>l. SandboxLayout_init (4096, 65536) 2 = Inr l \<and>
     map_of (data_addresses l ! 1) DA_GPR = Some 32768 \<and> get_data_addr l DA_GPR 1 = Inr 32768"
proof -
  obtain l where l: "SandboxLayout_init (4096, 65536) 2 = Inr l"
    by (simp add: SandboxLayout_init_ok)
  then have "get_data_addr l DA_GPR 1 = Inr 32768"
    by (auto simp: SandboxLayout_init_ok get_data_addr_eq)
  with layout_tables_agree [OF l, of 1 DA_GPR CA_MAIN] l show ?thesis by auto
qed

text \<open>Which of the seven memory areas a byte offset inside one actor's sandbox falls into.\<close>

definition in_area :: "DataArea \<Rightarrow> int \<Rightarrow> bool" where
  "in_area a k = (case data_area_size a of Inl _ \<Rightarrow> False | Inr n \<Rightarrow> area_off a \<le> k \<and> k < area_off a + n)"

lemma in_area_simps [layout_simps]:
  "in_area DA_MACRO_STACK k \<longleftrightarrow> 0 \<le> k \<and> k < 64"
  "in_area DA_UNDERFLOW_PAD k \<longleftrightarrow> 64 \<le> k \<and> k < 4096"
  "in_area DA_MAIN k \<longleftrightarrow> 4096 \<le> k \<and> k < 8192"
  "in_area DA_FAULTY k \<longleftrightarrow> 8192 \<le> k \<and> k < 12288"
  "in_area DA_GPR k \<longleftrightarrow> 12288 \<le> k \<and> k < 12352"
  "in_area DA_SIMD k \<longleftrightarrow> 12352 \<le> k \<and> k < 12608"
  "in_area DA_OVERFLOW_PAD k \<longleftrightarrow> 12608 \<le> k \<and> k < 16384"
  "\<not> in_area DA_START k" "\<not> in_area DA_REG_INIT k" "\<not> in_area DA_RSP_INIT k"
  by (simp_all add: in_area_def layout_simps)

lemma in_area_total: "0 \<le> k \<Longrightarrow> k < 16384 \<Longrightarrow> \<exists>a. in_area a k"
proof -
  assume "0 \<le> k" "k < 16384"
  then have "in_area DA_MACRO_STACK k \<or> in_area DA_UNDERFLOW_PAD k \<or> in_area DA_MAIN k \<or>
      in_area DA_FAULTY k \<or> in_area DA_GPR k \<or> in_area DA_SIMD k \<or> in_area DA_OVERFLOW_PAD k"
    unfolding layout_simps by linarith
  then show ?thesis by blast
qed

lemma in_area_unique: "in_area a k \<Longrightarrow> in_area b k \<Longrightarrow> a = b"
  by (cases a; cases b; simp add: layout_simps)

lemma in_area_range: "in_area a k \<Longrightarrow> 0 \<le> k \<and> k < 16384"
  by (cases a) (simp_all add: layout_simps)

definition addr_in_area :: "SandboxLayout \<Rightarrow> DataArea \<Rightarrow> int \<Rightarrow> int \<Rightarrow> bool" where
  "addr_in_area l a i addr =
     (case (get_data_addr l a i, data_area_size a) of
        (Inr s, Inr n) \<Rightarrow> s \<le> addr \<and> addr < s + n
      | _ \<Rightarrow> False)"

lemma addr_in_area_iff: "addr_in_area l a i addr \<longleftrightarrow> in_area a (addr - data_start l - i * 16384)"
  by (auto simp: addr_in_area_def in_area_def get_data_addr_eq split: sum.splits)

lemma int_div_eqI: "0 \<le> k - i * m \<Longrightarrow> k - i * m < m \<Longrightarrow> k div m = (i :: int)"
  using div_pos_pos_trivial [of "k - i * m" m] div_mult_self1 [of m "k - i * m" i]
  by (cases "m = 0") simp_all

lemma addr_in_area_actor: "addr_in_area l a i addr \<Longrightarrow> data_addr_to_actor_id l addr = i"
  unfolding data_addr_to_actor_id_def data_size_per_actor_eq addr_in_area_iff
  by (rule int_div_eqI) (auto dest: in_area_range)

lemma data_addr_to_actor_id_area: "\<exists>a. addr_in_area l a (data_addr_to_actor_id l addr) addr"
proof -
  have "addr - data_start l - data_addr_to_actor_id l addr * 16384 = (addr - data_start l) mod 16384"
    by (simp add: data_addr_to_actor_id_def data_size_per_actor_eq minus_div_mult_eq_mod)
  then show ?thesis
    using in_area_total [of "(addr - data_start l) mod 16384"] by (simp add: addr_in_area_iff)
qed

lemma data_addr_to_actor_id_range:
  assumes "SandboxLayout_init bases n = Inr l" and "is_data_addr l addr"
  shows "0 \<le> data_addr_to_actor_id l addr \<and> data_addr_to_actor_id l addr < int n"
proof -
  obtain d c where b: "bases = (d, c)" by (cases bases)
  have "0 \<le> addr - data_start l \<and> addr - data_start l < int n * 16384"
    using assms b by (auto simp: SandboxLayout_init_ok is_data_addr_def)
  then show ?thesis
    using zdiv_mono1 [of "addr - data_start l" "int n * 16384 - 1" 16384]
    by (simp add: data_addr_to_actor_id_def data_size_per_actor_eq pos_imp_zdiv_nonneg_iff)
qed

text \<open>
  The areas tile the data sandbox: a byte address inside the sandbox lies in exactly one memory
  area of exactly one of the \<open>n\<close> actors, and the actor is the one \<^verbatim>\<open>data_addr_to_actor_id\<close> returns.
\<close>

theorem data_addr_unique_area:
  assumes "SandboxLayout_init bases n = Inr l" and "is_data_addr l addr"
  shows "(\<exists>!p. addr_in_area l (fst p) (snd p) addr) \<and>
     (\<exists>a. addr_in_area l a (data_addr_to_actor_id l addr) addr) \<and>
     0 \<le> data_addr_to_actor_id l addr \<and> data_addr_to_actor_id l addr < int n"
proof -
  obtain a where a: "addr_in_area l a (data_addr_to_actor_id l addr) addr"
    using data_addr_to_actor_id_area by blast
  have "p = (a, data_addr_to_actor_id l addr)" if p: "addr_in_area l (fst p) (snd p) addr" for p
  proof -
    have "snd p = data_addr_to_actor_id l addr"
      using addr_in_area_actor [OF p] by simp
    with p a show ?thesis
      using in_area_unique by (cases p) (auto simp: addr_in_area_iff)
  qed
  with a have "\<exists>!p. addr_in_area l (fst p) (snd p) addr"
    by (intro ex1I [of _ "(a, data_addr_to_actor_id l addr)"]) auto
  with a show ?thesis
    using data_addr_to_actor_id_range [OF assms] by blast
qed

theorem data_addr_unique_area_witness:
  "\<exists>!p. addr_in_area (case SandboxLayout_init (1000, 2000) 2 of Inr l \<Rightarrow> l) (fst p) (snd p) 5097"
proof -
  obtain l where l: "SandboxLayout_init (1000, 2000) 2 = Inr l"
    by (simp add: SandboxLayout_init_ok)
  then have "is_data_addr l 5097"
    by (auto simp: SandboxLayout_init_ok is_data_addr_def)
  from data_addr_unique_area [OF l this] l show ?thesis by simp
qed

end
