(* ===== verification/TestCaseData.thy ===== *)
theory TestCaseData
  imports Sandbox
begin

unbundle bit_operations_syntax

text \<open>
  Model of \<^verbatim>\<open>rvzr/tc_components/test_case_data.py\<close>: the per-actor input record, the input array
  with its linear views and its binary form, the RDBF file handed to the executor, and the taint
  array with the translation from sandbox addresses to taint cells. The memory of a freshly
  allocated input is not initialised by the code, so it is an argument of the constructor.
\<close>

section \<open>Input of one actor\<close>

text \<open>Number of 64-bit entries of an area: \<^verbatim>\<open>SandboxLayout.data_area_size(area) // 8\<close>.\<close>

definition area_entries :: "DataArea \<Rightarrow> nat" where
  "area_entries a = (case data_area_size a of Inl _ \<Rightarrow> 0 | Inr n \<Rightarrow> nat (n div 8))"

record ActorInput =
  ai_main :: "u64 list"
  ai_faulty :: "u64 list"
  ai_gpr :: "u64 list"
  ai_simd :: "u64 list"
  ai_padding :: "u64 list"

definition ActorInput_areas :: "DataArea list" where
  "ActorInput_areas = [DA_MAIN, DA_FAULTY, DA_GPR, DA_SIMD, DA_OVERFLOW_PAD]"

text \<open>\<^verbatim>\<open>itemsize // 8\<close> of the per-actor dtype.\<close>

definition actor_entries :: nat where
  "actor_entries = sum_list (map area_entries ActorInput_areas)"

definition ACTOR_DATA_SIZE :: int where
  "ACTOR_DATA_SIZE =
     8 * int (area_entries DA_MAIN) + 8 * int (area_entries DA_FAULTY)
     + 8 * int (area_entries DA_GPR) + 8 * int (area_entries DA_SIMD)"

definition n_data_entries_per_actor :: nat where
  "n_data_entries_per_actor = nat (ACTOR_DATA_SIZE div 8)"

definition wf_actor :: "ActorInput \<Rightarrow> bool" where
  "wf_actor a \<longleftrightarrow> length (ai_main a) = area_entries DA_MAIN \<and>
     length (ai_faulty a) = area_entries DA_FAULTY \<and> length (ai_gpr a) = area_entries DA_GPR \<and>
     length (ai_simd a) = area_entries DA_SIMD \<and> length (ai_padding a) = area_entries DA_OVERFLOW_PAD"

text \<open>The linear view of one actor and its inverse, \<^verbatim>\<open>data.view(_ActorInput)\<close>.\<close>

definition actor_linear :: "ActorInput \<Rightarrow> u64 list" where
  "actor_linear a = ai_main a @ ai_faulty a @ ai_gpr a @ ai_simd a @ ai_padding a"

definition actor_view :: "u64 list \<Rightarrow> ActorInput" where
  "actor_view d =
     (let m = area_entries DA_MAIN; f = area_entries DA_FAULTY; g = area_entries DA_GPR;
          s = area_entries DA_SIMD
      in \<lparr>ai_main = take m d, ai_faulty = take f (drop m d), ai_gpr = take g (drop (m + f) d),
          ai_simd = take s (drop (m + f + g) d), ai_padding = drop (m + f + g + s) d\<rparr>)"

lemma area_entries_simps [layout_simps]:
  "area_entries DA_MAIN = 512" "area_entries DA_FAULTY = 512" "area_entries DA_GPR = 8"
  "area_entries DA_SIMD = 32" "area_entries DA_OVERFLOW_PAD = 472"
  by (simp_all add: area_entries_def layout_simps)

lemma actor_entries_eq [layout_simps]: "actor_entries = 1536"
  by (simp add: actor_entries_def ActorInput_areas_def layout_simps)

lemma ACTOR_DATA_SIZE_eq [layout_simps]: "ACTOR_DATA_SIZE = 8512"
  by (simp add: ACTOR_DATA_SIZE_def layout_simps)

lemma n_data_entries_per_actor_eq [layout_simps]: "n_data_entries_per_actor = 1064"
  by (simp add: n_data_entries_per_actor_def layout_simps)

lemma length_actor_linear [simp]: "wf_actor a \<Longrightarrow> length (actor_linear a) = actor_entries"
  by (simp add: wf_actor_def actor_linear_def layout_simps)

lemma wf_actor_view [simp]: "length d = actor_entries \<Longrightarrow> wf_actor (actor_view d)"
  by (simp add: wf_actor_def actor_view_def Let_def layout_simps)

lemma actor_view_linear [simp]: "wf_actor a \<Longrightarrow> actor_view (actor_linear a) = a"
  by (simp add: wf_actor_def actor_view_def actor_linear_def Let_def layout_simps)

lemma actor_linear_view [simp]: "length d = actor_entries \<Longrightarrow> actor_linear (actor_view d) = d"
  using take_drop_append [of 512 512 d] take_drop_append [of 8 1024 d] take_drop_append [of 32 1032 d]
  by (simp add: actor_view_def actor_linear_def Let_def layout_simps)

section \<open>Input data\<close>

record InputData =
  actors :: "ActorInput list"
  seed :: int

text \<open>\<^verbatim>\<open>InputData(n_actors)\<close>: the array memory is whatever the allocator returned.\<close>

definition InputData_new :: "ActorInput list \<Rightarrow> InputData" where
  "InputData_new mem = \<lparr>actors = mem, seed = 0\<rparr>"

definition wf_input :: "nat \<Rightarrow> InputData \<Rightarrow> bool" where
  "wf_input n x \<longleftrightarrow> length (actors x) = n \<and> (\<forall>a \<in> set (actors x). wf_actor a)"

definition n_actors_of :: "InputData \<Rightarrow> nat" where
  "n_actors_of x = length (actors x)"

definition linear_view :: "InputData \<Rightarrow> nat \<Rightarrow> u64 list" where
  "linear_view x actor_id = actor_linear (actors x ! actor_id)"

definition set_actor_data :: "InputData \<Rightarrow> nat \<Rightarrow> u64 list \<Rightarrow> InputData res" where
  "set_actor_data x actor_id data =
     py_assert (length data = actor_entries)
       (rbind (py_set (actors x) (int actor_id)
                ((actor_view data)\<lparr>ai_padding := replicate (area_entries DA_OVERFLOW_PAD) 0\<rparr>))
         (\<lambda>as. ok (x\<lparr>actors := as\<rparr>)))"

definition u64_bytes :: "u64 \<Rightarrow> byte list" where
  "u64_bytes w = le_bytes 8 (unat w)"

definition bytes_u64 :: "byte list \<Rightarrow> u64" where
  "bytes_u64 bs = word_of_nat (le_value bs)"

definition words_bytes :: "u64 list \<Rightarrow> byte list" where
  "words_bytes ws = concat (map u64_bytes ws)"

definition input_words :: "InputData \<Rightarrow> u64 list" where
  "input_words x = concat (map actor_linear (actors x))"

text \<open>\<^verbatim>\<open>InputData.save\<close> writes \<^verbatim>\<open>tobytes()\<close>; the file is the byte list.\<close>

definition input_save :: "InputData \<Rightarrow> byte list" where
  "input_save x = words_bytes (input_words x)"

text \<open>
  \<^verbatim>\<open>InputData.load\<close>: \<^verbatim>\<open>np.fromfile\<close> reads whole 64-bit items and ignores a shorter rest; the
  assignment to a slice raises unless the lengths agree or a single item can be broadcast.
\<close>

definition slice_assign :: "nat \<Rightarrow> 'a list \<Rightarrow> 'a list res" where
  "slice_assign n ys =
     (if length ys = n then ok ys else if length ys = 1 then ok (replicate n (hd ys)) else raise ValueError)"

definition input_load :: "InputData \<Rightarrow> byte list \<Rightarrow> InputData res" where
  "input_load x file =
     (let contents = map bytes_u64 (chunks 8 file)
      in rbind (rmapM (\<lambda>actor_id. rbind (slice_assign actor_entries
                    (take actor_entries (drop (actor_id * actor_entries) contents)))
                  (\<lambda>d. ok (actor_view d)))
                [0..<length (actors x)])
           (\<lambda>as. ok (x\<lparr>actors := as\<rparr>)))"

section \<open>The RDBF file\<close>

definition to_bytes8 :: "int \<Rightarrow> byte list res" where
  "to_bytes8 n = to_bytes 8 n"

definition save_input_sequence_as_rdbf :: "InputData list \<Rightarrow> byte list res" where
  "save_input_sequence_as_rdbf inputs =
     (let n_actors = (if 0 < length inputs then n_actors_of (hd inputs) else 1)
      in rbind (to_bytes8 (int n_actors))
           (\<lambda>h1. rbind (to_bytes8 (int (length inputs)))
             (\<lambda>h2. rbind (to_bytes8 ACTOR_DATA_SIZE)
               (\<lambda>sz. rbind (to_bytes8 0)
                 (\<lambda>rsv. ok (h1 @ h2 @ concat (replicate n_actors (sz @ rsv))
                            @ concat (map input_save inputs)))))))"

section \<open>Taints\<close>

type_synonym InputTaint = "bool list list"

definition per_actor_taint_size :: nat where
  "per_actor_taint_size = actor_entries"

definition InputTaint_new :: "nat \<Rightarrow> InputTaint" where
  "InputTaint_new n_actors = replicate n_actors (replicate per_actor_taint_size False)"

definition taint_full_linear_view :: "InputTaint \<Rightarrow> bool list" where
  "taint_full_linear_view t = concat t"

definition taint_actor_offsets :: "InputTaint \<Rightarrow> nat \<Rightarrow> int list \<Rightarrow> InputTaint res" where
  "taint_actor_offsets t actor_id offsets =
     rbind (py_nth t (int actor_id))
       (\<lambda>view. rbind (rfold (\<lambda>v k. py_set v k True) view offsets)
         (\<lambda>view'. ok (t[actor_id := view'])))"

definition taint_offset_from_sandbox_address :: "int \<Rightarrow> int res" where
  "taint_offset_from_sandbox_address sb_address =
     (let actor_id = sb_address div data_size_per_actor;
          sandbox_offset = sb_address mod data_size_per_actor
      in rbind (data_area_size DA_MAIN)
           (\<lambda>m. ok ((sandbox_offset - m) div 8 + actor_id * int per_actor_taint_size)))"

section \<open>Codec lemmas\<close>

lemma u64_roundtrip [simp]: "bytes_u64 (u64_bytes w) = w"
proof -
  have "unat w < 256 ^ 8" using unsigned_less [of w] by simp
  then show ?thesis by (simp add: bytes_u64_def u64_bytes_def le_value_le_bytes)
qed

lemma length_u64_bytes [simp]: "length (u64_bytes w) = 8"
  by (simp add: u64_bytes_def)

lemma length_words_bytes [simp]: "length (words_bytes ws) = 8 * length ws"
  unfolding words_bytes_def by (subst length_concat_const [where w = 8]) auto

lemma words_bytes_append [simp]: "words_bytes (xs @ ys) = words_bytes xs @ words_bytes ys"
  by (simp add: words_bytes_def)

lemma words_bytes_pair: "words_bytes [a, b] = words_bytes [a] @ words_bytes [b]"
  by (simp add: words_bytes_def)

lemma words_bytes_concat: "words_bytes (concat xss) = concat (map words_bytes xss)"
  by (induction xss) (auto simp: words_bytes_def)

lemma words_roundtrip [simp]: "map bytes_u64 (chunks 8 (words_bytes ws)) = ws"
proof -
  have "chunks 8 (words_bytes ws) = map u64_bytes ws"
    unfolding words_bytes_def by (rule chunks_concat) auto
  then show ?thesis by (simp add: comp_def)
qed

lemma input_words_chunk:
  assumes "wf_input n x" and "i < n"
  shows "take actor_entries (drop (i * actor_entries) (input_words x)) = actor_linear (actors x ! i)"
proof -
  let ?ls = "map actor_linear (actors x)"
  have len: "length l = actor_entries" if "l \<in> set ?ls" for l
    using that assms(1) by (auto simp: wf_input_def)
  have i: "i < length ?ls" using assms by (simp add: wf_input_def)
  have "concat ?ls = concat (take i ?ls) @ ?ls ! i @ concat (drop (Suc i) ?ls)"
    using i by (metis append_take_drop_id concat.simps(2) concat_append Cons_nth_drop_Suc)
  moreover have "length (concat (take i ?ls)) = i * actor_entries"
    using len i by (subst length_concat_const [where w = actor_entries]) (auto dest: in_set_takeD)
  moreover have "length (?ls ! i) = actor_entries" using len i nth_mem by blast
  ultimately show ?thesis using i by (simp add: input_words_def)
qed

text \<open>
  C22. Saving an input and loading the file into any input of the same number of actors restores
  every actor's data; the seed of the loaded object is not part of the file.
\<close>

theorem input_load_save:
  assumes "wf_input n x" and "length (actors y) = n"
  shows "input_load y (input_save x) = Inr (y\<lparr>actors := actors x\<rparr>)"
proof -
  have "rmapM (\<lambda>i. rbind (slice_assign actor_entries
             (take actor_entries (drop (i * actor_entries) (input_words x))))
           (\<lambda>d. ok (actor_view d))) [0..<n] = Inr (map (\<lambda>i. actors x ! i) [0..<n])"
    using assms(1) by (intro rmapM_cong_Inr)
      (auto simp: input_words_chunk slice_assign_def wf_input_def)
  moreover have "map (\<lambda>i. actors x ! i) [0..<n] = actors x"
    using assms(1) by (simp add: wf_input_def map_nth_upt del: map_eq_conv)
  ultimately show ?thesis
    using assms(2) by (simp add: input_load_def input_save_def Let_def)
qed

theorem input_load_save_witness:
  "let a = actor_view (replicate 1536 7); b = actor_view (replicate 1536 0)
   in input_load \<lparr>actors = [b], seed = 5\<rparr> (input_save \<lparr>actors = [a], seed = 3\<rparr>) =
      Inr \<lparr>actors = [a], seed = 5\<rparr>"
proof -
  have "wf_input 1 \<lparr>actors = [actor_view (replicate 1536 7)], seed = 3\<rparr>"
    by (simp add: wf_input_def layout_simps)
  from input_load_save [OF this, of "\<lparr>actors = [actor_view (replicate 1536 0)], seed = 5\<rparr>"]
  show ?thesis by simp
qed

section \<open>Reading an RDBF file\<close>

text \<open>
  The reader of the documented format: a header with the two counts, one metadata entry of a size and
  a reserved field per actor, then the data sections of 12 KB, input by input and actor by actor.
\<close>

definition rdbf_read :: "byte list \<Rightarrow> nat \<times> nat \<times> (u64 \<times> u64) list \<times> u64 list list list" where
  "rdbf_read file =
     (let ws = map bytes_u64 (chunks 8 file);
          n_actors = unat (ws ! 0);
          n_inputs = unat (ws ! 1);
          meta = map (\<lambda>p. (p ! 0, p ! 1)) (chunks 2 (take (2 * n_actors) (drop 2 ws)))
      in (n_actors, n_inputs, meta, chunks n_actors (chunks actor_entries (drop (2 + 2 * n_actors) ws))))"

lemma to_bytes8_words: "to_bytes8 n = Inr bs \<Longrightarrow> bs = words_bytes [word_of_int n] \<and> 0 \<le> n \<and> n < 2 ^ 64"
proof -
  assume "to_bytes8 n = Inr bs"
  then have n: "0 \<le> n" "n < 2 ^ 64" "bs = le_bytes 8 (nat n)"
    by (simp_all add: to_bytes8_def to_bytes_ok_iff)
  then have "unat (word_of_int n :: u64) = nat n"
    by (simp add: unat_eq_nat_uint uint_word_of_int)
  with n show ?thesis by (simp add: words_bytes_def u64_bytes_def)
qed

lemma concat_replicate_words:
  "concat (replicate n (words_bytes [a] @ words_bytes [b])) = words_bytes (concat (replicate n [a, b]))"
  by (induction n) (simp_all add: words_bytes_def)

definition rdbf_words :: "nat \<Rightarrow> InputData list \<Rightarrow> u64 list" where
  "rdbf_words n inputs = [word_of_nat n, word_of_nat (length inputs)] @
     concat (replicate n [word_of_int ACTOR_DATA_SIZE, 0]) @ concat (map input_words inputs)"

lemma save_rdbf_words:
  assumes "save_input_sequence_as_rdbf inputs = Inr file" and "inputs \<noteq> []"
    and "n_actors_of (hd inputs) = n"
  shows "file = words_bytes (rdbf_words n inputs) \<and> n < 2 ^ 64 \<and> length inputs < 2 ^ 64"
proof -
  from assms obtain h1 h2 sz rsv where
    h: "to_bytes8 (int n) = Inr h1" "to_bytes8 (int (length inputs)) = Inr h2"
       "to_bytes8 ACTOR_DATA_SIZE = Inr sz" "to_bytes8 0 = Inr rsv"
    and fl: "file = h1 @ h2 @ concat (replicate n (sz @ rsv)) @ concat (map input_save inputs)"
    by (auto simp: save_input_sequence_as_rdbf_def Let_def rbind_eq_Inr_iff)
  have "sz @ rsv = words_bytes [word_of_int ACTOR_DATA_SIZE, 0]"
    using to_bytes8_words [OF h(3)] to_bytes8_words [OF h(4)] by (simp add: words_bytes_pair)
  moreover have "concat (map input_save inputs) = words_bytes (concat (map input_words inputs))"
    by (simp add: words_bytes_concat comp_def input_save_def [abs_def])
  ultimately have "file = words_bytes (rdbf_words n inputs)"
    using to_bytes8_words [OF h(1)] to_bytes8_words [OF h(2)] fl
    by (simp only: rdbf_words_def concat_replicate_words words_bytes_append words_bytes_pair
        of_int_of_nat_eq append_assoc)
  then show ?thesis
    using to_bytes8_words [OF h(1)] to_bytes8_words [OF h(2)]
    by (metis of_nat_less_iff of_nat_numeral of_nat_power)
qed

lemma chunks_replicate: "chunks 2 (concat (replicate n [x, y])) = replicate n [x, y]"
  by (rule chunks_concat) auto



section \<open>Taint cells\<close>

text \<open>Where the taint cells of an area start inside one actor's taint view.\<close>

fun taint_area_start :: "DataArea list \<Rightarrow> DataArea \<Rightarrow> nat" where
  "taint_area_start [] a = 0"
| "taint_area_start (b # bs) a = (if a = b then 0 else area_entries b + taint_area_start bs a)"

lemma taint_offset_eq:
  "0 \<le> k \<Longrightarrow> k < 16384 \<Longrightarrow>
   taint_offset_from_sandbox_address (int i * 16384 + k) = Inr ((k - 4096) div 8 + int i * 1536)"
  by (simp add: taint_offset_from_sandbox_address_def per_actor_taint_size_def layout_simps
      Let_def div_add1_eq mod_add_eq [symmetric])

text \<open>
  The taint cell computed for a byte of an initialisable area of actor \<open>i\<close> is the cell of the
  64-bit input entry that initialises that byte: the entry of the same area, at the same index.
\<close>

theorem taint_offset_matches_input:
  assumes "a \<in> set ActorInput_areas" and "in_area a k"
  shows "taint_offset_from_sandbox_address (int i * data_size_per_actor + k) =
     Inr (int (i * per_actor_taint_size + taint_area_start ActorInput_areas a) + (k - area_off a) div 8)"
proof -
  have k: "0 \<le> k" "k < 16384" using assms(2) by (auto dest: in_area_range)
  have "(k - 4096) div 8 = int (taint_area_start ActorInput_areas a) + (k - area_off a) div 8"
    using assms by (auto simp: ActorInput_areas_def layout_simps)
  then show ?thesis
    using taint_offset_eq [OF k, of i] by (simp add: layout_simps per_actor_taint_size_def)
qed

theorem taint_offset_matches_input_witness:
  "taint_offset_from_sandbox_address (1 * data_size_per_actor + 12296) = Inr 2561"
proof -
  have "DA_GPR \<in> set ActorInput_areas" "in_area DA_GPR 12296"
    by (simp_all add: ActorInput_areas_def layout_simps)
  from taint_offset_matches_input [OF this, of 1] show ?thesis
    by (simp add: ActorInput_areas_def layout_simps per_actor_taint_size_def)
qed

end
