(* ===== verification/DataGenerator.thy ===== *)
theory DataGenerator
  imports TestCaseData
begin

unbundle bit_operations_syntax

text \<open>
  Model of \<^verbatim>\<open>rvzr/data_generator.py\<close>. The numpy random generator is not part of the repository: it is
  a parameter, a record of its constructor and of the two draws the code makes, each returning the
  value and the advanced generator. \<open>rng_sized\<close> is the documented behaviour that the code relies on:
  \<^verbatim>\<open>integers(m, size=n)\<close> returns \<open>n\<close> values below \<open>m\<close>. Probabilities are rational numbers.
\<close>

record 'g rng_ops =
  default_rng :: "int \<Rightarrow> 'g"
  rng_integers :: "'g \<Rightarrow> nat \<Rightarrow> nat \<Rightarrow> u64 list \<times> 'g"
  rng_random :: "'g \<Rightarrow> rat \<times> 'g"

definition rng_sized :: "'g rng_ops \<Rightarrow> bool" where
  "rng_sized R \<longleftrightarrow> (\<forall>g m n. length (fst (rng_integers R g m n)) = n \<and>
     (0 < m \<longrightarrow> (\<forall>w \<in> set (fst (rng_integers R g m n)). unat w < m)))"

lemma rng_sized_length: "rng_sized R \<Longrightarrow> rng_integers R g m n = (d, g') \<Longrightarrow> length d = n"
  unfolding rng_sized_def by (metis fst_conv)

lemma rng_sized_less:
  "rng_sized R \<Longrightarrow> rng_integers R g m n = (d, g') \<Longrightarrow> 0 < m \<Longrightarrow> w \<in> set d \<Longrightarrow> unat w < m"
  unfolding rng_sized_def by (metis fst_conv)

record gen_conf =
  data_generator_entropy_bits :: nat
  input_gen_probability_of_special_value :: rat

record DataGen =
  dg_state :: int
  dg_boosting_state :: int
  max_input_value :: nat
  skip_special_values :: bool
  probability_of_zero :: rat
  probability_of_max :: rat

definition DataGenerator_init :: "gen_conf \<Rightarrow> int \<Rightarrow> DataGen res" where
  "DataGenerator_init conf seed0 =
     (let p = input_gen_probability_of_special_value conf
      in py_assert (p * 2 < 1)
           (ok \<lparr>dg_state = seed0, dg_boosting_state = 0,
                max_input_value = 2 ^ data_generator_entropy_bits conf,
                skip_special_values = (p = 0), probability_of_zero = p, probability_of_max = p * 2\<rparr>))"

definition reset_boosting_state :: "DataGen \<Rightarrow> DataGen" where
  "reset_boosting_state D = D\<lparr>dg_boosting_state := dg_state D\<rparr>"

definition max_gpr_value :: u64 where
  "max_gpr_value = - 1"

text \<open>\<^verbatim>\<open>(data << np.uint64(32)) + data\<close>, on every entry, with 64-bit wrap-around.\<close>

definition duplicate_low :: "u64 \<Rightarrow> u64" where
  "duplicate_low w = push_bit 32 w + w"

text \<open>The loop over the registers: one roll each, and a special value on a low roll.\<close>

fun special_values ::
  "'g rng_ops \<Rightarrow> DataGen \<Rightarrow> nat list \<Rightarrow> 'g \<Rightarrow> ActorInput \<Rightarrow> ActorInput \<times> 'g" where
  "special_values R D [] g a = (a, g)"
| "special_values R D (reg_id # regs) g a =
     (let (roll, g') = rng_random R g;
          a' = (if roll < probability_of_zero D then a\<lparr>ai_gpr := (ai_gpr a)[reg_id := 0]\<rparr>
                else if roll < probability_of_max D
                then a\<lparr>ai_gpr := (ai_gpr a)[reg_id := max_gpr_value]\<rparr> else a)
      in special_values R D regs g' a')"

fun generate_actors ::
  "'g rng_ops \<Rightarrow> DataGen \<Rightarrow> nat list \<Rightarrow> 'g \<Rightarrow> InputData \<Rightarrow> InputData res" where
  "generate_actors R D [] g x = ok x"
| "generate_actors R D (i # is) g x =
     (let (data0, g1) = rng_integers R g (max_input_value D) actor_entries;
          data = map duplicate_low data0;
          (a, g2) = (if skip_special_values D then (actors x ! i, g1)
                     else special_values R D [0..<8] g1 (actors x ! i));
          x' = x\<lparr>actors := (actors x)[i := a]\<rparr>
      in rbind (set_actor_data x' i data) (\<lambda>x''. generate_actors R D is g2 x''))"

text \<open>\<open>mem\<close> is the uninitialised memory of the new array, one entry per actor.\<close>

definition generate_one ::
  "'g rng_ops \<Rightarrow> DataGen \<Rightarrow> ActorInput list \<Rightarrow> int \<Rightarrow> nat \<Rightarrow> (InputData \<times> int) res" where
  "generate_one R D mem state n_actors =
     rbind (generate_actors R D [0..<n_actors] (default_rng R state)
             ((InputData_new mem)\<lparr>seed := state\<rparr>))
       (\<lambda>x. ok (x, state + 1))"

fun generate_loop ::
  "'g rng_ops \<Rightarrow> DataGen \<Rightarrow> ActorInput list \<Rightarrow> nat \<Rightarrow> nat \<Rightarrow> int \<Rightarrow> (InputData list \<times> int) res" where
  "generate_loop R D mem n_actors 0 st = ok ([], st)"
| "generate_loop R D mem n_actors (Suc count) st =
     rbind (generate_one R D mem st n_actors)
       (\<lambda>(x, st'). rbind (generate_loop R D mem n_actors count st')
         (\<lambda>(xs, st''). ok (x # xs, st'')))"

text \<open>\<^verbatim>\<open>generate\<close>: a zero state is first replaced by the random seed \<open>rand\<close>.\<close>

definition generate ::
  "'g rng_ops \<Rightarrow> ActorInput list \<Rightarrow> int \<Rightarrow> DataGen \<Rightarrow> nat \<Rightarrow> nat \<Rightarrow> (InputData list \<times> DataGen) res" where
  "generate R mem rand D count n_actors =
     (let D1 = (if dg_state D = 0 then D\<lparr>dg_state := rand\<rparr> else D)
      in rbind (generate_loop R D1 mem n_actors count (dg_state D1))
           (\<lambda>(xs, st). ok (xs, D1\<lparr>dg_state := st, dg_boosting_state := st\<rparr>)))"

text \<open>Copying the tainted entries of one actor; only the first \<^verbatim>\<open>input_size\<close> entries are visited.\<close>

definition copy_tainted :: "bool list \<Rightarrow> u64 list \<Rightarrow> u64 list \<Rightarrow> u64 list" where
  "copy_tainted taint old new =
     map (\<lambda>j. if j < n_data_entries_per_actor \<and> taint ! j then old ! j else new ! j) [0..<length new]"

definition copy_tainted_input :: "InputTaint \<Rightarrow> InputData \<Rightarrow> InputData \<Rightarrow> nat \<Rightarrow> InputData res" where
  "copy_tainted_input taint old new n_actors =
     (if length taint < n_actors \<or> length (actors old) < n_actors then raise IndexError
      else ok (new\<lparr>actors :=
        map (\<lambda>i. actor_view (copy_tainted (taint ! i) (linear_view old i) (linear_view new i)))
          [0..<n_actors]\<rparr>))"

fun boost_round ::
  "'g rng_ops \<Rightarrow> DataGen \<Rightarrow> ActorInput list \<Rightarrow> nat \<Rightarrow> (InputData \<times> InputTaint) list \<Rightarrow> int \<Rightarrow>
   (InputData list \<times> int) res" where
  "boost_round R D mem n_actors [] st = ok ([], st)"
| "boost_round R D mem n_actors ((x, t) # xts) st =
     rbind (generate_one R D mem st n_actors)
       (\<lambda>(new, st'). rbind (copy_tainted_input t x new n_actors)
         (\<lambda>y. rbind (boost_round R D mem n_actors xts st')
           (\<lambda>(ys, st''). ok (y # ys, st''))))"

fun boost_rounds ::
  "'g rng_ops \<Rightarrow> DataGen \<Rightarrow> ActorInput list \<Rightarrow> nat \<Rightarrow> (InputData \<times> InputTaint) list \<Rightarrow> nat \<Rightarrow> int \<Rightarrow>
   (InputData list \<times> int) res" where
  "boost_rounds R D mem n_actors xts 0 st = ok ([], st)"
| "boost_rounds R D mem n_actors xts (Suc k) st =
     rbind (boost_round R D mem n_actors xts st)
       (\<lambda>(ys, st'). rbind (boost_rounds R D mem n_actors xts k st')
         (\<lambda>(zs, st''). ok (ys @ zs, st'')))"

definition generate_boosted ::
  "'g rng_ops \<Rightarrow> ActorInput list \<Rightarrow> DataGen \<Rightarrow> InputData list \<Rightarrow> InputTaint list \<Rightarrow> nat \<Rightarrow>
   (InputData list \<times> DataGen) res" where
  "generate_boosted R mem D inputs taints inputs_per_class =
     (if inputs = [] then ok ([], D)
      else py_assert (length inputs = length taints)
        (let D1 = reset_boosting_state D
         in rbind (boost_rounds R D1 mem (n_actors_of (hd inputs)) (zip inputs taints)
                    (inputs_per_class - 1) (dg_boosting_state D1))
              (\<lambda>(ys, st). ok (inputs @ ys, D1\<lparr>dg_boosting_state := st\<rparr>))))"

text \<open>
  \<^verbatim>\<open>load\<close>: each file has a size check and is loaded into a new input (the model takes the file
  contents); the state advances as if the inputs had been generated.
\<close>

definition load_one :: "ActorInput list \<Rightarrow> byte list \<Rightarrow> InputData res" where
  "load_one mem contents =
     (if length contents \<noteq> 8 * actor_entries * length mem then raise ValueError
      else input_load (InputData_new mem) contents)"

definition load :: "ActorInput list \<Rightarrow> int \<Rightarrow> DataGen \<Rightarrow> byte list list \<Rightarrow> (InputData list \<times> DataGen) res" where
  "load mem rand D files =
     (let D1 = (if dg_state D = 0 then D\<lparr>dg_state := rand\<rparr> else D)
      in rbind (rmapM (load_one mem) files)
           (\<lambda>xs. let st = dg_state D1 + int (length files)
                 in ok (xs, D1\<lparr>dg_state := st, dg_boosting_state := st\<rparr>)))"

section \<open>One generated input\<close>

lemma set_actor_data_eq:
  assumes "length data = actor_entries" and "i < length (actors x)"
  shows "set_actor_data x i data =
     Inr (x\<lparr>actors := (actors x)[i := (actor_view data)\<lparr>ai_padding := replicate (area_entries DA_OVERFLOW_PAD) 0\<rparr>]\<rparr>)"
  using assms by (simp add: set_actor_data_def)

text \<open>The data an actor ends up with, whatever was written into the array before.\<close>

definition actor_from_draw :: "u64 list \<Rightarrow> ActorInput" where
  "actor_from_draw d0 =
     (actor_view (map duplicate_low d0))\<lparr>ai_padding := replicate (area_entries DA_OVERFLOW_PAD) 0\<rparr>"

lemma wf_actor_from_draw: "length d0 = actor_entries \<Longrightarrow> wf_actor (actor_from_draw d0)"
  by (simp add: actor_from_draw_def wf_actor_def actor_view_def Let_def layout_simps)

text \<open>
  The draws one input makes, as a function of the generator alone: the data of every actor, and
  between two actors the eight rolls for the registers, whose values are not used.
\<close>

fun skip_rolls :: "'g rng_ops \<Rightarrow> nat \<Rightarrow> 'g \<Rightarrow> 'g" where
  "skip_rolls R 0 g = g"
| "skip_rolls R (Suc n) g = skip_rolls R n (snd (rng_random R g))"

fun actor_draws :: "'g rng_ops \<Rightarrow> DataGen \<Rightarrow> nat \<Rightarrow> 'g \<Rightarrow> u64 list list" where
  "actor_draws R D 0 g = []"
| "actor_draws R D (Suc n) g =
     (let (d, g1) = rng_integers R g (max_input_value D) actor_entries
      in d # actor_draws R D n (if skip_special_values D then g1 else skip_rolls R 8 g1))"

lemma special_values_rng: "snd (special_values R D regs g a) = skip_rolls R (length regs) g"
  by (induction regs arbitrary: g a) (auto split: prod.split)

lemma length_actor_draws [simp]: "length (actor_draws R D n g) = n"
  by (induction n arbitrary: g) (auto split: prod.split)

lemma actor_draws_drawn:
  "d \<in> set (actor_draws R D n g) \<Longrightarrow> \<exists>g0 g1. rng_integers R g0 (max_input_value D) actor_entries = (d, g1)"
proof (induction n arbitrary: g)
  case (Suc n)
  obtain d' g1 where d': "rng_integers R g (max_input_value D) actor_entries = (d', g1)"
    by (metis surj_pair)
  with Suc.prems consider "d = d'"
    | "d \<in> set (actor_draws R D n (if skip_special_values D then g1 else skip_rolls R 8 g1))"
    by (auto split: if_splits)
  then show ?case
    using d' Suc.IH by cases blast+
qed simp

lemma actor_draws_length: "rng_sized R \<Longrightarrow> d \<in> set (actor_draws R D n g) \<Longrightarrow> length d = actor_entries"
  by (metis actor_draws_drawn rng_sized_length)

lemma actor_draws_less:
  "rng_sized R \<Longrightarrow> 0 < max_input_value D \<Longrightarrow> d \<in> set (actor_draws R D n g) \<Longrightarrow> w \<in> set d \<Longrightarrow>
   unat w < max_input_value D"
  by (metis actor_draws_drawn rng_sized_less)

lemma generate_actors_eq:
  assumes "rng_sized R"
  shows "k + n = length (actors x) \<Longrightarrow>
    generate_actors R D [k..<k + n] g x =
      Inr (x\<lparr>actors := take k (actors x) @ map actor_from_draw (actor_draws R D n g)\<rparr>)"
proof (induction n arbitrary: k g x)
  case 0
  then show ?case by simp
next
  case (Suc n)
  obtain d g1 where d: "rng_integers R g (max_input_value D) actor_entries = (d, g1)"
    by (metis surj_pair)
  have len: "length d = actor_entries"
    using rng_sized_length [OF assms d] .
  obtain a g2 where a: "(if skip_special_values D then (actors x ! k, g1)
       else special_values R D [0..<8] g1 (actors x ! k)) = (a, g2)"
    by (metis surj_pair)
  have g2: "g2 = (if skip_special_values D then g1 else skip_rolls R 8 g1)"
    using a special_values_rng [of R D "[0..<8]" g1 "actors x ! k"] by (auto split: if_splits)
  define x1 where "x1 = x\<lparr>actors := (actors x)[k := actor_from_draw d]\<rparr>"
  have split: "[k..<k + Suc n] = k # [Suc k..<Suc k + n]"
    by (simp add: upt_conv_Cons)
  have "generate_actors R D [k..<k + Suc n] g x = generate_actors R D [Suc k..<Suc k + n] g2 x1"
    unfolding split using Suc.prems len a d
    by (simp add: set_actor_data_eq actor_from_draw_def x1_def del: upt_Suc)
  also have "\<dots> = Inr (x1\<lparr>actors := take (Suc k) (actors x1) @ map actor_from_draw (actor_draws R D n g2)\<rparr>)"
    using Suc.prems by (intro Suc.IH) (simp add: x1_def)
  finally show ?case
    using Suc.prems d unfolding g2 by (simp add: x1_def take_Suc_conv_app_nth del: upt_Suc)
qed

lemma generate_one_eq:
  assumes "rng_sized R" and "length mem = n"
  shows "generate_one R D mem st n =
     Inr (\<lparr>actors = map actor_from_draw (actor_draws R D n (default_rng R st)), seed = st\<rparr>, st + 1)"
  using generate_actors_eq [OF assms(1), of 0 n "(InputData_new mem)\<lparr>seed := st\<rparr>"] assms(2)
  by (simp add: generate_one_def InputData_new_def)


lemma duplicate_low_not_max:
  assumes "unat w < 2 ^ k" and "k < 32"
  shows "duplicate_low w \<noteq> max_gpr_value"
proof -
  have w: "unat w < 2 ^ 31"
    using assms power_increasing [of k 31 "2 :: nat"] by linarith
  have "unat (duplicate_low w) = (2 ^ 32 * unat w + unat w) mod 2 ^ 64"
    by (simp add: duplicate_low_def push_bit_eq_mult unat_word_ariths mod_simps)
  also have "\<dots> = 2 ^ 32 * unat w + unat w"
    using w by simp
  finally have "unat (duplicate_low w) < 2 ^ 64 - 1"
    using w by simp
  moreover have "unat max_gpr_value = 2 ^ 64 - 1"
    by (simp add: max_gpr_value_def unsigned_minus_1_eq_mask mask_eq_exp_minus_1)
  ultimately show ?thesis by auto
qed

text \<open>A small random generator, used in the witnesses: its state is the last seed.\<close>

definition const_rng :: "int rng_ops" where
  "const_rng = \<lparr>default_rng = (\<lambda>s. s), rng_integers = (\<lambda>g m n. (replicate n (if m \<le> 1 then 0 else 1), g + 1)),
     rng_random = (\<lambda>g. (0, g + 1))\<rparr>"

lemma const_rng_sized [simp]: "rng_sized const_rng"
  by (auto simp: rng_sized_def const_rng_def)

definition const_gen :: DataGen where
  "const_gen = \<lparr>dg_state = 7, dg_boosting_state = 0, max_input_value = 2 ^ 16,
     skip_special_values = False, probability_of_zero = 1 / 10, probability_of_max = 1 / 5\<rparr>"


text \<open>
  With fewer than 32 bits of entropy no register of a generated input holds the maximum value
  \<open>2^64 - 1\<close>, whatever the configured probability of special values is.
\<close>

theorem generate_one_no_max_register:
  assumes "rng_sized R" and "length mem = n" and "max_input_value D = 2 ^ k" and "k < 32"
    and "generate_one R D mem st n = Inr (x, st')" and "a \<in> set (actors x)"
  shows "max_gpr_value \<notin> set (ai_gpr a)"
proof -
  from generate_one_eq [OF assms(1,2)] assms(5,6) obtain d where
    d: "d \<in> set (actor_draws R D n (default_rng R st))" "a = actor_from_draw d"
    by auto
  have "set (ai_gpr a) \<subseteq> duplicate_low ` set d"
    by (auto simp: d(2) actor_from_draw_def actor_view_def Let_def dest!: in_set_takeD in_set_dropD)
  moreover have "duplicate_low w \<noteq> max_gpr_value" if "w \<in> set d" for w
    using actor_draws_less [OF assms(1) _ d(1) that] assms(3,4) by (intro duplicate_low_not_max) auto
  ultimately show ?thesis by fastforce
qed

theorem generate_one_no_max_register_witness:
  "\<exists>x. generate_one const_rng const_gen [actor_view (replicate 1536 99)] 7 1 = Inr (x, 8) \<and>
     max_gpr_value \<notin> set (ai_gpr (hd (actors x)))"
proof -
  have r: "generate_one const_rng const_gen [actor_view (replicate 1536 99)] 7 1 =
     Inr (\<lparr>actors = [actor_from_draw (replicate 1536 1)], seed = 7\<rparr>, 8)"
    using generate_one_eq [OF const_rng_sized, of "[actor_view (replicate 1536 99)]" 1 const_gen 7]
    by (simp add: const_rng_def const_gen_def layout_simps)
  have "max_gpr_value \<notin> set (ai_gpr (actor_from_draw (replicate 1536 1)))"
    by (rule generate_one_no_max_register [OF const_rng_sized _ _ _ r, of 16])
      (simp_all add: const_gen_def)
  with r show ?thesis by simp
qed

section \<open>Boosting\<close>

text \<open>
  What boosting promises of a new input \<open>y\<close> made from \<open>x\<close>: it is a well-formed input that agrees
  with \<open>x\<close> on every tainted entry of every actor.
\<close>

definition boosted_agrees :: "nat \<Rightarrow> InputData \<times> InputTaint \<Rightarrow> InputData \<Rightarrow> bool" where
  "boosted_agrees n xt y \<longleftrightarrow> wf_input n y \<and>
     (\<forall>i < n. \<forall>j < n_data_entries_per_actor. snd xt ! i ! j \<longrightarrow>
        linear_view y i ! j = linear_view (fst xt) i ! j)"

definition boostable :: "nat \<Rightarrow> InputData \<times> InputTaint \<Rightarrow> bool" where
  "boostable n xt \<longleftrightarrow> wf_input n (fst xt) \<and> length (snd xt) = n"

lemma length_copy_tainted [simp]: "length (copy_tainted t old new) = length new"
  by (simp add: copy_tainted_def)

lemma nth_copy_tainted:
  "j < length new \<Longrightarrow> j < n_data_entries_per_actor \<Longrightarrow> t ! j \<Longrightarrow> copy_tainted t old new ! j = old ! j"
  by (simp add: copy_tainted_def)

lemma copy_tainted_input_agrees:
  assumes "boostable n (x, t)" and "wf_input n new"
  shows "\<exists>y. copy_tainted_input t x new n = Inr y \<and> boosted_agrees n (x, t) y"
proof -
  have len: "length (linear_view new i) = actor_entries" if "i < n" for i
    using assms(2) that by (simp add: linear_view_def wf_input_def)
  define y where "y = new\<lparr>actors :=
    map (\<lambda>i. actor_view (copy_tainted (t ! i) (linear_view x i) (linear_view new i))) [0..<n]\<rparr>"
  have "copy_tainted_input t x new n = Inr y"
    using assms(1) by (simp add: copy_tainted_input_def boostable_def wf_input_def y_def)
  moreover have "wf_input n y"
    using len by (auto simp: wf_input_def y_def)
  moreover have "linear_view y i ! j = linear_view x i ! j"
    if "i < n" "j < n_data_entries_per_actor" "t ! i ! j" for i j
  proof -
    have "linear_view y i = copy_tainted (t ! i) (linear_view x i) (linear_view new i)"
      using that(1) len [OF that(1)] by (simp add: linear_view_def y_def)
    then show ?thesis
      using that len [OF that(1)] by (simp add: nth_copy_tainted layout_simps)
  qed
  ultimately show ?thesis by (auto simp: boosted_agrees_def)
qed

lemma generate_one_wf:
  assumes "rng_sized R" and "length mem = n"
  shows "\<exists>new. generate_one R D mem st n = Inr (new, st + 1) \<and> wf_input n new"
proof -
  have "wf_actor (actor_from_draw d)" if "d \<in> set (actor_draws R D n g)" for d g
    using actor_draws_length [OF assms(1) that] by (rule wf_actor_from_draw)
  then show ?thesis by (auto simp: generate_one_eq [OF assms] wf_input_def)
qed

lemma boost_round_ok:
  assumes "rng_sized R" and "length mem = n" and "\<forall>xt \<in> set xts. boostable n xt"
  shows "\<exists>ys st'. boost_round R D mem n xts st = Inr (ys, st') \<and> list_all2 (boosted_agrees n) xts ys"
  using assms(3)
proof (induction xts arbitrary: st)
  case (Cons xt xts)
  obtain x t where xt: "xt = (x, t)" by (cases xt)
  obtain new where new: "generate_one R D mem st n = Inr (new, st + 1)" "wf_input n new"
    using generate_one_wf [OF assms(1,2)] by blast
  moreover obtain y where "copy_tainted_input t x new n = Inr y" "boosted_agrees n (x, t) y"
    using copy_tainted_input_agrees [OF _ new(2)] Cons.prems xt by force
  moreover obtain ys st' where "boost_round R D mem n xts (st + 1) = Inr (ys, st')"
    "list_all2 (boosted_agrees n) xts ys"
    using Cons.IH Cons.prems by fastforce
  ultimately show ?case by (auto simp: xt)
qed simp

lemma boost_rounds_ok:
  assumes "rng_sized R" and "length mem = n" and "\<forall>xt \<in> set xts. boostable n xt"
  shows "\<exists>yss st'. boost_rounds R D mem n xts k st = Inr (concat yss, st') \<and> length yss = k \<and>
     (\<forall>ys \<in> set yss. list_all2 (boosted_agrees n) xts ys)"
proof (induction k arbitrary: st)
  case (Suc k)
  obtain ys st1 where ys: "boost_round R D mem n xts st = Inr (ys, st1)"
    "list_all2 (boosted_agrees n) xts ys"
    using boost_round_ok [OF assms] by blast
  obtain yss st2 where "boost_rounds R D mem n xts k st1 = Inr (concat yss, st2)" "length yss = k"
    "\<forall>ys \<in> set yss. list_all2 (boosted_agrees n) xts ys"
    using Suc.IH by blast
  with ys show ?case by (intro exI [of _ "ys # yss"]) auto
qed simp

text \<open>
  C25. Boosting \<open>m\<close> inputs with \<open>k\<close> inputs per class returns the original inputs followed by
  \<open>k - 1\<close> rounds of \<open>m\<close> new inputs; in every round the input at a position is well-formed and
  equals the original at that position on all tainted entries. The generator's own state is
  unchanged.
\<close>

theorem generate_boosted_spec:
  assumes "rng_sized R" and "length mem = n" and "inputs \<noteq> []" and "n_actors_of (hd inputs) = n"
    and "length taints = length inputs" and "\<forall>xt \<in> set (zip inputs taints). boostable n xt"
  shows "\<exists>yss D'. generate_boosted R mem D inputs taints k = Inr (concat (inputs # yss), D') \<and>
     length yss = k - 1 \<and>
     (\<forall>ys \<in> set yss. list_all2 (boosted_agrees n) (zip inputs taints) ys) \<and>
     dg_state D' = dg_state D"
  using boost_rounds_ok [OF assms(1,2,6), of "reset_boosting_state D" "k - 1" "dg_state D"] assms(3-5)
  by (fastforce simp: generate_boosted_def reset_boosting_state_def Let_def)

definition sample_input :: InputData where
  "sample_input = \<lparr>actors = [actor_view (replicate 1536 5)], seed = 3\<rparr>"

theorem generate_boosted_spec_witness:
  "\<exists>yss D'. generate_boosted const_rng [actor_view (replicate 1536 0)] const_gen [sample_input]
       [InputTaint_new 1] 3 = Inr (concat ([sample_input] # yss), D') \<and> length yss = 2"
proof -
  have "\<forall>xt \<in> set (zip [sample_input] [InputTaint_new 1]). boostable 1 xt"
    by (simp add: boostable_def sample_input_def wf_input_def InputTaint_new_def layout_simps)
  from generate_boosted_spec [OF const_rng_sized _ _ _ _ this, of "[actor_view (replicate 1536 0)]"
      const_gen 3]
  show ?thesis by (auto simp: sample_input_def n_actors_of_def)
qed

text \<open>
  Boosting is idempotent: run again on the generator it leaves behind, with the same inputs and
  taints, it returns the same sequence and the same generator.
\<close>

theorem generate_boosted_idempotent:
  assumes "generate_boosted R mem D inputs taints k = Inr (ys, D')"
  shows "generate_boosted R mem D' inputs taints k = Inr (ys, D')"
  using assms
  by (auto simp: generate_boosted_def reset_boosting_state_def py_assert_def Let_def rbind_eq_Inr_iff
      split: if_splits)

theorem generate_boosted_idempotent_witness:
  "\<exists>ys D'. generate_boosted const_rng [] const_gen [\<lparr>actors = [], seed = 0\<rparr>] [[]] 2 = Inr (ys, D') \<and>
     generate_boosted const_rng [] D' [\<lparr>actors = [], seed = 0\<rparr>] [[]] 2 = Inr (ys, D')"
proof -
  obtain ys D' where r: "generate_boosted const_rng [] const_gen [\<lparr>actors = [], seed = 0\<rparr>] [[]] 2 = Inr (ys, D')"
    by (simp add: generate_boosted_def Let_def n_actors_of_def generate_one_def copy_tainted_input_def
        numeral_2_eq_2)
  from generate_boosted_idempotent [OF this] r show ?thesis by blast
qed

end
