(* ===== verification/PyString.thy ===== *)
theory PyString
  imports Prelude
begin

text \<open>
  The methods of Python's \<^verbatim>\<open>str\<close> that the sources use, on ASCII strings: case folding, stripping,
  splitting, replacing, prefix and substring tests and the hexadecimal form of an address.
\<close>

definition lower_char :: "char \<Rightarrow> char" where
  "lower_char c = (let n = of_char c :: nat in if 65 \<le> n \<and> n \<le> 90 then char_of (n + 32) else c)"

definition lower :: "string \<Rightarrow> string" where
  "lower s = map lower_char s"

definition is_space :: "char \<Rightarrow> bool" where
  "is_space c = (let n = of_char c :: nat in n = 32 \<or> (9 \<le> n \<and> n \<le> 13) \<or> (28 \<le> n \<and> n \<le> 31))"

definition is_digit :: "char \<Rightarrow> bool" where
  "is_digit c = (let n = of_char c :: nat in 48 \<le> n \<and> n \<le> 57)"

definition strip :: "string \<Rightarrow> string" where
  "strip s = rev (dropWhile is_space (rev (dropWhile is_space s)))"

definition isdigit :: "string \<Rightarrow> bool" where
  "isdigit s = (s \<noteq> [] \<and> list_all is_digit s)"

fun starts_with :: "string \<Rightarrow> string \<Rightarrow> bool" where
  "starts_with s [] = True"
| "starts_with [] (p # ps) = False"
| "starts_with (c # cs) (p # ps) = (c = p \<and> starts_with cs ps)"

fun contains :: "string \<Rightarrow> string \<Rightarrow> bool" where
  "contains [] p = (p = [])"
| "contains (c # cs) p = (starts_with (c # cs) p \<or> contains cs p)"

text \<open>\<^verbatim>\<open>s.replace(p, '')\<close> for a non-empty \<open>p\<close>: leftmost occurrences, without overlap.\<close>

function remove_all :: "string \<Rightarrow> string \<Rightarrow> string" where
  "remove_all p s =
     (if p = [] \<or> s = [] then s
      else if starts_with s p then remove_all p (drop (length p) s)
      else hd s # remove_all p (tl s))"
  by pat_completeness auto
termination
  by (relation "measure (\<lambda>(p, s). length s)") auto

declare remove_all.simps [simp del]

text \<open>Splitting at single characters: the pieces between the separators, empty pieces included.\<close>

fun split_on :: "(char \<Rightarrow> bool) \<Rightarrow> string \<Rightarrow> string list" where
  "split_on P [] = [[]]"
| "split_on P (c # cs) =
     (if P c then [] # split_on P cs
      else (case split_on P cs of [] \<Rightarrow> [[c]] | w # ws \<Rightarrow> (c # w) # ws))"

definition removeprefix :: "string \<Rightarrow> string \<Rightarrow> string" where
  "removeprefix s p = (if starts_with s p then drop (length p) s else s)"

lemma lower_lower [simp]: "lower (lower s) = lower s"
proof -
  have "lower_char (lower_char c) = lower_char c" for c
    by (auto simp: lower_char_def Let_def)
  then show ?thesis by (simp add: lower_def)
qed

lemma starts_with_iff: "starts_with s p \<longleftrightarrow> take (length p) s = p"
  by (induction s p rule: starts_with.induct) auto

lemma starts_with_append [simp]: "starts_with (p @ s) p"
  by (simp add: starts_with_iff)

lemma split_on_nonempty: "split_on P s \<noteq> []"
  by (induction s) (auto split: list.split)

section \<open>Hexadecimal numbers\<close>

definition hex_digit :: "nat \<Rightarrow> char" where
  "hex_digit d = char_of (if d < 10 then 48 + d else 87 + d)"

fun hex_digits :: "nat \<Rightarrow> string" where
  "hex_digits n = (if n < 16 then [hex_digit n] else hex_digits (n div 16) @ [hex_digit (n mod 16)])"

declare hex_digits.simps [simp del]

text \<open>\<^verbatim>\<open>hex(n)\<close> for a non-negative \<open>n\<close>.\<close>

definition hex :: "nat \<Rightarrow> string" where
  "hex n = ''0x'' @ hex_digits n"

definition hex_int :: "int \<Rightarrow> string" where
  "hex_int n = (if n < 0 then ''-'' @ hex (nat (- n)) else hex (nat n))"

definition hex_digit_value :: "char \<Rightarrow> nat option" where
  "hex_digit_value c =
     (let n = of_char c :: nat
      in if 48 \<le> n \<and> n \<le> 57 then Some (n - 48)
         else if 97 \<le> n \<and> n \<le> 102 then Some (n - 87)
         else if 65 \<le> n \<and> n \<le> 70 then Some (n - 55) else None)"

fun hex_value :: "nat \<Rightarrow> string \<Rightarrow> nat option" where
  "hex_value acc [] = Some acc"
| "hex_value acc (c # cs) =
     (case hex_digit_value c of None \<Rightarrow> None | Some d \<Rightarrow> hex_value (16 * acc + d) cs)"

text \<open>\<^verbatim>\<open>int(s, 16)\<close> on a string with the \<^verbatim>\<open>0x\<close> prefix.\<close>

definition int_of_hex :: "string \<Rightarrow> nat res" where
  "int_of_hex s =
     (case hex_value 0 (removeprefix s ''0x'') of None \<Rightarrow> raise ValueError | Some n \<Rightarrow> ok n)"

lemma hex_digit_value_digit: "d < 16 \<Longrightarrow> hex_digit_value (hex_digit d) = Some d"
  by (auto simp: hex_digit_value_def hex_digit_def Let_def)

lemma hex_value_append: "hex_value acc (xs @ ys) = Option.bind (hex_value acc xs) (\<lambda>a. hex_value a ys)"
  by (induction xs arbitrary: acc) (auto split: option.split)

lemma hex_value_digits: "hex_value 0 (hex_digits n) = Some n"
proof (induction n rule: hex_digits.induct)
  case (1 n)
  show ?case
  proof (cases "n < 16")
    case True
    then show ?thesis by (simp add: hex_digits.simps [of n] hex_digit_value_digit)
  next
    case False
    with 1 show ?thesis
      by (simp add: hex_digits.simps [of n] hex_value_append hex_digit_value_digit)
  qed
qed

lemma int_of_hex_hex [simp]: "int_of_hex (hex n) = Inr n"
  by (simp add: int_of_hex_def hex_def removeprefix_def hex_value_digits)

lemma hex_inject [simp]: "hex m = hex n \<longleftrightarrow> m = n"
  by (metis int_of_hex_hex sum.inject(2))

lemma starts_with_hex [simp]: "starts_with (hex n) ''0x''"
  by (simp add: hex_def)

section \<open>Decimal numbers and lists\<close>

definition dec_digit :: "nat \<Rightarrow> char" where
  "dec_digit d = char_of (48 + d)"

fun str_nat :: "nat \<Rightarrow> string" where
  "str_nat n = (if n < 10 then [dec_digit n] else str_nat (n div 10) @ [dec_digit (n mod 10)])"

declare str_nat.simps [simp del]

text \<open>\<^verbatim>\<open>str(i)\<close> of a Python integer.\<close>

definition str_int :: "int \<Rightarrow> string" where
  "str_int i = (if i < 0 then CHR ''-'' # str_nat (nat (- i)) else str_nat (nat i))"

text \<open>\<^verbatim>\<open>sep.join(xs)\<close> and \<^verbatim>\<open>str(xs)\<close> of a list of integers.\<close>

fun join :: "string \<Rightarrow> string list \<Rightarrow> string" where
  "join sep [] = []"
| "join sep [x] = x"
| "join sep (x # y # ys) = x @ sep @ join sep (y # ys)"

definition str_int_list :: "int list \<Rightarrow> string" where
  "str_int_list xs = ''['' @ join '', '' (map str_int xs) @ '']''"

fun dec_value :: "nat \<Rightarrow> string \<Rightarrow> nat" where
  "dec_value acc [] = acc"
| "dec_value acc (c # cs) = dec_value (10 * acc + (of_char c - 48)) cs"

lemma dec_value_append: "dec_value acc (xs @ ys) = dec_value (dec_value acc xs) ys"
  by (induction xs arbitrary: acc) auto

lemma dec_value_str_nat: "dec_value 0 (str_nat n) = n"
proof (induction n rule: str_nat.induct)
  case (1 n)
  then show ?case
    by (cases "n < 10") (simp_all add: str_nat.simps [of n] dec_value_append dec_digit_def)
qed

lemma str_nat_digits: "c \<in> set (str_nat n) \<Longrightarrow> 48 \<le> (of_char c :: nat) \<and> (of_char c :: nat) < 58"
proof (induction n rule: str_nat.induct)
  case (1 n)
  have "n mod 10 < 10" by simp
  with 1 show ?case
    by (cases "n < 10") (auto simp: str_nat.simps [of n] dec_digit_def)
qed

lemma str_nat_nonempty [simp]: "str_nat n \<noteq> []"
  by (subst str_nat.simps) simp

lemma str_int_chars:
  assumes "c \<in> set (str_int i)"
  shows "c \<noteq> CHR '','' \<and> c \<noteq> CHR '']''"
proof (cases "c = CHR ''-''")
  case False
  then have "48 \<le> (of_char c :: nat) \<and> (of_char c :: nat) < 58"
    using assms str_nat_digits [of c] by (auto simp: str_int_def split: if_splits)
  then show ?thesis by auto
qed simp

lemma str_int_nonempty [simp]: "str_int i \<noteq> []"
  by (simp add: str_int_def)

lemma str_int_inject [simp]: "str_int i = str_int j \<longleftrightarrow> i = j"
proof
  assume eq: "str_int i = str_int j"
  have minus: "CHR ''-'' \<notin> set (str_nat n)" for n
    using str_nat_digits [of "CHR ''-''" n] by auto
  have val: "str_nat m = str_nat n \<Longrightarrow> m = n" for m n
    by (metis dec_value_str_nat)
  have cross: "CHR ''-'' # str_nat m \<noteq> str_nat n" "str_nat n \<noteq> CHR ''-'' # str_nat m" for m n
    using minus [of n] by (metis list.set_intros(1))+
  show "i = j"
    using eq by (auto simp: str_int_def cross split: if_splits dest!: val)
qed simp

lemma join_eq_Nil: "join sep (x # xs) = [] \<Longrightarrow> x = []"
  by (cases xs) auto

lemma join_comma_inject:
  assumes "\<forall>x \<in> set xs. CHR '','' \<notin> set x \<and> x \<noteq> []" and "\<forall>y \<in> set ys. CHR '','' \<notin> set y \<and> y \<noteq> []"
    and "join '', '' xs = join '', '' ys"
  shows "xs = ys"
  using assms
proof (induction "'', ''" xs arbitrary: ys rule: join.induct)
  case 1
  then show ?case by (cases ys) (auto dest: join_eq_Nil [OF sym])
next
  case (2 x)
  show ?case
  proof (cases ys)
    case (Cons y zs)
    show ?thesis
    proof (cases zs)
      case (Cons z ws)
      then have "CHR '','' \<in> set x"
        using 2 \<open>ys = y # zs\<close> by (metis append_Cons in_set_conv_decomp join.simps(2,3))
      then show ?thesis using 2 by simp
    qed (use 2 \<open>ys = y # zs\<close> in simp)
  qed (use 2 in simp)
next
  case (3 x x' xs)
  show ?case
  proof (cases ys)
    case (Cons y zs)
    show ?thesis
    proof (cases zs)
      case Nil
      then have "CHR '','' \<in> set y"
        using 3 Cons by (metis append_Cons in_set_conv_decomp join.simps(2,3))
      then show ?thesis using 3 Cons by simp
    next
      case zs: (Cons z ws)
      have eq: "x @ CHR '','' # CHR '' '' # join '', '' (x' # xs) = y @ CHR '','' # CHR '' '' # join '', '' (z # ws)"
        using "3.prems"(3) Cons zs by simp
      have "takeWhile (\<lambda>c. c \<noteq> CHR '','') (x @ CHR '','' # r) = x" if "CHR '','' \<notin> set x" for x r
        using that by (induction x) auto
      then have "x = y"
        using eq "3.prems"(1,2) Cons by (metis list.set_intros(1))
      with eq have "join '', '' (x' # xs) = join '', '' (z # ws)" by simp
      then show ?thesis
        using "3.hyps" [of "z # ws"] "3.prems"(1,2) Cons zs \<open>x = y\<close> by simp
    qed
  qed (use 3 in simp)
qed

lemma str_int_list_inject [simp]: "str_int_list xs = str_int_list ys \<longleftrightarrow> xs = ys"
proof
  assume "str_int_list xs = str_int_list ys"
  then have "join '', '' (map str_int xs) = join '', '' (map str_int ys)"
    by (simp add: str_int_list_def)
  then have "map str_int xs = map str_int ys"
    by (rule join_comma_inject [rotated 2]) (auto dest: str_int_chars)
  then show "xs = ys"
    by (metis (no_types, lifting) list.inj_map_strong str_int_inject)
qed simp

section \<open>Parsing decimal numbers\<close>

text \<open>
  \<^verbatim>\<open>int(s)\<close> on a decimal literal: surrounding white space and a sign are accepted. Underscores between
  digits, which Python also accepts, do not occur in the inputs.
\<close>

definition int_of_str :: "string \<Rightarrow> int res" where
  "int_of_str s =
     (let t = strip s;
          neg = (t \<noteq> [] \<and> hd t = CHR ''-'');
          u = (if t \<noteq> [] \<and> (hd t = CHR ''-'' \<or> hd t = CHR ''+'') then tl t else t)
      in if isdigit u then ok (if neg then - int (dec_value 0 u) else int (dec_value 0 u))
         else raise ValueError)"

lemma is_space_digit: "is_digit c \<Longrightarrow> \<not> is_space c"
  by (auto simp: is_digit_def is_space_def Let_def)

lemma strip_id: "\<forall>c \<in> set s. \<not> is_space c \<Longrightarrow> strip s = s"
proof -
  assume "\<forall>c \<in> set s. \<not> is_space c"
  then have "dropWhile is_space s = s" "dropWhile is_space (rev s) = rev s"
    by (auto simp: dropWhile_eq_self_iff hd_rev)
  then show ?thesis by (simp add: strip_def)
qed

lemma str_nat_is_digit: "c \<in> set (str_nat n) \<Longrightarrow> is_digit c"
  using str_nat_digits [of c n] by (auto simp: is_digit_def Let_def)

lemma int_of_str_str_nat [simp]: "int_of_str (str_nat n) = Inr (int n)"
proof -
  have "strip (str_nat n) = str_nat n"
    using str_nat_is_digit is_space_digit by (intro strip_id) blast
  moreover have "is_digit (hd (str_nat n))"
    using str_nat_is_digit [of "hd (str_nat n)" n] by simp
  then have "hd (str_nat n) \<noteq> CHR ''-''" "hd (str_nat n) \<noteq> CHR ''+''"
    by (auto simp: is_digit_def)
  moreover have "isdigit (str_nat n)"
    using str_nat_is_digit by (auto simp: isdigit_def list_all_iff)
  ultimately show ?thesis by (simp add: int_of_str_def dec_value_str_nat)
qed

lemma split_on_append:
  assumes "\<forall>c \<in> set x. \<not> P c" and "P d"
  shows "split_on P (x @ d # s) = x # split_on P s"
  using assms by (induction x) auto

lemma split_on_none: "\<forall>c \<in> set x. \<not> P c \<Longrightarrow> split_on P x = [x]"
  by (induction x) auto

lemma split_on_join:
  assumes "\<forall>x \<in> set xs. \<forall>c \<in> set x. \<not> P c" and "P d" and "xs \<noteq> []"
  shows "split_on P (join [d] xs) = xs"
  using assms
proof (induction "[d]" xs rule: join.induct)
  case (3 x y ys)
  then show ?case using split_on_append [of x P d] by simp
qed (auto simp: split_on_none)

lemma contains_first: "contains s (p # ps) \<Longrightarrow> p \<in> set s"
proof (induction s)
  case (Cons c cs)
  then show ?case by auto
qed simp

section \<open>Binary numbers and literals of any base\<close>

fun bin_digits :: "nat \<Rightarrow> string" where
  "bin_digits n = (if n < 2 then [hex_digit n] else bin_digits (n div 2) @ [hex_digit (n mod 2)])"

declare bin_digits.simps [simp del]

text \<open>\<^verbatim>\<open>bin(n)\<close>.\<close>

definition bin_str :: "int \<Rightarrow> string" where
  "bin_str n = (if n < 0 then ''-0b'' @ bin_digits (nat (- n)) else ''0b'' @ bin_digits (nat n))"

fun radix_value :: "nat \<Rightarrow> nat \<Rightarrow> string \<Rightarrow> nat option" where
  "radix_value b acc [] = Some acc"
| "radix_value b acc (c # cs) =
     (case hex_digit_value c of None \<Rightarrow> None | Some d \<Rightarrow> if d < b then radix_value b (b * acc + d) cs else None)"

text \<open>
  \<^verbatim>\<open>int(s, base=0)\<close> on literals with a lower case prefix, without spaces and underscores: the prefix
  chooses the base, and a decimal literal must not have superfluous zeros in front.
\<close>

definition unsigned_base0 :: "string \<Rightarrow> nat option" where
  "unsigned_base0 s =
     (let digits = (\<lambda>b u. if u = [] then None else radix_value b 0 u)
      in if starts_with s ''0b'' then digits 2 (drop 2 s)
         else if starts_with s ''0o'' then digits 8 (drop 2 s)
         else if starts_with s ''0x'' then digits 16 (drop 2 s)
         else if s \<noteq> [] \<and> hd s = CHR ''0'' \<and> list_ex (\<lambda>c. c \<noteq> CHR ''0'') s then None
         else digits 10 s)"

definition int_base0 :: "string \<Rightarrow> int res" where
  "int_base0 s =
     (case s of
        [] \<Rightarrow> raise ValueError
      | c # cs \<Rightarrow>
          (case unsigned_base0 (if c = CHR ''-'' \<or> c = CHR ''+'' then cs else s) of
             None \<Rightarrow> raise ValueError
           | Some n \<Rightarrow> ok (if c = CHR ''-'' then - int n else int n)))"

lemma radix_value_append: "radix_value b acc (xs @ ys) = Option.bind (radix_value b acc xs) (\<lambda>a. radix_value b a ys)"
  by (induction xs arbitrary: acc) (auto split: option.split)

lemma radix_value_bin_digits: "radix_value 2 0 (bin_digits n) = Some n"
proof (induction n rule: bin_digits.induct)
  case (1 n)
  show ?case
  proof (cases "n < 2")
    case True
    then show ?thesis by (simp add: bin_digits.simps [of n] hex_digit_value_digit)
  next
    case False
    with 1 show ?thesis by (simp add: bin_digits.simps [of n] radix_value_append hex_digit_value_digit)
  qed
qed

lemma bin_digits_nonempty [simp]: "bin_digits n \<noteq> []"
  by (subst bin_digits.simps) simp

lemma int_base0_bin_str: "0 \<le> n \<Longrightarrow> int_base0 (bin_str n) = Inr n"
  by (simp add: int_base0_def bin_str_def unsigned_base0_def radix_value_bin_digits)

lemma radix_value_ones: "radix_value 2 acc (replicate n CHR ''1'') = Some (acc * 2 ^ n + (2 ^ n - 1))"
proof (induction n arbitrary: acc)
  case (Suc n)
  have "(2 * acc + 1) * 2 ^ n + (2 ^ n - 1) = acc * 2 ^ Suc n + (2 ^ Suc n - 1 :: nat)"
    by (simp add: algebra_simps)
  then show ?case by (simp add: Suc.IH hex_digit_value_def)
qed simp

lemma radix_value_zeros: "radix_value 2 acc (replicate n CHR ''0'') = Some (acc * 2 ^ n)"
  by (induction n arbitrary: acc) (simp_all add: hex_digit_value_def mult.assoc)

lemma hd_str_nat_zero: "hd (str_nat n) = CHR ''0'' \<Longrightarrow> str_nat n = ''0''"
proof (induction n rule: str_nat.induct)
  case (1 n)
  show ?case
  proof (cases "n < 10")
    case True
    then show ?thesis using 1(2) by (simp add: str_nat.simps [of n])
  next
    case False
    then have s: "str_nat n = str_nat (n div 10) @ [dec_digit (n mod 10)]" by (simp add: str_nat.simps [of n])
    then have "hd (str_nat (n div 10)) = CHR ''0''" using 1(2) by simp
    with 1(1) False have "str_nat (n div 10) = ''0''" by simp
    then have "dec_value 0 (str_nat (n div 10)) = 0" by simp
    then show ?thesis using False by (simp add: dec_value_str_nat)
  qed
qed

lemma radix_value_dec: "\<forall>c \<in> set s. is_digit c \<Longrightarrow> radix_value 10 acc s = Some (dec_value acc s)"
  by (induction s arbitrary: acc) (auto simp: is_digit_def hex_digit_value_def Let_def mult.commute)

lemma int_base0_str_nat: "int_base0 (str_nat n) = Inr (int n)"
proof -
  have d: "\<forall>c \<in> set (str_nat n). is_digit c" using str_nat_is_digit by blast
  obtain c cs where s: "str_nat n = c # cs" by (cases "str_nat n") auto
  have c: "is_digit c" using d s by simp
  have sign: "c \<noteq> CHR ''-''" "c \<noteq> CHR ''+''" using c by (auto simp: is_digit_def)
  have pre: "\<not> starts_with (str_nat n) [x, y]" if "\<not> is_digit y" for x y
  proof
    assume "starts_with (str_nat n) [x, y]"
    then have "y \<in> set (str_nat n)" unfolding starts_with_iff by (metis in_set_takeD list.set_intros(1,2))
    then show False using d that by blast
  qed
  have lead: "\<not> (str_nat n \<noteq> [] \<and> hd (str_nat n) = CHR ''0'' \<and> list_ex (\<lambda>c. c \<noteq> CHR ''0'') (str_nat n))"
    using hd_str_nat_zero [of n] by auto
  have nd: "\<not> is_digit (CHR ''b'')" "\<not> is_digit (CHR ''o'')" "\<not> is_digit (CHR ''x'')" by (simp_all add: is_digit_def)
  have "unsigned_base0 (str_nat n) = Some n"
    unfolding unsigned_base0_def Let_def if_not_P [OF lead]
    using pre nd by (simp add: radix_value_dec [OF d] dec_value_str_nat)
  then show ?thesis using sign by (simp add: int_base0_def s)
qed

end
