(* ===== verification/Instruction.thy ===== *)
theory Instruction
  imports PyString
begin

text \<open>
  Model of \<^verbatim>\<open>rvzr/instruction_spec.py\<close> and \<^verbatim>\<open>rvzr/tc_components/instruction.py\<close>: operand and
  instruction specifications, operands of the seven kinds with their constructors, and instructions
  with the queries on their operands, the write-once assembly and binary properties and the copy
  operations. An object is a record; the class of an operand is a field of a datatype that also
  holds what the subclass adds.
\<close>

section \<open>Specifications\<close>

datatype OT = OT_REG | OT_MEM | OT_IMM | OT_LABEL | OT_AGEN | OT_FLAGS | OT_COND

record OperandSpec =
  os_values :: "string list"
  os_type :: OT
  os_xtype :: "string option"
  os_width :: int
  os_src :: bool
  os_dest :: bool
  os_is_signed :: bool
  os_has_magic_value :: bool

record InstructionSpec =
  is_name :: string
  is_category :: string
  is_is_control_flow :: bool
  is_operands :: "OperandSpec list"
  is_implicit_operands :: "OperandSpec list"
  is_has_mem_operand :: bool
  is_has_write :: bool
  is_has_magic_value :: bool

definition InstructionSpec_init :: "string \<Rightarrow> string \<Rightarrow> bool \<Rightarrow> InstructionSpec" where
  "InstructionSpec_init name category cf =
     \<lparr>is_name = name, is_category = category, is_is_control_flow = cf, is_operands = [],
      is_implicit_operands = [], is_has_mem_operand = False, is_has_write = False,
      is_has_magic_value = False\<rparr>"

section \<open>Operands\<close>

datatype op_class =
    RegisterOp int
  | MemoryOp int
  | ImmediateOp int
  | LabelOp
  | AgenOp int
  | FlagsOp "string list"
  | CondOp

record Operand =
  op_value :: string
  op_src :: bool
  op_dest :: bool
  op_has_magic_value :: bool
  op_class :: op_class

definition Operand_init :: "op_class \<Rightarrow> string \<Rightarrow> bool \<Rightarrow> bool \<Rightarrow> Operand" where
  "Operand_init c v src dest =
     \<lparr>op_value = lower v, op_src = src, op_dest = dest, op_has_magic_value = False, op_class = c\<rparr>"

definition RegSizes :: "int list" where
  "RegSizes = [8, 16, 32, 64, 128, 256]"

definition RegisterOp_init :: "string \<Rightarrow> int \<Rightarrow> bool \<Rightarrow> bool \<Rightarrow> Operand res" where
  "RegisterOp_init v w src dest =
     py_assert (w \<in> set RegSizes) (ok (Operand_init (RegisterOp w) v src dest))"

definition MemoryOp_init :: "string \<Rightarrow> int \<Rightarrow> bool \<Rightarrow> bool \<Rightarrow> Operand" where
  "MemoryOp_init v w src dest = Operand_init (MemoryOp w) v src dest"

definition ImmediateOp_init :: "string \<Rightarrow> int \<Rightarrow> Operand" where
  "ImmediateOp_init v w = Operand_init (ImmediateOp w) v True False"

definition LabelOp_init :: "string \<Rightarrow> Operand" where
  "LabelOp_init v = Operand_init LabelOp v True False"

definition AgenOp_init :: "string \<Rightarrow> int \<Rightarrow> Operand" where
  "AgenOp_init v w = Operand_init (AgenOp w) v True False"

definition flag_names :: "string list" where
  "flag_names = [''CF'', ''PF'', ''AF'', ''ZF'', ''SF'', ''TF'', ''IF'', ''DF'', ''OF'']"

definition FlagsOp_init :: "string list \<Rightarrow> Operand res" where
  "FlagsOp_init v =
     py_assert (length v = length flag_names) (ok (Operand_init (FlagsOp v) ''FLAGS'' False False))"

definition CondOp_init :: "string \<Rightarrow> Operand" where
  "CondOp_init v = Operand_init CondOp v True False"

definition from_fixed_spec :: "OperandSpec \<Rightarrow> Operand res" where
  "from_fixed_spec sp =
     py_assert (length (os_values sp) \<le> 1 \<or> os_type sp = OT_FLAGS)
       (let v = (case os_values sp of [] \<Rightarrow> '''' | x # _ \<Rightarrow> x)
        in case os_type sp of
             OT_REG \<Rightarrow> RegisterOp_init v (os_width sp) (os_src sp) (os_dest sp)
           | OT_MEM \<Rightarrow> ok (MemoryOp_init v (os_width sp) (os_src sp) (os_dest sp))
           | OT_IMM \<Rightarrow> ok (ImmediateOp_init v (os_width sp))
           | OT_LABEL \<Rightarrow> ok (LabelOp_init v)
           | OT_AGEN \<Rightarrow> ok (AgenOp_init v (os_width sp))
           | OT_FLAGS \<Rightarrow> FlagsOp_init (os_values sp)
           | OT_COND \<Rightarrow> ok (CondOp_init v))"

definition is_mem :: "Operand \<Rightarrow> bool" where
  "is_mem o1 = (case op_class o1 of MemoryOp _ \<Rightarrow> True | _ \<Rightarrow> False)"

definition is_reg :: "Operand \<Rightarrow> bool" where
  "is_reg o1 = (case op_class o1 of RegisterOp _ \<Rightarrow> True | _ \<Rightarrow> False)"

definition is_imm :: "Operand \<Rightarrow> bool" where
  "is_imm o1 = (case op_class o1 of ImmediateOp _ \<Rightarrow> True | _ \<Rightarrow> False)"

definition is_agen :: "Operand \<Rightarrow> bool" where
  "is_agen o1 = (case op_class o1 of AgenOp _ \<Rightarrow> True | _ \<Rightarrow> False)"

definition is_flags :: "Operand \<Rightarrow> bool" where
  "is_flags o1 = (case op_class o1 of FlagsOp _ \<Rightarrow> True | _ \<Rightarrow> False)"

definition is_label :: "Operand \<Rightarrow> bool" where
  "is_label o1 = (op_class o1 = LabelOp)"

definition is_cond :: "Operand \<Rightarrow> bool" where
  "is_cond o1 = (op_class o1 = CondOp)"

text \<open>
  \<^verbatim>\<open>MemoryOp.get_base_register\<close>: the first token of the address that is not a number. The register
  is built with the width of the memory access, so the width check of \<^verbatim>\<open>RegisterOp\<close> applies.
\<close>

definition get_base_register :: "string \<Rightarrow> int \<Rightarrow> Operand option res" where
  "get_base_register v w =
     (let addr = strip v;
          tokens = map strip (split_on (\<lambda>c. c = CHR ''+'')
                     (map (\<lambda>c. if c = CHR ''-'' then CHR ''+'' else c) addr));
          tokens1 = filter (\<lambda>t. \<not> isdigit (remove_all ''0x'' t)) tokens;
          tokens2 = filter (\<lambda>t. \<not> isdigit (remove_all ''0b'' t)) tokens1
      in case tokens2 of
           [] \<Rightarrow> ok None
         | t # _ \<Rightarrow> rbind (RegisterOp_init (lower t) w True False) (\<lambda>r. ok (Some r)))"

text \<open>The flag queries of \<^verbatim>\<open>FlagsOp\<close>.\<close>

definition get_flag_list :: "string list \<Rightarrow> string list \<Rightarrow> string list" where
  "get_flag_list vals types = map snd (filter (\<lambda>p. fst p \<in> set types) (zip vals flag_names))"

datatype flag_query = Q_read | Q_write | Q_overwrite | Q_undef

definition flag_types_of :: "flag_query \<Rightarrow> string list" where
  "flag_types_of q = (case q of
       Q_read \<Rightarrow> [''r'', ''r/w'', ''r/cw'']
     | Q_write \<Rightarrow> [''w'', ''r/w'', ''r/cw'']
     | Q_overwrite \<Rightarrow> [''w'']
     | Q_undef \<Rightarrow> [''undef''])"

definition get_flags_by_type :: "string list \<Rightarrow> flag_query \<Rightarrow> string list" where
  "get_flags_by_type vals q = get_flag_list vals (flag_types_of q)"

text \<open>Copying with a new value or with new flow properties; the result is a fresh operand.\<close>

definition copy_op_with_value_modification :: "Operand \<Rightarrow> string \<Rightarrow> Operand res" where
  "copy_op_with_value_modification o1 v =
     (case op_class o1 of
        RegisterOp w \<Rightarrow> RegisterOp_init v w (op_src o1) (op_dest o1)
      | MemoryOp w \<Rightarrow> ok (MemoryOp_init v w (op_src o1) (op_dest o1))
      | ImmediateOp w \<Rightarrow> ok (ImmediateOp_init v w)
      | LabelOp \<Rightarrow> ok (LabelOp_init v)
      | AgenOp w \<Rightarrow> ok (AgenOp_init v w)
      | CondOp \<Rightarrow> ok (CondOp_init v)
      | FlagsOp _ \<Rightarrow> raise AssertionError)"

definition copy_op_with_flow_modification ::
  "Operand \<Rightarrow> bool option \<Rightarrow> bool option \<Rightarrow> Operand res" where
  "copy_op_with_flow_modification o1 src dest =
     (let s = (case src of None \<Rightarrow> op_src o1 | Some b \<Rightarrow> b);
          d = (case dest of None \<Rightarrow> op_dest o1 | Some b \<Rightarrow> b)
      in case op_class o1 of
           RegisterOp w \<Rightarrow> RegisterOp_init (op_value o1) w s d
         | MemoryOp w \<Rightarrow> ok (MemoryOp_init (op_value o1) w s d)
         | _ \<Rightarrow> raise AssertionError)"

section \<open>Instructions\<close>

record Instruction =
  i_name :: string
  i_category :: string
  is_control_flow :: bool
  is_instrumentation :: bool
  is_noremove :: bool
  is_from_template :: bool
  is_macro_placeholder :: bool
  operands :: "Operand list"
  implicit_operands :: "Operand list"
  i_line_num :: int
  i_section_id :: int
  i_section_offset :: int
  i_size :: int

definition Instruction_init :: "string \<Rightarrow> string \<Rightarrow> bool \<Rightarrow> bool \<Rightarrow> bool \<Rightarrow> Instruction" where
  "Instruction_init name category cf instr norem =
     \<lparr>i_name = name, i_category = category, is_control_flow = cf, is_instrumentation = instr,
      is_noremove = norem, is_from_template = False, is_macro_placeholder = False,
      operands = [], implicit_operands = [], i_line_num = - 1, i_section_id = - 1,
      i_section_offset = - 1, i_size = - 1\<rparr>"

definition from_spec :: "InstructionSpec \<Rightarrow> bool \<Rightarrow> bool \<Rightarrow> Instruction" where
  "from_spec sp instr norem =
     Instruction_init (is_name sp) (is_category sp) (is_is_control_flow sp) instr norem"

definition add_op :: "Instruction \<Rightarrow> Operand \<Rightarrow> bool \<Rightarrow> Instruction" where
  "add_op i o1 implicit =
     (if \<not> implicit then i\<lparr>operands := operands i @ [o1]\<rparr>
      else i\<lparr>implicit_operands := implicit_operands i @ [o1]\<rparr>)"

definition has_mem_operand :: "Instruction \<Rightarrow> bool \<Rightarrow> bool" where
  "has_mem_operand i include_implicit =
     (list_ex is_mem (operands i) \<or> (include_implicit \<and> list_ex is_mem (implicit_operands i)))"

definition has_write :: "Instruction \<Rightarrow> bool \<Rightarrow> bool" where
  "has_write i include_implicit =
     (list_ex (\<lambda>o1. is_mem o1 \<and> op_dest o1) (operands i) \<or>
      (include_implicit \<and> list_ex (\<lambda>o1. is_mem o1 \<and> op_dest o1) (implicit_operands i)))"

definition has_read :: "Instruction \<Rightarrow> bool \<Rightarrow> bool" where
  "has_read i include_implicit =
     (list_ex (\<lambda>o1. is_mem o1 \<and> op_src o1) (operands i) \<or>
      (include_implicit \<and> list_ex (\<lambda>o1. is_mem o1 \<and> op_src o1) (implicit_operands i)))"

definition get_all_operands :: "Instruction \<Rightarrow> Operand list" where
  "get_all_operands i = operands i @ implicit_operands i"

definition select_operands :: "(Operand \<Rightarrow> bool) \<Rightarrow> Instruction \<Rightarrow> bool \<Rightarrow> Operand list" where
  "select_operands P i include_implicit =
     filter P (operands i) @ (if include_implicit then filter P (implicit_operands i) else [])"

definition get_src_operands :: "Instruction \<Rightarrow> bool \<Rightarrow> Operand list" where
  "get_src_operands i include_implicit = select_operands op_src i include_implicit"

definition get_dest_operands :: "Instruction \<Rightarrow> bool \<Rightarrow> Operand list" where
  "get_dest_operands i include_implicit = select_operands op_dest i include_implicit"

definition get_mem_operands :: "Instruction \<Rightarrow> bool \<Rightarrow> bool \<Rightarrow> Operand list res" where
  "get_mem_operands i include_explicit include_implicit =
     py_assert (include_explicit \<or> include_implicit)
       (ok ((if include_explicit then filter is_mem (operands i) else []) @
            (if include_implicit then filter is_mem (implicit_operands i) else [])))"

definition get_flags_operand :: "Instruction \<Rightarrow> Operand option" where
  "get_flags_operand i =
     (case find is_flags (implicit_operands i) of
        Some o1 \<Rightarrow> Some o1 | None \<Rightarrow> find is_flags (operands i))"

definition get_reg_operands :: "Instruction \<Rightarrow> bool \<Rightarrow> Operand list" where
  "get_reg_operands i include_implicit = select_operands is_reg i include_implicit"

definition get_cond_operand :: "Instruction \<Rightarrow> Operand option" where
  "get_cond_operand i = find is_cond (operands i)"

definition get_label_operand :: "Instruction \<Rightarrow> Operand option" where
  "get_label_operand i = find is_label (operands i)"

definition get_imm_operands :: "Instruction \<Rightarrow> bool \<Rightarrow> Operand list" where
  "get_imm_operands i include_implicit = select_operands is_imm i include_implicit"

definition get_agen_operands :: "Instruction \<Rightarrow> Operand list" where
  "get_agen_operands i = filter is_agen (operands i)"

text \<open>\<^verbatim>\<open>str(instruction)\<close>: the name and the operands, memory operands in brackets.\<close>

definition instruction_str :: "Instruction \<Rightarrow> string" where
  "instruction_str i =
     i_name i @ '' '' @
     join '', '' (map (\<lambda>o1. if is_mem o1 then ''['' @ op_value o1 @ '']'' else op_value o1) (operands i))"

text \<open>Write-once properties: a value of -1 means not assigned.\<close>

definition assign_line_num :: "Instruction \<Rightarrow> int \<Rightarrow> Instruction res" where
  "assign_line_num i n = py_assert (i_line_num i = - 1) (ok (i\<lparr>i_line_num := n\<rparr>))"

definition line_num :: "Instruction \<Rightarrow> int res" where
  "line_num i = py_assert (i_line_num i \<noteq> - 1) (ok (i_line_num i))"

definition assign_binary_properties :: "Instruction \<Rightarrow> int \<Rightarrow> int \<Rightarrow> int \<Rightarrow> Instruction res" where
  "assign_binary_properties i sid off sz =
     py_assert (i_section_id i = - 1)
       (ok (i\<lparr>i_section_id := sid, i_section_offset := off, i_size := sz\<rparr>))"

definition section_id :: "Instruction \<Rightarrow> int res" where
  "section_id i = py_assert (i_section_id i \<noteq> - 1) (ok (i_section_id i))"

definition section_offset :: "Instruction \<Rightarrow> int res" where
  "section_offset i = py_assert (i_section_offset i \<noteq> - 1) (ok (i_section_offset i))"

definition inst_size :: "Instruction \<Rightarrow> int res" where
  "inst_size i = py_assert (i_size i \<noteq> - 1) (ok (i_size i))"

definition copy_inst_with_modification ::
  "Instruction \<Rightarrow> string option \<Rightarrow> string option \<Rightarrow> bool option \<Rightarrow> bool option \<Rightarrow> bool option \<Rightarrow> Instruction" where
  "copy_inst_with_modification i name category cf instr norem =
     (let new_inst = Instruction_init
            (case name of None \<Rightarrow> i_name i | Some n \<Rightarrow> n)
            (case category of None \<Rightarrow> i_category i | Some c \<Rightarrow> c)
            (case cf of None \<Rightarrow> is_control_flow i | Some b \<Rightarrow> b)
            (case instr of None \<Rightarrow> is_instrumentation i | Some b \<Rightarrow> b)
            (case norem of None \<Rightarrow> is_noremove i | Some b \<Rightarrow> b)
      in new_inst\<lparr>is_from_template := is_from_template i,
           is_macro_placeholder := is_macro_placeholder i,
           operands := operands new_inst @ operands i,
           implicit_operands := implicit_operands new_inst @ implicit_operands i,
           i_section_id := i_section_id i, i_section_offset := i_section_offset i,
           i_size := i_size i, i_line_num := i_line_num i\<rparr>)"

section \<open>Properties\<close>

lemmas op_class_defs = is_mem_def is_reg_def is_imm_def is_agen_def is_flags_def is_label_def is_cond_def

lemma list_ex_filter: "list_ex P xs \<longleftrightarrow> filter P xs \<noteq> []"
  by (auto simp: list_ex_iff filter_empty_conv)

lemma get_flag_list_subset: "set types \<subseteq> set types' \<Longrightarrow> set (get_flag_list vals types) \<subseteq> set (get_flag_list vals types')"
  by (auto simp: get_flag_list_def)

lemma distinct_flag_names: "distinct flag_names"
  by (simp add: flag_names_def)

lemma get_flag_list_disjoint:
  "set types \<inter> set types' = {} \<Longrightarrow> set (get_flag_list vals types) \<inter> set (get_flag_list vals types') = {}"
proof -
  assume d: "set types \<inter> set types' = {}"
  have "v = w" if "(v, f) \<in> set (zip vals flag_names)" "(w, f) \<in> set (zip vals flag_names)" for v w f
    using that distinct_flag_names
    by (auto simp: in_set_zip distinct_conv_nth)
  with d show ?thesis
    by (fastforce simp: get_flag_list_def)
qed

text \<open>
  The queries of an instruction agree with each other: there is a memory operand, a memory write or
  a memory read exactly when the list of memory operands holds one, one that is a destination or one
  that is a source.
\<close>

theorem memory_queries_agree:
  "\<exists>ms. get_mem_operands i True include_implicit = Inr ms \<and>
     has_mem_operand i include_implicit = (ms \<noteq> []) \<and>
     has_write i include_implicit = list_ex op_dest ms \<and>
     has_read i include_implicit = list_ex op_src ms \<and>
     set ms = {o1 \<in> set (if include_implicit then get_all_operands i else operands i). is_mem o1}"
  by (auto simp: get_mem_operands_def has_mem_operand_def has_write_def has_read_def
      list_ex_iff get_all_operands_def filter_empty_conv)

text \<open>
  Of the flags of an instruction, the overwritten ones are written and are neither read nor
  undefined; no flag is both undefined and read or written.
\<close>

theorem flag_queries_consistent:
  "set (get_flags_by_type vals Q_overwrite) \<subseteq> set (get_flags_by_type vals Q_write) \<and>
   set (get_flags_by_type vals Q_overwrite) \<inter> set (get_flags_by_type vals Q_read) = {} \<and>
   set (get_flags_by_type vals Q_undef) \<inter> set (get_flags_by_type vals Q_read) = {} \<and>
   set (get_flags_by_type vals Q_undef) \<inter> set (get_flags_by_type vals Q_write) = {}"
  unfolding get_flags_by_type_def
  by (intro conjI get_flag_list_subset get_flag_list_disjoint) (simp_all add: flag_types_of_def)

lemma copy_inst_unmodified: "copy_inst_with_modification i None None None None None = i"
  by (simp add: copy_inst_with_modification_def Instruction_init_def)

lemma copy_value_keeps_kind:
  "copy_op_with_value_modification o1 v = Inr o2 \<Longrightarrow> op_class o2 = op_class o1 \<and> op_value o2 = lower v"
  by (auto simp: copy_op_with_value_modification_def Operand_init_def RegisterOp_init_def
      MemoryOp_init_def ImmediateOp_init_def LabelOp_init_def AgenOp_init_def CondOp_init_def
      py_assert_eq_Inr_iff split: op_class.splits)

lemma assign_binary_once:
  "assign_binary_properties i sid off sz = Inr i' \<Longrightarrow> sid \<noteq> - 1 \<Longrightarrow>
   assign_binary_properties i' sid' off' sz' = Inl AssertionError"
  by (auto simp: assign_binary_properties_def py_assert_def split: if_splits)

end
