(* ===== verification/BasicBlocks.thy ===== *)
theory BasicBlocks
  imports Instruction
begin

text \<open>
  Model of the classes \<^verbatim>\<open>InstructionNode\<close> and \<^verbatim>\<open>BasicBlock\<close> of
  \<^verbatim>\<open>rvzr/tc_components/test_case_code.py\<close>: a basic block is a doubly linked list of instruction nodes
  in a store shared by all blocks. A node is named by its address; every node records the block it
  was created for. The operations are those of the class, with the store passed explicitly. The
  abstraction is the list of node addresses from the first to the last; the operations are shown to
  be the list insertions and the deletion, and any sequence of edits to be the same sequence on lists.
\<close>

section \<open>The store and the blocks\<close>

record 'i InstructionNode =
  node_instruction :: 'i
  node_parent :: nat
  node_next :: "nat option"
  node_previous :: "nat option"

record 'i node_store =
  nodes :: "nat \<Rightarrow> 'i InstructionNode option"
  fresh :: nat

record 'i BasicBlock =
  bb_id :: nat
  bb_name :: string
  bb_is_exit :: bool
  bb_successors :: "nat list"
  bb_terminators :: "'i list"
  bb_start :: "nat option"
  bb_end :: "nat option"

definition BasicBlock_init :: "nat \<Rightarrow> string \<Rightarrow> bool \<Rightarrow> 'i BasicBlock" where
  "BasicBlock_init ident name is_exit =
     \<lparr>bb_id = ident, bb_name = name, bb_is_exit = is_exit, bb_successors = [], bb_terminators = [],
      bb_start = None, bb_end = None\<rparr>"

definition alloc_node :: "'i node_store \<Rightarrow> 'i \<Rightarrow> nat \<Rightarrow> nat \<times> 'i node_store" where
  "alloc_node s inst parent =
     (fresh s, s\<lparr>nodes := (nodes s)(fresh s \<mapsto> \<lparr>node_instruction = inst, node_parent = parent,
          node_next = None, node_previous = None\<rparr>), fresh := Suc (fresh s)\<rparr>)"

definition set_next :: "'i node_store \<Rightarrow> nat \<Rightarrow> nat option \<Rightarrow> 'i node_store" where
  "set_next s p q = s\<lparr>nodes := (nodes s)(p := map_option (\<lambda>n. n\<lparr>node_next := q\<rparr>) (nodes s p))\<rparr>"

definition set_previous :: "'i node_store \<Rightarrow> nat \<Rightarrow> nat option \<Rightarrow> 'i node_store" where
  "set_previous s p q = s\<lparr>nodes := (nodes s)(p := map_option (\<lambda>n. n\<lparr>node_previous := q\<rparr>) (nodes s p))\<rparr>"

text \<open>
  Insertion and deletion. A position is the address of a node; an address that is not in the store
  cannot occur in the program and is refused like a node of another block.
\<close>

definition insert_after ::
  "'i node_store \<Rightarrow> 'i BasicBlock \<Rightarrow> nat option \<Rightarrow> 'i \<Rightarrow> ('i node_store \<times> 'i BasicBlock) res" where
  "insert_after s b position inst =
     (let (inst_node, s1) = alloc_node s inst (bb_id b)
      in if position = None \<and> bb_end b = None
         then ok (s1, b\<lparr>bb_start := Some inst_node, bb_end := Some inst_node\<rparr>)
         else (case (case position of None \<Rightarrow> bb_end b | Some p \<Rightarrow> Some p) of
             None \<Rightarrow> raise AssertionError
           | Some p \<Rightarrow> (case nodes s1 p of
               None \<Rightarrow> raise ValueError
             | Some pn \<Rightarrow>
                 if node_parent pn \<noteq> bb_id b then raise ValueError
                 else (let s2 = set_next s1 p (Some inst_node);
                           s3 = set_previous s2 inst_node (Some p)
                       in case node_next pn of
                            Some q \<Rightarrow> ok (set_previous (set_next s3 inst_node (Some q)) q (Some inst_node), b)
                          | None \<Rightarrow> ok (s3, b\<lparr>bb_end := Some inst_node\<rparr>)))))"

definition insert_before ::
  "'i node_store \<Rightarrow> 'i BasicBlock \<Rightarrow> nat option \<Rightarrow> 'i \<Rightarrow> ('i node_store \<times> 'i BasicBlock) res" where
  "insert_before s b position inst =
     (let (inst_node, s1) = alloc_node s inst (bb_id b)
      in if position = None \<and> bb_start b = None
         then ok (s1, b\<lparr>bb_start := Some inst_node, bb_end := Some inst_node\<rparr>)
         else (case (case position of None \<Rightarrow> bb_start b | Some p \<Rightarrow> Some p) of
             None \<Rightarrow> raise AssertionError
           | Some p \<Rightarrow> (case nodes s1 p of
               None \<Rightarrow> raise ValueError
             | Some pn \<Rightarrow>
                 if node_parent pn \<noteq> bb_id b then raise ValueError
                 else (let s2 = set_previous s1 p (Some inst_node);
                           s3 = set_next s2 inst_node (Some p)
                       in case node_previous pn of
                            Some q \<Rightarrow> ok (set_next (set_previous s3 inst_node (Some q)) q (Some inst_node), b)
                          | None \<Rightarrow> ok (s3, b\<lparr>bb_start := Some inst_node\<rparr>)))))"

definition delete :: "'i node_store \<Rightarrow> 'i BasicBlock \<Rightarrow> nat \<Rightarrow> ('i node_store \<times> 'i BasicBlock) res" where
  "delete s b target =
     (case nodes s target of
        None \<Rightarrow> raise ValueError
      | Some t \<Rightarrow>
          if node_parent t \<noteq> bb_id b then raise ValueError
          else (case (node_previous t, node_next t) of
              (None, None) \<Rightarrow> ok (s, b\<lparr>bb_end := None, bb_start := None\<rparr>)
            | (None, Some q) \<Rightarrow> ok (set_previous s q None, b\<lparr>bb_start := Some q\<rparr>)
            | (Some p, None) \<Rightarrow> ok (set_next s p None, b\<lparr>bb_end := Some p\<rparr>)
            | (Some p, Some q) \<Rightarrow> ok (set_previous (set_next s p (Some q)) q (Some p), b)))"

text \<open>
  The iterators follow the \<^verbatim>\<open>next\<close> links. The links of an arbitrary store may form a cycle, so the
  walk has fuel; \<open>None\<close> means it did not reach the end.
\<close>

fun walk_next :: "'i node_store \<Rightarrow> nat \<Rightarrow> nat option \<Rightarrow> nat list option" where
  "walk_next s fuel None = Some []"
| "walk_next s 0 (Some p) = None"
| "walk_next s (Suc fuel) (Some p) =
     (case nodes s p of None \<Rightarrow> None
      | Some n \<Rightarrow> map_option (\<lambda>ps. p # ps) (walk_next s fuel (node_next n)))"

definition iter_nodes :: "'i node_store \<Rightarrow> 'i BasicBlock \<Rightarrow> nat list option" where
  "iter_nodes s b = walk_next s (fresh s) (bb_start b)"

definition bb_iter :: "'i node_store \<Rightarrow> 'i BasicBlock \<Rightarrow> 'i list option" where
  "bb_iter s b =
     map_option (List.map_filter (\<lambda>p. map_option node_instruction (nodes s p))) (iter_nodes s b)"

definition bb_len :: "'i node_store \<Rightarrow> 'i BasicBlock \<Rightarrow> nat option" where
  "bb_len s b = map_option length (iter_nodes s b)"

fun skip_while :: "'i node_store \<Rightarrow> ('i \<Rightarrow> bool) \<Rightarrow> nat \<Rightarrow> nat option \<Rightarrow> nat option option" where
  "skip_while s P fuel None = Some None"
| "skip_while s P 0 (Some p) = None"
| "skip_while s P (Suc fuel) (Some p) =
     (case nodes s p of None \<Rightarrow> None
      | Some n \<Rightarrow> if P (node_instruction n) then skip_while s P fuel (node_next n) else Some (Some p))"

definition get_first :: "Instruction node_store \<Rightarrow> Instruction BasicBlock \<Rightarrow> bool \<Rightarrow> nat option option" where
  "get_first s b exclude_macros =
     (if \<not> exclude_macros then Some (bb_start b)
      else skip_while s (\<lambda>i. i_name i = ''macro'') (fresh s) (bb_start b))"

definition get_last :: "'i BasicBlock \<Rightarrow> nat option" where
  "get_last b = bb_end b"

definition find_instruction_node :: "'i node_store \<Rightarrow> 'i BasicBlock \<Rightarrow> 'i \<Rightarrow> nat option option" where
  "find_instruction_node s b inst =
     map_option (find (\<lambda>p. map_option node_instruction (nodes s p) = Some inst)) (iter_nodes s b)"

section \<open>The abstraction\<close>

definition link_ok :: "'i node_store \<Rightarrow> nat \<Rightarrow> nat list \<Rightarrow> nat \<Rightarrow> bool" where
  "link_ok s ident ps k \<longleftrightarrow> (\<exists>n. nodes s (ps ! k) = Some n \<and> node_parent n = ident \<and>
     node_next n = (if Suc k < length ps then Some (ps ! Suc k) else None) \<and>
     node_previous n = (if k = 0 then None else Some (ps ! (k - 1))))"

definition represents :: "'i node_store \<Rightarrow> 'i BasicBlock \<Rightarrow> nat list \<Rightarrow> bool" where
  "represents s b ps \<longleftrightarrow>
     distinct ps \<and> (\<forall>p \<in> set ps. p < fresh s) \<and> (\<forall>p. nodes s p \<noteq> None \<longrightarrow> p < fresh s) \<and>
     bb_start b = (if ps = [] then None else Some (hd ps)) \<and>
     bb_end b = (if ps = [] then None else Some (last ps)) \<and>
     (\<forall>k < length ps. link_ok s (bb_id b) ps k)"

lemma represents_empty:
  "(\<forall>p. nodes s p \<noteq> None \<longrightarrow> p < fresh s) \<Longrightarrow> represents s (BasicBlock_init ident name e) []"
  by (simp add: represents_def BasicBlock_init_def)

text \<open>List insertion at a position and deletion at a position.\<close>

definition insert_at :: "nat \<Rightarrow> 'a \<Rightarrow> 'a list \<Rightarrow> 'a list" where
  "insert_at k x xs = take k xs @ x # drop k xs"

definition remove_at :: "nat \<Rightarrow> 'a list \<Rightarrow> 'a list" where
  "remove_at k xs = take k xs @ drop (Suc k) xs"

lemma length_insert_at [simp]: "length (insert_at k x xs) = Suc (length xs)"
  by (simp add: insert_at_def)

lemma nth_insert_at:
  "k \<le> length xs \<Longrightarrow> insert_at k x xs ! i = (if i < k then xs ! i else if i = k then x else xs ! (i - 1))"
  by (auto simp: insert_at_def nth_append nth_Cons' min_def)

lemma set_insert_at [simp]: "set (insert_at k x xs) = insert x (set xs)"
  by (simp add: insert_at_def) (metis append_take_drop_id set_append)

lemma distinct_insert_at: "distinct (insert_at k x xs) \<longleftrightarrow> x \<notin> set xs \<and> distinct xs"
proof -
  have "distinct (as @ x # bs) \<longleftrightarrow> distinct (x # as @ bs)" for as bs
    by auto
  from this [of "take k xs" "drop k xs"] show ?thesis
    unfolding insert_at_def append_take_drop_id by simp
qed

lemma length_remove_at [simp]: "k < length xs \<Longrightarrow> length (remove_at k xs) = length xs - 1"
  by (simp add: remove_at_def)

lemma nth_remove_at: "k < length xs \<Longrightarrow> remove_at k xs ! i = (if i < k then xs ! i else xs ! Suc i)"
  by (auto simp: remove_at_def nth_append min_def)

lemma distinct_remove_at: "distinct xs \<Longrightarrow> distinct (remove_at k xs)"
proof -
  assume "distinct xs"
  then have "distinct (take k xs @ drop k xs)" by simp
  then show ?thesis
    using set_drop_subset_set_drop [of k "Suc k" xs] distinct_drop [OF \<open>distinct xs\<close>, of "Suc k"]
    by (auto simp: remove_at_def simp del: append_take_drop_id)
qed

lemma set_remove_at: "set (remove_at k xs) \<subseteq> set xs"
  by (auto simp: remove_at_def dest: in_set_takeD in_set_dropD)

section \<open>Insertion\<close>

text \<open>The store and the block after a new node was linked in before the node at index \<open>k\<close>.\<close>

definition splice :: "'i node_store \<Rightarrow> 'i BasicBlock \<Rightarrow> nat list \<Rightarrow> nat \<Rightarrow> 'i \<Rightarrow> 'i node_store \<times> 'i BasicBlock" where
  "splice s b ps k inst =
     (s\<lparr>nodes := (\<lambda>p. if p = fresh s
          then Some \<lparr>node_instruction = inst, node_parent = bb_id b,
                 node_next = (if k < length ps then Some (ps ! k) else None),
                 node_previous = (if 0 < k then Some (ps ! (k - 1)) else None)\<rparr>
          else map_option (\<lambda>n. n\<lparr>
                 node_next := (if 0 < k \<and> p = ps ! (k - 1) then Some (fresh s) else node_next n),
                 node_previous := (if k < length ps \<and> p = ps ! k then Some (fresh s) else node_previous n)\<rparr>)
               (nodes s p)),
        fresh := Suc (fresh s)\<rparr>,
      b\<lparr>bb_start := (if k = 0 then Some (fresh s) else bb_start b),
        bb_end := (if k = length ps then Some (fresh s) else bb_end b)\<rparr>)"

lemma represents_lookup:
  assumes "represents s b ps" and "k < length ps"
  obtains n where "nodes s (ps ! k) = Some n" "node_parent n = bb_id b"
    "node_next n = (if Suc k < length ps then Some (ps ! Suc k) else None)"
    "node_previous n = (if k = 0 then None else Some (ps ! (k - 1)))"
  using assms unfolding represents_def link_ok_def by blast

lemma represents_fresh: "represents s b ps \<Longrightarrow> k < length ps \<Longrightarrow> ps ! k < fresh s \<and> ps ! k \<noteq> fresh s"
  unfolding represents_def by (metis nth_mem order_less_irrefl)

lemma represents_nth_eq:
  "represents s b ps \<Longrightarrow> i < length ps \<Longrightarrow> j < length ps \<Longrightarrow> ps ! i = ps ! j \<longleftrightarrow> i = j"
  unfolding represents_def by (simp add: nth_eq_iff_index_eq)

lemma represents_splice:
  assumes r: "represents s b ps" and k: "k \<le> length ps" and sp: "splice s b ps k inst = (s', b')"
  shows "represents s' b' (insert_at k (fresh s) ps)"
proof -
  let ?qs = "insert_at k (fresh s) ps"
  have s': "fresh s' = Suc (fresh s)" and b': "bb_id b' = bb_id b"
    using sp by (auto simp: splice_def)
  have nd: "nodes s' p = (if p = fresh s
          then Some \<lparr>node_instruction = inst, node_parent = bb_id b,
                 node_next = (if k < length ps then Some (ps ! k) else None),
                 node_previous = (if 0 < k then Some (ps ! (k - 1)) else None)\<rparr>
          else map_option (\<lambda>n. n\<lparr>
                 node_next := (if 0 < k \<and> p = ps ! (k - 1) then Some (fresh s) else node_next n),
                 node_previous := (if k < length ps \<and> p = ps ! k then Some (fresh s) else node_previous n)\<rparr>)
               (nodes s p))" for p
  proof -
    have "s' = fst (splice s b ps k inst)" using sp by simp
    then show ?thesis by (simp add: splice_def)
  qed
  have new: "nodes s' (fresh s) = Some \<lparr>node_instruction = inst, node_parent = bb_id b,
       node_next = (if k < length ps then Some (ps ! k) else None),
       node_previous = (if 0 < k then Some (ps ! (k - 1)) else None)\<rparr>"
    using sp by (auto simp: splice_def)
  have link: "link_ok s' (bb_id b') ?qs i" if i: "i < length ?qs" for i
  proof (cases "i = k")
    case True
    then show ?thesis
      using k new b' by (auto simp: link_ok_def nth_insert_at)
  next
    case False
    define j where "j = (if i < k then i else i - 1)"
    have j: "j < length ps" "?qs ! i = ps ! j"
      using i k False by (auto simp: j_def nth_insert_at)
    from represents_lookup [OF r j(1)] obtain n where n: "nodes s (ps ! j) = Some n"
      "node_parent n = bb_id b" "node_next n = (if Suc j < length ps then Some (ps ! Suc j) else None)"
      "node_previous n = (if j = 0 then None else Some (ps ! (j - 1)))" .
    have eq1: "0 < k \<and> ps ! j = ps ! (k - 1) \<longleftrightarrow> Suc j = k"
      using represents_nth_eq [OF r j(1), of "k - 1"] k by auto
    have eq2: "k < length ps \<and> ps ! j = ps ! k \<longleftrightarrow> j = k"
      using represents_nth_eq [OF r j(1), of k] j(1) by auto
    have "nodes s' (ps ! j) = Some (n\<lparr>
        node_next := (if Suc j = k then Some (fresh s) else node_next n),
        node_previous := (if j = k then Some (fresh s) else node_previous n)\<rparr>)"
      using represents_fresh [OF r j(1)] unfolding nd eq1 eq2 n(1) by simp
    moreover have "(if Suc i < length ?qs then Some (?qs ! Suc i) else None) =
        (if Suc j = k then Some (fresh s) else node_next n)"
    proof (cases "i < k")
      case True
      then show ?thesis using n(3) k by (auto simp: j_def nth_insert_at)
    next
      case gt: False
      then have "i = Suc j" "k \<le> j" using False by (auto simp: j_def)
      then show ?thesis using n(3) k by (auto simp: nth_insert_at)
    qed
    moreover have "(if i = 0 then None else Some (?qs ! (i - 1))) =
        (if j = k then Some (fresh s) else node_previous n)"
    proof (cases "i < k")
      case True
      then show ?thesis using n(4) k by (auto simp: j_def nth_insert_at)
    next
      case gt: False
      then have "i = Suc j" "k \<le> j" using False by (auto simp: j_def)
      then show ?thesis using n(4) k by (auto simp: nth_insert_at)
    qed
    ultimately show ?thesis
      using n(2) unfolding link_ok_def b' j(2) by auto
  qed
  have dom: "p < fresh s'" if "nodes s' p \<noteq> None" for p
    using that sp r by (auto simp: splice_def represents_def less_Suc_eq split: if_splits)
  have ends: "bb_start b' = Some (hd ?qs)" "bb_end b' = Some (last ?qs)"
    using sp r k by (auto simp: splice_def represents_def insert_at_def last_append hd_append)
  have "distinct ?qs"
    using r by (auto simp: distinct_insert_at represents_def)
  then show ?thesis
    using link dom ends r s' by (auto simp: represents_def insert_at_def [of k "fresh s" ps] less_SucI
        dest: in_set_takeD in_set_dropD)
qed

text \<open>Two stores are equal when their nodes and their allocation counters are.\<close>

lemma node_store_eqI: "nodes s = nodes t \<Longrightarrow> fresh s = fresh t \<Longrightarrow> s = (t :: 'i node_store)"
  by simp

lemma relink_id: "map_option (\<lambda>n. n\<lparr>node_next := node_next n, node_previous := node_previous n\<rparr>) x = x"
  by (cases x) auto

lemma insert_after_splice:
  assumes r: "represents s b ps" and k: "k < length ps"
  shows "insert_after s b (Some (ps ! k)) inst = Inr (splice s b ps (Suc k) inst)"
proof -
  from represents_lookup [OF r k] obtain n where n: "nodes s (ps ! k) = Some n"
    "node_parent n = bb_id b" "node_next n = (if Suc k < length ps then Some (ps ! Suc k) else None)" .
  have neq: "ps ! k \<noteq> fresh s" using represents_fresh [OF r k] by simp
  show ?thesis
  proof (cases "Suc k < length ps")
    case True
    then have neq2: "ps ! Suc k \<noteq> fresh s" "ps ! k \<noteq> ps ! Suc k"
      using represents_fresh [OF r True] represents_nth_eq [OF r k True] by auto
    have "insert_after s b (Some (ps ! k)) inst = Inr (fst (splice s b ps (Suc k) inst), b)"
      using n neq neq2 True
      by (auto simp: insert_after_def splice_def alloc_node_def set_next_def set_previous_def Let_def
          fun_eq_iff relink_id option.map_ident intro!: node_store_eqI)
    then show ?thesis using True by (simp add: splice_def)
  next
    case False
    have "insert_after s b (Some (ps ! k)) inst =
        Inr (fst (splice s b ps (Suc k) inst), b\<lparr>bb_end := Some (fresh s)\<rparr>)"
      using n neq False
      by (auto simp: insert_after_def splice_def alloc_node_def set_next_def set_previous_def Let_def
          fun_eq_iff relink_id option.map_ident intro!: node_store_eqI)
    then show ?thesis using False k by (simp add: splice_def)
  qed
qed

lemma insert_before_splice:
  assumes r: "represents s b ps" and k: "k < length ps"
  shows "insert_before s b (Some (ps ! k)) inst = Inr (splice s b ps k inst)"
proof -
  from represents_lookup [OF r k] obtain n where n: "nodes s (ps ! k) = Some n"
    "node_parent n = bb_id b" "node_previous n = (if k = 0 then None else Some (ps ! (k - 1)))" .
  have neq: "ps ! k \<noteq> fresh s" using represents_fresh [OF r k] by simp
  show ?thesis
  proof (cases "0 < k")
    case True
    then have k1: "k - 1 < length ps" using k by simp
    have neq2: "ps ! (k - 1) \<noteq> fresh s" "ps ! k \<noteq> ps ! (k - 1)"
      using represents_fresh [OF r k1] represents_nth_eq [OF r k k1] True by auto
    have "insert_before s b (Some (ps ! k)) inst = Inr (fst (splice s b ps k inst), b)"
      using n neq neq2 True k
      by (auto simp: insert_before_def splice_def alloc_node_def set_next_def set_previous_def Let_def
          fun_eq_iff relink_id option.map_ident intro!: node_store_eqI)
    then show ?thesis using True k by (simp add: splice_def)
  next
    case False
    have "insert_before s b (Some (ps ! k)) inst =
        Inr (fst (splice s b ps k inst), b\<lparr>bb_start := Some (fresh s)\<rparr>)"
      using n neq False k
      by (auto simp: insert_before_def splice_def alloc_node_def set_next_def set_previous_def Let_def
          fun_eq_iff relink_id option.map_ident intro!: node_store_eqI)
    moreover have "snd (splice s b ps k inst) = b\<lparr>bb_start := Some (fresh s)\<rparr>"
      using False k by (auto simp: splice_def)
    ultimately show ?thesis by (metis prod.collapse)
  qed
qed

lemma insert_empty_splice:
  assumes "represents s b []"
  shows "insert_after s b None inst = Inr (splice s b [] 0 inst)"
    and "insert_before s b None inst = Inr (splice s b [] 0 inst)"
  using assms
  by (auto simp: insert_after_def insert_before_def splice_def alloc_node_def represents_def
      fun_eq_iff relink_id option.map_ident intro!: node_store_eqI)

lemma insert_after_None_splice:
  assumes r: "represents s b ps"
  shows "insert_after s b None inst = Inr (splice s b ps (length ps) inst)"
proof (cases "ps = []")
  case True
  then show ?thesis using insert_empty_splice(1) r by simp
next
  case False
  then have "insert_after s b None inst = insert_after s b (Some (ps ! (length ps - 1))) inst"
    using r by (simp add: insert_after_def represents_def last_conv_nth)
  also have "\<dots> = Inr (splice s b ps (length ps) inst)"
    using insert_after_splice [OF r, of "length ps - 1"] False by simp
  finally show ?thesis .
qed

lemma insert_before_None_splice:
  assumes r: "represents s b ps"
  shows "insert_before s b None inst = Inr (splice s b ps 0 inst)"
proof (cases "ps = []")
  case True
  then show ?thesis using insert_empty_splice(2) r by simp
next
  case False
  then have "insert_before s b None inst = insert_before s b (Some (ps ! 0)) inst"
    using r by (simp add: insert_before_def represents_def hd_conv_nth)
  also have "\<dots> = Inr (splice s b ps 0 inst)"
    using insert_before_splice [OF r, of 0] False by simp
  finally show ?thesis .
qed

section \<open>Deletion\<close>

definition unlink :: "'i node_store \<Rightarrow> 'i BasicBlock \<Rightarrow> nat list \<Rightarrow> nat \<Rightarrow> 'i node_store \<times> 'i BasicBlock" where
  "unlink s b ps k =
     (s\<lparr>nodes := (\<lambda>p. map_option (\<lambda>n. n\<lparr>
          node_next := (if 0 < k \<and> p = ps ! (k - 1)
             then (if Suc k < length ps then Some (ps ! Suc k) else None) else node_next n),
          node_previous := (if Suc k < length ps \<and> p = ps ! Suc k
             then (if 0 < k then Some (ps ! (k - 1)) else None) else node_previous n)\<rparr>) (nodes s p))\<rparr>,
      b\<lparr>bb_start := (if 0 < k then bb_start b else if Suc k < length ps then Some (ps ! Suc k) else None),
        bb_end := (if Suc k < length ps then bb_end b else if 0 < k then Some (ps ! (k - 1)) else None)\<rparr>)"

lemma delete_unlink:
  assumes r: "represents s b ps" and k: "k < length ps"
  shows "delete s b (ps ! k) = Inr (unlink s b ps k)"
proof -
  from represents_lookup [OF r k] obtain n where n: "nodes s (ps ! k) = Some n"
    "node_parent n = bb_id b" "node_next n = (if Suc k < length ps then Some (ps ! Suc k) else None)"
    "node_previous n = (if k = 0 then None else Some (ps ! (k - 1)))" .
  have neq: "ps ! (k - 1) \<noteq> ps ! Suc k" if "0 < k" "Suc k < length ps"
    using represents_nth_eq [OF r, of "k - 1" "Suc k"] that by auto
  show ?thesis
    using n k neq
    by (auto simp: delete_def unlink_def set_next_def set_previous_def fun_eq_iff relink_id
        option.map_ident intro!: node_store_eqI)
qed

lemma represents_unlink:
  assumes r: "represents s b ps" and k: "k < length ps" and un: "unlink s b ps k = (s', b')"
  shows "represents s' b' (remove_at k ps)"
proof -
  let ?qs = "remove_at k ps"
  have s': "fresh s' = fresh s" and b': "bb_id b' = bb_id b"
    using un by (auto simp: unlink_def)
  have nd: "nodes s' p = map_option (\<lambda>n. n\<lparr>
          node_next := (if 0 < k \<and> p = ps ! (k - 1)
             then (if Suc k < length ps then Some (ps ! Suc k) else None) else node_next n),
          node_previous := (if Suc k < length ps \<and> p = ps ! Suc k
             then (if 0 < k then Some (ps ! (k - 1)) else None) else node_previous n)\<rparr>) (nodes s p)" for p
  proof -
    have "s' = fst (unlink s b ps k)" using un by simp
    then show ?thesis by (simp add: unlink_def)
  qed
  have link: "link_ok s' (bb_id b') ?qs i" if i: "i < length ?qs" for i
  proof -
    define j where "j = (if i < k then i else Suc i)"
    have j: "j < length ps" "?qs ! i = ps ! j" "j \<noteq> k"
      using i k by (auto simp: j_def nth_remove_at)
    from represents_lookup [OF r j(1)] obtain n where n: "nodes s (ps ! j) = Some n"
      "node_parent n = bb_id b" "node_next n = (if Suc j < length ps then Some (ps ! Suc j) else None)"
      "node_previous n = (if j = 0 then None else Some (ps ! (j - 1)))" .
    have eq1: "0 < k \<and> ps ! j = ps ! (k - 1) \<longleftrightarrow> Suc j = k"
      using represents_nth_eq [OF r j(1), of "k - 1"] k by auto
    have eq2: "Suc k < length ps \<and> ps ! j = ps ! Suc k \<longleftrightarrow> j = Suc k"
      using represents_nth_eq [OF r j(1), of "Suc k"] j(1) by auto
    have "nodes s' (ps ! j) = Some (n\<lparr>
        node_next := (if Suc j = k then (if Suc k < length ps then Some (ps ! Suc k) else None) else node_next n),
        node_previous := (if j = Suc k then (if 0 < k then Some (ps ! (k - 1)) else None) else node_previous n)\<rparr>)"
      unfolding nd eq1 eq2 n(1) by simp
    moreover have "(if Suc i < length ?qs then Some (?qs ! Suc i) else None) =
        (if Suc j = k then (if Suc k < length ps then Some (ps ! Suc k) else None) else node_next n)"
      using n(3) k i by (cases "i < k"; cases "Suc i = k") (auto simp: j_def nth_remove_at)
    moreover have "(if i = 0 then None else Some (?qs ! (i - 1))) =
        (if j = Suc k then (if 0 < k then Some (ps ! (k - 1)) else None) else node_previous n)"
      using n(4) k i by (cases "i < k"; cases "i = k") (auto simp: j_def nth_remove_at)
    ultimately show ?thesis
      using n(2) unfolding link_ok_def b' j(2) by auto
  qed
  have dom: "p < fresh s'" if "nodes s' p \<noteq> None" for p
    using that r unfolding nd s' by (auto simp: represents_def)
  have b'_def: "b' = snd (unlink s b ps k)" using un by simp
  have emp: "?qs = [] \<longleftrightarrow> length ps = 1"
    using k by (cases ps) (auto simp: remove_at_def)
  have bend: "bb_start b = Some (ps ! 0)" "bb_end b = Some (ps ! (length ps - 1))"
    using r k by (auto simp: represents_def hd_conv_nth last_conv_nth)
  have lastk: "k - Suc 0 = length ps - Suc (Suc 0)" if "\<not> Suc k < length ps" using that k by simp
  have ends: "bb_start b' = (if ?qs = [] then None else Some (hd ?qs))"
    "bb_end b' = (if ?qs = [] then None else Some (last ?qs))"
    using k bend emp lastk unfolding b'_def unlink_def
    by (simp_all add: hd_conv_nth last_conv_nth nth_remove_at split del: if_split)
      (auto simp: hd_conv_nth last_conv_nth nth_remove_at Suc_diff_Suc)
  show ?thesis
    using link dom ends r s' set_remove_at [of k ps] distinct_remove_at [of ps k]
    by (auto simp: represents_def)
qed

section \<open>Iteration\<close>

lemma walk_next_suffix:
  assumes r: "represents s b ps" and "k \<le> length ps" and "length ps - k \<le> fuel"
  shows "walk_next s fuel (if k < length ps then Some (ps ! k) else None) = Some (drop k ps)"
  using assms(2,3)
proof (induction fuel arbitrary: k)
  case 0
  then show ?case by simp
next
  case (Suc fuel)
  show ?case
  proof (cases "k < length ps")
    case True
    from represents_lookup [OF r True] obtain n where n: "nodes s (ps ! k) = Some n"
      "node_next n = (if Suc k < length ps then Some (ps ! Suc k) else None)" .
    have "walk_next s fuel (node_next n) = Some (drop (Suc k) ps)"
      unfolding n(2) using Suc.IH [of "Suc k"] Suc.prems True by simp
    then show ?thesis using True n(1) by (simp add: Cons_nth_drop_Suc)
  qed (use Suc.prems in simp)
qed

lemma represents_length_fresh:
  assumes "represents s b ps"
  shows "length ps \<le> fresh s"
proof -
  have "set ps \<subseteq> {..<fresh s}" and "distinct ps"
    using assms by (auto simp: represents_def)
  then show ?thesis
    using card_mono [of "{..<fresh s}" "set ps"] by (simp add: distinct_card)
qed

lemma iter_nodes_represents:
  assumes r: "represents s b ps"
  shows "iter_nodes s b = Some ps"
proof -
  have "bb_start b = (if 0 < length ps then Some (ps ! 0) else None)"
    using r by (auto simp: represents_def hd_conv_nth)
  then show ?thesis
    unfolding iter_nodes_def
    using walk_next_suffix [OF r, of 0 "fresh s"] represents_length_fresh [OF r] by simp
qed

text \<open>The instructions of a block, read through the iterator.\<close>

definition instr_at :: "'i node_store \<Rightarrow> nat \<Rightarrow> 'i option" where
  "instr_at s p = map_option node_instruction (nodes s p)"

definition contents :: "'i node_store \<Rightarrow> nat list \<Rightarrow> 'i list" where
  "contents s ps = List.map_filter (instr_at s) ps"

lemma contents_cong: "\<forall>p \<in> set ps. instr_at s' p = instr_at s p \<Longrightarrow> contents s' ps = contents s ps"
  unfolding contents_def by (induction ps) (auto simp: List.map_filter_simps split: option.splits)

lemma contents_nth:
  assumes "represents s b ps"
  shows "contents s ps = map (\<lambda>p. the (instr_at s p)) ps"
proof -
  have "\<forall>p \<in> set ps. instr_at s p \<noteq> None"
    using represents_lookup [OF assms] by (fastforce simp: instr_at_def in_set_conv_nth)
  then show ?thesis
    by (auto simp: contents_def List.map_filter_def)
qed

lemma bb_iter_contents: "bb_iter s b = map_option (contents s) (iter_nodes s b)"
  by (simp add: bb_iter_def contents_def [abs_def] instr_at_def [abs_def])

lemma bb_iter_represents: "represents s b ps \<Longrightarrow> bb_iter s b = Some (contents s ps)"
  by (simp add: bb_iter_def iter_nodes_represents contents_def instr_at_def [abs_def])

lemma map_insert_at: "map f (insert_at k x xs) = insert_at k (f x) (map f xs)"
  by (simp add: insert_at_def take_map drop_map)

lemma map_remove_at: "map f (remove_at k xs) = remove_at k (map f xs)"
  by (simp add: remove_at_def take_map drop_map)

lemma contents_splice:
  assumes r: "represents s b ps" and k: "k \<le> length ps" and sp: "splice s b ps k inst = (s', b')"
  shows "contents s' (insert_at k (fresh s) ps) = insert_at k inst (contents s ps)"
proof -
  have s': "s' = fst (splice s b ps k inst)" using sp by simp
  have "instr_at s' p = (if p = fresh s then Some inst else instr_at s p)" for p
    by (cases "nodes s p") (auto simp: s' splice_def instr_at_def)
  moreover have "fresh s \<notin> set ps" using r by (auto simp: represents_def)
  ultimately have "map (\<lambda>p. the (instr_at s' p)) ps = map (\<lambda>p. the (instr_at s p)) ps"
    and "the (instr_at s' (fresh s)) = inst"
    by (auto intro!: map_cong)
  then show ?thesis
    by (simp del: map_eq_conv add: contents_nth [OF represents_splice [OF r k sp]] contents_nth [OF r] map_insert_at)
qed

lemma contents_unlink:
  assumes r: "represents s b ps" and k: "k < length ps" and un: "unlink s b ps k = (s', b')"
  shows "contents s' (remove_at k ps) = remove_at k (contents s ps)"
proof -
  have s': "s' = fst (unlink s b ps k)" using un by simp
  have "instr_at s' p = instr_at s p" for p
    by (cases "nodes s p") (auto simp: s' unlink_def instr_at_def)
  then show ?thesis
    by (simp add: contents_nth [OF represents_unlink [OF r k un]] contents_nth [OF r] map_remove_at)
qed

text \<open>Blocks do not share nodes: an edit of one block leaves the others as they are.\<close>

lemma represents_frame:
  assumes "represents s b qs" and "fresh s \<le> fresh s'"
    and "\<forall>p \<in> set qs. nodes s' p = nodes s p" and "\<forall>p. nodes s' p \<noteq> None \<longrightarrow> p < fresh s'"
  shows "represents s' b qs \<and> contents s' qs = contents s qs"
proof
  show "represents s' b qs"
    using assms by (fastforce simp: represents_def link_ok_def)
  show "contents s' qs = contents s qs"
    by (rule contents_cong) (use assms(3) in \<open>simp add: instr_at_def\<close>)
qed

lemma represents_disjoint:
  assumes "represents s b ps" and "represents s c qs" and "bb_id c \<noteq> bb_id b"
  shows "set ps \<inter> set qs = {}"
  using assms by (fastforce simp: represents_def link_ok_def in_set_conv_nth)

lemma represents_splice_frame:
  assumes r: "represents s b ps" and k: "k \<le> length ps" and sp: "splice s b ps k inst = (s', b')"
    and c: "represents s c qs" "bb_id c \<noteq> bb_id b"
  shows "represents s' c qs \<and> contents s' qs = contents s qs"
proof (rule represents_frame [OF c(1)])
  have s': "s' = fst (splice s b ps k inst)" using sp by simp
  show "fresh s \<le> fresh s'" by (simp add: s' splice_def)
  show "\<forall>p. nodes s' p \<noteq> None \<longrightarrow> p < fresh s'"
    using represents_splice [OF r k sp] by (simp add: represents_def)
  show "\<forall>p \<in> set qs. nodes s' p = nodes s p"
  proof
    fix p assume p: "p \<in> set qs"
    then have "p \<notin> set ps" "p \<noteq> fresh s"
      using represents_disjoint [OF r c] c(1) by (auto simp: represents_def)
    then have "\<not> (0 < k \<and> p = ps ! (k - 1))" "\<not> (k < length ps \<and> p = ps ! k)"
      using k by auto
    then show "nodes s' p = nodes s p"
      using \<open>p \<noteq> fresh s\<close> by (cases "nodes s p") (auto simp: s' splice_def)
  qed
qed

lemma represents_unlink_frame:
  assumes r: "represents s b ps" and k: "k < length ps" and un: "unlink s b ps k = (s', b')"
    and c: "represents s c qs" "bb_id c \<noteq> bb_id b"
  shows "represents s' c qs \<and> contents s' qs = contents s qs"
proof (rule represents_frame [OF c(1)])
  have s': "s' = fst (unlink s b ps k)" using un by simp
  show "fresh s \<le> fresh s'" by (simp add: s' unlink_def)
  show "\<forall>p. nodes s' p \<noteq> None \<longrightarrow> p < fresh s'"
    using represents_unlink [OF r k un] by (simp add: represents_def)
  show "\<forall>p \<in> set qs. nodes s' p = nodes s p"
  proof
    fix p assume p: "p \<in> set qs"
    then have "p \<notin> set ps"
      using represents_disjoint [OF r c] by auto
    then have "\<not> (0 < k \<and> p = ps ! (k - 1))" "\<not> (Suc k < length ps \<and> p = ps ! Suc k)"
      using k by auto
    then show "nodes s' p = nodes s p"
      by (cases "nodes s p") (auto simp: s' unlink_def)
  qed
qed

section \<open>Edit scripts\<close>

text \<open>
  The passes of the generator edit a block by walking over its nodes and inserting or deleting around
  the nodes they meet. An edit names a node by its index in the iteration order.
\<close>

datatype 'i edit =
    InsertAfter nat 'i
  | InsertBefore nat 'i
  | AppendInst 'i
  | PrependInst 'i
  | DeleteAt nat

fun edit_list :: "'i edit \<Rightarrow> 'i list \<Rightarrow> 'i list res" where
  "edit_list (InsertAfter k x) xs = (if k < length xs then ok (insert_at (Suc k) x xs) else raise IndexError)"
| "edit_list (InsertBefore k x) xs = (if k < length xs then ok (insert_at k x xs) else raise IndexError)"
| "edit_list (AppendInst x) xs = ok (xs @ [x])"
| "edit_list (PrependInst x) xs = ok (x # xs)"
| "edit_list (DeleteAt k) xs = (if k < length xs then ok (remove_at k xs) else raise IndexError)"

definition pick_node :: "('s \<Rightarrow> 'p list option) \<Rightarrow> 's \<Rightarrow> nat \<Rightarrow> 'p res" where
  "pick_node iter s k = (case iter s of
       Some ps \<Rightarrow> if k < length ps then ok (ps ! k) else raise IndexError
     | None \<Rightarrow> raise IndexError)"

fun edit_state ::
  "('s \<Rightarrow> 'p list option) \<Rightarrow> ('s \<Rightarrow> 'p option \<Rightarrow> 'i \<Rightarrow> 's res) \<Rightarrow> ('s \<Rightarrow> 'p option \<Rightarrow> 'i \<Rightarrow> 's res) \<Rightarrow>
   ('s \<Rightarrow> 'p \<Rightarrow> 's res) \<Rightarrow> 'i edit \<Rightarrow> 's \<Rightarrow> 's res" where
  "edit_state iter ia ib del (InsertAfter k x) s = rbind (pick_node iter s k) (\<lambda>p. ia s (Some p) x)"
| "edit_state iter ia ib del (InsertBefore k x) s = rbind (pick_node iter s k) (\<lambda>p. ib s (Some p) x)"
| "edit_state iter ia ib del (AppendInst x) s = ia s None x"
| "edit_state iter ia ib del (PrependInst x) s = ib s None x"
| "edit_state iter ia ib del (DeleteAt k) s = rbind (pick_node iter s k) (\<lambda>p. del s p)"

definition bb_edit :: "'i edit \<Rightarrow> 'i node_store \<times> 'i BasicBlock \<Rightarrow> ('i node_store \<times> 'i BasicBlock) res" where
  "bb_edit = edit_state (\<lambda>(s, b). iter_nodes s b) (\<lambda>(s, b). insert_after s b) (\<lambda>(s, b). insert_before s b)
     (\<lambda>(s, b). delete s b)"

fun run_edits :: "('e \<Rightarrow> 's \<Rightarrow> 's res) \<Rightarrow> 'e list \<Rightarrow> 's \<Rightarrow> 's res" where
  "run_edits f [] s = ok s"
| "run_edits f (e # es) s = rbind (f e s) (run_edits f es)"

text \<open>
  The interface a pass relies on: iteration yields the nodes in order, the insertions add one
  instruction at the expected place and the deletion removes one.
\<close>

locale linked_sequence =
  fixes rep :: "'s \<Rightarrow> 'p list \<Rightarrow> 'i list \<Rightarrow> bool"
    and iter :: "'s \<Rightarrow> 'p list option"
    and ins_after :: "'s \<Rightarrow> 'p option \<Rightarrow> 'i \<Rightarrow> 's res"
    and ins_before :: "'s \<Rightarrow> 'p option \<Rightarrow> 'i \<Rightarrow> 's res"
    and del :: "'s \<Rightarrow> 'p \<Rightarrow> 's res"
  assumes iter_rep: "rep s ps xs \<Longrightarrow> iter s = Some ps \<and> length ps = length xs"
    and after_rep: "rep s ps xs \<Longrightarrow> k < length ps \<Longrightarrow>
      \<exists>s' qs. ins_after s (Some (ps ! k)) x = Inr s' \<and> rep s' qs (insert_at (Suc k) x xs)"
    and before_rep: "rep s ps xs \<Longrightarrow> k < length ps \<Longrightarrow>
      \<exists>s' qs. ins_before s (Some (ps ! k)) x = Inr s' \<and> rep s' qs (insert_at k x xs)"
    and append_rep: "rep s ps xs \<Longrightarrow> \<exists>s' qs. ins_after s None x = Inr s' \<and> rep s' qs (xs @ [x])"
    and prepend_rep: "rep s ps xs \<Longrightarrow> \<exists>s' qs. ins_before s None x = Inr s' \<and> rep s' qs (x # xs)"
    and del_rep: "rep s ps xs \<Longrightarrow> k < length ps \<Longrightarrow>
      \<exists>s' qs. del s (ps ! k) = Inr s' \<and> rep s' qs (remove_at k xs)"
begin

lemma pick_node_rep:
  assumes "rep s ps xs"
  shows "pick_node iter s k = (if k < length xs then Inr (ps ! k) else Inl IndexError)"
  using iter_rep [OF assms] by (simp add: pick_node_def)

lemma edit_refines:
  assumes "rep s ps xs"
  shows "case edit_list e xs of Inl er \<Rightarrow> edit_state iter ins_after ins_before del e s = Inl er
    | Inr ys \<Rightarrow> \<exists>s' qs. edit_state iter ins_after ins_before del e s = Inr s' \<and> rep s' qs ys"
proof -
  have len: "length ps = length xs" using iter_rep [OF assms] by simp
  show ?thesis
    using after_rep [OF assms] before_rep [OF assms] append_rep [OF assms] prepend_rep [OF assms]
      del_rep [OF assms] pick_node_rep [OF assms] len
    by (cases e) auto
qed

lemma script_refines:
  assumes "rep s ps xs"
  shows "case run_edits edit_list es xs of
      Inl er \<Rightarrow> run_edits (edit_state iter ins_after ins_before del) es s = Inl er
    | Inr ys \<Rightarrow> \<exists>s' qs. run_edits (edit_state iter ins_after ins_before del) es s = Inr s' \<and> rep s' qs ys"
  using assms
proof (induction es arbitrary: s ps xs)
  case Nil
  then show ?case by auto
next
  case (Cons e es)
  show ?case
  proof (cases "edit_list e xs")
    case (Inl er)
    then show ?thesis using edit_refines [OF Cons.prems, of e] by simp
  next
    case (Inr ys)
    then obtain s' qs where "edit_state iter ins_after ins_before del e s = Inr s'" "rep s' qs ys"
      using edit_refines [OF Cons.prems, of e] by auto
    then show ?thesis using Cons.IH [of s' qs ys] Inr by (auto split: sum.splits)
  qed
qed

end

text \<open>
  The block state: the block with identity \<open>ident\<close> holds the instructions \<open>xs\<close>, and every block of the
  family \<open>F\<close> (with its nodes and its instructions) is untouched.
\<close>

definition bb_rep :: "nat \<Rightarrow> ('i BasicBlock \<times> nat list \<times> 'i list) set \<Rightarrow>
    'i node_store \<times> 'i BasicBlock \<Rightarrow> nat list \<Rightarrow> 'i list \<Rightarrow> bool" where
  "bb_rep ident F st ps xs \<longleftrightarrow> (case st of (s, b) \<Rightarrow>
     bb_id b = ident \<and> represents s b ps \<and> contents s ps = xs \<and>
     (\<forall>(c, qs, ys) \<in> F. bb_id c \<noteq> ident \<and> represents s c qs \<and> contents s qs = ys))"

lemma contents_length: "represents s b ps \<Longrightarrow> length (contents s ps) = length ps"
  by (simp add: contents_nth)

lemma bb_rep_splice:
  assumes "bb_rep ident F (s, b) ps xs" and "k \<le> length ps"
  shows "bb_rep ident F (splice s b ps k x) (insert_at k (fresh s) ps) (insert_at k x xs)"
proof (cases "splice s b ps k x")
  case (Pair s' b')
  then have "bb_id b' = bb_id b" by (auto simp: splice_def)
  then show ?thesis
    using assms represents_splice [OF _ assms(2) Pair] contents_splice [OF _ assms(2) Pair]
      represents_splice_frame [OF _ assms(2) Pair] Pair
    by (fastforce simp: bb_rep_def)
qed

lemma bb_rep_unlink:
  assumes "bb_rep ident F (s, b) ps xs" and "k < length ps"
  shows "bb_rep ident F (unlink s b ps k) (remove_at k ps) (remove_at k xs)"
proof (cases "unlink s b ps k")
  case (Pair s' b')
  then have "bb_id b' = bb_id b" by (auto simp: unlink_def)
  then show ?thesis
    using assms represents_unlink [OF _ assms(2) Pair] contents_unlink [OF _ assms(2) Pair]
      represents_unlink_frame [OF _ assms(2) Pair] Pair
    by (fastforce simp: bb_rep_def)
qed

lemma insert_at_ends:
  "insert_at 0 x xs = x # xs" "insert_at (length xs) x xs = xs @ [x]"
  by (simp_all add: insert_at_def)

interpretation bb: linked_sequence "bb_rep ident F" "\<lambda>(s, b). iter_nodes s b" "\<lambda>(s, b). insert_after s b"
  "\<lambda>(s, b). insert_before s b" "\<lambda>(s, b). delete s b" for ident F
proof
  fix st :: "'a node_store \<times> 'a BasicBlock" and ps xs k x
  assume rep: "bb_rep ident F st ps xs"
  obtain s b where st: "st = (s, b)" by fastforce
  have r: "represents s b ps" and len: "length ps = length xs"
    using rep by (auto simp: bb_rep_def st contents_length)
  show "(case st of (s, b) \<Rightarrow> iter_nodes s b) = Some ps \<and> length ps = length xs"
    using iter_nodes_represents [OF r] len by (simp add: st)
  show "\<exists>s' qs. (case st of (s, b) \<Rightarrow> insert_after s b) None x = Inr s' \<and> bb_rep ident F s' qs (xs @ [x])"
    using insert_after_None_splice [OF r] bb_rep_splice [of ident F s b ps xs "length ps" x] rep len
    by (auto simp: st insert_at_ends)
  show "\<exists>s' qs. (case st of (s, b) \<Rightarrow> insert_before s b) None x = Inr s' \<and> bb_rep ident F s' qs (x # xs)"
    using insert_before_None_splice [OF r] bb_rep_splice [of ident F s b ps xs 0 x] rep
    by (auto simp: st insert_at_ends)
  assume k: "k < length ps"
  show "\<exists>s' qs. (case st of (s, b) \<Rightarrow> insert_after s b) (Some (ps ! k)) x = Inr s' \<and>
      bb_rep ident F s' qs (insert_at (Suc k) x xs)"
    using insert_after_splice [OF r k] bb_rep_splice [of ident F s b ps xs "Suc k" x] rep k
    by (auto simp: st)
  show "\<exists>s' qs. (case st of (s, b) \<Rightarrow> insert_before s b) (Some (ps ! k)) x = Inr s' \<and>
      bb_rep ident F s' qs (insert_at k x xs)"
    using insert_before_splice [OF r k] bb_rep_splice [of ident F s b ps xs k x] rep k
    by (auto simp: st)
  show "\<exists>s' qs. (case st of (s, b) \<Rightarrow> delete s b) (ps ! k) = Inr s' \<and> bb_rep ident F s' qs (remove_at k xs)"
    using delete_unlink [OF r k] bb_rep_unlink [OF rep [unfolded st] k] by (auto simp: st)
qed

text \<open>A walk only depends on the \<^verbatim>\<open>next\<close> links of the nodes it visits.\<close>

lemma walk_next_cong:
  assumes "walk_next s fuel st = Some qs" and "fuel \<le> fuel'"
    and "\<forall>p \<in> set qs. map_option node_next (nodes s' p) = map_option node_next (nodes s p)"
  shows "walk_next s' fuel' st = Some qs"
  using assms
proof (induction s fuel st arbitrary: fuel' qs rule: walk_next.induct)
  case (3 s fuel p)
  then obtain n ps where n: "nodes s p = Some n" "walk_next s fuel (node_next n) = Some ps" "qs = p # ps"
    by (auto split: option.splits)
  from n "3.prems"(3) obtain m where m: "nodes s' p = Some m" "node_next m = node_next n"
    by auto
  obtain f where f: "fuel' = Suc f" "fuel \<le> f"
    using "3.prems"(2) by (cases fuel') auto
  have "walk_next s' f (node_next n) = Some ps"
    using "3.IH" [OF n(1,2) f(2)] "3.prems"(3) n(3) by simp
  then show ?case using f(1) m n(3) by simp
qed auto

section \<open>Properties\<close>

text \<open>
  C26: Editing a basic block through \<^verbatim>\<open>insert_after\<close>, \<^verbatim>\<open>insert_before\<close> and \<^verbatim>\<open>delete\<close> at nodes found by
  \<^verbatim>\<open>iter_nodes\<close> is editing the list of its instructions: every edit script succeeds on the linked
  nodes exactly when it does on the list, iterating over the block afterwards terminates and yields the
  list of the script, and no other block of the same store changes.
\<close>

theorem edit_script_refines:
  assumes "represents s b ps" and "bb_iter s b = Some xs"
    and "represents s c qs" and "bb_id c \<noteq> bb_id b"
  shows "case run_edits edit_list es xs of
      Inl er \<Rightarrow> run_edits bb_edit es (s, b) = Inl er
    | Inr ys \<Rightarrow> (\<exists>s' b'. run_edits bb_edit es (s, b) = Inr (s', b') \<and> bb_iter s' b' = Some ys \<and>
        bb_len s' b' = Some (length ys) \<and> iter_nodes s' c = Some qs \<and> bb_iter s' c = bb_iter s c)"
proof -
  let ?F = "{(c, qs, contents s qs)}"
  have "bb_rep (bb_id b) ?F (s, b) ps xs"
    using assms bb_iter_represents [OF assms(1)] by (simp add: bb_rep_def)
  note script = bb.script_refines [OF this, of es, folded bb_edit_def]
  show ?thesis
  proof (cases "run_edits edit_list es xs")
    case (Inl er)
    then show ?thesis using script by simp
  next
    case (Inr ys)
    with script obtain s' b' ps' where run: "run_edits bb_edit es (s, b) = Inr (s', b')"
      and rep: "bb_rep (bb_id b) ?F (s', b') ps' ys" by auto
    from rep have "represents s' b' ps'" "contents s' ps' = ys" "represents s' c qs"
      "contents s' qs = contents s qs"
      by (auto simp: bb_rep_def)
    then show ?thesis
      using run Inr bb_iter_represents [OF assms(3)]
      by (auto simp: bb_len_def contents_length bb_iter_represents iter_nodes_represents)
  qed
qed

definition demo_store :: "nat node_store" where
  "demo_store = \<lparr>nodes = \<lambda>_. None, fresh = 0\<rparr>"

definition demo_block :: "nat \<Rightarrow> nat BasicBlock" where
  "demo_block ident = BasicBlock_init ident ''.bb'' False"

lemma demo_represents: "represents demo_store (demo_block ident) []"
  by (simp add: demo_store_def demo_block_def represents_empty)

definition demo_script :: "nat edit list" where
  "demo_script = [AppendInst 1, AppendInst 2, InsertBefore 1 3, DeleteAt 0]"

theorem edit_script_refines_witness:
  "\<exists>s' b'. run_edits bb_edit demo_script (demo_store, demo_block 0) = Inr (s', b') \<and>
     bb_iter s' b' = Some [3, 2] \<and> bb_len s' b' = Some 2"
proof -
  have "bb_iter demo_store (demo_block 0) = Some []"
    using bb_iter_represents [OF demo_represents [of 0]] by (simp add: contents_def List.map_filter_def)
  moreover have "bb_id (demo_block 1) \<noteq> bb_id (demo_block 0)"
    by (simp add: demo_block_def BasicBlock_init_def)
  moreover have "run_edits edit_list demo_script [] = Inr [3, 2]"
    by (simp add: demo_script_def insert_at_def remove_at_def)
  ultimately show ?thesis
    using edit_script_refines [OF demo_represents [of 0] _ demo_represents [of 1], of "[]" demo_script]
    by auto
qed

text \<open>
  A node that was deleted from a block keeps its \<^verbatim>\<open>parent\<close>, so \<^verbatim>\<open>insert_after\<close> accepts it as a
  position instead of raising ValueError; unless it was the last node, the new instruction is then not
  part of the block: iterating yields the same instructions as before the insertion.
\<close>

theorem insert_after_deleted_node_lost:
  assumes r: "represents s b ps" and k: "Suc k < length ps" and del: "delete s b (ps ! k) = Inr (s', b')"
  shows "\<exists>s'' b''. insert_after s' b' (Some (ps ! k)) x = Inr (s'', b'') \<and> bb_iter s'' b'' = bb_iter s' b'"
proof -
  have k': "k < length ps" using k by simp
  have un: "unlink s b ps k = (s', b')" using del delete_unlink [OF r k'] by simp
  then have s': "s' = fst (unlink s b ps k)" by simp
  from represents_lookup [OF r k'] obtain n where n: "nodes s (ps ! k) = Some n"
    "node_parent n = bb_id b" "node_next n = (if Suc k < length ps then Some (ps ! Suc k) else None)" .
  have neq: "ps ! k \<noteq> ps ! Suc k" "0 < k \<longrightarrow> ps ! k \<noteq> ps ! (k - 1)" "ps ! k \<noteq> fresh s"
    "ps ! Suc k \<noteq> fresh s"
    using represents_nth_eq [OF r k' k] represents_nth_eq [OF r k', of "k - 1"] k
      represents_fresh [OF r k'] represents_fresh [OF r k] by auto
  have n': "nodes s' (ps ! k) = Some n" "fresh s' = fresh s"
    using neq n(1) by (auto simp: s' unlink_def)
  have b': "bb_id b' = bb_id b" using un by (auto simp: unlink_def)
  obtain s'' where ins: "insert_after s' b' (Some (ps ! k)) x = Inr (s'', b')" and fr: "fresh s'' = Suc (fresh s)"
    and nx: "\<forall>p. p \<noteq> ps ! k \<and> p \<noteq> fresh s \<longrightarrow> map_option node_next (nodes s'' p) = map_option node_next (nodes s' p)"
    and ni: "\<forall>p. p \<noteq> fresh s \<longrightarrow> instr_at s'' p = instr_at s' p"
    using n n' neq b' k
    by (auto simp: insert_after_def alloc_node_def set_next_def set_previous_def instr_at_def
        option.map_comp o_def)
  let ?qs = "remove_at k ps"
  note r' = represents_unlink [OF r k' un]
  have notin: "ps ! k \<notin> set ?qs"
    using r k' by (auto simp: represents_def remove_at_def in_set_conv_nth nth_eq_iff_index_eq)
  have fresh_notin: "fresh s \<notin> set ?qs" using r' n'(2) by (auto simp: represents_def)
  have walk: "walk_next s' (fresh s') (bb_start b') = Some ?qs"
    using iter_nodes_represents [OF r'] by (simp add: iter_nodes_def)
  have links: "\<forall>p \<in> set ?qs. map_option node_next (nodes s'' p) = map_option node_next (nodes s' p)"
    using nx notin fresh_notin by metis
  have "iter_nodes s'' b' = Some ?qs"
    unfolding iter_nodes_def fr by (rule walk_next_cong [OF walk _ links]) (simp add: n'(2))
  moreover have "contents s'' ?qs = contents s' ?qs"
    by (rule contents_cong) (use ni fresh_notin in metis)
  ultimately have "bb_iter s'' b' = bb_iter s' b'"
    using bb_iter_represents [OF r'] bb_iter_contents [of s'' b'] by simp
  then show ?thesis using ins by blast
qed

definition demo_pair :: "nat node_store \<times> nat BasicBlock" where
  "demo_pair = splice (fst (splice demo_store (demo_block 0) [] 0 1))
     (snd (splice demo_store (demo_block 0) [] 0 1)) [0] 1 2"

lemma demo_pair_represents: "represents (fst demo_pair) (snd demo_pair) [0, 1]"
proof -
  let ?s = "fst (splice demo_store (demo_block 0) [] 0 1)" and ?b = "snd (splice demo_store (demo_block 0) [] 0 1)"
  have "represents ?s ?b [0]"
    using represents_splice [OF demo_represents, where s' = ?s and b' = ?b and k = 0 and inst = 1] by (simp add: insert_at_def demo_store_def)
  from represents_splice [OF this, where s' = "fst demo_pair" and b' = "snd demo_pair" and k = 1 and inst = 2] show ?thesis
    by (simp add: demo_pair_def insert_at_def splice_def demo_store_def)
qed

theorem insert_after_deleted_node_lost_witness:
  "\<exists>s' b' s'' b''. delete (fst demo_pair) (snd demo_pair) 0 = Inr (s', b') \<and>
     insert_after s' b' (Some 0) 9 = Inr (s'', b'') \<and> bb_iter s'' b'' = Some [2]"
proof -
  let ?s = "fst demo_pair" and ?b = "snd demo_pair"
  obtain s' b' where un: "unlink ?s ?b [0, 1] 0 = (s', b')" by fastforce
  then have del: "delete ?s ?b 0 = Inr (s', b')"
    using delete_unlink [OF demo_pair_represents, of 0] by simp
  have "bb_iter s' b' = Some (remove_at 0 (contents ?s [0, 1]))"
    using bb_iter_represents [OF represents_unlink [OF demo_pair_represents _ un]]
      contents_unlink [OF demo_pair_represents _ un] by simp
  also have "contents ?s [0, 1] = [1, 2]"
    by (simp add: demo_pair_def splice_def demo_store_def demo_block_def BasicBlock_init_def contents_def
        instr_at_def List.map_filter_def)
  finally have "bb_iter s' b' = Some [2]" by (simp add: remove_at_def)
  then show ?thesis
    using insert_after_deleted_node_lost [OF demo_pair_represents, of 0 s' b' 9] del by auto
qed

end
