(* ===== verification/Traces.thy ===== *)
theory Traces
  imports PyString "HOL-Library.Multiset"
begin

unbundle bit_operations_syntax

text \<open>
  Model of \<^verbatim>\<open>rvzr/traces.py\<close>: contract traces, hardware traces, and the containers that group
  measurements into contract and hardware equivalence classes and into violations. The digest
  \<^verbatim>\<open>xxhash.xxh64\<close> and numpy's \<^verbatim>\<open>str\<close> of an array are code of other packages: parameters of the model.
\<close>

record hashing =
  xxh64 :: "string \<Rightarrow> nat"
  np_str :: "u64 list \<Rightarrow> string"

section \<open>Contract traces\<close>

datatype CTraceEntryType = CT_mem | CT_pc | CT_val | CT_reg | CT_ind

record CTraceEntry =
  entry_type :: CTraceEntryType
  entry_value :: int

record CTrace =
  ct_trace :: "CTraceEntry list"
  ct_untyped :: "int list"
  ct_hash :: nat
  printed_as_l1d_map :: bool

definition CTrace_init :: "hashing \<Rightarrow> CTraceEntry list \<Rightarrow> CTrace" where
  "CTrace_init H trace =
     (let untyped = map entry_value trace
      in \<lparr>ct_trace = trace, ct_untyped = untyped, ct_hash = xxh64 H (str_int_list untyped),
          printed_as_l1d_map = False\<rparr>)"

definition CTrace_empty :: "hashing \<Rightarrow> CTrace" where
  "CTrace_empty H = CTrace_init H []"

definition ctrace_eq :: "CTrace \<Rightarrow> CTrace \<Rightarrow> bool" where
  "ctrace_eq a b \<longleftrightarrow> ct_hash a = ct_hash b"

definition ctrace_len :: "CTrace \<Rightarrow> nat" where
  "ctrace_len c = length (ct_untyped c)"

definition ctrace_is_empty :: "CTrace \<Rightarrow> bool" where
  "ctrace_is_empty c \<longleftrightarrow> ctrace_len c = 0"

text \<open>A bit mask of 64 positions, most significant first, with dots for zeros and carets for ones.\<close>

definition bitmap_str :: "u64 \<Rightarrow> string" where
  "bitmap_str w = map (\<lambda>i. if bit w (63 - i) then CHR ''^'' else CHR ''.'') [0..<64]"

definition l1d_bit :: "int \<Rightarrow> u64" where
  "l1d_bit address = drop_bit (nat (take_bit 6 (drop_bit 6 address))) 0x8000000000000000"

definition l1d_map :: "int list \<Rightarrow> u64" where
  "l1d_map untyped = foldl (\<lambda>m a. m OR l1d_bit a) 0 untyped"

definition ctrace_str :: "CTrace \<Rightarrow> string" where
  "ctrace_str c = (if \<not> printed_as_l1d_map c then str_nat (ct_hash c) else bitmap_str (l1d_map (ct_untyped c)))"

definition set_printed_as_l1d :: "CTrace \<Rightarrow> bool \<Rightarrow> CTrace" where
  "set_printed_as_l1d c v = c\<lparr>printed_as_l1d_map := v\<rparr>"

definition REG_ID_TO_NAME :: "bool \<Rightarrow> (nat, string) dict" where
  "REG_ID_TO_NAME is_x86 =
     (if is_x86 then [(0, ''rax''), (1, ''rbx''), (2, ''rcx''), (3, ''rdx''), (4, ''rsi''), (5, ''rdi'')]
      else [(0, ''x0''), (1, ''x1''), (2, ''x2''), (3, ''x3''), (4, ''x4''), (5, ''x5'')])"

text \<open>\<^verbatim>\<open>CTrace.full_str\<close>: a register entry is named by its position in the trace.\<close>

definition entry_str ::
  "bool \<Rightarrow> string \<Rightarrow> string \<Rightarrow> string \<Rightarrow> string \<Rightarrow> nat \<times> CTraceEntry \<Rightarrow> string res" where
  "entry_str is_x86 m_col pc_col val_col reset_col ie =
     (case ie of (i, e) \<Rightarrow> let h = hex_int (entry_value e) @ reset_col in
      (case entry_type e of
         CT_mem \<Rightarrow> ok (''mem: '' @ m_col @ h)
       | CT_pc \<Rightarrow> ok (''pc: '' @ pc_col @ h)
       | CT_ind \<Rightarrow> ok (''indcall: '' @ pc_col @ h)
       | CT_val \<Rightarrow> ok (''val: '' @ val_col @ h)
       | CT_reg \<Rightarrow> rbind (dict_get (REG_ID_TO_NAME is_x86) i) (\<lambda>name. ok (name @ '': '' @ h))))"

definition ctrace_full_str :: "bool \<Rightarrow> CTrace \<Rightarrow> string \<Rightarrow> string \<Rightarrow> string \<Rightarrow> string \<Rightarrow> string res" where
  "ctrace_full_str is_x86 c m_col pc_col val_col reset_col =
     py_assert (reset_col \<noteq> [] \<or> \<not> (m_col \<noteq> [] \<or> pc_col \<noteq> [] \<or> val_col \<noteq> []))
       (rbind (rmapM (entry_str is_x86 m_col pc_col val_col reset_col) (enumerate 0 (ct_trace c)))
         (\<lambda>ss. ok (''['' @ join '', '' ss @ '']'')))"

section \<open>Hardware traces\<close>

datatype HTraceType = HT_cache | HT_tsc | HT_reg

record RawHTraceSample =
  smp_trace :: u64
  pfc0 :: u64
  pfc1 :: u64
  pfc2 :: u64
  pfc3 :: u64
  pfc4 :: u64

type_synonym PFCTuple = "u64 \<times> u64 \<times> u64 \<times> u64 \<times> u64"

record HTrace =
  ht_raw :: "RawHTraceSample list"
  ht_hash :: nat
  ht_corrupted_or_ignored :: bool
  ht_max_pfc :: "PFCTuple option"
  ht_type :: HTraceType

definition HTrace_init :: "hashing \<Rightarrow> RawHTraceSample list \<Rightarrow> HTraceType \<Rightarrow> HTrace" where
  "HTrace_init H samples ty =
     \<lparr>ht_raw = samples, ht_hash = xxh64 H (np_str H (map smp_trace samples)),
      ht_corrupted_or_ignored = list_all (\<lambda>x. smp_trace x = 0) samples, ht_max_pfc = None, ht_type = ty\<rparr>"

definition zero_sample :: RawHTraceSample where
  "zero_sample = \<lparr>smp_trace = 0, pfc0 = 0, pfc1 = 0, pfc2 = 0, pfc3 = 0, pfc4 = 0\<rparr>"

definition HTrace_empty :: "hashing \<Rightarrow> HTraceType \<Rightarrow> HTrace" where
  "HTrace_empty H ty = HTrace_init H [] ty"

definition HTrace_invalid :: "hashing \<Rightarrow> HTraceType \<Rightarrow> HTrace" where
  "HTrace_invalid H ty = HTrace_init H [zero_sample] ty"

definition htrace_eq :: "HTrace \<Rightarrow> HTrace \<Rightarrow> bool" where
  "htrace_eq a b \<longleftrightarrow> ht_hash a = ht_hash b"

definition htrace_len :: "HTrace \<Rightarrow> nat" where
  "htrace_len h = length (ht_raw h)"

definition merge_htrace :: "hashing \<Rightarrow> HTrace \<Rightarrow> HTrace \<Rightarrow> HTrace" where
  "merge_htrace H a b = HTrace_init H (ht_raw a @ ht_raw b) (ht_type a)"

definition htrace_is_empty :: "HTrace \<Rightarrow> bool" where
  "htrace_is_empty h \<longleftrightarrow> htrace_len h = 0"

definition is_corrupted_or_ignored :: "HTrace \<Rightarrow> bool" where
  "is_corrupted_or_ignored h = ht_corrupted_or_ignored h"

definition get_raw_traces :: "HTrace \<Rightarrow> u64 list" where
  "get_raw_traces h = map smp_trace (ht_raw h)"

definition sample_size :: "HTrace \<Rightarrow> nat" where
  "sample_size h = length (ht_raw h)"

definition pfc_tuple :: "RawHTraceSample \<Rightarrow> PFCTuple" where
  "pfc_tuple x = (pfc0 x, pfc1 x, pfc2 x, pfc3 x, pfc4 x)"

text \<open>The maximum is computed once and then kept in the object.\<close>

definition get_max_pfc :: "HTrace \<Rightarrow> PFCTuple \<times> HTrace" where
  "get_max_pfc h =
     (let m = (case ht_max_pfc h of
          Some m \<Rightarrow> m
        | None \<Rightarrow> foldl (\<lambda>m x. if fst m < pfc0 x then pfc_tuple x else m) (0, 0, 0, 0, 0) (ht_raw h))
      in (m, h\<lparr>ht_max_pfc := Some m\<rparr>))"

text \<open>
  The printers. \<^verbatim>\<open>Counter\<close> keeps its keys in the order of first occurrence; \<^verbatim>\<open>sorted\<close> is stable, also
  with \<^verbatim>\<open>reverse=True\<close>.
\<close>

definition counter :: "'a list \<Rightarrow> ('a, nat) dict" where
  "counter xs = foldl (\<lambda>d x. dict_set d x (dict_get_default d x 0 + 1)) [] xs"

definition by_count_desc :: "('a, nat) dict \<Rightarrow> ('a, nat) dict" where
  "by_count_desc d = sort_key (\<lambda>kv. - int (snd kv)) d"

definition zero_pad :: "nat \<Rightarrow> string \<Rightarrow> string" where
  "zero_pad n s = replicate (n - length s) (CHR ''0'') @ s"

definition colour_regions :: "string \<Rightarrow> string \<Rightarrow> string \<Rightarrow> string \<Rightarrow> string" where
  "colour_regions r1_col r2_col reset_col line =
     concat (map (\<lambda>i. (if even i then r1_col else r2_col) @ take 8 (drop (8 * i) line)) [0..<8])
     @ reset_col @ drop 64 line"

definition full_cache_str :: "HTrace \<Rightarrow> string \<Rightarrow> string \<Rightarrow> string \<Rightarrow> string \<Rightarrow> string" where
  "full_cache_str h line_prefix r1_col r2_col reset_col =
     concat (map (\<lambda>(t, c). line_prefix @ colour_regions r1_col r2_col reset_col (bitmap_str t)
         @ '' ['' @ str_nat c @ '']'' @ [CHR 10])
       (by_count_desc (counter (get_raw_traces h))))"

definition full_tsc_str :: "HTrace \<Rightarrow> string \<Rightarrow> string" where
  "full_tsc_str h line_prefix =
     concat (map (\<lambda>(t, c). line_prefix @ zero_pad 8 (str_nat (unat (t AND 0xFFFFFFFFFFFFFF)))
         @ '' ['' @ str_nat c @ '']'' @ [CHR 10])
       (by_count_desc (counter (get_raw_traces h))))"

definition full_arch_str :: "bool \<Rightarrow> HTrace \<Rightarrow> string \<Rightarrow> string res" where
  "full_arch_str is_x86 h line_prefix =
     py_assert (length (ht_raw h) = 1)
       (let x = hd (ht_raw h);
            names = map snd (REG_ID_TO_NAME is_x86);
            vals = [smp_trace x, pfc0 x, pfc1 x, pfc2 x, pfc3 x, pfc4 x]
        in ok (line_prefix @ ''['' @
             join '', '' (map (\<lambda>(n, v). n @ '': 0x'' @ hex_digits (unat v)) (zip names vals)) @ '']''))"

definition htrace_full_str :: "bool \<Rightarrow> HTrace \<Rightarrow> string \<Rightarrow> string \<Rightarrow> string \<Rightarrow> string \<Rightarrow> string res" where
  "htrace_full_str is_x86 h line_prefix region1_col region2_col reset_col =
     (if htrace_is_empty h then ok line_prefix
      else (case ht_type h of
          HT_cache \<Rightarrow> ok (full_cache_str h line_prefix region1_col region2_col reset_col)
        | HT_tsc \<Rightarrow> ok (full_tsc_str h line_prefix)
        | HT_reg \<Rightarrow> full_arch_str is_x86 h line_prefix))"

section \<open>Measurements and equivalence classes\<close>

type_synonym InputID = nat

record 'inp TraceBundle =
  input_id :: InputID
  bundle_input :: 'inp
  bundle_ctrace :: CTrace
  bundle_htrace :: HTrace

text \<open>
  An equivalence function may raise, and may keep state (the bitmap cache of one of the analysers).
\<close>

type_synonym 'c hw_equivalence = "'c \<Rightarrow> HTrace \<Rightarrow> HTrace \<Rightarrow> (bool \<times> 'c) res"

definition default_eq_function :: "'c hw_equivalence" where
  "default_eq_function c a b = ok (htrace_eq a b, c)"

record 'inp HardwareEqClass =
  hw_htrace :: HTrace
  hw_measurements :: "'inp TraceBundle list"

definition HardwareEqClass_init :: "'inp TraceBundle list \<Rightarrow> 'inp HardwareEqClass res" where
  "HardwareEqClass_init ms = (case ms of [] \<Rightarrow> raise IndexError
     | m # _ \<Rightarrow> ok \<lparr>hw_htrace = bundle_htrace m, hw_measurements = ms\<rparr>)"

text \<open>The inner loop: the first of the diverging traces that is equivalent to the current one.\<close>

fun find_equivalent :: "'c hw_equivalence \<Rightarrow> 'c \<Rightarrow> HTrace \<Rightarrow> HTrace list \<Rightarrow> (HTrace option \<times> 'c) res" where
  "find_equivalent eq c h [] = ok (None, c)"
| "find_equivalent eq c h (o1 # os) =
     rbind (eq c h o1) (\<lambda>(e, c'). if e then ok (Some o1, c') else find_equivalent eq c' h os)"

text \<open>One iteration over a measurement.\<close>

definition hw_step ::
  "'c hw_equivalence \<Rightarrow> (nat, 'inp TraceBundle list) dict \<times> HTrace list \<times> 'c \<Rightarrow> 'inp TraceBundle \<Rightarrow>
   ((nat, 'inp TraceBundle list) dict \<times> HTrace list \<times> 'c) res" where
  "hw_step eq st m =
     (case st of (groups, divg, c) \<Rightarrow>
       let h = bundle_htrace m
       in if divg = [] then ok (dict_set groups (ht_hash h) [m], [h], c)
          else rbind (find_equivalent eq c h divg) (\<lambda>(r, c').
            case r of
              Some h' \<Rightarrow> rbind (dict_get groups (ht_hash h'))
                (\<lambda>g. ok (dict_set groups (ht_hash h') (g @ [m]), divg, c'))
            | None \<Rightarrow> ok (dict_set groups (ht_hash h) [m], divg @ [h], c')))"

definition build_hw_classes ::
  "'c hw_equivalence \<Rightarrow> 'c \<Rightarrow> 'inp TraceBundle list \<Rightarrow> ('inp HardwareEqClass list \<times> 'c) res" where
  "build_hw_classes eq c ms =
     rbind (rfold (hw_step eq) ([], [], c) ms)
       (\<lambda>(groups, divg, c'). rbind (rmapM HardwareEqClass_init (dict_values groups)) (\<lambda>cs. ok (cs, c')))"

record 'inp ContractEqClass =
  eq_ctrace :: CTrace
  eq_measurements :: "'inp TraceBundle list"
  eq_hw_classes :: "'inp HardwareEqClass list option"

definition ContractEqClass_init :: "'inp TraceBundle list \<Rightarrow> 'inp ContractEqClass res" where
  "ContractEqClass_init ms = (case ms of [] \<Rightarrow> raise IndexError
     | m # _ \<Rightarrow> py_assert (list_all (\<lambda>x. ctrace_eq (bundle_ctrace x) (bundle_ctrace m)) ms)
         (ok \<lparr>eq_ctrace = bundle_ctrace m, eq_measurements = ms, eq_hw_classes = None\<rparr>))"

definition group_step ::
  "(nat, 'inp TraceBundle list) dict \<Rightarrow> 'inp TraceBundle \<Rightarrow> (nat, 'inp TraceBundle list) dict" where
  "group_step groups m =
     (let h = ct_hash (bundle_ctrace m)
      in case map_of groups h of
           None \<Rightarrow> dict_set groups h [m]
         | Some g \<Rightarrow> dict_set groups h (g @ [m]))"

definition build_contract_classes :: "'inp TraceBundle list \<Rightarrow> 'inp ContractEqClass list res" where
  "build_contract_classes ms = rmapM ContractEqClass_init (dict_values (foldl group_step [] ms))"

definition set_hw_classes :: "'inp ContractEqClass \<Rightarrow> 'inp HardwareEqClass list \<Rightarrow> 'inp ContractEqClass res" where
  "set_hw_classes e cs = py_assert (eq_hw_classes e = None) (ok (e\<lparr>eq_hw_classes := Some cs\<rparr>))"

definition set_trivial_hw_classes :: "'inp ContractEqClass \<Rightarrow> 'inp ContractEqClass res" where
  "set_trivial_hw_classes e =
     py_assert (eq_hw_classes e = None)
       (rbind (build_hw_classes default_eq_function () (eq_measurements e))
         (\<lambda>(cs, _). ok (e\<lparr>eq_hw_classes := Some cs\<rparr>)))"

definition get_hw_classes :: "'inp ContractEqClass \<Rightarrow> 'inp HardwareEqClass list res" where
  "get_hw_classes e = (case eq_hw_classes e of None \<Rightarrow> raise AssertionError | Some cs \<Rightarrow> ok cs)"

record ('inp, 'tc) Violation =
  viol_class :: "'inp ContractEqClass"
  input_sequence :: "'inp list"
  viol_test_case_code :: 'tc

definition Violation_init ::
  "'inp TraceBundle list \<Rightarrow> 'inp list \<Rightarrow> 'tc \<Rightarrow> ('inp, 'tc) Violation res" where
  "Violation_init ms inputs tc =
     rbind (ContractEqClass_init ms)
       (\<lambda>e. ok \<lparr>viol_class = e, input_sequence = inputs, viol_test_case_code = tc\<rparr>)"

definition from_contract_eq_class ::
  "'inp ContractEqClass \<Rightarrow> 'inp list \<Rightarrow> 'tc \<Rightarrow> ('inp, 'tc) Violation res" where
  "from_contract_eq_class e inputs tc =
     rbind (Violation_init (eq_measurements e) inputs tc) (\<lambda>v.
     rbind (get_hw_classes e) (\<lambda>cs.
     rbind (set_hw_classes (viol_class v) cs) (\<lambda>e'. ok (v\<lparr>viol_class := e'\<rparr>))))"

definition pseudo_violation_from_inputs ::
  "hashing \<Rightarrow> 'inp list \<Rightarrow> 'tc \<Rightarrow> ('inp, 'tc) Violation res" where
  "pseudo_violation_from_inputs H inputs tc =
     (let ms = map (\<lambda>(i, x). \<lparr>input_id = i, bundle_input = x, bundle_ctrace = CTrace_empty H,
                      bundle_htrace = HTrace_empty H HT_cache\<rparr>) (enumerate 0 inputs)
      in rbind (rmapM (\<lambda>m. HardwareEqClass_init [m]) ms) (\<lambda>cs.
         rbind (Violation_init ms inputs tc) (\<lambda>v.
         rbind (set_hw_classes (viol_class v) cs) (\<lambda>e. ok (v\<lparr>viol_class := e\<rparr>)))))"

section \<open>Contract classes\<close>

abbreviation bundle_chash :: "'inp TraceBundle \<Rightarrow> nat" where
  "bundle_chash m \<equiv> ct_hash (bundle_ctrace m)"

text \<open>
  The grouping loop: one group per hash, in the order of first occurrence, and each group holds the
  measurements with that hash in their original order.
\<close>

definition groups_of :: "'inp TraceBundle list \<Rightarrow> (nat, 'inp TraceBundle list) dict \<Rightarrow> bool" where
  "groups_of ms G \<longleftrightarrow> distinct (dict_keys G) \<and> set (dict_keys G) = bundle_chash ` set ms \<and>
     (\<forall>(k, g) \<in> set G. g = filter (\<lambda>m. bundle_chash m = k) ms)"

lemma group_step_groups_of:
  assumes "groups_of ms G"
  shows "groups_of (ms @ [m]) (group_step G m)"
proof (cases "map_of G (bundle_chash m)")
  case None
  then have new: "bundle_chash m \<notin> set (dict_keys G)"
    by (simp add: map_of_eq_None_iff)
  then have "filter (\<lambda>x. bundle_chash x = bundle_chash m) ms = []"
    using assms unfolding groups_of_def filter_empty_conv by (metis imageI)
  with None new assms show ?thesis
    by (auto simp: groups_of_def group_step_def dict_set_new)
next
  case (Some g)
  then have mem: "(bundle_chash m, g) \<in> set G" by (rule map_of_SomeD)
  then have key: "bundle_chash m \<in> set (dict_keys G)" by force
  have upd: "set (dict_set G (bundle_chash m) (g @ [m])) =
      {(bundle_chash m, g @ [m])} \<union> {(k, v) \<in> set G. k \<noteq> bundle_chash m}"
    using assms key by (intro set_dict_set_existing) (auto simp: groups_of_def)
  show ?thesis
    using assms mem key upd
    by (auto simp: groups_of_def group_step_def Some dict_set_existing_keys distinct_dict_set
        simp del: set_map)
qed

lemma groups_of_foldl: "groups_of ms (foldl group_step [] ms)"
proof (induction ms rule: rev_induct)
  case Nil
  show ?case by (simp add: groups_of_def)
next
  case (snoc m ms)
  then show ?case using group_step_groups_of by simp
qed

definition chash_order :: "'inp TraceBundle list \<Rightarrow> nat list" where
  "chash_order ms = dict_keys (foldl group_step [] ms)"

definition with_chash :: "'inp TraceBundle list \<Rightarrow> nat \<Rightarrow> 'inp TraceBundle list" where
  "with_chash ms k = filter (\<lambda>m. bundle_chash m = k) ms"

definition contract_class :: "'inp TraceBundle list \<Rightarrow> nat \<Rightarrow> 'inp ContractEqClass" where
  "contract_class ms k = \<lparr>eq_ctrace = bundle_ctrace (hd (with_chash ms k)),
     eq_measurements = with_chash ms k, eq_hw_classes = None\<rparr>"

lemma chash_order: "distinct (chash_order ms)" "set (chash_order ms) = bundle_chash ` set ms"
  using groups_of_foldl [of ms] by (auto simp: groups_of_def chash_order_def)

lemma with_chash_nonempty: "k \<in> set (chash_order ms) \<Longrightarrow> with_chash ms k \<noteq> []"
  by (auto simp: chash_order with_chash_def filter_empty_conv)

lemma filter_mset_insert_key:
  "k \<notin> K \<Longrightarrow> filter_mset (\<lambda>m. f m = k \<or> f m \<in> K) M =
     filter_mset (\<lambda>m. f m = k) M + filter_mset (\<lambda>m. f m \<in> K) M"
  by (induction M) auto

lemma mset_with_chash:
  "distinct ks \<Longrightarrow> mset (concat (map (with_chash ms) ks)) =
     filter_mset (\<lambda>m. bundle_chash m \<in> set ks) (mset ms)"
  by (induction ks) (auto simp: with_chash_def [of ms] filter_mset_insert_key)

lemma ContractEqClass_init_with_chash:
  assumes "with_chash ms k \<noteq> []"
  shows "ContractEqClass_init (with_chash ms k) = Inr (contract_class ms k)"
proof (cases "with_chash ms k")
  case (Cons m g)
  have "\<forall>x \<in> set (m # g). bundle_chash x = k"
    unfolding Cons [symmetric] with_chash_def by simp
  then show ?thesis
    by (simp add: ContractEqClass_init_def Cons contract_class_def ctrace_eq_def list_all_iff py_assert_def)
qed (use assms in simp)

lemma build_contract_classes_eq:
  "build_contract_classes ms = Inr (map (contract_class ms) (chash_order ms))"
proof -
  let ?G = "foldl group_step [] ms"
  have g: "snd kg = with_chash ms (fst kg)" if "kg \<in> set ?G" for kg
    using that groups_of_foldl [of ms] by (auto simp: groups_of_def with_chash_def)
  have "ContractEqClass_init g = Inr (contract_class ms (bundle_chash (hd g)))" if "g \<in> set (dict_values ?G)" for g
  proof -
    from that obtain k where kg: "(k, g) \<in> set ?G" by auto
    then have "k \<in> set (chash_order ms)" by (force simp: chash_order_def)
    then have ne: "with_chash ms k \<noteq> []" by (rule with_chash_nonempty)
    moreover have "g = with_chash ms k" using g [OF kg] by simp
    moreover from ne have "bundle_chash (hd (with_chash ms k)) = k"
      using list.set_sel(1) [OF ne] by (simp add: with_chash_def)
    ultimately show ?thesis using ContractEqClass_init_with_chash by simp
  qed
  then have "build_contract_classes ms =
      Inr (map (\<lambda>g. contract_class ms (bundle_chash (hd g))) (dict_values ?G))"
    unfolding build_contract_classes_def by (rule rmapM_cong_Inr)
  also have "map (\<lambda>g. contract_class ms (bundle_chash (hd g))) (dict_values ?G) =
      map (contract_class ms) (chash_order ms)"
  proof -
    have "bundle_chash (hd (snd kg)) = fst kg" if "kg \<in> set ?G" for kg
    proof -
      have "fst kg \<in> set (chash_order ms)" using that by (auto simp: chash_order_def)
      from list.set_sel(1) [OF with_chash_nonempty [OF this]] show ?thesis
        unfolding g [OF that] by (simp add: with_chash_def)
    qed
    then show ?thesis by (simp add: chash_order_def)
  qed
  finally show ?thesis .
qed

section \<open>Hardware classes\<close>

text \<open>
  The abstract classification: a measurement joins the first class whose representative it is
  equivalent to, or opens a new class.
\<close>

fun add_to_classes :: "('h \<Rightarrow> 'h \<Rightarrow> bool) \<Rightarrow> ('h \<times> 'm list) list \<Rightarrow> 'h \<Rightarrow> 'm \<Rightarrow> ('h \<times> 'm list) list" where
  "add_to_classes E [] h m = [(h, [m])]"
| "add_to_classes E ((r, g) # cs) h m =
     (if E h r then (r, g @ [m]) # cs else (r, g) # add_to_classes E cs h m)"

definition classify :: "(HTrace \<Rightarrow> HTrace \<Rightarrow> bool) \<Rightarrow> 'inp TraceBundle list \<Rightarrow> (HTrace \<times> 'inp TraceBundle list) list" where
  "classify E ms = foldl (\<lambda>cs m. add_to_classes E cs (bundle_htrace m) m) [] ms"

definition hw_class :: "HTrace \<times> 'inp TraceBundle list \<Rightarrow> 'inp HardwareEqClass" where
  "hw_class rg = \<lparr>hw_htrace = fst rg, hw_measurements = snd rg\<rparr>"

lemma mset_add_to_classes:
  "mset (concat (map snd (add_to_classes E cs h m))) = add_mset m (mset (concat (map snd cs)))"
  by (induction E cs h m rule: add_to_classes.induct) auto

lemma classify_Nil [simp]: "classify E [] = []"
  by (simp add: classify_def)

lemma classify_snoc: "classify E (ms @ [m]) = add_to_classes E (classify E ms) (bundle_htrace m) m"
  by (simp add: classify_def)

lemma mset_classify: "mset (concat (map snd (classify E ms))) = mset ms"
  by (induction ms rule: rev_induct) (simp_all add: classify_snoc mset_add_to_classes)

lemma add_to_classes_reps:
  "map fst (add_to_classes E cs h m) =
     (if \<exists>r \<in> set (map fst cs). E h r then map fst cs else map fst cs @ [h])"
  by (induction E cs h m rule: add_to_classes.induct) auto

text \<open>Every class starts with the measurement of its representative, the others are equivalent to it.\<close>

definition class_ok :: "(HTrace \<Rightarrow> HTrace \<Rightarrow> bool) \<Rightarrow> HTrace \<times> 'inp TraceBundle list \<Rightarrow> bool" where
  "class_ok E rg \<longleftrightarrow> snd rg \<noteq> [] \<and> bundle_htrace (hd (snd rg)) = fst rg \<and>
     (\<forall>m \<in> set (tl (snd rg)). E (bundle_htrace m) (fst rg))"

lemma class_ok_add:
  "\<forall>rg \<in> set cs. class_ok E rg \<Longrightarrow>
   \<forall>rg \<in> set (add_to_classes E cs (bundle_htrace m) m). class_ok E rg"
proof (induction E cs "bundle_htrace m" m rule: add_to_classes.induct)
  case (2 E r g cs m)
  then show ?case by (cases g) (auto simp: class_ok_def)
qed (simp add: class_ok_def)

lemma classify_ok: "\<forall>rg \<in> set (classify E ms). class_ok E rg"
proof (induction ms rule: rev_induct)
  case (snoc m ms)
  then show ?case unfolding classify_snoc by (rule class_ok_add)
qed simp

lemma classify_first:
  "\<exists>g cs. classify E (m # ms) = (bundle_htrace m, g) # cs \<and>
     (cs = [] \<longleftrightarrow> (\<forall>x \<in> set ms. E (bundle_htrace x) (bundle_htrace m)))"
proof (induction ms rule: rev_induct)
  case Nil
  show ?case by (simp add: classify_def)
next
  case (snoc x ms)
  then obtain g cs where "classify E (m # ms) = (bundle_htrace m, g) # cs"
    "cs = [] \<longleftrightarrow> (\<forall>x \<in> set ms. E (bundle_htrace x) (bundle_htrace m))" by blast
  moreover have "classify E (m # ms @ [x]) =
      add_to_classes E (classify E (m # ms)) (bundle_htrace x) x"
    using classify_snoc [of E "m # ms" x] by simp
  moreover have "add_to_classes E cs (bundle_htrace x) x \<noteq> []"
    by (cases "(E, cs, bundle_htrace x, x)" rule: add_to_classes.cases) auto
  ultimately show ?case by auto
qed

lemma classify_two:
  "2 \<le> length (classify E ms) \<longleftrightarrow>
     (\<exists>m rest. ms = m # rest \<and> (\<exists>x \<in> set rest. \<not> E (bundle_htrace x) (bundle_htrace m)))"
proof (cases ms)
  case (Cons m rest)
  obtain g cs where cs: "classify E (m # rest) = (bundle_htrace m, g) # cs"
    and emp: "cs = [] \<longleftrightarrow> (\<forall>x \<in> set rest. E (bundle_htrace x) (bundle_htrace m))"
    using classify_first [of E m rest] by (elim exE conjE)
  have "2 \<le> length (classify E (m # rest)) \<longleftrightarrow> cs \<noteq> []"
    unfolding cs by (cases cs) simp_all
  then show ?thesis unfolding Cons emp by blast
qed simp

text \<open>
  What the classification needs of an equivalence test: on the traces it is used for (\<open>P\<close>) it does not
  raise and computes the relation \<open>E\<close>, whatever state (\<open>I\<close>) it was left in, and traces with the same
  hash are equivalent.
\<close>

locale htrace_equivalence =
  fixes eq :: "'c hw_equivalence"
    and I :: "'c \<Rightarrow> bool"
    and P :: "HTrace \<Rightarrow> bool"
    and E :: "HTrace \<Rightarrow> HTrace \<Rightarrow> bool"
  assumes eq_computes: "I c \<Longrightarrow> P a \<Longrightarrow> P b \<Longrightarrow> \<exists>c'. eq c a b = Inr (E a b, c') \<and> I c'"
    and same_hash: "P a \<Longrightarrow> P b \<Longrightarrow> ht_hash a = ht_hash b \<Longrightarrow> E a b"
begin

lemma find_equivalent_find:
  assumes "I c" and "P h" and "\<forall>r \<in> set rs. P r"
  shows "\<exists>c'. find_equivalent eq c h rs = Inr (find (E h) rs, c') \<and> I c'"
  using assms
proof (induction rs arbitrary: c)
  case (Cons r rs)
  obtain c' where "eq c h r = Inr (E h r, c')" "I c'"
    using eq_computes [of c h r] Cons.prems by auto
  then show ?case using Cons.IH [of c'] Cons.prems by auto
qed simp

text \<open>The dictionary of groups mirrors the abstract classes.\<close>

definition mirrors :: "(nat, 'inp TraceBundle list) dict \<times> HTrace list \<times> 'c \<Rightarrow>
    (HTrace \<times> 'inp TraceBundle list) list \<Rightarrow> bool" where
  "mirrors st cs \<longleftrightarrow> fst st = map (\<lambda>(r, g). (ht_hash r, g)) cs \<and> fst (snd st) = map fst cs \<and> I (snd (snd st)) \<and>
     distinct (map (ht_hash \<circ> fst) cs) \<and> (\<forall>r \<in> set (map fst cs). P r)"

lemma dict_set_add:
  assumes "distinct (map (ht_hash \<circ> fst) cs)" and "find (E h) (map fst cs) = Some r"
  shows "\<exists>g. map_of (map (\<lambda>(r, g). (ht_hash r, g)) cs) (ht_hash r) = Some g \<and>
     dict_set (map (\<lambda>(r, g). (ht_hash r, g)) cs) (ht_hash r) (g @ [m]) =
       map (\<lambda>(r, g). (ht_hash r, g)) (add_to_classes E cs h m)"
  using assms
proof (induction E cs h m rule: add_to_classes.induct)
  case (2 E r' g cs h m)
  show ?case
  proof (cases "E h r'")
    case False
    then have f: "find (E h) (map fst cs) = Some r" using 2 by simp
    then have "r \<in> set (map fst cs)" by (auto simp: find_Some_iff)
    then have "ht_hash r' \<noteq> ht_hash r" using "2.prems"(1) by auto
    then show ?thesis using 2 f False by auto
  qed (use 2 in auto)
qed simp

lemma hw_step_mirrors:
  assumes "mirrors st cs" and "P (bundle_htrace m)"
  shows "\<exists>st'. hw_step eq st m = Inr st' \<and> mirrors st' (add_to_classes E cs (bundle_htrace m) m)"
proof -
  let ?h = "bundle_htrace m" and ?f = "\<lambda>(r :: HTrace, g :: 'd TraceBundle list). (ht_hash r, g)"
  obtain groups divg c where st: "st = (groups, divg, c)" by (cases st)
  have mir: "groups = map ?f cs" "divg = map fst cs" "I c" "distinct (map (ht_hash \<circ> fst) cs)"
    "\<forall>r \<in> set (map fst cs). P r"
    using assms(1) by (auto simp: mirrors_def st)
  obtain c' where find: "find_equivalent eq c ?h divg = Inr (find (E ?h) divg, c')" "I c'"
    using find_equivalent_find [of c ?h divg] mir assms(2) by auto
  show ?thesis
  proof (cases "find (E ?h) divg")
    case None
    then have none: "\<not> (\<exists>r \<in> set (map fst cs). E ?h r)"
      by (auto simp: find_None_iff mir(2))
    then have fresh: "ht_hash ?h \<notin> set (map (ht_hash \<circ> fst) cs)"
      using same_hash [OF assms(2)] mir(5) by fastforce
    have add: "add_to_classes E cs ?h m = cs @ [(?h, [m])]"
      using none by (induction cs) auto
    have "dict_set groups (ht_hash ?h) [m] = map ?f (cs @ [(?h, [m])])"
      using fresh by (subst dict_set_new) (force simp: mir(1))+
    moreover have "hw_step eq st m =
        Inr (dict_set groups (ht_hash ?h) [m], divg @ [?h], if divg = [] then c else c')"
      using None find by (simp add: hw_step_def st Let_def)
    moreover have "mirrors (map ?f (cs @ [(?h, [m])]), divg @ [?h], if divg = [] then c else c')
        (cs @ [(?h, [m])])"
      using mir find(2) assms(2) fresh by (simp add: mirrors_def)
    ultimately show ?thesis unfolding add by metis
  next
    case (Some r)
    obtain g where g: "map_of groups (ht_hash r) = Some g"
      "dict_set groups (ht_hash r) (g @ [m]) = map ?f (add_to_classes E cs ?h m)"
      using dict_set_add [OF mir(4), of ?h r m] Some mir(1,2) by auto
    have "\<exists>r \<in> set (map fst cs). E ?h r"
      using Some by (auto simp: find_Some_iff mir(2) intro: nth_mem)
    then have reps: "map fst (add_to_classes E cs ?h m) = map fst cs"
      by (simp only: add_to_classes_reps if_True)
    then have "map (ht_hash \<circ> fst) (add_to_classes E cs ?h m) = map (ht_hash \<circ> fst) cs"
      by (metis map_map)
    moreover have "divg \<noteq> []" using Some by auto
    ultimately have "mirrors (map ?f (add_to_classes E cs ?h m), divg, c') (add_to_classes E cs ?h m)"
      using mir find(2) reps by (simp add: mirrors_def del: set_map)
    moreover have "hw_step eq st m = Inr (map ?f (add_to_classes E cs ?h m), divg, c')"
      using Some find g \<open>divg \<noteq> []\<close> by (simp add: hw_step_def st Let_def dict_get_def)
    ultimately show ?thesis by blast
  qed
qed

lemma rfold_mirrors:
  assumes "mirrors st cs" and "\<forall>m \<in> set ms. P (bundle_htrace m)"
  shows "\<exists>st'. rfold (hw_step eq) st ms = Inr st' \<and>
     mirrors st' (foldl (\<lambda>cs m. add_to_classes E cs (bundle_htrace m) m) cs ms)"
  using assms
proof (induction ms arbitrary: st cs)
  case (Cons m ms)
  obtain st' where "hw_step eq st m = Inr st'" "mirrors st' (add_to_classes E cs (bundle_htrace m) m)"
    using hw_step_mirrors [OF Cons.prems(1), of m] Cons.prems(2) by (meson list.set_intros(1))
  then show ?case using Cons.IH [of st'] Cons.prems(2) by simp
qed simp

lemma build_hw_classes_classify:
  assumes "I c" and "\<forall>m \<in> set ms. P (bundle_htrace m)"
  shows "\<exists>c'. build_hw_classes eq c ms = Inr (map hw_class (classify E ms), c') \<and> I c'"
proof -
  have "mirrors ([], [], c) []" using assms(1) by (simp add: mirrors_def)
  from rfold_mirrors [OF this assms(2), folded classify_def] obtain st where
    st: "rfold (hw_step eq) ([], [], c) ms = Inr st" "mirrors st (classify E ms)" by blast
  obtain groups divg c' where "st = (groups, divg, c')" by (cases st)
  with st have fold: "rfold (hw_step eq) ([], [], c) ms = Inr (groups, divg, c')"
    and mir: "mirrors (groups, divg, c') (classify E ms)" by simp_all
  have groups: "dict_values groups = map snd (classify E ms)"
    using mir by (auto simp: mirrors_def)
  have "HardwareEqClass_init g = Inr \<lparr>hw_htrace = bundle_htrace (hd g), hw_measurements = g\<rparr>"
    if "g \<in> set (map snd (classify E ms))" for g
  proof -
    have "g \<noteq> []" using that classify_ok [of E ms] by (auto simp: class_ok_def)
    then show ?thesis by (cases g) (simp_all add: HardwareEqClass_init_def)
  qed
  then have "rmapM HardwareEqClass_init (map snd (classify E ms)) =
      Inr (map (\<lambda>g. \<lparr>hw_htrace = bundle_htrace (hd g), hw_measurements = g\<rparr>) (map snd (classify E ms)))"
    by (rule rmapM_cong_Inr)
  also have "map (\<lambda>g. \<lparr>hw_htrace = bundle_htrace (hd g), hw_measurements = g\<rparr>) (map snd (classify E ms)) =
      map hw_class (classify E ms)"
    using classify_ok [of E ms] by (auto simp: hw_class_def class_ok_def)
  finally have "build_hw_classes eq c ms = Inr (map hw_class (classify E ms), c')"
    unfolding build_hw_classes_def fold by (simp add: groups)
  moreover have "I c'" using mir by (simp add: mirrors_def)
  ultimately show ?thesis by blast
qed

lemma classify_distinct_hash:
  assumes "I c" and "\<forall>m \<in> set ms. P (bundle_htrace m)"
  shows "distinct (map (ht_hash \<circ> fst) (classify E ms))"
proof -
  have "mirrors ([], [], c) []" using assms(1) by (simp add: mirrors_def)
  from rfold_mirrors [OF this assms(2), folded classify_def] show ?thesis
    by (auto simp: mirrors_def)
qed

end

interpretation default_eq: htrace_equivalence default_eq_function "\<lambda>_. True" "\<lambda>_. True" htrace_eq
  by unfold_locales (auto simp: default_eq_function_def htrace_eq_def)

section \<open>Properties\<close>

text \<open>
  C19: Grouping measurements by contract trace never raises and is a partition: the classes together
  hold exactly the given measurements, no class is empty, the members of a class have equal contract
  traces and different classes have different ones.
\<close>

theorem contract_classes_partition:
  "\<exists>cs. build_contract_classes ms = Inr cs \<and>
     mset (concat (map eq_measurements cs)) = mset ms \<and>
     distinct (map (ct_hash \<circ> eq_ctrace) cs) \<and>
     list_all (\<lambda>e. eq_measurements e \<noteq> [] \<and>
       list_all (\<lambda>m. ctrace_eq (bundle_ctrace m) (eq_ctrace e)) (eq_measurements e)) cs"
proof -
  let ?cs = "map (contract_class ms) (chash_order ms)"
  have ne: "with_chash ms k \<noteq> []" if "k \<in> set (chash_order ms)" for k
    using that by (rule with_chash_nonempty)
  have key: "ct_hash (eq_ctrace (contract_class ms k)) = k" if "k \<in> set (chash_order ms)" for k
    using list.set_sel(1) [OF ne [OF that]] by (simp add: contract_class_def with_chash_def)
  have "map (ct_hash \<circ> eq_ctrace) ?cs = map (\<lambda>k. k) (chash_order ms)"
    unfolding map_map by (rule map_cong) (simp_all add: key)
  then have "distinct (map (ct_hash \<circ> eq_ctrace) ?cs)" by (simp add: chash_order(1))
  moreover have "mset (concat (map eq_measurements ?cs)) = mset ms"
    using mset_with_chash [OF chash_order(1) [of ms], of ms] by (simp add: contract_class_def o_def chash_order(2) filter_mset_eq_conv)
  moreover have "list_all (\<lambda>e. eq_measurements e \<noteq> [] \<and>
       list_all (\<lambda>m. ctrace_eq (bundle_ctrace m) (eq_ctrace e)) (eq_measurements e)) ?cs"
    using ne key by (auto simp: list_all_iff ctrace_eq_def contract_class_def with_chash_def)
  ultimately show ?thesis using build_contract_classes_eq by blast
qed

text \<open>
  Splitting a contract class by equality of hardware traces never raises, keeps the class, and
  is a partition into non-empty classes: members of a class have equal hardware traces, different
  classes have different ones. A second call on the result raises.
\<close>

theorem trivial_hw_classes_partition:
  assumes "eq_hw_classes e = None"
  shows "\<exists>cs. set_trivial_hw_classes e = Inr (e\<lparr>eq_hw_classes := Some cs\<rparr>) \<and>
     mset (concat (map hw_measurements cs)) = mset (eq_measurements e) \<and>
     distinct (map (ht_hash \<circ> hw_htrace) cs) \<and>
     list_all (\<lambda>c. hw_measurements c \<noteq> [] \<and>
       list_all (\<lambda>m. htrace_eq (bundle_htrace m) (hw_htrace c)) (hw_measurements c)) cs \<and>
     set_trivial_hw_classes (e\<lparr>eq_hw_classes := Some cs\<rparr>) = Inl AssertionError"
proof -
  let ?ms = "eq_measurements e" and ?cs = "map hw_class (classify htrace_eq (eq_measurements e))"
  have "set_trivial_hw_classes e = Inr (e\<lparr>eq_hw_classes := Some ?cs\<rparr>)"
    using assms default_eq.build_hw_classes_classify [where c = "()" and ms = ?ms]
    by (auto simp: set_trivial_hw_classes_def)
  moreover have "mset (concat (map hw_measurements ?cs)) = mset ?ms"
    using mset_classify [of htrace_eq ?ms] by (simp add: hw_class_def o_def)
  moreover have "distinct (map (ht_hash \<circ> hw_htrace) ?cs)"
    using default_eq.classify_distinct_hash [where ms = ?ms] by (simp add: hw_class_def o_def)
  moreover have "hw_measurements c \<noteq> [] \<and> (\<forall>m \<in> set (hw_measurements c). htrace_eq (bundle_htrace m) (hw_htrace c))"
    if "c \<in> set ?cs" for c
  proof -
    from that obtain rg where rg: "rg \<in> set (classify htrace_eq ?ms)" "c = hw_class rg" by auto
    then have "class_ok htrace_eq rg" using classify_ok by blast
    then show ?thesis
      using rg(2) by (cases "snd rg") (auto simp: class_ok_def hw_class_def htrace_eq_def)
  qed
  ultimately show ?thesis
    by (intro exI [of _ ?cs]) (auto simp: list_all_iff set_trivial_hw_classes_def py_assert_def)
qed

definition plain_hashing :: hashing where
  "plain_hashing = \<lparr>xxh64 = length, np_str = (\<lambda>xs. str_int_list (map uint xs))\<rparr>"

definition demo_bundle :: "u64 \<Rightarrow> nat TraceBundle" where
  "demo_bundle w = \<lparr>input_id = 0, bundle_input = 0, bundle_ctrace = CTrace_empty plain_hashing,
     bundle_htrace = HTrace_init plain_hashing [zero_sample\<lparr>smp_trace := w\<rparr>] HT_cache\<rparr>"

definition demo_class :: "nat ContractEqClass" where
  "demo_class = \<lparr>eq_ctrace = CTrace_empty plain_hashing,
     eq_measurements = [demo_bundle 1, demo_bundle 16, demo_bundle 1], eq_hw_classes = None\<rparr>"

theorem trivial_hw_classes_partition_witness:
  "\<exists>cs. set_trivial_hw_classes demo_class = Inr (demo_class\<lparr>eq_hw_classes := Some cs\<rparr>) \<and>
     mset (concat (map hw_measurements cs)) = {#demo_bundle 1, demo_bundle 16, demo_bundle 1#}"
  using trivial_hw_classes_partition [of demo_class] by (auto simp: demo_class_def add_mset_commute)

text \<open>
  Two contract traces are equal exactly when they observe the same values in the same order,
  provided the digest does not collide on them; the kinds of the observations are not compared.
\<close>

theorem ctrace_eq_iff_same_values:
  assumes "inj_on (xxh64 H) D"
    and "str_int_list (map entry_value a) \<in> D" and "str_int_list (map entry_value b) \<in> D"
  shows "ctrace_eq (CTrace_init H a) (CTrace_init H b) \<longleftrightarrow> map entry_value a = map entry_value b"
proof -
  have "ctrace_eq (CTrace_init H a) (CTrace_init H b) \<longleftrightarrow>
      str_int_list (map entry_value a) = str_int_list (map entry_value b)"
    using inj_on_eq_iff [OF assms] by (auto simp: ctrace_eq_def CTrace_init_def Let_def)
  also have "\<dots> \<longleftrightarrow> map entry_value a = map entry_value b"
    by simp
  finally show ?thesis .
qed

theorem ctrace_eq_iff_same_values_witness:
  "ctrace_eq (CTrace_init plain_hashing [\<lparr>entry_type = CT_mem, entry_value = 5\<rparr>])
     (CTrace_init plain_hashing [\<lparr>entry_type = CT_pc, entry_value = 12\<rparr>]) \<longleftrightarrow> (5 :: int) = 12"
proof -
  let ?D = "{str_int_list [5], str_int_list [12]}"
  have "length (str_int_list [5]) = 3" "length (str_int_list [12]) = 4"
    by (simp_all add: str_int_list_def str_int_def str_nat.simps)
  then have inj: "inj_on (xxh64 plain_hashing) ?D"
    by (auto simp: plain_hashing_def inj_on_def)
  let ?a = "[\<lparr>entry_type = CT_mem, entry_value = 5\<rparr>]" and ?b = "[\<lparr>entry_type = CT_pc, entry_value = 12\<rparr>]"
  have "str_int_list (map entry_value ?a) \<in> ?D" "str_int_list (map entry_value ?b) \<in> ?D"
    by simp_all
  from ctrace_eq_iff_same_values [where D = ?D and H = plain_hashing, OF inj this] show ?thesis
    by simp
qed

lemma top_bit: "bit (0x8000000000000000 :: u64) n \<longleftrightarrow> n = 63"
proof -
  have "(0x8000000000000000 :: u64) = 2 ^ 63" by simp
  moreover have "bit (2 ^ 63 :: u64) n \<longleftrightarrow> n = 63"
    unfolding bit_exp_iff possible_bit_word by auto
  ultimately show ?thesis by (simp only:)
qed

text \<open>
  Printed as an L1D map, a contract trace is a line of 64 characters whose \<open>i\<close>-th character is a
  caret exactly when some address of the trace falls into cache set \<open>i\<close> (bits 6 to 11 of the address).
\<close>

theorem l1d_map_shows_cache_sets:
  "ctrace_str (set_printed_as_l1d (CTrace_init H trace) True) =
     map (\<lambda>i. if \<exists>e \<in> set trace. entry_value e div 64 mod 64 = int i then CHR ''^'' else CHR ''.'') [0..<64]"
proof -
  have one: "bit (l1d_bit a) (63 - i) \<longleftrightarrow> a div 64 mod 64 = int i" if "i < 64" for a i
  proof -
    let ?s = "take_bit 6 (drop_bit 6 a)"
    have s: "?s = a div 64 mod 64" by (simp add: take_bit_eq_mod drop_bit_eq_div)
    then have b: "0 \<le> ?s" "?s < 64" by simp_all
    have "bit (l1d_bit a) (63 - i) \<longleftrightarrow> nat ?s + (63 - i) = 63"
      unfolding l1d_bit_def bit_drop_bit_eq o_def top_bit ..
    also have "\<dots> \<longleftrightarrow> nat ?s = i" using b that by linarith
    also have "\<dots> \<longleftrightarrow> ?s = int i" using b(1) by auto
    also have "\<dots> \<longleftrightarrow> a div 64 mod 64 = int i" by (simp only: s)
    finally show ?thesis .
  qed
  have all: "bit (foldl (\<lambda>m a. m OR l1d_bit a) w as) (63 - i) \<longleftrightarrow>
      bit w (63 - i) \<or> (\<exists>a \<in> set as. a div 64 mod 64 = int i)" if "i < 64" for w as i
    by (induction as arbitrary: w) (auto simp: bit_or_iff one [OF that])
  show ?thesis
    by (auto simp: ctrace_str_def set_printed_as_l1d_def CTrace_init_def Let_def bitmap_str_def l1d_map_def all)
qed

lemma max_pfc_fold:
  assumes "foldl (\<lambda>m x. if fst m < pfc0 x then pfc_tuple x else m) m xs = r"
  shows "(r = m \<or> r \<in> pfc_tuple ` set xs) \<and> fst m \<le> fst r \<and> (\<forall>x \<in> set xs. pfc0 x \<le> fst r)"
  using assms
proof (induction xs arbitrary: m)
  case (Cons x xs)
  let ?m = "if fst m < pfc0 x then pfc_tuple x else m"
  from Cons.IH [of ?m] Cons.prems have "(r = ?m \<or> r \<in> pfc_tuple ` set xs) \<and> fst ?m \<le> fst r \<and>
      (\<forall>x \<in> set xs. pfc0 x \<le> fst r)" by simp
  moreover have "fst m \<le> fst ?m" "pfc0 x \<le> fst ?m" by (auto simp: pfc_tuple_def)
  ultimately show ?case by (auto split: if_splits)
qed simp

text \<open>
  The performance-counter summary of a fresh hardware trace is the complete reading of one sample,
  one with the largest first counter (or all zeros when every first counter is zero), not the maximum of
  each counter. Asking again gives the same answer and changes nothing.
\<close>

theorem max_pfc_is_a_reading:
  assumes "get_max_pfc (HTrace_init H samples ty) = (m, h)"
  shows "(m = (0, 0, 0, 0, 0) \<or> m \<in> pfc_tuple ` set samples) \<and> (\<forall>x \<in> set samples. pfc0 x \<le> fst m) \<and>
     get_max_pfc h = (m, h)"
  using assms max_pfc_fold [of "(0, 0, 0, 0, 0)" samples m]
  by (auto simp: get_max_pfc_def HTrace_init_def Let_def)

theorem max_pfc_is_a_reading_witness:
  "\<exists>h. get_max_pfc (HTrace_init plain_hashing
       [zero_sample\<lparr>pfc0 := 3, pfc1 := 1\<rparr>, zero_sample\<lparr>pfc0 := 2, pfc1 := 9\<rparr>] HT_cache) = ((3, 1, 0, 0, 0), h) \<and>
     get_max_pfc h = ((3, 1, 0, 0, 0), h)"
proof -
  obtain h where h: "get_max_pfc (HTrace_init plain_hashing
       [zero_sample\<lparr>pfc0 := 3, pfc1 := 1\<rparr>, zero_sample\<lparr>pfc0 := 2, pfc1 := 9\<rparr>] HT_cache) = ((3, 1, 0, 0, 0), h)"
    by (auto simp: get_max_pfc_def HTrace_init_def pfc_tuple_def zero_sample_def Let_def)
  then show ?thesis using max_pfc_is_a_reading [OF h] by blast
qed

end
