(* ===== verification/Stats.thy ===== *)
theory Stats
  imports PyString
begin

text \<open>
  Model of \<^verbatim>\<open>rvzr/stats.py\<close>: the counters that all components share (every instance of the class has
  the same dictionary, so the statistics are one value passed through the program) and the one-line
  summary. The multi-line report prints floating-point averages and is not modelled.
\<close>

record FuzzingStats =
  test_cases :: nat
  num_inputs :: nat
  eff_classes :: nat
  single_entry_classes :: nat
  stat_violations :: nat
  analysed_test_cases :: nat
  executor_reruns :: nat
  spec_filter :: nat
  observ_filter :: nat
  fast_path :: nat
  fp_nesting :: nat
  fp_taint_mistakes :: nat
  fp_early_priming :: nat
  fp_large_sample :: nat
  fp_priming :: nat

definition FuzzingStats_init :: FuzzingStats where
  "FuzzingStats_init =
     \<lparr>test_cases = 0, num_inputs = 0, eff_classes = 0, single_entry_classes = 0, stat_violations = 0,
      analysed_test_cases = 0, executor_reruns = 0, spec_filter = 0, observ_filter = 0, fast_path = 0,
      fp_nesting = 0, fp_taint_mistakes = 0, fp_early_priming = 0, fp_large_sample = 0, fp_priming = 0\<rparr>"

text \<open>Python's floor division raises on a zero divisor.\<close>

definition py_div :: "nat \<Rightarrow> nat \<Rightarrow> nat res" where
  "py_div a b = (if b = 0 then raise ZeroDivisionError else ok (a div b))"

definition get_brief :: "FuzzingStats \<Rightarrow> string res" where
  "get_brief s =
     (if test_cases s = 0 then ok []
      else
        let all_cls = (if analysed_test_cases s \<noteq> 0
               then (eff_classes s + single_entry_classes s) div analysed_test_cases s else 0);
            eff_cls = (if analysed_test_cases s \<noteq> 0 then eff_classes s div analysed_test_cases s else 0)
        in rbind (py_div (executor_reruns s) (num_inputs s)) (\<lambda>reruns.
             ok (''Cls:'' @ str_nat eff_cls @ ''/'' @ str_nat all_cls @ '',In:''
               @ str_nat (num_inputs s div test_cases s) @ '',R:'' @ str_nat reruns
               @ '',SF:'' @ str_nat (spec_filter s) @ '',OF:'' @ str_nat (observ_filter s)
               @ '',Fst:'' @ str_nat (fast_path s) @ '',CN:'' @ str_nat (fp_nesting s)
               @ '',CT:'' @ str_nat (fp_taint_mistakes s) @ '',P1:'' @ str_nat (fp_early_priming s)
               @ '',CS:'' @ str_nat (fp_large_sample s) @ '',P2:'' @ str_nat (fp_priming s)
               @ '',V:'' @ str_nat (stat_violations s))))"

lemma get_brief_ok_iff: "(\<exists>s. get_brief st = Inr s) \<longleftrightarrow> test_cases st = 0 \<or> num_inputs st \<noteq> 0"
  by (auto simp: get_brief_def py_div_def Let_def)

end
