(* ===== verification/Analyser.thy ===== *)
theory Analyser
  imports Traces Stats
begin

unbundle bit_operations_syntax

text \<open>
  Model of \<^verbatim>\<open>rvzr/analyser.py\<close>: the search for contract violations that all analysers share and the four
  ways to compare hardware traces. The statistical tests of scipy and the iteration order of a Python
  set are parameters. Floating-point thresholds are modelled as rationals.
\<close>

section \<open>The common algorithm\<close>

definition usable :: "HTrace \<Rightarrow> bool" where
  "usable h \<longleftrightarrow> \<not> (htrace_is_empty h \<or> is_corrupted_or_ignored h)"

text \<open>Packaging one hardware trace with its input and its contract trace.\<close>

definition measurement_of ::
  "CTrace list \<Rightarrow> 'inp list \<Rightarrow> nat \<times> HTrace \<Rightarrow> 'inp TraceBundle option res" where
  "measurement_of ctraces inputs ih =
     (case ih of (i, h) \<Rightarrow>
        if htrace_is_empty h \<or> is_corrupted_or_ignored h then ok None
        else rbind (py_nth inputs (int i)) (\<lambda>x. rbind (py_nth ctraces (int i)) (\<lambda>c.
          ok (Some \<lparr>input_id = i, bundle_input = x, bundle_ctrace = c, bundle_htrace = h\<rparr>))))"

definition collect_measurements ::
  "CTrace list \<Rightarrow> HTrace list \<Rightarrow> 'inp list \<Rightarrow> 'inp TraceBundle list res" where
  "collect_measurements ctraces htraces inputs =
     rbind (rmapM (measurement_of ctraces inputs) (enumerate 0 htraces))
       (\<lambda>ms. ok (List.map_filter id ms))"

text \<open>The loop that computes the hardware classes of every effective class.\<close>

fun set_all_hw_classes ::
  "'c hw_equivalence \<Rightarrow> 'c \<Rightarrow> 'inp ContractEqClass list \<Rightarrow> ('inp ContractEqClass list \<times> 'c) res" where
  "set_all_hw_classes eq c [] = ok ([], c)"
| "set_all_hw_classes eq c (e # es) =
     rbind (build_hw_classes eq c (eq_measurements e)) (\<lambda>(hw, c').
     rbind (set_hw_classes e hw) (\<lambda>e'.
     rbind (set_all_hw_classes eq c' es) (\<lambda>(es', c''). ok (e' # es', c''))))"

fun collect_violations ::
  "'inp ContractEqClass list \<Rightarrow> 'inp list \<Rightarrow> 'tc \<Rightarrow> ('inp, 'tc) Violation list res" where
  "collect_violations [] inputs tc = ok []"
| "collect_violations (e # es) inputs tc =
     rbind (get_hw_classes e) (\<lambda>hw.
       if 2 \<le> length hw
       then rbind (from_contract_eq_class e inputs tc) (\<lambda>v.
            rbind (collect_violations es inputs tc) (\<lambda>vs. ok (v # vs)))
       else collect_violations es inputs tc)"

definition update_class_stats :: "bool \<Rightarrow> nat \<Rightarrow> nat \<Rightarrow> FuzzingStats \<Rightarrow> FuzzingStats" where
  "update_class_stats upd_stats n_all n_eff st =
     (if upd_stats
      then st\<lparr>eff_classes := eff_classes st + n_eff,
              single_entry_classes := single_entry_classes st + (n_all - n_eff),
              analysed_test_cases := analysed_test_cases st + 1\<rparr>
      else st)"

definition filter_violations ::
  "'c hw_equivalence \<Rightarrow> 'c \<Rightarrow> FuzzingStats \<Rightarrow> CTrace list \<Rightarrow> HTrace list \<Rightarrow> 'tc \<Rightarrow> 'inp list \<Rightarrow> bool \<Rightarrow>
   (('inp, 'tc) Violation list \<times> 'c \<times> FuzzingStats) res" where
  "filter_violations eq c st ctraces htraces tc inputs upd_stats =
     (if htraces = [] then ok ([], c, st)
      else rbind (collect_measurements ctraces htraces inputs) (\<lambda>ms.
        if ms = [] then ok ([], c, st)
        else rbind (build_contract_classes ms) (\<lambda>all_classes.
          let effective = sort_key (\<lambda>e. ct_hash (eq_ctrace e))
                (filter (\<lambda>e. 2 \<le> length (eq_measurements e)) all_classes)
          in rbind (set_all_hw_classes eq c effective) (\<lambda>(effective', c').
             rbind (collect_violations effective' inputs tc) (\<lambda>violations.
             ok (violations, c', update_class_stats upd_stats (length all_classes) (length effective') st))))))"

section \<open>Ways to compare hardware traces\<close>

record analyser_conf =
  analyser_subsets_is_violation :: bool
  analyser_outliers_threshold :: rat
  analyser_stat_threshold :: rat
  executor_sample_size :: nat

record stat_tests =
  mannwhitneyu :: "u64 list \<Rightarrow> u64 list \<Rightarrow> rat"
  chisquare :: "rat list \<Rightarrow> rat list \<Rightarrow> int \<Rightarrow> rat"
  set_order :: "u64 list \<Rightarrow> u64 list"

type_synonym bitmap_cache = "(nat, u64) dict"

text \<open>\<^verbatim>\<open>MergedBitmapAnalyser\<close>: outliers are dropped, the rest is merged, the result is cached by hash.\<close>

definition merged_bitmap :: "analyser_conf \<Rightarrow> nat \<Rightarrow> u64 list \<Rightarrow> u64" where
  "merged_bitmap conf n raw =
     (let threshold = analyser_outliers_threshold conf * of_nat n;
          filtered = filter (\<lambda>x. of_nat (count_list raw x) \<ge> threshold) raw
      in foldl (\<lambda>b t. b OR t) 0 filtered)"

definition cached_bitmap :: "analyser_conf \<Rightarrow> nat \<Rightarrow> bitmap_cache \<Rightarrow> HTrace \<Rightarrow> u64 \<times> bitmap_cache" where
  "cached_bitmap conf n cache h =
     (case map_of cache (ht_hash h) of
        Some b \<Rightarrow> (b, cache)
      | None \<Rightarrow> (let b = merged_bitmap conf n (get_raw_traces h) in (b, dict_set cache (ht_hash h) b)))"

definition bitmaps_equivalent :: "analyser_conf \<Rightarrow> u64 \<Rightarrow> u64 \<Rightarrow> bool" where
  "bitmaps_equivalent conf b1 b2 \<longleftrightarrow>
     (if analyser_subsets_is_violation conf then b1 = b2
      else b1 AND NOT b2 = 0 \<or> b2 AND NOT b1 = 0)"

definition merged_bitmap_equivalent :: "analyser_conf \<Rightarrow> bitmap_cache hw_equivalence" where
  "merged_bitmap_equivalent conf cache h1 h2 =
     py_assert (sample_size h1 = sample_size h2)
       (let (b1, cache1) = cached_bitmap conf (sample_size h1) cache h1;
            (b2, cache2) = cached_bitmap conf (sample_size h1) cache1 h2
        in ok (bitmaps_equivalent conf b1 b2, cache2))"

text \<open>\<^verbatim>\<open>SetAnalyser\<close>: the threshold is compared with the trace values.\<close>

definition set_filter :: "analyser_conf \<Rightarrow> nat \<Rightarrow> u64 list \<Rightarrow> u64 set" where
  "set_filter conf n raw =
     set (filter (\<lambda>x. of_nat (unat x) \<ge> analyser_outliers_threshold conf * of_nat n) raw)"

definition sets_equivalent :: "analyser_conf \<Rightarrow> u64 set \<Rightarrow> u64 set \<Rightarrow> bool" where
  "sets_equivalent conf s1 s2 \<longleftrightarrow>
     (if analyser_subsets_is_violation conf then s1 = s2 else s1 \<subseteq> s2 \<or> s2 \<subseteq> s1)"

definition set_equivalent :: "analyser_conf \<Rightarrow> 'c hw_equivalence" where
  "set_equivalent conf c h1 h2 =
     py_assert (sample_size h1 = sample_size h2)
       (ok (sets_equivalent conf (set_filter conf (sample_size h1) (get_raw_traces h1))
             (set_filter conf (sample_size h1) (get_raw_traces h2)), c))"

text \<open>\<^verbatim>\<open>MWUAnalyser\<close> and its check that the threshold can be reached at all.\<close>

definition MWUAnalyser_init :: "stat_tests \<Rightarrow> analyser_conf \<Rightarrow> unit res" where
  "MWUAnalyser_init S conf =
     (if analyser_stat_threshold conf <
         mannwhitneyu S (replicate (executor_sample_size conf) 1) (replicate (executor_sample_size conf) 2)
      then raise ConfigException else ok ())"

definition mwu_equivalent :: "stat_tests \<Rightarrow> analyser_conf \<Rightarrow> 'c hw_equivalence" where
  "mwu_equivalent S conf c h1 h2 =
     ok (mannwhitneyu S (get_raw_traces h1) (get_raw_traces h2) > analyser_stat_threshold conf, c)"

text \<open>
  \<^verbatim>\<open>ChiSquaredAnalyser\<close>. Without samples the statistic would be divided by zero; such traces are
  dropped before they are compared.
\<close>

definition homogeneity_test :: "stat_tests \<Rightarrow> u64 list \<Rightarrow> u64 list \<Rightarrow> rat res" where
  "homogeneity_test S x y =
     py_assert (length x = length y)
       (let keys = set_order S (dict_keys (counter x) @ dict_keys (counter y));
            observed = map (\<lambda>k. of_nat (count_list x k)) keys @ map (\<lambda>k. of_nat (count_list y k)) keys;
            expected = map (\<lambda>k. (of_nat (count_list x k) + of_nat (count_list y k)) / 2) keys;
            stat = chisquare S observed (expected @ expected) (int (length keys) - 1)
        in if x = [] then raise ZeroDivisionError else ok (stat / of_nat (length x + length y)))"

definition ChiSquaredAnalyser_init :: "stat_tests \<Rightarrow> analyser_conf \<Rightarrow> unit res" where
  "ChiSquaredAnalyser_init S conf =
     rbind (homogeneity_test S (replicate (executor_sample_size conf) 1) (replicate (executor_sample_size conf) 2))
       (\<lambda>stat. if analyser_stat_threshold conf > stat then raise SystemExit else ok ())"

definition chi_squared_equivalent :: "stat_tests \<Rightarrow> analyser_conf \<Rightarrow> 'c hw_equivalence" where
  "chi_squared_equivalent S conf c h1 h2 =
     rbind (homogeneity_test S (get_raw_traces h1) (get_raw_traces h2))
       (\<lambda>stat. ok (stat < analyser_stat_threshold conf, c))"

datatype Analyser = MergedBitmapAnalyser | SetAnalyser | MWUAnalyser | ChiSquaredAnalyser

definition htraces_are_equivalent :: "Analyser \<Rightarrow> stat_tests \<Rightarrow> analyser_conf \<Rightarrow> bitmap_cache hw_equivalence" where
  "htraces_are_equivalent A S conf =
     (case A of
        MergedBitmapAnalyser \<Rightarrow> merged_bitmap_equivalent conf
      | SetAnalyser \<Rightarrow> set_equivalent conf
      | MWUAnalyser \<Rightarrow> mwu_equivalent S conf
      | ChiSquaredAnalyser \<Rightarrow> chi_squared_equivalent S conf)"

section \<open>The algorithm against its specification\<close>

definition bundles :: "CTrace list \<Rightarrow> HTrace list \<Rightarrow> 'inp list \<Rightarrow> 'inp TraceBundle list" where
  "bundles ctraces htraces inputs =
     map (\<lambda>i. \<lparr>input_id = i, bundle_input = inputs ! i, bundle_ctrace = ctraces ! i,
               bundle_htrace = htraces ! i\<rparr>)
       (filter (\<lambda>i. usable (htraces ! i)) [0..<length htraces])"

lemma map_filter_if:
  "List.map_filter id (map (\<lambda>i. if P i then Some (f i) else None) is) = map f (filter P is)"
  by (induction "is") (auto simp: List.map_filter_simps)

lemma collect_measurements_eq:
  assumes "length htraces \<le> length ctraces" and "length htraces \<le> length inputs"
  shows "collect_measurements ctraces htraces inputs = Inr (bundles ctraces htraces inputs)"
proof -
  let ?b = "\<lambda>i. \<lparr>input_id = i, bundle_input = inputs ! i, bundle_ctrace = ctraces ! i,
      bundle_htrace = htraces ! i\<rparr>"
  let ?f = "\<lambda>i. if usable (htraces ! i) then Some (?b i) else None"
  have enum: "enumerate 0 htraces = map (\<lambda>i. (i, htraces ! i)) [0..<length htraces]"
    by (rule nth_equalityI) (simp_all add: nth_enumerate_eq)
  have "rmapM (measurement_of ctraces inputs) (enumerate 0 htraces) =
      Inr (map (\<lambda>ih. ?f (fst ih)) (enumerate 0 htraces))"
    by (rule rmapM_cong_Inr) (use assms in \<open>auto simp: enum measurement_of_def usable_def\<close>)
  then show ?thesis
    by (simp add: collect_measurements_def enum o_def map_filter_if bundles_def)
qed

definition effective_classes :: "'inp TraceBundle list \<Rightarrow> 'inp ContractEqClass list" where
  "effective_classes ms = sort_key (\<lambda>e. ct_hash (eq_ctrace e))
     (filter (\<lambda>e. 2 \<le> length (eq_measurements e)) (map (contract_class ms) (chash_order ms)))"

definition with_hw :: "(HTrace \<Rightarrow> HTrace \<Rightarrow> bool) \<Rightarrow> 'inp ContractEqClass \<Rightarrow> 'inp ContractEqClass" where
  "with_hw E e = e\<lparr>eq_hw_classes := Some (map hw_class (classify E (eq_measurements e)))\<rparr>"

definition spec_violations ::
  "(HTrace \<Rightarrow> HTrace \<Rightarrow> bool) \<Rightarrow> 'inp TraceBundle list \<Rightarrow> 'inp list \<Rightarrow> 'tc \<Rightarrow> ('inp, 'tc) Violation list" where
  "spec_violations E ms inputs tc =
     map (\<lambda>e. \<lparr>viol_class = with_hw E e, input_sequence = inputs, viol_test_case_code = tc\<rparr>)
       (filter (\<lambda>e. 2 \<le> length (classify E (eq_measurements e))) (effective_classes ms))"

lemma effective_classes_member:
  "e \<in> set (effective_classes ms) \<longleftrightarrow>
     (\<exists>k \<in> bundle_chash ` set ms. e = contract_class ms k \<and> 2 \<le> length (with_chash ms k))"
  by (auto simp: effective_classes_def chash_order contract_class_def)

lemma from_contract_eq_class_eq:
  assumes "e \<in> set (effective_classes ms)"
  shows "from_contract_eq_class (with_hw E e) inputs tc =
     Inr \<lparr>viol_class = with_hw E e, input_sequence = inputs, viol_test_case_code = tc\<rparr>"
proof -
  from assms obtain k where e: "e = contract_class ms k" and "2 \<le> length (with_chash ms k)"
    by (auto simp: effective_classes_member)
  then have ne: "with_chash ms k \<noteq> []" by auto
  show ?thesis
    using ContractEqClass_init_with_chash [OF ne]
    by (simp add: e from_contract_eq_class_def Violation_init_def get_hw_classes_def set_hw_classes_def
        with_hw_def contract_class_def py_assert_def)
qed

lemma collect_violations_eq:
  assumes "set es \<subseteq> set (effective_classes ms)"
  shows "collect_violations (map (with_hw E) es) inputs tc =
     Inr (map (\<lambda>e. \<lparr>viol_class = with_hw E e, input_sequence = inputs, viol_test_case_code = tc\<rparr>)
       (filter (\<lambda>e. 2 \<le> length (classify E (eq_measurements e))) es))"
  using assms
proof (induction es)
  case (Cons e es)
  have "get_hw_classes (with_hw E e) = Inr (map hw_class (classify E (eq_measurements e)))"
    by (simp add: get_hw_classes_def with_hw_def)
  then show ?case
    using Cons from_contract_eq_class_eq [of e ms E inputs tc] by simp
qed simp

context htrace_equivalence
begin

lemma set_all_hw_classes_eq:
  assumes "I c" and "\<forall>e \<in> set es. eq_hw_classes e = None \<and> (\<forall>m \<in> set (eq_measurements e). P (bundle_htrace m))"
  shows "\<exists>c'. set_all_hw_classes eq c es = Inr (map (with_hw E) es, c') \<and> I c'"
  using assms
proof (induction es arbitrary: c)
  case (Cons e es)
  obtain c' where c': "build_hw_classes eq c (eq_measurements e) =
      Inr (map hw_class (classify E (eq_measurements e)), c')" "I c'"
    using build_hw_classes_classify [OF Cons.prems(1), of "eq_measurements e"] Cons.prems(2) by auto
  obtain c'' where "set_all_hw_classes eq c' es = Inr (map (with_hw E) es, c'')" "I c''"
    using Cons.IH [OF c'(2)] Cons.prems(2) by auto
  then show ?case
    using c'(1) Cons.prems(2) by (simp add: set_hw_classes_def with_hw_def py_assert_def)
qed simp

lemma filter_violations_eq:
  assumes "I c" and "length htraces \<le> length ctraces" and "length htraces \<le> length inputs"
    and P: "\<forall>h \<in> set htraces. usable h \<longrightarrow> P h"
  shows "\<exists>c'. filter_violations eq c st ctraces htraces tc inputs upd_stats =
     Inr (spec_violations E (bundles ctraces htraces inputs) inputs tc, c',
       if bundles ctraces htraces inputs = [] then st
       else update_class_stats upd_stats (length (chash_order (bundles ctraces htraces inputs)))
              (length (effective_classes (bundles ctraces htraces inputs))) st) \<and> I c'"
proof -
  let ?ms = "bundles ctraces htraces inputs"
  have bP: "P (bundle_htrace m)" if "m \<in> set ?ms" for m
    using that P by (auto simp: bundles_def)
  have empty: "spec_violations E [] inputs tc = []"
    by (simp add: spec_violations_def effective_classes_def chash_order_def)
  show ?thesis
  proof (cases "?ms = []")
    case True
    then show ?thesis
      using assms(1) collect_measurements_eq [OF assms(2,3)] empty by (auto simp: filter_violations_def)
  next
    case False
    then have ne: "htraces \<noteq> []" by (auto simp: bundles_def)
    have "\<forall>e \<in> set (effective_classes ?ms). eq_hw_classes e = None \<and>
        (\<forall>m \<in> set (eq_measurements e). P (bundle_htrace m))"
      using bP by (auto simp: effective_classes_member contract_class_def with_chash_def)
    from set_all_hw_classes_eq [OF assms(1) this] obtain c' where
      "set_all_hw_classes eq c (effective_classes ?ms) = Inr (map (with_hw E) (effective_classes ?ms), c')"
      and "I c'" by blast
    then show ?thesis
      using False ne collect_measurements_eq [OF assms(2,3)] build_contract_classes_eq [of ?ms]
        collect_violations_eq [of "effective_classes ?ms" ?ms E inputs tc]
      by (simp add: filter_violations_def Let_def spec_violations_def effective_classes_def [symmetric])
  qed
qed

end

lemma spec_violations_member:
  "v \<in> set (spec_violations E ms inputs tc) \<longleftrightarrow>
     (\<exists>k. v = \<lparr>viol_class = with_hw E (contract_class ms k), input_sequence = inputs, viol_test_case_code = tc\<rparr> \<and>
       k \<in> bundle_chash ` set ms \<and> 2 \<le> length (classify E (with_chash ms k)))"
proof -
  have len: "2 \<le> length (classify E g) \<Longrightarrow> 2 \<le> length g" for g :: "'a TraceBundle list"
    by (auto simp: classify_two Suc_le_eq)
  have em: "eq_measurements (contract_class ms k) = with_chash ms k" for k
    by (simp add: contract_class_def)
  have "v \<in> set (spec_violations E ms inputs tc) \<longleftrightarrow>
      (\<exists>e \<in> set (effective_classes ms). 2 \<le> length (classify E (eq_measurements e)) \<and>
         v = \<lparr>viol_class = with_hw E e, input_sequence = inputs, viol_test_case_code = tc\<rparr>)"
    by (auto simp: spec_violations_def)
  also have "\<dots> \<longleftrightarrow> (\<exists>k. v = \<lparr>viol_class = with_hw E (contract_class ms k), input_sequence = inputs,
        viol_test_case_code = tc\<rparr> \<and> k \<in> bundle_chash ` set ms \<and> 2 \<le> length (classify E (with_chash ms k)))"
    (is "?L \<longleftrightarrow> ?R")
  proof
    assume ?L
    then obtain e where e: "e \<in> set (effective_classes ms)" "2 \<le> length (classify E (eq_measurements e))"
      "v = \<lparr>viol_class = with_hw E e, input_sequence = inputs, viol_test_case_code = tc\<rparr>" by (elim bexE conjE)
    from e(1) obtain k where "k \<in> bundle_chash ` set ms" "e = contract_class ms k"
      unfolding effective_classes_member by (elim bexE conjE)
    then show ?R using e(2,3) em by (intro exI [of _ k]) simp
  next
    assume ?R
    then obtain k where k: "v = \<lparr>viol_class = with_hw E (contract_class ms k), input_sequence = inputs,
        viol_test_case_code = tc\<rparr>" "k \<in> bundle_chash ` set ms" "2 \<le> length (classify E (with_chash ms k))"
      by (elim exE conjE)
    then have "contract_class ms k \<in> set (effective_classes ms)"
      using len unfolding effective_classes_member by (intro bexI [of _ k]) auto
    then show ?L using k em by (intro bexI [of _ "contract_class ms k"]) simp_all
  qed
  finally show ?thesis .
qed

text \<open>A class with two hardware classes has two members that are not equivalent.\<close>

lemma classify_two_pair:
  assumes "2 \<le> length (classify E (with_chash ms k))"
  obtains x m where "x \<in> set ms" "m \<in> set ms" "bundle_chash x = k" "bundle_chash m = k"
    "\<not> E (bundle_htrace x) (bundle_htrace m)"
proof -
  from assms obtain m rest x where g: "with_chash ms k = m # rest" "x \<in> set rest"
    "\<not> E (bundle_htrace x) (bundle_htrace m)"
    unfolding classify_two by auto
  then have "m \<in> set (with_chash ms k)" "x \<in> set (with_chash ms k)" by auto
  then show ?thesis using that g(3) by (auto simp: with_chash_def)
qed

text \<open>Conversely when the relation is an equivalence on the traces at hand.\<close>

lemma classify_two_complete:
  assumes "x \<in> set ms" "m \<in> set ms" "bundle_chash x = k" "bundle_chash m = k"
    and nE: "\<not> E (bundle_htrace x) (bundle_htrace m)"
    and equiv: "\<And>a b. E a b \<Longrightarrow> E b a" "\<And>a b c. E a b \<Longrightarrow> E b c \<Longrightarrow> E a c" "\<And>a. E a a"
  shows "2 \<le> length (classify E (with_chash ms k))"
proof (cases "with_chash ms k")
  case Nil
  then show ?thesis using assms(1,3) by (auto simp: with_chash_def filter_empty_conv)
next
  case (Cons m0 rest)
  have mem: "x \<in> set (m0 # rest)" "m \<in> set (m0 # rest)"
    using assms(1-4) unfolding Cons [symmetric] by (auto simp: with_chash_def)
  show ?thesis
  proof (rule ccontr)
    assume "\<not> ?thesis"
    then have "E (bundle_htrace y) (bundle_htrace m0)" if "y \<in> set (m0 # rest)" for y
      using that equiv(3) unfolding classify_two Cons by auto
    with mem have "E (bundle_htrace x) (bundle_htrace m0)" "E (bundle_htrace m0) (bundle_htrace m)"
      using equiv(1) by auto
    then show False using equiv(2) nE by blast
  qed
qed

section \<open>The analysers implement the interface\<close>

text \<open>What each analyser decides, as a relation on the raw samples.\<close>

definition equiv_raw :: "Analyser \<Rightarrow> stat_tests \<Rightarrow> analyser_conf \<Rightarrow> u64 list \<Rightarrow> u64 list \<Rightarrow> bool" where
  "equiv_raw A S conf xs ys =
     (case A of
        MergedBitmapAnalyser \<Rightarrow>
          bitmaps_equivalent conf (merged_bitmap conf (length xs) xs) (merged_bitmap conf (length ys) ys)
      | SetAnalyser \<Rightarrow> sets_equivalent conf (set_filter conf (length xs) xs) (set_filter conf (length ys) ys)
      | MWUAnalyser \<Rightarrow> mannwhitneyu S xs ys > analyser_stat_threshold conf
      | ChiSquaredAnalyser \<Rightarrow> (case homogeneity_test S xs ys of
            Inl _ \<Rightarrow> False | Inr stat \<Rightarrow> stat < analyser_stat_threshold conf))"

definition equiv_rel :: "Analyser \<Rightarrow> stat_tests \<Rightarrow> analyser_conf \<Rightarrow> HTrace \<Rightarrow> HTrace \<Rightarrow> bool" where
  "equiv_rel A S conf a b = equiv_raw A S conf (get_raw_traces a) (get_raw_traces b)"

text \<open>
  The traces of one analysis: samples of one positive size, each test accepts a sample against itself,
  and the digest \<open>hf\<close> tells the samples apart.
\<close>

definition samples_ok :: "Analyser \<Rightarrow> stat_tests \<Rightarrow> analyser_conf \<Rightarrow> (u64 list \<Rightarrow> nat) \<Rightarrow> u64 list set \<Rightarrow> bool" where
  "samples_ok A S conf hf D \<longleftrightarrow> inj_on hf D \<and> (\<exists>n > 0. \<forall>xs \<in> D. length xs = n) \<and>
     (\<forall>xs \<in> D. equiv_raw A S conf xs xs)"

definition comparable ::
  "Analyser \<Rightarrow> stat_tests \<Rightarrow> analyser_conf \<Rightarrow> (u64 list \<Rightarrow> nat) \<Rightarrow> u64 list set \<Rightarrow> HTrace \<Rightarrow> bool" where
  "comparable A S conf hf D h \<longleftrightarrow> samples_ok A S conf hf D \<and> get_raw_traces h \<in> D \<and>
     ht_hash h = hf (get_raw_traces h)"

definition cache_ok :: "analyser_conf \<Rightarrow> (u64 list \<Rightarrow> nat) \<Rightarrow> u64 list set \<Rightarrow> bitmap_cache \<Rightarrow> bool" where
  "cache_ok conf hf D cache \<longleftrightarrow>
     (\<forall>xs \<in> D. \<forall>b. map_of cache (hf xs) = Some b \<longrightarrow> b = merged_bitmap conf (length xs) xs)"

lemma sample_size_raw: "sample_size h = length (get_raw_traces h)"
  by (simp add: sample_size_def get_raw_traces_def)

lemma cached_bitmap_eq:
  assumes "inj_on hf D" and "get_raw_traces h \<in> D" and "ht_hash h = hf (get_raw_traces h)"
    and "cache_ok conf hf D cache" and "n = length (get_raw_traces h)"
  shows "\<exists>cache'. cached_bitmap conf n cache h = (merged_bitmap conf n (get_raw_traces h), cache') \<and>
     cache_ok conf hf D cache'"
proof (cases "map_of cache (ht_hash h)")
  case None
  let ?b = "merged_bitmap conf n (get_raw_traces h)"
  have "cache_ok conf hf D (dict_set cache (ht_hash h) ?b)"
    unfolding cache_ok_def
  proof (intro ballI allI impI)
    fix xs b assume xs: "xs \<in> D" and b: "map_of (dict_set cache (ht_hash h) ?b) (hf xs) = Some b"
    show "b = merged_bitmap conf (length xs) xs"
    proof (cases "hf xs = ht_hash h")
      case True
      then have "xs = get_raw_traces h" using assms(1-3) xs by (auto dest: inj_onD)
      then show ?thesis using b True assms(5) by (simp add: update_conv)
    next
      case False
      then show ?thesis using b assms(4) xs by (simp add: update_conv cache_ok_def)
    qed
  qed
  then show ?thesis using None by (simp add: cached_bitmap_def Let_def)
next
  case (Some b)
  then have "b = merged_bitmap conf n (get_raw_traces h)"
    using assms by (auto simp: cache_ok_def)
  then show ?thesis using Some assms(4) by (simp add: cached_bitmap_def)
qed

interpretation analysers: htrace_equivalence "htraces_are_equivalent A S conf" "cache_ok conf hf D"
  "comparable A S conf hf D" "equiv_rel A S conf" for A S conf hf D
proof
  fix c a b
  assume c: "cache_ok conf hf D c" and a: "comparable A S conf hf D a" and b: "comparable A S conf hf D b"
  have len: "length (get_raw_traces a) = length (get_raw_traces b)" "get_raw_traces a \<noteq> []"
    using a b by (auto simp: comparable_def samples_ok_def)
  show "\<exists>c'. htraces_are_equivalent A S conf c a b = Inr (equiv_rel A S conf a b, c') \<and> cache_ok conf hf D c'"
  proof (cases A)
    case MergedBitmapAnalyser
    obtain c1 where c1: "cached_bitmap conf (sample_size a) c a =
        (merged_bitmap conf (sample_size a) (get_raw_traces a), c1)" "cache_ok conf hf D c1"
      using cached_bitmap_eq [of hf D a conf c "sample_size a"] a c
      by (auto simp: comparable_def samples_ok_def sample_size_raw)
    obtain c2 where c2: "cached_bitmap conf (sample_size a) c1 b =
        (merged_bitmap conf (sample_size a) (get_raw_traces b), c2)" "cache_ok conf hf D c2"
      using cached_bitmap_eq [of hf D b conf c1 "sample_size a"] b c1(2) len
      by (auto simp: comparable_def samples_ok_def sample_size_raw)
    show ?thesis
      using c1 c2 len
      by (simp add: MergedBitmapAnalyser htraces_are_equivalent_def merged_bitmap_equivalent_def equiv_rel_def
          equiv_raw_def sample_size_raw py_assert_def)
  next
    case ChiSquaredAnalyser
    have "\<exists>stat. homogeneity_test S (get_raw_traces a) (get_raw_traces b) = Inr stat"
      using len by (auto simp: homogeneity_test_def py_assert_def Let_def)
    then show ?thesis
      using c by (auto simp: ChiSquaredAnalyser htraces_are_equivalent_def chi_squared_equivalent_def equiv_rel_def
          equiv_raw_def)
  qed (use c len in \<open>auto simp: htraces_are_equivalent_def set_equivalent_def mwu_equivalent_def equiv_rel_def
      equiv_raw_def sample_size_raw py_assert_def\<close>)
next
  fix a b
  assume "comparable A S conf hf D a" "comparable A S conf hf D b" "ht_hash a = ht_hash b"
  then have "get_raw_traces a = get_raw_traces b" "equiv_raw A S conf (get_raw_traces a) (get_raw_traces a)"
    by (auto simp: comparable_def samples_ok_def dest: inj_onD)
  then show "equiv_rel A S conf a b" by (simp add: equiv_rel_def)
qed

section \<open>Properties\<close>

text \<open>The conditions under which the traces of one round can be compared.\<close>

definition round_ok :: "Analyser \<Rightarrow> stat_tests \<Rightarrow> analyser_conf \<Rightarrow> hashing \<Rightarrow> HTrace list \<Rightarrow> bool" where
  "round_ok A S conf H htraces \<longleftrightarrow>
     samples_ok A S conf (\<lambda>xs. xxh64 H (np_str H xs)) (get_raw_traces ` {h \<in> set htraces. usable h}) \<and>
     (\<forall>h \<in> set htraces. usable h \<longrightarrow> ht_hash h = xxh64 H (np_str H (get_raw_traces h)))"

lemma bundles_member:
  "m \<in> set (bundles ctraces htraces inputs) \<longleftrightarrow>
     (\<exists>i < length htraces. usable (htraces ! i) \<and> m = \<lparr>input_id = i, bundle_input = inputs ! i,
        bundle_ctrace = ctraces ! i, bundle_htrace = htraces ! i\<rparr>)"
  by (auto simp: bundles_def)

lemma filter_violations_round:
  assumes "round_ok A S conf H htraces" and "length htraces \<le> length ctraces" and "length htraces \<le> length inputs"
  shows "\<exists>c st'. filter_violations (htraces_are_equivalent A S conf) [] st ctraces htraces tc inputs upd_stats =
     Inr (spec_violations (equiv_rel A S conf) (bundles ctraces htraces inputs) inputs tc, c, st')"
proof -
  let ?hf = "\<lambda>xs. xxh64 H (np_str H xs)" and ?D = "get_raw_traces ` {h \<in> set htraces. usable h}"
  have cache: "cache_ok conf ?hf ?D []" by (simp add: cache_ok_def)
  have dom: "\<forall>h \<in> set htraces. usable h \<longrightarrow> comparable A S conf ?hf ?D h"
    using assms(1) by (auto simp: round_ok_def comparable_def)
  show ?thesis
    using analysers.filter_violations_eq [OF cache assms(2,3) dom, of st tc upd_stats] by blast
qed

text \<open>
  C2: Soundness of the violation search, for every analyser: it does not raise, and every reported
  violation contains two inputs whose contract traces are equal and whose hardware traces the analyser
  does not consider equivalent; ignored and corrupted measurements never take part.
\<close>

theorem filter_violations_sound:
  assumes "round_ok A S conf H htraces" and "length htraces \<le> length ctraces" and "length htraces \<le> length inputs"
  shows "\<exists>vs c st'. filter_violations (htraces_are_equivalent A S conf) [] st ctraces htraces tc inputs upd_stats =
       Inr (vs, c, st') \<and>
     (\<forall>v \<in> set vs. input_sequence v = inputs \<and> viol_test_case_code v = tc \<and>
       (\<exists>i < length htraces. \<exists>j < length htraces. usable (htraces ! i) \<and> usable (htraces ! j) \<and>
          i \<in> input_id ` set (eq_measurements (viol_class v)) \<and> j \<in> input_id ` set (eq_measurements (viol_class v)) \<and>
          ctrace_eq (ctraces ! i) (ctraces ! j) \<and> \<not> equiv_rel A S conf (htraces ! i) (htraces ! j)))"
proof -
  let ?ms = "bundles ctraces htraces inputs" and ?E = "equiv_rel A S conf"
  have each: "input_sequence v = inputs \<and> viol_test_case_code v = tc \<and>
       (\<exists>i < length htraces. \<exists>j < length htraces. usable (htraces ! i) \<and> usable (htraces ! j) \<and>
          i \<in> input_id ` set (eq_measurements (viol_class v)) \<and> j \<in> input_id ` set (eq_measurements (viol_class v)) \<and>
          ctrace_eq (ctraces ! i) (ctraces ! j) \<and> \<not> ?E (htraces ! i) (htraces ! j))"
    if "v \<in> set (spec_violations ?E ?ms inputs tc)" for v
  proof -
    from that obtain k where v: "v = \<lparr>viol_class = with_hw ?E (contract_class ?ms k), input_sequence = inputs,
        viol_test_case_code = tc\<rparr>" and two: "2 \<le> length (classify ?E (with_chash ?ms k))"
      unfolding spec_violations_member by blast
    from classify_two_pair [OF two] obtain x m where xm: "x \<in> set ?ms" "m \<in> set ?ms" "bundle_chash x = k"
      "bundle_chash m = k" "\<not> ?E (bundle_htrace x) (bundle_htrace m)" .
    have cls: "eq_measurements (viol_class v) = with_chash ?ms k"
      by (simp add: v with_hw_def contract_class_def)
    have "input_id x \<in> input_id ` set (with_chash ?ms k)" "input_id m \<in> input_id ` set (with_chash ?ms k)"
      using xm by (auto simp: with_chash_def)
    moreover obtain i where "i < length htraces" "usable (htraces ! i)" "input_id x = i"
      "bundle_ctrace x = ctraces ! i" "bundle_htrace x = htraces ! i"
      using xm(1) unfolding bundles_member by auto
    moreover obtain j where "j < length htraces" "usable (htraces ! j)" "input_id m = j"
      "bundle_ctrace m = ctraces ! j" "bundle_htrace m = htraces ! j"
      using xm(2) unfolding bundles_member by auto
    ultimately have "i < length htraces \<and> j < length htraces \<and> usable (htraces ! i) \<and> usable (htraces ! j) \<and>
        i \<in> input_id ` set (with_chash ?ms k) \<and> j \<in> input_id ` set (with_chash ?ms k) \<and>
        ctrace_eq (ctraces ! i) (ctraces ! j) \<and> \<not> ?E (htraces ! i) (htraces ! j)"
      using xm(3-5) by (simp add: ctrace_eq_def)
    then show ?thesis unfolding cls by (auto simp: v)
  qed
  obtain c st' where eq: "filter_violations (htraces_are_equivalent A S conf) [] st ctraces htraces tc inputs
      upd_stats = Inr (spec_violations ?E ?ms inputs tc, c, st')"
    using filter_violations_round [OF assms, of st tc upd_stats] by (elim exE)
  show ?thesis
    by (rule exI, rule exI, rule exI, rule conjI [OF eq], rule ballI, rule each)
qed

lemma spec_violations_complete:
  assumes "A = MergedBitmapAnalyser \<or> A = SetAnalyser" and "analyser_subsets_is_violation conf"
    and "i < length htraces" and "j < length htraces" and "usable (htraces ! i)" and "usable (htraces ! j)"
    and "ctrace_eq (ctraces ! i) (ctraces ! j)" and "\<not> equiv_rel A S conf (htraces ! i) (htraces ! j)"
  shows "\<exists>v \<in> set (spec_violations (equiv_rel A S conf) (bundles ctraces htraces inputs) inputs tc).
     i \<in> input_id ` set (eq_measurements (viol_class v)) \<and> j \<in> input_id ` set (eq_measurements (viol_class v))"
proof -
  let ?ms = "bundles ctraces htraces inputs" and ?E = "equiv_rel A S conf"
  let ?b = "\<lambda>i. \<lparr>input_id = i, bundle_input = inputs ! i, bundle_ctrace = ctraces ! i, bundle_htrace = htraces ! i\<rparr>"
  let ?k = "ct_hash (ctraces ! i)"
  have mem: "?b i \<in> set ?ms" "?b j \<in> set ?ms"
    using assms by (auto simp: bundles_member)
  have k: "bundle_chash (?b i) = ?k" "bundle_chash (?b j) = ?k"
    using assms(7) by (simp_all add: ctrace_eq_def)
  have "2 \<le> length (classify ?E (with_chash ?ms ?k))"
    by (rule classify_two_complete [OF mem k])
      (use assms(1,2,8) in \<open>auto simp: equiv_rel_def equiv_raw_def bitmaps_equivalent_def sets_equivalent_def\<close>)
  then have "\<lparr>viol_class = with_hw ?E (contract_class ?ms ?k), input_sequence = inputs, viol_test_case_code = tc\<rparr>
      \<in> set (spec_violations ?E ?ms inputs tc)"
    unfolding spec_violations_member using mem(1) k(1) by (metis imageI)
  moreover have "?b i \<in> set (with_chash ?ms ?k)" "?b j \<in> set (with_chash ?ms ?k)"
    using mem k by (auto simp: with_chash_def)
  then have "i \<in> input_id ` set (with_chash ?ms ?k)" "j \<in> input_id ` set (with_chash ?ms ?k)"
    by (force simp: image_iff)+
  then have "i \<in> input_id ` set (eq_measurements (with_hw ?E (contract_class ?ms ?k)))"
    "j \<in> input_id ` set (eq_measurements (with_hw ?E (contract_class ?ms ?k)))"
    by (simp_all add: with_hw_def contract_class_def)
  ultimately show ?thesis
    by (intro bexI) (auto simp only: Violation.select_convs)
qed


text \<open>A round with two inputs on the same contract trace and different cache footprints.\<close>

definition demo_conf :: analyser_conf where
  "demo_conf = \<lparr>analyser_subsets_is_violation = True, analyser_outliers_threshold = 0,
     analyser_stat_threshold = 0, executor_sample_size = 1\<rparr>"

definition demo_tests :: stat_tests where
  "demo_tests = \<lparr>mannwhitneyu = (\<lambda>_ _. 1), chisquare = (\<lambda>_ _ _. 0), set_order = id\<rparr>"

definition demo_hashing :: hashing where
  "demo_hashing = \<lparr>xxh64 = length, np_str = (\<lambda>xs. replicate (unat (hd xs)) (CHR ''x''))\<rparr>"

definition demo_htrace :: "u64 \<Rightarrow> HTrace" where
  "demo_htrace w = HTrace_init demo_hashing [zero_sample\<lparr>smp_trace := w\<rparr>] HT_cache"

lemma demo_round_ok: "round_ok MergedBitmapAnalyser demo_tests demo_conf demo_hashing [demo_htrace 1, demo_htrace 2]"
proof -
  have u: "usable (demo_htrace w) \<longleftrightarrow> w \<noteq> 0" for w
    by (simp add: usable_def demo_htrace_def htrace_is_empty_def htrace_len_def is_corrupted_or_ignored_def HTrace_init_def)
  have raw: "get_raw_traces (demo_htrace w) = [w]" "ht_hash (demo_htrace w) = unat w" for w
    by (simp_all add: demo_htrace_def get_raw_traces_def HTrace_init_def demo_hashing_def)
  show ?thesis
    by (auto simp: round_ok_def samples_ok_def u raw demo_hashing_def inj_on_def equiv_raw_def
        bitmaps_equivalent_def demo_conf_def)
qed

definition demo_result :: "((nat, nat) Violation list \<times> bitmap_cache \<times> FuzzingStats) res" where
  "demo_result = filter_violations (htraces_are_equivalent MergedBitmapAnalyser demo_tests demo_conf) []
     FuzzingStats_init [CTrace_empty demo_hashing, CTrace_empty demo_hashing] [demo_htrace 1, demo_htrace 2] 0 [7, 8] True"

theorem filter_violations_sound_witness:
  "\<exists>vs c st'. demo_result = Inr (vs, c, st') \<and> (\<forall>v \<in> set vs. input_sequence v = [7, 8])"
  unfolding demo_result_def
  using filter_violations_sound [OF demo_round_ok, of "[CTrace_empty demo_hashing, CTrace_empty demo_hashing]"
      "[7, 8]" FuzzingStats_init 0 True]
  by (simp only: list.size) fastforce


text \<open>
  The outlier threshold of \<^verbatim>\<open>SetAnalyser\<close> is compared with trace values instead of their counts: a
  single stray sample is kept and makes two otherwise equal traces differ, while \<^verbatim>\<open>MergedBitmapAnalyser\<close>
  with the same threshold drops it and finds the traces equivalent.
\<close>

theorem set_analyser_keeps_outliers:
  assumes "analyser_subsets_is_violation conf" and "v \<noteq> w"
    and "1 < analyser_outliers_threshold conf * of_nat (Suc n)"
    and "analyser_outliers_threshold conf * of_nat (Suc n) \<le> of_nat n"
    and "analyser_outliers_threshold conf * of_nat (Suc n) \<le> of_nat (unat w)"
  shows "\<not> equiv_raw SetAnalyser S conf (w # replicate n v) (replicate (Suc n) v) \<and>
     equiv_raw MergedBitmapAnalyser S conf (w # replicate n v) (replicate (Suc n) v)"
proof -
  let ?t = "analyser_outliers_threshold conf * of_nat (Suc n)"
  have count: "count_list (replicate k v) x = (if x = v then k else 0)" for k x
    by (induction k) auto
  have "w \<in> set_filter conf (Suc n) (w # replicate n v)" "w \<notin> set_filter conf (Suc n) (replicate (Suc n) v)"
    using assms by (auto simp: set_filter_def)
  then have "\<not> equiv_raw SetAnalyser S conf (w # replicate n v) (replicate (Suc n) v)"
    using assms(1) by (auto simp: equiv_raw_def sets_equivalent_def)
  moreover have n: "0 < n" using assms(3,4) by (cases n) auto
  have f1: "filter (\<lambda>x. of_nat (count_list (w # replicate n v) x) \<ge> ?t) (w # replicate n v) = replicate n v"
    using assms by (auto simp: count)
  have f2: "filter (\<lambda>x. of_nat (count_list (replicate (Suc n) v) x) \<ge> ?t) (replicate (Suc n) v) = replicate (Suc n) v"
  proof -
    have "?t \<le> of_nat (Suc n)" using assms(4) by (simp add: order_trans)
    then show ?thesis by (simp only: filter_replicate count if_True simp_thms)
  qed
  have or: "foldl (\<lambda>b t. b OR t) b (replicate k v) = (if k = 0 then b else b OR v)" for b :: u64 and k
    by (induction k arbitrary: b) (auto simp: or.assoc)
  have "merged_bitmap conf (Suc n) (w # replicate n v) = merged_bitmap conf (Suc n) (replicate (Suc n) v)"
    unfolding merged_bitmap_def Let_def f1 f2 or using n by simp
  then have "equiv_raw MergedBitmapAnalyser S conf (w # replicate n v) (replicate (Suc n) v)"
    using assms(1) by (simp add: equiv_raw_def bitmaps_equivalent_def)
  ultimately show ?thesis by blast
qed

theorem set_analyser_keeps_outliers_witness:
  "\<not> equiv_raw SetAnalyser demo_tests (demo_conf\<lparr>analyser_outliers_threshold := 1 / 10\<rparr>)
       (1024 # replicate 19 1) (replicate (Suc 19) 1) \<and>
   equiv_raw MergedBitmapAnalyser demo_tests (demo_conf\<lparr>analyser_outliers_threshold := 1 / 10\<rparr>)
       (1024 # replicate 19 1) (replicate (Suc 19) 1)"
  by (rule set_analyser_keeps_outliers) (simp_all add: demo_conf_def)

end
