(* ===== verification/Executor.thy ===== *)
theory Executor
  imports Analyser TestCaseData
begin

unbundle bit_operations_syntax

text \<open>
  Model of \<^verbatim>\<open>rvzr/executor.py\<close>: reading measurements from the kernel module and turning them into
  hardware traces. What the kernel module prints is an argument: a list of outputs, one per read of the
  trace file, each a list of lines. The initial checks of the machine and the configuration files of
  the module are system calls and are left out.
\<close>

section \<open>Reading the output of the kernel module\<close>

type_synonym KMOutputLine = "int list"

text \<open>The state of the reading loop: the repetition, the input and what the consumer has stored.\<close>

record 's read_state =
  rep_id :: nat
  cur_input :: nat
  consumed :: 's

text \<open>Errors of the parser; the flag says that the rest of the output is skipped before raising.\<close>

type_synonym read_error = "py_error \<times> bool"

definition parse_line :: "bool \<Rightarrow> string \<Rightarrow> read_error + KMOutputLine" where
  "parse_line arch_mode line =
     (case rmapM int_of_str (split_on (\<lambda>c. c = CHR '','') line) of
        Inl e \<Rightarrow> Inl (e, False)
      | Inr line_ints \<Rightarrow>
          if length line_ints \<noteq> 6 then Inl (IOError, True)
          else if line_ints ! 0 = 0 \<and> \<not> arch_mode then Inl (IOError, True)
          else Inr line_ints)"

definition next_input :: "nat \<Rightarrow> 's read_state \<Rightarrow> 's read_state" where
  "next_input last_input_id r =
     (if cur_input r = 0 then r\<lparr>cur_input := last_input_id, rep_id := rep_id r + 1\<rparr>
      else r\<lparr>cur_input := cur_input r - 1\<rparr>)"

text \<open>The loop over the lines of one output. The boolean result is \<^verbatim>\<open>reading_finished\<close>.\<close>

fun process_lines ::
  "bool \<Rightarrow> nat \<Rightarrow> ('s \<Rightarrow> nat \<Rightarrow> nat \<Rightarrow> KMOutputLine \<Rightarrow> 's res) \<Rightarrow> 's read_state \<Rightarrow> string list \<Rightarrow>
   read_error + (bool \<times> 's read_state)" where
  "process_lines arch_mode last_input_id emit r [] = Inr (False, r)"
| "process_lines arch_mode last_input_id emit r (line # lines) =
     (if line = [] then process_lines arch_mode last_input_id emit r lines
      else if contains line ''done'' then Inr (True, r)
      else (case parse_line arch_mode line of
          Inl e \<Rightarrow> Inl e
        | Inr line_ints \<Rightarrow> (case emit (consumed r) (rep_id r) (cur_input r) line_ints of
            Inl e \<Rightarrow> Inl (e, False)
          | Inr s \<Rightarrow> process_lines arch_mode last_input_id emit
                       (next_input last_input_id (r\<lparr>consumed := s\<rparr>)) lines)))"

text \<open>\<^verbatim>\<open>_rewind_km_output_to_end\<close>; \<open>None\<close> when the module never prints \<^verbatim>\<open>done\<close>.\<close>

fun rewind_km_output_to_end :: "string list list \<Rightarrow> string list list option" where
  "rewind_km_output_to_end [] = None"
| "rewind_km_output_to_end (out # outs) =
     (if list_ex (\<lambda>l. contains l ''done'') out then Some outs else rewind_km_output_to_end outs)"

text \<open>
  The two nested loops of \<^verbatim>\<open>_read_trace\<close>; \<open>reading\<close> tells that the inner one is active. The result has
  the outputs that are left; \<open>None\<close> means that the loop waits for output that never comes.
\<close>

fun read_loop ::
  "nat \<Rightarrow> nat \<Rightarrow> bool \<Rightarrow> ('s \<Rightarrow> nat \<Rightarrow> nat \<Rightarrow> KMOutputLine \<Rightarrow> 's res) \<Rightarrow> bool \<Rightarrow> 's read_state \<Rightarrow>
   string list list \<Rightarrow> ('s res \<times> string list list) option" where
  "read_loop n_reps last_input_id arch_mode emit reading r outs =
     (if \<not> reading \<and> \<not> rep_id r < n_reps then Some (ok (consumed r), outs)
      else (case outs of
          [] \<Rightarrow> None
        | out # outs' \<Rightarrow>
            (let r0 = (if reading then r else r\<lparr>cur_input := last_input_id\<rparr>)
             in case process_lines arch_mode last_input_id emit r0 out of
                  Inl (e, rewind) \<Rightarrow>
                    if rewind then map_option (\<lambda>rest. (raise e, rest)) (rewind_km_output_to_end outs')
                    else Some (raise e, outs')
                | Inr (finished, r') \<Rightarrow>
                    if \<not> finished then read_loop n_reps last_input_id arch_mode emit True r' outs'
                    else if cur_input r' = last_input_id
                    then read_loop n_reps last_input_id arch_mode emit False r' outs'
                    else Some (raise AssertionError, outs'))))"

declare read_loop.simps [simp del]

definition read_trace ::
  "nat \<Rightarrow> nat \<Rightarrow> bool \<Rightarrow> ('s \<Rightarrow> nat \<Rightarrow> nat \<Rightarrow> KMOutputLine \<Rightarrow> 's res) \<Rightarrow> 's \<Rightarrow> string list list \<Rightarrow>
   ('s res \<times> string list list) option" where
  "read_trace n_reps n_inputs arch_mode emit s outs =
     (if n_inputs = 0 then Some (ok s, outs)
      else read_loop n_reps (n_inputs - 1) arch_mode emit False
             \<lparr>rep_id = 0, cur_input = n_inputs - 1, consumed = s\<rparr> outs)"

section \<open>The executor\<close>

record 'tc Executor =
  curr_test_case :: "'tc option"
  ignore_list :: "nat set"
  enable_mismatch_check_mode :: bool

definition TSC_MASK :: u64 where
  "TSC_MASK = 0x0FFFFFFFFFFFFFF0"

definition Executor_init :: "bool \<Rightarrow> 'tc Executor" where
  "Executor_init mismatch = \<lparr>curr_test_case = None, ignore_list = {}, enable_mismatch_check_mode = mismatch\<rparr>"

definition load_test_case :: "'tc Executor \<Rightarrow> 'tc \<Rightarrow> 'tc Executor" where
  "load_test_case X tc = X\<lparr>curr_test_case := Some tc, ignore_list := {}\<rparr>"

definition set_ignore_list :: "'tc Executor \<Rightarrow> nat list \<Rightarrow> 'tc Executor" where
  "set_ignore_list X l = X\<lparr>ignore_list := set l\<rparr>"

definition extend_ignore_list :: "'tc Executor \<Rightarrow> nat list \<Rightarrow> 'tc Executor" where
  "extend_ignore_list X l = X\<lparr>ignore_list := ignore_list X \<union> set l\<rparr>"

definition identify_trace_type :: "'tc Executor \<Rightarrow> string \<Rightarrow> HTraceType" where
  "identify_trace_type X executor_mode =
     (if enable_mismatch_check_mode X then HT_reg else if executor_mode = ''TSC'' then HT_tsc else HT_cache)"

text \<open>Storing a line into the array of readings; an integer outside 64 bits raises.\<close>

definition to_uint64 :: "int \<Rightarrow> u64 res" where
  "to_uint64 i = (if 0 \<le> i \<and> i < 2 ^ 64 then ok (word_of_int i) else raise OverflowError)"

definition sample_of_line :: "KMOutputLine \<Rightarrow> RawHTraceSample res" where
  "sample_of_line l =
     rbind (rmapM to_uint64 l) (\<lambda>ws.
       case ws of
         [a, b, c, d, e, f] \<Rightarrow> ok \<lparr>smp_trace = a, pfc0 = b, pfc1 = c, pfc2 = d, pfc3 = e, pfc4 = f\<rparr>
       | _ \<Rightarrow> raise ValueError)"

definition store_reading ::
  "RawHTraceSample list list \<Rightarrow> nat \<Rightarrow> nat \<Rightarrow> KMOutputLine \<Rightarrow> RawHTraceSample list list res" where
  "store_reading all_readings rep input readings =
     rbind (py_nth all_readings (int input)) (\<lambda>row.
     rbind (sample_of_line readings) (\<lambda>x.
     rbind (py_set row (int rep) x) (\<lambda>row'. ok (all_readings[input := row']))))"

definition trace_of_row :: "hashing \<Rightarrow> 'tc Executor \<Rightarrow> string \<Rightarrow> nat \<times> RawHTraceSample list \<Rightarrow> HTrace" where
  "trace_of_row H X executor_mode ir =
     (case ir of (i, raw) \<Rightarrow>
       let ty = identify_trace_type X executor_mode
       in if enable_mismatch_check_mode X then HTrace_init H raw ty
          else if i \<in> ignore_list X then HTrace_invalid H ty
          else if executor_mode = ''TSC''
          then HTrace_init H (map (\<lambda>x. x\<lparr>smp_trace := smp_trace x AND TSC_MASK\<rparr>) raw) ty
          else HTrace_init H raw ty)"

definition raw_readings_to_traces ::
  "hashing \<Rightarrow> 'tc Executor \<Rightarrow> string \<Rightarrow> RawHTraceSample list list \<Rightarrow> nat \<Rightarrow> HTrace list" where
  "raw_readings_to_traces H X executor_mode all_readings n_inputs =
     map (trace_of_row H X executor_mode) (enumerate 0 (take n_inputs all_readings))"

text \<open>
  \<^verbatim>\<open>trace_test_case\<close>. The parameter \<open>accept\<close> is the module's answer to the transferred inputs,
  \<open>mem\<close> the uninitialised array of readings.
\<close>

definition trace_test_case ::
  "hashing \<Rightarrow> (byte list \<Rightarrow> bool) \<Rightarrow> string \<Rightarrow> 'tc Executor \<Rightarrow> FuzzingStats \<Rightarrow> RawHTraceSample list list \<Rightarrow>
   InputData list \<Rightarrow> nat \<Rightarrow> string list list \<Rightarrow> ((HTrace list \<times> FuzzingStats) res \<times> string list list) option" where
  "trace_test_case H accept executor_mode X st mem inputs n_reps outs =
     (if inputs = [] then Some (ok ([], st), outs)
      else let n_inputs = length inputs in
        if n_inputs \<le> card (ignore_list X)
        then Some (ok (replicate n_inputs (HTrace_empty H HT_cache), st), outs)
        else
          let st' = st\<lparr>executor_reruns := executor_reruns st + n_reps * n_inputs\<rparr>;
              input_sequence = (if n_reps mod 5 \<noteq> 0 \<or> n_inputs \<ge> 1000 then inputs
                                else concat (replicate 5 inputs))
          in (case save_input_sequence_as_rdbf input_sequence of
                Inl e \<Rightarrow> Some (raise e, outs)
              | Inr bytes \<Rightarrow>
                  if \<not> accept bytes then Some (raise IOError, outs)
                  else map_option (\<lambda>(r, rest).
                         (rbind r (\<lambda>all_readings.
                            ok (raw_readings_to_traces H X executor_mode all_readings n_inputs, st')), rest))
                       (read_trace n_reps n_inputs (enable_mismatch_check_mode X) store_reading mem outs)))"

section \<open>Well-formed outputs\<close>

text \<open>What the kernel module prints for one sample.\<close>

definition km_line :: "RawHTraceSample \<Rightarrow> string" where
  "km_line x = join '','' (map (str_nat \<circ> unat) [smp_trace x, pfc0 x, pfc1 x, pfc2 x, pfc3 x, pfc4 x])"

definition line_ints :: "RawHTraceSample \<Rightarrow> KMOutputLine" where
  "line_ints x = map uint [smp_trace x, pfc0 x, pfc1 x, pfc2 x, pfc3 x, pfc4 x]"

lemma km_line_chars: "c \<in> set (km_line x) \<Longrightarrow> is_digit c \<or> c = CHR '',''"
  by (auto simp: km_line_def dest: str_nat_is_digit)

lemma km_line_not_done: "\<not> contains (km_line x) ''done''" "km_line x \<noteq> []"
proof -
  have "CHR ''d'' \<notin> set (km_line x)"
    using km_line_chars [of "CHR ''d''" x] by (auto simp: is_digit_def)
  then show "\<not> contains (km_line x) ''done''" using contains_first by blast
  show "km_line x \<noteq> []" by (simp add: km_line_def)
qed

text \<open>Except in architectural mode a zero trace is the module's way to report an error.\<close>

definition readable :: "bool \<Rightarrow> RawHTraceSample \<Rightarrow> bool" where
  "readable arch_mode x \<longleftrightarrow> arch_mode \<or> smp_trace x \<noteq> 0"

lemma parse_km_line:
  assumes "readable arch_mode x"
  shows "parse_line arch_mode (km_line x) = Inr (line_ints x)"
proof -
  let ?ws = "[smp_trace x, pfc0 x, pfc1 x, pfc2 x, pfc3 x, pfc4 x]"
  have "split_on (\<lambda>c. c = CHR '','') (km_line x) = map (str_nat \<circ> unat) ?ws"
    unfolding km_line_def
    by (rule split_on_join) (auto dest!: str_nat_is_digit simp: is_digit_def)
  moreover have "rmapM int_of_str (map (str_nat \<circ> unat) ?ws) = Inr (line_ints x)"
    by (simp add: line_ints_def)
  moreover have "line_ints x ! 0 \<noteq> 0 \<or> arch_mode" "length (line_ints x) = 6"
    using assms by (auto simp: line_ints_def unsigned_eq_0_iff readable_def)
  ultimately show ?thesis by (auto simp: parse_line_def)
qed

lemma sample_of_line_ints: "sample_of_line (line_ints x) = Inr x"
proof -
  have "to_uint64 (uint w) = Inr w" for w :: u64
    using unsigned_less [of w] by (simp add: to_uint64_def)
  then show ?thesis by (simp add: sample_of_line_def line_ints_def)
qed

text \<open>
  The sequence of samples the loop stores: position \<open>p\<close> of the sequence belongs to repetition
  \<open>p div n\<close> and, since inputs are printed in reverse, to input \<open>n - 1 - p mod n\<close>.
\<close>

definition slot :: "nat \<Rightarrow> nat \<Rightarrow> nat \<times> nat" where
  "slot n p = (p div n, n - 1 - p mod n)"

definition state_at :: "nat \<Rightarrow> nat \<Rightarrow> 's \<Rightarrow> 's read_state" where
  "state_at n p s = \<lparr>rep_id = fst (slot n p), cur_input = snd (slot n p), consumed = s\<rparr>"

lemma next_input_state_at:
  assumes "0 < n"
  shows "next_input (n - 1) (state_at n p s) = state_at n (Suc p) s"
proof (cases "Suc (p mod n) = n")
  case True
  then have "Suc p mod n = 0" "Suc p div n = Suc (p div n)"
    by (simp_all add: mod_Suc div_Suc)
  then show ?thesis using True by (simp add: next_input_def state_at_def slot_def)
next
  case False
  then have "Suc p mod n = Suc (p mod n)" "Suc p div n = p div n"
    by (simp_all add: mod_Suc div_Suc)
  moreover have "p mod n < n" using assms by simp
  ultimately show ?thesis using False by (auto simp: next_input_def state_at_def slot_def)
qed

fun emit_all :: "nat \<Rightarrow> ('s \<Rightarrow> nat \<Rightarrow> nat \<Rightarrow> KMOutputLine \<Rightarrow> 's res) \<Rightarrow> nat \<Rightarrow> 's \<Rightarrow> RawHTraceSample list \<Rightarrow> 's res" where
  "emit_all n emit p s [] = ok s"
| "emit_all n emit p s (x # xs) =
     rbind (emit s (fst (slot n p)) (snd (slot n p)) (line_ints x)) (\<lambda>s'. emit_all n emit (Suc p) s' xs)"

lemma emit_all_append:
  "emit_all n emit p s (xs @ ys) = rbind (emit_all n emit p s xs) (\<lambda>s'. emit_all n emit (p + length xs) s' ys)"
proof (induction xs arbitrary: p s)
  case (Cons x xs)
  then show ?case by (cases "emit s (fst (slot n p)) (snd (slot n p)) (line_ints x)") simp_all
qed simp

lemma process_km_lines:
  assumes "0 < n" and "\<forall>x \<in> set xs. readable arch_mode x" and "emit_all n emit p s xs = Inr s'"
  shows "process_lines arch_mode (n - 1) emit (state_at n p s) (map km_line xs @ rest) =
     process_lines arch_mode (n - 1) emit (state_at n (p + length xs) s') rest"
  using assms(2,3)
proof (induction xs arbitrary: p s)
  case (Cons x xs)
  from Cons.prems(2) obtain s1 where s1: "emit s (fst (slot n p)) (snd (slot n p)) (line_ints x) = Inr s1"
    "emit_all n emit (Suc p) s1 xs = Inr s'" by (auto simp: rbind_eq_Inr_iff)
  have "next_input (n - 1) ((state_at n p s)\<lparr>consumed := s1\<rparr>) = state_at n (Suc p) s1"
    using next_input_state_at [OF assms(1), of p s1] by (simp add: state_at_def)
  moreover have "parse_line arch_mode (km_line x) = Inr (line_ints x)"
    using Cons.prems(1) by (intro parse_km_line) auto
  ultimately show ?case
    using Cons.IH [OF _ s1(2)] Cons.prems(1) s1(1) km_line_not_done [of x]
    by (simp add: state_at_def [of n p s])
qed simp

text \<open>
  A batch: the samples are split over several reads, the last of which ends with \<^verbatim>\<open>done\<close>. Every output
  ends with a line break, hence the empty last line.
\<close>

fun km_batch :: "RawHTraceSample list list \<Rightarrow> string list list" where
  "km_batch [] = []"
| "km_batch [ys] = [map km_line ys @ [''done'', []]]"
| "km_batch (ys # zs # yss) = (map km_line ys @ [[]]) # km_batch (zs # yss)"

lemma read_loop_start:
  assumes "rep_id r < n_reps" and "cur_input r = m"
  shows "read_loop n_reps m arch emit False r outs = read_loop n_reps m arch emit True r outs"
proof -
  have "r\<lparr>cur_input := m\<rparr> = r" using assms(2) by simp
  then show ?thesis
    using assms(1) by (cases outs) (simp_all add: read_loop.simps [of _ _ _ _ False] read_loop.simps [of _ _ _ _ True])
qed

lemma state_at_boundary: "p mod n = 0 \<Longrightarrow> cur_input (state_at n p s) = n - 1"
  by (simp add: state_at_def slot_def)

lemma read_batch:
  assumes "0 < n" and "yss \<noteq> []" and "\<forall>x \<in> set (concat yss). readable arch x"
    and "emit_all n emit p s (concat yss) = Inr s'" and "(p + length (concat yss)) mod n = 0"
  shows "read_loop n_reps (n - 1) arch emit True (state_at n p s) (km_batch yss @ outs) =
     read_loop n_reps (n - 1) arch emit False (state_at n (p + length (concat yss)) s') outs"
  using assms(2-5)
proof (induction yss arbitrary: p s rule: km_batch.induct)
  case (2 ys)
  have "process_lines arch (n - 1) emit (state_at n p s) (map km_line ys @ [''done'', []]) =
      Inr (True, state_at n (p + length ys) s')"
    using 2 process_km_lines [OF assms(1), of ys arch emit p s s' "[''done'', []]"] by simp
  then show ?case
    using "2.prems"(4) state_at_boundary [of "p + length ys" n s']
    by (subst read_loop.simps) simp
next
  case (3 ys zs yss)
  let ?rest = "concat (zs # yss)"
  from "3.prems"(3) obtain s1 where s1: "emit_all n emit p s ys = Inr s1"
    "emit_all n emit (p + length ys) s1 ?rest = Inr s'"
    by (auto simp: emit_all_append rbind_eq_Inr_iff)
  have "process_lines arch (n - 1) emit (state_at n p s) (map km_line ys @ [[]]) =
      Inr (False, state_at n (p + length ys) s1)"
    using "3.prems"(2) process_km_lines [OF assms(1) _ s1(1), of arch "[[]]"] by simp
  then show ?case
    using "3.IH" [OF _ _ s1(2)] "3.prems"(2,4)
    by (subst read_loop.simps) (simp add: add.assoc)
qed simp

lemma read_batches:
  assumes "0 < n" and "\<forall>yss \<in> set bs. yss \<noteq> [] \<and> concat yss \<noteq> [] \<and> length (concat yss) mod n = 0"
    and "\<forall>yss \<in> set bs. \<forall>x \<in> set (concat yss). readable arch x"
    and "emit_all n emit p s (concat (map concat bs)) = Inr s'" and "p mod n = 0"
    and "p + length (concat (map concat bs)) = n_reps * n"
  shows "read_loop n_reps (n - 1) arch emit False (state_at n p s) (concat (map km_batch bs) @ rest) =
     Some (Inr s', rest)"
  using assms(2-6)
proof (induction bs arbitrary: p s)
  case Nil
  then have "rep_id (state_at n p s) = n_reps"
    using assms(1) by (simp add: state_at_def slot_def)
  then show ?case using Nil by (subst read_loop.simps) (simp add: state_at_def)
next
  case (Cons yss bs)
  let ?q = "p + length (concat yss)"
  from Cons.prems(3) obtain s1 where s1: "emit_all n emit p s (concat yss) = Inr s1"
    "emit_all n emit ?q s1 (concat (map concat bs)) = Inr s'"
    by (auto simp: emit_all_append rbind_eq_Inr_iff)
  have q: "?q mod n = 0"
    using Cons.prems(1,4) by (simp add: mod_add_eq [symmetric])
  have "p < n_reps * n" using Cons.prems(1,5) by (cases "concat yss") auto
  then have "rep_id (state_at n p s) < n_reps"
    by (simp add: state_at_def slot_def less_mult_imp_div_less)
  then have "read_loop n_reps (n - 1) arch emit False (state_at n p s) (concat (map km_batch (yss # bs)) @ rest) =
      read_loop n_reps (n - 1) arch emit True (state_at n p s) (km_batch yss @ concat (map km_batch bs) @ rest)"
    using state_at_boundary [OF Cons.prems(4)] by (subst read_loop_start) simp_all
  also have "\<dots> = read_loop n_reps (n - 1) arch emit False (state_at n ?q s1) (concat (map km_batch bs) @ rest)"
    using Cons.prems(1,2) by (intro read_batch [OF assms(1) _ _ s1(1) q]) auto
  also have "\<dots> = Some (Inr s', rest)"
    using Cons.IH [OF _ _ s1(2) q] Cons.prems(1,2,5) by (simp add: add.assoc)
  finally show ?case .
qed

section \<open>The array of readings\<close>

definition pos :: "nat \<Rightarrow> nat \<Rightarrow> nat \<Rightarrow> nat" where
  "pos n i r = r * n + (n - 1 - i)"

lemma pos_eq_iff:
  assumes "i < n"
  shows "pos n i r = k \<longleftrightarrow> r = k div n \<and> i = n - 1 - k mod n"
proof
  assume k: "pos n i r = k"
  have *: "(r * n + d) div n = r" "(r * n + d) mod n = d" if "d < n" for d
    using that by simp_all
  have "k div n = r" "k mod n = n - 1 - i"
    using assms * [of "n - 1 - i"] unfolding k [symmetric] pos_def by simp_all
  then show "r = k div n \<and> i = n - 1 - k mod n" using assms by auto
next
  assume "r = k div n \<and> i = n - 1 - k mod n"
  moreover have "k mod n < n" using assms by simp
  ultimately show "pos n i r = k" by (simp add: pos_def)
qed

definition filled ::
  "nat \<Rightarrow> nat \<Rightarrow> RawHTraceSample list list \<Rightarrow> RawHTraceSample list \<Rightarrow> nat \<Rightarrow> RawHTraceSample list list" where
  "filled n R mem xs k =
     map (\<lambda>i. map (\<lambda>r. if pos n i r < k then xs ! pos n i r else mem ! i ! r) [0..<R]) [0..<n]"

lemma store_filled:
  assumes "0 < n" and "k < R * n"
  shows "store_reading (filled n R mem xs k) (fst (slot n k)) (snd (slot n k)) (line_ints (xs ! k)) =
     Inr (filled n R mem xs (Suc k))"
proof -
  let ?r = "k div n" and ?i = "n - 1 - k mod n"
  have i: "?i < n" using assms(1) by simp
  have r: "?r < R" using assms(2) by (simp add: less_mult_imp_div_less)
  let ?row = "map (\<lambda>r. if pos n ?i r < k then xs ! pos n ?i r else mem ! ?i ! r) [0..<R]"
  have row: "filled n R mem xs k ! ?i = ?row"
    using i by (simp add: filled_def)
  have "(filled n R mem xs k)[?i := ?row[?r := xs ! k]] = filled n R mem xs (Suc k)"
  proof (rule nth_equalityI)
    fix j assume "j < length ((filled n R mem xs k)[?i := ?row[?r := xs ! k]])"
    then have j: "j < n" by (simp add: filled_def)
    show "(filled n R mem xs k)[?i := ?row[?r := xs ! k]] ! j = filled n R mem xs (Suc k) ! j"
    proof (rule nth_equalityI)
      show "length ((filled n R mem xs k)[?i := ?row[?r := xs ! k]] ! j) = length (filled n R mem xs (Suc k) ! j)"
        using i j by (simp add: filled_def nth_list_update)
    next
      fix q assume "q < length ((filled n R mem xs k)[?i := ?row[?r := xs ! k]] ! j)"
      then have q: "q < R" using i j by (simp add: filled_def nth_list_update split: if_splits)
      show "(filled n R mem xs k)[?i := ?row[?r := xs ! k]] ! j ! q = filled n R mem xs (Suc k) ! j ! q"
        using i j q pos_eq_iff [OF j, of q k]
        by (cases "j = ?i"; cases "q = ?r") (auto simp: filled_def nth_list_update less_Suc_eq)
    qed
  qed (simp add: filled_def)
  moreover have "py_nth (filled n R mem xs k) (int ?i) = Inr ?row"
    using i row by (simp add: filled_def py_nth_nat)
  moreover have "py_set ?row (int ?r) (xs ! k) = Inr (?row[?r := xs ! k])"
    using r by (subst py_set_nat) simp_all
  ultimately show ?thesis
    by (simp only: store_reading_def slot_def fst_conv snd_conv sample_of_line_ints rbind_Inr)
qed

lemma emit_store:
  assumes "0 < n" and "length mem = n" and "\<forall>row \<in> set mem. length row = R" and "k \<le> length xs"
    and "length xs = R * n"
  shows "emit_all n store_reading 0 mem (take k xs) = Inr (filled n R mem xs k)"
  using assms(4)
proof (induction k)
  case 0
  have "filled n R mem xs 0 = mem"
    using assms(2,3) by (auto simp: filled_def map_nth_upt intro!: nth_equalityI)
  then show ?case by simp
next
  case (Suc k)
  then have "take (Suc k) xs = take k xs @ [xs ! k]" by (simp add: take_Suc_conv_app_nth)
  moreover have "length (take k xs) = k" using Suc.prems by simp
  moreover have "k < R * n" using Suc.prems assms(5) by simp
  ultimately show ?case
    using Suc store_filled [OF assms(1), of k R mem xs] by (simp add: emit_all_append)
qed

lemma filled_complete:
  assumes "0 < n"
  shows "filled n R mem xs (R * n) = map (\<lambda>i. map (\<lambda>r. xs ! pos n i r) [0..<R]) [0..<n]"
proof -
  have "pos n i r < R * n" if "i < n" "r < R" for i r
  proof -
    have "pos n i r < Suc r * n" using that(1) by (simp add: pos_def)
    also have "\<dots> \<le> R * n" using that(2) by (intro mult_le_mono1) simp
    finally show ?thesis .
  qed
  then show ?thesis by (simp add: filled_def)
qed

section \<open>Properties\<close>

text \<open>The outputs of the module for the samples \<open>xs\<close>: batches of whole repetitions, each split over reads.\<close>

definition km_outputs :: "nat \<Rightarrow> bool \<Rightarrow> RawHTraceSample list \<Rightarrow> RawHTraceSample list list list \<Rightarrow> bool" where
  "km_outputs n arch xs bs \<longleftrightarrow> concat (map concat bs) = xs \<and>
     (\<forall>yss \<in> set bs. yss \<noteq> [] \<and> concat yss \<noteq> [] \<and> length (concat yss) mod n = 0 \<and>
       (\<forall>x \<in> set (concat yss). readable arch x))"

lemma read_trace_complete_eq:
  assumes "0 < n" and "length mem = n" and "\<forall>row \<in> set mem. length row = R" and "length xs = R * n"
    and "km_outputs n arch xs bs"
  shows "read_trace R n arch store_reading mem (concat (map km_batch bs) @ rest) =
     Some (Inr (map (\<lambda>i. map (\<lambda>r. xs ! pos n i r) [0..<R]) [0..<n]), rest)"
proof -
  have emit: "emit_all n store_reading 0 mem (concat (map concat bs)) = Inr (filled n R mem xs (R * n))"
    using emit_store [OF assms(1-3), of "R * n" xs] assms(4,5) by (simp add: km_outputs_def)
  have "\<lparr>rep_id = 0, cur_input = n - 1, consumed = mem\<rparr> = state_at n 0 mem"
    by (simp add: state_at_def slot_def)
  moreover have "read_loop R (n - 1) arch store_reading False (state_at n 0 mem) (concat (map km_batch bs) @ rest) =
      Some (Inr (filled n R mem xs (R * n)), rest)"
    by (rule read_batches [OF assms(1) _ _ emit]) (use assms(4,5) in \<open>auto simp: km_outputs_def\<close>)
  ultimately show ?thesis
    using assms(1) by (simp add: read_trace_def filled_complete)
qed

lemma trace_test_case_complete:
  assumes "inputs \<noteq> []" and "card (ignore_list X) < length inputs"
    and "save_input_sequence_as_rdbf (if n_reps mod 5 \<noteq> 0 \<or> length inputs \<ge> 1000 then inputs
           else concat (replicate 5 inputs)) = Inr bytes" and "accept bytes"
    and "length mem = length inputs" and "\<forall>row \<in> set mem. length row = n_reps"
    and "length xs = n_reps * length inputs"
    and "km_outputs (length inputs) (enable_mismatch_check_mode X) xs bs"
  shows "trace_test_case H accept mode X st mem inputs n_reps (concat (map km_batch bs) @ rest) =
     Some (Inr (map (\<lambda>i. trace_of_row H X mode (i, map (\<lambda>r. xs ! pos (length inputs) i r) [0..<n_reps]))
                  [0..<length inputs],
                st\<lparr>executor_reruns := executor_reruns st + n_reps * length inputs\<rparr>), rest)"
proof -
  let ?n = "length inputs"
  let ?rows = "map (\<lambda>i. map (\<lambda>r. xs ! pos ?n i r) [0..<n_reps]) [0..<?n]"
  have "0 < ?n" using assms(1) by simp
  from read_trace_complete_eq [OF this assms(5-8)] have
    read: "read_trace n_reps ?n (enable_mismatch_check_mode X) store_reading mem (concat (map km_batch bs) @ rest) =
      Some (Inr ?rows, rest)" .
  have rows: "raw_readings_to_traces H X mode ?rows ?n =
      map (\<lambda>i. trace_of_row H X mode (i, map (\<lambda>r. xs ! pos ?n i r) [0..<n_reps])) [0..<?n]"
    unfolding raw_readings_to_traces_def by (intro nth_equalityI) (simp_all add: nth_enumerate_eq)
  show ?thesis
    using assms(1-4) by (simp only: trace_test_case_def Let_def read) (simp add: rows)
qed

text \<open>
  C20: Reading the measurements terminates and is correct for every way the module batches and splits
  its output: each of the \<open>n_reps\<close> samples of each input ends up in the hardware trace of that input, in
  the order of the repetitions, and nothing of the following output is consumed. Ignored inputs get
  the invalid trace.
\<close>

theorem trace_test_case_reads_all:
  assumes "inputs \<noteq> []" and "card (ignore_list X) < length inputs"
    and "save_input_sequence_as_rdbf (if n_reps mod 5 \<noteq> 0 \<or> length inputs \<ge> 1000 then inputs
           else concat (replicate 5 inputs)) = Inr bytes" and "accept bytes"
    and "length mem = length inputs" and "\<forall>row \<in> set mem. length row = n_reps"
    and "length xs = n_reps * length inputs"
    and "km_outputs (length inputs) (enable_mismatch_check_mode X) xs bs"
  shows "trace_test_case H accept mode X st mem inputs n_reps (concat (map km_batch bs) @ rest) =
     Some (Inr (map (\<lambda>i. trace_of_row H X mode (i, map (\<lambda>r. xs ! pos (length inputs) i r) [0..<n_reps]))
                  [0..<length inputs],
                st\<lparr>executor_reruns := executor_reruns st + n_reps * length inputs\<rparr>), rest)"
  using assms by (rule trace_test_case_complete)

definition demo_input :: InputData where
  "demo_input = \<lparr>actors = [actor_view (replicate 1536 1)], seed = 0\<rparr>"

definition demo_sample :: "u64 \<Rightarrow> RawHTraceSample" where
  "demo_sample w = \<lparr>smp_trace = w, pfc0 = 0, pfc1 = 0, pfc2 = 0, pfc3 = 0, pfc4 = 0\<rparr>"

lemma demo_input_rdbf: "\<exists>bytes. save_input_sequence_as_rdbf [demo_input, demo_input] = Inr bytes"
  by (simp add: demo_input_def save_input_sequence_as_rdbf_def Let_def n_actors_of_def to_bytes8_def to_bytes_def
      layout_simps)

theorem trace_test_case_reads_all_witness:
  "trace_test_case plain_hashing (\<lambda>_. True) ''P+P'' (Executor_init False :: nat Executor) FuzzingStats_init
     [[demo_sample 0], [demo_sample 0]] [demo_input, demo_input] 1
     [[km_line (demo_sample 4), []], [km_line (demo_sample 8), ''done'', []]] =
   Some (Inr ([HTrace_init plain_hashing [demo_sample 8] HT_cache, HTrace_init plain_hashing [demo_sample 4] HT_cache],
     FuzzingStats_init\<lparr>executor_reruns := 2\<rparr>), [])"
proof -
  obtain bytes where bytes: "save_input_sequence_as_rdbf [demo_input, demo_input] = Inr bytes"
    using demo_input_rdbf by blast
  let ?bs = "[[[demo_sample 4], [demo_sample 8]]]"
  have "km_outputs 2 False [demo_sample 4, demo_sample 8] ?bs"
    by (simp add: km_outputs_def readable_def demo_sample_def)
  then show ?thesis
    using trace_test_case_reads_all [of "[demo_input, demo_input]" "Executor_init False :: nat Executor" 1 bytes
        "\<lambda>_. True" "[[demo_sample 0], [demo_sample 0]]" "[demo_sample 4, demo_sample 8]" ?bs plain_hashing "''P+P''"
        FuzzingStats_init "[]"] bytes
    by (simp add: Executor_init_def trace_of_row_def identify_trace_type_def Let_def pos_def FuzzingStats_init_def
        numeral_2_eq_2)
qed

text \<open>What a violation of the analyser may contain.\<close>

lemma set_all_hw_classes_measurements:
  "set_all_hw_classes eq c es = Inr (es', c') \<Longrightarrow> map eq_measurements es' = map eq_measurements es"
proof (induction es arbitrary: c es')
  case (Cons e es)
  then obtain hw c1 e' es1 where "set_hw_classes e hw = Inr e'" "set_all_hw_classes eq c1 es = Inr (es1, c')"
    "es' = e' # es1" by (auto simp: rbind_eq_Inr_iff)
  then show ?case using Cons.IH by (auto simp: set_hw_classes_def py_assert_eq_Inr_iff)
qed simp

lemma collect_violations_measurements:
  "collect_violations es inputs tc = Inr vs \<Longrightarrow> v \<in> set vs \<Longrightarrow>
     eq_measurements (viol_class v) \<in> set (map eq_measurements es)"
proof (induction es arbitrary: vs)
  case (Cons e es)
  have init: "eq_measurements e' = ms" if "ContractEqClass_init ms = Inr e'" for ms and e' :: "'a ContractEqClass"
    using that by (auto simp: ContractEqClass_init_def py_assert_eq_Inr_iff split: list.splits)
  have "eq_measurements (viol_class w) = eq_measurements e" if "from_contract_eq_class e inputs tc = Inr w" for w
    using that by (auto simp: from_contract_eq_class_def Violation_init_def set_hw_classes_def rbind_eq_Inr_iff
        py_assert_eq_Inr_iff dest!: init)
  with Cons show ?case
    by (fastforce simp: rbind_eq_Inr_iff split: if_splits)
qed simp

lemma filter_violations_members:
  assumes "filter_violations eq c st ctraces htraces tc inputs upd = Inr (vs, c', st')"
    and "v \<in> set vs" and "m \<in> set (eq_measurements (viol_class v))"
  shows "input_id m < length htraces \<and> usable (htraces ! input_id m)"
proof -
  from assms(1,2) obtain ms es' where
    ms: "collect_measurements ctraces htraces inputs = Inr ms"
    and hw: "set_all_hw_classes eq c (effective_classes ms) = Inr (es', c')"
    and vs0: "collect_violations es' inputs tc = Inr vs"
    by (auto simp: filter_violations_def rbind_eq_Inr_iff build_contract_classes_eq effective_classes_def [symmetric]
        split: if_splits prod.splits)
  have "eq_measurements (viol_class v) \<in> set (map eq_measurements (effective_classes ms))"
    using collect_violations_measurements [OF vs0 assms(2)] set_all_hw_classes_measurements [OF hw] by simp
  then have "m \<in> set ms"
    using assms(3) by (auto simp: effective_classes_member contract_class_def with_chash_def)
  then obtain i h where ih: "(i, h) \<in> set (enumerate 0 htraces)" "measurement_of ctraces inputs (i, h) = Inr (Some m)"
    using ms unfolding collect_measurements_def
    by (auto simp: rbind_eq_Inr_iff rmapM_ok_iff List.map_filter_def)
       (metis (no_types, lifting) image_iff list.set_map old.prod.exhaust option.exhaust_sel)
  then have "i < length htraces" "h = htraces ! i" by (auto simp: in_set_enumerate_eq)
  with ih(2) show ?thesis
    by (auto simp: measurement_of_def usable_def rbind_eq_Inr_iff split: if_splits)
qed

text \<open>
  Inputs on the ignore list of the executor never take part in a violation, whatever the analyser:
  their traces are replaced by the invalid trace, which the analyser drops.
\<close>

theorem ignored_inputs_not_reported:
  assumes "htraces = raw_readings_to_traces H X mode rows n" and "\<not> enable_mismatch_check_mode X"
    and "filter_violations eq c st ctraces htraces tc inputs upd = Inr (vs, c', st')"
    and "v \<in> set vs" and "m \<in> set (eq_measurements (viol_class v))"
  shows "input_id m \<notin> ignore_list X"
proof
  assume ign: "input_id m \<in> ignore_list X"
  from filter_violations_members [OF assms(3-5)] have i: "input_id m < length htraces"
    and u: "usable (htraces ! input_id m)" by simp_all
  have "htraces ! input_id m = HTrace_invalid H (identify_trace_type X mode)"
    using i ign assms(2) unfolding assms(1)
    by (simp add: raw_readings_to_traces_def nth_enumerate_eq trace_of_row_def Let_def)
  then show False
    using u by (simp add: usable_def is_corrupted_or_ignored_def HTrace_invalid_def HTrace_init_def zero_sample_def)
qed

text \<open>Two of three inputs leak; the second is ignored.\<close>

definition demo_executor :: "nat Executor" where
  "demo_executor = set_ignore_list (Executor_init False) [1]"

definition demo_traces :: "HTrace list" where
  "demo_traces = raw_readings_to_traces demo_hashing demo_executor ''P+P''
     [[demo_sample 1], [demo_sample 2], [demo_sample 4]] 3"

lemma demo_traces_eq:
  "demo_traces = [demo_htrace 1, HTrace_invalid demo_hashing HT_cache, demo_htrace 4]"
  by (simp add: demo_traces_def raw_readings_to_traces_def trace_of_row_def demo_executor_def set_ignore_list_def
      Executor_init_def identify_trace_type_def demo_htrace_def demo_sample_def zero_sample_def numeral_3_eq_3)

lemma demo_traces_ok: "round_ok MergedBitmapAnalyser demo_tests demo_conf demo_hashing demo_traces"
proof -
  have u: "usable (demo_htrace w) \<longleftrightarrow> w \<noteq> 0" "\<not> usable (HTrace_invalid H ty)" for w H ty
    by (simp_all add: usable_def demo_htrace_def htrace_is_empty_def htrace_len_def is_corrupted_or_ignored_def
        HTrace_init_def HTrace_invalid_def zero_sample_def)
  have raw: "get_raw_traces (demo_htrace w) = [w]" "ht_hash (demo_htrace w) = unat w" for w
    by (simp_all add: demo_htrace_def get_raw_traces_def HTrace_init_def demo_hashing_def)
  show ?thesis
    by (auto simp: demo_traces_eq round_ok_def samples_ok_def u raw demo_hashing_def inj_on_def equiv_raw_def
        bitmaps_equivalent_def demo_conf_def)
qed

theorem ignored_inputs_not_reported_witness:
  "\<exists>vs c st'. filter_violations (htraces_are_equivalent MergedBitmapAnalyser demo_tests demo_conf) []
      FuzzingStats_init (replicate 3 (CTrace_empty demo_hashing)) demo_traces 0 [7, 8, 9 :: nat] True =
      Inr (vs :: (nat, nat) Violation list, c, st') \<and>
    (\<forall>v \<in> set vs. \<forall>m \<in> set (eq_measurements (viol_class v)). input_id m \<noteq> 1)"
proof -
  have len: "length demo_traces \<le> length (replicate 3 (CTrace_empty demo_hashing))"
    "length demo_traces \<le> length [7, 8, 9 :: nat]"
    by (simp_all add: demo_traces_eq)
  obtain vs :: "(nat, nat) Violation list" and c st' where run:
    "filter_violations (htraces_are_equivalent MergedBitmapAnalyser demo_tests demo_conf) []
      FuzzingStats_init (replicate 3 (CTrace_empty demo_hashing)) demo_traces 0 [7, 8, 9 :: nat] True =
      Inr (vs, c, st')"
    using filter_violations_round [OF demo_traces_ok len, of FuzzingStats_init 0 True] by blast
  have "\<not> enable_mismatch_check_mode demo_executor" "1 \<in> ignore_list demo_executor"
    by (simp_all add: demo_executor_def set_ignore_list_def Executor_init_def)
  then have "input_id m \<noteq> 1" if "v \<in> set vs" "m \<in> set (eq_measurements (viol_class v))" for v m
    using ignored_inputs_not_reported [OF demo_traces_def _ run that] by auto
  then show ?thesis using run by blast
qed

text \<open>
  The executor skips a measurement as soon as the ignore list has as many elements as there are
  inputs, also when the listed identifiers are not those of the inputs: then no input is measured and
  every returned trace is empty, so that no violation can be found.
\<close>

theorem ignore_list_compared_by_size:
  assumes "length inputs \<le> card (ignore_list X)" and "inputs \<noteq> []"
  shows "\<exists>htraces. trace_test_case H accept mode X st mem inputs n_reps outs = Some (Inr (htraces, st), outs) \<and>
     length htraces = length inputs \<and> (\<forall>h \<in> set htraces. htrace_is_empty h) \<and>
     (\<forall>eq c ctraces. \<exists>c' st'. filter_violations eq c st ctraces htraces tc inputs upd = Inr ([], c', st'))"
proof -
  let ?hs = "replicate (length inputs) (HTrace_empty H HT_cache)"
  have e: "htrace_is_empty (HTrace_empty H HT_cache)"
    by (simp add: htrace_is_empty_def htrace_len_def HTrace_empty_def HTrace_init_def)
  have "trace_test_case H accept mode X st mem inputs n_reps outs = Some (Inr (?hs, st), outs)"
    using assms by (simp add: trace_test_case_def Let_def)
  moreover have "collect_measurements ctraces ?hs inputs = Inr []" for ctraces
  proof -
    have "rmapM (measurement_of ctraces inputs) (enumerate 0 ?hs) = Inr (map (\<lambda>_. None) (enumerate 0 ?hs))"
      by (rule rmapM_cong_Inr) (auto simp: measurement_of_def e in_set_enumerate_eq)
    then show ?thesis
      by (simp add: collect_measurements_def List.map_filter_def filter_empty_conv)
  qed
  then have "\<exists>c' st'. filter_violations eq c st ctraces ?hs tc inputs upd = Inr ([], c', st')" for eq c ctraces
    by (simp add: filter_violations_def)
  ultimately show ?thesis using e by (intro exI [of _ ?hs]) auto
qed

theorem ignore_list_compared_by_size_witness:
  "0 \<notin> ignore_list (set_ignore_list (Executor_init False :: nat Executor) [5, 6]) \<and>
   (\<exists>htraces. trace_test_case plain_hashing (\<lambda>_. True) ''P+P'' (set_ignore_list (Executor_init False :: nat Executor) [5, 6])
      FuzzingStats_init [] [demo_input, demo_input] 1 [] = Some (Inr (htraces, FuzzingStats_init), []) \<and>
      length htraces = 2)"
proof -
  let ?X = "set_ignore_list (Executor_init False :: nat Executor) [5, 6]"
  have "length [demo_input, demo_input] \<le> card (ignore_list ?X)" "0 \<notin> ignore_list ?X"
    by (simp_all add: set_ignore_list_def)
  then show ?thesis
    using ignore_list_compared_by_size [of "[demo_input, demo_input]" ?X plain_hashing "\<lambda>_. True" "''P+P''"
        FuzzingStats_init "[]" 1 "[]" "0 :: nat" True]
    by (auto simp del: One_nat_def)
qed

end
