(* ===== verification/TaintTracker.thy ===== *)
theory TaintTracker
  imports Instruction TestCaseData
begin

text \<open>
  Model of \<^verbatim>\<open>rvzr/model_unicorn/taint_tracker.py\<close>: the tracker that computes which parts of an input
  influence the contract trace. The tables of the target (names, sizes and numbers of registers) and
  the iteration order of a set are parameters. Addresses are offsets that fit into 64 bits.
\<close>

record taint_target =
  reg_normalized :: "string \<Rightarrow> string option"
  register_sizes :: "string \<Rightarrow> nat option"
  reg_norm_to_constant :: "string \<Rightarrow> nat option"
  usable_registers :: "nat list"
  usable_simd128_registers :: "nat list"
  label_order :: "string set \<Rightarrow> string list"

section \<open>The tracked instruction\<close>

record TrackedInstruction =
  ti_inst :: Instruction
  src_regs :: "string set"
  dest_regs :: "string set"
  src_flags :: "string set"
  dest_flags :: "string set"
  src_mems :: "string set"
  dest_mems :: "string set"
  mem_address_regs :: "string set"

definition TrackedInstruction_init :: "Instruction \<Rightarrow> TrackedInstruction" where
  "TrackedInstruction_init i = \<lparr>ti_inst = i, src_regs = {}, dest_regs = {}, src_flags = {}, dest_flags = {},
     src_mems = {}, dest_mems = {}, mem_address_regs = {}\<rparr>"

text \<open>\<^verbatim>\<open>re.split\<close> at plus, minus, star and space; the pieces that name a register.\<close>

definition address_regs :: "taint_target \<Rightarrow> string \<Rightarrow> string set" where
  "address_regs T v =
     set (List.map_filter (\<lambda>sub_op. if sub_op = [] then None else reg_normalized T sub_op)
       (split_on (\<lambda>c. c \<in> {CHR ''+'', CHR ''-'', CHR ''*'', CHR '' ''}) v))"

definition parse_operand :: "taint_target \<Rightarrow> TrackedInstruction \<Rightarrow> Operand \<Rightarrow> TrackedInstruction res" where
  "parse_operand T ti o1 =
     (case op_class o1 of
        RegisterOp _ \<Rightarrow> (case reg_normalized T (op_value o1) of
            None \<Rightarrow> raise KeyError
          | Some v \<Rightarrow> ok (ti\<lparr>src_regs := (if op_src o1 then insert v (src_regs ti) else src_regs ti),
                          dest_regs := (if op_dest o1 then insert v (dest_regs ti) else dest_regs ti)\<rparr>))
      | FlagsOp vals \<Rightarrow> ok (ti\<lparr>src_flags := set (get_flags_by_type vals Q_read) \<union> set (get_flags_by_type vals Q_undef),
                              dest_flags := set (get_flags_by_type vals Q_write)\<rparr>)
      | MemoryOp _ \<Rightarrow> ok (ti\<lparr>mem_address_regs := mem_address_regs ti \<union> address_regs T (op_value o1)\<rparr>)
      | AgenOp _ \<Rightarrow> ok (ti\<lparr>src_regs := src_regs ti \<union> address_regs T (op_value o1)\<rparr>)
      | ImmediateOp _ \<Rightarrow> ok ti
      | LabelOp \<Rightarrow> ok ti
      | CondOp \<Rightarrow> ok ti)"

definition parse_static_operands :: "taint_target \<Rightarrow> TrackedInstruction \<Rightarrow> TrackedInstruction res" where
  "parse_static_operands T ti = rfold (parse_operand T) ti (get_all_operands (ti_inst ti))"

section \<open>Dependencies\<close>

record Dependencies =
  dep_reg :: "string \<Rightarrow> string set option"
  dep_flag :: "string \<Rightarrow> string set option"
  dep_mem :: "string \<Rightarrow> string set option"

definition Dependencies_init :: Dependencies where
  "Dependencies_init = \<lparr>dep_reg = Map.empty, dep_flag = Map.empty, dep_mem = Map.empty\<rparr>"

text \<open>\<^verbatim>\<open>d.get(label, {label})\<close>.\<close>

definition deps_get :: "(string \<Rightarrow> string set option) \<Rightarrow> string \<Rightarrow> string set" where
  "deps_get d l = (case d l of None \<Rightarrow> {l} | Some S \<Rightarrow> S)"

definition src_dependencies :: "Dependencies \<Rightarrow> TrackedInstruction \<Rightarrow> string set" where
  "src_dependencies D ti =
     (\<Union>r \<in> src_regs ti. deps_get (dep_reg D) r) \<union> (\<Union>f \<in> src_flags ti. deps_get (dep_flag D) f) \<union>
     (\<Union>a \<in> src_mems ti. deps_get (dep_mem D) a)"

text \<open>The loop over the destinations of one kind.\<close>

definition propagate :: "string set \<Rightarrow> string set \<Rightarrow> (string \<Rightarrow> string set option) \<Rightarrow> string \<Rightarrow> string set option" where
  "propagate src dests d = (\<lambda>l. if l \<in> dests
     then (case d l of Some S \<Rightarrow> Some (S \<union> src) | None \<Rightarrow> Some (insert l src)) else d l)"

definition add_dependencies :: "Dependencies \<Rightarrow> TrackedInstruction \<Rightarrow> Dependencies" where
  "add_dependencies D ti =
     (let src = src_dependencies D ti
      in \<lparr>dep_reg = propagate src (dest_regs ti) (dep_reg D),
          dep_flag = propagate src (dest_flags ti) (dep_flag D),
          dep_mem = propagate src (dest_mems ti) (dep_mem D)\<rparr>)"

text \<open>Only 64-bit moves and address computations with one destination forget the old dependencies.\<close>

definition overrides :: "taint_target \<Rightarrow> TrackedInstruction \<Rightarrow> bool res" where
  "overrides T ti =
     (let inst_name = lower (i_name (ti_inst ti))
      in if (starts_with inst_name ''mov'' \<or> inst_name = ''lea'') \<and> card (dest_regs ti) = 1
         then (case get_reg_operands (ti_inst ti) True of
             [] \<Rightarrow> raise IndexError
           | o1 # _ \<Rightarrow> ok ((case register_sizes T (op_value o1) of None \<Rightarrow> 0 | Some n \<Rightarrow> n) = 64))
         else ok False)"

text \<open>\<open>src\<close> is the set remembered by \<^verbatim>\<open>add_dependencies\<close>; the single destination is \<open>the_elem\<close> of the set.\<close>

definition remove_overwritten_dependencies ::
  "taint_target \<Rightarrow> Dependencies \<Rightarrow> string set \<Rightarrow> TrackedInstruction \<Rightarrow> Dependencies res" where
  "remove_overwritten_dependencies T D src ti =
     rbind (overrides T ti) (\<lambda>override.
       if \<not> override then ok D
       else (let r = the_elem (dest_regs ti)
             in case dep_reg D r of
                  None \<Rightarrow> raise KeyError
                | Some S \<Rightarrow> ok (D\<lparr>dep_reg := (dep_reg D)(r \<mapsto> S \<inter> src)\<rparr>)))"

section \<open>The tracker\<close>

record TaintTracker =
  enable_tracking :: bool
  tracking_in_progress :: bool
  initial_observations :: "string list"
  data_start :: int
  tt_checkpoints :: "Dependencies list"
  tainted_labels :: "string set"
  pending_taint :: "string set"
  tt_instruction :: "TrackedInstruction option"
  dependencies :: Dependencies

definition ARCH_INITIAL_OBSERVATIONS_X86_64 :: "string list" where
  "ARCH_INITIAL_OBSERVATIONS_X86_64 =
     [''A'', ''B'', ''C'', ''D'', ''SI'', ''DI'', ''RSP'', ''CF'', ''PF'', ''AF'', ''ZF'', ''SF'', ''TF'', ''IF'',
      ''DF'', ''OF'', ''AC'']"

definition ARCH_INITIAL_OBSERVATIONS_ARM64 :: "string list" where
  "ARCH_INITIAL_OBSERVATIONS_ARM64 =
     [''R0'', ''R1'', ''R2'', ''R3'', ''R4'', ''R5'', ''N'', ''Z'', ''C'', ''V'']"

definition reset :: "TaintTracker \<Rightarrow> TaintTracker" where
  "reset t = t\<lparr>tt_checkpoints := [], tainted_labels := set (initial_observations t), pending_taint := {},
     tt_instruction := None, dependencies := Dependencies_init, tracking_in_progress := True\<rparr>"

definition TaintTracker_init :: "string \<Rightarrow> string \<Rightarrow> int \<Rightarrow> TaintTracker res" where
  "TaintTracker_init instruction_set observation_clause data_base =
     py_assert (instruction_set = ''x86-64'' \<or> instruction_set = ''arm64'')
       (let initial = (if observation_clause = ''ctr'' \<or> observation_clause = ''arch''
              then (if instruction_set = ''x86-64'' then ARCH_INITIAL_OBSERVATIONS_X86_64
                    else ARCH_INITIAL_OBSERVATIONS_ARM64)
              else [])
        in ok ((reset \<lparr>enable_tracking = True, tracking_in_progress = False, initial_observations = initial,
             data_start = data_base, tt_checkpoints = [], tainted_labels = {}, pending_taint = {},
             tt_instruction = None, dependencies = Dependencies_init\<rparr>)\<lparr>tracking_in_progress := False\<rparr>))"

definition set_enable_tracking :: "TaintTracker \<Rightarrow> bool \<Rightarrow> TaintTracker res" where
  "set_enable_tracking t enable = py_assert (\<not> tracking_in_progress t) (ok (t\<lparr>enable_tracking := enable\<rparr>))"

definition label_deps :: "Dependencies \<Rightarrow> string \<Rightarrow> string set" where
  "label_deps D l = (if starts_with l ''0x'' then deps_get (dep_mem D) l else deps_get (dep_reg D) l)"

definition finalize_instruction :: "taint_target \<Rightarrow> TaintTracker \<Rightarrow> TaintTracker res" where
  "finalize_instruction T t =
     (case tt_instruction t of
        None \<Rightarrow> raise AssertionError
      | Some ti \<Rightarrow>
          (let inst_name = lower (i_name (ti_inst ti));
               src = src_dependencies (dependencies t) ti;
               D = add_dependencies (dependencies t) ti;
               pending = (if pending_taint t \<noteq> {} \<and> contains inst_name ''rep'' \<and> ''C'' \<in> src_regs ti
                          then insert ''C'' (pending_taint t) else pending_taint t);
               labels = tainted_labels t \<union> (\<Union>l \<in> pending. label_deps D l)
           in rbind (remove_overwritten_dependencies T D src ti)
                (\<lambda>D'. ok (t\<lparr>tainted_labels := labels, pending_taint := pending, dependencies := D',
                         tt_instruction := None\<rparr>))))"

definition finish :: "taint_target \<Rightarrow> TaintTracker \<Rightarrow> TaintTracker res" where
  "finish T t = (if tt_instruction t = None then ok t else finalize_instruction T t)"

definition checkpoint :: "taint_target \<Rightarrow> bool \<Rightarrow> TaintTracker \<Rightarrow> TaintTracker res" where
  "checkpoint T include_current_inst t =
     (if \<not> enable_tracking t then ok t
      else rbind (if include_current_inst then finish T t else ok t)
        (\<lambda>t'. ok (t'\<lparr>tt_checkpoints := dependencies t' # tt_checkpoints t'\<rparr>)))"

definition rollback :: "taint_target \<Rightarrow> TaintTracker \<Rightarrow> TaintTracker res" where
  "rollback T t =
     (if \<not> enable_tracking t then ok t
      else (case tt_checkpoints t of
          [] \<Rightarrow> raise AssertionError
        | _ \<Rightarrow> rbind (finish T t) (\<lambda>t'.
            ok (t'\<lparr>dependencies := hd (tt_checkpoints t'), tt_checkpoints := tl (tt_checkpoints t')\<rparr>))))"

definition overwritten_flags :: "Instruction \<Rightarrow> string set" where
  "overwritten_flags i =
     (case get_flags_operand i of
        None \<Rightarrow> {}
      | Some o1 \<Rightarrow> (case op_class o1 of
            FlagsOp vals \<Rightarrow> set (get_flags_by_type vals Q_overwrite) | _ \<Rightarrow> {}))"

definition track_instruction :: "taint_target \<Rightarrow> Instruction \<Rightarrow> TaintTracker \<Rightarrow> TaintTracker res" where
  "track_instruction T i t =
     (if \<not> enable_tracking t then ok t
      else rbind (finish T t) (\<lambda>t'.
           rbind (parse_static_operands T (TrackedInstruction_init i)) (\<lambda>ti.
             ok (t'\<lparr>tt_instruction := Some ti, pending_taint := {},
                dependencies := (dependencies t')\<lparr>dep_flag := (\<lambda>f. if f \<in> overwritten_flags i then Some {f}
                   else dep_flag (dependencies t') f)\<rparr>\<rparr>))))"

text \<open>The eight-byte cells of an access.\<close>

definition mask8 :: "int \<Rightarrow> nat" where
  "mask8 a = nat (a mod 2 ^ 64) div 8 * 8"

definition cells :: "int \<Rightarrow> nat \<Rightarrow> string set" where
  "cells offset sz =
     set (map (\<lambda>k. hex (mask8 offset + 8 * k))
       [0..<(mask8 (offset + (int sz - 1)) + 8 - mask8 offset) div 8])"

definition track_memory_access :: "int \<Rightarrow> nat \<Rightarrow> bool \<Rightarrow> TaintTracker \<Rightarrow> TaintTracker res" where
  "track_memory_access address sz is_write t =
     (if \<not> enable_tracking t then ok t
      else (case tt_instruction t of
          None \<Rightarrow> raise AssertionError
        | Some ti \<Rightarrow>
            (let cs = cells (address - data_start t) sz
             in ok (t\<lparr>tt_instruction := Some
                  (if is_write then ti\<lparr>dest_mems := dest_mems ti \<union> cs\<rparr>
                   else ti\<lparr>src_mems := src_mems ti \<union> cs\<rparr>)\<rparr>))))"

datatype tainted_value_type = TV_pc | TV_mem | TV_ld_val

definition exposed :: "TrackedInstruction \<Rightarrow> tainted_value_type \<Rightarrow> string set" where
  "exposed ti v =
     (case v of
        TV_pc \<Rightarrow> (if is_control_flow (ti_inst ti) then {''RIP''} else {})
      | TV_mem \<Rightarrow> mem_address_regs ti
      | TV_ld_val \<Rightarrow> src_mems ti)"

definition taint :: "tainted_value_type \<Rightarrow> TaintTracker \<Rightarrow> TaintTracker" where
  "taint v t =
     (if \<not> enable_tracking t then t
      else (case tt_instruction t of
          None \<Rightarrow> t
        | Some ti \<Rightarrow> t\<lparr>pending_taint := pending_taint t \<union> exposed ti v\<rparr>))"

definition taint_actors :: "nat list \<Rightarrow> TaintTracker \<Rightarrow> TaintTracker" where
  "taint_actors actor_ids t =
     t\<lparr>tainted_labels := tainted_labels t \<union>
        set (concat (map (\<lambda>a. map (\<lambda>k. hex (a * nat data_size_per_actor + 8 * k)) [0..<nat data_size_per_actor div 8])
          actor_ids))\<rparr>"

section \<open>The resulting taint\<close>

text \<open>The sandbox addresses of a label; registers are those of the main actor.\<close>

definition index_of :: "'a list \<Rightarrow> 'a \<Rightarrow> nat" where
  "index_of xs x = length (takeWhile (\<lambda>y. y \<noteq> x) xs)"

definition label_addresses :: "taint_target \<Rightarrow> string \<Rightarrow> int list res" where
  "label_addresses T l =
     (if starts_with l ''0x'' then rbind (int_of_hex l) (\<lambda>n. ok [int n])
      else rbind (data_area_offset DA_GPR) (\<lambda>register_start.
           rbind (data_area_offset DA_SIMD) (\<lambda>simd_start.
           (case reg_norm_to_constant T l of
              None \<Rightarrow> raise KeyError
            | Some r \<Rightarrow>
                if r \<in> set (usable_registers T) then ok [register_start + int (index_of (usable_registers T) r) * 8]
                else if r \<in> set (usable_simd128_registers T)
                then (let a = simd_start + int (index_of (usable_simd128_registers T) r) * 16 in ok [a, a + 1])
                else ok []))))"

definition actor_taints :: "int list \<Rightarrow> nat \<Rightarrow> int list" where
  "actor_taints offsets actor_id =
     (let s = int actor_id * int per_actor_taint_size; e = (int actor_id + 1) * int per_actor_taint_size
      in map (\<lambda>pos. pos - s) (filter (\<lambda>pos. s \<le> pos \<and> pos < e) offsets))"

definition get_taint :: "taint_target \<Rightarrow> TaintTracker \<Rightarrow> nat \<Rightarrow> (InputTaint \<times> TaintTracker) res" where
  "get_taint T t n_actors =
     (if \<not> enable_tracking t then ok (InputTaint_new n_actors, t\<lparr>tracking_in_progress := False\<rparr>)
      else rbind (finish T t) (\<lambda>t'.
           rbind (rmapM (label_addresses T) (label_order T (tainted_labels t'))) (\<lambda>addrs.
           rbind (rmapM taint_offset_from_sandbox_address (sort (concat addrs))) (\<lambda>offsets.
           rbind (rfold (\<lambda>tn a. taint_actor_offsets tn a (actor_taints offsets a)) (InputTaint_new n_actors)
                    [0..<n_actors]) (\<lambda>tn.
             ok (tn, t'\<lparr>tracking_in_progress := False\<rparr>))))))"

section \<open>Machine states\<close>

text \<open>
  The semantic side: a machine state gives a value to every register, flag and memory cell. A label
  names a register, a flag and a cell at once; two states agree on a set of labels when they agree on
  everything the labels name.
\<close>

datatype loc = LReg string | LFlag string | LMem string

fun loc_name :: "loc \<Rightarrow> string" where
  "loc_name (LReg s) = s" | "loc_name (LFlag s) = s" | "loc_name (LMem s) = s"

type_synonym 'v mstate = "loc \<Rightarrow> 'v"

definition agree :: "'v mstate \<Rightarrow> 'v mstate \<Rightarrow> string set \<Rightarrow> bool" where
  "agree a b S \<longleftrightarrow> (\<forall>l. loc_name l \<in> S \<longrightarrow> a l = b l)"

fun loc_deps :: "Dependencies \<Rightarrow> loc \<Rightarrow> string set" where
  "loc_deps D (LReg s) = deps_get (dep_reg D) s"
| "loc_deps D (LFlag s) = deps_get (dep_flag D) s"
| "loc_deps D (LMem s) = deps_get (dep_mem D) s"

definition label_loc :: "string \<Rightarrow> loc" where
  "label_loc l = (if starts_with l ''0x'' then LMem l else LReg l)"

definition sources :: "TrackedInstruction \<Rightarrow> loc set" where
  "sources ti = LReg ` src_regs ti \<union> LFlag ` src_flags ti \<union> LMem ` src_mems ti"

definition destinations :: "TrackedInstruction \<Rightarrow> loc set" where
  "destinations ti = LReg ` dest_regs ti \<union> LFlag ` dest_flags ti \<union> LMem ` dest_mems ti"

text \<open>The destinations whose old value the tracker assumes to be irrelevant.\<close>

definition overwritten :: "taint_target \<Rightarrow> TrackedInstruction \<Rightarrow> loc set" where
  "overwritten T ti = LFlag ` overwritten_flags (ti_inst ti) \<union>
     (if overrides T ti = Inr True then LReg ` dest_regs ti else {})"

text \<open>
  An instruction behaves as its description says: it changes its destinations only, and their new
  values are determined by the sources and, unless overwritten, their old values.
\<close>

definition described_by :: "taint_target \<Rightarrow> TrackedInstruction \<Rightarrow> ('v mstate \<Rightarrow> 'v mstate) \<Rightarrow> bool" where
  "described_by T ti f \<longleftrightarrow>
     (\<forall>s l. l \<notin> destinations ti \<longrightarrow> f s l = s l) \<and>
     (\<forall>s s' l. l \<in> destinations ti \<and> (\<forall>k \<in> sources ti. s k = s' k) \<and> (l \<in> overwritten T ti \<or> s l = s' l)
        \<longrightarrow> f s l = f s' l)"

text \<open>The tracker knows the overwritten flags as written and not read.\<close>

definition flags_ok :: "TrackedInstruction \<Rightarrow> bool" where
  "flags_ok ti \<longleftrightarrow> overwritten_flags (ti_inst ti) \<subseteq> dest_flags ti \<and> overwritten_flags (ti_inst ti) \<inter> src_flags ti = {}"

text \<open>
  The invariant: a location has the same value in two runs whose initial states agree on the labels the
  tracker holds for it. The flags of \<open>X\<close> are exempt: their entries were already reset for an instruction
  that has not been executed yet.
\<close>

definition tracks :: "'v mstate \<Rightarrow> 'v mstate \<Rightarrow> string set \<Rightarrow> Dependencies \<Rightarrow> 'v mstate \<Rightarrow> 'v mstate \<Rightarrow> bool" where
  "tracks i1 i2 X D s1 s2 \<longleftrightarrow> (\<forall>l. l \<notin> LFlag ` X \<longrightarrow> agree i1 i2 (loc_deps D l) \<longrightarrow> s1 l = s2 l)"

lemma agree_mono: "agree a b S \<Longrightarrow> S' \<subseteq> S \<Longrightarrow> agree a b S'"
  by (auto simp: agree_def)

lemma tracks_init: "tracks i1 i2 {} Dependencies_init i1 i2"
proof -
  have "loc_deps Dependencies_init l = {loc_name l}" for l
    by (cases l) (simp_all add: Dependencies_init_def deps_get_def)
  then show ?thesis by (auto simp: tracks_def agree_def)
qed

lemma deps_get_propagate:
  "deps_get (propagate src dests d) l = (if l \<in> dests then deps_get d l \<union> src else deps_get d l)"
  by (auto simp: deps_get_def propagate_def split: option.splits)

lemma loc_deps_add:
  "loc_deps (add_dependencies D ti) l =
     (if l \<in> destinations ti then loc_deps D l \<union> src_dependencies D ti else loc_deps D l)"
  by (cases l) (auto simp: add_dependencies_def Let_def deps_get_propagate destinations_def)

lemma src_dependencies_covers: "k \<in> sources ti \<Longrightarrow> loc_deps D k \<subseteq> src_dependencies D ti"
  by (auto simp: sources_def src_dependencies_def)

text \<open>The flags that are reset when the instruction is announced.\<close>

definition reset_flags :: "string set \<Rightarrow> Dependencies \<Rightarrow> Dependencies" where
  "reset_flags F D = D\<lparr>dep_flag := (\<lambda>f. if f \<in> F then Some {f} else dep_flag D f)\<rparr>"

lemma loc_deps_reset: "l \<notin> LFlag ` F \<Longrightarrow> loc_deps (reset_flags F D) l = loc_deps D l"
  by (cases l) (auto simp: reset_flags_def deps_get_def)

lemma overrides_dest:
  assumes "overrides T ti = Inr True"
  obtains r where "dest_regs ti = {r}"
  using assms by (auto simp: overrides_def Let_def card_1_singleton_iff split: if_splits list.splits)

lemma loc_deps_remove:
  assumes "remove_overwritten_dependencies T (add_dependencies D ti) (src_dependencies D ti) ti = Inr D'"
  shows "loc_deps D' l = (if overrides T ti = Inr True \<and> l \<in> LReg ` dest_regs ti then src_dependencies D ti
     else loc_deps (add_dependencies D ti) l)"
proof (cases "overrides T ti")
  case (Inl e)
  then show ?thesis using assms by (simp add: remove_overwritten_dependencies_def)
next
  case (Inr b)
  show ?thesis
  proof (cases b)
    case True
    with Inr obtain r where r: "dest_regs ti = {r}" using overrides_dest by metis
    then have "dep_reg (add_dependencies D ti) r = Some (deps_get (dep_reg D) r \<union> src_dependencies D ti)"
      by (auto simp: add_dependencies_def Let_def propagate_def deps_get_def split: option.splits)
    then have "D' = (add_dependencies D ti)\<lparr>dep_reg := (dep_reg (add_dependencies D ti))(r \<mapsto> src_dependencies D ti)\<rparr>"
      using assms Inr True r by (simp add: remove_overwritten_dependencies_def Int_Un_distrib2 Un_absorb1)
    then show ?thesis using Inr True r by (cases l) (auto simp: deps_get_def)
  next
    case False
    then show ?thesis using assms Inr by (simp add: remove_overwritten_dependencies_def)
  qed
qed

text \<open>Finalizing an instruction keeps the invariant while the machine executes it.\<close>

lemma tracks_step:
  assumes inv: "tracks i1 i2 (overwritten_flags (ti_inst ti)) D s1 s2"
    and f: "described_by T ti f" and ok: "flags_ok ti"
    and rm: "remove_overwritten_dependencies T (add_dependencies D ti) (src_dependencies D ti) ti = Inr D'"
  shows "tracks i1 i2 {} D' (f s1) (f s2)"
  unfolding tracks_def
proof (intro allI impI)
  fix l assume ag: "agree i1 i2 (loc_deps D' l)"
  let ?X = "LFlag ` overwritten_flags (ti_inst ti)"
  show "f s1 l = f s2 l"
  proof (cases "l \<in> destinations ti")
    case False
    then have "loc_deps D' l = loc_deps D l"
      by (auto simp: loc_deps_remove [OF rm] loc_deps_add destinations_def)
    moreover have "l \<notin> ?X"
      using False ok by (auto simp: flags_ok_def destinations_def)
    ultimately show ?thesis
      using f False inv ag by (simp add: described_by_def tracks_def)
  next
    case True
    have deps: "src_dependencies D ti \<subseteq> loc_deps D' l"
      by (auto simp: loc_deps_remove [OF rm] loc_deps_add True)
    have "s1 k = s2 k" if k: "k \<in> sources ti" for k
    proof -
      have "k \<notin> ?X" using k ok by (auto simp: flags_ok_def sources_def)
      moreover have "agree i1 i2 (loc_deps D k)"
        using agree_mono [OF ag] deps src_dependencies_covers [OF k, of D] by auto
      ultimately show ?thesis using inv by (simp add: tracks_def)
    qed
    moreover have "s1 l = s2 l" if "l \<notin> overwritten T ti"
    proof -
      have "l \<notin> ?X" "\<not> (overrides T ti = Inr True \<and> l \<in> LReg ` dest_regs ti)"
        using that by (auto simp: overwritten_def)
      then have "loc_deps D l \<subseteq> loc_deps D' l"
        by (auto simp: loc_deps_remove [OF rm] loc_deps_add True)
      then show ?thesis
        using inv \<open>l \<notin> ?X\<close> agree_mono [OF ag] by (simp add: tracks_def)
    qed
    ultimately show ?thesis using f True unfolding described_by_def by metis
  qed
qed

section \<open>Two runs under one tracker\<close>

text \<open>
  A configuration: the tracker, the states of two runs of the program, the instruction in flight, the
  saved states of the speculation, the flags whose entries are reset early, and the labels exposed so
  far with their values in both runs.
\<close>

record 'v runs =
  trk :: TaintTracker
  run1 :: "'v mstate"
  run2 :: "'v mstate"
  todo :: "('v mstate \<Rightarrow> 'v mstate) option"
  saved :: "('v mstate \<times> 'v mstate \<times> string set) list"
  early :: "string set"
  seen :: "(string \<times> 'v \<times> 'v) set"

definition commit :: "('v mstate \<Rightarrow> 'v mstate) option \<Rightarrow> 'v mstate \<Rightarrow> 'v mstate" where
  "commit g s = (case g of None \<Rightarrow> s | Some f \<Rightarrow> f s)"

definition exposures :: "string set \<Rightarrow> 'v mstate \<Rightarrow> 'v mstate \<Rightarrow> (string \<times> 'v \<times> 'v) set" where
  "exposures L s1 s2 = (\<lambda>q. (q, s1 (label_loc q), s2 (label_loc q))) ` L"

text \<open>
  The steps: an instruction is announced, makes its accesses and is observed before it takes effect; a
  checkpoint before a misprediction includes the current instruction, one for a bypassed store does not
  (the instruction is executed again after the rollback); a rollback restores the saved states.
\<close>

inductive run_step :: "taint_target \<Rightarrow> 'v runs \<Rightarrow> 'v runs \<Rightarrow> bool" for T where
  Execute: "\<lbrakk>track_instruction T i (trk c) = Inr t1;
     rfold (\<lambda>t (a, sz, w). track_memory_access a sz w t) t1 accesses = Inr t2;
     t3 = fold taint vs t2; tt_instruction t3 = Some ti; described_by T ti f; flags_ok ti;
     todo c = None \<longrightarrow> early c \<subseteq> overwritten_flags i;
     s1 = commit (todo c) (run1 c); s2 = commit (todo c) (run2 c)\<rbrakk> \<Longrightarrow>
   run_step T c (c\<lparr>trk := t3, run1 := s1, run2 := s2, todo := Some f, early := overwritten_flags i,
      seen := seen c \<union> exposures (pending_taint t3) s1 s2\<rparr>)"
| Mispredict: "\<lbrakk>checkpoint T True (trk c) = Inr t;
     s1 = commit (todo c) (run1 c); s2 = commit (todo c) (run2 c);
     e = (if todo c = None then early c else {})\<rbrakk> \<Longrightarrow>
   run_step T c (c\<lparr>trk := t, run1 := s1, run2 := s2, todo := None, early := e, saved := (s1, s2, e) # saved c\<rparr>)"
| Bypass: "checkpoint T False (trk c) = Inr t \<Longrightarrow>
   run_step T c (c\<lparr>trk := t, saved := (run1 c, run2 c, early c) # saved c\<rparr>)"
| Rollback: "\<lbrakk>rollback T (trk c) = Inr t; saved c = (s1, s2, e) # ss\<rbrakk> \<Longrightarrow>
   run_step T c (c\<lparr>trk := t, run1 := s1, run2 := s2, todo := None, early := e, saved := ss\<rparr>)"

text \<open>The labels that will be tainted once the instruction in flight is finalized.\<close>

definition all_tainted :: "TaintTracker \<Rightarrow> string set" where
  "all_tainted t = tainted_labels t \<union>
     (if tt_instruction t = None then {} else \<Union>l \<in> pending_taint t. label_deps (dependencies t) l)"

definition runs_ok :: "taint_target \<Rightarrow> 'v mstate \<Rightarrow> 'v mstate \<Rightarrow> 'v runs \<Rightarrow> bool" where
  "runs_ok T i1 i2 c \<longleftrightarrow>
     enable_tracking (trk c) \<and>
     tracks i1 i2 (early c) (dependencies (trk c)) (run1 c) (run2 c) \<and>
     (case todo c of
        None \<Rightarrow> tt_instruction (trk c) = None
      | Some f \<Rightarrow> (\<exists>ti. tt_instruction (trk c) = Some ti \<and> described_by T ti f \<and> flags_ok ti \<and>
          early c = overwritten_flags (ti_inst ti))) \<and>
     list_all2 (\<lambda>D (s1, s2, e). tracks i1 i2 e D s1 s2) (tt_checkpoints (trk c)) (saved c) \<and>
     (agree i1 i2 (all_tainted (trk c)) \<longrightarrow> (\<forall>(q, v1, v2) \<in> seen c. v1 = v2))"

lemma label_deps_loc: "label_deps D l = loc_deps D (label_loc l)" "label_loc l \<notin> LFlag ` X"
  by (auto simp: label_deps_def label_loc_def)

lemma parse_static_inst: "parse_static_operands T ti = Inr ti' \<Longrightarrow> ti_inst ti' = ti_inst ti"
  unfolding parse_static_operands_def
  by (erule rfold_invariant [where P = "\<lambda>x. ti_inst x = ti_inst ti"])
    (auto simp: parse_operand_def split: op_class.splits option.splits if_splits)

lemma label_deps_add_mono: "label_deps D l \<subseteq> label_deps (add_dependencies D ti) l"
  unfolding label_deps_loc(1) by (auto simp: loc_deps_add)

lemma finish_pending:
  assumes "finish T t = Inr t'" and "tt_instruction t = Some ti"
  shows "tt_instruction t' = None \<and> enable_tracking t' = enable_tracking t \<and>
     tt_checkpoints t' = tt_checkpoints t \<and> all_tainted t \<subseteq> tainted_labels t' \<and>
     remove_overwritten_dependencies T (add_dependencies (dependencies t) ti)
       (src_dependencies (dependencies t) ti) ti = Inr (dependencies t')"
proof -
  let ?D = "add_dependencies (dependencies t) ti"
  define pending where "pending = (if pending_taint t \<noteq> {} \<and> contains (lower (i_name (ti_inst ti))) ''rep'' \<and>
      ''C'' \<in> src_regs ti then insert ''C'' (pending_taint t) else pending_taint t)"
  have fin: "rbind (remove_overwritten_dependencies T ?D (src_dependencies (dependencies t) ti) ti)
      (\<lambda>D'. Inr (t\<lparr>tainted_labels := tainted_labels t \<union> (\<Union>l \<in> pending. label_deps ?D l), pending_taint := pending,
         dependencies := D', tt_instruction := None\<rparr>)) = Inr t'"
    using assms by (simp add: finish_def finalize_instruction_def Let_def pending_def)
  then obtain D' where D': "remove_overwritten_dependencies T ?D (src_dependencies (dependencies t) ti) ti = Inr D'"
    and t': "t' = t\<lparr>tainted_labels := tainted_labels t \<union> (\<Union>l \<in> pending. label_deps ?D l), pending_taint := pending,
         dependencies := D', tt_instruction := None\<rparr>"
    by (auto simp: rbind_eq_Inr_iff)
  have "pending_taint t \<subseteq> pending" by (auto simp: pending_def)
  then have "(\<Union>l \<in> pending_taint t. label_deps (dependencies t) l) \<subseteq> (\<Union>l \<in> pending. label_deps ?D l)"
    using label_deps_add_mono by (intro UN_mono) auto
  then show ?thesis using D' t' assms(2) by (auto simp: all_tainted_def)
qed

lemma finish_runs:
  assumes "runs_ok T i1 i2 c" and "finish T (trk c) = Inr t'"
  shows "enable_tracking t' \<and> tt_checkpoints t' = tt_checkpoints (trk c) \<and> tt_instruction t' = None \<and>
     all_tainted (trk c) \<subseteq> tainted_labels t' \<and>
     tracks i1 i2 (if todo c = None then early c else {}) (dependencies t')
       (commit (todo c) (run1 c)) (commit (todo c) (run2 c))"
proof (cases "todo c")
  case None
  then have "tt_instruction (trk c) = None" using assms(1) by (simp add: runs_ok_def)
  then show ?thesis
    using assms None by (auto simp: finish_def runs_ok_def commit_def all_tainted_def)
next
  case (Some f)
  then obtain ti where ti: "tt_instruction (trk c) = Some ti" "described_by T ti f" "flags_ok ti"
    "early c = overwritten_flags (ti_inst ti)"
    using assms(1) by (auto simp: runs_ok_def)
  note fin = finish_pending [OF assms(2) ti(1)]
  have "tracks i1 i2 {} (dependencies t') (f (run1 c)) (f (run2 c))"
    using assms(1) ti fin by (intro tracks_step [of i1 i2 ti "dependencies (trk c)"]) (auto simp: runs_ok_def)
  then show ?thesis using fin assms(1) Some by (simp add: runs_ok_def commit_def)
qed

lemma runs_ok_seen:
  assumes "runs_ok T i1 i2 c" and "all_tainted (trk c) \<subseteq> S" and "agree i1 i2 S" and "(q, v1, v2) \<in> seen c"
  shows "v1 = v2"
  using assms agree_mono [OF assms(3,2)] by (auto simp: runs_ok_def)

text \<open>Accesses and observations leave everything but the instruction in flight and its taint alone.\<close>

definition same_but_instruction :: "TaintTracker \<Rightarrow> TaintTracker \<Rightarrow> bool" where
  "same_but_instruction t1 t2 \<longleftrightarrow>
     dependencies t2 = dependencies t1 \<and> tainted_labels t2 = tainted_labels t1 \<and>
     tt_checkpoints t2 = tt_checkpoints t1 \<and> enable_tracking t2 = enable_tracking t1 \<and>
     map_option ti_inst (tt_instruction t2) = map_option ti_inst (tt_instruction t1)"

lemma same_but_instruction_trans:
  "same_but_instruction a b \<Longrightarrow> same_but_instruction b c \<Longrightarrow> same_but_instruction a c"
  unfolding same_but_instruction_def by (elim conjE) (intro conjI; simp only:)

lemma track_memory_access_frame:
  "track_memory_access a sz w t = Inr t' \<Longrightarrow> same_but_instruction t t'"
  by (cases "tt_instruction t")
    (auto simp: track_memory_access_def same_but_instruction_def Let_def split: if_splits)

lemma track_accesses_frame:
  assumes "rfold (\<lambda>t (a, sz, w). track_memory_access a sz w t) t1 accesses = Inr t2"
  shows "same_but_instruction t1 t2"
  using assms
proof (rule rfold_invariant [where P = "same_but_instruction t1"])
  fix s x s'
  assume "same_but_instruction t1 s" and "(case x of (a, sz, w) \<Rightarrow> track_memory_access a sz w s) = Inr s'"
  moreover obtain a sz w where "x = (a, sz, w)" by (cases x)
  ultimately show "same_but_instruction t1 s'"
    using track_memory_access_frame [of a sz w s s'] same_but_instruction_trans by simp
qed (simp add: same_but_instruction_def)

lemma taint_frame:
  "dependencies (fold taint vs t) = dependencies t \<and> tainted_labels (fold taint vs t) = tainted_labels t \<and>
   tt_checkpoints (fold taint vs t) = tt_checkpoints t \<and> enable_tracking (fold taint vs t) = enable_tracking t \<and>
   tt_instruction (fold taint vs t) = tt_instruction t"
  by (induction vs arbitrary: t) (auto simp: taint_def split: option.splits)

lemma tracks_reset:
  assumes "tracks i1 i2 X D s1 s2" and "X \<subseteq> F"
  shows "tracks i1 i2 F (reset_flags F D) s1 s2"
  using assms by (auto simp: tracks_def loc_deps_reset)

lemma runs_ok_step:
  assumes "run_step T c c'" and "runs_ok T i1 i2 c"
  shows "runs_ok T i1 i2 c'"
  using assms
proof cases
  case (Execute i t1 accesses t2 t3 vs ti f s1 s2)
  let ?F = "overwritten_flags i"
  have en: "enable_tracking (trk c)" using assms(2) by (simp add: runs_ok_def)
  from Execute(2) en obtain t0 ti0 where t0: "finish T (trk c) = Inr t0"
    and p: "parse_static_operands T (TrackedInstruction_init i) = Inr ti0"
    and t1: "t1 = t0\<lparr>tt_instruction := Some ti0, pending_taint := {}, dependencies := reset_flags ?F (dependencies t0)\<rparr>"
    by (auto simp: track_instruction_def rbind_eq_Inr_iff reset_flags_def)
  note fin = finish_runs [OF assms(2) t0]
  note acc = track_accesses_frame [OF Execute(3), unfolded same_but_instruction_def] and tai = taint_frame [of vs t2]
  have inst: "ti_inst ti = i"
    using parse_static_inst [OF p] acc tai Execute(4,5) t1 by (auto simp: TrackedInstruction_init_def)
  have deps: "dependencies t3 = reset_flags ?F (dependencies t0)" "tainted_labels t3 = tainted_labels t0"
    "tt_checkpoints t3 = tt_checkpoints (trk c)" "enable_tracking t3"
    using acc tai t1 fin Execute(4) by auto
  have tr: "tracks i1 i2 ?F (dependencies t3) s1 s2"
  proof -
    have "(if todo c = None then early c else {}) \<subseteq> ?F" using Execute(8) by auto
    then show ?thesis using fin Execute(9,10) unfolding deps(1) by (intro tracks_reset) auto
  qed
  have "v1 = v2" if ag: "agree i1 i2 (all_tainted t3)" and q: "(q, v1, v2) \<in> exposures (pending_taint t3) s1 s2"
    for q v1 v2
  proof -
    from q have "q \<in> pending_taint t3" "v1 = s1 (label_loc q)" "v2 = s2 (label_loc q)"
      by (auto simp: exposures_def)
    moreover from this(1) have "loc_deps (dependencies t3) (label_loc q) \<subseteq> all_tainted t3"
      using Execute(5) by (auto simp: all_tainted_def label_deps_loc(1))
    ultimately show ?thesis
      using tr agree_mono [OF ag] label_deps_loc(2) unfolding tracks_def by blast
  qed
  moreover have "v1 = v2" if "agree i1 i2 (all_tainted t3)" and "(q, v1, v2) \<in> seen c" for q v1 v2
    using runs_ok_seen [OF assms(2) _ that] fin deps(2) by (auto simp: all_tainted_def)
  ultimately show ?thesis
    using assms(2) deps(3,4) tr inst Execute by (auto simp: runs_ok_def)
next
  case (Mispredict t s1 s2 e)
  from Mispredict(2) assms(2) obtain t0 where t0: "finish T (trk c) = Inr t0"
    and t: "t = t0\<lparr>tt_checkpoints := dependencies t0 # tt_checkpoints t0\<rparr>"
    by (auto simp: checkpoint_def rbind_eq_Inr_iff runs_ok_def)
  note fin = finish_runs [OF assms(2) t0]
  have "v1 = v2" if "agree i1 i2 (all_tainted t)" and "(q, v1, v2) \<in> seen c" for q v1 v2
    using runs_ok_seen [OF assms(2) _ that] fin t by (auto simp: all_tainted_def)
  then show ?thesis
    using assms(2) fin t Mispredict by (auto simp: runs_ok_def)
next
  case (Bypass t)
  then show ?thesis
    using assms(2) by (auto simp: runs_ok_def checkpoint_def all_tainted_def split: option.splits)
next
  case (Rollback t s1 s2 e ss)
  from Rollback(2) assms(2) obtain t0 where t0: "finish T (trk c) = Inr t0"
    and t: "t = t0\<lparr>dependencies := hd (tt_checkpoints t0), tt_checkpoints := tl (tt_checkpoints t0)\<rparr>"
    by (auto simp: rollback_def rbind_eq_Inr_iff runs_ok_def split: list.splits)
  note fin = finish_runs [OF assms(2) t0]
  obtain D Ds where D: "tt_checkpoints (trk c) = D # Ds" "tracks i1 i2 e D s1 s2"
    "list_all2 (\<lambda>D (s1, s2, e). tracks i1 i2 e D s1 s2) Ds ss"
    using assms(2) Rollback(3) by (auto simp: runs_ok_def list_all2_Cons2)
  have "v1 = v2" if "agree i1 i2 (all_tainted t)" and "(q, v1, v2) \<in> seen c" for q v1 v2
    using runs_ok_seen [OF assms(2) _ that] fin t by (auto simp: all_tainted_def)
  then show ?thesis
    using assms(2) fin t D Rollback by (auto simp: runs_ok_def)
qed

lemma runs_ok_reach:
  assumes "(run_step T)\<^sup>*\<^sup>* c c'" and "runs_ok T i1 i2 c"
  shows "runs_ok T i1 i2 c'"
  using assms by (induction rule: rtranclp_induct) (auto intro: runs_ok_step)

definition start_runs :: "TaintTracker \<Rightarrow> 'v mstate \<Rightarrow> 'v mstate \<Rightarrow> 'v runs" where
  "start_runs t i1 i2 = \<lparr>trk = reset t, run1 = i1, run2 = i2, todo = None, saved = [], early = {}, seen = {}\<rparr>"

lemma runs_ok_start: "enable_tracking t \<Longrightarrow> runs_ok T i1 i2 (start_runs t i1 i2)"
  by (simp add: runs_ok_def start_runs_def reset_def tracks_init)

text \<open>The parser produces such descriptions for instructions with one flags operand.\<close>

lemma parse_operand_flags:
  "parse_operand T ti o1 = Inr ti' \<Longrightarrow> \<not> is_flags o1 \<Longrightarrow>
     src_flags ti' = src_flags ti \<and> dest_flags ti' = dest_flags ti"
  by (auto simp: parse_operand_def is_flags_def split: op_class.splits option.splits)

lemma rfold_parse_flags:
  assumes "rfold (parse_operand T) ti ops = Inr ti'" and "\<forall>o1 \<in> set ops. is_flags o1 \<longrightarrow> op_class o1 = FlagsOp vals"
    and "list_ex is_flags ops \<or> (src_flags ti = set (get_flags_by_type vals Q_read) \<union> set (get_flags_by_type vals Q_undef)
        \<and> dest_flags ti = set (get_flags_by_type vals Q_write))"
  shows "src_flags ti' = set (get_flags_by_type vals Q_read) \<union> set (get_flags_by_type vals Q_undef) \<and>
     dest_flags ti' = set (get_flags_by_type vals Q_write)"
  using assms
proof (induction ops arbitrary: ti)
  case (Cons o1 ops)
  then obtain ti1 where ti1: "parse_operand T ti o1 = Inr ti1" "rfold (parse_operand T) ti1 ops = Inr ti'"
    by (auto simp: rbind_eq_Inr_iff)
  show ?case
  proof (cases "is_flags o1")
    case True
    then have "op_class o1 = FlagsOp vals" using Cons.prems(2) by simp
    then have "src_flags ti1 = set (get_flags_by_type vals Q_read) \<union> set (get_flags_by_type vals Q_undef)"
      "dest_flags ti1 = set (get_flags_by_type vals Q_write)"
      using ti1(1) by (auto simp: parse_operand_def)
    then show ?thesis using Cons.IH [OF ti1(2)] Cons.prems(2) by auto
  next
    case False
    then show ?thesis
      using Cons.IH [OF ti1(2)] Cons.prems(2,3) parse_operand_flags [OF ti1(1) False] by auto
  qed
qed simp

lemma parsed_flags_ok:
  assumes "parse_static_operands T (TrackedInstruction_init i) = Inr ti"
    and "\<forall>o1 \<in> set (get_all_operands i). is_flags o1 \<longrightarrow> op_class o1 = FlagsOp vals"
  shows "flags_ok ti"
proof (cases "get_flags_operand i")
  case None
  then have "overwritten_flags i = {}" by (simp add: overwritten_flags_def)
  then show ?thesis
    using parse_static_inst [OF assms(1)] by (simp add: flags_ok_def TrackedInstruction_init_def)
next
  case (Some o1)
  then have o1: "o1 \<in> set (get_all_operands i)" "is_flags o1"
    by (auto simp: get_flags_operand_def get_all_operands_def find_Some_iff split: option.splits)
  then have "list_ex is_flags (get_all_operands i)" by (auto simp: list_ex_iff)
  then have fl: "src_flags ti = set (get_flags_by_type vals Q_read) \<union> set (get_flags_by_type vals Q_undef)"
    "dest_flags ti = set (get_flags_by_type vals Q_write)"
    using rfold_parse_flags [OF _ assms(2), of T "TrackedInstruction_init i" ti] assms(1)
    by (auto simp: parse_static_operands_def TrackedInstruction_init_def)
  have ow: "overwritten_flags (ti_inst ti) = set (get_flags_by_type vals Q_overwrite)"
    using parse_static_inst [OF assms(1)] Some o1 assms(2)
    by (auto simp: overwritten_flags_def TrackedInstruction_init_def)
  show ?thesis
    unfolding flags_ok_def ow fl get_flags_by_type_def Int_Un_distrib Un_empty
    by (intro conjI get_flag_list_subset get_flag_list_disjoint) (simp_all add: flag_types_of_def)
qed

section \<open>Properties\<close>


text \<open>A load through \<^verbatim>\<open>rbx\<close>, observed by a tracer of memory addresses.\<close>

definition demo_target :: taint_target where
  "demo_target = \<lparr>reg_normalized = [''rax'' \<mapsto> ''A'', ''rbx'' \<mapsto> ''B''], register_sizes = [''rax'' \<mapsto> 64, ''rbx'' \<mapsto> 64],
     reg_norm_to_constant = [''A'' \<mapsto> 0, ''B'' \<mapsto> 1], usable_registers = [0, 1], usable_simd128_registers = [],
     label_order = (\<lambda>S. filter (\<lambda>l. l \<in> S) [''A'', ''B''])\<rparr>"

definition demo_load :: Instruction where
  "demo_load = (Instruction_init ''mov'' ''BASE-DATAXFER'' False False False)\<lparr>operands :=
     [\<lparr>op_value = ''rax'', op_src = False, op_dest = True, op_has_magic_value = False, op_class = RegisterOp 64\<rparr>,
      \<lparr>op_value = ''rbx'', op_src = True, op_dest = False, op_has_magic_value = False, op_class = MemoryOp 64\<rparr>]\<rparr>"

definition demo_tracked :: TrackedInstruction where
  "demo_tracked = \<lparr>ti_inst = demo_load, src_regs = {}, dest_regs = {''A''}, src_flags = {}, dest_flags = {},
     src_mems = {''0x0''}, dest_mems = {}, mem_address_regs = {''B''}\<rparr>"

definition demo_tracker :: TaintTracker where
  "demo_tracker = \<lparr>enable_tracking = True, tracking_in_progress = False, initial_observations = [], data_start = 4096,
     tt_checkpoints = [], tainted_labels = {}, pending_taint = {}, tt_instruction = None,
     dependencies = Dependencies_init\<rparr>"

definition demo_effect :: "nat mstate \<Rightarrow> nat mstate" where
  "demo_effect s = s(LReg ''A'' := s (LMem ''0x0''))"

definition demo_low :: "nat mstate" where
  "demo_low = (\<lambda>_. 0)"

definition demo_high :: "nat mstate" where
  "demo_high = (\<lambda>l. if l = LMem ''0x0'' then 5 else 0)"

definition demo_after :: TaintTracker where
  "demo_after = (reset demo_tracker)\<lparr>tt_instruction := Some demo_tracked, pending_taint := {''B''}\<rparr>"

lemma demo_parse: "parse_static_operands demo_target (TrackedInstruction_init demo_load) =
    Inr (demo_tracked\<lparr>src_mems := {}\<rparr>)"
  by (simp add: parse_static_operands_def parse_operand_def get_all_operands_def TrackedInstruction_init_def
      demo_load_def demo_tracked_def demo_target_def Instruction_init_def address_regs_def List.map_filter_simps)

lemma demo_flags: "overwritten_flags demo_load = {}"
  by (simp add: overwritten_flags_def get_flags_operand_def demo_load_def Instruction_init_def is_flags_def)

lemma demo_step:
  "run_step demo_target (start_runs demo_tracker demo_low demo_high)
     ((start_runs demo_tracker demo_low demo_high)\<lparr>trk := demo_after, run1 := demo_low, run2 := demo_high,
        todo := Some demo_effect, early := {}, seen := {} \<union> exposures {''B''} demo_low demo_high\<rparr>)"
proof -
  let ?c = "start_runs demo_tracker demo_low demo_high"
  let ?t1 = "(reset demo_tracker)\<lparr>tt_instruction := Some (demo_tracked\<lparr>src_mems := {}\<rparr>)\<rparr>"
  let ?t2 = "(reset demo_tracker)\<lparr>tt_instruction := Some demo_tracked\<rparr>"
  have t1: "track_instruction demo_target demo_load (trk ?c) = Inr ?t1"
    by (simp add: track_instruction_def start_runs_def reset_def demo_tracker_def finish_def demo_parse demo_flags
        Dependencies_init_def)
  have "hex 0 = ''0x0''" by code_simp
  then have "cells 0 8 = {''0x0''}" by (simp add: cells_def mask8_def)
  then have t2: "rfold (\<lambda>t (a, sz, w). track_memory_access a sz w t) ?t1 [(4096, 8, False)] = Inr ?t2"
    by (simp add: track_memory_access_def reset_def demo_tracker_def demo_tracked_def)
  have t3: "demo_after = fold taint [TV_mem] ?t2"
    by (simp add: demo_after_def taint_def exposed_def reset_def demo_tracker_def demo_tracked_def)
  have f: "described_by demo_target demo_tracked demo_effect"
    by (auto simp: described_by_def demo_effect_def destinations_def sources_def overwritten_def demo_tracked_def
        fun_upd_def)
  have "flags_ok demo_tracked" by (simp add: flags_ok_def demo_tracked_def demo_flags)
  from run_step.Execute [OF t1 t2 t3 _ f this, of demo_low demo_high] show ?thesis
    by (simp add: demo_after_def start_runs_def commit_def demo_flags)
qed


section \<open>Cells of the taint\<close>

lemma rfold_py_set_True:
  assumes "\<forall>k \<in> set ks. 0 \<le> k \<and> k < int (length v)"
  shows "rfold (\<lambda>v k. py_set v k True) v ks = Inr (map (\<lambda>j. v ! j \<or> int j \<in> set ks) [0..<length v])"
  using assms
proof (induction ks arbitrary: v)
  case Nil
  show ?case by (simp add: map_nth)
next
  case (Cons k ks)
  then obtain n where n: "k = int n" "n < length v" by (metis list.set_intros(1) nat_int nonneg_int_cases of_nat_less_iff)
  then have "py_set v k True = Inr (v[n := True])" by simp
  moreover have "map (\<lambda>j. v[n := True] ! j \<or> int j \<in> set ks) [0..<length v] =
      map (\<lambda>j. v ! j \<or> int j \<in> set (k # ks)) [0..<length v]"
    using n by (auto simp: nth_list_update)
  ultimately show ?case using Cons by simp
qed

lemma actor_taints_range: "\<forall>k \<in> set (actor_taints offsets a). 0 \<le> k \<and> k < int per_actor_taint_size"
  by (auto simp: actor_taints_def Let_def algebra_simps)

lemma actor_taints_member:
  "j < per_actor_taint_size \<Longrightarrow>
     int j \<in> set (actor_taints offsets a) \<longleftrightarrow> int (a * per_actor_taint_size + j) \<in> set offsets"
proof -
  assume j: "j < per_actor_taint_size"
  let ?s = "int a * int per_actor_taint_size"
  have "int j \<in> set (actor_taints offsets a) \<longleftrightarrow>
      (\<exists>pos \<in> set offsets. int j = pos - ?s \<and> ?s \<le> pos \<and> pos < (int a + 1) * int per_actor_taint_size)"
    by (auto simp: actor_taints_def Let_def)
  also have "\<dots> \<longleftrightarrow> ?s + int j \<in> set offsets"
  proof
    assume "?s + int j \<in> set offsets"
    then show "\<exists>pos \<in> set offsets. int j = pos - ?s \<and> ?s \<le> pos \<and> pos < (int a + 1) * int per_actor_taint_size"
      using j by (intro bexI [of _ "?s + int j"]) (auto simp: algebra_simps)
  qed auto
  finally show ?thesis by simp
qed

lemma taint_actors_fold:
  assumes "m \<le> n" and "length tn = n" and "\<forall>row \<in> set tn. length row = per_actor_taint_size"
  shows "rfold (\<lambda>tn a. taint_actor_offsets tn a (actor_taints offsets a)) tn [0..<m] =
     Inr (map (\<lambda>a. if a < m then map (\<lambda>j. tn ! a ! j \<or> int j \<in> set (actor_taints offsets a)) [0..<per_actor_taint_size]
                  else tn ! a) [0..<n])"
  using assms(1)
proof (induction m)
  case 0
  show ?case using assms(2) by (simp add: map_nth_upt)
next
  case (Suc m)
  let ?row = "\<lambda>a. map (\<lambda>j. tn ! a ! j \<or> int j \<in> set (actor_taints offsets a)) [0..<per_actor_taint_size]"
  let ?tn = "map (\<lambda>a. if a < m then ?row a else tn ! a) [0..<n]"
  have row: "?tn ! m = tn ! m" "length (tn ! m) = per_actor_taint_size"
    using Suc.prems assms(2,3) by auto
  have "taint_actor_offsets ?tn m (actor_taints offsets m) = Inr (?tn[m := ?row m])"
    using Suc.prems row rfold_py_set_True [of "actor_taints offsets m" "tn ! m"] actor_taints_range [of offsets m]
    by (simp add: taint_actor_offsets_def)
  moreover have "?tn[m := ?row m] = map (\<lambda>a. if a < Suc m then ?row a else tn ! a) [0..<n]"
    using Suc.prems by (intro nth_equalityI) (auto simp: nth_list_update less_Suc_eq)
  ultimately show ?case using Suc by (simp add: rfold_append)
qed

definition taint_offset :: "int \<Rightarrow> int" where
  "taint_offset a = (a mod 16384 - 4096) div 8 + a div 16384 * 1536"

lemma taint_offset_from_sandbox: "taint_offset_from_sandbox_address a = Inr (taint_offset a)"
  by (simp add: taint_offset_from_sandbox_address_def taint_offset_def per_actor_taint_size_def layout_simps Let_def)

lemma get_taint_cells_eq:
  assumes "enable_tracking t" and "finish T t = Inr t'"
    and "rmapM (label_addresses T) (label_order T (tainted_labels t')) = Inr addrs"
  shows "\<exists>tn t''. get_taint T t n = Inr (tn, t'') \<and> length tn = n \<and>
     (\<forall>a < n. \<forall>j < per_actor_taint_size.
        tn ! a ! j \<longleftrightarrow> int (a * per_actor_taint_size + j) \<in> taint_offset ` set (concat addrs))"
proof -
  let ?offs = "map taint_offset (sort (concat addrs))"
  have offs: "rmapM taint_offset_from_sandbox_address (sort (concat addrs)) = Inr ?offs"
    by (rule rmapM_cong_Inr) (rule taint_offset_from_sandbox)
  let ?tn = "map (\<lambda>a. map (\<lambda>j. int j \<in> set (actor_taints ?offs a)) [0..<per_actor_taint_size]) [0..<n]"
  have "rfold (\<lambda>tn a. taint_actor_offsets tn a (actor_taints ?offs a)) (InputTaint_new n) [0..<n] = Inr ?tn"
    using taint_actors_fold [of n n "InputTaint_new n" ?offs] by (simp add: InputTaint_new_def)
  then have "get_taint T t n = Inr (?tn, t'\<lparr>tracking_in_progress := False\<rparr>)"
    using assms offs by (simp add: get_taint_def)
  then show ?thesis
    by (intro exI conjI, assumption) (simp_all add: actor_taints_member)
qed


lemma demo_finish: "finish demo_target (demo_tracker\<lparr>tainted_labels := {''B''}\<rparr>) =
    Inr (demo_tracker\<lparr>tainted_labels := {''B''}\<rparr>)"
  by (simp add: finish_def demo_tracker_def)

lemma demo_label: "label_addresses demo_target ''B'' = Inr [12296]"
  by (simp add: label_addresses_def demo_target_def layout_simps index_of_def)


subsection \<open>SIMD registers\<close>

text \<open>
  The model loads the k-th SIMD register from entries 4k and 4k + 1 of the SIMD area: the upper half
  of each 256-bit slot is ignored.
\<close>

fun simd_values_from :: "nat \<Rightarrow> nat list \<Rightarrow> nat list \<Rightarrow> nat list" where
  "simd_values_from i [] acc = acc"
| "simd_values_from i (val # vals) acc = simd_values_from (i + 1) vals
     (if i mod 4 = 0 then acc @ [val]
      else if i mod 4 = 1 then acc[length acc - 1 := acc ! (length acc - 1) OR push_bit 64 val]
      else acc)"

definition simd_values :: "nat list \<Rightarrow> nat list" where
  "simd_values simd = simd_values_from 0 simd []"

lemma simd_values_from_quad:
  "simd_values_from (4 * m) (a # b # c # d # vals) acc = simd_values_from (4 * Suc m) vals (acc @ [a OR push_bit 64 b])"
proof -
  have m: "(4 * m) mod 4 = 0" "(4 * m + 1) mod 4 = 1" "(4 * m + 2) mod 4 = 2" "(4 * m + 3) mod 4 = 3" by presburger+
  have s: "4 * m + 1 + 1 = 4 * m + 2" "4 * m + 2 + 1 = 4 * m + 3" "4 * m + 3 + 1 = 4 * Suc m" by simp_all
  show ?thesis by (simp only: simd_values_from.simps s m) (simp add: nth_append)
qed

lemma simd_values_from_eq:
  "length vals = 4 * n \<Longrightarrow> simd_values_from (4 * m) vals acc =
     acc @ map (\<lambda>k. vals ! (4 * k) OR push_bit 64 (vals ! (4 * k + 1))) [0..<n]"
proof (induction n arbitrary: m vals acc)
  case 0
  then show ?case by simp
next
  case (Suc n)
  have four: "4 * Suc n = Suc (Suc (Suc (Suc (4 * n))))" by simp
  obtain a b c d rest where v: "vals = a # b # c # d # rest" "length rest = 4 * n"
    using Suc.prems unfolding four by (auto simp: length_Suc_conv)
  have "map (\<lambda>k. vals ! (4 * k) OR push_bit 64 (vals ! (4 * k + 1))) [0..<Suc n] =
      (a OR push_bit 64 b) # map (\<lambda>k. rest ! (4 * k) OR push_bit 64 (rest ! (4 * k + 1))) [0..<n]"
    by (simp add: map_upt_Suc v(1) del: upt_Suc)
  then show ?case
    using Suc.IH [OF v(2)] by (simp only: v(1) simd_values_from_quad) simp
qed

lemma simd_values_nth:
  "length simd = 32 \<Longrightarrow> k < 8 \<Longrightarrow> simd_values simd ! k = simd ! (4 * k) OR push_bit 64 (simd ! (4 * k + 1))"
  using simd_values_from_eq [of simd 8 0 "[]"] by (simp add: simd_values_def)

text \<open>
  SIMD registers are tainted at the wrong entries. When the only collected label is the k-th SIMD
  register, the taint marks entry 1032 + 2k of the main actor and nothing else, while the register is
  loaded from entries 1032 + 4k and 1032 + 4k + 1: two inputs can agree on every marked entry and still
  start with different values of the register.
\<close>
theorem simd_taint_misses_register:
  assumes "enable_tracking t" and "finish T t = Inr t'" and "tainted_labels t' = {l}" and "label_order T {l} = [l]"
    and "\<not> starts_with l ''0x''" and "reg_norm_to_constant T l = Some r" and "r \<notin> set (usable_registers T)"
    and "r \<in> set (usable_simd128_registers T)" and "index_of (usable_simd128_registers T) r = k" and "k < 8"
    and "get_taint T t n = Inr (tn, t'')" and "0 < n"
  shows "(\<forall>j < per_actor_taint_size. tn ! 0 ! j \<longleftrightarrow> j = 1032 + 2 * k) \<and>
     (\<exists>x y. length x = 32 \<and> length y = 32 \<and> (\<forall>j < 32. tn ! 0 ! (1032 + j) \<longrightarrow> x ! j = y ! j) \<and>
        simd_values x ! k \<noteq> simd_values y ! k)"
proof -
  let ?a = "12352 + int k * 16"
  have "label_addresses T l = Inr [?a, ?a + 1]"
    using assms(5-9) by (simp add: label_addresses_def layout_simps Let_def)
  then have "rmapM (label_addresses T) (label_order T (tainted_labels t')) = Inr [[?a, ?a + 1]]"
    using assms(3,4) by simp
  from get_taint_cells_eq [OF assms(1,2) this, of n] assms(11,12)
  have c: "tn ! 0 ! j \<longleftrightarrow> int j \<in> taint_offset ` {?a, ?a + 1}" if "j < per_actor_taint_size" for j
    using that by auto
  have "?a mod 16384 = ?a" "(?a + 1) mod 16384 = ?a + 1" "?a div 16384 = 0" "(?a + 1) div 16384 = 0"
    using assms(10) by auto
  moreover have "(?a - 4096) div 8 = 1032 + 2 * int k" "(?a + 1 - 4096) div 8 = 1032 + 2 * int k" by auto
  ultimately have "taint_offset ` {?a, ?a + 1} = {1032 + 2 * int k}" by (simp add: taint_offset_def)
  with c have only: "tn ! 0 ! j \<longleftrightarrow> j = 1032 + 2 * k" if "j < per_actor_taint_size" for j
    using that by auto
  let ?x = "replicate 32 (0::nat)" and ?y = "(replicate 32 (0::nat))[4 * k + 1 := 1]"
  have "?x ! j = ?y ! j" if "j < 32" "tn ! 0 ! (1032 + j)" for j
    using that only [of "1032 + j"] by (auto simp: per_actor_taint_size_def actor_entries_eq nth_list_update)
  moreover have "simd_values ?x ! k \<noteq> simd_values ?y ! k"
    using assms(10) by (simp add: simd_values_nth)
  ultimately show ?thesis using only by (intro conjI exI [of _ ?x] exI [of _ ?y]) auto
qed

definition simd_target :: taint_target where
  "simd_target = demo_target\<lparr>reg_norm_to_constant := [''XMM0'' \<mapsto> 7, ''XMM1'' \<mapsto> 8],
     usable_simd128_registers := [7, 8], label_order := (\<lambda>S. filter (\<lambda>l. l \<in> S) [''XMM0'', ''XMM1''])\<rparr>"

theorem simd_taint_misses_register_witness:
  "\<exists>tn t''. get_taint simd_target (demo_tracker\<lparr>tainted_labels := {''XMM1''}\<rparr>) 1 = Inr (tn, t'') \<and>
     tn ! 0 ! 1034 \<and> \<not> tn ! 0 ! 1036 \<and> \<not> tn ! 0 ! 1037"
proof -
  let ?t = "demo_tracker\<lparr>tainted_labels := {''XMM1''}\<rparr>"
  have fin: "finish simd_target ?t = Inr ?t" by (simp add: finish_def demo_tracker_def)
  have lab: "label_addresses simd_target ''XMM1'' = Inr [12368, 12369]"
    by (simp add: label_addresses_def simd_target_def demo_target_def layout_simps index_of_def)
  have "rmapM (label_addresses simd_target) (label_order simd_target (tainted_labels ?t)) = Inr [[12368, 12369]]"
    using lab by (simp add: simd_target_def)
  from get_taint_cells_eq [OF _ fin this, of 1] obtain tn t'' where g: "get_taint simd_target ?t 1 = Inr (tn, t'')"
    by (auto simp: demo_tracker_def)
  have "\<forall>j < per_actor_taint_size. tn ! 0 ! j \<longleftrightarrow> j = 1032 + 2 * 1"
    using simd_taint_misses_register [OF _ fin _ _ _ _ _ _ _ _ g, of "''XMM1''" 8 1]
    by (simp add: demo_tracker_def simd_target_def demo_target_def index_of_def)
  then show ?thesis using g by (intro exI [of _ tn] exI [of _ t'']) (simp add: per_actor_taint_size_def actor_entries_eq)
qed

end
