(* ===== verification/Speculator.thy ===== *)
theory Speculator
  imports TaintTracker
begin

unbundle bit_operations_syntax

text \<open>
  Model of \<^verbatim>\<open>rvzr/model_unicorn/speculator_abc.py\<close> and \<^verbatim>\<open>speculators_basic.py\<close>: the checkpoint and rollback
  machinery that lets the contract model simulate mispredicted paths, the conditional branch
  speculators of x86 and ARM64 and the store bypass speculator. The Unicorn emulator is a parameter:
  a record of the calls the code makes, with the documented behaviour of its memory, registers and
  saved contexts in \<open>unicorn_laws\<close>. Stacks and logs are lists with the newest element first.
\<close>

section \<open>The emulator\<close>

record ('e, 'c) unicorn =
  reg_read :: "'e \<Rightarrow> nat \<Rightarrow> int"
  reg_write :: "nat \<Rightarrow> int \<Rightarrow> 'e \<Rightarrow> 'e"
  mem_read :: "'e \<Rightarrow> int \<Rightarrow> nat \<Rightarrow> byte list"
  mem_write :: "int \<Rightarrow> byte list \<Rightarrow> 'e \<Rightarrow> 'e"
  context_save :: "'e \<Rightarrow> 'c"
  context_restore :: "'c \<Rightarrow> 'e \<Rightarrow> 'e"
  emu_stop :: "'e \<Rightarrow> 'e"

definition mem_byte :: "('e, 'c) unicorn \<Rightarrow> 'e \<Rightarrow> int \<Rightarrow> byte" where
  "mem_byte U e a = hd (mem_read U e a 1)"

definition unicorn_laws :: "('e, 'c) unicorn \<Rightarrow> bool" where
  "unicorn_laws U \<longleftrightarrow>
     (\<forall>e a n. length (mem_read U e a n) = n \<and> (\<forall>i < n. mem_read U e a n ! i = mem_byte U e (a + int i))) \<and>
     (\<forall>e a bs x. mem_byte U (mem_write U a bs e) x =
        (if a \<le> x \<and> x < a + int (length bs) then bs ! nat (x - a) else mem_byte U e x)) \<and>
     (\<forall>e a bs. reg_read U (mem_write U a bs e) = reg_read U e) \<and>
     (\<forall>e r v. mem_byte U (reg_write U r v e) = mem_byte U e) \<and>
     (\<forall>e r. reg_read U (reg_write U r (reg_read U e r) e) = reg_read U e) \<and>
     (\<forall>e c. mem_byte U (context_restore U c e) = mem_byte U e) \<and>
     (\<forall>e e'. reg_read U (context_restore U (context_save U e) e') = reg_read U e) \<and>
     (\<forall>e. reg_read U (emu_stop U e) = reg_read U e \<and> mem_byte U (emu_stop U e) = mem_byte U e)"

record ('e, 'c) spec_env =
  uc :: "('e, 'c) unicorn"
  flags_register :: nat
  pc_register :: nat
  x86_rcx :: nat
  x86_rip :: nat
  arm64_x0 :: nat
  arm64_x29 :: nat
  barriers :: "string set"
  tt_target :: taint_target
  model_max_spec_window :: int

section \<open>The common part\<close>

datatype access_type = UC_MEM_READ | UC_MEM_WRITE | UC_MEM_OTHER

type_synonym store_log = "(int \<times> byte list) list"

record ('e, 'c) Speculator =
  sp_checkpoints :: "('c \<times> int \<times> int \<times> int) list"
  store_logs :: "store_log list"
  max_nesting :: int
  speculation_window :: int
  max_spec_window :: int
  in_speculation :: bool
  emulator :: 'e
  taint_tracker :: TaintTracker
  previous_store :: "(int \<times> nat \<times> byte list \<times> int) option"

definition nesting :: "('e, 'c) Speculator \<Rightarrow> nat" where
  "nesting s = length (sp_checkpoints s)"

definition set_max_nesting :: "int \<Rightarrow> ('e, 'c) Speculator \<Rightarrow> ('e, 'c) Speculator" where
  "set_max_nesting n s = s\<lparr>max_nesting := n\<rparr>"

definition base_reset :: "('e, 'c) spec_env \<Rightarrow> 'e \<Rightarrow> ('e, 'c) Speculator \<Rightarrow> ('e, 'c) Speculator" where
  "base_reset E model_emulator s =
     s\<lparr>emulator := model_emulator, sp_checkpoints := [], store_logs := [], in_speculation := False,
       speculation_window := 0, max_spec_window := model_max_spec_window E\<rparr>"

definition undo_log :: "('e, 'c) unicorn \<Rightarrow> store_log \<Rightarrow> 'e \<Rightarrow> 'e" where
  "undo_log U mem_changes e = fold (\<lambda>(addr, val). mem_write U addr val) mem_changes e"

definition base_rollback :: "('e, 'c) spec_env \<Rightarrow> ('e, 'c) Speculator \<Rightarrow> (int \<times> ('e, 'c) Speculator) res" where
  "base_rollback E s =
     (case sp_checkpoints s of
        [] \<Rightarrow> raise IndexError
      | (state, next_instr, flags, spec_window) # cps \<Rightarrow>
          (case store_logs s of
             [] \<Rightarrow> raise IndexError
           | mem_changes # logs \<Rightarrow>
               (let U = uc E;
                    e1 = context_restore U state (emulator s);
                    e2 = undo_log U mem_changes e1;
                    e3 = reg_write U (flags_register E) flags e2
                in rbind (rollback (tt_target E) (taint_tracker s)) (\<lambda>t.
                   ok (next_instr, s\<lparr>sp_checkpoints := cps, store_logs := logs,
                     in_speculation := (if cps = [] then False else in_speculation s),
                     speculation_window := spec_window, emulator := e3, taint_tracker := t\<rparr>)))))"

definition sp_checkpoint ::
  "('e, 'c) spec_env \<Rightarrow> int \<Rightarrow> bool \<Rightarrow> ('e, 'c) Speculator \<Rightarrow> ('e, 'c) Speculator res" where
  "sp_checkpoint E next_instruction_addr include_current_inst s =
     (let flags = reg_read (uc E) (emulator s) (flags_register E);
          context = context_save (uc E) (emulator s)
      in rbind (checkpoint (tt_target E) include_current_inst (taint_tracker s)) (\<lambda>t.
           ok (s\<lparr>sp_checkpoints := (context, next_instruction_addr, flags, speculation_window s) # sp_checkpoints s,
             store_logs := [] # store_logs s, in_speculation := True, taint_tracker := t\<rparr>)))"

definition max_nesting_reached :: "('e, 'c) Speculator \<Rightarrow> bool" where
  "max_nesting_reached s \<longleftrightarrow> int (length (sp_checkpoints s)) \<ge> max_nesting s"

text \<open>The bookkeeping of \<^verbatim>\<open>handle_instruction\<close> before the class-specific hook.\<close>

definition count_instruction :: "('e, 'c) spec_env \<Rightarrow> string \<Rightarrow> ('e, 'c) Speculator \<Rightarrow> ('e, 'c) Speculator" where
  "count_instruction E inst_name s =
     (if in_speculation s
      then (let s1 = s\<lparr>speculation_window := speculation_window s + 1\<rparr>;
                s2 = (if inst_name \<in> barriers E then s1\<lparr>emulator := emu_stop (uc E) (emulator s1)\<rparr> else s1)
            in if speculation_window s2 > max_spec_window s2
               then s2\<lparr>emulator := emu_stop (uc E) (emulator s2)\<rparr> else s2)
      else s)"

definition log_store :: "('e, 'c) spec_env \<Rightarrow> access_type \<Rightarrow> int \<Rightarrow> ('e, 'c) Speculator \<Rightarrow> ('e, 'c) Speculator" where
  "log_store E access address s =
     (case store_logs s of
        [] \<Rightarrow> s
      | changes # logs \<Rightarrow>
          if access = UC_MEM_WRITE
          then s\<lparr>store_logs := ((address, mem_read (uc E) (emulator s) address 8) # changes) # logs\<rparr>
          else s)"

section \<open>Conditional branches on x86\<close>

definition FLAGS_CF :: int where "FLAGS_CF = 0b000000000001"
definition FLAGS_PF :: int where "FLAGS_PF = 0b000000000100"
definition FLAGS_ZF :: int where "FLAGS_ZF = 0b000001000000"
definition FLAGS_SF :: int where "FLAGS_SF = 0b000010000000"
definition FLAGS_OF :: int where "FLAGS_OF = 0b100000000000"

text \<open>
  The tables map an opcode to the outcome of the branch (from the flags and RCX) and to whether it is a
  loop instruction. The displacement is what follows the opcode.
\<close>

type_synonym branch_outcome = "int \<Rightarrow> int \<Rightarrow> bool \<times> bool"

definition jumps :: "(nat, branch_outcome) dict" where
  "jumps =
     [(0x70, \<lambda>f r. (f AND FLAGS_OF \<noteq> 0, False)),
      (0x71, \<lambda>f r. (f AND FLAGS_OF = 0, False)),
      (0x72, \<lambda>f r. (f AND FLAGS_CF \<noteq> 0, False)),
      (0x73, \<lambda>f r. (f AND FLAGS_CF = 0, False)),
      (0x74, \<lambda>f r. (f AND FLAGS_ZF \<noteq> 0, False)),
      (0x75, \<lambda>f r. (f AND FLAGS_ZF = 0, False)),
      (0x76, \<lambda>f r. (f AND FLAGS_CF \<noteq> 0 \<or> f AND FLAGS_ZF \<noteq> 0, False)),
      (0x77, \<lambda>f r. (f AND FLAGS_CF = 0 \<and> f AND FLAGS_ZF = 0, False)),
      (0x78, \<lambda>f r. (f AND FLAGS_SF \<noteq> 0, False)),
      (0x79, \<lambda>f r. (f AND FLAGS_SF = 0, False)),
      (0x7A, \<lambda>f r. (f AND FLAGS_PF \<noteq> 0, False)),
      (0x7B, \<lambda>f r. (f AND FLAGS_PF = 0, False)),
      (0x7C, \<lambda>f r. ((f AND FLAGS_SF = 0) \<noteq> (f AND FLAGS_OF = 0), False)),
      (0x7D, \<lambda>f r. ((f AND FLAGS_SF = 0) = (f AND FLAGS_OF = 0), False)),
      (0x7E, \<lambda>f r. (f AND FLAGS_ZF \<noteq> 0 \<or> (f AND FLAGS_SF = 0) \<noteq> (f AND FLAGS_OF = 0), False)),
      (0x7F, \<lambda>f r. (f AND FLAGS_ZF = 0 \<and> (f AND FLAGS_SF = 0) = (f AND FLAGS_OF = 0), False)),
      (0xE0, \<lambda>f r. (r \<noteq> 1 \<and> f AND FLAGS_ZF = 0, True)),
      (0xE1, \<lambda>f r. (r \<noteq> 1 \<and> f AND FLAGS_ZF \<noteq> 0, True)),
      (0xE2, \<lambda>f r. (r \<noteq> 1, True)),
      (0xE3, \<lambda>f r. (r = 0, False))]"

definition multibyte_jmp :: "(nat, branch_outcome) dict" where
  "multibyte_jmp =
     [(0x80, \<lambda>f r. (f AND FLAGS_OF \<noteq> 0, False)),
      (0x81, \<lambda>f r. (f AND FLAGS_OF = 0, False)),
      (0x82, \<lambda>f r. (f AND FLAGS_CF \<noteq> 0, False)),
      (0x83, \<lambda>f r. (f AND FLAGS_CF = 0, False)),
      (0x84, \<lambda>f r. (f AND FLAGS_ZF \<noteq> 0, False)),
      (0x85, \<lambda>f r. (f AND FLAGS_ZF = 0, False)),
      (0x86, \<lambda>f r. (f AND FLAGS_CF \<noteq> 0 \<or> f AND FLAGS_ZF \<noteq> 0, False)),
      (0x87, \<lambda>f r. (f AND FLAGS_CF = 0 \<and> f AND FLAGS_ZF = 0, False)),
      (0x88, \<lambda>f r. (f AND FLAGS_SF \<noteq> 0, False)),
      (0x89, \<lambda>f r. (f AND FLAGS_SF = 0, False)),
      (0x8A, \<lambda>f r. (f AND FLAGS_PF \<noteq> 0, False)),
      (0x8B, \<lambda>f r. (f AND FLAGS_PF = 0, False)),
      (0x8C, \<lambda>f r. ((f AND FLAGS_SF = 0) \<noteq> (f AND FLAGS_OF = 0), False)),
      (0x8D, \<lambda>f r. ((f AND FLAGS_SF = 0) = (f AND FLAGS_OF = 0), False)),
      (0x8E, \<lambda>f r. (f AND FLAGS_ZF \<noteq> 0 \<or> (f AND FLAGS_SF = 0) \<noteq> (f AND FLAGS_OF = 0), False)),
      (0x8F, \<lambda>f r. (f AND FLAGS_ZF = 0 \<and> (f AND FLAGS_SF = 0) = (f AND FLAGS_OF = 0), False))]"

text \<open>\<^verbatim>\<open>int.from_bytes(..., signed=True)\<close>.\<close>

definition le_signed :: "byte list \<Rightarrow> int" where
  "le_signed bs =
     (if bs \<noteq> [] \<and> 2 * le_value bs \<ge> 256 ^ length bs then int (le_value bs) - 256 ^ length bs
      else int (le_value bs))"

definition jump_target :: "byte list \<Rightarrow> int" where
  "jump_target target = (if length target = 1 then int (unat (hd target)) else le_signed target)"

definition decode_x86 :: "byte list \<Rightarrow> int \<Rightarrow> int \<Rightarrow> (int \<times> bool \<times> bool) res" where
  "decode_x86 code flags rcx =
     (case code of
        [] \<Rightarrow> raise IndexError
      | c0 # c \<Rightarrow>
          if unat c0 = 0x0F
          then (case c of
              [] \<Rightarrow> raise IndexError
            | c1 # c' \<Rightarrow> (case map_of multibyte_jmp (unat c1) of
                  None \<Rightarrow> ok (jump_target [0], False, False)
                | Some outcome \<Rightarrow> ok (jump_target c', outcome flags rcx)))
          else (case map_of jumps (unat c0) of
              None \<Rightarrow> ok (jump_target [0], False, False)
            | Some outcome \<Rightarrow> ok (jump_target c, outcome flags rcx)))"

definition x86_cond_instruction ::
  "('e, 'c) spec_env \<Rightarrow> int \<Rightarrow> nat \<Rightarrow> ('e, 'c) Speculator \<Rightarrow> ('e, 'c) Speculator res" where
  "x86_cond_instruction E address sz s =
     (if max_nesting_reached s then ok s
      else if sz > 15 then ok s
      else (let U = uc E;
                code = mem_read U (emulator s) address sz;
                flags = reg_read U (emulator s) (flags_register E);
                rcx = reg_read U (emulator s) (x86_rcx E)
            in rbind (decode_x86 code flags rcx) (\<lambda>(target, will_jump, is_loop).
                 if target = 0 then ok s
                 else (let s1 = (if is_loop then s\<lparr>emulator := reg_write U (x86_rcx E) (rcx - 1) (emulator s)\<rparr> else s);
                           next_instr = (if will_jump then address + int sz + target else address + int sz)
                       in rbind (sp_checkpoint E next_instr True s1) (\<lambda>s2.
                            ok (s2\<lparr>emulator := reg_write U (x86_rip E)
                                (if will_jump then address + int sz else address + int sz + target) (emulator s2)\<rparr>))))))"

section \<open>Conditional branches on ARM64\<close>

definition FLAGS_N :: int where "FLAGS_N = 2 ^ 31"
definition FLAGS_Z :: int where "FLAGS_Z = 2 ^ 30"
definition FLAGS_C :: int where "FLAGS_C = 2 ^ 29"
definition FLAGS_V :: int where "FLAGS_V = 2 ^ 28"

definition twos_complement :: "nat \<Rightarrow> nat \<Rightarrow> int" where
  "twos_complement n n_bits =
     (let m = n AND (2 ^ n_bits - 1); sign_bit = 2 ^ (n_bits - 1)
      in if m AND sign_bit \<noteq> 0 then int m - 2 * int sign_bit else int m)"

definition decode_b_cond :: "nat \<Rightarrow> int \<Rightarrow> int \<times> bool" where
  "decode_b_cond instruction flags =
     (let target = twos_complement (drop_bit 5 instruction) 19;
          condition = instruction AND 0xf;
          n = (flags AND FLAGS_N \<noteq> 0); z = (flags AND FLAGS_Z \<noteq> 0);
          c = (flags AND FLAGS_C \<noteq> 0); v = (flags AND FLAGS_V \<noteq> 0)
      in (target,
          [z, \<not> z, c, \<not> c, n, \<not> n, v, \<not> v, c \<and> \<not> z, \<not> c \<or> z, n = v, n \<noteq> v, \<not> z \<and> n = v, z \<or> n \<noteq> v,
           True, False] ! condition))"

definition arm64_register :: "('e, 'c) spec_env \<Rightarrow> 'e \<Rightarrow> nat \<Rightarrow> int res" where
  "arm64_register E e register_index =
     (if register_index < 31
      then ok (reg_read (uc E) e (if register_index \<le> 28 then arm64_x0 E + register_index
             else arm64_x29 E + (register_index - 29)))
      else if register_index = 31 then ok 0
      else raise ValueError)"

definition decode_cb_tb :: "('e, 'c) spec_env \<Rightarrow> 'e \<Rightarrow> nat \<Rightarrow> nat \<Rightarrow> (int \<times> bool) res" where
  "decode_cb_tb E e instruction first_byte =
     (let is_32bit = (drop_bit 4 first_byte = 3)
      in rbind (arm64_register E e (instruction AND 0x1f)) (\<lambda>value.
           let register_value = (if is_32bit then value AND 0xffffffff else value)
           in if first_byte AND 0xf \<le> 5
              then ok (twos_complement (drop_bit 5 instruction) 19,
                     if first_byte AND 0xf = 4 then register_value = 0 else register_value \<noteq> 0)
              else (let bit_number = (drop_bit 19 instruction AND 0x1f) + (if is_32bit then 0 else 32);
                        b = register_value AND 2 ^ bit_number
                    in ok (twos_complement (drop_bit 5 instruction) 14,
                         if first_byte AND 0xf = 6 then b = 0 else b \<noteq> 0))))"

definition decode_arm64 :: "('e, 'c) spec_env \<Rightarrow> 'e \<Rightarrow> byte list \<Rightarrow> int \<Rightarrow> (int \<times> bool) res" where
  "decode_arm64 E e code flags =
     (let instruction = le_value code; first_byte = drop_bit 24 instruction
      in if first_byte = 0x54 \<and> instruction AND 0x10 = 0 then ok (decode_b_cond instruction flags)
         else if 0xb4 \<le> first_byte \<and> first_byte \<le> 0xb7 \<or> 0x34 \<le> first_byte \<and> first_byte \<le> 0x37
         then decode_cb_tb E e instruction first_byte
         else ok (0, False))"

definition arm64_cond_instruction ::
  "('e, 'c) spec_env \<Rightarrow> int \<Rightarrow> nat \<Rightarrow> ('e, 'c) Speculator \<Rightarrow> ('e, 'c) Speculator res" where
  "arm64_cond_instruction E address sz s =
     (if max_nesting_reached s then ok s
      else (let U = uc E;
                code = mem_read U (emulator s) address sz;
                flags = reg_read U (emulator s) (flags_register E)
            in rbind (decode_arm64 E (emulator s) code flags) (\<lambda>(target_offset, will_jump).
                 if target_offset = 0 then ok s
                 else (let next_instr = (if will_jump then address + int sz + target_offset else address + int sz)
                       in rbind (sp_checkpoint E next_instr True s) (\<lambda>s2.
                            ok (s2\<lparr>emulator := reg_write U (pc_register E)
                                (if will_jump then address + int sz else address + int sz + target_offset)
                                (emulator s2)\<rparr>))))))"

section \<open>Store bypass\<close>

text \<open>\<^verbatim>\<open>value.to_bytes(n, byteorder='little', signed=value < 0)\<close>.\<close>

definition to_bytes_auto :: "nat \<Rightarrow> int \<Rightarrow> byte list res" where
  "to_bytes_auto n v =
     (if v < 0
      then (if - (256 ^ n div 2) \<le> v then ok (le_bytes n (nat (v + 256 ^ n))) else raise OverflowError)
      else to_bytes n v)"

definition store_bpas_mem_access ::
  "('e, 'c) spec_env \<Rightarrow> access_type \<Rightarrow> int \<Rightarrow> nat \<Rightarrow> int \<Rightarrow> ('e, 'c) Speculator \<Rightarrow> ('e, 'c) Speculator res" where
  "store_bpas_mem_access E access address sz val s =
     (if access \<noteq> UC_MEM_WRITE then ok s
      else (case previous_store s of
          None \<Rightarrow> ok (s\<lparr>previous_store := Some (address, sz, mem_read (uc E) (emulator s) address sz, val)\<rparr>)
        | Some (prev_addr, prev_size, _, prev_value) \<Rightarrow>
            (let end_addr = address + int sz
             in if address \<ge> prev_addr \<and> end_addr \<le> prev_addr + int prev_size
                then rbind (to_bytes_auto prev_size prev_value) (\<lambda>prev_val.
                   (case take (nat (end_addr - prev_addr) - nat (address - prev_addr))
                           (drop (nat (address - prev_addr)) prev_val) of
                      [] \<Rightarrow> raise IndexError
                    | sliced # _ \<Rightarrow> if int (unat sliced) = val then ok s else raise NotImplementedError))
                else raise NotImplementedError)))"

definition store_bpas_instruction ::
  "('e, 'c) spec_env \<Rightarrow> int \<Rightarrow> ('e, 'c) Speculator \<Rightarrow> ('e, 'c) Speculator res" where
  "store_bpas_instruction E address s =
     (if max_nesting_reached s then ok (s\<lparr>previous_store := None\<rparr>)
      else (case previous_store s of
          None \<Rightarrow> ok (s\<lparr>previous_store := None\<rparr>)
        | Some (store_addr, sz, old_value, val) \<Rightarrow>
            rbind (to_bytes_auto sz val) (\<lambda>new_value.
            rbind (sp_checkpoint E address False s) (\<lambda>s'.
              ok (s'\<lparr>emulator := mem_write (uc E) store_addr old_value (emulator s'),
                  store_logs := ((store_addr, new_value) # hd (store_logs s')) # tl (store_logs s'),
                  previous_store := None\<rparr>)))))"

section \<open>The classes\<close>

text \<open>
  Method resolution: the combined class calls \<^verbatim>\<open>super(StoreBpasSpeculator, self)\<close> for memory accesses, which
  is the empty hook of the base class, and \<^verbatim>\<open>super(X86CondSpeculator, self)\<close> for instructions, which is the
  hook of the store bypass class.
\<close>

datatype speculator_class =
  SeqSpeculator | X86CondSpeculator | ARM64CondSpeculator | StoreBpasSpeculator | X86CondBpasSpeculator

definition is_sequential :: "speculator_class \<Rightarrow> bool" where
  "is_sequential K \<longleftrightarrow> K = SeqSpeculator"

definition speculate_instruction ::
  "speculator_class \<Rightarrow> ('e, 'c) spec_env \<Rightarrow> int \<Rightarrow> nat \<Rightarrow> ('e, 'c) Speculator \<Rightarrow> ('e, 'c) Speculator res" where
  "speculate_instruction K E address sz s =
     (case K of
        SeqSpeculator \<Rightarrow> ok s
      | X86CondSpeculator \<Rightarrow> x86_cond_instruction E address sz s
      | ARM64CondSpeculator \<Rightarrow> arm64_cond_instruction E address sz s
      | StoreBpasSpeculator \<Rightarrow> store_bpas_instruction E address s
      | X86CondBpasSpeculator \<Rightarrow> store_bpas_instruction E address s)"

definition speculate_mem_access ::
  "speculator_class \<Rightarrow> ('e, 'c) spec_env \<Rightarrow> access_type \<Rightarrow> int \<Rightarrow> nat \<Rightarrow> int \<Rightarrow> ('e, 'c) Speculator \<Rightarrow>
   ('e, 'c) Speculator res" where
  "speculate_mem_access K E access address sz val s =
     (case K of
        StoreBpasSpeculator \<Rightarrow> store_bpas_mem_access E access address sz val s
      | _ \<Rightarrow> ok s)"

definition speculate_fault :: "speculator_class \<Rightarrow> nat \<Rightarrow> int" where
  "speculate_fault K errno = 0"

definition sp_reset :: "speculator_class \<Rightarrow> ('e, 'c) spec_env \<Rightarrow> 'e \<Rightarrow> ('e, 'c) Speculator \<Rightarrow> ('e, 'c) Speculator" where
  "sp_reset K E model_emulator s =
     (if K \<in> {StoreBpasSpeculator, X86CondBpasSpeculator}
      then base_reset E model_emulator (s\<lparr>previous_store := None\<rparr>)
      else base_reset E model_emulator s)"

definition Speculator_init ::
  "speculator_class \<Rightarrow> ('e, 'c) spec_env \<Rightarrow> string \<Rightarrow> 'e \<Rightarrow> TaintTracker \<Rightarrow> ('e, 'c) Speculator res" where
  "Speculator_init K E instruction_set model_emulator t =
     (let s = sp_reset K E model_emulator \<lparr>sp_checkpoints = [], store_logs = [], max_nesting = 0, speculation_window = 0,
        max_spec_window = 0, in_speculation = False, emulator = model_emulator, taint_tracker = t, previous_store = None\<rparr>
      in py_assert (K \<in> {X86CondSpeculator, X86CondBpasSpeculator} \<longrightarrow> instruction_set = ''x86-64'')
           (py_assert (K = ARM64CondSpeculator \<longrightarrow> instruction_set = ''arm64'') (ok s)))"

definition sp_rollback ::
  "speculator_class \<Rightarrow> ('e, 'c) spec_env \<Rightarrow> ('e, 'c) Speculator \<Rightarrow> (int \<times> ('e, 'c) Speculator) res" where
  "sp_rollback K E s =
     (if K \<in> {StoreBpasSpeculator, X86CondBpasSpeculator}
      then base_rollback E (s\<lparr>previous_store := None\<rparr>)
      else base_rollback E s)"

definition handle_instruction ::
  "speculator_class \<Rightarrow> ('e, 'c) spec_env \<Rightarrow> string \<Rightarrow> int \<Rightarrow> nat \<Rightarrow> ('e, 'c) Speculator \<Rightarrow> ('e, 'c) Speculator res" where
  "handle_instruction K E inst_name address sz s =
     speculate_instruction K E address sz (count_instruction E inst_name s)"

definition handle_mem_access ::
  "speculator_class \<Rightarrow> ('e, 'c) spec_env \<Rightarrow> access_type \<Rightarrow> int \<Rightarrow> nat \<Rightarrow> int \<Rightarrow> ('e, 'c) Speculator \<Rightarrow>
   ('e, 'c) Speculator res" where
  "handle_mem_access K E access address sz val s =
     speculate_mem_access K E access address sz val (log_store E access address s)"

definition handle_fault :: "speculator_class \<Rightarrow> nat \<Rightarrow> int" where
  "handle_fault K errno = speculate_fault K errno"

section \<open>Memory and registers of the emulator\<close>

definition write_mem :: "int \<Rightarrow> byte list \<Rightarrow> (int \<Rightarrow> byte) \<Rightarrow> int \<Rightarrow> byte" where
  "write_mem a bs m = (\<lambda>x. if a \<le> x \<and> x < a + int (length bs) then bs ! nat (x - a) else m x)"

definition undo_mem :: "store_log \<Rightarrow> (int \<Rightarrow> byte) \<Rightarrow> int \<Rightarrow> byte" where
  "undo_mem l m = fold (\<lambda>(a, v). write_mem a v) l m"

lemma undo_mem_Nil [simp]: "undo_mem [] m = m"
  by (simp add: undo_mem_def)

lemma undo_mem_Cons [simp]: "undo_mem ((a, v) # l) m = undo_mem l (write_mem a v m)"
  by (simp add: undo_mem_def)

lemma laws:
  assumes "unicorn_laws U"
  shows mem_read_length: "length (mem_read U e a n) = n"
    and mem_read_nth: "i < n \<Longrightarrow> mem_read U e a n ! i = mem_byte U e (a + int i)"
    and mem_byte_mem_write: "mem_byte U (mem_write U a bs e) = write_mem a bs (mem_byte U e)"
    and reg_read_mem_write: "reg_read U (mem_write U a bs e) = reg_read U e"
    and mem_byte_reg_write: "mem_byte U (reg_write U r v e) = mem_byte U e"
    and reg_write_same: "reg_read U (reg_write U r (reg_read U e r) e) = reg_read U e"
    and mem_byte_restore: "mem_byte U (context_restore U c e) = mem_byte U e"
    and reg_read_restore: "reg_read U (context_restore U (context_save U e) e') = reg_read U e"
    and reg_read_stop: "reg_read U (emu_stop U e) = reg_read U e"
    and mem_byte_stop: "mem_byte U (emu_stop U e) = mem_byte U e"
  using assms by (auto simp: unicorn_laws_def write_mem_def fun_eq_iff)

lemma undo_log_effect:
  assumes "unicorn_laws U"
  shows "mem_byte U (undo_log U l e) = undo_mem l (mem_byte U e) \<and> reg_read U (undo_log U l e) = reg_read U e"
proof (induction l arbitrary: e)
  case Nil
  then show ?case by (simp add: undo_log_def)
next
  case (Cons x l)
  obtain a v where x: "x = (a, v)" by (cases x)
  from Cons.IH [of "mem_write U a v e"] show ?case
    using assms by (simp add: undo_log_def x mem_byte_mem_write reg_read_mem_write)
qed

lemma write_mem_read:
  assumes "unicorn_laws U" and "length bs \<le> n" and "\<And>x. m x = write_mem a bs (mem_byte U e) x"
  shows "write_mem a (mem_read U e a n) m = mem_byte U e"
proof
  fix x
  show "write_mem a (mem_read U e a n) m x = mem_byte U e x"
  proof (cases "a \<le> x \<and> x < a + int n")
    case True
    then obtain i where i: "x = a + int i" "i < n"
      by (metis add.commute add_less_cancel_left diff_add_cancel le_add_diff_inverse nonneg_int_cases of_nat_less_iff zle_iff_zadd)
    then show ?thesis
      using mem_read_nth [OF assms(1) i(2), of e a] by (simp add: write_mem_def mem_read_length [OF assms(1)])
  next
    case False
    then show ?thesis
      using assms(2,3) by (auto simp: write_mem_def mem_read_length [OF assms(1)])
  qed
qed

lemma write_mem_overwrite: "length bs = length cs \<Longrightarrow> write_mem a bs (write_mem a cs m) = write_mem a bs m"
  by (auto simp: write_mem_def fun_eq_iff)

lemma to_bytes_auto_length: "to_bytes_auto n v = Inr bs \<Longrightarrow> length bs = n"
  by (auto simp: to_bytes_auto_def to_bytes_ok_iff split: if_splits)

lemma checkpoint_effect:
  assumes "checkpoint T incl t = Inr t'"
  shows "enable_tracking t' = enable_tracking t \<and>
     (enable_tracking t \<longrightarrow> length (tt_checkpoints t') = Suc (length (tt_checkpoints t)))"
  using assms
  by (auto simp: checkpoint_def finish_def finalize_instruction_def Let_def rbind_eq_Inr_iff split: if_splits option.splits)

lemma rollback_effect:
  assumes "rollback T t = Inr t'"
  shows "enable_tracking t' = enable_tracking t \<and>
     (enable_tracking t \<longrightarrow> length (tt_checkpoints t') = length (tt_checkpoints t) - 1)"
  using assms
  by (auto simp: rollback_def finish_def finalize_instruction_def Let_def rbind_eq_Inr_iff
      split: if_splits option.splits list.splits)

section \<open>Runs of the emulator\<close>

text \<open>
  Between two hooks the emulator changes registers and memory on its own. A store is announced by the
  memory hook before it happens; it writes at most eight bytes, and a store announced while another one
  of the same instruction is pending is a single byte (Unicorn announces a store that crosses a page
  once more, byte by byte). The second component of a configuration is a ghost: the emulator state and
  the window at the time of each checkpoint. A loop instruction has its decrement of RCX included.
\<close>

definition taken_at :: "speculator_class \<Rightarrow> ('e, 'c) spec_env \<Rightarrow> int \<Rightarrow> nat \<Rightarrow> ('e, 'c) Speculator \<Rightarrow> 'e" where
  "taken_at K E address sz s =
     (let U = uc E; e = emulator s; rcx = reg_read U e (x86_rcx E)
      in if K = X86CondSpeculator
         then (case decode_x86 (mem_read U e address sz) (reg_read U e (flags_register E)) rcx of
             Inr (target, will_jump, is_loop) \<Rightarrow> if is_loop then reg_write U (x86_rcx E) (rcx - 1) e else e
           | Inl _ \<Rightarrow> e)
         else e)"

inductive spec_step ::
  "speculator_class \<Rightarrow> ('e, 'c) spec_env \<Rightarrow> ('e, 'c) Speculator \<times> ('e \<times> int) list \<Rightarrow>
   ('e, 'c) Speculator \<times> ('e \<times> int) list \<Rightarrow> bool" for K E where
  Instr: "handle_instruction K E name a sz s = Inr s' \<Longrightarrow>
    spec_step K E (s, ss) (s', if nesting s < nesting s'
      then (taken_at K E a sz (count_instruction E name s), speculation_window (count_instruction E name s)) # ss
      else ss)"
| Load: "handle_mem_access K E acc a sz v s = Inr s' \<Longrightarrow> acc \<noteq> UC_MEM_WRITE \<Longrightarrow> spec_step K E (s, ss) (s', ss)"
| Store: "handle_mem_access K E UC_MEM_WRITE a sz v s = Inr s1 \<Longrightarrow> sz \<le> 8 \<Longrightarrow> (previous_store s \<noteq> None \<longrightarrow> sz = 1) \<Longrightarrow>
    to_bytes_auto sz v = Inr bs \<Longrightarrow> mem_byte (uc E) e' = write_mem a bs (mem_byte (uc E) (emulator s)) \<Longrightarrow>
    spec_step K E (s, ss) (s1\<lparr>emulator := e'\<rparr>, ss)"
| Exec: "mem_byte (uc E) e' = mem_byte (uc E) (emulator s) \<Longrightarrow> spec_step K E (s, ss) (s\<lparr>emulator := e'\<rparr>, ss)"
| Track: "tt_checkpoints t = tt_checkpoints (taint_tracker s) \<Longrightarrow>
    enable_tracking t = enable_tracking (taint_tracker s) \<Longrightarrow> spec_step K E (s, ss) (s\<lparr>taint_tracker := t\<rparr>, ss)"
| Rollback: "sp_rollback K E s = Inr (pc, s') \<Longrightarrow> spec_step K E (s, ss) (s', tl ss)"

fun mems_ok :: "('e, 'c) unicorn \<Rightarrow> store_log list \<Rightarrow> ('e \<times> int) list \<Rightarrow> (int \<Rightarrow> byte) \<Rightarrow> bool" where
  "mems_ok U [] [] m = True"
| "mems_ok U (l # ls) ((e0, w) # ss) m \<longleftrightarrow> undo_mem l m = mem_byte U e0 \<and> mems_ok U ls ss (mem_byte U e0)"
| "mems_ok U _ _ m = False"

definition checkpoint_ok :: "('e, 'c) spec_env \<Rightarrow> 'c \<times> int \<times> int \<times> int \<Rightarrow> 'e \<times> int \<Rightarrow> bool" where
  "checkpoint_ok E cp snap \<longleftrightarrow>
     (case (cp, snap) of ((c, _, f, w), (e0, w0)) \<Rightarrow>
        c = context_save (uc E) e0 \<and> f = reg_read (uc E) e0 (flags_register E) \<and> w = w0)"

definition pending_ok :: "speculator_class \<Rightarrow> ('e, 'c) spec_env \<Rightarrow> ('e, 'c) Speculator \<Rightarrow> bool" where
  "pending_ok K E s \<longleftrightarrow>
     (case previous_store s of
        None \<Rightarrow> True
      | Some (a, sz, old, v) \<Rightarrow> K = StoreBpasSpeculator \<and> length old = sz \<and>
          (\<exists>bs. to_bytes_auto sz v = Inr bs \<and> write_mem a bs (mem_byte (uc E) (emulator s)) = mem_byte (uc E) (emulator s)))"

definition counts_ok :: "('e, 'c) Speculator \<Rightarrow> bool" where
  "counts_ok s \<longleftrightarrow> in_speculation s = (sp_checkpoints s \<noteq> []) \<and> length (store_logs s) = nesting s \<and>
     int (nesting s) \<le> max 0 (max_nesting s) \<and>
     (enable_tracking (taint_tracker s) \<longrightarrow> length (tt_checkpoints (taint_tracker s)) = nesting s)"

definition spec_ok ::
  "speculator_class \<Rightarrow> ('e, 'c) spec_env \<Rightarrow> ('e, 'c) Speculator \<times> ('e \<times> int) list \<Rightarrow> bool" where
  "spec_ok K E c \<longleftrightarrow>
     (case c of (s, ss) \<Rightarrow> counts_ok s \<and> pending_ok K E s \<and> list_all2 (checkpoint_ok E) (sp_checkpoints s) ss \<and>
        mems_ok (uc E) (store_logs s) ss (mem_byte (uc E) (emulator s)))"

section \<open>The hooks\<close>

text \<open>What a hook does to the stacks: nothing, or exactly one checkpoint.\<close>

definition same_stacks :: "('e, 'c) spec_env \<Rightarrow> ('e, 'c) Speculator \<Rightarrow> ('e, 'c) Speculator \<Rightarrow> bool" where
  "same_stacks E s s' \<longleftrightarrow> sp_checkpoints s' = sp_checkpoints s \<and> store_logs s' = store_logs s \<and>
     in_speculation s' = in_speculation s \<and> max_nesting s' = max_nesting s \<and> taint_tracker s' = taint_tracker s \<and>
     mem_byte (uc E) (emulator s') = mem_byte (uc E) (emulator s)"

definition one_checkpoint ::
  "speculator_class \<Rightarrow> ('e, 'c) spec_env \<Rightarrow> int \<Rightarrow> nat \<Rightarrow> ('e, 'c) Speculator \<Rightarrow> ('e, 'c) Speculator \<Rightarrow> bool" where
  "one_checkpoint K E a sz s s' \<longleftrightarrow>
     (let U = uc E; e0 = taken_at K E a sz s
      in \<not> max_nesting_reached s \<and>
         (\<exists>next l0 incl. sp_checkpoints s' = (context_save U e0, next, reg_read U e0 (flags_register E), speculation_window s)
              # sp_checkpoints s \<and>
            store_logs s' = l0 # store_logs s \<and> undo_mem l0 (mem_byte U (emulator s')) = mem_byte U (emulator s) \<and>
            checkpoint (tt_target E) incl (taint_tracker s) = Inr (taint_tracker s')) \<and>
         in_speculation s' \<and> max_nesting s' = max_nesting s)"

lemma count_instruction_same:
  assumes "unicorn_laws (uc E)"
  shows "same_stacks E s (count_instruction E name s)"
    and "previous_store (count_instruction E name s) = previous_store s"
  using assms by (simp_all add: count_instruction_def same_stacks_def Let_def mem_byte_stop)

lemma x86_cond_instruction_stacks:
  assumes "unicorn_laws (uc E)" and "x86_cond_instruction E a sz s = Inr s'"
  shows "(s' = s \<or> one_checkpoint X86CondSpeculator E a sz s s') \<and> previous_store s' = previous_store s"
  using assms
  by (auto simp: x86_cond_instruction_def one_checkpoint_def taken_at_def sp_checkpoint_def Let_def rbind_eq_Inr_iff
      mem_byte_reg_write split: if_splits prod.splits)

lemma arm64_cond_instruction_stacks:
  assumes "unicorn_laws (uc E)" and "arm64_cond_instruction E a sz s = Inr s'"
  shows "(s' = s \<or> one_checkpoint ARM64CondSpeculator E a sz s s') \<and> previous_store s' = previous_store s"
  using assms
  by (auto simp: arm64_cond_instruction_def one_checkpoint_def taken_at_def sp_checkpoint_def Let_def rbind_eq_Inr_iff
      mem_byte_reg_write split: if_splits prod.splits)

lemma store_bpas_instruction_stacks:
  assumes "unicorn_laws (uc E)" and "store_bpas_instruction E a s = Inr s'" and "pending_ok K E s"
  shows "(s' = s\<lparr>previous_store := None\<rparr> \<or> one_checkpoint K E a sz s s') \<and> previous_store s' = None"
proof (cases "max_nesting_reached s \<or> previous_store s = None")
  case True
  then have "s' = s\<lparr>previous_store := None\<rparr>"
    using assms(2) by (cases "max_nesting_reached s") (simp_all add: store_bpas_instruction_def)
  then show ?thesis by simp
next
  case False
  then obtain addr n old v where p: "previous_store s = Some (addr, n, old, v)" by auto
  let ?m = "mem_byte (uc E) (emulator s)"
  from assms(3) p obtain bs where K: "K = StoreBpasSpeculator" and len: "length old = n"
    and bs: "to_bytes_auto n v = Inr bs" "write_mem addr bs ?m = ?m"
    by (auto simp: pending_ok_def)
  have "write_mem addr bs (write_mem addr old ?m) = ?m"
    using bs write_mem_overwrite [of bs old addr ?m] to_bytes_auto_length [OF bs(1)] len by simp
  then show ?thesis
    using False assms(1,2) p bs K
    by (auto simp: store_bpas_instruction_def one_checkpoint_def taken_at_def sp_checkpoint_def Let_def rbind_eq_Inr_iff
        mem_byte_mem_write)
qed

lemma speculate_instruction_stacks:
  assumes "unicorn_laws (uc E)" and "speculate_instruction K E a sz s = Inr s'" and "pending_ok K E s"
  shows "(same_stacks E s s' \<or> one_checkpoint K E a sz s s') \<and> (previous_store s' = None \<or> s' = s)"
proof (cases K)
  case SeqSpeculator
  then show ?thesis using assms(2) by (simp add: speculate_instruction_def same_stacks_def)
next
  case X86CondSpeculator
  moreover from this have "previous_store s = None"
    using assms(3) by (auto simp: pending_ok_def split: option.splits)
  ultimately show ?thesis
    using assms(2) x86_cond_instruction_stacks [OF assms(1), of a sz s s']
    by (auto simp: speculate_instruction_def same_stacks_def)
next
  case ARM64CondSpeculator
  moreover from this have "previous_store s = None"
    using assms(3) by (auto simp: pending_ok_def split: option.splits)
  ultimately show ?thesis
    using assms(2) arm64_cond_instruction_stacks [OF assms(1), of a sz s s']
    by (auto simp: speculate_instruction_def same_stacks_def)
next
  case StoreBpasSpeculator
  then show ?thesis
    using assms(2) store_bpas_instruction_stacks [OF assms(1) _ assms(3), of a s' sz]
    by (auto simp: speculate_instruction_def same_stacks_def)
next
  case X86CondBpasSpeculator
  then show ?thesis
    using assms(2) store_bpas_instruction_stacks [OF assms(1) _ assms(3), of a s' sz]
    by (auto simp: speculate_instruction_def same_stacks_def)
qed

lemma one_checkpoint_ok:
  assumes U: "unicorn_laws (uc E)" and ok: "spec_ok K E (s, ss)" and one: "one_checkpoint K E a sz s s'"
    and pend: "previous_store s' = None"
  shows "spec_ok K E (s', (taken_at K E a sz s, speculation_window s) # ss) \<and> nesting s' = Suc (nesting s)"
proof -
  let ?e0 = "taken_at K E a sz s"
  have mem: "mem_byte (uc E) ?e0 = mem_byte (uc E) (emulator s)"
    using U by (simp add: taken_at_def Let_def mem_byte_reg_write split: sum.splits prod.splits)
  from one obtain nxt l0 incl where c: "\<not> max_nesting_reached s"
    "sp_checkpoints s' = (context_save (uc E) ?e0, nxt, reg_read (uc E) ?e0 (flags_register E), speculation_window s) # sp_checkpoints s"
    "store_logs s' = l0 # store_logs s" "undo_mem l0 (mem_byte (uc E) (emulator s')) = mem_byte (uc E) (emulator s)"
    "checkpoint (tt_target E) incl (taint_tracker s) = Inr (taint_tracker s')"
    "in_speculation s'" "max_nesting s' = max_nesting s"
    by (auto simp: one_checkpoint_def Let_def)
  have t: "enable_tracking (taint_tracker s') = enable_tracking (taint_tracker s)"
    "enable_tracking (taint_tracker s) \<Longrightarrow>
       length (tt_checkpoints (taint_tracker s')) = Suc (length (tt_checkpoints (taint_tracker s)))"
    using checkpoint_effect [OF c(5)] by auto
  show ?thesis
    using ok c mem t pend
    by (auto simp: spec_ok_def counts_ok_def pending_ok_def nesting_def max_nesting_reached_def checkpoint_ok_def)
qed

lemma same_stacks_ok:
  assumes "spec_ok K E (s, ss)" and "same_stacks E s s'" and "pending_ok K E s'"
  shows "spec_ok K E (s', ss) \<and> nesting s' = nesting s"
  using assms by (auto simp: spec_ok_def same_stacks_def counts_ok_def nesting_def)

lemma pending_ok_cong:
  assumes "previous_store s' = previous_store s" and "mem_byte (uc E) (emulator s') = mem_byte (uc E) (emulator s)"
  shows "pending_ok K E s' = pending_ok K E s"
  unfolding pending_ok_def assms by (rule refl)

lemma pending_ok_same:
  assumes "pending_ok K E s" and "same_stacks E s s'" and "previous_store s' = previous_store s"
  shows "pending_ok K E s'"
  using assms pending_ok_cong [of s' s E K] by (simp add: same_stacks_def)

lemma handle_instruction_ok:
  assumes U: "unicorn_laws (uc E)" and ok: "spec_ok K E (s, ss)" and h: "handle_instruction K E name a sz s = Inr s'"
  shows "spec_ok K E (s', if nesting s < nesting s'
      then (taken_at K E a sz (count_instruction E name s), speculation_window (count_instruction E name s)) # ss else ss)"
proof -
  let ?s = "count_instruction E name s"
  have same: "same_stacks E s ?s" "previous_store ?s = previous_store s"
    using count_instruction_same [OF U] by auto
  have pend: "pending_ok K E ?s" using ok pending_ok_same [OF _ same] by (simp add: spec_ok_def)
  have ok': "spec_ok K E (?s, ss)" "nesting ?s = nesting s" using same_stacks_ok [OF ok same(1) pend] by auto
  from h have h': "speculate_instruction K E a sz ?s = Inr s'" by (simp add: handle_instruction_def)
  from speculate_instruction_stacks [OF U h' pend]
  consider "same_stacks E ?s s'" "pending_ok K E s'" | "one_checkpoint K E a sz ?s s'" "previous_store s' = None"
    using pend by (auto simp: pending_ok_def one_checkpoint_def same_stacks_def Let_def)
  then show ?thesis
  proof cases
    case 1
    then show ?thesis using same_stacks_ok [OF ok'(1)] ok'(2) by simp
  next
    case 2
    then show ?thesis using one_checkpoint_ok [OF U ok'(1)] ok'(2) by simp
  qed
qed

lemma log_store_fields:
  "sp_checkpoints (log_store E acc a s) = sp_checkpoints s" "emulator (log_store E acc a s) = emulator s"
  "in_speculation (log_store E acc a s) = in_speculation s" "max_nesting (log_store E acc a s) = max_nesting s"
  "taint_tracker (log_store E acc a s) = taint_tracker s" "previous_store (log_store E acc a s) = previous_store s"
  "length (store_logs (log_store E acc a s)) = length (store_logs s)"
  by (simp_all add: log_store_def split: list.splits)

lemma log_store_mems:
  assumes U: "unicorn_laws (uc E)" and "mems_ok (uc E) (store_logs s) ss (mem_byte (uc E) (emulator s))"
    and len: "length bs \<le> 8" and m: "m = write_mem a bs (mem_byte (uc E) (emulator s))"
  shows "mems_ok (uc E) (store_logs (log_store E UC_MEM_WRITE a s)) ss m"
  using assms(2)
proof (cases "store_logs s")
  case Nil
  then show ?thesis using assms(2) by (cases ss) (auto simp: log_store_def)
next
  case (Cons l ls)
  have "write_mem a (mem_read (uc E) (emulator s) a 8) m = mem_byte (uc E) (emulator s)"
    using write_mem_read [OF U len] m by simp
  then show ?thesis using assms(2) Cons by (cases ss) (auto simp: log_store_def)
qed

lemma store_bpas_first_access:
  "previous_store s = None \<Longrightarrow> store_bpas_mem_access E UC_MEM_WRITE a sz v s = Inr s' \<Longrightarrow>
     s' = s\<lparr>previous_store := Some (a, sz, mem_read (uc E) (emulator s) a sz, v)\<rparr>"
  by (simp add: store_bpas_mem_access_def)

lemma store_bpas_second_access:
  assumes "previous_store s = Some (pa, psz, old, pv)" and "store_bpas_mem_access E UC_MEM_WRITE a sz v s = Inr s'"
    and pb: "to_bytes_auto psz pv = Inr pb"
  shows "s' = s \<and> pa \<le> a \<and> a < pa + int psz \<and> int (unat (pb ! nat (a - pa))) = v"
proof (cases "take (nat (a + int sz - pa) - nat (a - pa)) (drop (nat (a - pa)) pb)")
  case Nil
  have "store_bpas_mem_access E UC_MEM_WRITE a sz v s =
      (if pa \<le> a \<and> a + int sz \<le> pa + int psz
       then (case take (nat (a + int sz - pa) - nat (a - pa)) (drop (nat (a - pa)) pb) of
               [] \<Rightarrow> raise IndexError | b # _ \<Rightarrow> if int (unat b) = v then ok s else raise NotImplementedError)
       else raise NotImplementedError)"
    by (simp add: store_bpas_mem_access_def assms(1) pb Let_def)
  then have "store_bpas_mem_access E UC_MEM_WRITE a sz v s \<noteq> Inr s'"
    unfolding Nil by simp
  then show ?thesis using assms(2) by contradiction
next
  case (Cons b bs)
  then have "drop (nat (a - pa)) pb \<noteq> []" "hd (drop (nat (a - pa)) pb) = b"
    by (auto, metis hd_append2 append_take_drop_id list.sel(1) list.discI)
  then have "nat (a - pa) < length pb" "pb ! nat (a - pa) = b" by (auto simp: hd_drop_conv_nth)
  then show ?thesis
    using assms Cons to_bytes_auto_length [OF pb] by (auto simp: store_bpas_mem_access_def Let_def split: if_splits)
qed

lemma write_mem_same_byte:
  assumes "write_mem pa pb m = m" and "pa \<le> a" and "a < pa + int (length pb)"
  shows "write_mem a [pb ! nat (a - pa)] m = m"
proof
  fix x
  have "m a = pb ! nat (a - pa)" using assms by (metis write_mem_def)
  then show "write_mem a [pb ! nat (a - pa)] m x = m x" by (cases "x = a") (auto simp: write_mem_def)
qed

lemma to_bytes_auto_byte: "to_bytes_auto 1 (int (unat b)) = Inr [b]"
  using uint_lt2p [of b] by (simp add: to_bytes_auto_def to_bytes_def)

lemma write_mem_idem: "write_mem a bs (write_mem a bs m) = write_mem a bs m"
  by (rule write_mem_overwrite) simp

lemma speculate_store_ok:
  assumes U: "unicorn_laws (uc E)" and p: "pending_ok K E s" and h: "speculate_mem_access K E UC_MEM_WRITE a sz v s = Inr s'"
    and dup: "previous_store s \<noteq> None \<longrightarrow> sz = 1" and bs: "to_bytes_auto sz v = Inr bs"
    and e': "mem_byte (uc E) e' = write_mem a bs (mem_byte (uc E) (emulator s))"
  shows "pending_ok K E (s'\<lparr>emulator := e'\<rparr>) \<and> (\<exists>q. s' = s\<lparr>previous_store := q\<rparr>)"
proof (cases "K = StoreBpasSpeculator")
  case False
  then have "s' = s" using h by (cases K) (simp_all add: speculate_mem_access_def)
  moreover have "previous_store s = None" using False p by (auto simp: pending_ok_def split: option.splits)
  ultimately show ?thesis by (auto simp: pending_ok_def intro: exI [of _ "previous_store s"])
next
  case K: True
  then have h': "store_bpas_mem_access E UC_MEM_WRITE a sz v s = Inr s'" using h by (simp add: speculate_mem_access_def)
  show ?thesis
  proof (cases "previous_store s")
    case None
    show ?thesis
      using store_bpas_first_access [OF None h'] bs e' K
      by (auto simp: pending_ok_def mem_read_length [OF U] write_mem_idem)
  next
    case (Some q)
    obtain pa psz old pv where q: "q = (pa, psz, old, pv)" by (cases q)
    let ?m = "mem_byte (uc E) (emulator s)"
    from p Some q obtain pb where pb: "to_bytes_auto psz pv = Inr pb" "write_mem pa pb ?m = ?m"
      by (auto simp: pending_ok_def)
    note d = store_bpas_second_access [OF _ h' pb(1), of pa old] 
    have "to_bytes_auto 1 v = Inr [pb ! nat (a - pa)]" using d Some q to_bytes_auto_byte by metis
    then have "bs = [pb ! nat (a - pa)]" using dup Some bs by simp
    then have "mem_byte (uc E) e' = ?m"
      using e' write_mem_same_byte [OF pb(2), of a] d Some q to_bytes_auto_length [OF pb(1)] by simp
    moreover have "s' = s" using d Some q by simp
    ultimately show ?thesis
      using p by (auto simp: pending_ok_def split: option.splits intro: exI [of _ "previous_store s"])
  qed
qed

lemma handle_store_ok:
  assumes U: "unicorn_laws (uc E)" and ok: "spec_ok K E (s, ss)" and h: "handle_mem_access K E UC_MEM_WRITE a sz v s = Inr s1"
    and sz: "sz \<le> 8" and dup: "previous_store s \<noteq> None \<longrightarrow> sz = 1" and bs: "to_bytes_auto sz v = Inr bs"
    and e': "mem_byte (uc E) e' = write_mem a bs (mem_byte (uc E) (emulator s))"
  shows "spec_ok K E (s1\<lparr>emulator := e'\<rparr>, ss)"
proof -
  let ?s = "log_store E UC_MEM_WRITE a s"
  have p: "pending_ok K E ?s" using ok pending_ok_cong [of ?s s E K] by (simp add: spec_ok_def log_store_fields)
  from h have "speculate_mem_access K E UC_MEM_WRITE a sz v ?s = Inr s1" by (simp add: handle_mem_access_def)
  from speculate_store_ok [OF U p this _ bs, of e'] dup e' obtain q where
    "pending_ok K E (s1\<lparr>emulator := e'\<rparr>)" and s1: "s1 = ?s\<lparr>previous_store := q\<rparr>"
    by (auto simp: log_store_fields)
  moreover have "mems_ok (uc E) (store_logs ?s) ss (mem_byte (uc E) e')"
    using log_store_mems [OF U _ _ e'] ok sz to_bytes_auto_length [OF bs] by (simp add: spec_ok_def)
  ultimately show ?thesis using ok by (auto simp: spec_ok_def counts_ok_def nesting_def log_store_fields)
qed

lemma handle_load_ok:
  assumes ok: "spec_ok K E (s, ss)" and h: "handle_mem_access K E acc a sz v s = Inr s'" and acc: "acc \<noteq> UC_MEM_WRITE"
  shows "spec_ok K E (s', ss)"
proof -
  have "log_store E acc a s = s" using acc by (simp add: log_store_def split: list.splits)
  then have "s' = s"
    using h acc by (cases K) (simp_all add: handle_mem_access_def speculate_mem_access_def store_bpas_mem_access_def)
  with ok show ?thesis by simp
qed

lemma base_rollback_ok:
  assumes U: "unicorn_laws (uc E)" and ok: "spec_ok K E (s, ss)" and pend: "previous_store s = None"
    and rb: "base_rollback E s = Inr (pc, s')"
  shows "spec_ok K E (s', tl ss) \<and> (\<exists>e0 w. ss = (e0, w) # tl ss \<and> reg_read (uc E) (emulator s') = reg_read (uc E) e0 \<and>
     mem_byte (uc E) (emulator s') = mem_byte (uc E) e0 \<and> speculation_window s' = w)"
proof -
  from rb obtain c f w cps l ls t where
    cp: "sp_checkpoints s = (c, pc, f, w) # cps" and log: "store_logs s = l # ls" and
    t: "rollback (tt_target E) (taint_tracker s) = Inr t" and
    s': "s' = s\<lparr>sp_checkpoints := cps, store_logs := ls, in_speculation := (if cps = [] then False else in_speculation s),
      speculation_window := w, emulator := reg_write (uc E) (flags_register E) f
         (undo_log (uc E) l (context_restore (uc E) c (emulator s))), taint_tracker := t\<rparr>"
    by (auto simp: base_rollback_def Let_def rbind_eq_Inr_iff split: list.splits prod.splits)
  from ok cp obtain e0 ss' where ss: "ss = (e0, w) # ss'" and c: "c = context_save (uc E) e0"
    and f: "f = reg_read (uc E) e0 (flags_register E)" and rest: "list_all2 (checkpoint_ok E) cps ss'"
    by (auto simp: spec_ok_def list_all2_Cons1 checkpoint_ok_def)
  from ok log ss have m: "undo_mem l (mem_byte (uc E) (emulator s)) = mem_byte (uc E) e0"
    and ms: "mems_ok (uc E) ls ss' (mem_byte (uc E) e0)"
    by (auto simp: spec_ok_def)
  let ?e2 = "undo_log (uc E) l (context_restore (uc E) c (emulator s))"
  have e2: "reg_read (uc E) ?e2 = reg_read (uc E) e0" "mem_byte (uc E) ?e2 = mem_byte (uc E) e0"
    using undo_log_effect [OF U] m by (simp_all add: c reg_read_restore [OF U] mem_byte_restore [OF U])
  have regs: "reg_read (uc E) (emulator s') = reg_read (uc E) e0"
    using reg_write_same [OF U, of "flags_register E" ?e2] e2 by (simp add: s' f)
  have mem: "mem_byte (uc E) (emulator s') = mem_byte (uc E) e0"
    using e2 by (simp add: s' mem_byte_reg_write [OF U])
  have "spec_ok K E (s', ss')"
    using ok cp log rest ms mem rollback_effect [OF t] pend
    by (auto simp: spec_ok_def counts_ok_def nesting_def pending_ok_def s')
  then show ?thesis using ss regs mem by (auto simp: s')
qed

lemma sp_rollback_ok:
  assumes U: "unicorn_laws (uc E)" and ok: "spec_ok K E (s, ss)" and rb: "sp_rollback K E s = Inr (pc, s')"
  shows "spec_ok K E (s', tl ss) \<and> (\<exists>e0 w. ss = (e0, w) # tl ss \<and> reg_read (uc E) (emulator s') = reg_read (uc E) e0 \<and>
     mem_byte (uc E) (emulator s') = mem_byte (uc E) e0 \<and> speculation_window s' = w)"
proof -
  let ?s = "s\<lparr>previous_store := None\<rparr>"
  have "spec_ok K E (?s, ss)" using ok by (auto simp: spec_ok_def counts_ok_def pending_ok_def nesting_def)
  moreover have "base_rollback E ?s = Inr (pc, s') \<or> previous_store s = None \<and> base_rollback E s = Inr (pc, s')"
    using rb ok by (auto simp: sp_rollback_def spec_ok_def pending_ok_def split: if_splits option.splits)
  ultimately show ?thesis using base_rollback_ok [OF U] ok by fastforce
qed

lemma spec_step_ok:
  assumes "unicorn_laws (uc E)" and "spec_step K E c c'" and "spec_ok K E c"
  shows "spec_ok K E c'"
  using assms(2,3)
proof cases
  case (Instr name a sz s s' ss)
  then show ?thesis using handle_instruction_ok [OF assms(1)] assms(3) by blast
next
  case (Load acc a sz v s s' ss)
  then show ?thesis using handle_load_ok assms(3) by blast
next
  case (Store a sz v s s1 bs e' ss)
  then show ?thesis using handle_store_ok [OF assms(1)] assms(3) by blast
next
  case (Exec e' s ss)
  then show ?thesis
    using assms(3) pending_ok_cong [of "s\<lparr>emulator := e'\<rparr>" s E K] by (simp add: spec_ok_def counts_ok_def nesting_def)
next
  case (Track t s ss)
  then show ?thesis
    using assms(3) pending_ok_cong [of "s\<lparr>taint_tracker := t\<rparr>" s E K] by (simp add: spec_ok_def counts_ok_def nesting_def)
next
  case (Rollback s pc s' ss)
  then show ?thesis using sp_rollback_ok [OF assms(1)] assms(3) by blast
qed

lemma spec_steps_ok:
  assumes "unicorn_laws (uc E)" and "(spec_step K E)\<^sup>*\<^sup>* c c'" and "spec_ok K E c"
  shows "spec_ok K E c'"
  using assms(2,3) by (induction rule: rtranclp_induct) (auto intro: spec_step_ok [OF assms(1)])

lemma sp_reset_ok:
  assumes "tt_checkpoints (taint_tracker s) = []" and "previous_store s = None"
  shows "spec_ok K E (sp_reset K E e s, [])"
  using assms by (simp add: spec_ok_def counts_ok_def pending_ok_def sp_reset_def base_reset_def nesting_def)

text \<open>
  C4: a rollback undoes the whole speculative episode. From a reset speculator of any of the modelled
  classes, after any number of instructions, loads, stores, nested checkpoints and rollbacks, the
  rollback puts every register, every byte of memory and the window counter back to their values at
  the most recent checkpoint that is still open.
\<close>
theorem rollback_restores_checkpoint:
  assumes "unicorn_laws (uc E)" and "tt_checkpoints (taint_tracker s0) = []" and "previous_store s0 = None"
    and "(spec_step K E)\<^sup>*\<^sup>* (sp_reset K E e0 s0, []) (s, ss)" and "sp_rollback K E s = Inr (pc, s')"
  shows "\<exists>e w ss'. ss = (e, w) # ss' \<and> (\<forall>r. reg_read (uc E) (emulator s') r = reg_read (uc E) e r) \<and>
     (\<forall>a. mem_byte (uc E) (emulator s') a = mem_byte (uc E) e a) \<and> speculation_window s' = w \<and>
     in_speculation s' = (ss' \<noteq> [])"
proof -
  have ok: "spec_ok K E (s, ss)" using spec_steps_ok [OF assms(1,4)] sp_reset_ok [OF assms(2,3)] by blast
  from sp_rollback_ok [OF assms(1) ok assms(5)] obtain e w where
    ok': "spec_ok K E (s', tl ss)" and ss: "ss = (e, w) # tl ss" and
    eq: "reg_read (uc E) (emulator s') = reg_read (uc E) e" "mem_byte (uc E) (emulator s') = mem_byte (uc E) e"
    "speculation_window s' = w"
    by blast
  have "in_speculation s' = (tl ss \<noteq> [])"
    using ok' by (auto simp: spec_ok_def counts_ok_def list_all2_lengthD)
  then show ?thesis using ss eq by (intro exI [of _ e] exI [of _ w] exI [of _ "tl ss"]) simp
qed

text \<open>
  C7: the stacks stay balanced. In every reachable state the speculator is in speculation exactly when
  a checkpoint is open, there is one store log per checkpoint, the taint tracker (when enabled) holds
  as many checkpoints, the nesting bound is respected, and a rollback is possible: it can only fail
  through an instruction the taint tracker cannot finalise.
\<close>
theorem speculation_stacks_balanced:
  assumes "unicorn_laws (uc E)" and "tt_checkpoints (taint_tracker s0) = []" and "previous_store s0 = None"
    and "(spec_step K E)\<^sup>*\<^sup>* (sp_reset K E e0 s0, []) (s, ss)"
  shows "in_speculation s = (0 < nesting s) \<and> length (store_logs s) = nesting s \<and>
     int (nesting s) \<le> max 0 (max_nesting s) \<and>
     (enable_tracking (taint_tracker s) \<longrightarrow> length (tt_checkpoints (taint_tracker s)) = nesting s) \<and>
     (in_speculation s \<and> (\<exists>t. finish (tt_target E) (taint_tracker s) = Inr t) \<longrightarrow>
       (\<exists>pc s'. sp_rollback K E s = Inr (pc, s') \<and> nesting s = Suc (nesting s')))"
proof -
  have ok: "spec_ok K E (s, ss)" using spec_steps_ok [OF assms(1,4)] sp_reset_ok [OF assms(2,3)] by blast
  then have c: "counts_ok s" by (simp add: spec_ok_def)
  have "\<exists>pc s'. sp_rollback K E s = Inr (pc, s') \<and> nesting s = Suc (nesting s')"
    if sp: "in_speculation s" and fin: "finish (tt_target E) (taint_tracker s) = Inr t" for t
  proof -
    from c sp obtain cp cps l ls where "sp_checkpoints s = cp # cps" "store_logs s = l # ls"
      by (auto simp: counts_ok_def nesting_def neq_Nil_conv length_Suc_conv)
    moreover from this c fin have "\<exists>t'. rollback (tt_target E) (taint_tracker s) = Inr t'"
      by (auto simp: rollback_def counts_ok_def nesting_def length_Suc_conv)
    ultimately show ?thesis
      by (auto simp: sp_rollback_def base_rollback_def nesting_def Let_def split: prod.splits)
  qed
  then show ?thesis using c by (auto simp: counts_ok_def nesting_def)
qed

section \<open>Decoding of branches\<close>

text \<open>The condition codes of the x86 manual: the upper three bits choose a predicate, the lowest bit negates it.\<close>

definition x86_condition :: "nat \<Rightarrow> int \<Rightarrow> bool" where
  "x86_condition n f =
     (let cf = bit f 0; pf = bit f 2; zf = bit f 6; sf = bit f 7; ov = bit f 11;
          p = [ov, cf, zf, cf \<or> zf, sf, pf, sf \<noteq> ov, zf \<or> sf \<noteq> ov] ! (n div 2)
      in if even n then p else \<not> p)"

lemma flag_masks:
  "(f AND FLAGS_CF = 0) = (\<not> bit f 0)" "(f AND FLAGS_PF = 0) = (\<not> bit f 2)" "(f AND FLAGS_ZF = 0) = (\<not> bit f 6)"
  "(f AND FLAGS_SF = 0) = (\<not> bit f 7)" "(f AND FLAGS_OF = 0) = (\<not> bit f 11)"
proof -
  have m: "(f AND 2 ^ k = 0) = (\<not> bit f k)" for k
    using and_exp_eq_0_iff_not_bit [of f k] by simp
  show "(f AND FLAGS_CF = 0) = (\<not> bit f 0)" "(f AND FLAGS_PF = 0) = (\<not> bit f 2)" "(f AND FLAGS_ZF = 0) = (\<not> bit f 6)"
    "(f AND FLAGS_SF = 0) = (\<not> bit f 7)" "(f AND FLAGS_OF = 0) = (\<not> bit f 11)"
    using m [of 0] m [of 2] m [of 6] m [of 7] m [of 11]
    by (simp_all add: FLAGS_CF_def FLAGS_PF_def FLAGS_ZF_def FLAGS_SF_def FLAGS_OF_def)
qed

lemma upto_16: "{0..<16} = set [0, 1, 2, 3, 4, 5, 6, 7] \<union> (\<lambda>k. k + 8) ` set [0, 1, 2, 3, 4, 5, 6, 7 :: nat]"
  by (auto, presburger)

lemma short_table: "n \<in> {0..<16} \<Longrightarrow> \<exists>g. map_of jumps (0x70 + n) = Some g \<and> (\<forall>f r. g f r = (x86_condition n f, False))"
  unfolding upto_16 by (auto simp: jumps_def x86_condition_def flag_masks Let_def)

lemma near_table: "n \<in> {0..<16} \<Longrightarrow> \<exists>g. map_of multibyte_jmp (0x80 + n) = Some g \<and> (\<forall>f r. g f r = (x86_condition n f, False))"
  unfolding upto_16 by (auto simp: multibyte_jmp_def x86_condition_def flag_masks Let_def)

lemma unat_opcode: "n < 256 \<Longrightarrow> unat (word_of_nat n :: byte) = n"
  by (simp add: unat_of_nat)

definition short_jcc :: "nat \<Rightarrow> byte \<Rightarrow> byte list" where
  "short_jcc n d = [word_of_nat (0x70 + n), d]"

definition near_jcc :: "nat \<Rightarrow> byte list \<Rightarrow> byte list" where
  "near_jcc n d = 0x0F # word_of_nat (0x80 + n) # d"

lemma decode_short_jcc:
  assumes "n < 16"
  shows "decode_x86 (short_jcc n d) f r = Inr (int (unat d), x86_condition n f, False)"
proof -
  have u: "unat (0x70 + word_of_nat n :: byte) = 0x70 + n" using unat_opcode [of "0x70 + n"] assms by simp
  obtain g where "map_of jumps (0x70 + n) = Some g" "\<And>f r. g f r = (x86_condition n f, False)"
    using short_table [of n] assms by auto
  then show ?thesis using assms by (simp add: short_jcc_def decode_x86_def u jump_target_def)
qed

lemma decode_near_jcc:
  assumes "n < 16" and "length d \<noteq> 1"
  shows "decode_x86 (near_jcc n d) f r = Inr (le_signed d, x86_condition n f, False)"
proof -
  have u: "unat (0x80 + word_of_nat n :: byte) = 0x80 + n" using unat_opcode [of "0x80 + n"] assms by simp
  obtain g where "map_of multibyte_jmp (0x80 + n) = Some g" "\<And>f r. g f r = (x86_condition n f, False)"
    using near_table [of n] assms(1) by auto
  then show ?thesis using assms by (simp add: near_jcc_def decode_x86_def u jump_target_def)
qed

lemma le_signed_byte: "le_signed [d] = (if unat d < 128 then int (unat d) else int (unat d) - 256)"
  by (simp add: le_signed_def)

lemma x86_cond_instruction_taken:
  assumes "\<not> max_nesting_reached s" and "sz \<le> 15" and "mem_read (uc E) (emulator s) a sz = code"
    and "decode_x86 code (reg_read (uc E) (emulator s) (flags_register E)) (reg_read (uc E) (emulator s) (x86_rcx E)) =
        Inr (target, jump, False)" and "target \<noteq> 0" and "x86_cond_instruction E a sz s = Inr s'"
  shows "(\<exists>c. hd (sp_checkpoints s') = (c, if jump then a + int sz + target else a + int sz,
        reg_read (uc E) (emulator s) (flags_register E), speculation_window s)) \<and>
     emulator s' = reg_write (uc E) (x86_rip E) (if jump then a + int sz else a + int sz + target) (emulator s)"
  using assms by (auto simp: x86_cond_instruction_def Let_def rbind_eq_Inr_iff sp_checkpoint_def)


text \<open>
  C39: a short jump backward is followed to the wrong place. The one-byte displacement is read as an
  unsigned number, so that the target of a backward jump, simulated or resumed, lies 256 bytes
  behind the target of the instruction.
\<close>
theorem short_backward_jump_off_by_256:
  assumes "n < 16" and "unat b \<ge> 128" and "mem_read (uc E) (emulator s) a 2 = short_jcc n b"
    and "\<not> max_nesting_reached s" and "f = reg_read (uc E) (emulator s) (flags_register E)"
    and "target = a + 2 + le_signed [b]" and "speculate_instruction X86CondSpeculator E a 2 s = Inr s'"
  shows "(\<exists>c. hd (sp_checkpoints s') = (c, if x86_condition n f then target + 256 else a + 2, f, speculation_window s)) \<and>
     emulator s' = reg_write (uc E) (x86_rip E) (if x86_condition n f then a + 2 else target + 256) (emulator s)"
proof -
  have "unat b \<noteq> 0" using assms(2) by linarith
  then have "int (unat b) \<noteq> 0" by (simp only: of_nat_eq_0_iff not_False_eq_True)
  moreover have h: "x86_cond_instruction E a 2 s = Inr s'" using assms(7) by (simp add: speculate_instruction_def)
  moreover have n: "a + int 2 = a + 2" and t: "a + 2 + int (unat b) = target + 256"
    unfolding assms(6) le_signed_byte using assms(2) by auto
  moreover have "(2::nat) \<le> 15" by simp
  ultimately show ?thesis
    using x86_cond_instruction_taken [OF assms(4) _ assms(3) decode_short_jcc [OF assms(1)] _ h] unfolding assms(5) n t
    by blast
qed

text \<open>
  The class that combines both mechanisms never speculates: no reachable state has an open
  checkpoint.
\<close>
theorem cond_bpas_never_speculates:
  assumes "previous_store s0 = None" and "(spec_step X86CondBpasSpeculator E)\<^sup>*\<^sup>* (sp_reset X86CondBpasSpeculator E e0 s0, []) (s, ss)"
  shows "sp_checkpoints s = [] \<and> \<not> in_speculation s"
proof -
  let ?idle = "\<lambda>c. sp_checkpoints (fst c) = [] \<and> \<not> in_speculation (fst c) \<and> previous_store (fst c) = None"
  have "?idle (s, ss)"
    using assms(2)
  proof (induction rule: rtranclp_induct)
    case base
    then show ?case using assms(1) by (simp add: sp_reset_def base_reset_def)
  next
    case (step c c')
    from step.hyps(2) step.IH show ?case
      by cases (auto simp: handle_instruction_def speculate_instruction_def store_bpas_instruction_def count_instruction_def
          handle_mem_access_def speculate_mem_access_def log_store_fields sp_rollback_def base_rollback_def split: if_splits)
  qed
  then show ?thesis by simp
qed

section \<open>Branches of ARM64\<close>

lemma twos_complement_eq_sint: "twos_complement n (LENGTH('a)) = sint (word_of_nat n :: 'a::len word)"
proof -
  obtain k where k: "LENGTH('a) = Suc k" by (metis len_gt_0 gr0_conv_Suc)
  have m: "n AND (2 ^ Suc k - 1) = take_bit (Suc k) n"
    using take_bit_eq_mask [of "Suc k" n] by (simp add: mask_eq_exp_minus_1)
  have b: "take_bit (Suc k) n AND 2 ^ k = 0 \<longleftrightarrow> \<not> bit n k"
    using and_exp_eq_0_iff_not_bit [of "take_bit (Suc k) n" k] by (simp add: bit_take_bit_iff)
  have "sint (word_of_nat n :: 'a word) = signed_take_bit k (int n)"
    by (simp add: k signed_of_nat)
  also have "\<dots> = take_bit (Suc k) (int n) - 2 ^ Suc k * of_bool (bit (int n) k)"
    by (rule signed_take_bit_eq_take_bit_minus)
  finally have "sint (word_of_nat n :: 'a word) = take_bit (Suc k) (int n) - 2 ^ Suc k * of_bool (bit n k)"
    by (simp add: bit_of_nat_iff)
  moreover have "twos_complement n (Suc k) =
      (if bit n k then int (take_bit (Suc k) n) - 2 * int (2 ^ k) else int (take_bit (Suc k) n))"
    by (simp only: twos_complement_def Let_def m b diff_Suc_1 not_not)
  ultimately show ?thesis by (simp add: k of_nat_take_bit)
qed

text \<open>
  The target of a conditional branch by the Arm manual: the signed 19-bit field counts instructions of
  four bytes from the branch itself.
\<close>

definition arm64_branch_target :: "int \<Rightarrow> nat \<Rightarrow> int" where
  "arm64_branch_target address instruction = address + 4 * sint (word_of_nat (drop_bit 5 instruction) :: 19 word)"

lemma decode_arm64_b_cond:
  assumes "instruction < 2 ^ 32" and "drop_bit 24 instruction = 0x54" and "instruction AND 0x10 = 0"
  shows "decode_arm64 E e (le_bytes 4 instruction) flags = Inr (decode_b_cond instruction flags)"
proof -
  have "le_value (le_bytes 4 instruction) = instruction" using assms(1) by (intro le_value_le_bytes) simp
  then show ?thesis using assms(2,3) by (simp add: decode_arm64_def Let_def)
qed

text \<open>
  C40: on ARM64 a conditional branch is never followed to its target. The displacement field is added
  to the address of the next instruction without being scaled to bytes; whenever the branch is
  simulated, the taken side (resumed or speculative) differs from the target of the instruction.
\<close>
theorem arm64_branch_target_wrong:
  assumes "instruction < 2 ^ 32" and "drop_bit 24 instruction = 0x54" and "instruction AND 0x10 = 0"
    and "mem_read (uc E) (emulator s) a 4 = le_bytes 4 instruction"
    and "speculate_instruction ARM64CondSpeculator E a 4 s = Inr s'" and "sp_checkpoints s' \<noteq> sp_checkpoints s"
  shows "\<exists>taken c nxt v. hd (sp_checkpoints s') = (c, nxt, reg_read (uc E) (emulator s) (flags_register E), speculation_window s) \<and>
     emulator s' = reg_write (uc E) (pc_register E) v (emulator s) \<and>
     (nxt = taken \<and> v = a + 4 \<or> nxt = a + 4 \<and> v = taken) \<and> taken \<noteq> arm64_branch_target a instruction"
proof -
  let ?f = "reg_read (uc E) (emulator s) (flags_register E)"
  let ?t = "sint (word_of_nat (drop_bit 5 instruction) :: 19 word)"
  obtain jump where dec: "decode_b_cond instruction ?f = (?t, jump)"
    using twos_complement_eq_sint [of "drop_bit 5 instruction", where 'a = 19] by (simp add: decode_b_cond_def Let_def)
  have ne: "a + 4 + ?t \<noteq> arm64_branch_target a instruction"
    unfolding arm64_branch_target_def by presburger
  have d: "decode_arm64 E (emulator s) (mem_read (uc E) (emulator s) a 4) ?f = Inr (?t, jump)"
    unfolding assms(4) decode_arm64_b_cond [OF assms(1-3)] dec by (rule refl)
  have "arm64_cond_instruction E a 4 s = Inr s'" using assms(5) by (simp add: speculate_instruction_def)
  then obtain s2 where s2: "sp_checkpoint E (if jump then a + 4 + ?t else a + 4) True s = Inr s2"
    "s' = s2\<lparr>emulator := reg_write (uc E) (pc_register E) (if jump then a + 4 else a + 4 + ?t) (emulator s2)\<rparr>"
    using assms(6) by (auto simp: arm64_cond_instruction_def Let_def d rbind_eq_Inr_iff split: if_splits)
  show ?thesis
  proof (cases jump)
    case True
    then show ?thesis
      using s2 ne
      by (intro exI [of _ "a + 4 + ?t"] exI [of _ "context_save (uc E) (emulator s)"] exI [of _ "a + 4"])
        (auto simp: sp_checkpoint_def Let_def rbind_eq_Inr_iff)
  next
    case False
    then show ?thesis
      using s2 ne
      by (intro exI [of _ "a + 4 + ?t"] exI [of _ "context_save (uc E) (emulator s)"] exI [of _ "a + 4"])
        (auto simp: sp_checkpoint_def Let_def rbind_eq_Inr_iff)
  qed
qed

section \<open>A concrete emulator\<close>

text \<open>Registers and memory as functions; a context is the register file.\<close>

definition flat_uc :: "((nat \<Rightarrow> int) \<times> (int \<Rightarrow> byte), nat \<Rightarrow> int) unicorn" where
  "flat_uc = \<lparr>reg_read = fst, reg_write = (\<lambda>r v e. ((fst e)(r := v), snd e)),
     mem_read = (\<lambda>e a n. map (\<lambda>i. snd e (a + int i)) [0..<n]), mem_write = (\<lambda>a bs e. (fst e, write_mem a bs (snd e))),
     context_save = fst, context_restore = (\<lambda>c e. (c, snd e)), emu_stop = (\<lambda>e. e)\<rparr>"

lemma flat_uc_byte: "mem_byte flat_uc e a = snd e a"
  by (simp add: mem_byte_def flat_uc_def)

lemma flat_uc_laws: "unicorn_laws flat_uc"
  by (simp add: unicorn_laws_def flat_uc_byte fun_eq_iff) (simp add: flat_uc_def write_mem_def)

definition flat_env :: "((nat \<Rightarrow> int) \<times> (int \<Rightarrow> byte), nat \<Rightarrow> int) spec_env" where
  "flat_env = \<lparr>uc = flat_uc, flags_register = 0, pc_register = 1, x86_rcx = 2, x86_rip = 1, arm64_x0 = 10, arm64_x29 = 50,
     barriers = {''LFENCE''}, tt_target = demo_target, model_max_spec_window = 250\<rparr>"

definition flat_code :: "byte list \<Rightarrow> (nat \<Rightarrow> int) \<times> (int \<Rightarrow> byte)" where
  "flat_code code = (\<lambda>_. 0, \<lambda>a. if 0 \<le> a \<and> a < int (length code) then code ! nat a else 0)"

definition flat_spec :: "((nat \<Rightarrow> int) \<times> (int \<Rightarrow> byte), nat \<Rightarrow> int) Speculator" where
  "flat_spec = \<lparr>sp_checkpoints = [], store_logs = [], max_nesting = 5, speculation_window = 0, max_spec_window = 250,
     in_speculation = False, emulator = flat_code (short_jcc 4 5), taint_tracker = demo_tracker, previous_store = None\<rparr>"

lemma flat_reset: "sp_reset K flat_env (emulator flat_spec) flat_spec = flat_spec"
  by (simp add: sp_reset_def base_reset_def flat_spec_def flat_env_def)

definition flat_tracker :: TaintTracker where
  "flat_tracker = demo_tracker\<lparr>tt_checkpoints := [Dependencies_init]\<rparr>"

definition flat_spec1 :: "((nat \<Rightarrow> int) \<times> (int \<Rightarrow> byte), nat \<Rightarrow> int) Speculator" where
  "flat_spec1 = flat_spec\<lparr>sp_checkpoints := [(\<lambda>_. 0, 2, 0, 0)], store_logs := [[]], in_speculation := True,
     emulator := ((\<lambda>_. 0)(1 := 7), snd (flat_code (short_jcc 4 5))), taint_tracker := flat_tracker\<rparr>"

definition flat_spec2 :: "((nat \<Rightarrow> int) \<times> (int \<Rightarrow> byte), nat \<Rightarrow> int) Speculator" where
  "flat_spec2 = flat_spec1\<lparr>store_logs := [[(100, replicate 8 0)]],
     emulator := ((\<lambda>_. 0)(1 := 7), write_mem 100 [255] (snd (flat_code (short_jcc 4 5))))\<rparr>"

lemma flat_read: "mem_read flat_uc (flat_code code) 0 (length code) = code"
  by (rule nth_equalityI) (simp_all add: flat_uc_def flat_code_def)

lemma flat_tracker_checkpoint: "checkpoint T b demo_tracker = Inr flat_tracker"
  by (simp add: checkpoint_def finish_def demo_tracker_def flat_tracker_def)

lemma flat_speculate: "speculate_instruction X86CondSpeculator flat_env 0 2 flat_spec = Inr flat_spec1"
proof -
  have len: "length (short_jcc 4 5) = 2" by (simp add: short_jcc_def)
  have rd: "mem_read flat_uc (flat_code (short_jcc 4 5)) 0 2 = short_jcc 4 5"
    using flat_read [of "short_jcc 4 5"] len by simp
  have "x86_cond_instruction flat_env 0 2 flat_spec = Inr flat_spec1"
    using rd decode_short_jcc [of 4 5 0 0] flat_tracker_checkpoint
    by (simp add: x86_cond_instruction_def flat_env_def flat_spec_def flat_spec1_def max_nesting_reached_def Let_def
        sp_checkpoint_def flat_uc_def flat_code_def x86_condition_def)
  then show ?thesis by (simp add: speculate_instruction_def)
qed

lemma flat_step1: "spec_step X86CondSpeculator flat_env (flat_spec, []) (flat_spec1, [(emulator flat_spec, 0)])"
proof -
  have c: "count_instruction flat_env ''JZ'' flat_spec = flat_spec" by (simp add: count_instruction_def flat_spec_def)
  have "length (short_jcc 4 5) = 2" by (simp add: short_jcc_def)
  then have rd: "mem_read (uc flat_env) (emulator flat_spec) 0 2 = short_jcc 4 5"
    using flat_read [of "short_jcc 4 5"] by (simp add: flat_env_def flat_spec_def)
  have "taken_at X86CondSpeculator flat_env 0 2 flat_spec = emulator flat_spec"
    by (simp add: taken_at_def Let_def rd decode_short_jcc)
  moreover have "nesting flat_spec < nesting flat_spec1" "speculation_window flat_spec = 0"
    by (simp_all add: nesting_def flat_spec_def flat_spec1_def)
  ultimately show ?thesis
    using spec_step.Instr [of X86CondSpeculator flat_env "''JZ''" 0 2 flat_spec flat_spec1 "[]"] flat_speculate
    by (simp add: handle_instruction_def c)
qed

lemma flat_step2: "spec_step X86CondSpeculator flat_env (flat_spec1, ss) (flat_spec2, ss)"
proof -
  have rd: "mem_read flat_uc ((\<lambda>_. 0)(1 := 7), snd (flat_code (short_jcc 4 5))) 100 8 = replicate 8 0"
    by (rule nth_equalityI) (simp_all add: flat_uc_def flat_code_def short_jcc_def)
  have h: "handle_mem_access X86CondSpeculator flat_env UC_MEM_WRITE 100 1 255 flat_spec1 =
      Inr (flat_spec1\<lparr>store_logs := [[(100, replicate 8 0)]]\<rparr>)"
    using rd by (simp add: handle_mem_access_def speculate_mem_access_def log_store_def flat_spec1_def flat_env_def)
  have "to_bytes_auto 1 255 = Inr [255 :: byte]" by code_simp
  moreover have "mem_byte (uc flat_env) (emulator flat_spec2) =
      write_mem 100 [255] (mem_byte (uc flat_env) (emulator flat_spec1))"
    by (simp add: flat_uc_byte fun_eq_iff flat_env_def flat_spec1_def flat_spec2_def write_mem_def)
  moreover have "previous_store flat_spec1 = None" by (simp add: flat_spec1_def flat_spec_def)
  moreover have "flat_spec1\<lparr>store_logs := [[(100, replicate 8 0)]], emulator := emulator flat_spec2\<rparr> = flat_spec2"
    by (simp add: flat_spec2_def)
  ultimately show ?thesis
    using spec_step.Store [OF h, of "[255]" "emulator flat_spec2" ss] by simp
qed

lemma flat_steps: "(spec_step X86CondSpeculator flat_env)\<^sup>*\<^sup>*
    (sp_reset X86CondSpeculator flat_env (emulator flat_spec) flat_spec, []) (flat_spec2, [(emulator flat_spec, 0)])"
  unfolding flat_reset using flat_step1 flat_step2 by (meson r_into_rtranclp rtranclp.rtrancl_into_rtrancl)

lemma flat_env_laws: "unicorn_laws (uc flat_env)"
  using flat_uc_laws by (simp add: flat_env_def)

lemma flat_idle: "tt_checkpoints (taint_tracker flat_spec) = []" "previous_store flat_spec = None"
  by (simp_all add: flat_spec_def demo_tracker_def)

lemma flat_rollback: "\<exists>s'. sp_rollback X86CondSpeculator flat_env flat_spec2 = Inr (2, s')"
  by (simp add: sp_rollback_def base_rollback_def flat_spec2_def flat_spec1_def Let_def rollback_def flat_tracker_def
      demo_tracker_def finish_def)

theorem rollback_restores_checkpoint_witness:
  "\<exists>s'. sp_rollback X86CondSpeculator flat_env flat_spec2 = Inr (2, s') \<and> mem_byte flat_uc (emulator flat_spec2) 100 = 255 \<and>
     mem_byte flat_uc (emulator s') 100 = 0 \<and> reg_read flat_uc (emulator s') 1 = 0 \<and> \<not> in_speculation s'"
proof -
  obtain s' where rb: "sp_rollback X86CondSpeculator flat_env flat_spec2 = Inr (2, s')" using flat_rollback by blast
  have "mem_byte flat_uc (emulator s') 100 = 0 \<and> reg_read flat_uc (emulator s') 1 = 0 \<and> \<not> in_speculation s'"
    using rollback_restores_checkpoint [OF flat_env_laws flat_idle flat_steps rb]
    by (simp add: flat_env_def flat_spec_def flat_code_def flat_uc_byte short_jcc_def) (simp add: flat_uc_def)
  moreover have "mem_byte flat_uc (emulator flat_spec2) 100 = 255"
    by (simp add: flat_uc_byte flat_spec2_def write_mem_def)
  ultimately show ?thesis using rb by blast
qed

theorem speculation_stacks_balanced_witness:
  "nesting flat_spec2 = 1 \<and> in_speculation flat_spec2 \<and>
   (\<exists>pc s'. sp_rollback X86CondSpeculator flat_env flat_spec2 = Inr (pc, s') \<and> nesting flat_spec2 = Suc (nesting s'))"
proof -
  have "\<exists>t. finish (tt_target flat_env) (taint_tracker flat_spec2) = Inr t" "in_speculation flat_spec2" "nesting flat_spec2 = 1"
    by (simp_all add: finish_def flat_spec2_def flat_spec1_def flat_tracker_def demo_tracker_def nesting_def)
  with speculation_stacks_balanced [OF flat_env_laws flat_idle flat_steps] show ?thesis by blast
qed


definition flat_at :: "byte list \<Rightarrow> ((nat \<Rightarrow> int) \<times> (int \<Rightarrow> byte), nat \<Rightarrow> int) Speculator" where
  "flat_at code = flat_spec\<lparr>emulator := flat_code code\<rparr>"

lemma flat_at_read: "length code = n \<Longrightarrow> mem_read (uc flat_env) (emulator (flat_at code)) 0 n = code"
  using flat_read [of code] by (simp add: flat_env_def flat_at_def)

lemma flat_at_facts:
  "\<not> max_nesting_reached (flat_at code)" "reg_read (uc flat_env) (emulator (flat_at code)) r = 0"
  "taint_tracker (flat_at code) = demo_tracker" "sp_checkpoints (flat_at code) = []"
  by (simp_all add: max_nesting_reached_def flat_at_def flat_spec_def flat_env_def flat_uc_def flat_code_def)

theorem short_backward_jump_off_by_256_witness:
  "\<exists>s'. speculate_instruction X86CondSpeculator flat_env 0 2 (flat_at (short_jcc 4 251)) = Inr s' \<and>
     reg_read flat_uc (emulator s') 1 = 253"
proof -
  let ?s = "flat_at (short_jcc 4 251)"
  have rd: "mem_read (uc flat_env) (emulator ?s) 0 2 = short_jcc 4 251" by (rule flat_at_read) (simp add: short_jcc_def)
  obtain s' where sp: "speculate_instruction X86CondSpeculator flat_env 0 2 ?s = Inr s'"
    by (simp add: speculate_instruction_def x86_cond_instruction_def rd flat_at_facts decode_short_jcc sp_checkpoint_def
        flat_tracker_checkpoint Let_def)
  have f: "0 = reg_read (uc flat_env) (emulator ?s) (flags_register flat_env)" by (simp add: flat_at_facts)
  have c: "\<not> x86_condition 4 0" by (simp add: x86_condition_def)
  have "emulator s' = reg_write (uc flat_env) (x86_rip flat_env) 253 (emulator ?s)"
    using short_backward_jump_off_by_256 [OF _ _ rd flat_at_facts(1) f refl sp] c by (simp add: le_signed_byte)
  then show ?thesis using sp by (simp add: flat_env_def flat_uc_def)
qed

theorem cond_bpas_never_speculates_witness:
  "\<exists>s. handle_instruction X86CondBpasSpeculator flat_env ''JZ'' 0 2 flat_spec = Inr s \<and> sp_checkpoints s = []"
proof -
  obtain s where s: "handle_instruction X86CondBpasSpeculator flat_env ''JZ'' 0 2 flat_spec = Inr s" "nesting s = 0"
    by (simp add: handle_instruction_def count_instruction_def speculate_instruction_def store_bpas_instruction_def
        flat_spec_def nesting_def)
  have "(spec_step X86CondBpasSpeculator flat_env)\<^sup>*\<^sup>*
      (sp_reset X86CondBpasSpeculator flat_env (emulator flat_spec) flat_spec, []) (s, [])"
    using spec_step.Instr [OF s(1), of "[]"] s(2) unfolding flat_reset by auto
  from cond_bpas_never_speculates [OF flat_idle(2) this] s(1) show ?thesis by blast
qed

theorem arm64_branch_target_wrong_witness:
  "\<exists>s'. speculate_instruction ARM64CondSpeculator flat_env 0 4 (flat_at (le_bytes 4 0x54000040)) = Inr s' \<and>
     (\<exists>taken c nxt v. hd (sp_checkpoints s') = (c, nxt, 0, 0) \<and>
        emulator s' = reg_write flat_uc 1 v (emulator (flat_at (le_bytes 4 0x54000040))) \<and>
        (nxt = taken \<and> v = 4 \<or> nxt = 4 \<and> v = taken) \<and> taken \<noteq> 8)"
proof -
  let ?s = "flat_at (le_bytes 4 0x54000040)"
  have rd: "mem_read (uc flat_env) (emulator ?s) 0 4 = le_bytes 4 0x54000040" by (rule flat_at_read) simp
  have enc: "(0x54000040 :: nat) < 2 ^ 32" "drop_bit 24 (0x54000040 :: nat) = 0x54" "(0x54000040 :: nat) AND 0x10 = 0"
    by simp_all
  have dec: "decode_b_cond 0x54000040 0 = (2, False)"
    by (simp add: decode_b_cond_def twos_complement_def drop_bit_eq_div)
  have tgt: "arm64_branch_target 0 0x54000040 = 8" by (simp add: arm64_branch_target_def drop_bit_eq_div)
  obtain s' where sp: "speculate_instruction ARM64CondSpeculator flat_env 0 4 ?s = Inr s'" "sp_checkpoints s' \<noteq> []"
    by (simp add: speculate_instruction_def arm64_cond_instruction_def rd flat_at_facts decode_arm64_b_cond [OF enc] dec
        sp_checkpoint_def flat_tracker_checkpoint Let_def)
  have facts: "reg_read flat_uc (emulator ?s) (flags_register flat_env) = 0" "speculation_window ?s = 0"
    "uc flat_env = flat_uc" "pc_register flat_env = 1"
    by (simp_all add: flat_at_def flat_spec_def flat_env_def flat_uc_def flat_code_def)
  have "sp_checkpoints s' \<noteq> sp_checkpoints ?s" using sp(2) by (simp add: flat_at_facts)
  from arm64_branch_target_wrong [OF enc rd sp(1) this] show ?thesis
    using sp(1) by (intro exI [of _ s'] conjI) (simp_all only: facts tgt add_0)
qed

end
