(* ===== verification/Tracer.thy ===== *)
theory Tracer
  imports Traces Speculator
begin

unbundle bit_operations_syntax

text \<open>
  Model of \<^verbatim>\<open>rvzr/model_unicorn/tracer.py\<close>: the tracers that implement the observation clauses of the
  contracts. Each records what its contract exposes of an instruction or a memory access and tells
  the taint tracker. The digest of the data of an observer actor is a parameter.
\<close>

datatype tracer_class =
  NoneTracer | PCTracer | MemoryTracer | L1DTracer | CTTracer | TruncatedCTTracer | TruncatedCTWithOverflowsTracer |
  CTNonSpecStoreTracer | ArchTracer | ActorNITracer

record UnicornTracer =
  trace :: "CTraceEntry list"
  enable_tracing :: bool
  tr_taint_tracker :: TaintTracker
  tr_input :: "InputData option"
  started :: bool
  observer_actor_ids :: "nat list"

definition UnicornTracer_init :: "TaintTracker \<Rightarrow> UnicornTracer" where
  "UnicornTracer_init tt = \<lparr>trace = [], enable_tracing = False, tr_taint_tracker = tt, tr_input = None, started = False,
     observer_actor_ids = []\<rparr>"

text \<open>\<^verbatim>\<open>observers\<close> are the observer flags of the configured actors.\<close>

definition ActorNITracer_init :: "bool list \<Rightarrow> TaintTracker \<Rightarrow> UnicornTracer res" where
  "ActorNITracer_init observers tt =
     (let n_observers = length (filter id observers)
      in if n_observers = length observers then raise ValueError
         else if n_observers = 0 then raise ValueError
         else ok (UnicornTracer_init tt))"

definition base_tracer_reset :: "InputData \<Rightarrow> UnicornTracer \<Rightarrow> UnicornTracer" where
  "base_tracer_reset inp t = t\<lparr>trace := [], enable_tracing := False, tr_input := Some inp\<rparr>"

text \<open>\<^verbatim>\<open>test_case_actors\<close>: identifier and observer flag of the actors of the loaded test case, if one is loaded.\<close>

definition tracer_reset ::
  "tracer_class \<Rightarrow> (nat \<times> bool) list option \<Rightarrow> InputData \<Rightarrow> UnicornTracer \<Rightarrow> UnicornTracer res" where
  "tracer_reset K test_case_actors inp t =
     (let t1 = base_tracer_reset inp t
      in case K of
           ArchTracer \<Rightarrow> ok (t1\<lparr>started := False\<rparr>)
         | ActorNITracer \<Rightarrow> (case test_case_actors of
               None \<Rightarrow> raise AssertionError
             | Some as \<Rightarrow> ok (t1\<lparr>observer_actor_ids := map fst (filter snd as)\<rparr>))
         | _ \<Rightarrow> ok t1)"

section \<open>Recording\<close>

definition mk_entry :: "CTraceEntryType \<Rightarrow> int \<Rightarrow> CTraceEntry" where
  "mk_entry ty v = \<lparr>entry_type = ty, entry_value = v\<rparr>"

definition add_mem_address_to_trace :: "int \<Rightarrow> UnicornTracer \<Rightarrow> UnicornTracer" where
  "add_mem_address_to_trace address t =
     (if enable_tracing t then t\<lparr>trace := trace t @ [mk_entry CT_mem address], tr_taint_tracker := taint TV_mem (tr_taint_tracker t)\<rparr>
      else t)"

definition add_pc_to_trace :: "int \<Rightarrow> UnicornTracer \<Rightarrow> UnicornTracer" where
  "add_pc_to_trace address t =
     (if enable_tracing t then t\<lparr>trace := trace t @ [mk_entry CT_pc address], tr_taint_tracker := taint TV_pc (tr_taint_tracker t)\<rparr>
      else t)"

definition add_dependencies_to_trace :: "int \<Rightarrow> UnicornTracer \<Rightarrow> UnicornTracer" where
  "add_dependencies_to_trace dependency_hash t =
     (if enable_tracing t
      then t\<lparr>trace := trace t @ [mk_entry CT_val dependency_hash], tr_taint_tracker := taint TV_mem (tr_taint_tracker t)\<rparr>
      else t)"

definition add_value_to_trace :: "int \<Rightarrow> UnicornTracer \<Rightarrow> UnicornTracer" where
  "add_value_to_trace val t = (if enable_tracing t then t\<lparr>trace := trace t @ [mk_entry CT_val val]\<rparr> else t)"

definition line :: "int \<Rightarrow> int" where
  "line a = push_bit 6 (drop_bit 6 a)"

definition observe_mem_access ::
  "tracer_class \<Rightarrow> ('e, 'c) unicorn \<Rightarrow> 'e \<Rightarrow> bool \<Rightarrow> access_type \<Rightarrow> int \<Rightarrow> nat \<Rightarrow> int \<Rightarrow> UnicornTracer \<Rightarrow> UnicornTracer" where
  "observe_mem_access K U e in_spec access address sz val t =
     (case K of
        NoneTracer \<Rightarrow> t
      | PCTracer \<Rightarrow> t
      | MemoryTracer \<Rightarrow> add_mem_address_to_trace address t
      | L1DTracer \<Rightarrow> add_mem_address_to_trace address t
      | CTTracer \<Rightarrow> add_mem_address_to_trace address t
      | TruncatedCTTracer \<Rightarrow> add_mem_address_to_trace (line address) t
      | TruncatedCTWithOverflowsTracer \<Rightarrow>
          (let t1 = add_mem_address_to_trace (line address) t
           in if (address + int sz) mod 64 \<noteq> address mod 64
              then add_mem_address_to_trace (line (address + int sz)) t1 else t1)
      | CTNonSpecStoreTracer \<Rightarrow>
          (if \<not> in_spec \<or> access = UC_MEM_READ then add_mem_address_to_trace address t else t)
      | ArchTracer \<Rightarrow>
          (let t1 = (if access = UC_MEM_READ
                 then (let t0 = add_value_to_trace (int (le_value (mem_read U e address sz))) t
                       in t0\<lparr>tr_taint_tracker := taint TV_ld_val (tr_taint_tracker t0)\<rparr>)
                 else t)
           in add_mem_address_to_trace address t1)
      | ActorNITracer \<Rightarrow> add_mem_address_to_trace address t)"

definition observe_instruction ::
  "tracer_class \<Rightarrow> ('e, 'c) unicorn \<Rightarrow> 'e \<Rightarrow> nat list \<Rightarrow> int \<Rightarrow> nat \<Rightarrow> UnicornTracer \<Rightarrow> UnicornTracer" where
  "observe_instruction K U e usable_regs pc sz t =
     (case K of
        NoneTracer \<Rightarrow> t
      | PCTracer \<Rightarrow> add_pc_to_trace pc t
      | MemoryTracer \<Rightarrow> t
      | L1DTracer \<Rightarrow> t
      | CTTracer \<Rightarrow> add_pc_to_trace pc t
      | TruncatedCTTracer \<Rightarrow> add_pc_to_trace (line pc) t
      | TruncatedCTWithOverflowsTracer \<Rightarrow>
          (let t1 = add_pc_to_trace (line pc) t
           in if (pc + int sz) div 64 \<noteq> pc div 64 then add_pc_to_trace (line (pc + int sz)) t1 else t1)
      | CTNonSpecStoreTracer \<Rightarrow> add_pc_to_trace pc t
      | ArchTracer \<Rightarrow>
          (let t1 = (if \<not> started t
                 then t\<lparr>started := True,
                        trace := trace t @ map (\<lambda>r. mk_entry CT_val (reg_read U e r)) (butlast usable_regs)\<rparr>
                 else t)
           in add_pc_to_trace pc t1)
      | ActorNITracer \<Rightarrow> add_pc_to_trace pc t)"

section \<open>The trace\<close>

definition normalize_entry :: "SandboxLayout \<Rightarrow> CTraceEntry \<Rightarrow> CTraceEntry" where
  "normalize_entry layout e =
     (if entry_type e = CT_pc then mk_entry CT_pc (code_addr_to_offset layout (entry_value e))
      else if entry_type e = CT_mem then mk_entry CT_mem (data_addr_to_offset layout (entry_value e))
      else mk_entry (entry_type e) (entry_value e))"

definition base_get_trace :: "hashing \<Rightarrow> SandboxLayout \<Rightarrow> UnicornTracer \<Rightarrow> CTrace" where
  "base_get_trace H layout t = CTrace_init H (map (normalize_entry layout) (trace t))"

definition add_observer_traces ::
  "hashing \<Rightarrow> (byte list \<Rightarrow> nat) \<Rightarrow> UnicornTracer \<Rightarrow> CTrace \<Rightarrow> CTrace res" where
  "add_observer_traces H xxh64_data t ctrace =
     (case tr_input t of
        None \<Rightarrow> raise AssertionError
      | Some inp \<Rightarrow>
          rbind (rmapM (\<lambda>actor_id. rbind (py_nth (actors inp) (int actor_id))
                   (\<lambda>fragment. ok (mk_entry CT_val (int (xxh64_data (words_bytes (actor_linear fragment)))))))
                 (observer_actor_ids t))
            (\<lambda>fragment_hashes. ok (CTrace_init H (ct_trace ctrace @ fragment_hashes))))"

definition get_trace ::
  "tracer_class \<Rightarrow> hashing \<Rightarrow> (byte list \<Rightarrow> nat) \<Rightarrow> SandboxLayout \<Rightarrow> UnicornTracer \<Rightarrow> (CTrace \<times> UnicornTracer) res" where
  "get_trace K H xxh64_data layout t =
     (case K of
        NoneTracer \<Rightarrow> ok (CTrace_empty H, t)
      | L1DTracer \<Rightarrow> ok (set_printed_as_l1d (base_get_trace H layout t) True, t)
      | ActorNITracer \<Rightarrow>
          rbind (add_observer_traces H xxh64_data t (base_get_trace H layout t)) (\<lambda>ctrace.
            ok (ctrace, t\<lparr>tr_taint_tracker := taint_actors (observer_actor_ids t) (tr_taint_tracker t)\<rparr>))
      | _ \<Rightarrow> ok (base_get_trace H layout t, t))"

section \<open>Sequences of events\<close>

text \<open>What the emulator reports to the tracer, with its state at that time and whether it was in speculation.\<close>

datatype 'e event = Inst 'e int nat | Mem 'e bool access_type int nat int

definition observe ::
  "tracer_class \<Rightarrow> ('e, 'c) unicorn \<Rightarrow> nat list \<Rightarrow> UnicornTracer \<Rightarrow> 'e event \<Rightarrow> UnicornTracer" where
  "observe K U regs t ev =
     (case ev of
        Inst e pc sz \<Rightarrow> observe_instruction K U e regs pc sz t
      | Mem e in_spec access address sz val \<Rightarrow> observe_mem_access K U e in_spec access address sz val t)"

definition observe_all ::
  "tracer_class \<Rightarrow> ('e, 'c) unicorn \<Rightarrow> nat list \<Rightarrow> UnicornTracer \<Rightarrow> 'e event list \<Rightarrow> UnicornTracer" where
  "observe_all K U regs t evs = foldl (observe K U regs) t evs"

text \<open>The entries one event adds to the trace of a class, when tracing is on and the registers were exposed.\<close>

fun event_entries :: "tracer_class \<Rightarrow> ('e, 'c) unicorn \<Rightarrow> 'e event \<Rightarrow> CTraceEntry list" where
  "event_entries K U (Inst e pc sz) =
     (case K of
        NoneTracer \<Rightarrow> [] | MemoryTracer \<Rightarrow> [] | L1DTracer \<Rightarrow> []
      | TruncatedCTTracer \<Rightarrow> [mk_entry CT_pc (line pc)]
      | TruncatedCTWithOverflowsTracer \<Rightarrow>
          mk_entry CT_pc (line pc) # (if (pc + int sz) div 64 \<noteq> pc div 64 then [mk_entry CT_pc (line (pc + int sz))] else [])
      | _ \<Rightarrow> [mk_entry CT_pc pc])"
| "event_entries K U (Mem e in_spec access a sz v) =
     (case K of
        NoneTracer \<Rightarrow> [] | PCTracer \<Rightarrow> []
      | TruncatedCTTracer \<Rightarrow> [mk_entry CT_mem (line a)]
      | TruncatedCTWithOverflowsTracer \<Rightarrow>
          mk_entry CT_mem (line a) # (if (a + int sz) mod 64 \<noteq> a mod 64 then [mk_entry CT_mem (line (a + int sz))] else [])
      | CTNonSpecStoreTracer \<Rightarrow> if \<not> in_spec \<or> access = UC_MEM_READ then [mk_entry CT_mem a] else []
      | ArchTracer \<Rightarrow> (if access = UC_MEM_READ then [mk_entry CT_val (int (le_value (mem_read U e a sz)))] else [])
          @ [mk_entry CT_mem a]
      | _ \<Rightarrow> [mk_entry CT_mem a])"

definition taint_kind :: "CTraceEntry \<Rightarrow> tainted_value_type" where
  "taint_kind e = (case entry_type e of CT_pc \<Rightarrow> TV_pc | CT_mem \<Rightarrow> TV_mem | _ \<Rightarrow> TV_ld_val)"

lemmas tracer_defs = observe_def observe_instruction_def observe_mem_access_def add_pc_to_trace_def
  add_mem_address_to_trace_def add_value_to_trace_def mk_entry_def Let_def

lemma observe_step:
  assumes "enable_tracing t" and "K = ArchTracer \<longrightarrow> started t"
  shows "trace (observe K U regs t ev) = trace t @ event_entries K U ev" and "enable_tracing (observe K U regs t ev)"
    and "tr_taint_tracker (observe K U regs t ev) = fold taint (map taint_kind (event_entries K U ev)) (tr_taint_tracker t)"
    and "started (observe K U regs t ev) = started t"
  using assms by (cases ev; cases K; simp add: tracer_defs taint_kind_def)+

lemma observe_all_trace:
  assumes "enable_tracing t" and "K = ArchTracer \<longrightarrow> started t"
  shows "trace (observe_all K U regs t evs) = trace t @ concat (map (event_entries K U) evs) \<and>
     tr_taint_tracker (observe_all K U regs t evs) =
       fold taint (map taint_kind (concat (map (event_entries K U) evs))) (tr_taint_tracker t)"
  using assms
proof (induction evs arbitrary: t)
  case Nil
  then show ?case by (simp add: observe_all_def)
next
  case (Cons ev evs)
  note step = observe_step [OF Cons.prems, of U regs ev]
  have "K = ArchTracer \<longrightarrow> started (observe K U regs t ev)" using step(4) Cons.prems(2) by metis
  from Cons.IH [OF step(2) this] show ?case by (simp add: observe_all_def step(1,3))
qed

section \<open>Contracts and what they expose\<close>

definition truncate_entry :: "CTraceEntry \<Rightarrow> CTraceEntry" where
  "truncate_entry e = mk_entry (entry_type e) (line (entry_value e))"

fun speculative_event :: "'e event \<Rightarrow> bool" where
  "speculative_event (Inst _ _ _) = False"
| "speculative_event (Mem _ in_spec _ _ _ _) = in_spec"

lemma entry_simps [simp]: "entry_type (mk_entry ty v) = ty" "entry_value (mk_entry ty v) = v"
  by (simp_all add: mk_entry_def)

lemma filter_event_entries:
  "filter (\<lambda>e. entry_type e = CT_pc) (event_entries CTTracer U ev) = event_entries PCTracer U ev"
  "filter (\<lambda>e. entry_type e = CT_mem) (event_entries CTTracer U ev) = event_entries MemoryTracer U ev"
  "map truncate_entry (event_entries CTTracer U ev) = event_entries TruncatedCTTracer U ev"
  "filter (\<lambda>e. entry_type e \<noteq> CT_val) (event_entries ArchTracer U ev) = event_entries CTTracer U ev"
  "\<not> speculative_event ev \<Longrightarrow> event_entries CTNonSpecStoreTracer U ev = event_entries CTTracer U ev"
  by (cases ev; simp add: truncate_entry_def)+

text \<open>
  C17: the contracts are ordered by what they expose. On any sequence of events the traces of the PC,
  memory and cache-line contracts are computed from the constant-time trace (by keeping the entries of
  one kind, or by truncating every entry), the constant-time trace is computed from the trace of the
  architectural contract, and the contract without speculative stores observes the same as the
  constant-time contract as long as nothing is speculative. Inputs that a stronger contract cannot
  distinguish are therefore not distinguished by a weaker one.
\<close>
theorem contracts_ordered:
  assumes "enable_tracing t" and "trace t = []" and "started t"
  shows "trace (observe_all PCTracer U regs t evs) =
      filter (\<lambda>e. entry_type e = CT_pc) (trace (observe_all CTTracer U regs t evs)) \<and>
    trace (observe_all MemoryTracer U regs t evs) =
      filter (\<lambda>e. entry_type e = CT_mem) (trace (observe_all CTTracer U regs t evs)) \<and>
    trace (observe_all TruncatedCTTracer U regs t evs) =
      map truncate_entry (trace (observe_all CTTracer U regs t evs)) \<and>
    trace (observe_all CTTracer U regs t evs) =
      filter (\<lambda>e. entry_type e \<noteq> CT_val) (trace (observe_all ArchTracer U regs t evs)) \<and>
    ((\<forall>ev \<in> set evs. \<not> speculative_event ev) \<longrightarrow>
      trace (observe_all CTNonSpecStoreTracer U regs t evs) = trace (observe_all CTTracer U regs t evs))"
proof -
  have tr: "trace (observe_all K U regs t evs) = concat (map (event_entries K U) evs)" for K
    using observe_all_trace [of t K U regs evs] assms by simp
  show ?thesis
    unfolding tr filter_concat map_concat by (auto simp: o_def filter_event_entries intro!: arg_cong [of _ _ concat])
qed

lemma line_eq: "line a = a div 64 * 64"
  by (simp add: line_def push_bit_eq_mult drop_bit_eq_div)

lemma line_shift: "64 dvd d \<Longrightarrow> line (a + d) = line a + d"
  by (auto simp: line_eq elim!: dvdE)

text \<open>
  The same execution in a sandbox at other addresses: code moved by \<open>dc\<close>, data by \<open>dd\<close>.
\<close>

fun relocate :: "int \<Rightarrow> int \<Rightarrow> 'e event \<Rightarrow> 'e event" where
  "relocate dc dd (Inst e pc sz) = Inst e (pc + dc) sz"
| "relocate dc dd (Mem e in_spec access a sz v) = Mem e in_spec access (a + dd) sz v"

definition relocate_entry :: "int \<Rightarrow> int \<Rightarrow> CTraceEntry \<Rightarrow> CTraceEntry" where
  "relocate_entry dc dd e =
     (if entry_type e = CT_pc then mk_entry CT_pc (entry_value e + dc)
      else if entry_type e = CT_mem then mk_entry CT_mem (entry_value e + dd) else e)"

lemma event_entries_relocate:
  assumes "64 dvd dc" and "64 dvd dd" and "K \<noteq> ArchTracer"
  shows "event_entries K U (relocate dc dd ev) = map (relocate_entry dc dd) (event_entries K U ev)"
proof -
  have div: "(a + d + int n) div 64 = (a + int n) div 64 + d div 64" "(a + d) div 64 = a div 64 + d div 64"
    "(a + d + int n) mod 64 = (a + int n) mod 64" "(a + d) mod 64 = a mod 64"
    if "64 dvd d" for a d :: int and n :: nat
  proof -
    from that obtain k where d: "d = 64 * k" by (rule dvdE)
    have "a + d + int n = (a + int n) + 64 * k" using d by simp
    then show "(a + d + int n) div 64 = (a + int n) div 64 + d div 64" "(a + d + int n) mod 64 = (a + int n) mod 64"
      by (simp_all only: d) simp_all
    show "(a + d) div 64 = a div 64 + d div 64" "(a + d) mod 64 = a mod 64" by (simp_all add: d)
  qed
  have l: "line (a + d + int n) = line (a + int n) + d" if "64 dvd d" for a d :: int and n :: nat
    using line_shift [OF that, of "a + int n"] by (simp add: algebra_simps)
  show ?thesis
    using assms by (cases ev; cases K) (simp_all add: relocate_entry_def line_shift div l)
qed


text \<open>
  Everything a contract exposes is reported to the taint tracker, in order: a program counter as
  control flow, an address as address registers, a loaded value as the memory it came from.
\<close>
theorem observations_are_tainted:
  assumes "enable_tracing t" and "K = ArchTracer \<longrightarrow> started t"
  shows "\<exists>new. trace (observe_all K U regs t evs) = trace t @ new \<and>
     tr_taint_tracker (observe_all K U regs t evs) = fold taint (map taint_kind new) (tr_taint_tracker t)"
  using observe_all_trace [OF assms] by blast

text \<open>
  The contract that should expose accesses crossing a cache line exposes two entries for every
  access that stays inside one: its test compares offsets in the line instead of lines. Instructions
  are tested correctly and add one entry.
\<close>
theorem overflow_tracer_repeats_line:
  assumes "enable_tracing t" and "0 < sz" and "a mod 64 + int sz < 64"
  shows "trace (observe_mem_access TruncatedCTWithOverflowsTracer U e sp acc a sz v t) =
       trace t @ [mk_entry CT_mem (line a), mk_entry CT_mem (line a)] \<and>
     trace (observe_instruction TruncatedCTWithOverflowsTracer U e regs a sz t) = trace t @ [mk_entry CT_pc (line a)]"
proof -
  have a: "a = 64 * (a div 64) + a mod 64" by simp
  have s: "a + int sz = 64 * (a div 64) + (a mod 64 + int sz)" by (subst a) simp
  have sixty_four: "(64::int) \<noteq> 0" by simp
  have m: "0 \<le> a mod 64 + int sz" by simp
  have "(64 * (a div 64) + (a mod 64 + int sz)) mod 64 = a mod 64 + int sz"
    unfolding mod_mult_self4 using m assms(3) by (rule mod_pos_pos_trivial)
  moreover have "(64 * (a div 64) + (a mod 64 + int sz)) div 64 = a div 64"
    unfolding div_mult_self4 [OF sixty_four] using div_pos_pos_trivial [OF m assms(3)] by simp
  ultimately have "(a + int sz) mod 64 = a mod 64 + int sz" "(a + int sz) div 64 = a div 64"
    unfolding s by blast+
  then show ?thesis using assms by (simp add: tracer_defs line_eq)
qed

section \<open>Examples\<close>

definition demo_tracer :: UnicornTracer where
  "demo_tracer = (UnicornTracer_init demo_tracker)\<lparr>enable_tracing := True, started := True\<rparr>"

definition demo_events :: "((nat \<Rightarrow> int) \<times> (int \<Rightarrow> byte)) event list" where
  "demo_events = [Inst (flat_code []) 4096 3, Mem (flat_code []) False UC_MEM_READ 8200 8 0]"

lemma demo_tracer_on: "enable_tracing demo_tracer" "trace demo_tracer = []" "started demo_tracer"
  by (simp_all add: demo_tracer_def UnicornTracer_init_def)

theorem contracts_ordered_witness:
  "trace (observe_all TruncatedCTTracer flat_uc [] demo_tracer demo_events) = [mk_entry CT_pc 4096, mk_entry CT_mem 8192]"
  using contracts_ordered [OF demo_tracer_on, of flat_uc "[]" demo_events] demo_tracer_on
  by (simp add: observe_all_def demo_events_def tracer_defs truncate_entry_def line_eq)

definition demo_layout :: "int \<Rightarrow> SandboxLayout" where
  "demo_layout base = \<lparr>SandboxLayout.data_start = base + 4096, data_end = base + 20480, data_size = 16384, code_start = base,
     code_end = base + 12288, code_size = 12288, data_addresses = [], code_addresses = []\<rparr>"


theorem observations_are_tainted_witness:
  "\<exists>new. trace (observe_all CTTracer flat_uc [] demo_tracer demo_events) = trace demo_tracer @ new \<and>
     tr_taint_tracker (observe_all CTTracer flat_uc [] demo_tracer demo_events) =
       fold taint (map taint_kind new) (tr_taint_tracker demo_tracer)"
  using observations_are_tainted [of demo_tracer CTTracer] demo_tracer_on by simp

theorem overflow_tracer_repeats_line_witness:
  "trace (observe_mem_access TruncatedCTWithOverflowsTracer flat_uc (flat_code []) False UC_MEM_READ 8192 8 0 demo_tracer) =
     [mk_entry CT_mem 8192, mk_entry CT_mem 8192]"
  using overflow_tracer_repeats_line [OF demo_tracer_on(1), of 8 8192 flat_uc "flat_code []" False UC_MEM_READ 0] demo_tracer_on
  by (simp add: line_eq)

end
