(* ===== verification/Fuzzer.thy ===== *)
theory Fuzzer
  imports DataGenerator Executor
begin

text \<open>
  Model of \<^verbatim>\<open>rvzr/fuzzer.py\<close>: the round manager, which takes one test case through the stages that remove
  false positives, and the fuzzing loop. The modules a round calls (contract model, executor, data
  generator, analyser and their architectural variants) are a record of operations on a shared state;
  \<open>standard_modules\<close> builds it from the models of this library. Logging and the files written for a
  violation are not modelled.
\<close>

record fuzz_conf =
  executor_sample_sizes :: "int list"
  model_min_nesting :: int
  model_max_nesting :: int
  enable_fast_path_model :: bool
  conf_enable_priming :: bool
  inputs_per_class :: nat

record 'm fuzz_state =
  fz_stats :: FuzzingStats
  fz_mods :: 'm

record ('inp, 'taint, 'tc, 's) modules =
  md_hashing :: hashing
  md_is_speculative :: bool
  md_load_test_case :: "'tc \<Rightarrow> 's \<Rightarrow> 's res"
  md_trace_test_case :: "'inp list \<Rightarrow> int \<Rightarrow> 's \<Rightarrow> (CTrace list \<times> 's) res"
  md_trace_test_case_with_taints :: "'inp list \<Rightarrow> int \<Rightarrow> 's \<Rightarrow> (CTrace list \<times> 'taint list \<times> 's) res"
  gen_generate_boosted :: "'inp list \<Rightarrow> 'taint list \<Rightarrow> nat \<Rightarrow> 's \<Rightarrow> ('inp list \<times> 's) res"
  ex_load_test_case :: "'tc \<Rightarrow> 's \<Rightarrow> 's res"
  ex_trace_test_case :: "'inp list \<Rightarrow> int \<Rightarrow> 's \<Rightarrow> HTrace list res \<times> 's"
  ex_set_ignore_list :: "nat list \<Rightarrow> 's \<Rightarrow> 's"
  ex_extend_ignore_list :: "nat list \<Rightarrow> 's \<Rightarrow> 's"
  an_filter_violations ::
    "CTrace list \<Rightarrow> HTrace list \<Rightarrow> 'tc \<Rightarrow> 'inp list \<Rightarrow> bool \<Rightarrow> 's \<Rightarrow> (('inp, 'tc) Violation list \<times> 's) res"
  an_htraces_are_equivalent :: "HTrace \<Rightarrow> HTrace \<Rightarrow> 's \<Rightarrow> (bool \<times> 's) res"
  arch_md_load_test_case :: "'tc \<Rightarrow> 's \<Rightarrow> 's res"
  arch_md_trace_test_case :: "'inp list \<Rightarrow> int \<Rightarrow> 's \<Rightarrow> (CTrace list \<times> 's) res"
  arch_ex_load_test_case :: "'tc \<Rightarrow> 's \<Rightarrow> 's res"
  arch_ex_trace_test_case :: "'inp list \<Rightarrow> int \<Rightarrow> 's \<Rightarrow> HTrace list res \<times> 's"

section \<open>State of a round\<close>

record RoundState =
  executor_n_reps :: int
  start_nesting :: int
  max_nesting_conf :: int
  model_nesting :: int
  enable_fast_contract_tracing :: bool
  enable_priming :: bool
  record_stats :: bool
  update_ignore_list_flag :: bool
  reuse_boosts :: bool
  reuse_ctraces :: bool
  extend_htraces :: bool
  is_initial :: bool

definition RoundState_init :: "fuzz_conf \<Rightarrow> bool \<Rightarrow> RoundState res" where
  "RoundState_init C is_speculative =
     rbind (py_nth (executor_sample_sizes C) 0) (\<lambda>n_reps.
       let start = (if is_speculative then model_min_nesting C else 1);
           mx = (if is_speculative then model_max_nesting C else 1)
       in py_assert (start \<le> mx)
         (ok \<lparr>executor_n_reps = n_reps, start_nesting = start, max_nesting_conf = mx, model_nesting = start,
              enable_fast_contract_tracing = enable_fast_path_model C, enable_priming = conf_enable_priming C,
              record_stats = True, update_ignore_list_flag = False, reuse_boosts = False, reuse_ctraces = False,
              extend_htraces = False, is_initial = True\<rparr>))"

record ('inp, 'tc) RoundManager =
  rm_test_case :: 'tc
  org_inputs :: "'inp list"
  boosted_inputs :: "'inp list"
  rm_htraces :: "HTrace list"
  reference_htraces :: "HTrace list"
  rm_ctraces :: "CTrace list"
  non_boosted_ctraces :: "CTrace list"
  violations :: "('inp, 'tc) Violation list"
  arch_violations :: "('inp, 'tc) Violation list"
  rm_conf :: RoundState

definition RoundManager_init ::
  "fuzz_conf \<Rightarrow> ('inp, 'taint, 'tc, 's) modules \<Rightarrow> 'tc \<Rightarrow> 'inp list \<Rightarrow> 's \<Rightarrow> (('inp, 'tc) RoundManager \<times> 's) res" where
  "RoundManager_init C M tc inputs s =
     rbind (RoundState_init C (md_is_speculative M)) (\<lambda>conf.
     rbind (md_load_test_case M tc s) (\<lambda>s1.
     rbind (ex_load_test_case M tc s1) (\<lambda>s2.
       ok (\<lparr>rm_test_case = tc, org_inputs = inputs, boosted_inputs = [], rm_htraces = [], reference_htraces = [],
            rm_ctraces = [], non_boosted_ctraces = [], violations = [], arch_violations = [], rm_conf = conf\<rparr>, s2))))"

section \<open>One stage\<close>

definition boost_inputs ::
  "fuzz_conf \<Rightarrow> ('inp, 'taint, 'tc, 's) modules \<Rightarrow> ('inp, 'tc) RoundManager \<Rightarrow> 's \<Rightarrow> (('inp, 'tc) RoundManager \<times> 's) res" where
  "boost_inputs C M rm s =
     (if inputs_per_class C = 1
      then rbind (md_trace_test_case M (org_inputs rm) (model_nesting (rm_conf rm)) s) (\<lambda>(cts, s').
             ok (rm\<lparr>non_boosted_ctraces := cts, boosted_inputs := org_inputs rm\<rparr>, s'))
      else rbind (md_trace_test_case_with_taints M (org_inputs rm) (model_nesting (rm_conf rm)) s) (\<lambda>(cts, taints, s').
           rbind (gen_generate_boosted M (org_inputs rm) taints (inputs_per_class C) s') (\<lambda>(boosted, s'').
             ok (rm\<lparr>non_boosted_ctraces := cts, boosted_inputs := boosted\<rparr>, s''))))"

definition collect_ctraces ::
  "fuzz_conf \<Rightarrow> ('inp, 'taint, 'tc, 's) modules \<Rightarrow> ('inp, 'tc) RoundManager \<Rightarrow> 's \<Rightarrow> (('inp, 'tc) RoundManager \<times> 's) res" where
  "collect_ctraces C M rm s =
     (if reuse_ctraces (rm_conf rm)
      then py_assert (length (rm_ctraces rm) = length (boosted_inputs rm)) (ok (rm, s))
      else if enable_fast_contract_tracing (rm_conf rm)
      then ok (rm\<lparr>rm_ctraces := concat (replicate (inputs_per_class C) (non_boosted_ctraces rm))\<rparr>, s)
      else rbind (md_trace_test_case M (boosted_inputs rm) (model_nesting (rm_conf rm)) s) (\<lambda>(cts, s').
             ok (rm\<lparr>rm_ctraces := cts\<rparr>, s')))"

text \<open>The result of \<^verbatim>\<open>_collect_htraces\<close>, with the state after the call also when it raises.\<close>

definition collect_htraces ::
  "('inp, 'taint, 'tc, 's) modules \<Rightarrow> ('inp, 'tc) RoundManager \<Rightarrow> 's \<Rightarrow> ('inp, 'tc) RoundManager res \<times> 's" where
  "collect_htraces M rm s =
     (case ex_trace_test_case M (boosted_inputs rm) (executor_n_reps (rm_conf rm)) s of
        (Inl e, s') \<Rightarrow> (raise e, s')
      | (Inr new_htraces, s') \<Rightarrow>
          (if \<not> extend_htraces (rm_conf rm) then ok (rm\<lparr>rm_htraces := new_htraces\<rparr>)
           else py_assert (length (rm_htraces rm) = length new_htraces)
             (ok (rm\<lparr>rm_htraces := map2 (merge_htrace (md_hashing M)) new_htraces (rm_htraces rm)\<rparr>)), s'))"

definition check_violations ::
  "('inp, 'taint, 'tc, 's) modules \<Rightarrow> ('inp, 'tc) RoundManager \<Rightarrow> 's \<Rightarrow> (('inp, 'tc) RoundManager \<times> 's) res" where
  "check_violations M rm s =
     py_assert (rm_ctraces rm \<noteq> [] \<and> length (rm_ctraces rm) = length (rm_htraces rm))
       (rbind (an_filter_violations M (rm_ctraces rm) (rm_htraces rm) (rm_test_case rm) (boosted_inputs rm)
                 (record_stats (rm_conf rm)) s)
         (\<lambda>(vs, s'). ok (rm\<lparr>violations := vs\<rparr>, s')))"

definition violating_ids :: "('inp, 'tc) Violation list \<Rightarrow> nat list" where
  "violating_ids vs = concat (map (\<lambda>v. map input_id (eq_measurements (viol_class v))) vs)"

definition update_ignore_list ::
  "('inp, 'taint, 'tc, 's) modules \<Rightarrow> ('inp, 'tc) RoundManager \<Rightarrow> 's \<Rightarrow> 's" where
  "update_ignore_list M rm s =
     (if update_ignore_list_flag (rm_conf rm)
      then ex_extend_ignore_list M
             (filter (\<lambda>i. i \<notin> set (violating_ids (violations rm))) [0..<length (boosted_inputs rm)]) s
      else s)"

text \<open>\<^verbatim>\<open>try ... except IOError\<close>: the handler, or the continuation with the result; other exceptions propagate.\<close>

definition try_io :: "'a res \<times> 's \<Rightarrow> ('s \<Rightarrow> 'b res) \<Rightarrow> ('a \<Rightarrow> 's \<Rightarrow> 'b res) \<Rightarrow> 'b res" where
  "try_io r handler k =
     (case fst r of Inl e \<Rightarrow> if e = IOError then handler (snd r) else raise e | Inr x \<Rightarrow> k x (snd r))"

lemma try_io_eq_Inr_iff:
  "try_io r h k = Inr y \<longleftrightarrow>
     fst r = Inl IOError \<and> h (snd r) = Inr y \<or> (\<exists>x. fst r = Inr x \<and> k x (snd r) = Inr y)"
  by (auto simp: try_io_def split: sum.splits)

definition normal_stage ::
  "fuzz_conf \<Rightarrow> ('inp, 'taint, 'tc, 's) modules \<Rightarrow> ('inp, 'tc) RoundManager \<Rightarrow> 's \<Rightarrow> (('inp, 'tc) RoundManager \<times> 's) res" where
  "normal_stage C M rm s =
     rbind (boost_inputs C M rm s) (\<lambda>(rm1, s1).
     rbind (collect_ctraces C M rm1 s1) (\<lambda>(rm2, s2).
       try_io (collect_htraces M rm2 s2)
         (\<lambda>s3. ok (rm2\<lparr>violations := []\<rparr>, s3))
         (\<lambda>rm3 s3.
           if length (org_inputs rm3) > 0
           then rbind (check_violations M rm3 s3) (\<lambda>(rm4, s4).
                  if violations rm4 = [] then ok (rm4, s4) else ok (rm4, update_ignore_list M rm4 s4))
           else ok (rm3, s3))))"

section \<open>The priming check\<close>

datatype priming_result = PR_trace_error | PR_not_reproduced | PR_reproduced

fun priming_inputs ::
  "('inp, 'taint, 'tc, 's) modules \<Rightarrow> 'inp list \<Rightarrow> 'inp TraceBundle \<Rightarrow> int \<Rightarrow> nat list \<Rightarrow> 's \<Rightarrow> (priming_result \<times> 's) res" where
  "priming_inputs M boosted cur n_reps [] s = ok (PR_reproduced, s)"
| "priming_inputs M boosted cur n_reps (i # is) s =
     rbind (py_nth boosted (int i)) (\<lambda>x.
     rbind (py_set boosted (int (input_id cur)) x) (\<lambda>primer.
       case ex_trace_test_case M primer n_reps s of
         (Inl e, s1) \<Rightarrow> raise e
       | (Inr htraces, s1) \<Rightarrow>
           rbind (py_nth htraces (int (input_id cur))) (\<lambda>new_htrace.
             if htrace_is_empty new_htrace \<or> is_corrupted_or_ignored new_htrace then ok (PR_trace_error, s1)
             else rbind (an_htraces_are_equivalent M new_htrace (bundle_htrace cur) s1) (\<lambda>(equivalent, s2).
               if equivalent then priming_inputs M boosted cur n_reps is s2 else ok (PR_not_reproduced, s2)))))"

text \<open>
  Measurements are compared by their input: the measurements of one violation belong to different inputs.
\<close>

fun priming_measurements ::
  "('inp, 'taint, 'tc, 's) modules \<Rightarrow> 'inp list \<Rightarrow> 'inp TraceBundle list \<Rightarrow> int \<Rightarrow> 'inp TraceBundle list \<Rightarrow> 's \<Rightarrow>
   (priming_result \<times> 's) res" where
  "priming_measurements M boosted to_test n_reps [] s = ok (PR_reproduced, s)"
| "priming_measurements M boosted to_test n_reps (cur # ms) s =
     rbind (priming_inputs M boosted cur n_reps (map input_id (filter (\<lambda>m. input_id m \<noteq> input_id cur) to_test)) s)
       (\<lambda>(r, s'). if r = PR_reproduced then priming_measurements M boosted to_test n_reps ms s' else ok (r, s'))"

text \<open>Every path through the body of the \<^verbatim>\<open>while\<close> loop returns: it runs at most once.\<close>

definition priming_check ::
  "('inp, 'taint, 'tc, 's) modules \<Rightarrow> ('inp, 'tc) RoundManager \<Rightarrow> 's \<Rightarrow> (('inp, 'tc) RoundManager \<times> 's) res" where
  "priming_check M rm s =
     (if violations rm = [] then ok (rm, s)
      else (let violation = last (violations rm)
            in rbind (py_nth (eq_measurements (viol_class violation)) 0) (\<lambda>m0.
               rbind (get_hw_classes (viol_class violation)) (\<lambda>hcs.
               rbind (rmapM (\<lambda>hc. py_nth (hw_measurements hc) 0) hcs) (\<lambda>to_test.
               rbind (priming_measurements M (boosted_inputs rm) to_test (int (sample_size (bundle_htrace m0))) to_test s)
                 (\<lambda>(r, s').
                   ok (rm\<lparr>violations := (if r = PR_not_reproduced then [violation] else [])\<rparr>, s')))))))"

section \<open>Architectural mismatches\<close>

definition sample_regs :: "RawHTraceSample \<Rightarrow> int list" where
  "sample_regs x = map uint [smp_trace x, pfc0 x, pfc1 x, pfc2 x, pfc3 x, pfc4 x]"

definition hardware_regs :: "HTrace \<Rightarrow> int list res" where
  "hardware_regs h = py_assert (length (ht_raw h) = 1) (ok (sample_regs (hd (ht_raw h))))"

definition model_regs :: "CTrace \<Rightarrow> int list" where
  "model_regs c = map (\<lambda>v. v mod 2 ^ 64) (take 6 (ct_untyped c))"

fun first_mismatch ::
  "'tc \<Rightarrow> 'inp list \<Rightarrow> (nat \<times> 'inp) list \<Rightarrow> int list list \<Rightarrow> int list list \<Rightarrow> CTrace list \<Rightarrow> HTrace list \<Rightarrow>
   ('inp, 'tc) Violation list res" where
  "first_mismatch tc boosted [] mregs hregs cts hts = ok []"
| "first_mismatch tc boosted ((i, inp) # rest) mregs hregs cts hts =
     rbind (py_nth mregs (int i)) (\<lambda>mr.
     rbind (py_nth hregs (int i)) (\<lambda>hr.
       if mr = hr then first_mismatch tc boosted rest mregs hregs cts hts
       else rbind (py_nth cts (int i)) (\<lambda>ct.
            rbind (py_nth hts (int i)) (\<lambda>ht.
            rbind (Violation_init [\<lparr>input_id = i, bundle_input = inp, bundle_ctrace = ct, bundle_htrace = ht\<rparr>] boosted tc)
              (\<lambda>v. rbind (set_trivial_hw_classes (viol_class v)) (\<lambda>e. ok [v\<lparr>viol_class := e\<rparr>]))))))"

definition check_for_architectural_mismatch ::
  "fuzz_conf \<Rightarrow> ('inp, 'taint, 'tc, 's) modules \<Rightarrow> ('inp, 'tc) RoundManager \<Rightarrow> 's \<Rightarrow> (('inp, 'tc) RoundManager \<times> 's) res" where
  "check_for_architectural_mismatch C M rm s =
     rbind (arch_md_load_test_case M (rm_test_case rm) s) (\<lambda>s1.
     rbind (arch_ex_load_test_case M (rm_test_case rm) s1) (\<lambda>s2.
       let rm1 = (if boosted_inputs rm = [] then rm\<lparr>boosted_inputs := org_inputs rm\<rparr> else rm)
       in try_io (arch_ex_trace_test_case M (boosted_inputs rm1) 1 s2)
            (\<lambda>s3. ok (rm1\<lparr>arch_violations := []\<rparr>, s3))
            (\<lambda>hts s3.
              rbind (rmapM hardware_regs hts) (\<lambda>hregs.
              rbind (arch_md_trace_test_case M (boosted_inputs rm1) (model_max_nesting C) s3) (\<lambda>(cts, s4).
              rbind (first_mismatch (rm_test_case rm1) (boosted_inputs rm1) (enumerate 0 (boosted_inputs rm1))
                       (map model_regs cts) hregs cts hts) (\<lambda>vs.
                ok (if vs = [] then rm1 else rm1\<lparr>arch_violations := vs\<rparr>, s4)))))))"

section \<open>Stages\<close>

datatype RoundStage = ST_fast | ST_nesting | ST_taint_mistake | ST_priming | ST_noise | ST_arch_mismatch | ST_priming_large

fun noise_loop ::
  "fuzz_conf \<Rightarrow> ('inp, 'taint, 'tc, 's) modules \<Rightarrow> int list \<Rightarrow> ('inp, 'tc) RoundManager \<Rightarrow> 's \<Rightarrow>
   (('inp, 'tc) RoundManager \<times> 's) res" where
  "noise_loop C M [] rm s = ok (rm, s)"
| "noise_loop C M (sz # szs) rm s =
     rbind (py_nth (rm_htraces rm) 0) (\<lambda>h.
     rbind (normal_stage C M (rm\<lparr>rm_conf := (rm_conf rm)\<lparr>executor_n_reps := sz - int (htrace_len h)\<rparr>\<rparr>) s) (\<lambda>(rm', s').
       if violations rm' = [] then ok (rm', s') else noise_loop C M szs rm' s'))"

definition execute_stage ::
  "fuzz_conf \<Rightarrow> ('inp, 'taint, 'tc, 's) modules \<Rightarrow> RoundStage \<Rightarrow> ('inp, 'tc) RoundManager \<Rightarrow> 's \<Rightarrow>
   (('inp, 'tc) RoundManager \<times> 's) res" where
  "execute_stage C M stage rm s =
     (case stage of
        ST_fast \<Rightarrow> py_assert (is_initial (rm_conf rm))
          (rbind (normal_stage C M rm s) (\<lambda>(rm', s').
             ok (rm'\<lparr>rm_conf := (rm_conf rm')\<lparr>is_initial := False, record_stats := False\<rparr>,
                     reference_htraces := rm_htraces rm'\<rparr>, s')))
      | ST_nesting \<Rightarrow>
          rbind (if model_nesting (rm_conf rm) \<noteq> max_nesting_conf (rm_conf rm)
                 then normal_stage C M (rm\<lparr>rm_conf := (rm_conf rm)\<lparr>model_nesting := max_nesting_conf (rm_conf rm)\<rparr>\<rparr>) s
                 else ok (rm, s))
            (\<lambda>(rm', s'). ok (rm'\<lparr>rm_conf := (rm_conf rm')\<lparr>reuse_boosts := True, update_ignore_list_flag := True\<rparr>\<rparr>, s'))
      | ST_taint_mistake \<Rightarrow>
          rbind (if enable_fast_contract_tracing (rm_conf rm)
                 then normal_stage C M (rm\<lparr>rm_conf := (rm_conf rm)\<lparr>enable_fast_contract_tracing := False\<rparr>\<rparr>) s
                 else ok (rm, s))
            (\<lambda>(rm', s'). py_assert (model_nesting (rm_conf rm') = max_nesting_conf (rm_conf rm'))
               (ok (rm'\<lparr>rm_conf := (rm_conf rm')\<lparr>reuse_ctraces := True\<rparr>\<rparr>, s')))
      | ST_priming \<Rightarrow> if \<not> enable_priming (rm_conf rm) then ok (rm, s) else priming_check M rm s
      | ST_noise \<Rightarrow>
          if length (executor_sample_sizes C) = 1 then ok (rm, s)
          else noise_loop C M (tl (executor_sample_sizes C)) (rm\<lparr>rm_conf := (rm_conf rm)\<lparr>extend_htraces := True\<rparr>\<rparr>) s
      | ST_priming_large \<Rightarrow>
          if \<not> enable_priming (rm_conf rm) \<or> length (executor_sample_sizes C) = 1 then ok (rm, s)
          else rbind (py_nth (executor_sample_sizes C) (-1)) (\<lambda>n.
                 priming_check M (rm\<lparr>rm_conf := (rm_conf rm)\<lparr>executor_n_reps := n\<rparr>\<rparr>) s)
      | ST_arch_mismatch \<Rightarrow> check_for_architectural_mismatch C M rm s)"

section \<open>A round\<close>

definition bump :: "(FuzzingStats \<Rightarrow> FuzzingStats) \<Rightarrow> ('m, 'z) fuzz_state_scheme \<Rightarrow> ('m, 'z) fuzz_state_scheme" where
  "bump f s = s\<lparr>fz_stats := f (fz_stats s)\<rparr>"

text \<open>Run a stage; a round without violations ends and counts in the given statistic.\<close>

definition stage_or_end ::
  "fuzz_conf \<Rightarrow> ('inp, 'taint, 'tc, ('m, 'z) fuzz_state_scheme) modules \<Rightarrow> RoundStage \<Rightarrow> (FuzzingStats \<Rightarrow> FuzzingStats) \<Rightarrow>
   ('inp, 'tc) RoundManager \<Rightarrow> ('m, 'z) fuzz_state_scheme \<Rightarrow>
   (('inp, 'tc) RoundManager \<Rightarrow> ('m, 'z) fuzz_state_scheme \<Rightarrow> (('inp, 'tc) Violation option \<times> ('m, 'z) fuzz_state_scheme) res) \<Rightarrow>
   (('inp, 'tc) Violation option \<times> ('m, 'z) fuzz_state_scheme) res" where
  "stage_or_end C M stage stat rm s cont =
     rbind (execute_stage C M stage rm s) (\<lambda>(rm', s').
       if violations rm' = [] then ok (None, bump stat s') else cont rm' s')"

definition fuzzing_round ::
  "fuzz_conf \<Rightarrow> ('inp, 'taint, 'tc, ('m, 'z) fuzz_state_scheme) modules \<Rightarrow> 'tc \<Rightarrow> 'inp list \<Rightarrow> nat list \<Rightarrow>
   ('m, 'z) fuzz_state_scheme \<Rightarrow> (('inp, 'tc) Violation option \<times> ('m, 'z) fuzz_state_scheme) res" where
  "fuzzing_round C M tc inputs starting_ignore_list s =
     rbind (RoundManager_init C M tc inputs s) (\<lambda>(rm, s0).
       let s1 = (if starting_ignore_list \<noteq> [] then ex_set_ignore_list M starting_ignore_list s0 else s0)
       in stage_or_end C M ST_fast (\<lambda>st. st\<lparr>fast_path := fast_path st + 1\<rparr>) rm s1 (\<lambda>rm s.
          stage_or_end C M ST_nesting (\<lambda>st. st\<lparr>fp_nesting := fp_nesting st + 1\<rparr>) rm s (\<lambda>rm s.
          stage_or_end C M ST_taint_mistake (\<lambda>st. st\<lparr>fp_taint_mistakes := fp_taint_mistakes st + 1\<rparr>) rm s (\<lambda>rm s.
          stage_or_end C M ST_priming (\<lambda>st. st\<lparr>fp_priming := fp_priming st + 1\<rparr>) rm s (\<lambda>rm s.
          stage_or_end C M ST_noise (\<lambda>st. st\<lparr>fp_large_sample := fp_large_sample st + 1\<rparr>) rm s (\<lambda>rm s.
          stage_or_end C M ST_priming_large (\<lambda>st. st\<lparr>fp_priming := fp_priming st + 1\<rparr>) rm s (\<lambda>rm s.
            rbind (execute_stage C M ST_arch_mismatch rm s) (\<lambda>(rm', s').
              if arch_violations rm' \<noteq> [] then ok (None, s') else ok (Some (hd (violations rm')), s')))))))))"

definition architectural_fuzzing_round ::
  "fuzz_conf \<Rightarrow> ('inp, 'taint, 'tc, 's) modules \<Rightarrow> 'tc \<Rightarrow> 'inp list \<Rightarrow> 's \<Rightarrow> (('inp, 'tc) Violation option \<times> 's) res" where
  "architectural_fuzzing_round C M tc inputs s =
     rbind (RoundManager_init C M tc inputs s) (\<lambda>(rm, s0).
     rbind (execute_stage C M ST_arch_mismatch rm s0) (\<lambda>(rm', s').
       ok (if arch_violations rm' \<noteq> [] then Some (hd (arch_violations rm')) else None, s')))"

section \<open>The fuzzing loop\<close>

text \<open>
  Generation of the test case, preparation of its inputs and the filter are the parameters \<open>gen\<close>,
  \<open>prep\<close> and \<open>filt\<close>; \<open>expired i\<close> tells whether the timeout (if one is set) has expired after the
  i-th round.
\<close>

fun start_loop ::
  "fuzz_conf \<Rightarrow> ('inp, 'taint, 'tc, ('m, 'z) fuzz_state_scheme) modules \<Rightarrow>
   (('m, 'z) fuzz_state_scheme \<Rightarrow> ('tc \<times> ('m, 'z) fuzz_state_scheme) res) \<Rightarrow>
   ('tc \<Rightarrow> ('m, 'z) fuzz_state_scheme \<Rightarrow> ('inp list \<times> ('m, 'z) fuzz_state_scheme) res) \<Rightarrow>
   ('tc \<Rightarrow> 'inp list \<Rightarrow> ('m, 'z) fuzz_state_scheme \<Rightarrow> (bool \<times> ('m, 'z) fuzz_state_scheme) res) \<Rightarrow>
   bool \<Rightarrow> (nat \<Rightarrow> bool) \<Rightarrow> nat list \<Rightarrow> ('m, 'z) fuzz_state_scheme \<Rightarrow> ('m, 'z) fuzz_state_scheme res" where
  "start_loop C M gen prep filt nonstop expired [] s = ok s"
| "start_loop C M gen prep filt nonstop expired (i # is) s =
     rbind (gen s) (\<lambda>(tc, s1).
       let s2 = bump (\<lambda>st. st\<lparr>test_cases := test_cases st + 1\<rparr>) s1
       in rbind (prep tc s2) (\<lambda>(inputs, s3).
          let s4 = bump (\<lambda>st. st\<lparr>num_inputs := num_inputs st + length inputs * inputs_per_class C\<rparr>) s3
          in rbind (filt tc inputs s4) (\<lambda>(filtered, s5).
             if filtered then start_loop C M gen prep filt nonstop expired is s5
             else rbind (fuzzing_round C M tc inputs [] s5) (\<lambda>(violation, s6).
               let s7 = (if violation \<noteq> None then bump (\<lambda>st. st\<lparr>stat_violations := stat_violations st + 1\<rparr>) s6 else s6)
               in if violation \<noteq> None \<and> \<not> nonstop then ok s7
                  else if expired i then ok s7
                  else start_loop C M gen prep filt nonstop expired is s7))))"

definition start ::
  "fuzz_conf \<Rightarrow> ('inp, 'taint, 'tc, ('m, 'z) fuzz_state_scheme) modules \<Rightarrow>
   (('m, 'z) fuzz_state_scheme \<Rightarrow> ('tc \<times> ('m, 'z) fuzz_state_scheme) res) \<Rightarrow>
   ('tc \<Rightarrow> ('m, 'z) fuzz_state_scheme \<Rightarrow> ('inp list \<times> ('m, 'z) fuzz_state_scheme) res) \<Rightarrow>
   ('tc \<Rightarrow> 'inp list \<Rightarrow> ('m, 'z) fuzz_state_scheme \<Rightarrow> (bool \<times> ('m, 'z) fuzz_state_scheme) res) \<Rightarrow>
   nat \<Rightarrow> bool \<Rightarrow> (nat \<Rightarrow> bool) \<Rightarrow> ('m, 'z) fuzz_state_scheme \<Rightarrow> (bool \<times> ('m, 'z) fuzz_state_scheme) res" where
  "start C M gen prep filt num_test_cases nonstop expired s =
     rbind (start_loop C M gen prep filt nonstop expired [0..<num_test_cases] s) (\<lambda>s'.
       ok (0 < stat_violations (fz_stats s'), s'))"

section \<open>Comparison with fenced code\<close>

definition first_reading :: "HTrace \<Rightarrow> int list res" where
  "first_reading h = (case ht_raw h of [] \<Rightarrow> raise IndexError | x # _ \<Rightarrow> ok (sample_regs x))"

fun first_difference :: "(nat \<times> 'inp) list \<Rightarrow> int list list \<Rightarrow> int list list \<Rightarrow> 'inp option res" where
  "first_difference [] fenced regs = ok None"
| "first_difference ((i, x) # xs) fenced regs =
     rbind (py_nth fenced (int i)) (\<lambda>f. rbind (py_nth regs (int i)) (\<lambda>r.
       if f = r then first_difference xs fenced regs else ok (Some x)))"

text \<open>\<open>fence\<close> is the ISA-specific \<^verbatim>\<open>_create_fenced_test_case\<close>.\<close>

definition arch_diff_fuzzing_round ::
  "('inp, 'taint, 'tc, 's) modules \<Rightarrow> ('tc \<Rightarrow> 's \<Rightarrow> ('tc \<times> 's) res) \<Rightarrow> 'tc \<Rightarrow> 'inp list \<Rightarrow> 's \<Rightarrow>
   (('inp, 'tc) Violation option \<times> 's) res" where
  "arch_diff_fuzzing_round M fence tc inputs s =
     rbind (arch_ex_load_test_case M tc s) (\<lambda>s1.
       try_io (arch_ex_trace_test_case M inputs 1 s1) (\<lambda>s2. ok (None, s2)) (\<lambda>hts s2.
           rbind (rmapM first_reading hts) (\<lambda>reg_values.
           rbind (fence tc s2) (\<lambda>(fenced_tc, s3).
           rbind (arch_ex_load_test_case M fenced_tc s3) (\<lambda>s4.
             try_io (arch_ex_trace_test_case M inputs 1 s4) (\<lambda>s5. ok (None, s5)) (\<lambda>fenced_hts s5.
                 rbind (rmapM first_reading fenced_hts) (\<lambda>fenced_reg_values.
                 rbind (first_difference (enumerate 0 inputs) fenced_reg_values reg_values) (\<lambda>d.
                   case d of
                     None \<Rightarrow> ok (None, s5)
                   | Some x \<Rightarrow> rbind (pseudo_violation_from_inputs (md_hashing M) [x] tc) (\<lambda>v. ok (Some v, s5))))))))))"

section \<open>Where violations come from\<close>

text \<open>
  The interface between a round and the analyser: whatever holds of every violation the analyser
  reports for a sequence of inputs holds of the violation the round returns, for some sequence that is
  the given one when boosting is off.
\<close>

locale violation_source =
  fixes M :: "('inp, 'taint, 'tc, ('m, 'z) fuzz_state_scheme) modules"
    and P :: "'tc \<Rightarrow> 'inp list \<Rightarrow> ('inp, 'tc) Violation \<Rightarrow> bool"
  assumes reported: "an_filter_violations M cts hts tc inputs upd s = Inr (vs, s') \<Longrightarrow> v \<in> set vs \<Longrightarrow> P tc inputs v"
begin

definition sourced :: "fuzz_conf \<Rightarrow> ('inp, 'tc) RoundManager \<Rightarrow> bool" where
  "sourced C rm \<longleftrightarrow> (\<forall>v \<in> set (violations rm). \<exists>b. (inputs_per_class C = 1 \<longrightarrow> b = org_inputs rm) \<and> P (rm_test_case rm) b v)"

text \<open>The parts of the round that no stage changes.\<close>

definition same_task :: "('inp, 'tc) RoundManager \<Rightarrow> ('inp, 'tc) RoundManager \<Rightarrow> bool" where
  "same_task rm rm' \<longleftrightarrow> rm_test_case rm' = rm_test_case rm \<and> org_inputs rm' = org_inputs rm"

lemma sourced_cong: "violations rm' = violations rm \<Longrightarrow> same_task rm rm' \<Longrightarrow> sourced C rm' = sourced C rm"
  by (simp add: sourced_def same_task_def)

lemma boost_inputs_sourced:
  "boost_inputs C M rm s = Inr (rm', s') \<Longrightarrow>
   same_task rm rm' \<and> violations rm' = violations rm \<and> (inputs_per_class C = 1 \<longrightarrow> boosted_inputs rm' = org_inputs rm)"
  by (auto simp: boost_inputs_def rbind_eq_Inr_iff same_task_def split: if_splits)

lemma collect_ctraces_sourced:
  "collect_ctraces C M rm s = Inr (rm', s') \<Longrightarrow>
   same_task rm rm' \<and> violations rm' = violations rm \<and> boosted_inputs rm' = boosted_inputs rm"
  by (auto simp: collect_ctraces_def rbind_eq_Inr_iff py_assert_eq_Inr_iff same_task_def split: if_splits)

lemma collect_htraces_sourced:
  "collect_htraces M rm s = (Inr rm', s') \<Longrightarrow>
   same_task rm rm' \<and> violations rm' = violations rm \<and> boosted_inputs rm' = boosted_inputs rm"
  by (auto simp: collect_htraces_def py_assert_eq_Inr_iff same_task_def split: prod.splits sum.splits if_splits)

lemma check_violations_sourced:
  "check_violations M rm s = Inr (rm', s') \<Longrightarrow> (inputs_per_class C = 1 \<longrightarrow> boosted_inputs rm = org_inputs rm) \<Longrightarrow>
   same_task rm rm' \<and> sourced C rm'"
  using reported by (fastforce simp: check_violations_def py_assert_eq_Inr_iff rbind_eq_Inr_iff sourced_def same_task_def)

lemma normal_stage_sourced:
  assumes "normal_stage C M rm s = Inr (rm', s')" and "sourced C rm"
  shows "sourced C rm' \<and> same_task rm rm'"
proof -
  from assms(1) obtain rm1 s1 rm2 s2 where b: "boost_inputs C M rm s = Inr (rm1, s1)"
    and c: "collect_ctraces C M rm1 s1 = Inr (rm2, s2)"
    and rest: "try_io (collect_htraces M rm2 s2) (\<lambda>s3. ok (rm2\<lparr>violations := []\<rparr>, s3))
         (\<lambda>rm3 s3.
           if length (org_inputs rm3) > 0
           then rbind (check_violations M rm3 s3) (\<lambda>(rm4, s4).
                  if violations rm4 = [] then ok (rm4, s4) else ok (rm4, update_ignore_list M rm4 s4))
           else ok (rm3, s3)) = Inr (rm', s')"
    by (auto simp: normal_stage_def rbind_eq_Inr_iff)
  have bc: "same_task rm rm2" "violations rm2 = violations rm" "inputs_per_class C = 1 \<longrightarrow> boosted_inputs rm2 = org_inputs rm"
    using boost_inputs_sourced [OF b] collect_ctraces_sourced [OF c] by (auto simp: same_task_def)
  from rest consider "rm' = rm2\<lparr>violations := []\<rparr>"
    | rm3 s3 where "collect_htraces M rm2 s2 = (Inr rm3, s3)" "rm' = rm3"
    | rm3 s3 s4 where "collect_htraces M rm2 s2 = (Inr rm3, s3)" "check_violations M rm3 s3 = Inr (rm', s4)"
    by (cases "collect_htraces M rm2 s2") (auto simp: try_io_eq_Inr_iff rbind_eq_Inr_iff split: if_splits)
  then show ?thesis
  proof cases
    case 1
    then show ?thesis using bc by (simp add: sourced_def same_task_def)
  next
    case 2
    then show ?thesis using bc collect_htraces_sourced [OF 2(1)] assms(2) by (simp add: sourced_def same_task_def)
  next
    case 3
    have "inputs_per_class C = 1 \<longrightarrow> boosted_inputs rm3 = org_inputs rm3" "same_task rm rm3"
      using bc collect_htraces_sourced [OF 3(1)] by (auto simp: same_task_def)
    then show ?thesis using check_violations_sourced [OF 3(2)] by (simp add: same_task_def)
  qed
qed

lemma noise_loop_sourced:
  "noise_loop C M szs rm s = Inr (rm', s') \<Longrightarrow> sourced C rm \<Longrightarrow> sourced C rm' \<and> same_task rm rm'"
proof (induction szs arbitrary: rm s)
  case (Cons sz szs)
  from Cons.prems(1) obtain n rm1 s1 where
    st: "normal_stage C M (rm\<lparr>rm_conf := (rm_conf rm)\<lparr>executor_n_reps := n\<rparr>\<rparr>) s = Inr (rm1, s1)"
    and rest: "rm1 = rm' \<or> noise_loop C M szs rm1 s1 = Inr (rm', s')"
    by (auto simp: rbind_eq_Inr_iff split: if_splits)
  have "sourced C rm1 \<and> same_task rm rm1"
    using normal_stage_sourced [OF st] Cons.prems(2) by (auto simp: sourced_def same_task_def)
  then show ?case using rest Cons.IH [of rm1 s1] by (auto simp: same_task_def)
qed (simp add: same_task_def)

lemma priming_check_sourced:
  assumes "priming_check M rm s = Inr (rm', s')" and "sourced C rm"
  shows "sourced C rm' \<and> same_task rm rm'"
  using assms by (auto simp: priming_check_def Let_def rbind_eq_Inr_iff sourced_def same_task_def split: if_splits)

lemma arch_mismatch_sourced:
  assumes "check_for_architectural_mismatch C M rm s = Inr (rm', s')"
  shows "violations rm' = violations rm \<and> same_task rm rm'"
  using assms
  by (auto simp: check_for_architectural_mismatch_def Let_def rbind_eq_Inr_iff try_io_eq_Inr_iff same_task_def split: if_splits)

lemma execute_stage_sourced:
  assumes "execute_stage C M stage rm s = Inr (rm', s')" and "sourced C rm"
  shows "sourced C rm' \<and> same_task rm rm'"
proof -
  have upd: "sourced C (r\<lparr>rm_conf := c\<rparr>) = sourced C r" "same_task r r' \<Longrightarrow> same_task r (r'\<lparr>rm_conf := c\<rparr>)"
    "same_task (r\<lparr>rm_conf := c\<rparr>) r' \<Longrightarrow> same_task r r'" "same_task r r" for r r' c
    by (simp_all add: sourced_def same_task_def)
  have upd2: "sourced C (r\<lparr>rm_conf := c, reference_htraces := h\<rparr>) = sourced C r"
    "same_task r (r'\<lparr>rm_conf := c, reference_htraces := h\<rparr>) = same_task r r'" for r r' c h
    by (simp_all add: sourced_def same_task_def)
  show ?thesis
  proof (cases stage)
    case ST_fast
    with assms(1) obtain rm1 where "normal_stage C M rm s = Inr (rm1, s')"
      "rm' = rm1\<lparr>rm_conf := (rm_conf rm1)\<lparr>is_initial := False, record_stats := False\<rparr>, reference_htraces := rm_htraces rm1\<rparr>"
      by (auto simp: execute_stage_def py_assert_eq_Inr_iff rbind_eq_Inr_iff)
    then show ?thesis using normal_stage_sourced assms(2) by (simp add: upd2)
  next
    case ST_nesting
    with assms(1) obtain rm1 where
      "normal_stage C M (rm\<lparr>rm_conf := (rm_conf rm)\<lparr>model_nesting := max_nesting_conf (rm_conf rm)\<rparr>\<rparr>) s = Inr (rm1, s') \<or> rm1 = rm"
      "rm' = rm1\<lparr>rm_conf := (rm_conf rm1)\<lparr>reuse_boosts := True, update_ignore_list_flag := True\<rparr>\<rparr>"
      by (auto simp: execute_stage_def rbind_eq_Inr_iff split: if_splits)
    then show ?thesis using normal_stage_sourced assms(2) upd by metis
  next
    case ST_taint_mistake
    with assms(1) obtain rm1 where
      "normal_stage C M (rm\<lparr>rm_conf := (rm_conf rm)\<lparr>enable_fast_contract_tracing := False\<rparr>\<rparr>) s = Inr (rm1, s') \<or> rm1 = rm"
      "rm' = rm1\<lparr>rm_conf := (rm_conf rm1)\<lparr>reuse_ctraces := True\<rparr>\<rparr>"
      by (auto simp: execute_stage_def rbind_eq_Inr_iff py_assert_eq_Inr_iff split: if_splits)
    then show ?thesis using normal_stage_sourced assms(2) upd by metis
  next
    case ST_priming
    then show ?thesis using assms priming_check_sourced upd(4) by (auto simp: execute_stage_def split: if_splits)
  next
    case ST_noise
    then have "noise_loop C M (tl (executor_sample_sizes C)) (rm\<lparr>rm_conf := (rm_conf rm)\<lparr>extend_htraces := True\<rparr>\<rparr>) s = Inr (rm', s') \<or> rm' = rm"
      using assms(1) by (auto simp: execute_stage_def split: if_splits)
    then show ?thesis using noise_loop_sourced upd(1,3,4) assms(2) by metis
  next
    case ST_arch_mismatch
    then show ?thesis using assms arch_mismatch_sourced sourced_cong by (simp add: execute_stage_def)
  next
    case ST_priming_large
    then have "rm' = rm \<or> (\<exists>n. priming_check M (rm\<lparr>rm_conf := (rm_conf rm)\<lparr>executor_n_reps := n\<rparr>\<rparr>) s = Inr (rm', s'))"
      using assms(1) by (auto simp: execute_stage_def rbind_eq_Inr_iff split: if_splits)
    then show ?thesis using priming_check_sourced upd(1,3,4) assms(2) by metis
  qed
qed

lemma stage_or_end_Some:
  assumes "stage_or_end C M stage stat rm s cont = Inr (Some v, s')" and "sourced C rm"
  shows "\<exists>rm1 s1. cont rm1 s1 = Inr (Some v, s') \<and> sourced C rm1 \<and> same_task rm rm1 \<and> violations rm1 \<noteq> []"
  using assms execute_stage_sourced by (fastforce simp: stage_or_end_def rbind_eq_Inr_iff split: if_splits)

lemma fuzzing_round_sourced:
  assumes "fuzzing_round C M tc inputs ign s = Inr (Some v, s')"
  shows "\<exists>b. (inputs_per_class C = 1 \<longrightarrow> b = inputs) \<and> P tc b v"
proof -
  let ?last = "\<lambda>rm s. rbind (execute_stage C M ST_arch_mismatch rm s) (\<lambda>(rm', s').
      if arch_violations rm' \<noteq> [] then ok (None, s') else ok (Some (hd (violations rm')), s'))"
  from assms obtain rm s0 where rm: "RoundManager_init C M tc inputs s = Inr (rm, s0)"
    by (auto simp: fuzzing_round_def rbind_eq_Inr_iff)
  then have ini: "sourced C rm" "rm_test_case rm = tc" "org_inputs rm = inputs"
    by (auto simp: RoundManager_init_def rbind_eq_Inr_iff sourced_def)
  obtain rm6 s6 where fin: "?last rm6 s6 = Inr (Some v, s')" "sourced C rm6" "same_task rm rm6" "violations rm6 \<noteq> []"
    using assms unfolding fuzzing_round_def rm rbind_Inr prod.case Let_def
    by (elim stage_or_end_Some [elim_format, OF _ ini(1)] exE conjE) (auto dest!: stage_or_end_Some simp: same_task_def)
  then obtain rm7 s7 where r7: "execute_stage C M ST_arch_mismatch rm6 s6 = Inr (rm7, s7)" "v = hd (violations rm7)"
    by (auto simp: rbind_eq_Inr_iff split: if_splits)
  then have v7: "violations rm7 = violations rm6" "same_task rm6 rm7"
    using arch_mismatch_sourced by (auto simp: execute_stage_def)
  then have "sourced C rm7" using fin(2) sourced_cong by metis
  moreover have "v \<in> set (violations rm7)" using r7(2) v7(1) fin(4) by simp
  ultimately show ?thesis using v7(2) fin(3) ini by (auto simp: sourced_def same_task_def)
qed

end

section \<open>The modules of this library\<close>

record ('m, 'tc) std_mods =
  sm_model :: 'm
  sm_executor :: "'tc Executor"
  sm_arch_executor :: "'tc Executor"
  sm_outs :: "string list list"
  sm_gen :: DataGen
  sm_cache :: bitmap_cache

text \<open>What is outside: the digest, the kernel module, numpy, the statistical tests and the contract model.\<close>

record ('m, 'tc) outside =
  o_hashing :: hashing
  o_accept :: "byte list \<Rightarrow> bool"
  o_executor_mode :: string
  o_readings :: "RawHTraceSample list list"
  o_input_memory :: "ActorInput list"
  o_analyser :: Analyser
  o_tests :: stat_tests
  o_analyser_conf :: analyser_conf
  o_is_speculative :: bool
  o_load :: "'tc \<Rightarrow> 'm \<Rightarrow> 'm res"
  o_trace :: "InputData list \<Rightarrow> int \<Rightarrow> 'm \<Rightarrow> (CTrace list \<times> 'm) res"
  o_trace_with_taints :: "InputData list \<Rightarrow> int \<Rightarrow> 'm \<Rightarrow> (CTrace list \<times> InputTaint list \<times> 'm) res"
  o_arch_load :: "'tc \<Rightarrow> 'm \<Rightarrow> 'm res"
  o_arch_trace :: "InputData list \<Rightarrow> int \<Rightarrow> 'm \<Rightarrow> (CTrace list \<times> 'm) res"

type_synonym ('m, 'tc) std_state = "('m, 'tc) std_mods fuzz_state"

text \<open>
  A read of the kernel module that never returns is ended by the user (\<^verbatim>\<open>SystemExit\<close>). A negative number of
  repetitions makes numpy raise when the array of readings is created.
\<close>

definition std_trace ::
  "('m, 'tc) outside \<Rightarrow> 'tc Executor \<Rightarrow> InputData list \<Rightarrow> int \<Rightarrow> ('m, 'tc) std_state \<Rightarrow> HTrace list res \<times> ('m, 'tc) std_state" where
  "std_trace W X inputs n_reps s =
     (if n_reps < 0 \<and> inputs \<noteq> [] \<and> card (ignore_list X) < length inputs then (raise ValueError, s)
      else (case trace_test_case (o_hashing W) (o_accept W) (o_executor_mode W) X (fz_stats s) (o_readings W) inputs
                   (nat n_reps) (sm_outs (fz_mods s)) of
          None \<Rightarrow> (raise SystemExit, s)
        | Some (r, outs) \<Rightarrow>
            (let s' = s\<lparr>fz_mods := (fz_mods s)\<lparr>sm_outs := outs\<rparr>\<rparr>
             in case r of Inl e \<Rightarrow> (raise e, s') | Inr (hts, st) \<Rightarrow> (ok hts, s'\<lparr>fz_stats := st\<rparr>))))"

definition on_model :: "('m \<Rightarrow> ('a \<times> 'm) res) \<Rightarrow> ('m, 'tc) std_state \<Rightarrow> ('a \<times> ('m, 'tc) std_state) res" where
  "on_model f s = rbind (f (sm_model (fz_mods s))) (\<lambda>(x, m). ok (x, s\<lparr>fz_mods := (fz_mods s)\<lparr>sm_model := m\<rparr>\<rparr>))"

definition std_filter ::
  "('m, 'tc) outside \<Rightarrow> CTrace list \<Rightarrow> HTrace list \<Rightarrow> 'tc \<Rightarrow> InputData list \<Rightarrow> bool \<Rightarrow> ('m, 'tc) std_state \<Rightarrow>
   ((InputData, 'tc) Violation list \<times> ('m, 'tc) std_state) res" where
  "std_filter W cts hts tc inputs upd s =
     rbind (filter_violations (htraces_are_equivalent (o_analyser W) (o_tests W) (o_analyser_conf W)) (sm_cache (fz_mods s))
              (fz_stats s) cts hts tc inputs upd)
       (\<lambda>(vs, c, st). ok (vs, s\<lparr>fz_stats := st, fz_mods := (fz_mods s)\<lparr>sm_cache := c\<rparr>\<rparr>))"

definition standard_modules ::
  "'g rng_ops \<Rightarrow> ('m, 'tc) outside \<Rightarrow> (InputData, InputTaint, 'tc, ('m, 'tc) std_state) modules" where
  "standard_modules R W =
     \<lparr>md_hashing = o_hashing W, md_is_speculative = o_is_speculative W,
      md_load_test_case = (\<lambda>tc s. rbind (o_load W tc (sm_model (fz_mods s))) (\<lambda>m. ok (s\<lparr>fz_mods := (fz_mods s)\<lparr>sm_model := m\<rparr>\<rparr>))),
      md_trace_test_case = (\<lambda>inputs n. on_model (o_trace W inputs n)),
      md_trace_test_case_with_taints = (\<lambda>inputs n s.
        rbind (on_model (\<lambda>m. rbind (o_trace_with_taints W inputs n m) (\<lambda>(cts, ts, m'). ok ((cts, ts), m'))) s)
          (\<lambda>((cts, ts), s'). ok (cts, ts, s'))),
      gen_generate_boosted = (\<lambda>inputs ts k s.
        rbind (generate_boosted R (o_input_memory W) (sm_gen (fz_mods s)) inputs ts k)
          (\<lambda>(ys, g). ok (ys, s\<lparr>fz_mods := (fz_mods s)\<lparr>sm_gen := g\<rparr>\<rparr>))),
      ex_load_test_case = (\<lambda>tc s. ok (s\<lparr>fz_mods := (fz_mods s)\<lparr>sm_executor := load_test_case (sm_executor (fz_mods s)) tc\<rparr>\<rparr>)),
      ex_trace_test_case = (\<lambda>inputs n s. std_trace W (sm_executor (fz_mods s)) inputs n s),
      ex_set_ignore_list = (\<lambda>l s. s\<lparr>fz_mods := (fz_mods s)\<lparr>sm_executor := set_ignore_list (sm_executor (fz_mods s)) l\<rparr>\<rparr>),
      ex_extend_ignore_list = (\<lambda>l s. s\<lparr>fz_mods := (fz_mods s)\<lparr>sm_executor := extend_ignore_list (sm_executor (fz_mods s)) l\<rparr>\<rparr>),
      an_filter_violations = std_filter W,
      an_htraces_are_equivalent = (\<lambda>a b s.
        rbind (htraces_are_equivalent (o_analyser W) (o_tests W) (o_analyser_conf W) (sm_cache (fz_mods s)) a b)
          (\<lambda>(e, c). ok (e, s\<lparr>fz_mods := (fz_mods s)\<lparr>sm_cache := c\<rparr>\<rparr>))),
      arch_md_load_test_case = (\<lambda>tc s. rbind (o_arch_load W tc (sm_model (fz_mods s))) (\<lambda>m. ok (s\<lparr>fz_mods := (fz_mods s)\<lparr>sm_model := m\<rparr>\<rparr>))),
      arch_md_trace_test_case = (\<lambda>inputs n. on_model (o_arch_trace W inputs n)),
      arch_ex_load_test_case = (\<lambda>tc s. ok (s\<lparr>fz_mods := (fz_mods s)\<lparr>sm_arch_executor := load_test_case (sm_arch_executor (fz_mods s)) tc\<rparr>\<rparr>)),
      arch_ex_trace_test_case = (\<lambda>inputs n s. std_trace W (sm_arch_executor (fz_mods s)) inputs n s)\<rparr>"

text \<open>What the analyser guarantees of every violation it reports, whatever it was given.\<close>

definition genuine :: "'tc \<Rightarrow> 'inp list \<Rightarrow> ('inp, 'tc) Violation \<Rightarrow> bool" where
  "genuine tc inputs v \<longleftrightarrow> viol_test_case_code v = tc \<and> input_sequence v = inputs \<and>
     (\<exists>hcs. eq_hw_classes (viol_class v) = Some hcs \<and> 2 \<le> length hcs) \<and>
     (\<forall>m \<in> set (eq_measurements (viol_class v)). ctrace_eq (bundle_ctrace m) (eq_ctrace (viol_class v)))"

lemma from_contract_eq_class_genuine:
  assumes "from_contract_eq_class e inputs tc = Inr v" and "get_hw_classes e = Inr hcs" and "2 \<le> length hcs"
  shows "genuine tc inputs v"
  using assms
  by (auto simp: from_contract_eq_class_def Violation_init_def ContractEqClass_init_def set_hw_classes_def genuine_def
      rbind_eq_Inr_iff py_assert_eq_Inr_iff list_all_iff split: list.splits)

lemma collect_violations_genuine: "collect_violations es inputs tc = Inr vs \<Longrightarrow> v \<in> set vs \<Longrightarrow> genuine tc inputs v"
proof (induction es arbitrary: vs)
  case (Cons e es)
  then show ?case
    using from_contract_eq_class_genuine by (fastforce simp: rbind_eq_Inr_iff split: if_splits)
qed simp

lemma filter_violations_genuine:
  assumes "filter_violations eq c st cts hts tc inputs upd = Inr (vs, c', st')" and "v \<in> set vs"
  shows "genuine tc inputs v"
  using assms collect_violations_genuine
  by (fastforce simp: filter_violations_def rbind_eq_Inr_iff Let_def split: if_splits prod.splits)

interpretation std: violation_source "standard_modules R W" genuine
  by unfold_locales
    (auto simp: standard_modules_def std_filter_def rbind_eq_Inr_iff dest: filter_violations_genuine)


text \<open>A round of two inputs that leave different cache footprints and agree architecturally.\<close>

definition demo_fuzz_conf :: fuzz_conf where
  "demo_fuzz_conf = \<lparr>executor_sample_sizes = [1], model_min_nesting = 1, model_max_nesting = 1,
     enable_fast_path_model = False, conf_enable_priming = False, inputs_per_class = 1\<rparr>"

definition demo_regs :: CTrace where
  "demo_regs = CTrace_init demo_hashing (map (\<lambda>v. \<lparr>entry_type = CT_reg, entry_value = v\<rparr>) [7, 0, 0, 0, 0, 0])"

definition demo_outside :: "(unit, nat) outside" where
  "demo_outside = \<lparr>o_hashing = demo_hashing, o_accept = (\<lambda>_. True), o_executor_mode = ''P+P'',
     o_readings = [[zero_sample], [zero_sample]], o_input_memory = [], o_analyser = MergedBitmapAnalyser,
     o_tests = demo_tests, o_analyser_conf = demo_conf, o_is_speculative = True,
     o_load = (\<lambda>_ m. Inr m), o_trace = (\<lambda>inputs _ m. Inr (map (\<lambda>_. CTrace_empty demo_hashing) inputs, m)),
     o_trace_with_taints = (\<lambda>inputs _ m. Inr (map (\<lambda>_. CTrace_empty demo_hashing) inputs, [], m)),
     o_arch_load = (\<lambda>_ m. Inr m), o_arch_trace = (\<lambda>inputs _ m. Inr (map (\<lambda>_. demo_regs) inputs, m))\<rparr>"

definition demo_state :: "DataGen \<Rightarrow> (unit, nat) std_state" where
  "demo_state g = \<lparr>fz_stats = FuzzingStats_init,
     fz_mods = \<lparr>sm_model = (), sm_executor = Executor_init False, sm_arch_executor = Executor_init True,
       sm_outs = km_batch [[demo_sample 2, demo_sample 1]] @ km_batch [[demo_sample 7, demo_sample 7]],
       sm_gen = g, sm_cache = []\<rparr>\<rparr>"

lemma demo_trace:
  assumes "ignore_list X = {}" and "readable (enable_mismatch_check_mode X) (demo_sample a)"
    and "readable (enable_mismatch_check_mode X) (demo_sample b)"
  shows "trace_test_case demo_hashing (\<lambda>_. True) ''P+P'' X st [[zero_sample], [zero_sample]] [demo_input, demo_input] 1
      (km_batch [[demo_sample b, demo_sample a]] @ rest) =
    Some (Inr ([trace_of_row demo_hashing X ''P+P'' (0, [demo_sample a]),
                trace_of_row demo_hashing X ''P+P'' (1, [demo_sample b])],
      st\<lparr>executor_reruns := executor_reruns st + 2\<rparr>), rest)"
proof -
  obtain bytes where bytes: "save_input_sequence_as_rdbf [demo_input, demo_input] = Inr bytes"
    using demo_input_rdbf by blast
  have "km_outputs 2 (enable_mismatch_check_mode X) [demo_sample b, demo_sample a] [[[demo_sample b, demo_sample a]]]"
    using assms by (simp add: km_outputs_def)
  then show ?thesis
    using trace_test_case_complete [of "[demo_input, demo_input]" X 1 bytes "\<lambda>_. True" "[[zero_sample], [zero_sample]]"
        "[demo_sample b, demo_sample a]" "[[[demo_sample b, demo_sample a]]]" demo_hashing "''P+P''" st rest] bytes assms(1)
    by (simp add: pos_def numeral_2_eq_2)
qed

lemma demo_filter:
  "\<exists>v vs c st'. filter_violations (htraces_are_equivalent MergedBitmapAnalyser demo_tests demo_conf) [] st
     [CTrace_empty demo_hashing, CTrace_empty demo_hashing] [demo_htrace 1, demo_htrace 2] tc [x, y] upd = Inr (v # vs, c, st')"
proof -
  have u: "usable (demo_htrace 1)" "usable (demo_htrace 2)"
    by (simp_all add: usable_def demo_htrace_def htrace_is_empty_def htrace_len_def is_corrupted_or_ignored_def
        HTrace_init_def)
  have "\<not> equiv_rel MergedBitmapAnalyser demo_tests demo_conf (demo_htrace 1) (demo_htrace 2)"
    by (simp add: equiv_rel_def equiv_raw_def bitmaps_equivalent_def demo_conf_def merged_bitmap_def demo_htrace_def
        get_raw_traces_def HTrace_init_def)
  then obtain v where "v \<in> set (spec_violations (equiv_rel MergedBitmapAnalyser demo_tests demo_conf)
      (bundles [CTrace_empty demo_hashing, CTrace_empty demo_hashing] [demo_htrace 1, demo_htrace 2] [x, y]) [x, y] tc)"
    using spec_violations_complete [of MergedBitmapAnalyser demo_conf 0 "[demo_htrace 1, demo_htrace 2]" 1
        "[CTrace_empty demo_hashing, CTrace_empty demo_hashing]" demo_tests "[x, y]" tc] u
    by (auto simp: ctrace_eq_def demo_conf_def)
  then obtain v' vs where "spec_violations (equiv_rel MergedBitmapAnalyser demo_tests demo_conf)
      (bundles [CTrace_empty demo_hashing, CTrace_empty demo_hashing] [demo_htrace 1, demo_htrace 2] [x, y]) [x, y] tc = v' # vs"
    by (metis list.set_cases)
  then show ?thesis
    using filter_violations_round [OF demo_round_ok, of "[CTrace_empty demo_hashing, CTrace_empty demo_hashing]" "[x, y]" st tc upd]
    by (auto simp del: One_nat_def)
qed

lemmas round_simps = fuzzing_round_def stage_or_end_def execute_stage_def RoundManager_init_def RoundState_init_def
  normal_stage_def boost_inputs_def collect_ctraces_def collect_htraces_def check_violations_def update_ignore_list_def
  check_for_architectural_mismatch_def try_io_def

lemmas demo_simps = standard_modules_def std_trace_def std_filter_def on_model_def demo_outside_def demo_state_def
  demo_fuzz_conf_def

lemma demo_round: "\<exists>v s'. fuzzing_round demo_fuzz_conf (standard_modules const_rng demo_outside) 3 [demo_input, demo_input] []
     (demo_state const_gen) = Inr (Some v, s')"
proof -
  let ?X = "load_test_case (Executor_init False) (3 :: nat)" and ?Y = "load_test_case (Executor_init True) (3 :: nat)"
  have t1: "trace_test_case demo_hashing (\<lambda>_. True) ''P+P'' ?X st [[zero_sample], [zero_sample]] [demo_input, demo_input] (Suc 0)
      ((km_line (demo_sample 2) # km_line (demo_sample 1) # [''done'', []]) # rest) =
    Some (Inr ([demo_htrace 1, demo_htrace 2], st\<lparr>executor_reruns := executor_reruns st + 2\<rparr>), rest)" for st rest
    using demo_trace [of ?X 1 2 st rest]
    by (simp add: load_test_case_def Executor_init_def readable_def demo_sample_def trace_of_row_def identify_trace_type_def
        demo_htrace_def zero_sample_def)
  have t2: "trace_test_case demo_hashing (\<lambda>_. True) ''P+P'' ?Y st [[zero_sample], [zero_sample]] [demo_input, demo_input] (Suc 0)
      [[km_line (demo_sample 7), km_line (demo_sample 7), ''done'', []]] =
    Some (Inr ([HTrace_init demo_hashing [demo_sample 7] HT_reg, HTrace_init demo_hashing [demo_sample 7] HT_reg],
      st\<lparr>executor_reruns := executor_reruns st + 2\<rparr>), [])" for st
    using demo_trace [of ?Y 7 7 st "[]"]
    by (simp add: load_test_case_def Executor_init_def readable_def trace_of_row_def identify_trace_type_def)
  have regs: "hardware_regs (HTrace_init demo_hashing [demo_sample 7] HT_reg) = Inr [7, 0, 0, 0, 0, 0]"
    "model_regs demo_regs = [7, 0, 0, 0, 0, 0]"
    by (simp_all add: hardware_regs_def HTrace_init_def sample_regs_def demo_sample_def model_regs_def demo_regs_def
        CTrace_init_def Let_def)
  obtain v vs c st' where f: "filter_violations (htraces_are_equivalent MergedBitmapAnalyser demo_tests demo_conf) []
      (FuzzingStats_init\<lparr>executor_reruns := Suc (Suc 0)\<rparr>) [CTrace_empty demo_hashing, CTrace_empty demo_hashing]
      [demo_htrace 1, demo_htrace 2] (3 :: nat) [demo_input, demo_input] True = Inr (v # vs, c, st')"
    using demo_filter [of "FuzzingStats_init\<lparr>executor_reruns := Suc (Suc 0)\<rparr>" 3 demo_input demo_input True] by (elim exE)
  have nn: "executor_reruns FuzzingStats_init = 0" by (simp add: FuzzingStats_init_def)
  have ig: "ignore_list ?X = {}" "ignore_list ?Y = {}" by (simp_all add: load_test_case_def)
  show ?thesis
    by (simp add: round_simps demo_simps t1 t2 regs f nn ig Let_def py_nth_def py_index_def)
qed


section \<open>Priming\<close>

text \<open>
  The priming check looks at one violation only. Its outcome and its effects do not depend on the
  other violations of the round: they are dropped without being tested, although the loop is written
  as if it went through all of them.
\<close>
theorem priming_ignores_other_violations:
  "priming_check M (rm\<lparr>violations := vs @ [v]\<rparr>) s = priming_check M (rm\<lparr>violations := [v]\<rparr>) s"
  by (simp add: priming_check_def Let_def)

section \<open>The timeout\<close>

text \<open>
  The timeout is only looked at after a round. While the filter rejects the generated test cases
  the loop goes on however much time has passed.
\<close>
theorem timeout_not_checked_when_filtered:
  assumes "\<forall>tc inputs s. \<exists>s'. filt tc inputs s = Inr (True, s')"
  shows "start C M gen prep filt n nonstop expired s = start C M gen prep filt n nonstop (\<lambda>_. False) s"
proof -
  obtain F where F: "filt tc inputs s = Inr (True, F tc inputs s)" for tc inputs s using assms by metis
  have "start_loop C M gen prep filt nonstop expired is s = start_loop C M gen prep filt nonstop (\<lambda>_. False) is s" for "is" s
  proof (induction "is" arbitrary: s)
    case (Cons i "is")
    then show ?case by (simp add: Let_def F)
  qed simp
  then show ?thesis by (simp add: start_def)
qed

theorem timeout_not_checked_when_filtered_witness:
  "start demo_fuzz_conf (standard_modules const_rng demo_outside) (\<lambda>s. Inr (3, s)) (\<lambda>_ s. Inr ([demo_input], s))
     (\<lambda>_ _ s. Inr (True, s)) 2 False (\<lambda>_. True) (demo_state const_gen) =
   Inr (False, bump (\<lambda>st. st\<lparr>test_cases := 2, num_inputs := 2\<rparr>) (demo_state const_gen))"
  by (subst timeout_not_checked_when_filtered)
    (simp_all add: start_def bump_def demo_state_def demo_fuzz_conf_def FuzzingStats_init_def numeral_2_eq_2)

end
