(* ===== verification/Actor.thy ===== *)
theory Actor
  imports PyString
begin

unbundle bit_operations_syntax

text \<open>
  Model of \<^verbatim>\<open>rvzr/tc_components/actor.py\<close>: actors and the page table masks made from their data
  properties. A reference to a code section is the position of the section in its program. The bit
  tables of the target are parameters; so are the draws of \<^verbatim>\<open>random.random\<close>. The probability of a default
  bit is computed exactly, without the rounding of floating-point numbers.
\<close>

datatype ActorMode = HOST | GUEST

datatype ActorPL = KERNEL | USER

fun mode_value :: "ActorMode \<Rightarrow> nat" where
  "mode_value HOST = 0"
| "mode_value GUEST = 1"

fun pl_value :: "ActorPL \<Rightarrow> nat" where
  "pl_value KERNEL = 0"
| "pl_value USER = 1"

section \<open>Page table masks\<close>

type_synonym PTEDescriptor = "(string, nat \<times> bool) dict"
type_synonym PropertyMap = "(string, string \<times> bool) dict"

fun arch_properties :: "PropertyMap \<Rightarrow> (string, bool) dict \<Rightarrow> (string, bool) dict \<Rightarrow> (string, bool) dict res" where
  "arch_properties pm acc [] = ok acc"
| "arch_properties pm acc ((property_name, v) # ps) =
     (if property_name = ''randomized'' then arch_properties pm acc ps
      else (case map_of pm property_name of
          None \<Rightarrow> raise AssertionError
        | Some (bit_name, is_inverted) \<Rightarrow>
            arch_properties pm (dict_set acc bit_name (if is_inverted then \<not> v else v)) ps))"

definition count_non_default :: "PTEDescriptor \<Rightarrow> (string, bool) dict \<Rightarrow> nat res" where
  "count_non_default desc props =
     rbind (rmapM (\<lambda>(bit_name, _, dflt). rbind (dict_get props bit_name) (\<lambda>v. ok (dflt \<noteq> v))) desc)
       (\<lambda>ds. ok (length (filter id ds)))"

definition probability_of_default :: "nat \<Rightarrow> nat \<Rightarrow> rat" where
  "probability_of_default a b = (of_nat a / of_nat (a + b)) * (1 / 2) + 1 / 2"

text \<open>The loop over the properties; \<open>k\<close> counts the random draws made so far.\<close>

fun mask_bits :: "(nat \<Rightarrow> rat) \<Rightarrow> bool \<Rightarrow> rat \<Rightarrow> PTEDescriptor \<Rightarrow> nat \<Rightarrow> nat \<Rightarrow> (string, bool) dict \<Rightarrow> nat res" where
  "mask_bits rnd is_randomized prob desc k msk [] = ok msk"
| "mask_bits rnd is_randomized prob desc k msk ((bit_name, new_value) # ps) =
     rbind (dict_get desc bit_name) (\<lambda>(bit_offset, default_value).
       if \<not> is_randomized \<or> new_value = default_value
       then mask_bits rnd is_randomized prob desc k (msk OR push_bit bit_offset (of_bool new_value)) ps
       else mask_bits rnd is_randomized prob desc (Suc k)
              (msk OR push_bit bit_offset (of_bool (if rnd k < prob then default_value else new_value))) ps)"

definition create_pte_mask :: "(nat \<Rightarrow> rat) \<Rightarrow> PTEDescriptor \<Rightarrow> (string, bool) dict \<Rightarrow> PropertyMap \<Rightarrow> nat res" where
  "create_pte_mask rnd desc page_properties pm =
     rbind (dict_get page_properties ''randomized'') (\<lambda>is_randomized.
     rbind (arch_properties pm [] page_properties) (\<lambda>props.
     rbind (if is_randomized
            then rbind (count_non_default desc props) (\<lambda>a.
                   if a + length desc = 0 then raise ZeroDivisionError
                   else ok (probability_of_default a (length desc)))
            else ok 0) (\<lambda>prob.
       mask_bits rnd is_randomized prob desc 0 0 props)))"

section \<open>Actors\<close>

record Actor =
  act_mode :: ActorMode
  privilege_level :: ActorPL
  act_name :: string
  data_properties :: nat
  data_ept_properties :: nat
  observer :: bool
  is_main :: bool
  code_section_ref :: "nat option"

definition Actor_init :: "ActorMode \<Rightarrow> ActorPL \<Rightarrow> string \<Rightarrow> nat \<Rightarrow> nat \<Rightarrow> bool \<Rightarrow> Actor" where
  "Actor_init mode pl name props ept_props is_observer =
     \<lparr>act_mode = mode, privilege_level = pl, act_name = name, data_properties = props, data_ept_properties = ept_props,
      observer = is_observer, is_main = (name = ''main''), code_section_ref = None\<rparr>"

record ActorConf =
  conf_name :: string
  conf_mode :: string
  conf_pl :: string
  conf_observer :: bool
  conf_data_properties :: "(string, bool) dict"
  conf_data_ept_properties :: "(string, bool) dict"
  conf_instruction_blocklist :: "string set"
  conf_fault_blocklist :: "string set"

text \<open>The draws of the second mask follow those of the first; \<open>rnd_ept\<close> are the latter.\<close>

definition from_dict ::
  "(nat \<Rightarrow> rat) \<Rightarrow> (nat \<Rightarrow> rat) \<Rightarrow> PTEDescriptor \<times> PropertyMap \<Rightarrow> PTEDescriptor \<times> PropertyMap \<Rightarrow> ActorConf \<Rightarrow> Actor res" where
  "from_dict rnd rnd_ept pte vm_pte d =
     rbind (if conf_mode d = ''host'' then ok HOST else if conf_mode d = ''guest'' then ok GUEST else raise ValueError) (\<lambda>mode.
     rbind (if conf_pl d = ''kernel'' then ok KERNEL else if conf_pl d = ''user'' then ok USER else raise ValueError) (\<lambda>pl.
     rbind (create_pte_mask rnd (fst pte) (conf_data_properties d) (snd pte)) (\<lambda>props.
     rbind (create_pte_mask rnd_ept (fst vm_pte) (conf_data_ept_properties d) (snd vm_pte)) (\<lambda>ept_props.
       ok (Actor_init mode pl (conf_name d) props ept_props (conf_observer d))))))"

definition create_main :: Actor where
  "create_main = Actor_init HOST KERNEL ''main'' 0 0 False"

definition assign_code_section :: "Actor \<Rightarrow> nat \<Rightarrow> Actor res" where
  "assign_code_section a section_ref =
     py_assert (code_section_ref a = None) (ok (a\<lparr>code_section_ref := Some section_ref\<rparr>))"

definition code_section :: "Actor \<Rightarrow> nat res" where
  "code_section a = (case code_section_ref a of None \<Rightarrow> raise AssertionError | Some k \<Rightarrow> ok k)"

section \<open>The bits of a mask\<close>

lemma arch_properties_distinct:
  "arch_properties pm acc ps = Inr props \<Longrightarrow> distinct (dict_keys acc) \<Longrightarrow> distinct (dict_keys props)"
  by (induction ps arbitrary: acc) (auto simp: distinct_dict_set split: if_splits option.splits prod.splits)

text \<open>
  Offsets of different bits differ: then the bits are independent.
\<close>

definition offsets_injective :: "PTEDescriptor \<Rightarrow> bool" where
  "offsets_injective desc \<longleftrightarrow>
     (\<forall>n n' off d d'. map_of desc n = Some (off, d) \<and> map_of desc n' = Some (off, d') \<longrightarrow> n = n')"

lemma mask_bits_spec:
  assumes "mask_bits rnd r prob desc k msk ps = Inr m" and "offsets_injective desc" and "distinct (dict_keys ps)"
    and "map_of desc n = Some (off, d)"
  shows "n \<notin> set (dict_keys ps) \<Longrightarrow> bit m off \<longleftrightarrow> bit msk off"
    and "map_of ps n = Some v \<Longrightarrow> \<not> bit msk off \<Longrightarrow> bit m off = v \<or> r \<and> bit m off = d"
proof -
  have "(n \<notin> set (dict_keys ps) \<longrightarrow> bit m off = bit msk off) \<and>
     (\<forall>v. map_of ps n = Some v \<longrightarrow> \<not> bit msk off \<longrightarrow> bit m off = v \<or> r \<and> bit m off = d)"
    using assms(1,3)
  proof (induction ps arbitrary: k msk)
    case (Cons p ps)
    obtain bn nv where p: "p = (bn, nv)" by (cases p)
    from Cons.prems(1) obtain bo dv where desc: "map_of desc bn = Some (bo, dv)"
      by (auto simp: p rbind_eq_Inr_iff dict_get_def split: option.splits)
    with Cons.prems(1) obtain k' b where b: "b = nv \<or> r \<and> b = dv"
      and run: "mask_bits rnd r prob desc k' (msk OR push_bit bo (of_bool b)) ps = Inr m"
      by (auto simp: p dict_get_def split: if_splits)
    have other: "bit (msk OR push_bit bo (of_bool b :: nat)) off = bit msk off" if "bn \<noteq> n"
    proof -
      have "bo \<noteq> off" using that assms(2,4) desc by (auto simp: offsets_injective_def)
      then show ?thesis by (auto simp: bit_simps)
    qed
    note IH = Cons.IH [OF run]
    show ?case
    proof (cases "bn = n")
      case True
      then have "bo = off" "dv = d" using desc assms(4) by auto
      moreover have "bit m off = bit (msk OR push_bit bo (of_bool b :: nat)) off"
        using IH Cons.prems(2) True by (auto simp: p)
      ultimately show ?thesis using b True by (auto simp: p bit_simps)
    next
      case False
      then show ?thesis using IH Cons.prems(2) other by (auto simp: p)
    qed
  qed simp
  then show "n \<notin> set (dict_keys ps) \<Longrightarrow> bit m off \<longleftrightarrow> bit msk off"
    and "map_of ps n = Some v \<Longrightarrow> \<not> bit msk off \<Longrightarrow> bit m off = v \<or> r \<and> bit m off = d"
    by auto
qed

text \<open>
  A page table mask sets exactly the requested bits. Every described bit that a property names has
  the requested value (inverted where the architecture inverts it); with randomisation it may have its
  default value instead, and never anything else. Every described bit that no property names is clear.
\<close>
theorem create_pte_mask_bits:
  assumes "create_pte_mask rnd desc page_properties pm = Inr m" and "offsets_injective desc"
    and "map_of desc n = Some (off, dflt)"
  shows "\<exists>props is_randomized. arch_properties pm [] page_properties = Inr props \<and>
     map_of page_properties ''randomized'' = Some is_randomized \<and>
     (case map_of props n of
        None \<Rightarrow> \<not> bit m off
      | Some v \<Rightarrow> bit m off = v \<or> is_randomized \<and> bit m off = dflt)"
proof -
  from assms(1) obtain props r prob where r: "map_of page_properties ''randomized'' = Some r"
    and props: "arch_properties pm [] page_properties = Inr props"
    and run: "mask_bits rnd r prob desc 0 0 props = Inr m"
    by (auto simp: create_pte_mask_def rbind_eq_Inr_iff dict_get_def split: option.splits)
  have "distinct (dict_keys props)" using arch_properties_distinct [OF props] by simp
  note spec = mask_bits_spec [OF run assms(2) this assms(3)]
  show ?thesis
  proof (cases "map_of props n")
    case None
    then have "n \<notin> set (dict_keys props)" by (simp add: map_of_eq_None_iff)
    then show ?thesis using r props spec(1) None by auto
  next
    case (Some v)
    then show ?thesis using r props spec(2) by auto
  qed
qed

text \<open>A page that must be writable, not executable on a target with an inverted execution bit.\<close>

definition demo_pte :: PTEDescriptor where
  "demo_pte = [(''present'', 0, True), (''writable'', 1, True), (''non_executable'', 63, True)]"

definition demo_pte_map :: PropertyMap where
  "demo_pte_map = [(''present'', ''present'', False), (''writable'', ''writable'', False),
     (''executable'', ''non_executable'', True)]"

definition demo_properties :: "(string, bool) dict" where
  "demo_properties = [(''present'', True), (''writable'', False), (''executable'', True), (''randomized'', False)]"

theorem create_pte_mask_bits_witness:
  "\<exists>m. create_pte_mask (\<lambda>_. 0) demo_pte demo_properties demo_pte_map = Inr m \<and> bit m 0 \<and> \<not> bit m 1 \<and> \<not> bit m 63"
proof -
  have run: "\<exists>m. create_pte_mask (\<lambda>_. 0) demo_pte demo_properties demo_pte_map = Inr m"
    by (simp add: create_pte_mask_def demo_pte_def demo_properties_def demo_pte_map_def dict_get_def)
  have props: "arch_properties demo_pte_map [] demo_properties =
      Inr [(''present'', True), (''writable'', False), (''non_executable'', False)]"
    "map_of demo_properties ''randomized'' = Some False"
    by (simp_all add: demo_properties_def demo_pte_map_def)
  have inj: "offsets_injective demo_pte"
    by (auto simp: offsets_injective_def demo_pte_def split: if_splits)
  have d: "map_of demo_pte ''present'' = Some (0, True)" "map_of demo_pte ''writable'' = Some (1, True)"
    "map_of demo_pte ''non_executable'' = Some (63, True)"
    by (simp_all add: demo_pte_def)
  from run obtain m where m: "create_pte_mask (\<lambda>_. 0) demo_pte demo_properties demo_pte_map = Inr m" by blast
  show ?thesis
    using m create_pte_mask_bits [OF m inj d(1)] create_pte_mask_bits [OF m inj d(2)] create_pte_mask_bits [OF m inj d(3)]
    by (auto simp: props)
qed

end
