(* ===== verification/Program.thy ===== *)
theory Program
  imports Actor BasicBlocks TestCaseData "HOL-Library.Product_Lexorder" "HOL-Library.Multiset"
begin

text \<open>
  Model of the classes \<^verbatim>\<open>Function\<close>, \<^verbatim>\<open>CodeSection\<close> and \<^verbatim>\<open>TestCaseProgram\<close> of
  \<^verbatim>\<open>rvzr/tc_components/test_case_code.py\<close> and of \<^verbatim>\<open>TestCaseBinary\<close> of
  \<^verbatim>\<open>rvzr/tc_components/test_case_binary.py\<close>. References between actors and sections are positions in the
  list of sections and names in the dictionary of actors. The object file is a byte list; what the
  ELF parser finds in it is data assigned to sections and binary.
\<close>

section \<open>Functions\<close>

record 'i Function =
  fn_name :: string
  fn_parent :: nat
  all_bb :: "'i BasicBlock list"

definition Function_init :: "nat \<Rightarrow> string \<Rightarrow> nat \<Rightarrow> 'i Function" where
  "Function_init exit_id name parent =
     \<lparr>fn_name = name, fn_parent = parent,
      all_bb = [BasicBlock_init exit_id (''.exit_'' @ removeprefix name ''.function_'') True]\<rparr>"

definition fn_iter :: "'i Function \<Rightarrow> 'i BasicBlock list" where
  "fn_iter f = butlast (all_bb f)"

definition fn_len :: "'i Function \<Rightarrow> nat" where
  "fn_len f = length (butlast (all_bb f))"

definition fn_getitem :: "'i Function \<Rightarrow> int \<Rightarrow> 'i BasicBlock res" where
  "fn_getitem f i = py_assert (length (all_bb f) > 1) (py_nth (butlast (all_bb f)) i)"

definition fn_append :: "'i Function \<Rightarrow> 'i BasicBlock \<Rightarrow> 'i Function res" where
  "fn_append f bb =
     (if all_bb f = [] then raise IndexError else ok (f\<lparr>all_bb := butlast (all_bb f) @ [bb] @ [last (all_bb f)]\<rparr>))"

definition fn_extend :: "'i Function \<Rightarrow> 'i BasicBlock list \<Rightarrow> 'i Function res" where
  "fn_extend f bb_list =
     (if all_bb f = [] then raise IndexError else ok (f\<lparr>all_bb := butlast (all_bb f) @ bb_list @ [last (all_bb f)]\<rparr>))"

definition get_first_bb :: "'i Function \<Rightarrow> 'i BasicBlock res" where
  "get_first_bb f = py_nth (all_bb f) 0"

definition get_exit_bb :: "'i Function \<Rightarrow> 'i BasicBlock res" where
  "get_exit_bb f = rbind (py_nth (all_bb f) (-1)) (\<lambda>exit_bb. py_assert (bb_is_exit exit_bb) (ok exit_bb))"

section \<open>Sections\<close>

record 'i CodeSection =
  sec_name :: string
  sec_owner :: string
  sec_id :: "int option"
  sec_functions :: "'i Function list"
  bin_offset :: "nat option"
  bin_size :: "nat option"

text \<open>The constructor also assigns the section to its owner, see \<open>add_actor_with_section\<close>.\<close>

definition CodeSection_init :: "string \<Rightarrow> 'i CodeSection" where
  "CodeSection_init owner =
     \<lparr>sec_name = owner, sec_owner = owner, sec_id = None, sec_functions = [], bin_offset = None, bin_size = None\<rparr>"

definition sec_getitem :: "'i CodeSection \<Rightarrow> int \<Rightarrow> 'i Function res" where
  "sec_getitem sec i = py_nth (sec_functions sec) i"

definition sec_len :: "'i CodeSection \<Rightarrow> nat" where
  "sec_len sec = length (sec_functions sec)"

definition sec_append :: "'i CodeSection \<Rightarrow> 'i Function \<Rightarrow> 'i CodeSection res" where
  "sec_append sec func =
     py_assert (fn_name func \<notin> set (map fn_name (sec_functions sec)))
       (ok (sec\<lparr>sec_functions := sec_functions sec @ [func]\<rparr>))"

definition sec_assign_elf_data :: "'i CodeSection \<Rightarrow> nat \<Rightarrow> nat \<Rightarrow> int \<Rightarrow> 'i CodeSection res" where
  "sec_assign_elf_data sec offset sz ident =
     py_assert (bin_offset sec = None \<and> bin_size sec = None \<and> sec_id sec = None)
       (ok (sec\<lparr>bin_offset := Some offset, bin_size := Some sz, sec_id := Some ident\<rparr>))"

record ELFSectionData =
  elf_offset :: nat
  elf_size :: nat
  elf_id :: int

definition get_elf_data :: "'i CodeSection \<Rightarrow> ELFSectionData res" where
  "get_elf_data sec =
     (case (bin_offset sec, bin_size sec, sec_id sec) of
        (Some offset, Some sz, Some ident) \<Rightarrow> ok \<lparr>elf_offset = offset, elf_size = sz, elf_id = ident\<rparr>
      | _ \<Rightarrow> raise AssertionError)"

section \<open>Assembled programs\<close>

record SymbolTableEntry =
  sym_sid :: int
  sym_offset :: int
  sym_type :: int
  sym_arg :: int

type_synonym 'i InstructionMap = "(int, (int, 'i) dict) dict"

record 'i TestCaseBinary =
  obj_path :: string
  bin_symbol_table :: "SymbolTableEntry list option"
  bin_instruction_map :: "'i InstructionMap option"
  bin_is_assembled :: bool

definition TestCaseBinary_init :: "string \<Rightarrow> 'i TestCaseBinary" where
  "TestCaseBinary_init path =
     \<lparr>obj_path = path, bin_symbol_table = None, bin_instruction_map = None, bin_is_assembled = False\<rparr>"

definition get_macro_offset :: "'i TestCaseBinary \<Rightarrow> int \<Rightarrow> int res" where
  "get_macro_offset b macro_type =
     (case bin_symbol_table b of
        None \<Rightarrow> raise AssertionError
      | Some table \<Rightarrow> (case filter (\<lambda>s. sym_type s = macro_type) table of
            [] \<Rightarrow> ok (-1)
          | s # _ \<Rightarrow> ok (sym_offset s)))"

definition bin_assign_elf_data ::
  "'i TestCaseBinary \<Rightarrow> SymbolTableEntry list \<Rightarrow> 'i InstructionMap \<Rightarrow> 'i TestCaseBinary res" where
  "bin_assign_elf_data b table imap =
     py_assert (bin_symbol_table b = None) (py_assert (bin_instruction_map b = None)
       (ok (b\<lparr>bin_symbol_table := Some table, bin_instruction_map := Some imap\<rparr>)))"

definition symbol_table :: "'i TestCaseBinary \<Rightarrow> SymbolTableEntry list res" where
  "symbol_table b = (case bin_symbol_table b of None \<Rightarrow> raise AssertionError | Some t \<Rightarrow> ok t)"

definition instruction_map :: "'i TestCaseBinary \<Rightarrow> 'i InstructionMap res" where
  "instruction_map b = (case bin_instruction_map b of None \<Rightarrow> raise AssertionError | Some m \<Rightarrow> ok m)"

section \<open>Programs\<close>

record 'i TestCaseProgram =
  generator_seed :: int
  prog_asm_path :: string
  prog_obj :: "'i TestCaseBinary option"
  obj_is_assembled :: bool
  sections :: "'i CodeSection list"
  prog_actors :: "(string, Actor) dict"
  tc_exit_bb :: "'i BasicBlock"

definition TC_EXIT_LABEL :: string where
  "TC_EXIT_LABEL = ''.test_case_exit''"

definition TestCaseProgram_init :: "nat \<Rightarrow> string \<Rightarrow> int \<Rightarrow> 'i TestCaseProgram" where
  "TestCaseProgram_init exit_id path sd =
     \<lparr>generator_seed = sd, prog_asm_path = path, prog_obj = None, obj_is_assembled = False,
      sections = [CodeSection_init ''main''], prog_actors = [(''main'', create_main\<lparr>code_section_ref := Some 0\<rparr>)],
      tc_exit_bb = BasicBlock_init exit_id TC_EXIT_LABEL False\<rparr>"

definition prog_len :: "'i TestCaseProgram \<Rightarrow> nat" where
  "prog_len p = length (sections p)"

definition prog_getitem :: "'i TestCaseProgram \<Rightarrow> int \<Rightarrow> 'i CodeSection res" where
  "prog_getitem p i = py_nth (sections p) i"

definition iter_functions :: "'i TestCaseProgram \<Rightarrow> 'i Function list" where
  "iter_functions p = concat (map sec_functions (sections p))"

definition iter_basic_blocks :: "'i TestCaseProgram \<Rightarrow> 'i BasicBlock list" where
  "iter_basic_blocks p = concat (map (\<lambda>sec. concat (map fn_iter (sec_functions sec))) (sections p))"

definition assign_obj :: "'i TestCaseProgram \<Rightarrow> string \<Rightarrow> 'i TestCaseProgram res" where
  "assign_obj p path = py_assert (prog_obj p = None) (ok (p\<lparr>prog_obj := Some (TestCaseBinary_init path)\<rparr>))"

definition mark_as_assembled :: "'i TestCaseProgram \<Rightarrow> 'i TestCaseProgram res" where
  "mark_as_assembled p =
     (case prog_obj p of
        None \<Rightarrow> raise AssertionError
      | Some b \<Rightarrow> ok (p\<lparr>obj_is_assembled := True, prog_obj := Some (b\<lparr>bin_is_assembled := True\<rparr>)\<rparr>))"

definition get_obj :: "'i TestCaseProgram \<Rightarrow> 'i TestCaseBinary res" where
  "get_obj p = (case prog_obj p of None \<Rightarrow> raise AssertionError | Some b \<Rightarrow> ok b)"

definition reassign_asm_file :: "'i TestCaseProgram \<Rightarrow> string \<Rightarrow> 'i TestCaseProgram res" where
  "reassign_asm_file p path = py_assert (\<not> obj_is_assembled p) (ok (p\<lparr>prog_asm_path := path\<rparr>))"

fun find_index :: "('a \<Rightarrow> bool) \<Rightarrow> 'a list \<Rightarrow> nat option" where
  "find_index P [] = None"
| "find_index P (x # xs) = (if P x then Some 0 else map_option Suc (find_index P xs))"

text \<open>The position of the first section with the name.\<close>

definition find_section :: "'i TestCaseProgram \<Rightarrow> string \<Rightarrow> nat res" where
  "find_section p name =
     (case find_index (\<lambda>sec. sec_name sec = name) (sections p) of None \<Rightarrow> raise KeyError | Some k \<Rightarrow> ok k)"

definition find_function :: "'i TestCaseProgram \<Rightarrow> string \<Rightarrow> 'i Function res" where
  "find_function p name =
     (case find (\<lambda>f. fn_name f = name) (iter_functions p) of None \<Rightarrow> raise KeyError | Some f \<Rightarrow> ok f)"

text \<open>Let the actor own the section: both the dictionary and the section change.\<close>

definition take_section :: "'i TestCaseProgram \<Rightarrow> Actor \<Rightarrow> nat \<Rightarrow> 'i TestCaseProgram res" where
  "take_section p actor k =
     rbind (assign_code_section actor k) (\<lambda>actor'.
       ok (p\<lparr>prog_actors := dict_set (prog_actors p) (act_name actor) actor',
           sections := (sections p)[k := (sections p ! k)\<lparr>sec_owner := act_name actor\<rparr>]\<rparr>))"

definition add_actor_with_section :: "'i TestCaseProgram \<Rightarrow> Actor \<Rightarrow> bool \<Rightarrow> 'i TestCaseProgram res" where
  "add_actor_with_section p actor allow_overwrite =
     (let known = (act_name actor \<in> set (dict_keys (prog_actors p)))
      in if \<not> allow_overwrite \<and> known then raise ValueError
         else if is_main actor
         then py_assert (act_mode actor = HOST) (py_assert (privilege_level actor = KERNEL)
                (if sections p = [] then raise IndexError else take_section p actor 0))
         else if allow_overwrite \<and> known
         then rbind (find_section p (act_name actor)) (\<lambda>k. take_section p actor k)
         else rbind (assign_code_section actor (length (sections p))) (\<lambda>actor'.
                ok (p\<lparr>prog_actors := dict_set (prog_actors p) (act_name actor) actor',
                    sections := sections p @ [CodeSection_init (act_name actor)]\<rparr>)))"

definition get_id :: "'i TestCaseProgram \<Rightarrow> Actor \<Rightarrow> int res" where
  "get_id p a =
     rbind (code_section a) (\<lambda>k.
     rbind (py_nth (sections p) (int k)) (\<lambda>sec.
       case sec_id sec of None \<Rightarrow> raise AssertionError | Some i \<Rightarrow> ok i))"

definition get_actors :: "'i TestCaseProgram \<Rightarrow> Actor list" where
  "get_actors p = dict_values (prog_actors p)"

definition get_actors_sorted :: "'i TestCaseProgram \<Rightarrow> Actor list res" where
  "get_actors_sorted p =
     rbind (rmapM (\<lambda>a. rbind (get_id p a) (\<lambda>i. ok (i, a))) (get_actors p)) (\<lambda>ias.
       ok (map snd (sort_key fst ias)))"

definition find_actor_by_name :: "'i TestCaseProgram \<Rightarrow> string \<Rightarrow> Actor res" where
  "find_actor_by_name p name = dict_get (prog_actors p) name"

fun first_with_id :: "'i TestCaseProgram \<Rightarrow> int \<Rightarrow> Actor list \<Rightarrow> Actor res" where
  "first_with_id p i [] = raise KeyError"
| "first_with_id p i (a # as) = rbind (get_id p a) (\<lambda>j. if j = i then ok a else first_with_id p i as)"

definition find_actor_by_id :: "'i TestCaseProgram \<Rightarrow> int \<Rightarrow> Actor res" where
  "find_actor_by_id p actor_id = first_with_id p actor_id (get_actors p)"

definition find_actor :: "'i TestCaseProgram \<Rightarrow> string option \<Rightarrow> int option \<Rightarrow> Actor res" where
  "find_actor p name actor_id =
     (case (name, actor_id) of
        (Some n, None) \<Rightarrow> find_actor_by_name p n
      | (None, Some i) \<Rightarrow> find_actor_by_id p i
      | _ \<Rightarrow> raise AssertionError)"

definition n_actors :: "'i TestCaseProgram \<Rightarrow> nat" where
  "n_actors p = length (prog_actors p)"

section \<open>Binary forms\<close>

definition actor_section :: "'i TestCaseProgram \<Rightarrow> Actor \<Rightarrow> ELFSectionData res" where
  "actor_section p a = rbind (code_section a) (\<lambda>k. rbind (py_nth (sections p) (int k)) get_elf_data)"

definition section_bytes :: "byte list \<Rightarrow> ELFSectionData \<Rightarrow> byte list" where
  "section_bytes obj d = take (elf_size d) (drop (elf_offset d) obj)"

text \<open>\<open>obj\<close> is the contents of the object file.\<close>

definition binary_to_bytes :: "'i TestCaseProgram \<Rightarrow> 'i TestCaseBinary \<Rightarrow> byte list \<Rightarrow> nat \<Rightarrow> byte list \<Rightarrow> byte list res" where
  "binary_to_bytes p b obj padded_section_size padding_byte =
     py_assert (bin_is_assembled b) (py_assert (padded_section_size = 0 \<or> length padding_byte = 1)
       (rbind (get_actors_sorted p) (\<lambda>actors.
        rbind (rmapM (\<lambda>a. rbind (actor_section p a) (\<lambda>d.
                 py_assert (padded_section_size \<ge> elf_size d)
                   (ok (section_bytes obj d @ concat (replicate (padded_section_size - elf_size d) padding_byte)))))
               actors)
          (\<lambda>codes. ok (concat codes)))))"

definition write_ints :: "int list \<Rightarrow> byte list res" where
  "write_ints xs = rbind (rmapM to_bytes8 xs) (\<lambda>bss. ok (concat bss))"

definition sorted_symbols :: "SymbolTableEntry list \<Rightarrow> SymbolTableEntry list" where
  "sorted_symbols table =
     sort_key sym_arg (filter (\<lambda>s. sym_type s = 0) table) @
     sort_key (\<lambda>s. (sym_sid s, sym_offset s)) (filter (\<lambda>s. sym_type s \<noteq> 0) table)"

definition actor_row :: "int \<Rightarrow> Actor \<Rightarrow> int list" where
  "actor_row i a = [i, int (mode_value (act_mode a)), int (pl_value (privilege_level a)), int (data_properties a),
     int (data_ept_properties a), 0]"

definition symbol_row :: "SymbolTableEntry \<Rightarrow> int list" where
  "symbol_row s = [sym_sid s, sym_offset s, sym_type s, sym_arg s]"

definition section_row :: "ELFSectionData \<Rightarrow> int list" where
  "section_row d = [elf_id d, int (elf_size d), 0]"

definition save_rcbf :: "'i TestCaseProgram \<Rightarrow> 'i TestCaseBinary \<Rightarrow> byte list \<Rightarrow> byte list res" where
  "save_rcbf p b obj =
     py_assert (bin_is_assembled b)
       (rbind (get_actors_sorted p) (\<lambda>actors.
        rbind (symbol_table b) (\<lambda>table.
          if list_ex (\<lambda>s. sym_type s < 0) table then raise SystemExit
          else
            rbind (write_ints [int (length actors), int (length table)]) (\<lambda>header.
            rbind (rmapM (\<lambda>a. rbind (get_id p a) (\<lambda>i. write_ints (actor_row i a))) actors) (\<lambda>actor_table.
            rbind (rmapM (\<lambda>s. write_ints (symbol_row s)) (sorted_symbols table)) (\<lambda>symbols.
            rbind (rmapM (\<lambda>a. rbind (actor_section p a) (\<lambda>d. write_ints (section_row d))) actors) (\<lambda>metadata.
            rbind (rmapM (\<lambda>a. rbind (actor_section p a) (\<lambda>d. ok (section_bytes obj d))) actors) (\<lambda>code.
              ok (header @ concat actor_table @ concat symbols @ concat metadata @ concat code)))))))))"

section \<open>Function bodies\<close>

text \<open>
  Building a function: whatever lists of blocks are added one after the other to a new function,
  iterating over it gives exactly these blocks in that order, its length is their number, indexing
  reaches each of them, and the exit block made by the constructor stays last.
\<close>
theorem function_blocks:
  "\<exists>f. rfold fn_extend (Function_init ident name parent) blockss = Inr f \<and> fn_iter f = concat blockss \<and>
     fn_len f = length (concat blockss) \<and>
     get_exit_bb f = Inr (BasicBlock_init ident (''.exit_'' @ removeprefix name ''.function_'') True) \<and>
     map (\<lambda>k. fn_getitem f (int k)) [0..<length (concat blockss)] = map Inr (concat blockss) \<and>
     (\<forall>bb. rbind (fn_append f bb) (\<lambda>f'. ok (fn_iter f')) = Inr (concat blockss @ [bb]))"
proof -
  let ?x = "BasicBlock_init ident (''.exit_'' @ removeprefix name ''.function_'') True"
  have step: "rfold fn_extend f blockss = Inr (f\<lparr>all_bb := bbs @ concat blockss @ [?x]\<rparr>)"
    if "all_bb f = bbs @ [?x]" for f bbs
    using that
  proof (induction blockss arbitrary: f bbs)
    case (Cons b bs)
    from Cons.IH [of "f\<lparr>all_bb := (bbs @ b) @ [?x]\<rparr>" "bbs @ b"] show ?case
      using Cons.prems by (simp add: fn_extend_def)
  qed simp
  define f where "f = (Function_init ident name parent)\<lparr>all_bb := concat blockss @ [?x]\<rparr>"
  have bb: "all_bb f = concat blockss @ [?x]" by (simp add: f_def)
  have "rfold fn_extend (Function_init ident name parent) blockss = Inr f"
    using step [of "Function_init ident name parent" "[]"] by (simp add: f_def Function_init_def)
  moreover have "fn_iter f = concat blockss" "fn_len f = length (concat blockss)"
    by (simp_all add: fn_iter_def fn_len_def bb)
  moreover have "get_exit_bb f = Inr ?x"
    by (simp add: get_exit_bb_def bb py_nth_def py_index_def Let_def nth_append BasicBlock_init_def)
  moreover have "fn_getitem f (int k) = Inr (concat blockss ! k)" if k: "k < length (concat blockss)" for k
  proof -
    have "length (all_bb f) = Suc (length (concat blockss))" unfolding bb by (simp only: length_append) simp
    then have "length (all_bb f) > 1" using k by linarith
    then show ?thesis using k by (simp add: fn_getitem_def bb del: length_concat)
  qed
  then have "map (\<lambda>k. fn_getitem f (int k)) [0..<length (concat blockss)] = map Inr (concat blockss)"
    by (intro nth_equalityI) (simp_all del: length_concat)
  moreover have "rbind (fn_append f bb) (\<lambda>f'. ok (fn_iter f')) = Inr (concat blockss @ [bb])" for bb
    by (simp add: fn_append_def bb fn_iter_def butlast_append)
  ultimately show ?thesis by blast
qed

section \<open>Actors and sections\<close>

text \<open>
  Actors and sections belong together: the main section comes first, every actor is registered under its
  name and owns exactly one section, which has its name, and every section has an owner.
\<close>

definition prog_ok :: "'i TestCaseProgram \<Rightarrow> bool" where
  "prog_ok p \<longleftrightarrow>
     distinct (dict_keys (prog_actors p)) \<and> distinct (map sec_name (sections p)) \<and>
     set (map sec_name (sections p)) = set (dict_keys (prog_actors p)) \<and>
     sections p \<noteq> [] \<and> sec_name (sections p ! 0) = ''main'' \<and>
     (\<forall>sec \<in> set (sections p). sec_owner sec = sec_name sec) \<and>
     (\<forall>(n, a) \<in> set (prog_actors p). act_name a = n \<and> (is_main a \<longleftrightarrow> n = ''main'') \<and>
        (\<exists>k < length (sections p). code_section_ref a = Some k \<and> sec_name (sections p ! k) = n))"

lemma find_index_Some: "find_index P xs = Some k \<Longrightarrow> k < length xs \<and> P (xs ! k)"
  by (induction xs arbitrary: k) (auto split: if_splits)

lemma find_index_None: "find_index P xs = None \<longleftrightarrow> (\<forall>x \<in> set xs. \<not> P x)"
  by (induction xs) auto

lemma take_section_ok:
  assumes "prog_ok p" and "take_section p a k = Inr p'" and "k < length (sections p)"
    and "sec_name (sections p ! k) = act_name a" and "is_main a \<longleftrightarrow> act_name a = ''main''"
  shows "prog_ok p' \<and> n_actors p' = n_actors p"
proof -
  have p': "p' = p\<lparr>prog_actors := dict_set (prog_actors p) (act_name a) (a\<lparr>code_section_ref := Some k\<rparr>),
      sections := (sections p)[k := (sections p ! k)\<lparr>sec_owner := act_name a\<rparr>]\<rparr>"
    using assms(2) by (auto simp: take_section_def assign_code_section_def rbind_eq_Inr_iff py_assert_eq_Inr_iff)
  have known: "act_name a \<in> set (dict_keys (prog_actors p))"
    using assms(1,3,4) unfolding prog_ok_def by (metis in_set_conv_nth length_map nth_map)
  have keys: "dict_keys (prog_actors p') = dict_keys (prog_actors p)"
    using known by (simp add: p' dict_set_existing_keys)
  have names: "map sec_name (sections p') = map sec_name (sections p)"
  proof -
    have "map sec_name (sections p) ! k = sec_name (sections p ! k)" using assms(3) by simp
    then have "(map sec_name (sections p))[k := sec_name (sections p ! k)] = map sec_name (sections p)"
      by (metis list_update_id)
    then show ?thesis by (simp add: p' map_update)
  qed
  have dist: "distinct (dict_keys (prog_actors p))" using assms(1) by (simp add: prog_ok_def)
  have nth: "sec_name (sections p' ! j) = sec_name (sections p ! j)" if "j < length (sections p)" for j
    using arg_cong [OF names, of "\<lambda>l. l ! j"] that by (simp add: p')
  have "set (prog_actors p') = {(act_name a, a\<lparr>code_section_ref := Some k\<rparr>)} \<union> {(n, b) \<in> set (prog_actors p). n \<noteq> act_name a}"
    using set_dict_set_existing [OF dist known] by (simp add: p')
  moreover have "\<forall>sec \<in> set (sections p'). sec_owner sec = sec_name sec"
    using assms(1,3,4) by (auto simp: p' prog_ok_def dest!: set_update_subset_insert [THEN subsetD])
  moreover have "length (sections p') = length (sections p)" by (simp add: p')
  moreover have "n_actors p' = n_actors p"
    using arg_cong [OF keys, of length] by (simp add: n_actors_def)
  ultimately show ?thesis
    using assms(1,3-5) unfolding prog_ok_def keys names by (auto simp: nth)
qed

lemma add_actor_ok:
  assumes "prog_ok p" and "add_actor_with_section p a ow = Inr p'" and "is_main a \<longleftrightarrow> act_name a = ''main''"
  shows "prog_ok p'"
proof -
  consider (main) "is_main a" "take_section p a 0 = Inr p'"
    | (old) k where "find_section p (act_name a) = Inr k" "take_section p a k = Inr p'"
    | (new) "act_name a \<notin> set (dict_keys (prog_actors p))" "\<not> is_main a"
        "p' = p\<lparr>prog_actors := dict_set (prog_actors p) (act_name a) (a\<lparr>code_section_ref := Some (length (sections p))\<rparr>),
           sections := sections p @ [CodeSection_init (act_name a)]\<rparr>"
    using assms(2) unfolding add_actor_with_section_def Let_def
    by (auto simp: rbind_eq_Inr_iff py_assert_eq_Inr_iff assign_code_section_def split: if_splits)
  then show ?thesis
  proof cases
    case main
    then show ?thesis using take_section_ok [OF assms(1) main(2)] assms(1,3) by (auto simp: prog_ok_def)
  next
    case old
    then have "k < length (sections p)" "sec_name (sections p ! k) = act_name a"
      by (auto simp: find_section_def split: option.splits dest: find_index_Some)
    then show ?thesis using take_section_ok [OF assms(1) old(2)] assms(3) by blast
  next
    case new
    then show ?thesis
      using assms(1,3) unfolding prog_ok_def
      by (auto simp: dict_set_new CodeSection_init_def nth_append less_Suc_eq image_iff) (metis+)?
  qed
qed

lemma TestCaseProgram_init_ok: "prog_ok (TestCaseProgram_init ident path sd)"
  by (simp add: prog_ok_def TestCaseProgram_init_def CodeSection_init_def create_main_def Actor_init_def)

text \<open>
  C27: Whatever actors are added to a new program, with or without overwriting, actors and sections stay
  in correspondence: as many sections as actors, the main section first, each actor found by its name
  and owning the section of that name.
\<close>
theorem actors_own_sections:
  assumes "rfold (\<lambda>p (c, ow). add_actor_with_section p c ow) (TestCaseProgram_init ident path sd) cs = Inr p"
    and "\<forall>(c, ow) \<in> set cs. is_main c \<longleftrightarrow> act_name c = ''main''"
  shows "n_actors p = prog_len p \<and> find_section p ''main'' = Inr 0 \<and>
     (\<forall>name \<in> set (dict_keys (prog_actors p)). \<exists>a k. find_actor_by_name p name = Inr a \<and> act_name a = name \<and>
        code_section a = Inr k \<and> find_section p name = Inr k \<and> sec_owner (sections p ! k) = name)"
proof -
  have new: "is_main c \<longleftrightarrow> act_name c = ''main''" if "(c, ow) \<in> set cs" for c ow
    using assms(2) that by auto
  have ok: "prog_ok p"
  proof (rule rfold_invariant [OF assms(1)])
    show "prog_ok q'" if "prog_ok q" "x \<in> set cs" "(case x of (c, ow) \<Rightarrow> add_actor_with_section q c ow) = Inr q'" for q x q'
    proof -
      obtain c ow where x: "x = (c, ow)" by (cases x)
      then have "add_actor_with_section q c ow = Inr q'" "is_main c \<longleftrightarrow> act_name c = ''main''"
        using that(2,3) new by simp_all
      then show ?thesis by (rule add_actor_ok [OF that(1)])
    qed
  qed (rule TestCaseProgram_init_ok)
  have uniq: "find_section p name = Inr k" if k: "k < length (sections p)" "sec_name (sections p ! k) = name" for k name
  proof -
    obtain j where j: "find_index (\<lambda>sec. sec_name sec = name) (sections p) = Some j"
    proof -
      have "find_index (\<lambda>sec. sec_name sec = name) (sections p) \<noteq> None"
        using k nth_mem by (auto simp: find_index_None)
      then show ?thesis using that by blast
    qed
    then have "j < length (sections p)" "sec_name (sections p ! j) = name" using find_index_Some by fast+
    then have "j = k"
      using k nth_eq_iff_index_eq [of "map sec_name (sections p)" j k] ok by (simp add: prog_ok_def)
    then show ?thesis using j by (simp add: find_section_def)
  qed
  have "length (sections p) = length (prog_actors p)"
    using ok unfolding prog_ok_def by (metis distinct_card length_map)
  moreover have "find_section p ''main'' = Inr 0"
    using ok by (intro uniq) (auto simp: prog_ok_def)
  moreover have "\<exists>a k. find_actor_by_name p name = Inr a \<and> act_name a = name \<and>
        code_section a = Inr k \<and> find_section p name = Inr k \<and> sec_owner (sections p ! k) = name"
    if n: "name \<in> set (dict_keys (prog_actors p))" for name
  proof -
    obtain a where a: "map_of (prog_actors p) name = Some a"
      using n by (cases "map_of (prog_actors p) name") (auto simp: map_of_eq_None_iff)
    then have "(name, a) \<in> set (prog_actors p)" by (rule map_of_SomeD)
    then obtain k where "act_name a = name" "k < length (sections p)" "code_section_ref a = Some k"
      "sec_name (sections p ! k) = name"
      using ok by (auto simp: prog_ok_def)
    moreover from this have "sec_owner (sections p ! k) = name" using ok by (auto simp: prog_ok_def)
    ultimately show ?thesis
      using a uniq by (auto simp: find_actor_by_name_def dict_get_def code_section_def)
  qed
  ultimately show ?thesis by (simp add: n_actors_def prog_len_def)
qed

definition demo_actors :: "(Actor \<times> bool) list" where
  "demo_actors = [(Actor_init GUEST USER ''vm1'' 0 0 True, False), (Actor_init HOST KERNEL ''main'' 7 0 False, True),
     (Actor_init GUEST KERNEL ''vm1'' 0 0 False, True)]"

theorem actors_own_sections_witness:
  "\<exists>p :: nat TestCaseProgram.
     rfold (\<lambda>p (c, ow). add_actor_with_section p c ow) (TestCaseProgram_init 0 ''a.asm'' 1) demo_actors = Inr p \<and>
     n_actors p = prog_len p \<and> find_section p ''main'' = Inr 0"
proof -
  obtain p :: "nat TestCaseProgram" where
    p: "rfold (\<lambda>p (c, ow). add_actor_with_section p c ow) (TestCaseProgram_init 0 ''a.asm'' 1) demo_actors = Inr p"
    by (simp add: demo_actors_def TestCaseProgram_init_def add_actor_with_section_def take_section_def Actor_init_def
        assign_code_section_def find_section_def CodeSection_init_def create_main_def)
  have "\<forall>(c, ow) \<in> set demo_actors. is_main c \<longleftrightarrow> act_name c = ''main''"
    by (simp add: demo_actors_def Actor_init_def)
  from actors_own_sections [OF p this] p show ?thesis by blast
qed

section \<open>Reading an RCBF file\<close>

text \<open>
  The reader of the documented format: counts, six fields per actor, four per symbol, three per section,
  then the code of the sections one after the other, each as long as its metadata say.
\<close>

fun split_sizes :: "nat list \<Rightarrow> 'a list \<Rightarrow> 'a list list" where
  "split_sizes [] xs = []"
| "split_sizes (n # ns) xs = take n xs # split_sizes ns (drop n xs)"

definition rcbf_read :: "byte list \<Rightarrow> int list list \<times> int list list \<times> int list list \<times> byte list list" where
  "rcbf_read bs =
     (let n = le_value (take 8 bs); m = le_value (take 8 (drop 8 bs));
          words = map (\<lambda>w. int (le_value w)) (chunks 8 (take (16 + 72 * n + 32 * m) bs));
          meta = chunks 3 (take (3 * n) (drop (2 + 6 * n + 4 * m) words))
      in (chunks 6 (take (6 * n) (drop 2 words)), chunks 4 (take (4 * m) (drop (2 + 6 * n) words)), meta,
          split_sizes (map (\<lambda>r. nat (r ! 1)) meta) (drop (16 + 72 * n + 32 * m) bs)))"

lemma split_sizes_concat: "map length xss = ns \<Longrightarrow> split_sizes ns (concat xss) = xss"
  by (induction xss arbitrary: ns) auto

lemma write_ints_Cons:
  "write_ints (x # xs) = Inr bs \<longleftrightarrow> (\<exists>b bs'. to_bytes8 x = Inr b \<and> write_ints xs = Inr bs' \<and> bs = b @ bs')"
  by (auto simp: write_ints_def rbind_eq_Inr_iff)

lemma write_ints_append:
  "write_ints (xs @ ys) = Inr bs \<longleftrightarrow> (\<exists>b c. write_ints xs = Inr b \<and> write_ints ys = Inr c \<and> bs = b @ c)"
proof (induction xs arbitrary: bs)
  case Nil
  then show ?case by (auto simp: write_ints_def)
next
  case (Cons x xs)
  then show ?case by (auto simp: write_ints_Cons)
qed

lemma write_ints_appendI: "write_ints xs = Inr b \<Longrightarrow> write_ints ys = Inr c \<Longrightarrow> write_ints (xs @ ys) = Inr (b @ c)"
  by (simp add: write_ints_append)

lemma write_ints_ok:
  "\<forall>x \<in> set xs. 0 \<le> x \<and> x < 2 ^ 64 \<Longrightarrow> write_ints xs = Inr (concat (map (\<lambda>x. le_bytes 8 (nat x)) xs))"
  by (simp add: write_ints_def rmapM_cong_Inr [of xs to_bytes8 "\<lambda>x. le_bytes 8 (nat x)"] to_bytes8_def to_bytes_def)

lemma write_rows: "rmapM (\<lambda>x. write_ints (f x)) xs = Inr bss \<Longrightarrow> write_ints (concat (map f xs)) = Inr (concat bss)"
proof (induction xs arbitrary: bss)
  case Nil
  then show ?case by (simp add: write_ints_def)
next
  case (Cons x xs)
  then show ?case by (auto simp: write_ints_append rbind_eq_Inr_iff)
qed

lemma rmapM_rbind:
  "rmapM (\<lambda>a. rbind (g a) (\<lambda>i. h i a)) xs = Inr ys \<longleftrightarrow>
     (\<exists>gs. rmapM g xs = Inr gs \<and> rmapM (\<lambda>(i, a). h i a) (zip gs xs) = Inr ys)"
proof (induction xs arbitrary: ys)
  case (Cons x xs)
  then show ?case by (auto simp: rbind_eq_Inr_iff) (metis+)?
qed auto

lemma read_write_ints:
  "write_ints xs = Inr bs \<Longrightarrow> length bs = 8 * length xs \<and> map (\<lambda>w. int (le_value w)) (chunks 8 bs) = xs"
proof (induction xs arbitrary: bs)
  case Nil
  then show ?case by (simp add: write_ints_def)
next
  case (Cons x xs)
  then obtain b bs' where b: "to_bytes8 x = Inr b" "write_ints xs = Inr bs'" "bs = b @ bs'"
    by (auto simp: write_ints_Cons)
  then have "length b = 8" "int (le_value b) = x"
    using to_bytes_roundtrip [of 8 x b] by (simp_all add: to_bytes8_def)
  then show ?case using Cons.IH [OF b(2)] b(3) by (simp add: chunks_append)
qed

lemma get_id_elf_id: "get_id p a = Inr i \<Longrightarrow> actor_section p a = Inr d \<Longrightarrow> i = elf_id d"
  by (auto simp: get_id_def actor_section_def get_elf_data_def rbind_eq_Inr_iff split: option.splits)

lemma map_zip_fst: "length xs = length ys \<Longrightarrow> map (\<lambda>p. f (fst p)) (zip xs ys) = map f xs"
  using map_map [of f fst "zip xs ys"] by (simp add: comp_def)

lemma save_rcbf_ints:
  assumes "save_rcbf p b obj = Inr bytes" and "get_actors_sorted p = Inr as" and "rmapM (actor_section p) as = Inr ds"
    and "symbol_table b = Inr table"
  shows "\<exists>header. write_ints ([int (length as), int (length table)] @ concat (map2 (\<lambda>d a. actor_row (elf_id d) a) ds as) @
       concat (map symbol_row (sorted_symbols table)) @ concat (map section_row ds)) = Inr header \<and>
     bytes = header @ concat (map (section_bytes obj) ds)"
proof -
  from assms obtain h ar sr mr cr where
    w: "write_ints [int (length as), int (length table)] = Inr h"
      "rmapM (\<lambda>a. rbind (get_id p a) (\<lambda>i. write_ints (actor_row i a))) as = Inr ar"
      "rmapM (\<lambda>s. write_ints (symbol_row s)) (sorted_symbols table) = Inr sr"
      "rmapM (\<lambda>a. rbind (actor_section p a) (\<lambda>d. write_ints (section_row d))) as = Inr mr"
      "rmapM (\<lambda>a. rbind (actor_section p a) (\<lambda>d. ok (section_bytes obj d))) as = Inr cr"
    and bytes: "bytes = h @ concat ar @ concat sr @ concat mr @ concat cr"
    by (auto simp: save_rcbf_def py_assert_eq_Inr_iff rbind_eq_Inr_iff split: if_splits)
  have len: "length ds = length as" using rmapM_length [OF assms(3)] .
  obtain ids where ids: "rmapM (get_id p) as = Inr ids" "rmapM (\<lambda>(i, a). write_ints (actor_row i a)) (zip ids as) = Inr ar"
    using w(2) unfolding rmapM_rbind by blast
  have "ids = map elf_id ds"
    using rmapM_length [OF ids(1)] len rmapM_nth [OF ids(1)] rmapM_nth [OF assms(3)]
    by (auto intro!: nth_equalityI get_id_elf_id)
  then have "write_ints (concat (map2 (\<lambda>d a. actor_row (elf_id d) a) ds as)) = Inr (concat ar)"
    using write_rows [of "\<lambda>(i, a). actor_row i a" "zip ids as" ar] ids(2)
    by (simp add: case_prod_unfold zip_map1 comp_def)
  moreover have "write_ints (concat (map symbol_row (sorted_symbols table))) = Inr (concat sr)"
    using write_rows w(3) by blast
  moreover have "rmapM (\<lambda>(d, a). write_ints (section_row d)) (zip ds as) = Inr mr"
    "rmapM (\<lambda>(d, a). ok (section_bytes obj d)) (zip ds as) = Inr cr"
    using w(4,5) assms(3) unfolding rmapM_rbind by auto
  then have "write_ints (concat (map section_row ds)) = Inr (concat mr)" "cr = map (section_bytes obj) ds"
    using write_rows [of "\<lambda>(d, a). section_row d" "zip ds as" mr] len
    by (simp_all add: case_prod_unfold map_zip_fst)
  ultimately have "write_ints ([int (length as), int (length table)] @ concat (map2 (\<lambda>d a. actor_row (elf_id d) a) ds as) @
       concat (map symbol_row (sorted_symbols table)) @ concat (map section_row ds)) =
      Inr (h @ concat ar @ concat sr @ concat mr)" "cr = map (section_bytes obj) ds"
    using w(1) by (blast intro: write_ints_appendI)+
  then show ?thesis using bytes by (intro exI [of _ "h @ concat ar @ concat sr @ concat mr"]) simp
qed

lemma length_sorted_symbols: "length (sorted_symbols table) = length table"
  by (simp add: sorted_symbols_def sum_length_filter_compl)

lemma mset_sorted_symbols: "mset (sorted_symbols table) = mset table"
proof -
  have "mset (sorted_symbols table) =
      filter_mset (\<lambda>s. sym_type s = 0) (mset table) + filter_mset (\<lambda>s. \<not> sym_type s = 0) (mset table)"
    by (simp add: sorted_symbols_def)
  then show ?thesis by (simp flip: multiset_partition)
qed


text \<open>A program with two actors, assembled; the guest's section comes first in the object file.\<close>

definition demo_section :: "string \<Rightarrow> nat \<Rightarrow> nat \<Rightarrow> int \<Rightarrow> nat CodeSection" where
  "demo_section name offset sz ident = (CodeSection_init name)\<lparr>bin_offset := Some offset, bin_size := Some sz, sec_id := Some ident\<rparr>"

definition demo_main :: Actor where
  "demo_main = create_main\<lparr>code_section_ref := Some 0\<rparr>"

definition demo_vm :: Actor where
  "demo_vm = (Actor_init GUEST USER ''vm1'' 5 6 False)\<lparr>code_section_ref := Some 1\<rparr>"

definition demo_program :: "nat TestCaseProgram" where
  "demo_program = (TestCaseProgram_init 0 ''a.asm'' 1)\<lparr>sections := [demo_section ''main'' 2 3 0, demo_section ''vm1'' 0 2 1],
     prog_actors := [(''main'', demo_main), (''vm1'', demo_vm)]\<rparr>"

definition demo_binary :: "nat TestCaseBinary" where
  "demo_binary = (TestCaseBinary_init ''a.o'')\<lparr>bin_is_assembled := True, bin_instruction_map := Some [],
     bin_symbol_table := Some [\<lparr>sym_sid = 1, sym_offset = 1, sym_type = 4, sym_arg = 9\<rparr>,
       \<lparr>sym_sid = 0, sym_offset = 0, sym_type = 0, sym_arg = 0\<rparr>]\<rparr>"

lemma demo_program_facts:
  "get_id demo_program demo_main = Inr 0" "get_id demo_program demo_vm = Inr 1"
  "actor_section demo_program demo_main = Inr \<lparr>elf_offset = 2, elf_size = 3, elf_id = 0\<rparr>"
  "actor_section demo_program demo_vm = Inr \<lparr>elf_offset = 0, elf_size = 2, elf_id = 1\<rparr>"
  "get_actors demo_program = [demo_main, demo_vm]"
  by (simp_all add: get_actors_def demo_program_def get_id_def code_section_def demo_section_def demo_main_def demo_vm_def
      py_nth_def py_index_def CodeSection_init_def actor_section_def get_elf_data_def)

lemma demo_program_sorted: "get_actors_sorted demo_program = Inr [demo_main, demo_vm]"
  by (simp add: get_actors_sorted_def demo_program_facts)

lemma demo_program_sections: "rmapM (actor_section demo_program) [demo_main, demo_vm] =
     Inr [\<lparr>elf_offset = 2, elf_size = 3, elf_id = 0\<rparr>, \<lparr>elf_offset = 0, elf_size = 2, elf_id = 1\<rparr>]"
  by (simp add: demo_program_facts)

lemma demo_rows: "actor_row i demo_main = [i, 0, 0, 0, 0, 0]" "actor_row i demo_vm = [i, 1, 1, 5, 6, 0]"
  by (simp_all add: actor_row_def demo_main_def demo_vm_def create_main_def Actor_init_def)


section \<open>The code image\<close>

lemma rmapM_const_error: "x \<in> set xs \<Longrightarrow> (\<And>y. y \<in> set xs \<Longrightarrow> f y \<in> {Inl e} \<union> range Inr) \<Longrightarrow> f x = Inl e \<Longrightarrow> rmapM f xs = Inl e"
proof (induction xs)
  case (Cons y ys)
  show ?case
  proof (cases "f y")
    case (Inl e')
    then show ?thesis using Cons.prems(2) [of y] by auto
  next
    case (Inr z)
    then have "x \<in> set ys" using Cons.prems(1,3) by auto
    then have "rmapM f ys = Inl e" using Cons.IH Cons.prems(2,3) by simp
    then show ?thesis using Inr by simp
  qed
qed simp

lemma padded_image:
  assumes "bin_is_assembled b" and "get_actors_sorted p = Inr as" and "rmapM (actor_section p) as = Inr ds"
    and "\<forall>d \<in> set ds. elf_offset d + elf_size d \<le> length obj \<and> elf_size d \<le> P"
  shows "\<exists>image. binary_to_bytes p b obj P [pad] = Inr image \<and> length image = length as * P \<and>
     (\<forall>k < length as. \<forall>i < P. image ! (k * P + i) =
        (if i < elf_size (ds ! k) then obj ! (elf_offset (ds ! k) + i) else pad))"
proof -
  let ?area = "\<lambda>d. section_bytes obj d @ replicate (P - elf_size d) pad"
  have len: "length ds = length as" using rmapM_length [OF assms(3)] .
  have sec: "actor_section p (as ! k) = Inr (ds ! k)" if "k < length as" for k
    using rmapM_nth [OF assms(3) that] .
  have rows: "rmapM (\<lambda>a. rbind (actor_section p a) (\<lambda>d. py_assert (P \<ge> elf_size d)
      (ok (section_bytes obj d @ concat (replicate (P - elf_size d) [pad]))))) as = Inr (map ?area ds)"
    unfolding rmapM_ok_iff
    by (rule nth_equalityI) (use len sec assms(4) in \<open>auto simp: concat_replicate_single\<close>)
  have alen: "length x = P" if "x \<in> set (map ?area ds)" for x
    using that assms(4) by (auto simp: section_bytes_def)
  have "binary_to_bytes p b obj P [pad] = Inr (concat (map ?area ds))"
    using rows by (simp add: binary_to_bytes_def assms(1,2))
  moreover have "length (concat (map ?area ds)) = length as * P"
  proof -
    have "length (concat (map ?area ds)) = P * length (map ?area ds)" by (rule length_concat_const) (rule alen)
    then show ?thesis using len by simp
  qed
  moreover have "concat (map ?area ds) ! (k * P + i) =
      (if i < elf_size (ds ! k) then obj ! (elf_offset (ds ! k) + i) else pad)" if k: "k < length as" and i: "i < P" for k i
  proof -
    have "ds ! k \<in> set ds" using k len by simp
    then have "elf_offset (ds ! k) + elf_size (ds ! k) \<le> length obj" "elf_size (ds ! k) \<le> P" using assms(4) by auto
    moreover have "concat (map ?area ds) ! (k * P + i) = ?area (ds ! k) ! i"
      using nth_concat_const [of "map ?area ds" P k i] alen k i len by simp
    ultimately show ?thesis using i by (auto simp: section_bytes_def nth_append)
  qed
  ultimately show ?thesis by blast
qed

text \<open>
  The code image loaded into the sandbox. Padded to the size of an actor's code area, the image has
  one area per actor in the order of the identifiers; each starts with the code of the section and
  is filled up with the padding byte. Without padding, which the documentation calls optional, the
  image of a program with any code at all is refused.
\<close>
theorem code_image_layout:
  assumes "bin_is_assembled b" and "get_actors_sorted p = Inr as" and "rmapM (actor_section p) as = Inr ds"
    and "\<forall>d \<in> set ds. elf_offset d + elf_size d \<le> length obj \<and> elf_size d \<le> P"
  shows "(\<exists>image. binary_to_bytes p b obj P [pad] = Inr image \<and> length image = length as * P \<and>
       (\<forall>k < length as. \<forall>i < P. image ! (k * P + i) =
          (if i < elf_size (ds ! k) then obj ! (elf_offset (ds ! k) + i) else pad))) \<and>
     (list_ex (\<lambda>d. 0 < elf_size d) ds \<longrightarrow> binary_to_bytes p b obj 0 [] = Inl AssertionError)"
proof -
  have len: "length ds = length as" using rmapM_length [OF assms(3)] .
  have sec: "actor_section p (as ! k) = Inr (ds ! k)" if "k < length as" for k
    using rmapM_nth [OF assms(3) that] .
  have "binary_to_bytes p b obj 0 [] = Inl AssertionError" if ex: "list_ex (\<lambda>d. 0 < elf_size d) ds"
  proof -
    let ?f = "\<lambda>a. rbind (actor_section p a) (\<lambda>d. py_assert (elf_size d = 0) (ok (section_bytes obj d)))"
    obtain k where k: "k < length as" "0 < elf_size (ds ! k)"
      using ex len by (auto simp: list_ex_iff in_set_conv_nth)
    have "?f a \<in> {Inl AssertionError} \<union> range Inr" if a: "a \<in> set as" for a
    proof -
      obtain i where "i < length as" "a = as ! i" using a by (auto simp: in_set_conv_nth)
      then show ?thesis using sec by (cases "elf_size (ds ! i) = 0") simp_all
    qed
    then have "rmapM ?f as = Inl AssertionError"
      using k sec by (intro rmapM_const_error [of "as ! k"]) auto
    then show ?thesis by (simp add: binary_to_bytes_def assms(1,2))
  qed
  then show ?thesis using padded_image [OF assms] by blast
qed

theorem code_image_layout_witness:
  "\<exists>image. binary_to_bytes demo_program demo_binary [1, 2, 3, 4, 5] 4 [0x90] = Inr image \<and> length image = 8 \<and>
     image ! 0 = 3 \<and> image ! 3 = 0x90 \<and> image ! 4 = 1 \<and>
     binary_to_bytes demo_program demo_binary [1, 2, 3, 4, 5] 0 [] = Inl AssertionError"
proof -
  have asm: "bin_is_assembled demo_binary" by (simp add: demo_binary_def)
  from code_image_layout [OF asm demo_program_sorted demo_program_sections, of "[1, 2, 3, 4, 5]" 4 "0x90"]
  obtain image where image: "binary_to_bytes demo_program demo_binary [1, 2, 3, 4, 5] 4 [0x90] = Inr image" "length image = 8"
    and at: "\<forall>k < 2. \<forall>i < 4. image ! (k * 4 + i) = (if i < elf_size ([\<lparr>elf_offset = 2, elf_size = 3, elf_id = 0\<rparr>,
        \<lparr>elf_offset = 0, elf_size = 2, elf_id = 1\<rparr>] ! k) then [1, 2, 3, 4, 5] ! (elf_offset ([\<lparr>elf_offset = 2, elf_size = 3,
        elf_id = 0\<rparr>, \<lparr>elf_offset = 0, elf_size = 2, elf_id = 1\<rparr>] ! k) + i) else 0x90)"
    and err: "binary_to_bytes demo_program demo_binary [1, 2, 3, 4, 5] 0 [] = Inl AssertionError"
    by auto
  have "image ! 0 = 3" using at [rule_format, of 0 0] by simp
  moreover have "image ! 3 = 0x90" using at [rule_format, of 0 3] by simp
  moreover have "image ! 4 = 1" using at [rule_format, of 1 0] by simp
  ultimately show ?thesis using image err by blast
qed

end
