(* ===== verification/ModelState.thy ===== *)
theory ModelState
  imports Tracer Program
begin

unbundle bit_operations_syntax

text \<open>
  The state of the contract model of \<^verbatim>\<open>rvzr/model_unicorn\<close>: the execution state of
  \<^verbatim>\<open>execution_context.py\<close>, the attributes of \<^verbatim>\<open>UnicornModel\<close> and of the extra interpreter, and the
  operations on them that both \<^verbatim>\<open>model.py\<close> and \<^verbatim>\<open>interpreter.py\<close> use. The emulator and the taint tracker are
  shared objects; their only copies are those of the speculator.
\<close>

section \<open>The engine\<close>

text \<open>
  The part of Unicorn that runs code: \<open>em_begin pc until\<close> prepares a run; \<open>em_next\<close> advances it to the next
  callback, to an error that \<^verbatim>\<open>emu_start\<close> raises, or to its end. \<open>em_new\<close> is a new emulator;
  \<open>mem_map\<close> gives \<open>None\<close> when it raises.
\<close>

datatype emu_event =
    Ev_code int nat
  | Ev_mem access_type int nat int
  | Ev_unmapped access_type int nat int
  | Ev_error nat

record 'e engine =
  em_begin :: "int \<Rightarrow> int \<Rightarrow> 'e \<Rightarrow> 'e"
  em_next :: "'e \<Rightarrow> emu_event option \<times> 'e"
  mem_protect :: "int \<Rightarrow> int \<Rightarrow> bool \<Rightarrow> bool \<Rightarrow> 'e \<Rightarrow> 'e"
  em_new :: 'e
  mem_map :: "int \<Rightarrow> int \<Rightarrow> 'e \<Rightarrow> 'e option"

definition UC_ERR_NOMEM :: nat where "UC_ERR_NOMEM = 1"
definition UC_ERR_INSN_INVALID :: nat where "UC_ERR_INSN_INVALID = 10"
definition UC_ERR_WRITE_PROT :: nat where "UC_ERR_WRITE_PROT = 12"
definition UC_ERR_READ_PROT :: nat where "UC_ERR_READ_PROT = 13"
definition UC_ERR_EXCEPTION :: nat where "UC_ERR_EXCEPTION = 21"

section \<open>State\<close>

record 'c ModelExecutionState =
  current_instruction :: "Instruction option"
  current_actor :: Actor
  exit_addr :: int
  fault_handler_addr :: int
  pending_fault :: nat
  previous_context :: "'c option"
  had_arch_fault :: bool
  page_permissions :: "(int, bool \<times> bool) dict"

record InterpreterState =
  function_table :: "SymbolTableEntry list"
  macro_table :: "SymbolTableEntry list"
  curr_targets :: "(string, int) dict"
  sid_to_actor :: "(int, Actor) dict"
  pseudo_lstar :: int
  vm_safe_address_cache :: "int set"
  user_safe_address_cache :: "int set"
  faulty_page_readable :: "(int, bool) dict"
  faulty_page_writable :: "(int, bool) dict"
  faulty_page_user_accessible :: "(int, bool) dict"
  main_page_user_accessible :: "(int, bool) dict"

record ('e, 'c) UnicornModel =
  m_speculator :: "('e, 'c) Speculator"
  m_tracer :: UnicornTracer
  m_state :: "'c ModelExecutionState"
  m_interpreter :: InterpreterState

text \<open>What stays fixed while a test case is executed.\<close>

record ('e, 'c) model_env =
  me_spec :: "('e, 'c) spec_env"
  me_class :: speculator_class
  me_tracer :: tracer_class
  me_engine :: "'e engine"
  me_layout :: SandboxLayout
  me_program :: "Instruction TestCaseProgram"
  me_is_x86 :: bool
  me_is_amd :: bool
  me_enable_mismatch_check_mode :: bool
  me_handled_faults :: "nat set"
  fault_handler_macro :: int
  usable_registers :: "nat list"
  usable_simd128_registers :: "nat list"
  actor_base_register :: nat
  sp_register :: nat
  x86_rax :: nat
  x86_rsp :: nat
  x86_rbp :: nat
  x86_r14 :: nat
  x86_eflags :: nat
  reg_str_to_constant :: "(string, nat) dict"
  me_pte_bits :: PTEDescriptor
  me_vm_pte_bits :: PTEDescriptor
  me_hashing :: hashing
  me_data_hash :: "byte list \<Rightarrow> nat"

abbreviation me_uc :: "('e, 'c) model_env \<Rightarrow> ('e, 'c) unicorn" where
  "me_uc E \<equiv> uc (me_spec E)"

abbreviation m_emulator :: "('e, 'c) UnicornModel \<Rightarrow> 'e" where
  "m_emulator m \<equiv> emulator (m_speculator m)"

definition on_emulator :: "('e \<Rightarrow> 'e) \<Rightarrow> ('e, 'c) UnicornModel \<Rightarrow> ('e, 'c) UnicornModel" where
  "on_emulator f m = m\<lparr>m_speculator := (m_speculator m)\<lparr>emulator := f (emulator (m_speculator m))\<rparr>\<rparr>"

definition write_reg :: "('e, 'c) model_env \<Rightarrow> nat \<Rightarrow> int \<Rightarrow> ('e, 'c) UnicornModel \<Rightarrow> ('e, 'c) UnicornModel" where
  "write_reg E r v = on_emulator (reg_write (me_uc E) r v)"

text \<open>Call the tracer with the shared taint tracker.\<close>

definition on_tracer :: "(UnicornTracer \<Rightarrow> UnicornTracer) \<Rightarrow> ('e, 'c) UnicornModel \<Rightarrow> ('e, 'c) UnicornModel" where
  "on_tracer f m =
     (let t = f ((m_tracer m)\<lparr>tr_taint_tracker := taint_tracker (m_speculator m)\<rparr>)
      in m\<lparr>m_tracer := t, m_speculator := (m_speculator m)\<lparr>taint_tracker := tr_taint_tracker t\<rparr>\<rparr>)"

definition on_taint_tracker ::
  "(TaintTracker \<Rightarrow> TaintTracker res) \<Rightarrow> ('e, 'c) UnicornModel \<Rightarrow> ('e, 'c) UnicornModel res" where
  "on_taint_tracker f m =
     rbind (f (taint_tracker (m_speculator m))) (\<lambda>t.
       ok (m\<lparr>m_speculator := (m_speculator m)\<lparr>taint_tracker := t\<rparr>\<rparr>))"

section \<open>The execution state\<close>

definition get_exit_addr :: "SandboxLayout \<Rightarrow> 'i TestCaseProgram \<Rightarrow> int res" where
  "get_exit_addr layout p =
     rbind (find_section p ''main'') (\<lambda>k.
     rbind (py_nth (sections p) (int k)) (\<lambda>sec.
     rbind (get_elf_data sec) (\<lambda>d. ok (code_start layout + int (elf_size d) - 1))))"

definition get_fault_handler_addr :: "SandboxLayout \<Rightarrow> 'i TestCaseProgram \<Rightarrow> int \<Rightarrow> int \<Rightarrow> int res" where
  "get_fault_handler_addr layout p exit_address fh_id =
     rbind (get_obj p) (\<lambda>b.
     rbind (get_macro_offset b fh_id) (\<lambda>offset.
       ok (if offset = -1 then exit_address else code_start layout + offset)))"

definition full_reset ::
  "'i TestCaseProgram \<Rightarrow> 'c ModelExecutionState \<Rightarrow> 'c ModelExecutionState res" where
  "full_reset p st =
     rbind (find_actor_by_name p ''main'') (\<lambda>a.
       ok (st\<lparr>had_arch_fault := False, pending_fault := 0, current_actor := a\<rparr>))"

definition ModelExecutionState_init :: "('e, 'c) model_env \<Rightarrow> 'c ModelExecutionState res" where
  "ModelExecutionState_init E =
     rbind (get_exit_addr (me_layout E) (me_program E)) (\<lambda>ex.
     rbind (get_fault_handler_addr (me_layout E) (me_program E) ex (fault_handler_macro E)) (\<lambda>fh.
       full_reset (me_program E) \<lparr>current_instruction = None, current_actor = create_main, exit_addr = ex,
         fault_handler_addr = fh, pending_fault = 0, previous_context = None, had_arch_fault = False,
         page_permissions = []\<rparr>))"

definition reset_after_em_stop ::
  "('e, 'c) model_env \<Rightarrow> int \<Rightarrow> 'c ModelExecutionState \<Rightarrow> 'c ModelExecutionState res" where
  "reset_after_em_stop E start_pc st =
     rbind (find_actor_by_id (me_program E) (code_addr_to_actor_id (me_layout E) start_pc)) (\<lambda>a.
       ok (st\<lparr>pending_fault := 0, current_actor := a\<rparr>))"

definition is_exit_addr :: "'c ModelExecutionState \<Rightarrow> int \<Rightarrow> bool" where
  "is_exit_addr st address \<longleftrightarrow> address = exit_addr st \<or> is_main (current_actor st) \<and> address > exit_addr st"

definition update_context ::
  "('e, 'c) model_env \<Rightarrow> int \<Rightarrow> ('e, 'c) UnicornModel \<Rightarrow> ('e, 'c) UnicornModel res" where
  "update_context E address m =
     rbind (get_id (me_program E) (current_actor (m_state m))) (\<lambda>aid.
     rbind (get_code_addr (me_layout E) CA_MAIN aid) (\<lambda>section_start.
     rbind (get_obj (me_program E)) (\<lambda>b.
     rbind (instruction_map b) (\<lambda>imap.
     rbind (dict_get imap aid) (\<lambda>section_map.
     rbind (dict_get section_map (address - section_start)) (\<lambda>inst.
       ok (m\<lparr>m_state := (m_state m)\<lparr>previous_context := Some (context_save (me_uc E) (m_emulator m)),
           current_instruction := Some inst\<rparr>\<rparr>)))))))"

section \<open>Operations shared by the components\<close>

definition do_soft_fault :: "('e, 'c) model_env \<Rightarrow> nat \<Rightarrow> ('e, 'c) UnicornModel \<Rightarrow> ('e, 'c) UnicornModel" where
  "do_soft_fault E errno m =
     on_emulator (emu_stop (me_uc E)) (m\<lparr>m_state := (m_state m)\<lparr>pending_fault := errno\<rparr>\<rparr>)"

definition set_faulty_area_rw ::
  "('e, 'c) model_env \<Rightarrow> int \<Rightarrow> bool \<Rightarrow> bool \<Rightarrow> ('e, 'c) UnicornModel \<Rightarrow> ('e, 'c) UnicornModel res" where
  "set_faulty_area_rw E actor_id r w m =
     rbind (if actor_id = -1 then get_id (me_program E) (current_actor (m_state m)) else ok actor_id) (\<lambda>aid.
     rbind (get_data_addr (me_layout E) DA_FAULTY aid) (\<lambda>faulty_base.
     rbind (data_area_size DA_FAULTY) (\<lambda>faulty_size.
       ok (on_emulator
             (if \<not> r then mem_protect (me_engine E) faulty_base faulty_size False False
              else if \<not> w then mem_protect (me_engine E) faulty_base faulty_size True False
              else mem_protect (me_engine E) faulty_base faulty_size True True) m))))"

definition tracer_mem_access ::
  "('e, 'c) model_env \<Rightarrow> access_type \<Rightarrow> int \<Rightarrow> nat \<Rightarrow> int \<Rightarrow> ('e, 'c) UnicornModel \<Rightarrow> ('e, 'c) UnicornModel" where
  "tracer_mem_access E access address sz val m =
     on_tracer (observe_mem_access (me_tracer E) (me_uc E) (m_emulator m) (in_speculation (m_speculator m)) access address sz val) m"

section \<open>What leaves the stacks alone\<close>

text \<open>
  The frame of the model's parts other than the speculator: emulator, taints and dependencies may change;
  the checkpoints, the mode, the nesting bound and the control state of the state machine may not.
\<close>

definition model_frame :: "('e, 'c) UnicornModel \<Rightarrow> ('e, 'c) UnicornModel \<Rightarrow> bool" where
  "model_frame m m' \<longleftrightarrow>
     (let s = m_speculator m; s' = m_speculator m'
      in sp_checkpoints s' = sp_checkpoints s \<and> store_logs s' = store_logs s \<and> in_speculation s' = in_speculation s \<and>
         max_nesting s' = max_nesting s \<and> previous_store s' = previous_store s \<and>
         tt_checkpoints (taint_tracker s') = tt_checkpoints (taint_tracker s) \<and>
         enable_tracking (taint_tracker s') = enable_tracking (taint_tracker s)) \<and>
     had_arch_fault (m_state m') = had_arch_fault (m_state m) \<and> exit_addr (m_state m') = exit_addr (m_state m) \<and>
     fault_handler_addr (m_state m') = fault_handler_addr (m_state m)"

lemma model_frame_refl [simp]: "model_frame m m"
  by (simp add: model_frame_def)

lemma model_frame_trans [trans]: "model_frame a b \<Longrightarrow> model_frame b c \<Longrightarrow> model_frame a c"
  by (simp add: model_frame_def Let_def)

lemma on_emulator_frame [simp]: "model_frame m (on_emulator f m)"
  by (simp add: model_frame_def on_emulator_def)

lemma write_reg_frame [simp]: "model_frame m (write_reg E r v m)"
  by (simp add: write_reg_def)

lemma do_soft_fault_frame [simp]: "model_frame m (do_soft_fault E errno m)"
  by (simp add: do_soft_fault_def model_frame_def on_emulator_def)

text \<open>The tracer only adds taints.\<close>

definition keeps_stack :: "(UnicornTracer \<Rightarrow> UnicornTracer) \<Rightarrow> bool" where
  "keeps_stack f \<longleftrightarrow> (\<forall>t. tt_checkpoints (tr_taint_tracker (f t)) = tt_checkpoints (tr_taint_tracker t) \<and>
     enable_tracking (tr_taint_tracker (f t)) = enable_tracking (tr_taint_tracker t))"

lemma on_tracer_frame: "keeps_stack f \<Longrightarrow> model_frame m (on_tracer f m)"
  by (simp add: model_frame_def on_tracer_def keeps_stack_def Let_def)

lemma taint_stack [simp]: "tt_checkpoints (taint v t) = tt_checkpoints t" "enable_tracking (taint v t) = enable_tracking t"
  by (simp_all add: taint_def split: option.splits)

lemma observe_stack:
  "keeps_stack (observe_mem_access K U e sp access address sz val)" "keeps_stack (observe_instruction K U e regs pc sz)"
  by (auto simp: keeps_stack_def observe_mem_access_def observe_instruction_def Let_def add_mem_address_to_trace_def
      add_pc_to_trace_def add_value_to_trace_def split: tracer_class.splits)

lemma tracer_mem_access_frame [simp]: "model_frame m (tracer_mem_access E access address sz val m)"
  by (simp add: tracer_mem_access_def on_tracer_frame observe_stack)

lemma set_faulty_area_rw_frame: "set_faulty_area_rw E aid r w m = Inr m' \<Longrightarrow> model_frame m m'"
  by (auto simp: set_faulty_area_rw_def rbind_eq_Inr_iff)

lemma update_context_frame: "update_context E address m = Inr m' \<Longrightarrow> model_frame m m'"
  by (auto simp: update_context_def rbind_eq_Inr_iff model_frame_def)

section \<open>A concrete environment\<close>

text \<open>
  One actor with a code section of three bytes; the engine reports the instruction at the start of the code
  once and stops after it.
\<close>

definition flat_engine :: "((nat \<Rightarrow> int) \<times> (int \<Rightarrow> byte)) engine" where
  "flat_engine = \<lparr>em_begin = (\<lambda>pc until e. ((fst e)(1 := pc), snd e)),
     em_next = (\<lambda>e. if fst e 1 = 4096 then (Some (Ev_code 4096 1), ((fst e)(1 := 4097), snd e)) else (None, e)),
     mem_protect = (\<lambda>a n r w e. e), em_new = (\<lambda>_. 0, \<lambda>_. 0), mem_map = (\<lambda>a n e. Some e)\<rparr>"

definition flat_program :: "Instruction TestCaseProgram" where
  "flat_program = (TestCaseProgram_init 0 ''a.asm'' 1)\<lparr>
     sections := [(CodeSection_init ''main'')\<lparr>bin_offset := Some 0, bin_size := Some 3, sec_id := Some 0\<rparr>],
     prog_obj := Some \<lparr>obj_path = ''a.o'', bin_symbol_table = Some [],
       bin_instruction_map = Some [(0, [(0, Instruction_init ''nop'' ''BASE-NOP'' False False False)])],
       bin_is_assembled = True\<rparr>\<rparr>"

definition flat_layout :: SandboxLayout where
  "flat_layout = \<lparr>SandboxLayout.data_start = 65536, data_end = 81920, data_size = 16384, code_start = 4096, code_end = 16384,
     code_size = 12288,
     data_addresses = map (\<lambda>i. map (\<lambda>a. (a, 65536 + int i * 16384 + area_off a)) DataArea_members) [0..<1],
     code_addresses = map (\<lambda>i. map (\<lambda>a. (a, 4096 + int i * 12288 + code_off a)) CodeArea_members) [0..<1]\<rparr>"

lemma flat_layout_init: "SandboxLayout_init (65536, 4096) 1 = Inr flat_layout"
  by (simp add: SandboxLayout_init_ok flat_layout_def)

definition flat_model_env :: "speculator_class \<Rightarrow> ((nat \<Rightarrow> int) \<times> (int \<Rightarrow> byte), nat \<Rightarrow> int) model_env" where
  "flat_model_env K = \<lparr>me_spec = flat_env, me_class = K, me_tracer = CTTracer, me_engine = flat_engine, me_layout = flat_layout,
     me_program = flat_program, me_is_x86 = True, me_is_amd = False, me_enable_mismatch_check_mode = False,
     me_handled_faults = {}, fault_handler_macro = 11, usable_registers = [3, 4, 2, 5, 6, 7, 0, 8],
     usable_simd128_registers = [20, 21, 22, 23, 24, 25, 26, 27], actor_base_register = 9, sp_register = 8, x86_rax = 3,
     x86_rsp = 8, x86_rbp = 10, x86_r14 = 9, x86_eflags = 0, reg_str_to_constant = [(''rax'', 3)], me_pte_bits = [],
     me_vm_pte_bits = [], me_hashing = plain_hashing, me_data_hash = (\<lambda>_. 0)\<rparr>"

end
