(* ===== verification/Interpreter.thy ===== *)
theory Interpreter
  imports ModelState
begin

unbundle bit_operations_syntax

text \<open>
  Model of \<^verbatim>\<open>rvzr/model_unicorn/interpreter.py\<close>: macros, the instructions that exit from guests and from
  user mode, and page permissions. An interpreter function may raise \<^verbatim>\<open>UcError\<close>, which the caller of
  the emulator turns into a fault: its result has the error number then, together with the state
  reached.
\<close>

type_synonym ('e, 'c) uc_result = "(nat option \<times> ('e, 'c) UnicornModel) res"

definition CRITICAL_ERROR :: nat where
  "CRITICAL_ERROR = UC_ERR_NOMEM"

definition uc_then :: "('e, 'c) uc_result \<Rightarrow> (('e, 'c) UnicornModel \<Rightarrow> ('e, 'c) uc_result) \<Rightarrow> ('e, 'c) uc_result" where
  "uc_then r f = rbind r (\<lambda>(err, m). case err of None \<Rightarrow> f m | Some e \<Rightarrow> ok (Some e, m))"

definition on_interpreter :: "(InterpreterState \<Rightarrow> InterpreterState) \<Rightarrow> ('e, 'c) UnicornModel \<Rightarrow> ('e, 'c) UnicornModel" where
  "on_interpreter f m = m\<lparr>m_interpreter := f (m_interpreter m)\<rparr>"

section \<open>Macros\<close>

definition InterpreterState_init :: InterpreterState where
  "InterpreterState_init = \<lparr>function_table = [], macro_table = [],
     curr_targets = [(''h2g'', 0), (''g2h'', 0), (''k2u'', 0), (''u2k'', 0)], sid_to_actor = [], pseudo_lstar = 0,
     vm_safe_address_cache = {}, user_safe_address_cache = {}, faulty_page_readable = [], faulty_page_writable = [],
     faulty_page_user_accessible = [], main_page_user_accessible = []\<rparr>"

definition macro_load_test_case :: "('e, 'c) model_env \<Rightarrow> ('e, 'c) UnicornModel \<Rightarrow> ('e, 'c) UnicornModel res" where
  "macro_load_test_case E m =
     rbind (get_obj (me_program E)) (\<lambda>b.
     rbind (symbol_table b) (\<lambda>table.
     rbind (rmapM (\<lambda>a. rbind (get_id (me_program E) a) (\<lambda>i. ok (i, a))) (get_actors (me_program E))) (\<lambda>ias.
       let m1 = on_interpreter (\<lambda>i. i\<lparr>function_table := sort_key sym_arg (filter (\<lambda>s. sym_type s = 0) table),
                  macro_table := filter (\<lambda>s. sym_type s \<noteq> 0) table,
                  sid_to_actor := foldl (\<lambda>d (i, a). dict_set d i a) [] ias\<rparr>) m
       in ok (if me_is_x86 E then on_interpreter (\<lambda>i. i\<lparr>pseudo_lstar := exit_addr (m_state m)\<rparr>) m1 else m1))))"

fun get_macro_args :: "SymbolTableEntry list \<Rightarrow> int \<Rightarrow> int \<Rightarrow> (int \<times> int \<times> int \<times> int) option" where
  "get_macro_args [] sid offset = None"
| "get_macro_args (s # ss) sid offset =
     (if sym_sid s = sid \<and> sym_offset s = offset
      then (let args = sym_arg s
            in Some (args AND 0xFFFF, drop_bit 16 args AND 0xFFFF, drop_bit 32 args AND 0xFFFF, drop_bit 48 args AND 0xFFFF))
      else get_macro_args ss sid offset)"

definition find_function_by_id :: "SymbolTableEntry list \<Rightarrow> int \<Rightarrow> SymbolTableEntry option" where
  "find_function_by_id table function_id =
     (if function_id < 0 \<or> function_id \<ge> int (length table) then None else Some (table ! nat function_id))"

definition macro_measurement :: "bool \<Rightarrow> ('e, 'c) UnicornModel \<Rightarrow> ('e, 'c) UnicornModel" where
  "macro_measurement enable m =
     (if \<not> in_speculation (m_speculator m) then m\<lparr>m_tracer := (m_tracer m)\<lparr>enable_tracing := enable\<rparr>\<rparr> else m)"

text \<open>The address of a function of a section.\<close>

definition function_addr :: "('e, 'c) model_env \<Rightarrow> int \<Rightarrow> int \<Rightarrow> ('e, 'c) UnicornModel \<Rightarrow> (int \<Rightarrow> ('e, 'c) uc_result) \<Rightarrow> ('e, 'c) uc_result" where
  "function_addr E sid function_id m f =
     rbind (get_code_addr (me_layout E) CA_MAIN sid) (\<lambda>section_addr.
       case find_function_by_id (function_table (m_interpreter m)) function_id of
         None \<Rightarrow> ok (Some CRITICAL_ERROR, m)
       | Some s \<Rightarrow> f (section_addr + sym_offset s))"

text \<open>Data area base, stack pointer and current actor of the target of a switch.\<close>

definition set_actor_registers ::
  "('e, 'c) model_env \<Rightarrow> nat \<Rightarrow> int \<Rightarrow> ('e, 'c) UnicornModel \<Rightarrow> ('e, 'c) UnicornModel res" where
  "set_actor_registers E sp sid m =
     rbind (get_data_addr (me_layout E) DA_MAIN sid) (\<lambda>new_base.
     rbind (get_data_addr (me_layout E) DA_RSP_INIT sid) (\<lambda>new_sp.
       ok (write_reg E sp new_sp (write_reg E (actor_base_register E) new_base m))))"

definition set_current_actor :: "int \<Rightarrow> ('e, 'c) UnicornModel \<Rightarrow> ('e, 'c) UnicornModel res" where
  "set_current_actor sid m =
     rbind (dict_get (sid_to_actor (m_interpreter m)) sid) (\<lambda>a.
       ok (m\<lparr>m_state := (m_state m)\<lparr>current_actor := a\<rparr>\<rparr>))"

abbreviation uc_ok :: "('e, 'c) UnicornModel \<Rightarrow> ('e, 'c) uc_result" where
  "uc_ok m \<equiv> ok (None, m)"

definition macro_switch :: "('e, 'c) model_env \<Rightarrow> int \<Rightarrow> int \<Rightarrow> ('e, 'c) UnicornModel \<Rightarrow> ('e, 'c) uc_result" where
  "macro_switch E sid function_id m =
     function_addr E sid function_id m (\<lambda>addr.
       rbind (set_actor_registers E (sp_register E) sid (write_reg E (pc_register (me_spec E)) addr m)) (\<lambda>m1.
       rbind (set_current_actor sid m1) (\<lambda>m2. uc_ok m2)))"

definition macro_set_target ::
  "('e, 'c) model_env \<Rightarrow> string \<Rightarrow> int \<Rightarrow> int \<Rightarrow> ('e, 'c) UnicornModel \<Rightarrow> ('e, 'c) uc_result" where
  "macro_set_target E key sid function_id m =
     function_addr E sid function_id m (\<lambda>addr.
       uc_ok (on_interpreter (\<lambda>i. i\<lparr>curr_targets := dict_set (curr_targets i) key addr\<rparr>) m))"

text \<open>The four switches that jump to an address set before.\<close>

definition macro_switch_to ::
  "('e, 'c) model_env \<Rightarrow> int \<Rightarrow> int \<Rightarrow> (('e, 'c) UnicornModel \<Rightarrow> ('e, 'c) UnicornModel) \<Rightarrow> ('e, 'c) UnicornModel \<Rightarrow> ('e, 'c) uc_result" where
  "macro_switch_to E target sid side_effects m =
     rbind (set_actor_registers E (x86_rsp E) sid (write_reg E (pc_register (me_spec E)) target m)) (\<lambda>m1.
     rbind (set_current_actor sid m1) (\<lambda>m2. uc_ok (side_effects m2)))"

definition macro_switch_target ::
  "('e, 'c) model_env \<Rightarrow> string \<Rightarrow> int \<Rightarrow> (('e, 'c) UnicornModel \<Rightarrow> ('e, 'c) UnicornModel) \<Rightarrow> ('e, 'c) UnicornModel \<Rightarrow> ('e, 'c) uc_result" where
  "macro_switch_target E key sid side_effects m =
     rbind (dict_get (curr_targets (m_interpreter m)) key) (\<lambda>target. macro_switch_to E target sid side_effects m)"

definition clobber_rax :: "('e, 'c) model_env \<Rightarrow> ('e, 'c) UnicornModel \<Rightarrow> ('e, 'c) UnicornModel" where
  "clobber_rax E m = (if me_is_amd E then write_reg E (x86_rax E) 0 m else m)"

definition macro_set_u2k_target ::
  "('e, 'c) model_env \<Rightarrow> int \<Rightarrow> int \<Rightarrow> ('e, 'c) UnicornModel \<Rightarrow> ('e, 'c) uc_result" where
  "macro_set_u2k_target E sid function_id m =
     (if privilege_level (current_actor (m_state m)) \<noteq> KERNEL then uc_ok (do_soft_fault E UC_ERR_EXCEPTION m)
      else function_addr E sid function_id m (\<lambda>addr.
             uc_ok (on_interpreter (\<lambda>i. i\<lparr>pseudo_lstar := addr\<rparr>) m)))"

definition macro_callback ::
  "('e, 'c) model_env \<Rightarrow> string \<Rightarrow> (int \<Rightarrow> int \<Rightarrow> ('e, 'c) UnicornModel \<Rightarrow> ('e, 'c) uc_result) option" where
  "macro_callback E name =
     (if name = ''measurement_start'' then Some (\<lambda>_ _ m. uc_ok (macro_measurement True m))
      else if name = ''measurement_end'' then Some (\<lambda>_ _ m. uc_ok (macro_measurement False m))
      else if name = ''switch'' then Some (macro_switch E)
      else if name = ''fault_handler'' then Some (\<lambda>_ _ m. uc_ok m)
      else if \<not> me_is_x86 E then None
      else if name = ''switch_k2u'' then Some (\<lambda>sid _. macro_switch_target E ''k2u'' sid id)
      else if name = ''switch_u2k'' then Some (\<lambda>sid _ m. macro_switch_to E (pseudo_lstar (m_interpreter m)) sid id m)
      else if name = ''set_k2u_target'' then Some (macro_set_target E ''k2u'')
      else if name = ''set_u2k_target'' then Some (macro_set_u2k_target E)
      else if name = ''switch_h2g'' then Some (\<lambda>sid _. macro_switch_target E ''h2g'' sid
             (\<lambda>m. clobber_rax E (write_reg E (x86_eflags E) 2 m)))
      else if name = ''switch_g2h'' then Some (\<lambda>sid _. macro_switch_target E ''g2h'' sid (clobber_rax E))
      else if name = ''set_h2g_target'' then Some (macro_set_target E ''h2g'')
      else if name = ''set_g2h_target'' then Some (macro_set_target E ''g2h'')
      else if name = ''landing_k2u'' then Some (\<lambda>_ _ m. uc_ok (write_reg E (x86_rcx (me_spec E)) 0 m))
      else if name = ''landing_u2k'' then Some (\<lambda>_ _ m. uc_ok (write_reg E (x86_rcx (me_spec E)) 0 m))
      else if name = ''landing_h2g'' then Some (\<lambda>_ _ m. uc_ok m)
      else if name = ''landing_g2h'' then Some (\<lambda>_ _ m. uc_ok m)
      else if name = ''set_data_permissions'' then Some (\<lambda>_ _ m. uc_ok m)
      else None)"

definition interpret_macro ::
  "('e, 'c) model_env \<Rightarrow> Instruction \<Rightarrow> int \<Rightarrow> ('e, 'c) UnicornModel \<Rightarrow> ('e, 'c) uc_result" where
  "interpret_macro E macro pc m =
     rbind (get_id (me_program E) (current_actor (m_state m))) (\<lambda>actor_id.
     rbind (get_code_addr (me_layout E) CA_MAIN actor_id) (\<lambda>macro_start.
       case get_macro_args (macro_table (m_interpreter m)) actor_id (pc - macro_start) of
         None \<Rightarrow> ok (Some CRITICAL_ERROR, m)
       | Some (a1, a2, a3, a4) \<Rightarrow>
           rbind (py_nth (operands macro) 0) (\<lambda>name_op.
             case macro_callback E (tl (lower (op_value name_op))) of
               None \<Rightarrow> ok (Some CRITICAL_ERROR, m)
             | Some f \<Rightarrow> f a1 a2 m)))"

section \<open>Guests and user mode\<close>

definition vm_always_exit_instructions :: "string list" where
  "vm_always_exit_instructions =
     [''cpuid'', ''getsec'', ''xgetbv'', ''xsetbv'', ''xrstors'', ''xsaves'', ''invd'', ''invept'', ''invvpid'',
      ''vmptrld'', ''vmptrst'', ''vmclear'', ''vmxon'', ''vmxoff'', ''vmlaunch'', ''vmresume'', ''vmcall'',
      ''vmfunc'', ''hlt'', ''invlpg'', ''invpcid'', ''lgdt'', ''lidt'', ''lldt'', ''ltr'', ''sgdt'', ''sidt'', ''sldt'',
      ''str'', ''loadiwkey'', ''monitor'', ''mwait'', ''rdpmc'', ''rdrand'', ''rdseed'', ''rdtsc'', ''rdtscp'',
      ''rsm'', ''tpause'', ''umwait'', ''vmread'', ''vmwrite'', ''wbinvd'', ''wbnoinvd'', ''wrmsr'', ''fxsave'',
      ''fxsave64'', ''in'', ''ins'', ''insb'', ''insw'', ''insd'', ''out'', ''outs'', ''outsb'', ''outsw'', ''outsd'',
      ''pause'', ''rdmsr'', ''swapgs'']"

definition vm_always_exiting_registers :: "string list" where
  "vm_always_exiting_registers = [''cr0'', ''cr3'', ''cr8'', ''dr0'', ''dr1'', ''dr2'', ''dr3'', ''dr6'', ''dr7'']"

definition user_always_exit_instructions :: "string list" where
  "user_always_exit_instructions =
     [''cpuid'', ''rdmsr'', ''wrmsr'', ''rdtsc'', ''rdtscp'', ''clac'', ''stac'', ''clgi'', ''stgi'', ''clts'', ''htl'',
      ''invd'', ''invlpg'', ''invlpga'', ''invlpgb'', ''invpcid'', ''lgdt'', ''lldt'', ''lidt'', ''ltr'', ''sgdt'',
      ''sidt'', ''sldt'', ''str'', ''psmash'', ''pvalidate'', ''rmpadjust'', ''rmpquery'', ''rmpupdate'',
      ''skinit'', ''sysretq'', ''sysexitq'', ''tlbsync'', ''vmmcall'', ''vmload'', ''vmsave'', ''vmrun'',
      ''wbinvd'', ''wbnoinvd'', ''smsw'', ''lmsw'', ''rdfsbase'', ''rdgsbase'', ''wrfsbase'', ''wrgsbase'',
      ''swapgs'', ''vmclear'', ''vmlaunch'', ''vmptrld'', ''vmptrst'', ''vmread'', ''vmresume'', ''vmwrite'',
      ''vmxoff'', ''invvpid'', ''getsec'', ''loadiwkey'', ''pconfig'', ''encls'', ''enclv'', ''hlt'', ''xgetbv'',
      ''xsetbv'']"

definition user_always_exiting_registers :: "string list" where
  "user_always_exiting_registers =
     [''cr0'', ''cr2'', ''cr3'', ''cr8'', ''dr0'', ''dr1'', ''dr2'', ''dr3'', ''dr6'', ''dr7'']"

text \<open>\<^verbatim>\<open>name.split()[-1]\<close>: the last of the words separated by blanks; an empty name raises.\<close>

definition last_word :: "string \<Rightarrow> string res" where
  "last_word name =
     (let ws = filter (\<lambda>w. w \<noteq> []) (split_on is_space name)
      in if ws = [] then raise IndexError else ok (last ws))"

text \<open>Expose the registers of the address of a memory operand; a register constant is never zero.\<close>

definition expose_operand :: "('e, 'c) model_env \<Rightarrow> Operand \<Rightarrow> ('e, 'c) UnicornModel \<Rightarrow> ('e, 'c) UnicornModel" where
  "expose_operand E op m =
     foldl (\<lambda>m word.
       case map_of (reg_str_to_constant E) (lower word) of
         None \<Rightarrow> m
       | Some r \<Rightarrow> if r = 0 then m
           else tracer_mem_access E UC_MEM_WRITE (reg_read (me_uc E) (m_emulator m) r) 8 0 m)
       m (split_on (\<lambda>c. c = CHR ''+'') (op_value op))"

definition exit_interpret ::
  "('e, 'c) model_env \<Rightarrow> string list \<Rightarrow> string list \<Rightarrow> (InterpreterState \<Rightarrow> int set) \<Rightarrow>
   ((int set \<Rightarrow> int set) \<Rightarrow> InterpreterState \<Rightarrow> InterpreterState) \<Rightarrow> Instruction \<Rightarrow> int \<Rightarrow> ('e, 'c) UnicornModel \<Rightarrow>
   ('e, 'c) UnicornModel res" where
  "exit_interpret E exit_instructions exiting_registers cache upd_cache inst address m =
     (if address \<in> cache (m_interpreter m) then ok m
      else rbind (last_word (i_name inst)) (\<lambda>stripped_name.
        if stripped_name \<in> set exit_instructions
        then rbind (if has_mem_operand inst True
                    then rbind (get_mem_operands inst True False) (\<lambda>ops.
                           ok (foldl (\<lambda>m op. expose_operand E op m) m ops))
                    else ok m) (\<lambda>m1. ok (do_soft_fault E UC_ERR_INSN_INVALID m1))
        else if stripped_name = ''mov'' \<and> list_ex (\<lambda>op. op_value op \<in> set exiting_registers) (operands inst)
        then ok (do_soft_fault E UC_ERR_INSN_INVALID m)
        else ok (on_interpreter (upd_cache (insert address)) m)))"

definition vm_interpret :: "('e, 'c) model_env \<Rightarrow> Instruction \<Rightarrow> int \<Rightarrow> ('e, 'c) UnicornModel \<Rightarrow> ('e, 'c) UnicornModel res" where
  "vm_interpret E = exit_interpret E vm_always_exit_instructions vm_always_exiting_registers vm_safe_address_cache
     vm_safe_address_cache_update"

definition userspace_interpret :: "('e, 'c) model_env \<Rightarrow> Instruction \<Rightarrow> int \<Rightarrow> ('e, 'c) UnicornModel \<Rightarrow> ('e, 'c) UnicornModel res" where
  "userspace_interpret E = exit_interpret E user_always_exit_instructions user_always_exiting_registers
     user_safe_address_cache user_safe_address_cache_update"

section \<open>Page permissions\<close>

definition pte_bit :: "PTEDescriptor \<Rightarrow> string \<Rightarrow> nat \<Rightarrow> bool res" where
  "pte_bit desc name pte = rbind (dict_get desc name) (\<lambda>(off, _). ok (pte AND push_bit off 1 \<noteq> 0))"

text \<open>The checks return at the first failing bit; a bit that is never looked at cannot raise.\<close>

fun bits_as_required :: "PTEDescriptor \<Rightarrow> (string \<times> bool) list \<Rightarrow> nat \<Rightarrow> bool res" where
  "bits_as_required desc [] pte = ok True"
| "bits_as_required desc ((name, required) # rs) pte =
     rbind (pte_bit desc name pte) (\<lambda>b. if b \<noteq> required then ok False else bits_as_required desc rs pte)"

definition page_is_readable :: "('e, 'c) model_env \<Rightarrow> nat \<Rightarrow> bool res" where
  "page_is_readable E pte =
     (if me_is_x86 E
      then bits_as_required (me_pte_bits E) [(''present'', True), (''accessed'', True), (''reserved_bit'', False)] pte
      else bits_as_required (me_pte_bits E) [(''valid'', True)] pte)"

definition page_is_writable :: "('e, 'c) model_env \<Rightarrow> nat \<Rightarrow> bool res" where
  "page_is_writable E pte =
     (if me_is_x86 E then bits_as_required (me_pte_bits E) [(''writable'', True), (''dirty'', True)] pte
      else bits_as_required (me_pte_bits E) [(''non_writable'', False)] pte)"

definition page_is_user_accessible :: "('e, 'c) model_env \<Rightarrow> nat \<Rightarrow> bool res" where
  "page_is_user_accessible E pte =
     (if me_is_x86 E then bits_as_required (me_pte_bits E) [(''user'', True)] pte else ok True)"

definition extended_page_is_readable :: "('e, 'c) model_env \<Rightarrow> nat \<Rightarrow> bool res" where
  "extended_page_is_readable E epte =
     (if me_is_x86 E
      then bits_as_required (me_vm_pte_bits E) [(''present'', True), (''accessed'', True), (''reserved_bit'', False)] epte
      else ok True)"

definition extended_page_is_writable :: "('e, 'c) model_env \<Rightarrow> nat \<Rightarrow> bool res" where
  "extended_page_is_writable E epte =
     (if me_is_x86 E then bits_as_required (me_vm_pte_bits E) [(''writable'', True), (''dirty'', True)] epte else ok True)"

definition load_actor_permissions ::
  "('e, 'c) model_env \<Rightarrow> InterpreterState \<Rightarrow> Actor \<Rightarrow> InterpreterState res" where
  "load_actor_permissions E i a =
     rbind (get_id (me_program E) a) (\<lambda>aid.
     rbind (page_is_readable E (data_properties a)) (\<lambda>r.
     rbind (page_is_writable E (data_properties a)) (\<lambda>w.
     rbind (page_is_user_accessible E (data_properties a)) (\<lambda>u.
     rbind (if act_mode a = GUEST then extended_page_is_readable E (data_ept_properties a) else ok True) (\<lambda>er.
     rbind (if act_mode a = GUEST then extended_page_is_writable E (data_ept_properties a) else ok True) (\<lambda>ew.
       ok (i\<lparr>faulty_page_readable := dict_set (faulty_page_readable i) aid (r \<and> er),
           faulty_page_writable := dict_set (faulty_page_writable i) aid (w \<and> ew),
           faulty_page_user_accessible := dict_set (faulty_page_user_accessible i) aid u,
           main_page_user_accessible := dict_set (main_page_user_accessible i) aid (privilege_level a = USER)\<rparr>)))))))"

definition fault_load_test_case :: "('e, 'c) model_env \<Rightarrow> ('e, 'c) UnicornModel \<Rightarrow> ('e, 'c) UnicornModel res" where
  "fault_load_test_case E m =
     rbind (get_actors_sorted (me_program E)) (\<lambda>actors.
     rbind (rfold (load_actor_permissions E) ((m_interpreter m)\<lparr>faulty_page_readable := [], faulty_page_writable := [],
              faulty_page_user_accessible := [], main_page_user_accessible := []\<rparr>) actors) (\<lambda>i.
     rbind (rmapM (\<lambda>aid. rbind (dict_get (faulty_page_readable i) (int aid)) (\<lambda>r.
                         rbind (dict_get (faulty_page_writable i) (int aid)) (\<lambda>w. ok (int aid, r, w))))
              [0..<n_actors (me_program E)]) (\<lambda>perms.
       ok (m\<lparr>m_interpreter := i, m_state := (m_state m)\<lparr>page_permissions := perms\<rparr>\<rparr>))))"

definition fault_load_input :: "('e, 'c) model_env \<Rightarrow> ('e, 'c) UnicornModel \<Rightarrow> ('e, 'c) UnicornModel res" where
  "fault_load_input E m =
     rfold (\<lambda>m aid.
       rbind (dict_get (faulty_page_readable (m_interpreter m)) (int aid)) (\<lambda>r.
         if \<not> r then set_faulty_area_rw E (int aid) False False m
         else rbind (dict_get (faulty_page_writable (m_interpreter m)) (int aid)) (\<lambda>w.
                if \<not> w then set_faulty_area_rw E (int aid) True False m else ok m)))
       m [0..<n_actors (me_program E)]"

definition induce_user_faults :: "('e, 'c) model_env \<Rightarrow> int \<Rightarrow> ('e, 'c) UnicornModel \<Rightarrow> ('e, 'c) UnicornModel res" where
  "induce_user_faults E address m =
     (if \<not> is_data_addr (me_layout E) address then ok m
      else (let target_aid = data_addr_to_actor_id (me_layout E) address;
                pl = privilege_level (current_actor (m_state m))
            in rbind (get_data_addr (me_layout E) DA_FAULTY target_aid) (\<lambda>faulty_area_start.
               rbind (if address AND 0xFFFFFFFFFFFFF000 = faulty_area_start
                      then dict_get (faulty_page_user_accessible (m_interpreter m)) target_aid
                      else dict_get (main_page_user_accessible (m_interpreter m)) target_aid) (\<lambda>target_page_is_user.
                 if pl = USER \<and> \<not> target_page_is_user then ok (do_soft_fault E 13 m)
                 else if pl = KERNEL \<and> target_page_is_user then ok (do_soft_fault E 13 m)
                 else ok m))))"

definition emulate_crossing_fault ::
  "('e, 'c) model_env \<Rightarrow> access_type \<Rightarrow> int \<Rightarrow> nat \<Rightarrow> ('e, 'c) UnicornModel \<Rightarrow> ('e, 'c) UnicornModel res" where
  "emulate_crossing_fault E access address sz m =
     (if address mod 0x1000 + int sz < 0x1000 then ok m
      else (let access_end = address + int sz - 1;
                actor_id = data_addr_to_actor_id (me_layout E) address
            in if actor_id = -1 then ok m
               else rbind (get_data_addr (me_layout E) DA_FAULTY actor_id) (\<lambda>faulty_base.
                    rbind (data_area_size DA_FAULTY) (\<lambda>faulty_size.
                      if access_end < faulty_base \<or> access_end \<ge> faulty_base + faulty_size then ok m
                      else rbind (dict_get (faulty_page_readable (m_interpreter m)) actor_id) (\<lambda>r.
                           if \<not> r then ok (do_soft_fault E UC_ERR_READ_PROT m)
                           else if access = UC_MEM_WRITE
                           then rbind (dict_get (faulty_page_writable (m_interpreter m)) actor_id) (\<lambda>w.
                                  if \<not> w then ok (do_soft_fault E UC_ERR_WRITE_PROT m) else ok m)
                           else ok m)))))"

section \<open>The interface\<close>

definition interpreter_load_test_case :: "('e, 'c) model_env \<Rightarrow> ('e, 'c) UnicornModel \<Rightarrow> ('e, 'c) UnicornModel res" where
  "interpreter_load_test_case E m =
     rbind (macro_load_test_case E m) (\<lambda>m1.
     rbind (fault_load_test_case E m1) (\<lambda>m2.
       ok (if me_is_x86 E
           then on_interpreter (\<lambda>i. i\<lparr>vm_safe_address_cache := {}, user_safe_address_cache := {}\<rparr>) m2 else m2)))"

definition interpret_instruction :: "('e, 'c) model_env \<Rightarrow> int \<Rightarrow> ('e, 'c) UnicornModel \<Rightarrow> ('e, 'c) uc_result" where
  "interpret_instruction E address m =
     (case current_instruction (m_state m) of
        None \<Rightarrow> raise AssertionError
      | Some inst \<Rightarrow>
          uc_then (if i_name inst = ''macro'' then interpret_macro E inst address m else uc_ok m) (\<lambda>m1.
            if \<not> me_is_x86 E then uc_ok m1
            else if act_mode (current_actor (m_state m1)) = GUEST
            then rbind (vm_interpret E inst address m1) (\<lambda>m2. uc_ok m2)
            else if privilege_level (current_actor (m_state m1)) = USER
            then rbind (userspace_interpret E inst address m1) (\<lambda>m2. uc_ok m2)
            else uc_ok m1))"

definition interpret_mem_access ::
  "('e, 'c) model_env \<Rightarrow> access_type \<Rightarrow> int \<Rightarrow> nat \<Rightarrow> int \<Rightarrow> ('e, 'c) UnicornModel \<Rightarrow> ('e, 'c) UnicornModel res" where
  "interpret_mem_access E access address sz val m =
     (if me_is_x86 E then induce_user_faults E address m else emulate_crossing_fault E access address sz m)"

section \<open>The frame of the interpreter\<close>

lemma on_interpreter_frame [simp]: "model_frame m (on_interpreter f m)"
  by (simp add: model_frame_def on_interpreter_def)

lemma macro_measurement_frame [simp]: "model_frame m (macro_measurement b m)"
  by (simp add: macro_measurement_def model_frame_def)

lemma set_actor_registers_frame: "set_actor_registers E sp sid m = Inr m' \<Longrightarrow> model_frame m m'"
  by (auto simp: set_actor_registers_def rbind_eq_Inr_iff intro: model_frame_trans [OF write_reg_frame write_reg_frame])

lemma set_current_actor_frame: "set_current_actor sid m = Inr m' \<Longrightarrow> model_frame m m'"
  by (auto simp: set_current_actor_def rbind_eq_Inr_iff model_frame_def)

text \<open>Results of the interpreter that respect the frame.\<close>

definition uc_frame :: "('e, 'c) UnicornModel \<Rightarrow> ('e, 'c) uc_result \<Rightarrow> bool" where
  "uc_frame m r \<longleftrightarrow> (\<forall>err m'. r = Inr (err, m') \<longrightarrow> model_frame m m')"

lemma uc_frame_ok [simp]: "uc_frame m (Inr (err, m')) \<longleftrightarrow> model_frame m m'" "uc_frame m (Inl e)"
  by (auto simp: uc_frame_def)

lemma function_addr_frame: "(\<And>addr. uc_frame m (f addr)) \<Longrightarrow> uc_frame m (function_addr E sid fid m f)"
  by (auto simp: function_addr_def uc_frame_def rbind_eq_Inr_iff split: option.splits)

lemma macro_switch_frame: "uc_frame m (macro_switch E sid fid m)"
  unfolding macro_switch_def
  by (rule function_addr_frame)
    (auto simp: uc_frame_def rbind_eq_Inr_iff dest!: set_actor_registers_frame set_current_actor_frame
      intro: model_frame_trans [OF write_reg_frame] model_frame_trans)

lemma macro_set_target_frame: "uc_frame m (macro_set_target E key sid fid m)"
  unfolding macro_set_target_def by (rule function_addr_frame) simp

lemma macro_set_u2k_target_frame: "uc_frame m (macro_set_u2k_target E sid fid m)"
  unfolding macro_set_u2k_target_def by (auto intro: function_addr_frame)

lemma macro_switch_to_frame: "(\<And>m. model_frame m (f m)) \<Longrightarrow> uc_frame m (macro_switch_to E target sid f m)"
  by (auto simp: macro_switch_to_def uc_frame_def rbind_eq_Inr_iff dest!: set_actor_registers_frame set_current_actor_frame)
    (meson model_frame_trans write_reg_frame)

lemma macro_switch_target_frame: "(\<And>m. model_frame m (f m)) \<Longrightarrow> uc_frame m (macro_switch_target E key sid f m)"
  using macro_switch_to_frame [of f] by (auto simp: macro_switch_target_def uc_frame_def rbind_eq_Inr_iff)

lemma clobber_rax_frame: "model_frame m (clobber_rax E m)"
  by (simp add: clobber_rax_def)

lemma macro_callback_frame: "macro_callback E name = Some f \<Longrightarrow> uc_frame m (f a b m)"
  unfolding macro_callback_def
  by (auto split: if_splits intro: macro_switch_frame macro_set_target_frame macro_set_u2k_target_frame macro_switch_to_frame
      macro_switch_target_frame clobber_rax_frame model_frame_trans [OF write_reg_frame])

lemma interpret_macro_frame: "uc_frame m (interpret_macro E macro pc m)"
  using macro_callback_frame
  by (fastforce simp: interpret_macro_def uc_frame_def rbind_eq_Inr_iff split: option.splits prod.splits)

lemma expose_operand_frame: "model_frame m (expose_operand E op m)"
proof -
  have "model_frame m (foldl (\<lambda>m word. case map_of (reg_str_to_constant E) (lower word) of None \<Rightarrow> m
      | Some r \<Rightarrow> if r = 0 then m else tracer_mem_access E UC_MEM_WRITE (reg_read (me_uc E) (m_emulator m) r) 8 0 m) m ws)" for ws
  proof (induction ws arbitrary: m)
    case (Cons w ws)
    show ?case by (auto split: option.splits intro: Cons.IH model_frame_trans [OF tracer_mem_access_frame Cons.IH])
  qed simp
  then show ?thesis by (simp add: expose_operand_def)
qed

lemma expose_operands_frame: "model_frame m (foldl (\<lambda>m op. expose_operand E op m) m ops)"
  by (induction ops arbitrary: m) (auto intro: model_frame_trans expose_operand_frame)

lemma exit_interpret_frame: "exit_interpret E xs rs cache upd inst address m = Inr m' \<Longrightarrow> model_frame m m'"
  using expose_operands_frame
  by (fastforce simp: exit_interpret_def rbind_eq_Inr_iff split: if_splits intro: model_frame_trans [OF _ do_soft_fault_frame])

lemma interpret_instruction_frame: "uc_frame m (interpret_instruction E address m)"
proof (cases "current_instruction (m_state m)")
  case (Some inst)
  let ?r = "if i_name inst = ''macro'' then interpret_macro E inst address m else uc_ok m"
  have "uc_frame m ?r" using interpret_macro_frame by auto
  then show ?thesis
    unfolding interpret_instruction_def Some uc_frame_def
    by (auto simp: uc_then_def vm_interpret_def userspace_interpret_def rbind_eq_Inr_iff split: option.splits if_splits
        dest!: exit_interpret_frame intro: model_frame_trans)
qed (simp add: interpret_instruction_def)

lemma interpret_mem_access_frame: "interpret_mem_access E access address sz val m = Inr m' \<Longrightarrow> model_frame m m'"
  by (auto simp: interpret_mem_access_def induce_user_faults_def emulate_crossing_fault_def Let_def rbind_eq_Inr_iff
      split: if_splits)

lemma fault_load_input_frame: "fault_load_input E m = Inr m' \<Longrightarrow> model_frame m m'"
  unfolding fault_load_input_def
  by (rule rfold_invariant [where P = "model_frame m"])
    (auto simp: rbind_eq_Inr_iff split: if_splits dest!: set_faulty_area_rw_frame intro: model_frame_trans)

end
