(* ===== verification/ModelInput.thy ===== *)
theory ModelInput
  imports Interpreter
begin

unbundle bit_operations_syntax

text \<open>
  Model of the two \<^verbatim>\<open>_load_input\<close> methods of \<^verbatim>\<open>rvzr/model_unicorn/model.py\<close>: the sandbox memory and the
  registers of the emulator are set from an input. The x86 version patches the flags inside the input
  object, which the caller and the tracer share; the ARM64 version works on a copy. The theorem says
  that the emulator's sandbox holds the image of the input that the executor receives.
\<close>

section \<open>Memory\<close>

definition x86_patch_flags :: "u64 \<Rightarrow> u64" where
  "x86_patch_flags flags = (flags AND 2263) OR 2"

definition arm64_patch_flags :: "u64 \<Rightarrow> u64" where
  "arm64_patch_flags flags = push_bit 28 flags mod word_of_nat (2 ^ 64 - 1)"

definition pad_values :: "DataArea \<Rightarrow> byte list res" where
  "pad_values area = rbind (data_area_size area) (\<lambda>n. ok (replicate (nat n) 0))"

definition write_area ::
  "('e, 'c) model_env \<Rightarrow> nat \<Rightarrow> ('e, 'c) UnicornModel \<Rightarrow> DataArea \<times> byte list \<Rightarrow> ('e, 'c) UnicornModel res" where
  "write_area E actor_id m ad =
     rbind (get_data_addr (me_layout E) (fst ad) (int actor_id)) (\<lambda>address.
       ok (on_emulator (mem_write (me_uc E) address (snd ad)) m))"

text \<open>One actor: the fragment with its flags patched, and the memory.\<close>

definition patch_gpr :: "(u64 \<Rightarrow> u64) \<Rightarrow> ActorInput \<Rightarrow> ActorInput res" where
  "patch_gpr patch_flags a =
     rbind (py_nth (ai_gpr a) 6) (\<lambda>v. rbind (py_set (ai_gpr a) 6 (patch_flags v)) (\<lambda>g. ok (a\<lparr>ai_gpr := g\<rparr>)))"

definition load_actor ::
  "('e, 'c) model_env \<Rightarrow> (u64 \<Rightarrow> u64) \<Rightarrow> nat \<Rightarrow> ActorInput \<Rightarrow> ('e, 'c) UnicornModel \<Rightarrow> (ActorInput \<times> ('e, 'c) UnicornModel) res" where
  "load_actor E patch_flags actor_id a m =
     rbind (pad_values DA_OVERFLOW_PAD) (\<lambda>overflow_pad_values.
     rbind (pad_values DA_UNDERFLOW_PAD) (\<lambda>underflow_pad_values.
     rbind (patch_gpr patch_flags a) (\<lambda>a'.
     rbind (rfold (write_area E actor_id) m
              [(DA_OVERFLOW_PAD, overflow_pad_values), (DA_UNDERFLOW_PAD, underflow_pad_values),
               (DA_MAIN, words_bytes (ai_main a')), (DA_FAULTY, words_bytes (ai_faulty a')),
               (DA_GPR, words_bytes (ai_gpr a')), (DA_SIMD, words_bytes (ai_simd a'))]) (\<lambda>m'.
       ok (a', m')))))"

definition load_next_actor ::
  "('e, 'c) model_env \<Rightarrow> (u64 \<Rightarrow> u64) \<Rightarrow> InputData \<times> ('e, 'c) UnicornModel \<Rightarrow> nat \<Rightarrow> (InputData \<times> ('e, 'c) UnicornModel) res" where
  "load_next_actor E patch_flags im actor_id =
     rbind (py_nth (actors (fst im)) (int actor_id)) (\<lambda>a.
     rbind (load_actor E patch_flags actor_id a (snd im)) (\<lambda>(a', m').
     rbind (py_set (actors (fst im)) (int actor_id) a') (\<lambda>as. ok ((fst im)\<lparr>actors := as\<rparr>, m'))))"

definition load_memory ::
  "('e, 'c) model_env \<Rightarrow> (u64 \<Rightarrow> u64) \<Rightarrow> InputData \<Rightarrow> ('e, 'c) UnicornModel \<Rightarrow> (InputData \<times> ('e, 'c) UnicornModel) res" where
  "load_memory E patch_flags inp m =
     rfold (load_next_actor E patch_flags) (inp, m) [0..<n_actors (me_program E)]"

section \<open>Registers\<close>

definition load_registers :: "('e, 'c) model_env \<Rightarrow> nat list \<Rightarrow> int list \<Rightarrow> ('e, 'c) UnicornModel \<Rightarrow> ('e, 'c) UnicornModel res" where
  "load_registers E regs vals m =
     rfold (\<lambda>m (i, v). rbind (py_nth regs (int i)) (\<lambda>r. ok (write_reg E r v m))) m (enumerate 0 vals)"

text \<open>The low halves of the 256-bit values.\<close>

definition simd128_values :: "u64 list \<Rightarrow> int list" where
  "simd128_values simd =
     foldl (\<lambda>vals (i, v).
       if i mod 4 = 0 then vals @ [uint v]
       else if i mod 4 = 1 then butlast vals @ [last vals OR push_bit 64 (uint v)]
       else vals) [] (enumerate 0 simd)"

section \<open>Loading\<close>

definition x86_load_input ::
  "('e, 'c) model_env \<Rightarrow> InputData \<Rightarrow> ('e, 'c) UnicornModel \<Rightarrow> (InputData \<times> ('e, 'c) UnicornModel) res" where
  "x86_load_input E inp m =
     rbind (load_memory E x86_patch_flags inp m) (\<lambda>(inp', m1).
     rbind (py_nth (actors inp') 0) (\<lambda>a.
     rbind (load_registers E (usable_registers E) (map uint (ai_gpr a)) m1) (\<lambda>m2.
     rbind (py_nth (ai_gpr a) 6) (\<lambda>flags.
     rbind (get_data_addr (me_layout E) DA_RSP_INIT 0) (\<lambda>rsp.
     rbind (get_data_addr (me_layout E) DA_MAIN 0) (\<lambda>base.
     rbind (load_registers E (usable_simd128_registers E) (simd128_values (ai_simd a))
              (write_reg E (x86_r14 E) base (write_reg E (x86_rbp E) rsp (write_reg E (x86_rsp E) rsp
                (write_reg E (x86_eflags E) (uint (x86_patch_flags flags)) m2))))) (\<lambda>m3.
       ok (inp', m3\<lparr>m_tracer := (m_tracer m3)\<lparr>tr_input := Some inp'\<rparr>\<rparr>))))))))"

definition arm64_load_input ::
  "('e, 'c) model_env \<Rightarrow> InputData \<Rightarrow> ('e, 'c) UnicornModel \<Rightarrow> (InputData \<times> ('e, 'c) UnicornModel) res" where
  "arm64_load_input E inp m =
     rbind (load_memory E arm64_patch_flags inp m) (\<lambda>(copy, m1).
     if n_actors (me_program E) = 0 then raise NameError
     else rbind (py_nth (actors copy) 0) (\<lambda>a.
     rbind (load_registers E (usable_registers E) (map uint (ai_gpr a)) m1) (\<lambda>m2.
     rbind (py_nth (ai_gpr a) 6) (\<lambda>flags.
     rbind (get_data_addr (me_layout E) DA_RSP_INIT 0) (\<lambda>sp.
     rbind (get_data_addr (me_layout E) DA_MAIN 0) (\<lambda>base.
       ok (inp, write_reg E (actor_base_register E) base (write_reg E (sp_register E) sp
         (write_reg E (flags_register (me_spec E)) (uint flags) m2)))))))))"

definition load_input ::
  "('e, 'c) model_env \<Rightarrow> InputData \<Rightarrow> ('e, 'c) UnicornModel \<Rightarrow> (InputData \<times> ('e, 'c) UnicornModel) res" where
  "load_input E = (if me_is_x86 E then x86_load_input E else arm64_load_input E)"

section \<open>The memory image\<close>

lemma write_mem_append:
  "write_mem (a + int (length bs)) cs (write_mem a bs m) = write_mem a (bs @ cs) m"
  "write_mem a bs (write_mem (a + int (length bs)) cs m) = write_mem a (bs @ cs) m"
  by (auto simp: write_mem_def fun_eq_iff nth_append nat_less_iff nat_diff_distrib' intro!: arg_cong [of _ _ "(!) cs"])

lemma write_mem_append_at:
  "b = a + int (length bs) \<Longrightarrow> write_mem b cs (write_mem a bs m) = write_mem a (bs @ cs) m"
  "b = a + int (length bs) \<Longrightarrow> write_mem a bs (write_mem b cs m) = write_mem a (bs @ cs) m"
  by (simp_all add: write_mem_append)

lemma mem_read_written:
  assumes "unicorn_laws U" and "mem_byte U e = write_mem a bs f" and "a + int k + int n \<le> a + int (length bs)"
  shows "mem_read U e (a + int k) n = take n (drop k bs)"
proof (rule nth_equalityI)
  show "length (mem_read U e (a + int k) n) = length (take n (drop k bs))"
    using assms(3) by (simp add: mem_read_length [OF assms(1)])
  fix i assume "i < length (mem_read U e (a + int k) n)"
  then have i: "i < n" by (simp add: mem_read_length [OF assms(1)])
  have "nat (int k + int i) = k + i" by simp
  with i assms(3) show "mem_read U e (a + int k) n ! i = take n (drop k bs) ! i"
    by (simp add: mem_read_nth [OF assms(1)] assms(2) write_mem_def)
qed

lemma mem_read_not_written:
  assumes "unicorn_laws U" and "mem_byte U e' = write_mem b bs (mem_byte U e)"
    and "a + int n \<le> b \<or> b + int (length bs) \<le> a"
  shows "mem_read U e' a n = mem_read U e a n"
  by (rule nth_equalityI)
    (use assms(3) in \<open>auto simp: mem_read_length [OF assms(1)] mem_read_nth [OF assms(1)] assms(2) write_mem_def\<close>)

lemma mem_read_cong:
  assumes "unicorn_laws U" and "mem_byte U e' = mem_byte U e"
  shows "mem_read U e' a n = mem_read U e a n"
  by (rule nth_equalityI) (simp_all add: mem_read_length [OF assms(1)] mem_read_nth [OF assms(1)] assms(2))

text \<open>What an actor's sandbox holds from its underflow pad on.\<close>

definition actor_image :: "ActorInput \<Rightarrow> byte list" where
  "actor_image a = replicate 4032 0 @ words_bytes (actor_linear (a\<lparr>ai_padding := replicate 472 0\<rparr>))"

definition patched :: "(u64 \<Rightarrow> u64) \<Rightarrow> ActorInput \<Rightarrow> ActorInput" where
  "patched f a = a\<lparr>ai_gpr := (ai_gpr a)[6 := f (ai_gpr a ! 6)]\<rparr>"

lemma wf_patched [simp]: "wf_actor (patched f a) = wf_actor a"
  by (simp add: wf_actor_def patched_def)

lemma length_actor_image: "wf_actor a \<Longrightarrow> length (actor_image a) = 16320"
  by (simp add: actor_image_def actor_linear_def wf_actor_def layout_simps)

lemma patch_gpr_eq: "wf_actor a \<Longrightarrow> patch_gpr f a = Inr (patched f a)"
  using py_nth_nat [of 6 "ai_gpr a"] py_set_nat [of 6 "ai_gpr a"]
  by (simp add: patch_gpr_def patched_def wf_actor_def layout_simps)

lemma le_bytes_zero: "le_bytes k 0 = replicate k 0"
  by (induction k) simp_all

lemma words_bytes_zeros: "words_bytes (replicate n 0) = replicate (8 * n) 0"
proof (induction n)
  case (Suc n)
  have "words_bytes (replicate (Suc n) 0) = replicate 8 0 @ words_bytes (replicate n 0)"
    by (simp add: words_bytes_def u64_bytes_def le_bytes_zero)
  also have "\<dots> = replicate (8 + 8 * n) 0" by (simp only: Suc.IH replicate_add)
  finally show ?case by simp
qed (simp add: words_bytes_def)

lemma load_actor_memory:
  assumes "unicorn_laws (me_uc E)" and "wf_actor a" and "load_actor E f i a m = Inr (a', m')"
  shows "a' = patched f a \<and> mem_byte (me_uc E) (m_emulator m') =
     write_mem (SandboxLayout.data_start (me_layout E) + int i * 16384 + 64) (actor_image (patched f a))
       (mem_byte (me_uc E) (m_emulator m))"
proof -
  let ?p = "patched f a" and ?d = "SandboxLayout.data_start (me_layout E) + int i * 16384"
  have wf: "wf_actor ?p" using assms(2) by simp
  have mb: "mem_byte (me_uc E) (mem_write (me_uc E) x bs e) = write_mem x bs (mem_byte (me_uc E) e)" for x bs e
    by (rule mem_byte_mem_write [OF assms(1)])
  have "a' = ?p" and mem: "mem_byte (me_uc E) (m_emulator m') =
     write_mem (?d + 12352) (words_bytes (ai_simd ?p)) (write_mem (?d + 12288) (words_bytes (ai_gpr ?p))
     (write_mem (?d + 8192) (words_bytes (ai_faulty ?p)) (write_mem (?d + 4096) (words_bytes (ai_main ?p))
     (write_mem (?d + 64) (replicate 4032 0) (write_mem (?d + 12608) (replicate 3776 0)
       (mem_byte (me_uc E) (m_emulator m)))))))"
    using assms(3) by (auto simp: load_actor_def patch_gpr_eq [OF assms(2)] pad_values_def layout_simps write_area_def
        get_data_addr_eq on_emulator_def mb)
  moreover have "write_mem (?d + 12352) (words_bytes (ai_simd ?p)) (write_mem (?d + 12288) (words_bytes (ai_gpr ?p))
     (write_mem (?d + 8192) (words_bytes (ai_faulty ?p)) (write_mem (?d + 4096) (words_bytes (ai_main ?p))
     (write_mem (?d + 64) (replicate 4032 0) g)))) =
     write_mem (?d + 64) (replicate 4032 0 @ words_bytes (ai_main ?p) @ words_bytes (ai_faulty ?p) @ words_bytes (ai_gpr ?p)
       @ words_bytes (ai_simd ?p)) g" for g
    using wf by (simp add: write_mem_append_at wf_actor_def layout_simps)
  moreover have "actor_image ?p = (replicate 4032 0 @ words_bytes (ai_main ?p) @ words_bytes (ai_faulty ?p)
       @ words_bytes (ai_gpr ?p) @ words_bytes (ai_simd ?p)) @ replicate 3776 0"
    by (simp add: actor_image_def actor_linear_def words_bytes_zeros)
  ultimately show ?thesis
    using wf by (simp add: write_mem_append_at(2) wf_actor_def layout_simps)
qed

text \<open>Memory after a number of actors was loaded.\<close>

definition images_loaded :: "('e, 'c) model_env \<Rightarrow> 'e \<Rightarrow> ActorInput list \<Rightarrow> nat \<Rightarrow> bool" where
  "images_loaded E e as n \<longleftrightarrow>
     (\<forall>i < n. mem_read (me_uc E) e (SandboxLayout.data_start (me_layout E) + int i * 16384 + 64) 16320 = actor_image (as ! i))"

lemma load_actors_memory:
  assumes U: "unicorn_laws (me_uc E)" and wf: "wf_input n inp" and "k \<le> n"
    and "rfold (load_next_actor E f) (inp, m) [0..<k] = Inr (inp', m')"
  shows "actors inp' = map (patched f) (take k (actors inp)) @ drop k (actors inp) \<and>
     images_loaded E (m_emulator m') (actors inp') k"
  using assms(3,4)
proof (induction k arbitrary: inp' m')
  case 0
  then show ?case by (simp add: images_loaded_def)
next
  case (Suc k)
  let ?U = "me_uc E" and ?d = "SandboxLayout.data_start (me_layout E)"
  have n: "length (actors inp) = n" "k < n" using wf Suc.prems(1) by (simp_all add: wf_input_def)
  from Suc.prems(2) obtain inp1 m1 where r: "rfold (load_next_actor E f) (inp, m) [0..<k] = Inr (inp1, m1)"
    and step: "load_next_actor E f (inp1, m1) k = Inr (inp', m')"
    by (auto simp: rfold_append rbind_eq_Inr_iff)
  have IH: "actors inp1 = map (patched f) (take k (actors inp)) @ drop k (actors inp)"
      "images_loaded E (m_emulator m1) (actors inp1) k"
    using Suc.IH [OF Suc_leD [OF Suc.prems(1)] r] by blast+
  have k: "k < length (actors inp1)" "actors inp1 ! k = actors inp ! k" using IH(1) n by (simp_all add: nth_append)
  have wfk: "wf_actor (actors inp ! k)" using wf n by (simp add: wf_input_def)
  from step obtain a' where a': "load_actor E f k (actors inp ! k) m1 = Inr (a', m')" "actors inp' = (actors inp1)[k := a']"
    using k by (auto simp: load_next_actor_def rbind_eq_Inr_iff)
  note la = load_actor_memory [OF U wfk a'(1)]
  have as: "actors inp' = map (patched f) (take (Suc k) (actors inp)) @ drop (Suc k) (actors inp)"
    using la IH(1) n a'(2)
    by (simp add: list_update_append take_Suc_conv_app_nth Cons_nth_drop_Suc [symmetric] del: Cons_nth_drop_Suc)
  have len: "length (actor_image (patched f (actors inp ! k))) = 16320" using wfk by (simp add: length_actor_image)
  have "mem_read ?U (m_emulator m') (?d + int i * 16384 + 64) 16320 = actor_image (actors inp' ! i)" if i: "i < Suc k" for i
  proof (cases "i = k")
    case True
    with mem_read_written [OF U la [THEN conjunct2], of 0 16320] len show ?thesis
      using la k(1) by (simp add: a'(2))
  next
    case False
    with i have "i < k" by simp
    then have "?d + int i * 16384 + 64 + int 16320 \<le> ?d + int k * 16384 + 64" by simp
    with mem_read_not_written [OF U la [THEN conjunct2]] IH(2) \<open>i < k\<close> show ?thesis
      by (simp add: images_loaded_def a'(2))
  qed
  then show ?case by (simp add: as images_loaded_def)
qed

lemma load_registers_memory:
  assumes "unicorn_laws (me_uc E)" and "load_registers E regs vals m = Inr m'"
  shows "mem_byte (me_uc E) (m_emulator m') = mem_byte (me_uc E) (m_emulator m)"
  using assms(2) unfolding load_registers_def
  by (rule rfold_invariant [where P = "\<lambda>m'. mem_byte (me_uc E) (m_emulator m') = mem_byte (me_uc E) (m_emulator m)"])
    (auto simp: rbind_eq_Inr_iff write_reg_def on_emulator_def mem_byte_reg_write [OF assms(1)])

lemma write_reg_memory:
  "unicorn_laws (me_uc E) \<Longrightarrow> mem_byte (me_uc E) (m_emulator (write_reg E r v m)) = mem_byte (me_uc E) (m_emulator m)"
  by (simp add: write_reg_def on_emulator_def mem_byte_reg_write)

lemma images_loaded_cong:
  assumes "unicorn_laws (me_uc E)" and "mem_byte (me_uc E) e' = mem_byte (me_uc E) e"
  shows "images_loaded E e' as n = images_loaded E e as n"
  by (simp add: images_loaded_def mem_read_cong [OF assms])

lemma load_memory_images:
  assumes "unicorn_laws (me_uc E)" and "wf_input (n_actors (me_program E)) inp" and "load_memory E f inp m = Inr (inp', m')"
  shows "actors inp' = map (patched f) (actors inp) \<and> images_loaded E (m_emulator m') (actors inp') (n_actors (me_program E))"
  using load_actors_memory [OF assms(1,2) order_refl assms(3) [unfolded load_memory_def]] assms(2) by (auto simp: wf_input_def)

section \<open>Loading succeeds\<close>

lemma load_actor_succeeds: "wf_actor a \<Longrightarrow> \<exists>m'. load_actor E f i a m = Inr (patched f a, m')"
  by (simp add: load_actor_def patch_gpr_eq pad_values_def layout_simps write_area_def get_data_addr_eq)

lemma load_memory_succeeds:
  assumes "wf_input n inp" and "k \<le> n"
  shows "\<exists>inp' m'. rfold (load_next_actor E f) (inp, m) [0..<k] = Inr (inp', m') \<and> wf_input n inp' \<and> seed inp' = seed inp"
  using assms(2)
proof (induction k)
  case 0
  then show ?case using assms(1) by simp
next
  case (Suc k)
  then obtain inp1 m1 where r: "rfold (load_next_actor E f) (inp, m) [0..<k] = Inr (inp1, m1)" "wf_input n inp1"
    "seed inp1 = seed inp" by auto
  then have k: "k < length (actors inp1)" "wf_actor (actors inp1 ! k)" using Suc.prems by (simp_all add: wf_input_def)
  from load_actor_succeeds [OF k(2)] obtain m2 where "load_actor E f k (actors inp1 ! k) m1 = Inr (patched f (actors inp1 ! k), m2)"
    by blast
  with k have "load_next_actor E f (inp1, m1) k = Inr (inp1\<lparr>actors := (actors inp1)[k := patched f (actors inp1 ! k)]\<rparr>, m2)"
    by (simp add: load_next_actor_def)
  moreover have "wf_input n (inp1\<lparr>actors := (actors inp1)[k := patched f (actors inp1 ! k)]\<rparr>)"
    using r(2) k by (auto simp: wf_input_def dest!: set_update_subset_insert [THEN subsetD])
  ultimately show ?case using r by (simp add: rfold_append)
qed

lemma load_registers_succeeds:
  assumes "length vals \<le> length regs"
  shows "\<exists>m'. load_registers E regs vals m = Inr m'"
  using assms unfolding load_registers_def
proof (induction vals rule: rev_induct)
  case (snoc v vals)
  then show ?case by (auto simp: rfold_append enumerate_append_eq)
qed simp

lemma length_simd128_values: "length (simd128_values xs) = (length xs + 3) div 4"
  unfolding simd128_values_def
proof (induction xs rule: rev_induct)
  case (snoc x xs)
  have "xs \<noteq> [] \<Longrightarrow> 0 < (length xs + 3) div 4" by (cases xs) simp_all
  with snoc show ?case
    by (cases "xs = []") (auto simp: enumerate_append_eq div_add1_eq [of "length xs"] mod_Suc)
qed simp

lemma load_memory_ok:
  assumes "unicorn_laws (me_uc E)" and "wf_input (n_actors (me_program E)) inp"
  shows "\<exists>m'. load_memory E f inp m = Inr (inp\<lparr>actors := map (patched f) (actors inp)\<rparr>, m') \<and>
     images_loaded E (m_emulator m') (map (patched f) (actors inp)) (n_actors (me_program E))"
proof -
  obtain inp' m' where r: "load_memory E f inp m = Inr (inp', m')" "seed inp' = seed inp"
    using load_memory_succeeds [OF assms(2) order_refl, of E f m] by (auto simp: load_memory_def)
  then have "inp' = inp\<lparr>actors := map (patched f) (actors inp)\<rparr>"
    using load_memory_images [OF assms r(1)] by simp
  then show ?thesis using r(1) load_memory_images [OF assms r(1)] by auto
qed

lemma actor_images_split:
  assumes "unicorn_laws (me_uc E)" and "images_loaded E e as n" and "i < n"
  shows "mem_read (me_uc E) e (SandboxLayout.data_start (me_layout E) + int i * 16384 + 4096) 12288 = drop 4032 (actor_image (as ! i))"
    and "mem_read (me_uc E) e (SandboxLayout.data_start (me_layout E) + int i * 16384 + 64) 4032 = replicate 4032 0"
proof -
  let ?a = "SandboxLayout.data_start (me_layout E) + int i * 16384 + 64" and ?U = "me_uc E"
  have img: "mem_read ?U e ?a 16320 = actor_image (as ! i)" using assms(2,3) by (simp add: images_loaded_def)
  have len: "length (actor_image (as ! i)) = 16320" using img mem_read_length [OF assms(1), of e ?a 16320] by simp
  have nth: "mem_byte ?U e (?a + int j) = actor_image (as ! i) ! j" if "j < 16320" for j
    using mem_read_nth [OF assms(1) that, of e ?a] img by simp
  show "mem_read ?U e (SandboxLayout.data_start (me_layout E) + int i * 16384 + 4096) 12288 = drop 4032 (actor_image (as ! i))"
  proof (rule nth_equalityI)
    fix j assume "j < length (mem_read ?U e (SandboxLayout.data_start (me_layout E) + int i * 16384 + 4096) 12288)"
    then have "j < 12288" by (simp add: mem_read_length [OF assms(1)])
    then show "mem_read ?U e (SandboxLayout.data_start (me_layout E) + int i * 16384 + 4096) 12288 ! j = drop 4032 (actor_image (as ! i)) ! j"
      using nth [of "4032 + j"] len by (simp add: mem_read_nth [OF assms(1)] algebra_simps)
  qed (simp add: mem_read_length [OF assms(1)] len)
  show "mem_read ?U e ?a 4032 = replicate 4032 0"
    by (rule nth_equalityI)
      (simp_all add: mem_read_length [OF assms(1)] mem_read_nth [OF assms(1)] nth actor_image_def nth_append)
qed

text \<open>The registers the architecture needs.\<close>

definition registers_listed :: "('e, 'c) model_env \<Rightarrow> bool" where
  "registers_listed E \<longleftrightarrow> length (usable_registers E) \<ge> 8 \<and> (me_is_x86 E \<longrightarrow> length (usable_simd128_registers E) \<ge> 8)"

definition arch_patch_flags :: "('e, 'c) model_env \<Rightarrow> u64 \<Rightarrow> u64" where
  "arch_patch_flags E = (if me_is_x86 E then x86_patch_flags else arm64_patch_flags)"

lemma load_input_memory:
  assumes U: "unicorn_laws (me_uc E)" and wf: "wf_input (n_actors (me_program E)) inp"
    and n: "0 < n_actors (me_program E)" and regs: "registers_listed E"
  shows "\<exists>m'. load_input E inp m =
       Inr (if me_is_x86 E then inp\<lparr>actors := map (patched x86_patch_flags) (actors inp)\<rparr> else inp, m') \<and>
     images_loaded E (m_emulator m') (map (patched (arch_patch_flags E)) (actors inp)) (n_actors (me_program E))"
proof -
  let ?f = "arch_patch_flags E"
  let ?as = "map (patched ?f) (actors inp)"
  obtain m1 where m1: "load_memory E ?f inp m = Inr (inp\<lparr>actors := ?as\<rparr>, m1)"
    "images_loaded E (m_emulator m1) ?as (n_actors (me_program E))"
    using load_memory_ok [OF U wf, of ?f m] by blast
  have as: "?as \<noteq> []" "length ?as = n_actors (me_program E)" using wf n by (auto simp: wf_input_def)
  then have "wf_actor (hd ?as)" using wf by (cases "actors inp") (auto simp: wf_input_def)
  then have len: "length (ai_gpr (hd ?as)) = 8" "length (ai_simd (hd ?as)) = 32" by (simp_all add: wf_actor_def layout_simps)
  have hd: "py_nth ?as 0 = Inr (hd ?as)" using as(1) py_nth_nat [of 0 ?as] by (simp add: hd_conv_nth)
  obtain m2 where m2: "load_registers E (usable_registers E) (map uint (ai_gpr (hd ?as))) m1 = Inr m2"
    using load_registers_succeeds [of "map uint (ai_gpr (hd ?as))" "usable_registers E"] regs len
    by (auto simp: registers_listed_def)
  have flags: "py_nth (ai_gpr (hd ?as)) 6 = Inr (ai_gpr (hd ?as) ! 6)" using len(1) py_nth_nat [of 6 "ai_gpr (hd ?as)"] by simp
  have mem2: "images_loaded E (m_emulator m2) ?as (n_actors (me_program E))"
    using m1(2) images_loaded_cong [OF U load_registers_memory [OF U m2]] by simp
  have wr: "images_loaded E (m_emulator (write_reg E r v m0)) xs k = images_loaded E (m_emulator m0) xs k" for r v m0 xs k
    by (rule images_loaded_cong [OF U write_reg_memory [OF U]])
  show ?thesis
  proof (cases "me_is_x86 E")
    case True
    have simd: "\<exists>m3. load_registers E (usable_simd128_registers E) (simd128_values (ai_simd (hd ?as))) m0 = Inr m3" for m0
      using regs True len(2) by (intro load_registers_succeeds) (simp add: registers_listed_def length_simd128_values)
    have mem3: "images_loaded E (m_emulator m3) xs k = images_loaded E (m_emulator m0) xs k"
      if "load_registers E rs vs m0 = Inr m3" for rs vs m0 m3 xs k
      by (rule images_loaded_cong [OF U load_registers_memory [OF U that]])
    from simd [of "write_reg E (x86_r14 E) (SandboxLayout.data_start (me_layout E) + 4096) (write_reg E (x86_rbp E)
        (SandboxLayout.data_start (me_layout E) + 8184) (write_reg E (x86_rsp E) (SandboxLayout.data_start (me_layout E) + 8184)
        (write_reg E (x86_eflags E) (uint (x86_patch_flags (ai_gpr (hd ?as) ! 6))) m2)))"]
    obtain m3 where "load_registers E (usable_simd128_registers E) (simd128_values (ai_simd (hd ?as)))
        (write_reg E (x86_r14 E) (SandboxLayout.data_start (me_layout E) + 4096) (write_reg E (x86_rbp E)
        (SandboxLayout.data_start (me_layout E) + 8184) (write_reg E (x86_rsp E) (SandboxLayout.data_start (me_layout E) + 8184)
        (write_reg E (x86_eflags E) (uint (x86_patch_flags (ai_gpr (hd ?as) ! 6))) m2)))) = Inr m3" by blast
    moreover from mem3 [OF this] have "images_loaded E (m_emulator m3) ?as (n_actors (me_program E))"
      by (simp add: wr mem2)
    ultimately show ?thesis
      using True m1(1) m2 hd flags
      by (simp add: load_input_def x86_load_input_def arch_patch_flags_def get_data_addr_eq del: list.map_sel)
  next
    case False
    then show ?thesis
      using m1(1) m2 hd flags n mem2
      by (simp add: load_input_def arm64_load_input_def arch_patch_flags_def get_data_addr_eq wr del: list.map_sel)
  qed
qed

text \<open>
  C11: Loading an input into the emulator never raises and leaves, for every actor, the memory from its
  main area to the end of its sandbox equal to the linear view of its part of the input with the flags
  patched for the architecture and a zero padding, and zeros in its underflow pad. On x86 the flags of the
  caller's input object are patched too; on ARM64 the object is left as it was.
\<close>
theorem load_input_image:
  assumes "unicorn_laws (me_uc E)" and "wf_input (n_actors (me_program E)) inp"
    and "0 < n_actors (me_program E)" and "registers_listed E"
  shows "\<exists>inp' m'. load_input E inp m = Inr (inp', m') \<and>
     inp' = (if me_is_x86 E then inp\<lparr>actors := map (patched x86_patch_flags) (actors inp)\<rparr> else inp) \<and>
     (\<forall>i < n_actors (me_program E). \<exists>main_addr pad_addr.
        get_data_addr (me_layout E) DA_MAIN (int i) = Inr main_addr \<and>
        get_data_addr (me_layout E) DA_UNDERFLOW_PAD (int i) = Inr pad_addr \<and>
        mem_read (me_uc E) (m_emulator m') main_addr 12288 =
          words_bytes (actor_linear ((patched (arch_patch_flags E) (actors inp ! i))\<lparr>ai_padding := replicate 472 0\<rparr>)) \<and>
        mem_read (me_uc E) (m_emulator m') pad_addr 4032 = replicate 4032 0)"
proof -
  obtain m' where l: "load_input E inp m =
      Inr (if me_is_x86 E then inp\<lparr>actors := map (patched x86_patch_flags) (actors inp)\<rparr> else inp, m')"
    and im: "images_loaded E (m_emulator m') (map (patched (arch_patch_flags E)) (actors inp)) (n_actors (me_program E))"
    using load_input_memory [OF assms, of m] by blast
  have nth: "i < n_actors (me_program E) \<Longrightarrow>
      map (patched (arch_patch_flags E)) (actors inp) ! i = patched (arch_patch_flags E) (actors inp ! i)" for i
    using assms(2) by (simp add: wf_input_def)
  show ?thesis
    using l actor_images_split [OF assms(1) im] nth by (auto simp: get_data_addr_eq actor_image_def)
qed

definition flat_input :: InputData where
  "flat_input = \<lparr>actors = [actor_view (replicate 1536 0xFFF)], seed = 3\<rparr>"

lemma flat_input_wf: "wf_input (n_actors (me_program (flat_model_env K))) flat_input"
  by (simp add: flat_model_env_def n_actors_def flat_program_def TestCaseProgram_init_def wf_input_def flat_input_def layout_simps)

theorem load_input_image_witness:
  "\<forall>m. \<exists>inp' m'. load_input (flat_model_env SeqSpeculator) flat_input m = Inr (inp', m') \<and>
     ai_gpr (actors inp' ! 0) ! 6 = 2263 \<and> mem_read flat_uc (m_emulator m') 65600 4032 = replicate 4032 0"
proof
  fix m
  have "unicorn_laws (me_uc (flat_model_env SeqSpeculator))" using flat_env_laws by (simp add: flat_model_env_def)
  moreover have "0 < n_actors (me_program (flat_model_env SeqSpeculator))"
    by (simp add: flat_model_env_def n_actors_def flat_program_def TestCaseProgram_init_def)
  moreover have "registers_listed (flat_model_env SeqSpeculator)"
    by (simp add: flat_model_env_def registers_listed_def)
  ultimately obtain inp' m' where r: "load_input (flat_model_env SeqSpeculator) flat_input m = Inr (inp', m')"
    and inp': "inp' = flat_input\<lparr>actors := map (patched x86_patch_flags) (actors flat_input)\<rparr>"
    and im: "\<forall>i < n_actors (me_program (flat_model_env SeqSpeculator)). \<exists>main_addr pad_addr.
        get_data_addr (me_layout (flat_model_env SeqSpeculator)) DA_MAIN (int i) = Inr main_addr \<and>
        get_data_addr (me_layout (flat_model_env SeqSpeculator)) DA_UNDERFLOW_PAD (int i) = Inr pad_addr \<and>
        mem_read (me_uc (flat_model_env SeqSpeculator)) (m_emulator m') main_addr 12288 =
          words_bytes (actor_linear ((patched (arch_patch_flags (flat_model_env SeqSpeculator)) (actors flat_input ! i))
            \<lparr>ai_padding := replicate 472 0\<rparr>)) \<and>
        mem_read (me_uc (flat_model_env SeqSpeculator)) (m_emulator m') pad_addr 4032 = replicate 4032 0"
    using load_input_image [OF _ flat_input_wf, of SeqSpeculator m] by (auto simp: flat_model_env_def)
  have "ai_gpr (actors inp' ! 0) ! 6 = 2263"
    by (simp add: inp' flat_input_def patched_def actor_view_def layout_simps Let_def x86_patch_flags_def)
  moreover have "mem_read flat_uc (m_emulator m') 65600 4032 = replicate 4032 0"
    using im [rule_format, of 0] \<open>0 < n_actors (me_program (flat_model_env SeqSpeculator))\<close>
    by (auto simp: get_data_addr_eq flat_model_env_def flat_layout_def flat_env_def)
  ultimately show "\<exists>inp' m'. load_input (flat_model_env SeqSpeculator) flat_input m = Inr (inp', m') \<and>
     ai_gpr (actors inp' ! 0) ! 6 = 2263 \<and> mem_read flat_uc (m_emulator m') 65600 4032 = replicate 4032 0"
    using r by blast
qed

end
