(* ===== verification/Model.thy ===== *)
theory Model
  imports ModelInput
begin

unbundle bit_operations_syntax

text \<open>
  Model of \<^verbatim>\<open>rvzr/model_unicorn/model.py\<close>: dispatching of the emulator's callbacks, the state machine that
  executes a test case with rollbacks and fault handlers, and the tracing of a sequence of inputs.
  \<^verbatim>\<open>emu_start\<close> has a timeout of ten seconds: it returns after the number of callbacks given by \<open>budget\<close>
  at the latest. The loop of the state machine has fuel; \<open>None\<close> says that it has run out. Instruction
  coverage and logging are not modelled.
\<close>

section \<open>Construction and loading\<close>

definition UC_FAULT_MAPPING :: "(string, nat list) dict" where
  "UC_FAULT_MAPPING = [(''DE'', [21]), (''DB'', [10]), (''BP'', [21]), (''BR'', [13]), (''UD'', [10]), (''PF'', [12, 13]),
     (''GP'', [6, 7]), (''assist'', [12, 13])]"

definition handled_faults_init :: "string list \<Rightarrow> nat set res" where
  "handled_faults_init conf_handled_faults =
     rfold (\<lambda>faults fault. case map_of UC_FAULT_MAPPING fault of
         None \<Rightarrow> raise NotImplementedError
       | Some ids \<Rightarrow> ok (faults \<union> set ids)) {} conf_handled_faults"

text \<open>\<^verbatim>\<open>except UcError\<close> with a call of \<^verbatim>\<open>error\<close>, which exits.\<close>

definition uc_or_exit :: "'a option \<Rightarrow> 'a res" where
  "uc_or_exit r = (case r of None \<Rightarrow> raise SystemExit | Some x \<Rightarrow> ok x)"

text \<open>\<open>obj\<close> is the contents of the object file. The program and its layout become part of the environment.\<close>

definition model_load_test_case ::
  "('e, 'c) model_env \<Rightarrow> int \<times> int \<Rightarrow> Instruction TestCaseProgram \<Rightarrow> byte list \<Rightarrow> ('e, 'c) UnicornModel \<Rightarrow>
   (('e, 'c) model_env \<times> ('e, 'c) UnicornModel) res" where
  "model_load_test_case E bases p obj m =
     rbind (get_obj p) (\<lambda>b.
     rbind (SandboxLayout_init bases (n_actors p)) (\<lambda>layout.
       let E' = E\<lparr>me_program := p, me_layout := layout\<rparr>
       in rbind (ModelExecutionState_init E') (\<lambda>st.
          rbind (interpreter_load_test_case E' (m\<lparr>m_state := st\<rparr>)) (\<lambda>m1.
          rbind (binary_to_bytes p b obj (nat code_size_per_actor) [0x90]) (\<lambda>code.
          rbind (uc_or_exit (mem_map (me_engine E) (code_start layout) (code_size layout) (em_new (me_engine E)))) (\<lambda>e1.
          rbind (uc_or_exit (mem_map (me_engine E) (SandboxLayout.data_start layout) (data_size layout) e1)) (\<lambda>e2.
            ok (E', on_emulator (\<lambda>_. mem_write (me_uc E) (code_start layout) code e2) m1))))))))"

section \<open>Callbacks\<close>

definition instruction_dispatch ::
  "('e, 'c) model_env \<Rightarrow> int \<Rightarrow> nat \<Rightarrow> ('e, 'c) UnicornModel \<Rightarrow> ('e, 'c) uc_result" where
  "instruction_dispatch E address sz m =
     (case current_instruction (m_state m) of
        None \<Rightarrow> raise AssertionError
      | Some inst \<Rightarrow>
          if is_macro_placeholder inst then uc_ok m
          else rbind (on_taint_tracker (track_instruction (tt_target (me_spec E)) inst) m) (\<lambda>m1.
               let m2 = on_tracer (observe_instruction (me_tracer E) (me_uc E) (m_emulator m1) (usable_registers E) address sz) m1
               in rbind (handle_instruction (me_class E) (me_spec E) (i_name inst) address sz (m_speculator m2)) (\<lambda>s.
                    interpret_instruction E address (m2\<lparr>m_speculator := s\<rparr>))))"

definition mem_access_dispatch ::
  "('e, 'c) model_env \<Rightarrow> access_type \<Rightarrow> int \<Rightarrow> nat \<Rightarrow> int \<Rightarrow> ('e, 'c) UnicornModel \<Rightarrow> ('e, 'c) uc_result" where
  "mem_access_dispatch E access address sz val m =
     (case current_instruction (m_state m) of
        None \<Rightarrow> raise AssertionError
      | Some inst \<Rightarrow>
          if is_macro_placeholder inst then uc_ok m
          else rbind (on_taint_tracker (track_memory_access address sz (access = UC_MEM_WRITE)) m) (\<lambda>m1.
               rbind (handle_mem_access (me_class E) (me_spec E) access address sz val (m_speculator m1)) (\<lambda>s.
               rbind (interpret_mem_access E access address sz val
                        (tracer_mem_access E access address sz val (m1\<lparr>m_speculator := s\<rparr>))) (\<lambda>m2. uc_ok m2))))"

definition instruction_callback ::
  "('e, 'c) model_env \<Rightarrow> int \<Rightarrow> nat \<Rightarrow> ('e, 'c) UnicornModel \<Rightarrow> ('e, 'c) uc_result" where
  "instruction_callback E address sz m =
     (if is_exit_addr (m_state m) address then uc_ok (on_emulator (emu_stop (me_uc E)) m)
      else rbind (update_context E address m) (instruction_dispatch E address sz))"

definition mem_access_callback ::
  "('e, 'c) model_env \<Rightarrow> access_type \<Rightarrow> int \<Rightarrow> nat \<Rightarrow> int \<Rightarrow> ('e, 'c) UnicornModel \<Rightarrow> ('e, 'c) uc_result" where
  "mem_access_callback E access address sz val m = mem_access_dispatch E access address sz val m"

definition callback :: "('e, 'c) model_env \<Rightarrow> emu_event \<Rightarrow> ('e, 'c) UnicornModel \<Rightarrow> ('e, 'c) uc_result" where
  "callback E ev m =
     (case ev of
        Ev_code address sz \<Rightarrow> instruction_callback E address sz m
      | Ev_mem access address sz val \<Rightarrow> mem_access_callback E access address sz val m
      | Ev_unmapped access address sz val \<Rightarrow> mem_access_callback E access address sz val m
      | Ev_error errno \<Rightarrow> ok (Some errno, m))"

section \<open>Running the emulator\<close>

text \<open>One call of \<^verbatim>\<open>emu_start\<close>: the error it raises, if any, and the state it leaves.\<close>

fun emu_run :: "('e, 'c) model_env \<Rightarrow> nat \<Rightarrow> ('e, 'c) UnicornModel \<Rightarrow> ('e, 'c) uc_result" where
  "emu_run E 0 m = uc_ok m"
| "emu_run E (Suc n) m =
     (case em_next (me_engine E) (m_emulator m) of
        (None, e) \<Rightarrow> uc_ok (on_emulator (\<lambda>_. e) m)
      | (Some ev, e) \<Rightarrow> uc_then (callback E ev (on_emulator (\<lambda>_. e) m)) (emu_run E n))"

definition emu_start :: "('e, 'c) model_env \<Rightarrow> nat \<Rightarrow> int \<Rightarrow> ('e, 'c) UnicornModel \<Rightarrow> ('e, 'c) uc_result" where
  "emu_start E budget pc m = emu_run E budget (on_emulator (em_begin (me_engine E) pc (code_end (me_layout E))) m)"

definition patch_context_after_fault ::
  "('e, 'c) model_env \<Rightarrow> ('e, 'c) UnicornModel \<Rightarrow> ('e, 'c) UnicornModel res" where
  "patch_context_after_fault E m =
     (case previous_context (m_state m) of
        None \<Rightarrow> raise SystemExit
      | Some c \<Rightarrow>
          (let f = flags_register (me_spec E); m1 = on_emulator (context_restore (me_uc E) c) m
           in ok (write_reg E f (reg_read (me_uc E) (m_emulator m1) f) m1)))"

text \<open>The next address and the new state; zero asks for a rollback.\<close>

definition model_handle_fault ::
  "('e, 'c) model_env \<Rightarrow> ('e, 'c) UnicornModel \<Rightarrow> (int \<times> ('e, 'c) UnicornModel) res" where
  "model_handle_fault E m =
     (let errno = pending_fault (m_state m); m0 = m\<lparr>m_state := (m_state m)\<lparr>pending_fault := 0\<rparr>\<rparr>
      in rbind (get_data_addr (me_layout E) DA_RSP_INIT 0) (\<lambda>rsp.
         let m1 = tracer_mem_access E UC_MEM_WRITE rsp 8 (int errno) m0; next_addr = handle_fault (me_class E) errno
         in if next_addr \<noteq> 0 then ok (next_addr, m1)
            else if in_speculation (m_speculator m1) then ok (0, m1)
            else if had_arch_fault (m_state m1) then raise SystemExit
            else (let m2 = m1\<lparr>m_state := (m_state m1)\<lparr>had_arch_fault := True\<rparr>\<rparr>
                  in if errno \<in> me_handled_faults E then ok (fault_handler_addr (m_state m2), m2) else raise SystemExit)))"

definition model_rollback :: "('e, 'c) model_env \<Rightarrow> ('e, 'c) UnicornModel \<Rightarrow> (int \<times> ('e, 'c) UnicornModel) res" where
  "model_rollback E m =
     rbind (sp_rollback (me_class E) (me_spec E) (m_speculator m)) (\<lambda>(pc, s). ok (pc, m\<lparr>m_speculator := s\<rparr>))"

text \<open>One iteration of the loop: the program counter of the next one, or \<open>None\<close> when the loop returns.\<close>

definition state_machine_iteration ::
  "('e, 'c) model_env \<Rightarrow> nat \<Rightarrow> int \<Rightarrow> ('e, 'c) UnicornModel \<Rightarrow> (int option \<times> ('e, 'c) UnicornModel) res" where
  "state_machine_iteration E budget pc m =
     rbind (reset_after_em_stop E pc (m_state m)) (\<lambda>st.
       let m0 = m\<lparr>m_state := st\<rparr>; re_entry = (pc \<noteq> code_start (me_layout E)); spec = in_speculation (m_speculator m0)
       in if re_entry \<and> is_exit_addr st pc \<and> \<not> spec then ok (None, m0)
          else if re_entry \<and> spec \<and> (is_exit_addr st pc \<or> pc = fault_handler_addr st)
          then rbind (model_rollback E m0) (\<lambda>(pc', m'). ok (Some pc', m'))
          else rbind (emu_start E budget pc m0) (\<lambda>(err, m1).
               let m2 = (case err of None \<Rightarrow> m1 | Some e \<Rightarrow> m1\<lparr>m_state := (m_state m1)\<lparr>pending_fault := e\<rparr>\<rparr>)
               in rbind (if pending_fault (m_state m2) \<noteq> 0
                         then rbind (patch_context_after_fault E m2) (model_handle_fault E)
                         else ok (0, m2)) (\<lambda>(pc', m3).
                    if pc' \<noteq> 0 \<and> pc' \<noteq> exit_addr (m_state m3) then ok (Some pc', m3)
                    else if \<not> in_speculation (m_speculator m3) then ok (None, m3)
                    else rbind (model_rollback E m3) (\<lambda>(pc'', m'). ok (Some pc'', m')))))"

fun run_state_machine ::
  "('e, 'c) model_env \<Rightarrow> nat \<Rightarrow> nat \<Rightarrow> int \<Rightarrow> ('e, 'c) UnicornModel \<Rightarrow> ('e, 'c) UnicornModel res option" where
  "run_state_machine E budget 0 pc m = None"
| "run_state_machine E budget (Suc fuel) pc m =
     (case state_machine_iteration E budget pc m of
        Inl e \<Rightarrow> Some (Inl e)
      | Inr (None, m') \<Rightarrow> Some (Inr m')
      | Inr (Some pc', m') \<Rightarrow> run_state_machine E budget fuel pc' m')"

section \<open>Tracing a sequence of inputs\<close>

definition execution_start_dispatch ::
  "('e, 'c) model_env \<Rightarrow> InputData \<Rightarrow> ('e, 'c) UnicornModel \<Rightarrow> ('e, 'c) UnicornModel res" where
  "execution_start_dispatch E inp m =
     rbind (rmapM (\<lambda>a. rbind (get_id (me_program E) a) (\<lambda>i. ok (nat i, observer a))) (get_actors (me_program E))) (\<lambda>observers.
     rbind (tracer_reset (me_tracer E) (Some observers) inp (m_tracer m)) (\<lambda>t.
       let s = sp_reset (me_class E) (me_spec E) (m_emulator m) (m_speculator m)
       in fault_load_input E (m\<lparr>m_tracer := t, m_speculator := s\<lparr>taint_tracker := reset (taint_tracker s)\<rparr>\<rparr>)))"

definition record_trace ::
  "('e, 'c) model_env \<Rightarrow> ('e, 'c) UnicornModel \<Rightarrow> (CTrace \<times> ('e, 'c) UnicornModel) res" where
  "record_trace E m =
     (let m1 = (if \<not> me_enable_mismatch_check_mode E then m
                else m\<lparr>m_tracer := (m_tracer m)\<lparr>trace := map (\<lambda>r. mk_entry CT_reg (reg_read (me_uc E) (m_emulator m) r))
                       (butlast (butlast (usable_registers E)))\<rparr>\<rparr>)
      in rbind (get_trace (me_tracer E) (me_hashing E) (me_data_hash E) (me_layout E)
                  ((m_tracer m1)\<lparr>tr_taint_tracker := taint_tracker (m_speculator m1)\<rparr>)) (\<lambda>(ct, t).
           ok (ct, m1\<lparr>m_tracer := t, m_speculator := (m_speculator m1)\<lparr>taint_tracker := tr_taint_tracker t\<rparr>\<rparr>)))"

text \<open>The results carry the input objects as well, which loading may have patched.\<close>

definition execute_input ::
  "('e, 'c) model_env \<Rightarrow> nat \<Rightarrow> nat \<Rightarrow> InputData \<Rightarrow> ('e, 'c) UnicornModel \<Rightarrow>
   (CTrace \<times> InputTaint \<times> InputData \<times> ('e, 'c) UnicornModel) res option" where
  "execute_input E budget fuel inp m =
     (case rbind (full_reset (me_program E) (m_state m)) (\<lambda>st.
           rbind (execution_start_dispatch E inp (m\<lparr>m_state := st\<rparr>)) (load_input E inp)) of
        Inl e \<Rightarrow> Some (raise e)
      | Inr (inp', m1) \<Rightarrow>
          map_option (\<lambda>r.
            rbind r (\<lambda>m2.
            rbind (record_trace E m2) (\<lambda>(ct, m3).
            rbind (get_taint (tt_target (me_spec E)) (taint_tracker (m_speculator m3)) (n_actors (me_program E))) (\<lambda>(tnt, t).
              ok (ct, tnt, inp', m3\<lparr>m_speculator := (m_speculator m3)\<lparr>taint_tracker := t\<rparr>\<rparr>)))))
            (run_state_machine E budget fuel (code_start (me_layout E)) m1))"

fun execute_test_case_with_inputs ::
  "('e, 'c) model_env \<Rightarrow> nat \<Rightarrow> nat \<Rightarrow> InputData list \<Rightarrow> ('e, 'c) UnicornModel \<Rightarrow>
   (CTrace list \<times> InputTaint list \<times> InputData list \<times> ('e, 'c) UnicornModel) res option" where
  "execute_test_case_with_inputs E budget fuel [] m = Some (ok ([], [], [], m))"
| "execute_test_case_with_inputs E budget fuel (inp # inps) m =
     (case execute_input E budget fuel inp m of
        None \<Rightarrow> None
      | Some (Inl e) \<Rightarrow> Some (raise e)
      | Some (Inr (ct, tnt, inp', m')) \<Rightarrow>
          map_option (\<lambda>r. rbind r (\<lambda>(cts, tnts, inps', m''). ok (ct # cts, tnt # tnts, inp' # inps', m'')))
            (execute_test_case_with_inputs E budget fuel inps m'))"

definition trace_inputs ::
  "bool \<Rightarrow> ('e, 'c) model_env \<Rightarrow> nat \<Rightarrow> nat \<Rightarrow> InputData list \<Rightarrow> int \<Rightarrow> ('e, 'c) UnicornModel \<Rightarrow>
   (CTrace list \<times> InputTaint list \<times> InputData list \<times> ('e, 'c) UnicornModel) res option" where
  "trace_inputs with_taints E budget fuel inputs nesting_limit m =
     (case on_taint_tracker (\<lambda>t. set_enable_tracking t with_taints) m of
        Inl e \<Rightarrow> Some (raise e)
      | Inr m1 \<Rightarrow>
          execute_test_case_with_inputs E budget fuel inputs
            (m1\<lparr>m_speculator := set_max_nesting nesting_limit (m_speculator m1)\<rparr>))"

definition model_trace_test_case ::
  "('e, 'c) model_env \<Rightarrow> nat \<Rightarrow> nat \<Rightarrow> InputData list \<Rightarrow> int \<Rightarrow> ('e, 'c) UnicornModel \<Rightarrow>
   (CTrace list \<times> InputData list \<times> ('e, 'c) UnicornModel) res option" where
  "model_trace_test_case E budget fuel inputs nesting_limit m =
     map_option (\<lambda>r. rbind r (\<lambda>(cts, _, inps, m'). ok (cts, inps, m')))
       (trace_inputs False E budget fuel inputs nesting_limit m)"

definition model_trace_test_case_with_taints ::
  "('e, 'c) model_env \<Rightarrow> nat \<Rightarrow> nat \<Rightarrow> InputData list \<Rightarrow> int \<Rightarrow> ('e, 'c) UnicornModel \<Rightarrow>
   (CTrace list \<times> InputTaint list \<times> InputData list \<times> ('e, 'c) UnicornModel) res option" where
  "model_trace_test_case_with_taints = trace_inputs True"

section \<open>The loaded code\<close>

lemma load_test_case_image:
  assumes "model_load_test_case E bases p obj m = Inr (E', m')"
  shows "\<exists>b image e. get_obj p = Inr b \<and> SandboxLayout_init bases (n_actors p) = Inr (me_layout E') \<and> me_program E' = p \<and>
     me_spec E' = me_spec E \<and> binary_to_bytes p b obj 12288 [0x90] = Inr image \<and>
     m_emulator m' = mem_write (me_uc E) (code_start (me_layout E')) image e"
  using assms by (auto simp: model_load_test_case_def Let_def rbind_eq_Inr_iff layout_simps on_emulator_def)

text \<open>
  After a test case was loaded, the code area of the actor at position \<open>k\<close> in the order of the
  identifiers starts with the machine code of its section, at the address the layout gives to the main
  code area of actor \<open>k\<close>, and the rest of the area is filled with the one-byte instruction 0x90.
\<close>
theorem loaded_code:
  assumes "model_load_test_case E bases p obj m = Inr (E', m')" and "unicorn_laws (me_uc E)"
    and "get_obj p = Inr b" and "bin_is_assembled b" and "get_actors_sorted p = Inr as"
    and "rmapM (actor_section p) as = Inr ds"
    and "\<forall>d \<in> set ds. elf_offset d + elf_size d \<le> length obj \<and> elf_size d \<le> 12288"
  shows "\<forall>k < length as. \<exists>a. get_code_addr (me_layout E') CA_MAIN (int k) = Inr a \<and>
     mem_read (me_uc E') (m_emulator m') a 12288 =
       section_bytes obj (ds ! k) @ replicate (12288 - elf_size (ds ! k)) 0x90"
proof (intro allI impI)
  fix k assume k: "k < length as"
  from load_test_case_image [OF assms(1)] assms(3) obtain image e where
    im: "binary_to_bytes p b obj 12288 [0x90] = Inr image" and env: "me_spec E' = me_spec E"
    and e: "m_emulator m' = mem_write (me_uc E) (code_start (me_layout E')) image e" by auto
  from padded_image [OF assms(4-7), of "0x90"] im have len: "length image = length as * 12288"
    and nth: "\<forall>k < length as. \<forall>i < 12288. image ! (k * 12288 + i) =
        (if i < elf_size (ds ! k) then obj ! (elf_offset (ds ! k) + i) else 0x90)" by auto
  have ds: "elf_offset (ds ! k) + elf_size (ds ! k) \<le> length obj \<and> elf_size (ds ! k) \<le> 12288"
    using assms(7) k rmapM_length [OF assms(6)] by simp
  have bytes: "mem_byte (me_uc E) (m_emulator m') = write_mem (code_start (me_layout E')) image (mem_byte (me_uc E) e)"
    unfolding e by (rule mem_byte_mem_write [OF assms(2)])
  have fits: "Suc k * 12288 \<le> length image" unfolding len using k by (intro mult_le_mono1) simp
  have "mem_read (me_uc E) (m_emulator m') (code_start (me_layout E') + int (k * 12288)) 12288 = take 12288 (drop (k * 12288) image)"
    by (rule mem_read_written [OF assms(2) bytes]) (use of_nat_mono [where 'a = int, OF fits] in simp)
  also have "\<dots> = section_bytes obj (ds ! k) @ replicate (12288 - elf_size (ds ! k)) 0x90"
  proof (rule nth_equalityI)
    show len': "length (take 12288 (drop (k * 12288) image)) =
        length (section_bytes obj (ds ! k) @ replicate (12288 - elf_size (ds ! k)) (0x90 :: byte))"
      using fits ds by (auto simp: section_bytes_def min_def)
    fix i assume "i < length (take 12288 (drop (k * 12288) image))"
    then have i: "i < 12288" by simp
    then show "take 12288 (drop (k * 12288) image) ! i =
        (section_bytes obj (ds ! k) @ replicate (12288 - elf_size (ds ! k)) 0x90) ! i"
      using nth k fits ds by (auto simp: section_bytes_def nth_append)
  qed
  finally show "\<exists>a. get_code_addr (me_layout E') CA_MAIN (int k) = Inr a \<and>
     mem_read (me_uc E') (m_emulator m') a 12288 = section_bytes obj (ds ! k) @ replicate (12288 - elf_size (ds ! k)) 0x90"
    by (simp add: get_code_addr_eq env)
qed

section \<open>Invariants of the hooks\<close>

lemma finish_stack: "finish T t = Inr t' \<Longrightarrow> tt_checkpoints t' = tt_checkpoints t \<and> enable_tracking t' = enable_tracking t"
  by (auto simp: finish_def finalize_instruction_def Let_def rbind_eq_Inr_iff split: if_splits option.splits)

lemma track_instruction_stack:
  "track_instruction T i t = Inr t' \<Longrightarrow> tt_checkpoints t' = tt_checkpoints t \<and> enable_tracking t' = enable_tracking t"
  by (auto simp: track_instruction_def rbind_eq_Inr_iff split: if_splits dest!: finish_stack)

lemma track_memory_access_stack:
  "track_memory_access a sz w t = Inr t' \<Longrightarrow> tt_checkpoints t' = tt_checkpoints t \<and> enable_tracking t' = enable_tracking t"
  by (auto simp: track_memory_access_def Let_def split: if_splits option.splits)

lemma on_taint_tracker_frame:
  assumes "\<And>t t'. f t = Inr t' \<Longrightarrow> tt_checkpoints t' = tt_checkpoints t \<and> enable_tracking t' = enable_tracking t"
    and "on_taint_tracker f m = Inr m'"
  shows "model_frame m m'"
  using assms by (auto simp: on_taint_tracker_def rbind_eq_Inr_iff model_frame_def)

lemma sp_checkpoint_counts:
  assumes "sp_checkpoint E pc incl s = Inr s'" and "\<not> max_nesting_reached s" and "counts_ok s"
  shows "counts_ok s'"
proof -
  from assms(1) obtain t where t: "checkpoint (tt_target E) incl (taint_tracker s) = Inr t"
    and s': "s' = s\<lparr>sp_checkpoints := (context_save (uc E) (emulator s), pc, reg_read (uc E) (emulator s) (flags_register E),
        speculation_window s) # sp_checkpoints s, store_logs := [] # store_logs s, in_speculation := True, taint_tracker := t\<rparr>"
    by (auto simp: sp_checkpoint_def Let_def rbind_eq_Inr_iff)
  have "enable_tracking t = enable_tracking (taint_tracker s)"
    "enable_tracking t \<Longrightarrow> length (tt_checkpoints t) = Suc (length (tt_checkpoints (taint_tracker s)))"
    using checkpoint_effect [OF t] by simp_all
  then show ?thesis
    using assms(2,3) by (auto simp: s' counts_ok_def nesting_def max_nesting_reached_def)
qed

lemma counts_ok_cong:
  "sp_checkpoints s' = sp_checkpoints s \<Longrightarrow> length (store_logs s') = length (store_logs s) \<Longrightarrow> in_speculation s' = in_speculation s \<Longrightarrow>
   max_nesting s' = max_nesting s \<Longrightarrow> tt_checkpoints (taint_tracker s') = tt_checkpoints (taint_tracker s) \<Longrightarrow>
   enable_tracking (taint_tracker s') = enable_tracking (taint_tracker s) \<Longrightarrow> counts_ok s' = counts_ok s"
  by (simp add: counts_ok_def nesting_def)

lemma count_instruction_counts [simp]: "counts_ok (count_instruction E name s) = counts_ok s"
  by (rule counts_ok_cong) (simp_all add: count_instruction_def Let_def)

lemma counts_ok_updates:
  "counts_ok (s\<lparr>emulator := e\<rparr>) = counts_ok s" "counts_ok (s\<lparr>previous_store := p\<rparr>) = counts_ok s"
  "max_nesting_reached (s\<lparr>emulator := e\<rparr>) = max_nesting_reached s"
  by (simp_all add: counts_ok_def nesting_def max_nesting_reached_def)

lemma x86_cond_instruction_counts:
  assumes "x86_cond_instruction E a sz s = Inr s'" and "counts_ok s"
  shows "counts_ok s'"
proof (cases "s' = s")
  case False
  with assms(1) obtain s1 pc r e' where r: "sp_checkpoint E pc True s1 = Inr r" "s' = r\<lparr>emulator := e'\<rparr>"
    and s1: "s1 = s \<or> (\<exists>e. s1 = s\<lparr>emulator := e\<rparr>)" "\<not> max_nesting_reached s"
    by (fastforce simp: x86_cond_instruction_def Let_def rbind_eq_Inr_iff split: if_splits prod.splits)
  then show ?thesis
    using sp_checkpoint_counts [OF r(1)] assms(2) by (auto simp: counts_ok_updates)
qed (simp add: assms(2))

lemma arm64_cond_instruction_counts:
  assumes "arm64_cond_instruction E a sz s = Inr s'" and "counts_ok s"
  shows "counts_ok s'"
proof (cases "s' = s")
  case False
  with assms(1) obtain pc r e' where "sp_checkpoint E pc True s = Inr r" "s' = r\<lparr>emulator := e'\<rparr>" "\<not> max_nesting_reached s"
    by (auto simp: arm64_cond_instruction_def Let_def rbind_eq_Inr_iff split: if_splits prod.splits)
  then show ?thesis using sp_checkpoint_counts [of E pc True s r] assms(2) by (simp add: counts_ok_updates)
qed (simp add: assms(2))

lemma handle_instruction_counts:
  assumes "handle_instruction K E name a sz s = Inr s'" and "counts_ok s"
  shows "counts_ok s'"
proof -
  let ?s = "count_instruction E name s"
  have c: "counts_ok ?s" using assms(2) by simp
  have em: "counts_ok (r\<lparr>emulator := e\<rparr>) = counts_ok r" "counts_ok (r\<lparr>previous_store := None\<rparr>) = counts_ok r"
    "counts_ok (r\<lparr>emulator := e, store_logs := (x # hd (store_logs r)) # tl (store_logs r), previous_store := None\<rparr>) = counts_ok r"
      if "store_logs r \<noteq> []" for r :: "('a, 'b) Speculator" and e x
    using that by (simp_all add: counts_ok_def nesting_def neq_Nil_conv)
  have x86: "counts_ok s'" if "x86_cond_instruction E a sz ?s = Inr s'"
    using x86_cond_instruction_counts [OF that c] .
  have arm: "counts_ok s'" if "arm64_cond_instruction E a sz ?s = Inr s'"
    using arm64_cond_instruction_counts [OF that c] .
  have bpas: "counts_ok s'" if b: "store_bpas_instruction E a ?s = Inr s'"
  proof (cases "s' = ?s\<lparr>previous_store := None\<rparr>")
    case False
    with b obtain r st v old bs where r: "sp_checkpoint E a False ?s = Inr r" "\<not> max_nesting_reached ?s"
      "s' = r\<lparr>emulator := mem_write (uc E) st old (emulator r), store_logs := ((st, bs) # hd (store_logs r)) # tl (store_logs r),
          previous_store := None\<rparr>"
      by (auto simp: store_bpas_instruction_def rbind_eq_Inr_iff split: if_splits option.splits)
    moreover from r(1) have "store_logs r \<noteq> []" by (auto simp: sp_checkpoint_def Let_def rbind_eq_Inr_iff)
    ultimately show ?thesis using sp_checkpoint_counts [OF r(1,2) c] em(3) by blast
  qed (simp add: counts_ok_updates assms(2))
  show ?thesis
    using assms(1) x86 arm bpas c by (cases K) (auto simp: handle_instruction_def speculate_instruction_def)
qed

lemma log_store_counts: "counts_ok (log_store E access a s) = counts_ok s"
  by (rule counts_ok_cong) (auto simp: log_store_def split: list.splits)

lemma store_bpas_mem_access_result:
  assumes "store_bpas_mem_access E access a sz v s = Inr s'"
  shows "s' = s \<or> (\<exists>x. s' = s\<lparr>previous_store := x\<rparr>)"
proof (cases "previous_store s")
  case (Some x)
  obtain pa ps pb pv where "x = (pa, ps, pb, pv)" by (cases x)
  then show ?thesis
    using assms Some
    by (cases "to_bytes_auto ps pv") (auto simp: store_bpas_mem_access_def Let_def split: if_splits list.splits)
qed (use assms in \<open>auto simp: store_bpas_mem_access_def split: if_splits\<close>)

lemma handle_mem_access_counts:
  assumes "handle_mem_access K E access a sz v s = Inr s'" and "counts_ok s"
  shows "counts_ok s'"
proof -
  let ?s = "log_store E access a s"
  have "s' = ?s \<or> (\<exists>x. s' = ?s\<lparr>previous_store := x\<rparr>)"
    using assms(1) store_bpas_mem_access_result [of E access a sz v ?s s']
    by (cases K) (auto simp: handle_mem_access_def speculate_mem_access_def)
  moreover have "counts_ok (r\<lparr>previous_store := x\<rparr>) = counts_ok r" for r :: "('a, 'b) Speculator" and x
    by (simp add: counts_ok_def nesting_def)
  ultimately show ?thesis using assms(2) log_store_counts by metis
qed

lemma sp_rollback_counts:
  assumes "sp_rollback K E s = Inr (pc, s')" and "counts_ok s"
  shows "counts_ok s' \<and> nesting s = Suc (nesting s') \<and> max_nesting s' = max_nesting s"
proof -
  have prev: "counts_ok (s\<lparr>previous_store := None\<rparr>) = counts_ok s" "nesting (s\<lparr>previous_store := None\<rparr>) = nesting s"
    by (simp_all add: counts_ok_def nesting_def)
  have "counts_ok r' \<and> nesting r = Suc (nesting r') \<and> max_nesting r' = max_nesting r"
    if b: "base_rollback E r = Inr (pc, r')" and c: "counts_ok r" for r r' :: "('a, 'b) Speculator"
  proof -
    from b obtain x f w cps l ls t where r: "sp_checkpoints r = (x, pc, f, w) # cps" "store_logs r = l # ls"
      and t: "rollback (tt_target E) (taint_tracker r) = Inr t"
      and r': "sp_checkpoints r' = cps" "store_logs r' = ls" "in_speculation r' = (if cps = [] then False else in_speculation r)"
        "max_nesting r' = max_nesting r" "taint_tracker r' = t"
      by (auto simp: base_rollback_def Let_def rbind_eq_Inr_iff split: list.splits prod.splits)
    have "enable_tracking t = enable_tracking (taint_tracker r)"
      "enable_tracking t \<Longrightarrow> length (tt_checkpoints t) = length (tt_checkpoints (taint_tracker r)) - 1"
      using rollback_effect [OF t] by simp_all
    then show ?thesis using r r' c by (auto simp: counts_ok_def nesting_def)
  qed
  from this [of "s\<lparr>previous_store := None\<rparr>"] this [of s] show ?thesis
    using assms prev by (auto simp: sp_rollback_def split: if_splits)
qed

section \<open>The invariant of the state machine\<close>

text \<open>Balanced stacks; the sequential class never opens a checkpoint; \<open>h\<close> is whether a fault was handled.\<close>

definition run_inv :: "speculator_class \<Rightarrow> bool \<Rightarrow> ('e, 'c) UnicornModel \<Rightarrow> bool" where
  "run_inv K h m \<longleftrightarrow> counts_ok (m_speculator m) \<and> (K = SeqSpeculator \<longrightarrow> \<not> in_speculation (m_speculator m)) \<and>
     had_arch_fault (m_state m) = h"

lemma frame_inv: "model_frame m m' \<Longrightarrow> run_inv K h m' = run_inv K h m"
  using counts_ok_cong [of "m_speculator m'" "m_speculator m"] by (auto simp: model_frame_def run_inv_def Let_def)

lemma handle_instruction_seq:
  "handle_instruction SeqSpeculator E name a sz s = Inr s' \<Longrightarrow> in_speculation s' = in_speculation s"
proof -
  have "in_speculation (count_instruction E name s) = in_speculation s" by (simp add: count_instruction_def Let_def)
  then show "handle_instruction SeqSpeculator E name a sz s = Inr s' \<Longrightarrow> in_speculation s' = in_speculation s"
    by (auto simp: handle_instruction_def speculate_instruction_def)
qed

lemma handle_mem_access_seq:
  "handle_mem_access SeqSpeculator E access a sz v s = Inr s' \<Longrightarrow> in_speculation s' = in_speculation s"
  by (auto simp: handle_mem_access_def speculate_mem_access_def log_store_def split: list.splits if_splits)

lemma speculator_inv:
  assumes "run_inv K h m" and "counts_ok (m_speculator m) \<Longrightarrow> counts_ok s"
    and "K = SeqSpeculator \<Longrightarrow> in_speculation s = in_speculation (m_speculator m)"
  shows "run_inv K h (m\<lparr>m_speculator := s\<rparr>)"
  using assms by (auto simp: run_inv_def)

lemma instruction_dispatch_inv:
  assumes "run_inv (me_class E) h m" and "instruction_dispatch E address sz m = Inr (err, m')"
  shows "run_inv (me_class E) h m'"
proof (cases "current_instruction (m_state m)")
  case (Some inst)
  show ?thesis
  proof (cases "is_macro_placeholder inst")
    case False
    let ?ob = "observe_instruction (me_tracer E) (me_uc E)"
    from assms(2) Some False obtain m1 s where
      m1: "on_taint_tracker (track_instruction (tt_target (me_spec E)) inst) m = Inr m1" and
      s: "handle_instruction (me_class E) (me_spec E) (i_name inst) address sz
        (m_speculator (on_tracer (?ob (m_emulator m1) (usable_registers E) address sz) m1)) = Inr s" and
      int: "interpret_instruction E address
        ((on_tracer (?ob (m_emulator m1) (usable_registers E) address sz) m1)\<lparr>m_speculator := s\<rparr>) = Inr (err, m')"
      by (auto simp: instruction_dispatch_def Let_def rbind_eq_Inr_iff)
    let ?m2 = "on_tracer (?ob (m_emulator m1) (usable_registers E) address sz) m1"
    have "run_inv (me_class E) h m1"
      using frame_inv [OF on_taint_tracker_frame [OF track_instruction_stack m1]] assms(1) by simp
    then have "run_inv (me_class E) h ?m2" by (simp add: frame_inv [OF on_tracer_frame [OF observe_stack(2)]])
    then have "run_inv (me_class E) h (?m2\<lparr>m_speculator := s\<rparr>)"
      by (rule speculator_inv) (use s handle_instruction_counts handle_instruction_seq in \<open>blast, metis\<close>)
    moreover have "model_frame (?m2\<lparr>m_speculator := s\<rparr>) m'"
      using interpret_instruction_frame [of "?m2\<lparr>m_speculator := s\<rparr>" E address] int by (simp add: uc_frame_def)
    ultimately show ?thesis using frame_inv by blast
  qed (use assms Some in \<open>simp add: instruction_dispatch_def\<close>)
qed (use assms in \<open>simp add: instruction_dispatch_def\<close>)

lemma mem_access_dispatch_inv:
  assumes "run_inv (me_class E) h m" and "mem_access_dispatch E access address sz val m = Inr (err, m')"
  shows "run_inv (me_class E) h m'"
proof (cases "current_instruction (m_state m)")
  case (Some inst)
  show ?thesis
  proof (cases "is_macro_placeholder inst")
    case False
    from assms(2) Some False obtain m1 s where
      m1: "on_taint_tracker (track_memory_access address sz (access = UC_MEM_WRITE)) m = Inr m1" and
      s: "handle_mem_access (me_class E) (me_spec E) access address sz val (m_speculator m1) = Inr s" and
      int: "interpret_mem_access E access address sz val
        (tracer_mem_access E access address sz val (m1\<lparr>m_speculator := s\<rparr>)) = Inr m'"
      by (auto simp: mem_access_dispatch_def rbind_eq_Inr_iff)
    have "run_inv (me_class E) h m1"
      using frame_inv [OF on_taint_tracker_frame [OF track_memory_access_stack m1]] assms(1) by simp
    then have "run_inv (me_class E) h (m1\<lparr>m_speculator := s\<rparr>)"
      by (rule speculator_inv) (use s handle_mem_access_counts handle_mem_access_seq in \<open>blast, metis\<close>)
    then show ?thesis
      using frame_inv [OF tracer_mem_access_frame] frame_inv [OF interpret_mem_access_frame [OF int]] by blast
  qed (use assms Some in \<open>simp add: mem_access_dispatch_def\<close>)
qed (use assms in \<open>simp add: mem_access_dispatch_def\<close>)

lemma callback_inv:
  assumes "run_inv (me_class E) h m" and "callback E ev m = Inr (err, m')"
  shows "run_inv (me_class E) h m'"
proof (cases ev)
  case (Ev_code address sz)
  show ?thesis
  proof (cases "is_exit_addr (m_state m) address")
    case True
    then show ?thesis
      using assms frame_inv [OF on_emulator_frame] by (auto simp: Ev_code callback_def instruction_callback_def)
  next
    case False
    with assms(2) obtain m1 where "update_context E address m = Inr m1" "instruction_dispatch E address sz m1 = Inr (err, m')"
      by (auto simp: Ev_code callback_def instruction_callback_def rbind_eq_Inr_iff)
    then show ?thesis
      using instruction_dispatch_inv frame_inv [OF update_context_frame] assms(1) by blast
  qed
qed (use assms mem_access_dispatch_inv in \<open>auto simp: callback_def mem_access_callback_def\<close>)

lemma emu_run_inv:
  "run_inv (me_class E) h m \<Longrightarrow> emu_run E n m = Inr (err, m') \<Longrightarrow> run_inv (me_class E) h m'"
proof (induction n arbitrary: m)
  case (Suc n)
  obtain ev e where ev: "em_next (me_engine E) (m_emulator m) = (ev, e)" by fastforce
  have i: "run_inv (me_class E) h (on_emulator (\<lambda>_. e) m)" using frame_inv [OF on_emulator_frame] Suc.prems(1) by blast
  show ?case
  proof (cases ev)
    case None
    then show ?thesis using Suc.prems(2) ev i by simp
  next
    case (Some x)
    then obtain err1 m1 where c: "callback E x (on_emulator (\<lambda>_. e) m) = Inr (err1, m1)"
      and r: "(case err1 of None \<Rightarrow> emu_run E n m1 | Some k \<Rightarrow> ok (Some k, m1)) = Inr (err, m')"
      using Suc.prems(2) ev by (auto simp: uc_then_def rbind_eq_Inr_iff)
    have "run_inv (me_class E) h m1" using callback_inv [OF i c] .
    then show ?thesis using r Suc.IH by (cases err1) auto
  qed
qed simp

lemma emu_start_inv:
  "run_inv (me_class E) h m \<Longrightarrow> emu_start E n pc m = Inr (err, m') \<Longrightarrow> run_inv (me_class E) h m'"
  using emu_run_inv frame_inv [OF on_emulator_frame] unfolding emu_start_def by blast

lemma model_rollback_inv:
  assumes "run_inv K h m" and "model_rollback E m = Inr (pc, m')" and "K = me_class E"
  shows "run_inv K h m' \<and> K \<noteq> SeqSpeculator"
proof -
  from assms(2) obtain s where s: "sp_rollback (me_class E) (me_spec E) (m_speculator m) = Inr (pc, s)"
    and m': "m' = m\<lparr>m_speculator := s\<rparr>" by (auto simp: model_rollback_def rbind_eq_Inr_iff)
  have "counts_ok (m_speculator m)" using assms(1) by (simp add: run_inv_def)
  note c = sp_rollback_counts [OF s this]
  then have "in_speculation (m_speculator m)" using assms(1) by (auto simp: run_inv_def counts_ok_def nesting_def)
  then show ?thesis using assms(1) c by (auto simp: run_inv_def m')
qed

text \<open>
  Handling a fault keeps the invariant; outside of speculation it reaches an address to continue from only
  when no fault was handled before.
\<close>

lemma handle_fault_inv:
  assumes "run_inv K h m" and "rbind (patch_context_after_fault E m) (model_handle_fault E) = Inr (pc, m')"
  shows "\<exists>h'. run_inv K h' m' \<and> (\<not> in_speculation (m_speculator m) \<longrightarrow> \<not> h \<and> h')"
proof -
  from assms(2) obtain m1 where m1: "patch_context_after_fault E m = Inr m1" and f: "model_handle_fault E m1 = Inr (pc, m')"
    by (auto simp: rbind_eq_Inr_iff)
  from m1 have "model_frame m m1"
    by (auto simp: patch_context_after_fault_def Let_def split: option.splits intro: model_frame_trans [OF on_emulator_frame write_reg_frame])
  then have i1: "run_inv K h m1" "in_speculation (m_speculator m1) = in_speculation (m_speculator m)"
    using frame_inv assms(1) by (blast, simp add: model_frame_def Let_def)
  let ?m0 = "m1\<lparr>m_state := (m_state m1)\<lparr>pending_fault := 0\<rparr>\<rparr>"
  have hf: "handle_fault (me_class E) n = 0" for n by (simp add: handle_fault_def speculate_fault_def)
  obtain m2 where m2: "m2 = tracer_mem_access E UC_MEM_WRITE (SandboxLayout.data_start (me_layout E) + 8184) 8
      (int (pending_fault (m_state m1))) ?m0" by simp
  have fr: "model_frame m1 m2"
    unfolding m2 by (rule model_frame_trans [OF _ tracer_mem_access_frame]) (simp add: model_frame_def)
  then have i2: "run_inv K h m2" "in_speculation (m_speculator m2) = in_speculation (m_speculator m)"
    using i1 frame_inv by (blast, simp add: model_frame_def Let_def)
  have r: "model_handle_fault E m1 =
      (if in_speculation (m_speculator m2) then ok (0, m2)
       else if had_arch_fault (m_state m2) then raise SystemExit
       else if pending_fault (m_state m1) \<in> me_handled_faults E
       then ok (fault_handler_addr (m_state m2), m2\<lparr>m_state := (m_state m2)\<lparr>had_arch_fault := True\<rparr>\<rparr>)
       else raise SystemExit)"
    by (simp add: model_handle_fault_def get_data_addr_eq hf Let_def m2)
  show ?thesis
  proof (cases "in_speculation (m_speculator m2)")
    case True
    then show ?thesis using r f i2 by auto
  next
    case False
    then have "\<not> had_arch_fault (m_state m2)" "m' = m2\<lparr>m_state := (m_state m2)\<lparr>had_arch_fault := True\<rparr>\<rparr>"
      using r f by (auto split: if_splits)
    then show ?thesis using i2 by (auto simp: run_inv_def)
  qed
qed

lemma state_machine_iteration_inv:
  assumes "run_inv (me_class E) h m" and "state_machine_iteration E budget pc m = Inr (next_pc, m')"
  shows "\<exists>h'. run_inv (me_class E) h' m' \<and> (next_pc = None \<longrightarrow> \<not> in_speculation (m_speculator m')) \<and>
     (me_class E = SeqSpeculator \<and> next_pc \<noteq> None \<longrightarrow> \<not> h \<and> h')"
proof -
  let ?K = "me_class E"
  from assms(2) obtain st where st: "reset_after_em_stop E pc (m_state m) = Inr st"
    by (auto simp: state_machine_iteration_def rbind_eq_Inr_iff)
  define m0 where "m0 = m\<lparr>m_state := st\<rparr>"
  have i0: "run_inv ?K h m0"
    using st assms(1) by (auto simp: m0_def run_inv_def reset_after_em_stop_def rbind_eq_Inr_iff)
  define re where "re = (pc \<noteq> code_start (me_layout E))"
  have it: "state_machine_iteration E budget pc m =
      (if re \<and> is_exit_addr st pc \<and> \<not> in_speculation (m_speculator m0) then ok (None, m0)
       else if re \<and> in_speculation (m_speculator m0) \<and> (is_exit_addr st pc \<or> pc = fault_handler_addr st)
       then rbind (model_rollback E m0) (\<lambda>(pc', m'). ok (Some pc', m'))
       else rbind (emu_start E budget pc m0) (\<lambda>(err, m1).
          let m2 = (case err of None \<Rightarrow> m1 | Some e \<Rightarrow> m1\<lparr>m_state := (m_state m1)\<lparr>pending_fault := e\<rparr>\<rparr>)
          in rbind (if pending_fault (m_state m2) \<noteq> 0
                    then rbind (patch_context_after_fault E m2) (model_handle_fault E)
                    else ok (0, m2)) (\<lambda>(pc', m3).
               if pc' \<noteq> 0 \<and> pc' \<noteq> exit_addr (m_state m3) then ok (Some pc', m3)
               else if \<not> in_speculation (m_speculator m3) then ok (None, m3)
               else rbind (model_rollback E m3) (\<lambda>(pc'', m'). ok (Some pc'', m')))))"
    unfolding state_machine_iteration_def st rbind_Inr m0_def re_def Let_def by (rule refl)
  consider (finished) "m' = m0" "next_pc = None" "\<not> in_speculation (m_speculator m0)"
    | (undone) pc' where "model_rollback E m0 = Inr (pc', m')" "next_pc = Some pc'"
    | (executed) err m1 where "emu_start E budget pc m0 = Inr (err, m1)"
        "(let m2 = (case err of None \<Rightarrow> m1 | Some e \<Rightarrow> m1\<lparr>m_state := (m_state m1)\<lparr>pending_fault := e\<rparr>\<rparr>)
          in rbind (if pending_fault (m_state m2) \<noteq> 0
                    then rbind (patch_context_after_fault E m2) (model_handle_fault E)
                    else ok (0, m2)) (\<lambda>(pc', m3).
               if pc' \<noteq> 0 \<and> pc' \<noteq> exit_addr (m_state m3) then ok (Some pc', m3)
               else if \<not> in_speculation (m_speculator m3) then ok (None, m3)
               else rbind (model_rollback E m3) (\<lambda>(pc'', m'). ok (Some pc'', m')))) = Inr (next_pc, m')"
    using assms(2) unfolding it by (auto simp: rbind_eq_Inr_iff split: if_splits)
  then show ?thesis
  proof cases
    case finished
    then show ?thesis using i0 by auto
  next
    case undone
    then show ?thesis using model_rollback_inv [OF i0 undone(1)] by blast
  next
    case executed
    define m2 where "m2 = (case err of None \<Rightarrow> m1 | Some e \<Rightarrow> m1\<lparr>m_state := (m_state m1)\<lparr>pending_fault := e\<rparr>\<rparr>)"
    have i2: "run_inv ?K h m2"
      using emu_start_inv [OF i0 executed(1)] by (auto simp: m2_def run_inv_def split: option.splits)
    from executed(2) obtain pc' m3 where
      f: "(if pending_fault (m_state m2) \<noteq> 0 then rbind (patch_context_after_fault E m2) (model_handle_fault E)
           else ok (0, m2)) = Inr (pc', m3)" and
      n: "(if pc' \<noteq> 0 \<and> pc' \<noteq> exit_addr (m_state m3) then ok (Some pc', m3)
           else if \<not> in_speculation (m_speculator m3) then ok (None, m3)
           else rbind (model_rollback E m3) (\<lambda>(pc'', m'). ok (Some pc'', m'))) = Inr (next_pc, m')"
      unfolding m2_def [symmetric] Let_def by (auto simp: rbind_eq_Inr_iff)
    from f obtain h3 where i3: "run_inv ?K h3 m3" "pc' \<noteq> 0 \<Longrightarrow> ?K = SeqSpeculator \<Longrightarrow> \<not> h \<and> h3"
      using handle_fault_inv [OF i2] i2 by (cases "pending_fault (m_state m2) = 0") (auto simp: run_inv_def)
    consider "pc' \<noteq> 0" "next_pc = Some pc'" "m' = m3"
      | "next_pc = None" "m' = m3" "\<not> in_speculation (m_speculator m3)"
      | pc'' where "model_rollback E m3 = Inr (pc'', m')" "next_pc = Some pc''"
      using n by (auto simp: rbind_eq_Inr_iff split: if_splits)
    then show ?thesis using i3 model_rollback_inv [OF i3(1)] by cases (blast, auto)
  qed
qed

lemma run_state_machine_inv:
  "run_inv (me_class E) h m \<Longrightarrow> run_state_machine E budget fuel pc m = Some (Inr m') \<Longrightarrow>
   \<exists>h'. run_inv (me_class E) h' m' \<and> \<not> in_speculation (m_speculator m')"
proof (induction fuel arbitrary: h pc m)
  case (Suc fuel)
  from Suc.prems(2) obtain n m1 where it: "state_machine_iteration E budget pc m = Inr (n, m1)"
    by (auto split: sum.splits)
  show ?case
    using state_machine_iteration_inv [OF Suc.prems(1) it] Suc.prems(2) Suc.IH it by (cases n) auto
qed simp

lemma sequential_run_terminates:
  assumes "run_inv SeqSpeculator h m" and "me_class E = SeqSpeculator"
  shows "run_state_machine E budget (Suc (Suc fuel)) pc m \<noteq> None"
proof (cases "state_machine_iteration E budget pc m")
  case (Inr r)
  obtain n m1 where r: "r = (n, m1)" by (cases r)
  show ?thesis
  proof (cases n)
    case (Some pc1)
    with state_machine_iteration_inv [of E h m budget pc n m1] assms Inr r have i1: "run_inv SeqSpeculator True m1" by auto
    have "fst x = None" if "state_machine_iteration E budget pc1 m1 = Inr x" for x
      using state_machine_iteration_inv [of E True m1 budget pc1 "fst x" "snd x"] assms(2) i1 that by auto
    then show ?thesis using Inr r Some by (auto split: sum.splits option.splits)
  qed (use Inr r in simp)
qed simp

section \<open>Tracing\<close>

lemma rfold_frame:
  assumes "rfold f m xs = Inr m'" and "\<And>m x m'. f m x = Inr m' \<Longrightarrow> model_frame m m'"
  shows "model_frame m m'"
  by (rule rfold_invariant [OF assms(1), where P = "model_frame m"]) (auto intro: model_frame_trans assms(2))

lemma load_actor_frame: "load_actor E f i a m = Inr (a', m') \<Longrightarrow> model_frame m m'"
  by (auto simp: load_actor_def rbind_eq_Inr_iff write_area_def simp del: rfold.simps elim!: rfold_frame)

lemma load_memory_frame:
  assumes "load_memory E f inp m = Inr (inp', m')"
  shows "model_frame m m'"
proof -
  have "model_frame m (snd (inp', m'))"
    using assms unfolding load_memory_def
    by (rule rfold_invariant [where P = "\<lambda>im. model_frame m (snd im)"])
      (auto simp: load_next_actor_def rbind_eq_Inr_iff dest!: load_actor_frame intro: model_frame_trans)
  then show ?thesis by simp
qed

lemma load_registers_frame: "load_registers E regs vals m = Inr m' \<Longrightarrow> model_frame m m'"
  unfolding load_registers_def by (erule rfold_frame) (auto simp: rbind_eq_Inr_iff)

lemma load_input_frame:
  assumes "load_input E inp m = Inr (inp', m')"
  shows "model_frame m m'"
proof -
  have tr: "model_frame a (b\<lparr>m_tracer := t\<rparr>) = model_frame a b" for a b :: "('a, 'b) UnicornModel" and t
    by (simp add: model_frame_def)
  show ?thesis
  proof (cases "me_is_x86 E")
    case True
    with assms show ?thesis
      by (auto simp: load_input_def x86_load_input_def rbind_eq_Inr_iff tr dest!: load_memory_frame load_registers_frame)
        (meson model_frame_trans write_reg_frame)
  next
    case False
    with assms show ?thesis
      by (auto simp: load_input_def arm64_load_input_def rbind_eq_Inr_iff split: if_splits
          dest!: load_memory_frame load_registers_frame) (meson model_frame_trans write_reg_frame)
  qed
qed

lemma execution_start_inv:
  assumes "full_reset (me_program E) (m_state m) = Inr st" and "execution_start_dispatch E inp (m\<lparr>m_state := st\<rparr>) = Inr m'"
  shows "run_inv (me_class E) False m'"
proof -
  have st: "\<not> had_arch_fault st" using assms(1) by (auto simp: full_reset_def rbind_eq_Inr_iff)
  from assms(2) obtain t where "fault_load_input E (m\<lparr>m_state := st, m_tracer := t, m_speculator :=
      (sp_reset (me_class E) (me_spec E) (m_emulator m) (m_speculator m))\<lparr>taint_tracker :=
        reset (taint_tracker (sp_reset (me_class E) (me_spec E) (m_emulator m) (m_speculator m)))\<rparr>\<rparr>) = Inr m'"
    by (auto simp: execution_start_dispatch_def Let_def rbind_eq_Inr_iff)
  note frame = frame_inv [OF fault_load_input_frame [OF this], of "me_class E" False]
  show ?thesis
    unfolding frame using st by (simp add: run_inv_def counts_ok_def nesting_def sp_reset_def base_reset_def reset_def)
qed

lemma execute_input_cases:
  assumes "execute_input E budget fuel inp m = Some (Inr (ct, tnt, inp', m'))"
  obtains m1 m2 where "run_inv (me_class E) False m1"
    and "run_state_machine E budget fuel (code_start (me_layout E)) m1 = Some (Inr m2)"
    and "model_frame m2 m'"
proof -
  from assms obtain st m0 m1 r where st: "full_reset (me_program E) (m_state m) = Inr st"
    and m0: "execution_start_dispatch E inp (m\<lparr>m_state := st\<rparr>) = Inr m0" and m1: "load_input E inp m0 = Inr (inp', m1)"
    and r: "run_state_machine E budget fuel (code_start (me_layout E)) m1 = Some r"
      "rbind r (\<lambda>m2. rbind (record_trace E m2) (\<lambda>(ct, m3).
         rbind (get_taint (tt_target (me_spec E)) (taint_tracker (m_speculator m3)) (n_actors (me_program E))) (\<lambda>(tnt, t).
           ok (ct, tnt, inp', m3\<lparr>m_speculator := (m_speculator m3)\<lparr>taint_tracker := t\<rparr>\<rparr>)))) = Inr (ct, tnt, inp', m')"
    unfolding execute_input_def by (auto split: sum.splits simp: rbind_eq_Inr_iff)
  from r(2) obtain m2 m3 t where m2: "r = Inr m2" and m3: "record_trace E m2 = Inr (ct, m3)"
    and t: "get_taint (tt_target (me_spec E)) (taint_tracker (m_speculator m3)) (n_actors (me_program E)) = Inr (tnt, t)"
    and m': "m' = m3\<lparr>m_speculator := (m_speculator m3)\<lparr>taint_tracker := t\<rparr>\<rparr>"
    by (auto simp: rbind_eq_Inr_iff)
  have "tt_checkpoints t = tt_checkpoints (taint_tracker (m_speculator m3)) \<and>
      enable_tracking t = enable_tracking (taint_tracker (m_speculator m3))"
    using t by (auto simp: get_taint_def rbind_eq_Inr_iff split: if_splits dest!: finish_stack)
  then have "model_frame m3 m'" by (simp add: m' model_frame_def)
  moreover have "model_frame m2 m3"
  proof -
    have get: "tt_checkpoints (tr_taint_tracker tr') = tt_checkpoints (tr_taint_tracker tr) \<and>
        enable_tracking (tr_taint_tracker tr') = enable_tracking (tr_taint_tracker tr)"
      if "get_trace K H d l tr = Inr (ct, tr')" for K H d l tr tr'
      using that by (cases K) (auto simp: get_trace_def rbind_eq_Inr_iff taint_actors_def)
    show ?thesis
      using m3 by (auto simp: record_trace_def Let_def rbind_eq_Inr_iff model_frame_def split: if_splits dest!: get)
  qed
  ultimately have "model_frame m2 m'" by (rule model_frame_trans [rotated])
  moreover have "run_inv (me_class E) False m1"
    using execution_start_inv [OF st m0] frame_inv [OF load_input_frame [OF m1]] by simp
  ultimately show ?thesis using that r(1) m2 by blast
qed

text \<open>No speculation is open.\<close>

definition quiescent :: "('e, 'c) UnicornModel \<Rightarrow> bool" where
  "quiescent m \<longleftrightarrow> (let s = m_speculator m in \<not> in_speculation s \<and> sp_checkpoints s = [] \<and> store_logs s = [] \<and>
     (enable_tracking (taint_tracker s) \<longrightarrow> tt_checkpoints (taint_tracker s) = []))"

lemma execute_input_quiescent:
  assumes "execute_input E budget fuel inp m = Some (Inr (ct, tnt, inp', m'))"
  shows "quiescent m'"
proof -
  from execute_input_cases [OF assms] obtain m1 m2 where i: "run_inv (me_class E) False m1"
    and r: "run_state_machine E budget fuel (code_start (me_layout E)) m1 = Some (Inr m2)" and f: "model_frame m2 m'" by blast
  from run_state_machine_inv [OF i r] have "counts_ok (m_speculator m2)" "\<not> in_speculation (m_speculator m2)"
    by (auto simp: run_inv_def)
  then show ?thesis using f by (auto simp: quiescent_def counts_ok_def nesting_def model_frame_def Let_def)
qed

lemma execute_input_terminates:
  assumes "me_class E = SeqSpeculator"
  shows "execute_input E budget (Suc (Suc fuel)) inp m \<noteq> None"
proof -
  have "run_state_machine E budget (Suc (Suc fuel)) pc m1 \<noteq> None"
    if "full_reset (me_program E) (m_state m) = Inr st" and "execution_start_dispatch E inp (m\<lparr>m_state := st\<rparr>) = Inr m0"
      and "load_input E inp m0 = Inr (inp', m1)" for st m0 m1 pc inp'
    using sequential_run_terminates execution_start_inv [OF that(1,2)] frame_inv [OF load_input_frame [OF that(3)]] assms by metis
  then show ?thesis
    unfolding execute_input_def by (auto split: sum.splits simp: rbind_eq_Inr_iff simp del: run_state_machine.simps)
qed

lemma execute_inputs_result:
  "execute_test_case_with_inputs E budget fuel inputs m = Some (Inr (cts, tnts, inps, m')) \<Longrightarrow>
   length cts = length inputs \<and> length tnts = length inputs \<and> length inps = length inputs \<and> (inputs \<noteq> [] \<longrightarrow> quiescent m')"
proof (induction inputs arbitrary: m cts tnts inps)
  case (Cons inp inputs)
  from Cons.prems obtain ct tnt inp' m1 r where x: "execute_input E budget fuel inp m = Some (Inr (ct, tnt, inp', m1))"
    and r: "execute_test_case_with_inputs E budget fuel inputs m1 = Some r"
      "rbind r (\<lambda>(cts, tnts, inps', m''). ok (ct # cts, tnt # tnts, inp' # inps', m'')) = Inr (cts, tnts, inps, m')"
    by (auto split: option.splits sum.splits)
  from r(2) obtain cts' tnts' inps' where r': "r = Inr (cts', tnts', inps', m')"
    "cts = ct # cts'" "tnts = tnt # tnts'" "inps = inp' # inps'" by (auto simp: rbind_eq_Inr_iff)
  show ?case
    using Cons.IH [of m1 cts' tnts' inps'] r(1) r' execute_input_quiescent [OF x] by (cases inputs) auto
qed simp

lemma execute_inputs_terminate:
  assumes "me_class E = SeqSpeculator"
  shows "execute_test_case_with_inputs E budget (Suc (Suc fuel)) inputs m \<noteq> None"
proof (induction inputs arbitrary: m)
  case (Cons inp inputs)
  then show ?case
    using execute_input_terminates [OF assms, of budget fuel inp m]
    by (auto split: option.splits sum.splits)
qed simp

text \<open>
  C8: Tracing with the sequential contract terminates. Whatever the emulator reports, two turns of the
  state machine per input are enough: the second one is only reached through the fault handler, and a
  second fault is an error. The result is an exception, or one contract trace and one taint per input.
\<close>
theorem sequential_tracing_terminates:
  assumes "me_class E = SeqSpeculator" and "2 \<le> fuel"
  shows "\<exists>r. trace_inputs with_taints E budget fuel inputs nesting_limit m = Some r \<and>
     (case r of Inl e \<Rightarrow> True
      | Inr (cts, tnts, inps, m') \<Rightarrow> length cts = length inputs \<and> length tnts = length inputs \<and> length inps = length inputs)"
proof -
  obtain k where k: "fuel = Suc (Suc k)" using assms(2) by (metis Suc_le_D numeral_2_eq_2 Suc_le_mono)
  have "trace_inputs with_taints E budget fuel inputs nesting_limit m \<noteq> None"
    using execute_inputs_terminate [OF assms(1)] by (auto simp: trace_inputs_def k split: sum.splits)
  then obtain r where r: "trace_inputs with_taints E budget fuel inputs nesting_limit m = Some r" by blast
  moreover have "length cts = length inputs \<and> length tnts = length inputs \<and> length inps = length inputs"
    if "r = Inr (cts, tnts, inps, m')" for cts tnts inps m'
    using r that execute_inputs_result by (fastforce simp: trace_inputs_def split: sum.splits)
  ultimately show ?thesis by (auto split: sum.splits prod.splits)
qed

text \<open>
  C9: For every speculation contract, a trace is only recorded outside of speculation: when the model
  returns the traces of a non-empty sequence of inputs, all checkpoints, store logs and checkpoints of the
  enabled taint tracker have been rolled back. There is one trace and one taint per input.
\<close>
theorem tracing_ends_outside_speculation:
  assumes "trace_inputs with_taints E budget fuel inputs nesting_limit m = Some (Inr (cts, tnts, inps, m'))"
    and "inputs \<noteq> []"
  shows "quiescent m' \<and> length cts = length inputs \<and> length tnts = length inputs"
  using assms execute_inputs_result by (fastforce simp: trace_inputs_def split: sum.splits)

section \<open>A concrete run\<close>

definition flat_model :: "((nat \<Rightarrow> int) \<times> (int \<Rightarrow> byte), nat \<Rightarrow> int) UnicornModel" where
  "flat_model = \<lparr>m_speculator = flat_spec, m_tracer = UnicornTracer_init demo_tracker,
     m_state = \<lparr>current_instruction = None, current_actor = create_main\<lparr>code_section_ref := Some 0\<rparr>, exit_addr = 4098,
       fault_handler_addr = 4098, pending_fault = 0, previous_context = None, had_arch_fault = False, page_permissions = []\<rparr>,
     m_interpreter = InterpreterState_init\<lparr>faulty_page_readable := [(0, True)], faulty_page_writable := [(0, True)]\<rparr>\<rparr>"

lemma flat_program_simps:
  "n_actors flat_program = 1" "get_actors flat_program = [create_main\<lparr>code_section_ref := Some 0\<rparr>]"
  "get_id flat_program (create_main\<lparr>code_section_ref := Some 0\<rparr>) = Inr 0"
  "find_actor_by_name flat_program ''main'' = Inr (create_main\<lparr>code_section_ref := Some 0\<rparr>)"
  "find_actor_by_id flat_program 0 = Inr (create_main\<lparr>code_section_ref := Some 0\<rparr>)"
  by (simp_all add: flat_program_def TestCaseProgram_init_def n_actors_def get_actors_def get_id_def code_section_def py_nth_def
    py_index_def CodeSection_init_def find_actor_by_name_def dict_get_def find_actor_by_id_def)

lemma flat_state: "ModelExecutionState_init (flat_model_env K) = Inr (m_state flat_model)"
  by (simp add: ModelExecutionState_init_def flat_model_env_def flat_model_def flat_program_simps full_reset_def get_exit_addr_def
   find_section_def get_fault_handler_addr_def get_obj_def get_macro_offset_def flat_layout_def)
   (simp add: flat_program_def TestCaseProgram_init_def CodeSection_init_def py_nth_def py_index_def get_elf_data_def)

definition tiny_input :: InputData where
  "tiny_input = \<lparr>actors = [\<lparr>ai_main = [], ai_faulty = [], ai_gpr = [0, 0, 0, 0, 0, 0, 0, 0], ai_simd = [], ai_padding = []\<rparr>], seed = 3\<rparr>"

lemmas flat_simps = flat_model_env_def flat_program_simps flat_env_def flat_layout_def flat_engine_def flat_uc_def

lemmas start_simps = execution_start_dispatch_def flat_simps flat_model_def UnicornTracer_init_def demo_tracker_def
    tracer_reset_def base_tracer_reset_def sp_reset_def base_reset_def flat_spec_def fault_load_input_def InterpreterState_init_def
    dict_get_def reset_def

lemmas load_simps = load_input_def x86_load_input_def load_memory_def load_next_actor_def load_actor_def pad_values_def layout_simps
  patch_gpr_def py_nth_def py_set_def py_index_def write_area_def get_data_addr_eq on_emulator_def load_registers_def write_reg_def
  simd128_values_def tiny_input_def

definition flat_ready :: "((nat \<Rightarrow> int) \<times> (int \<Rightarrow> byte), nat \<Rightarrow> int) UnicornModel" where
  "flat_ready = flat_model\<lparr>m_speculator := flat_spec\<lparr>taint_tracker := demo_tracker\<lparr>enable_tracking := False\<rparr>\<rparr>\<rparr>"

lemma flat_start: "\<exists>m1 inp'. rbind (full_reset flat_program (m_state flat_ready)) (\<lambda>st.
     rbind (execution_start_dispatch (flat_model_env SeqSpeculator) tiny_input (flat_ready\<lparr>m_state := st\<rparr>))
       (load_input (flat_model_env SeqSpeculator) tiny_input)) = Inr (inp', m1) \<and>
     exit_addr (m_state m1) = 4098 \<and> \<not> in_speculation (m_speculator m1) \<and> \<not> enable_tracking (taint_tracker (m_speculator m1)) \<and>
     \<not> enable_tracing (m_tracer m1)"
  by (simp add: flat_ready_def start_simps load_simps full_reset_def)

lemma flat_object: "get_obj flat_program = Inr \<lparr>obj_path = ''a.o'', bin_symbol_table = Some [],
       bin_instruction_map = Some [(0, [(0, Instruction_init ''nop'' ''BASE-NOP'' False False False)])],
       bin_is_assembled = True\<rparr>"
  by (simp add: get_obj_def flat_program_def TestCaseProgram_init_def)


lemma create_main_simps [simp]:
  "act_mode create_main = HOST" "privilege_level create_main = KERNEL" "is_main create_main"
  by (simp_all add: create_main_def Actor_init_def)

lemmas run_simps = state_machine_iteration_def reset_after_em_stop_def code_addr_to_actor_id_def emu_start_def is_exit_addr_def
  callback_def instruction_callback_def update_context_def get_code_addr_eq flat_object instruction_map_def dict_get_def
  instruction_dispatch_def Instruction_init_def on_taint_tracker_def track_instruction_def on_tracer_def observe_instruction_def
  add_pc_to_trace_def handle_instruction_def count_instruction_def speculate_instruction_def interpret_instruction_def uc_then_def
  on_emulator_def

lemma flat_iteration:
  assumes "exit_addr (m_state m) = 4098" "\<not> in_speculation (m_speculator m)" "\<not> enable_tracking (taint_tracker (m_speculator m))"
    "\<not> enable_tracing (m_tracer m)"
  shows "\<exists>m'. state_machine_iteration (flat_model_env SeqSpeculator) (Suc (Suc n)) 4096 m = Inr (None, m') \<and>
    \<not> enable_tracking (taint_tracker (m_speculator m'))"
  using assms
  by (simp add: run_simps flat_simps Let_def layout_simps)

lemma flat_traced: "\<exists>r. trace_inputs False (flat_model_env SeqSpeculator) (Suc (Suc n)) (Suc k) [tiny_input] 5 flat_model = Some (Inr r)"
proof -
  let ?E = "flat_model_env SeqSpeculator"
  have ready: "flat_model\<lparr>m_speculator := set_max_nesting 5 (flat_spec\<lparr>taint_tracker := demo_tracker\<lparr>enable_tracking := False\<rparr>\<rparr>)\<rparr> = flat_ready"
    by (simp add: flat_ready_def set_max_nesting_def flat_spec_def)
  have on: "on_taint_tracker (\<lambda>t. set_enable_tracking t False) flat_model =
      Inr (flat_model\<lparr>m_speculator := flat_spec\<lparr>taint_tracker := demo_tracker\<lparr>enable_tracking := False\<rparr>\<rparr>\<rparr>)"
    by (simp add: on_taint_tracker_def set_enable_tracking_def flat_model_def flat_spec_def demo_tracker_def)
  obtain m1 inp' where s: "rbind (full_reset flat_program (m_state flat_ready)) (\<lambda>st.
     rbind (execution_start_dispatch (flat_model_env SeqSpeculator) tiny_input (flat_ready\<lparr>m_state := st\<rparr>))
       (load_input (flat_model_env SeqSpeculator) tiny_input)) = Inr (inp', m1)"
    and m1: "exit_addr (m_state m1) = 4098" "\<not> in_speculation (m_speculator m1)" "\<not> enable_tracking (taint_tracker (m_speculator m1))"
     "\<not> enable_tracing (m_tracer m1)"
    using flat_start by blast
  obtain m2 where m2: "state_machine_iteration ?E (Suc (Suc n)) 4096 m1 = Inr (None, m2)" "\<not> enable_tracking (taint_tracker (m_speculator m2))"
    using flat_iteration [OF m1] by blast
  have prog: "me_program ?E = flat_program" "code_start (me_layout ?E) = 4096" by (simp_all add: flat_model_env_def flat_layout_def)
  have tail: "me_tracer ?E = CTTracer" "\<not> me_enable_mismatch_check_mode ?E" by (simp_all add: flat_model_env_def)
  have "\<exists>r. execute_input ?E (Suc (Suc n)) (Suc k) tiny_input flat_ready = Some (Inr r)"
    using m2 tail by (simp add: execute_input_def prog s record_trace_def get_trace_def get_taint_def)
  then show ?thesis by (auto simp: trace_inputs_def on ready)
qed

theorem sequential_tracing_terminates_witness:
  "\<exists>r. trace_inputs True (flat_model_env SeqSpeculator) 100 2 [flat_input, tiny_input] 5 flat_model = Some r"
proof -
  have "me_class (flat_model_env SeqSpeculator) = SeqSpeculator" by (simp add: flat_model_env_def)
  from sequential_tracing_terminates [OF this order_refl, of True 100 "[flat_input, tiny_input]" 5 flat_model] show ?thesis by blast
qed

theorem tracing_ends_outside_speculation_witness:
  "\<exists>cts tnts inps m'. trace_inputs False (flat_model_env SeqSpeculator) (Suc (Suc 8)) (Suc 3) [tiny_input] 5 flat_model =
       Some (Inr (cts, tnts, inps, m')) \<and> quiescent m' \<and> length cts = 1"
proof -
  obtain cts tnts inps m' where "trace_inputs False (flat_model_env SeqSpeculator) (Suc (Suc 8)) (Suc 3) [tiny_input] 5 flat_model =
       Some (Inr (cts, tnts, inps, m'))" using flat_traced by (metis prod_cases4)
  from tracing_ends_outside_speculation [OF this] this show ?thesis by auto
qed

lemma flat_sections:
  "get_actors_sorted flat_program = Inr [create_main\<lparr>code_section_ref := Some 0\<rparr>]"
  "rmapM (actor_section flat_program) [create_main\<lparr>code_section_ref := Some 0\<rparr>] = Inr [\<lparr>elf_offset = 0, elf_size = 3, elf_id = 0\<rparr>]"
  by (simp_all add: get_actors_sorted_def flat_program_simps)
    (simp add: actor_section_def code_section_def flat_program_def TestCaseProgram_init_def CodeSection_init_def py_nth_def
      py_index_def get_elf_data_def)

definition x86_pte_names :: PTEDescriptor where
  "x86_pte_names = [(''present'', (0, True)), (''writable'', (1, True)), (''user'', (2, False)), (''accessed'', (5, True)),
     (''dirty'', (6, True)), (''reserved_bit'', (51, False))]"

definition flat_loader_env :: "((nat \<Rightarrow> int) \<times> (int \<Rightarrow> byte), nat \<Rightarrow> int) model_env" where
  "flat_loader_env = (flat_model_env SeqSpeculator)\<lparr>me_pte_bits := x86_pte_names\<rparr>"

lemma flat_loads: "\<exists>E' m'. model_load_test_case flat_loader_env (65536, 4096) flat_program [0x90, 0x90, 0xC3] flat_model = Inr (E', m')"
proof -
  let ?E = "flat_loader_env\<lparr>me_program := flat_program, me_layout := flat_layout\<rparr>"
  have st: "ModelExecutionState_init ?E = Inr (m_state flat_model)"
    using flat_state [of SeqSpeculator] by (simp add: ModelExecutionState_init_def flat_loader_env_def flat_model_env_def)
  have len: "SandboxLayout_init (65536, 4096) (n_actors flat_program) = Inr flat_layout"
    unfolding flat_program_simps by (rule flat_layout_init)
  have "\<exists>i. interpreter_load_test_case ?E flat_model = Inr i"
    by (simp add: interpreter_load_test_case_def macro_load_test_case_def flat_object symbol_table_def flat_program_simps
        fault_load_test_case_def flat_sections load_actor_permissions_def page_is_readable_def page_is_writable_def
        page_is_user_accessible_def pte_bit_def dict_get_def x86_pte_names_def flat_loader_env_def flat_model_env_def
        on_interpreter_def Let_def)
  moreover obtain image where "binary_to_bytes flat_program
      \<lparr>obj_path = ''a.o'', bin_symbol_table = Some [],
       bin_instruction_map = Some [(0, [(0, Instruction_init ''nop'' ''BASE-NOP'' False False False)])],
       bin_is_assembled = True\<rparr> [0x90, 0x90, 0xC3] 12288 [0x90] = Inr image"
    using padded_image [OF _ flat_sections, of _ "[0x90, 0x90, 0xC3]" 12288 "0x90"] by force
  moreover have "flat_model\<lparr>m_state := m_state flat_model\<rparr> = flat_model" by simp
  moreover have "mem_map (me_engine flat_loader_env) a n e = Some e" for a n e
    by (simp add: flat_loader_env_def flat_model_env_def flat_engine_def)
  ultimately show ?thesis
    by (auto simp: model_load_test_case_def flat_object len st uc_or_exit_def layout_simps)
qed

theorem loaded_code_witness:
  "\<exists>E' m'. model_load_test_case flat_loader_env (65536, 4096) flat_program [0x90, 0x90, 0xC3] flat_model = Inr (E', m') \<and>
     mem_read flat_uc (m_emulator m') 4096 12288 = [0x90, 0x90, 0xC3] @ replicate 12285 0x90"
proof -
  obtain E' m' where l: "model_load_test_case flat_loader_env (65536, 4096) flat_program [0x90, 0x90, 0xC3] flat_model = Inr (E', m')"
    using flat_loads by blast
  have env: "me_uc flat_loader_env = flat_uc" by (simp add: flat_loader_env_def flat_model_env_def flat_env_def)
  have E': "me_layout E' = flat_layout" "me_spec E' = flat_env"
    using load_test_case_image [OF l] flat_layout_init
    by (auto simp: flat_program_simps flat_loader_env_def flat_model_env_def)
  from loaded_code [OF l _ flat_object _ flat_sections] env flat_uc_laws
  have "\<exists>a. get_code_addr (me_layout E') CA_MAIN 0 = Inr a \<and> mem_read (me_uc E') (m_emulator m') a 12288 =
      section_bytes [0x90, 0x90, 0xC3] \<lparr>elf_offset = 0, elf_size = 3, elf_id = 0\<rparr> @ replicate (12288 - 3) 0x90"
    by fastforce
  then show ?thesis
    using l E' by (auto simp: get_code_addr_eq flat_layout_def flat_env_def section_bytes_def)
qed

end
