(* ===== verification/InstructionPasses.thy ===== *)
theory InstructionPasses
  imports PyString Traces
begin

text \<open>
  Model of \<^verbatim>\<open>rvzr/postprocessing/pass_abc.py\<close> and \<^verbatim>\<open>instruction_passes.py\<close>: the passes that shrink the
  assembly code of a violating test case. A test case is known by the text of its assembly file; the
  parser, the fuzzing round and the assembler that measures an instruction are the fields of
  \<open>min_env\<close>, with the state of everything behind them passed along. Files have Unix line ends;
  progress output is not modelled.
\<close>

section \<open>Text\<close>

fun readlines :: "string \<Rightarrow> string list" where
  "readlines [] = []"
| "readlines (c # cs) =
     (if c = CHR 0x0A then [c] # readlines cs
      else (case readlines cs of [] \<Rightarrow> [[c]] | l # ls \<Rightarrow> (c # l) # ls))"

text \<open>\<^verbatim>\<open>s.split(p)\<close> for a non-empty \<open>p\<close>.\<close>

function split_str :: "string \<Rightarrow> string \<Rightarrow> string list" where
  "split_str p s =
     (if p = [] \<or> s = [] then [s]
      else if starts_with s p then [] # split_str p (drop (length p) s)
      else (case split_str p (tl s) of [] \<Rightarrow> [[hd s]] | w # ws \<Rightarrow> (hd s # w) # ws))"
  by pat_completeness auto
termination
  by (relation "measure (\<lambda>(p, s). length s)") auto

declare split_str.simps [simp del]

definition is_az :: "char \<Rightarrow> bool" where
  "is_az c \<longleftrightarrow> (97 :: nat) \<le> of_char c \<and> of_char c \<le> (122 :: nat)"

text \<open>The regular expressions: a prefix, letters and a blank; a signed number in one of three bases.\<close>

definition match_word :: "string \<Rightarrow> string \<Rightarrow> bool" where
  "match_word prefix line \<longleftrightarrow>
     starts_with line prefix \<and> starts_with (dropWhile is_az (drop (length prefix) line)) '' ''"

definition match_number :: "string \<Rightarrow> (char \<Rightarrow> bool) \<Rightarrow> string \<Rightarrow> bool" where
  "match_number prefix digit word =
     (let w = removeprefix word ''-''
      in starts_with w prefix \<and> drop (length prefix) w \<noteq> [] \<and> list_all digit (drop (length prefix) w))"

definition match_constant :: "string \<Rightarrow> bool" where
  "match_constant word \<longleftrightarrow>
     match_number [] is_digit word \<or>
     match_number ''0x'' (\<lambda>c. is_digit c \<or> c \<in> set ''abcdef'') word \<or>
     match_number ''0b'' (\<lambda>c. c \<in> set ''01'') word"

section \<open>The environment\<close>

datatype isa = X86_64 | ARM64

record ('s, 'inp, 'tc) min_env =
  isa_of :: isa
  parse_file :: "string \<Rightarrow> 's \<Rightarrow> ('tc \<times> 's) res"
  asm_text :: "'tc \<Rightarrow> string"
  fuzz_round :: "nat \<Rightarrow> 'tc \<Rightarrow> 'inp list \<Rightarrow> nat list \<Rightarrow> 's \<Rightarrow> (('inp, 'tc) Violation option \<times> 's) res"
  minimizer_retries :: nat
  conf_inputs_per_class :: nat
  inst_size :: "string \<Rightarrow> nat res"

definition comment_symbol :: "isa \<Rightarrow> string" where
  "comment_symbol i = (case i of X86_64 \<Rightarrow> ''#'' | ARM64 \<Rightarrow> ''//'')"

definition base_register :: "isa \<Rightarrow> string" where
  "base_register i = (case i of X86_64 \<Rightarrow> ''r14'' | ARM64 \<Rightarrow> ''x20'')"

definition get_test_case_from_instructions ::
  "('s, 'inp, 'tc) min_env \<Rightarrow> string list \<Rightarrow> 's \<Rightarrow> ('tc \<times> 's) res" where
  "get_test_case_from_instructions E instructions s = parse_file E (concat instructions) s"

fun check_rounds ::
  "('s, 'inp, 'tc) min_env \<Rightarrow> nat \<Rightarrow> 'tc \<Rightarrow> 'inp list \<Rightarrow> nat list \<Rightarrow> 's \<Rightarrow> (bool \<times> 's) res" where
  "check_rounds E 0 tc inputs ignore_list s = ok (False, s)"
| "check_rounds E (Suc n) tc inputs ignore_list s =
     rbind (fuzz_round E (conf_inputs_per_class E) tc inputs ignore_list s) (\<lambda>(v, s').
       if v \<noteq> None then ok (True, s') else check_rounds E n tc inputs ignore_list s')"

definition check_for_violation ::
  "('s, 'inp, 'tc) min_env \<Rightarrow> 'tc \<Rightarrow> 'inp list \<Rightarrow> nat list \<Rightarrow> 's \<Rightarrow> (bool \<times> 's) res" where
  "check_for_violation E tc inputs ignore_list s = check_rounds E (minimizer_retries E) tc inputs ignore_list s"

section \<open>Modifications\<close>

datatype pass_class =
    InstructionRemovalPass | InstructionSimplificationPass | ConstantSimplificationPass | MaskSimplificationPass
  | NopReplacementPass | FenceInsertionPass

definition instruction_replacements :: "(string, string \<Rightarrow> string) dict" where
  "instruction_replacements =
     map (\<lambda>k. (k, \<lambda>_. ''mov''))
       [''cmova'', ''cmovae'', ''cmovb'', ''cmovbe'', ''cmovc'', ''cmove'', ''cmovg'', ''cmovge'', ''cmovl'', ''cmovle'',
        ''cmovna'', ''cmovnae'', ''cmovnb'', ''cmovnbe'', ''cmovnc'', ''cmovne'', ''cmovng'', ''cmovnge'', ''cmovnl'',
        ''cmovnle'', ''cmovno'', ''cmovnp'', ''cmovns'', ''cmovnz'', ''cmovo'', ''cmovp'', ''cmovs'', ''cmovz'', ''xchg'']
     @ [(''cmpxchg'', \<lambda>_. ''xchg''), (''rep'', \<lambda>_. ''''), (''lock'', \<lambda>_. ''''), (''add'', \<lambda>_. ''mov'')]
     @ map (\<lambda>k. (k, \<lambda>_. ''add''))
       [''sub'', ''or'', ''xor'', ''and'', ''cmp'', ''bsr'', ''bsf'', ''bt'', ''bts'', ''btr'', ''btc'', ''bzhi'', ''bextr'',
        ''blsi'', ''blsmsk'', ''xadd'', ''test'', ''adc'']
     @ [(''sbb'', \<lambda>_. ''sub''), (''mul'', \<lambda>_. ''inc''), (''div'', \<lambda>_. ''inc''), (''setb'', \<lambda>_. ''inc''),
        (''not'', \<lambda>_. ''inc''), (''idiv'', \<lambda>_. ''div''),
        (''imul'', \<lambda>line. if length (split_on (\<lambda>c. c = CHR '','') line) = 2 then ''add'' else ''imul'')]"

definition mask_replacements :: "(string, string) dict" where
  "mask_replacements =
     [(''0b1111111111111'', ''0b1111111111110''), (''0b1111111111110'', ''0b1111111111100''),
      (''0b1111111111100'', ''0b1111111111000''), (''0b1111111111000'', ''0b1111111110000''),
      (''0b1111111110000'', ''0b1111111100000''), (''0b1111111100000'', ''0b1111111000000''),
      (''0b1111111000000'', ''0b1111110000000''), (''0b1111110000000'', ''0b1111100000000''),
      (''0b1111100000000'', ''0b1111000000000''), (''0b1111000000000'', ''0b1110000000000''),
      (''0b1110000000000'', ''0b1100000000000''), (''0b1100000000000'', ''0b1000000000000''),
      (''0b1000000000000'', ''0b0000000000000'')]"

definition nop_replacements :: "isa \<Rightarrow> (nat, string) dict" where
  "nop_replacements i =
     (case i of
        X86_64 \<Rightarrow>
          [(1, ''nop  # 1 B''), (2, ''.byte 0x66, 0x90  # 2 B''), (3, ''nop dword ptr [rax]  # 3 B''),
           (4, ''nop qword ptr [rax]  # 4 B''), (5, ''nop qword ptr [rax + 1]  # 5 B''),
           (6, ''nop qword ptr [rax + rax + 1]  # 6 B''), (7, ''nop dword ptr [rax + 0xff]  # 7 B''),
           (8, ''nop qword ptr [rax + 0xff]  # 8 B''), (9, ''nop qword ptr [rax + rax + 0xff]  # 9 B'')]
      | ARM64 \<Rightarrow> [(4, ''nop'')])"

text \<open>Jumps and loops, which two of the passes leave alone.\<close>

definition is_jump_or_loop :: "isa \<Rightarrow> string \<Rightarrow> bool" where
  "is_jump_or_loop i line =
     (case i of
        X86_64 \<Rightarrow> match_word ''j'' line \<or> match_word ''loop'' line
      | ARM64 \<Rightarrow> match_word ''b.'' line \<or> match_word ''bl'' line \<or> list_ex (starts_with line) [''cbz '', ''cbnz '', ''tbnz '', ''tbz ''])"

definition fence_line :: "isa \<Rightarrow> string" where
  "fence_line i = (case i of X86_64 \<Rightarrow> ''lfence'' | ARM64 \<Rightarrow> ''dsb sy'' @ [CHR 0x0A] @ '' isb'') @ [CHR 0x0A]"

definition comma_words :: "string \<Rightarrow> string list" where
  "comma_words line = split_on (\<lambda>c. c = CHR '','') line"

text \<open>The first word that \<open>repl\<close> replaces; \<open>stop\<close> ends the search.\<close>

fun replace_word :: "(string \<Rightarrow> bool) \<Rightarrow> (string \<Rightarrow> string option) \<Rightarrow> string list \<Rightarrow> string list option" where
  "replace_word stop repl [] = None"
| "replace_word stop repl (w # ws) =
     (if stop (strip w) then None
      else (case repl (strip w) of Some r \<Rightarrow> Some (r # ws) | None \<Rightarrow> map_option ((#) w) (replace_word stop repl ws)))"

definition simplify_line :: "string \<Rightarrow> string option" where
  "simplify_line line =
     (let clean_line = lower (strip line); words = split_on (\<lambda>c. c = CHR '' '') clean_line
      in map_option (\<lambda>f. join '' '' (f clean_line # tl words) @ [CHR 0x0A]) (map_of instruction_replacements (hd words)))"

definition constant_replacement :: "isa \<Rightarrow> string" where
  "constant_replacement i = (case i of X86_64 \<Rightarrow> ''0'' | ARM64 \<Rightarrow> ''#1'')"

definition is_constant :: "isa \<Rightarrow> string \<Rightarrow> bool" where
  "is_constant i word =
     (case i of X86_64 \<Rightarrow> match_constant word | ARM64 \<Rightarrow> starts_with word ''#'' \<and> match_constant (tl word))"

definition constant_line :: "isa \<Rightarrow> string \<Rightarrow> string option" where
  "constant_line i line =
     map_option (\<lambda>ws. join '', '' ws @ [CHR 0x0A])
       (replace_word (\<lambda>w. w = constant_replacement i) (\<lambda>w. if is_constant i w then Some (constant_replacement i) else None)
         (comma_words (lower (strip line))))"

definition mask_line :: "isa \<Rightarrow> string \<Rightarrow> string option" where
  "mask_line i line =
     (let comment_split = split_str (comment_symbol i) line;
          clean_line = lower (strip (hd comment_split));
          comment = (if length comment_split > 1 then join (comment_symbol i) (tl comment_split) else [])
      in map_option (\<lambda>ws. join '', '' ws @ '' '' @ comment_symbol i @ comment)
           (replace_word (\<lambda>_. False) (map_of mask_replacements) (comma_words clean_line)))"

definition nop_line :: "('s, 'inp, 'tc) min_env \<Rightarrow> string \<Rightarrow> string option res" where
  "nop_line E org =
     (let line = lower (strip org)
      in if contains line ''nop'' then ok None
         else if is_jump_or_loop (isa_of E) line then ok None
         else rbind (inst_size E line) (\<lambda>sz. ok (map_option (\<lambda>r. r @ [CHR 0x0A]) (map_of (nop_replacements (isa_of E)) sz))))"

text \<open>The empty list says that the instruction is not modified.\<close>

definition replaced :: "string list \<Rightarrow> nat \<Rightarrow> string option \<Rightarrow> string list" where
  "replaced instructions cursor l = (case l of None \<Rightarrow> [] | Some line \<Rightarrow> instructions[cursor := line])"

definition modify_instruction ::
  "('s, 'inp, 'tc) min_env \<Rightarrow> pass_class \<Rightarrow> string list \<Rightarrow> nat \<Rightarrow> string list res" where
  "modify_instruction E K instructions cursor =
     rbind (py_nth instructions (int cursor)) (\<lambda>line.
       case K of
         InstructionRemovalPass \<Rightarrow> ok (take cursor instructions @ drop (cursor + 1) instructions)
       | InstructionSimplificationPass \<Rightarrow> ok (replaced instructions cursor (simplify_line line))
       | ConstantSimplificationPass \<Rightarrow> ok (replaced instructions cursor (constant_line (isa_of E) line))
       | MaskSimplificationPass \<Rightarrow> ok (replaced instructions cursor (mask_line (isa_of E) line))
       | NopReplacementPass \<Rightarrow> rbind (nop_line E line) (\<lambda>l. ok (replaced instructions cursor l))
       | FenceInsertionPass \<Rightarrow>
           ok (if is_jump_or_loop (isa_of E) (lower line) then []
               else take cursor instructions @ [fence_line (isa_of E)] @ drop cursor instructions))"

section \<open>The minimisation loop\<close>

definition line_is_skipped :: "isa \<Rightarrow> bool \<Rightarrow> string \<Rightarrow> bool" where
  "line_is_skipped i skip_instrumentation_lines line \<longleftrightarrow>
     line = [] \<or> [hd line] = comment_symbol i \<or> contains line ''lfence'' \<or> hd line = CHR ''.'' \<or>
     contains line ''noremove'' \<or> (skip_instrumentation_lines \<and> contains line ''instrumentation'') \<or>
     (contains line (base_register i) \<and> \<not> contains line ''['')"

text \<open>The first argument after the inputs is one more than the cursor; the loop ends at line 0.\<close>

fun loop_from ::
  "('s, 'inp, 'tc) min_env \<Rightarrow> pass_class \<Rightarrow> bool \<Rightarrow> nat list \<Rightarrow> 'inp list \<Rightarrow> nat \<Rightarrow> string list \<Rightarrow> nat list \<Rightarrow> 's \<Rightarrow>
   ((nat list \<times> string list) \<times> 's) res" where
  "loop_from E K skip ignore_list inputs 0 instructions ids s = raise IndexError"
| "loop_from E K skip ignore_list inputs (Suc cursor) instructions ids s =
     rbind (py_nth instructions (int cursor)) (\<lambda>l.
       if cursor = 0 then ok ((ids, instructions), s)
       else if line_is_skipped (isa_of E) skip (lower (strip l))
       then loop_from E K skip ignore_list inputs cursor instructions ids s
       else rbind (modify_instruction E K instructions cursor) (\<lambda>modified.
         if modified = [] then loop_from E K skip ignore_list inputs cursor instructions ids s
         else rbind (get_test_case_from_instructions E modified s) (\<lambda>(tmp, s1).
              rbind (check_for_violation E tmp inputs ignore_list s1) (\<lambda>(check_passed, s2).
                if check_passed then loop_from E K skip ignore_list inputs cursor modified (ids @ [cursor]) s2
                else loop_from E K skip ignore_list inputs cursor instructions ids s2))))"

definition minimization_loop ::
  "('s, 'inp, 'tc) min_env \<Rightarrow> pass_class \<Rightarrow> bool \<Rightarrow> nat list \<Rightarrow> 'tc \<Rightarrow> 'inp list \<Rightarrow> 's \<Rightarrow> (nat list \<times> 's) res" where
  "minimization_loop E K skip ignore_list tc inputs s =
     (let instructions = readlines (asm_text E tc)
      in rbind (loop_from E K skip ignore_list inputs (length instructions) instructions [] s) (\<lambda>((ids, _), s'). ok (ids, s')))"

section \<open>The passes\<close>

definition clear_tag :: "string \<Rightarrow> string" where
  "clear_tag line = (if contains (lower line) ''instrumentation'' then remove_all ''instrumentation'' line else line)"

text \<open>The lines kept so far are in reverse order, so that the previous one comes first.\<close>

fun keep_lines :: "nat list \<Rightarrow> string list \<Rightarrow> (nat \<times> string) list \<Rightarrow> string list res" where
  "keep_lines ids acc [] = ok (rev acc)"
| "keep_lines ids acc ((i, line) # rest) =
     (if i \<in> set ids
      then (case acc of [] \<Rightarrow> raise IndexError | p # ps \<Rightarrow> keep_lines ids (clear_tag p # ps) rest)
      else keep_lines ids (line # acc) rest)"

fun nop_lines :: "('s, 'inp, 'tc) min_env \<Rightarrow> nat list \<Rightarrow> string list \<Rightarrow> (nat \<times> string) list \<Rightarrow> string list res" where
  "nop_lines E ids acc [] = ok (rev acc)"
| "nop_lines E ids acc ((i, line) # rest) =
     (if i \<notin> set ids then nop_lines E ids (line # acc) rest
      else rbind (modify_instruction E NopReplacementPass [line] 0) (\<lambda>replacement.
        case replacement of
          [] \<Rightarrow> nop_lines E ids (line # acc) rest
        | r # _ \<Rightarrow> (case acc of [] \<Rightarrow> raise IndexError | p # ps \<Rightarrow> nop_lines E ids (r # clear_tag p # ps) rest)))"

text \<open>Apply the modification again at each of the accepted positions.\<close>

fun replay :: "('s, 'inp, 'tc) min_env \<Rightarrow> pass_class \<Rightarrow> string list \<Rightarrow> nat list \<Rightarrow> string list res" where
  "replay E K instructions [] = ok instructions"
| "replay E K instructions (i # ids) = rbind (modify_instruction E K instructions i) (\<lambda>ins. replay E K ins ids)"

fun insert_fences :: "isa \<Rightarrow> string list \<Rightarrow> nat list \<Rightarrow> string list" where
  "insert_fences I instructions [] = instructions"
| "insert_fences I instructions (i # ids) = insert_fences I (take i instructions @ [fence_line I] @ drop i instructions) ids"

definition final_lines ::
  "('s, 'inp, 'tc) min_env \<Rightarrow> pass_class \<Rightarrow> string list \<Rightarrow> nat list \<Rightarrow> string list res" where
  "final_lines E K lines ids =
     (case K of
        InstructionRemovalPass \<Rightarrow> keep_lines ids [] (enumerate 0 lines)
      | NopReplacementPass \<Rightarrow> nop_lines E ids [] (enumerate 0 lines)
      | FenceInsertionPass \<Rightarrow> ok (insert_fences (isa_of E) lines ids)
      | _ \<Rightarrow> replay E K lines ids)"

definition pass_run ::
  "('s, 'inp, 'tc) min_env \<Rightarrow> pass_class \<Rightarrow> nat list \<Rightarrow> 'tc \<Rightarrow> 'inp list \<Rightarrow> 's \<Rightarrow> ('tc \<times> 's) res" where
  "pass_run E K ignore_list tc inputs s =
     (if K = InstructionSimplificationPass \<and> isa_of E = ARM64 then ok (tc, s)
      else rbind (minimization_loop E K (K \<noteq> MaskSimplificationPass) ignore_list tc inputs s) (\<lambda>(ids, s1).
           rbind (final_lines E K (readlines (asm_text E tc)) ids) (\<lambda>lines.
             get_test_case_from_instructions E lines s1)))"

section \<open>Labels\<close>

definition reserved_labels :: "string list" where
  "reserved_labels = [''.intel_syntax noprefix'', ''.test_case_exit:'', ''.section'', ''.function'', ''.macro'', ''syntax'']"

definition label_is_unused :: "string list \<Rightarrow> nat \<Rightarrow> bool" where
  "label_is_unused instructions i =
     (let line = lower (strip (instructions ! i)); label = remove_all '':'' (strip (instructions ! i))
      in starts_with line ''.'' \<and> \<not> list_ex (contains line) reserved_labels \<and>
         \<not> list_ex (\<lambda>inst. contains inst label \<and> inst \<noteq> instructions ! i) instructions)"

definition remove_labels :: "string list \<Rightarrow> string list" where
  "remove_labels instructions =
     foldl (\<lambda>ins i. if label_is_unused ins i then ins[i := []] else ins) instructions [0..<length instructions]"

definition label_pass_run :: "('s, 'inp, 'tc) min_env \<Rightarrow> 'tc \<Rightarrow> 's \<Rightarrow> ('tc \<times> 's) res" where
  "label_pass_run E tc s = get_test_case_from_instructions E (remove_labels (readlines (asm_text E tc))) s"

section \<open>What the loop accepts\<close>

text \<open>The code was parsed and the check of the violation passed.\<close>

definition verified :: "('s, 'inp, 'tc) min_env \<Rightarrow> nat list \<Rightarrow> 'inp list \<Rightarrow> string list \<Rightarrow> bool" where
  "verified E ignore_list inputs ins \<longleftrightarrow>
     (\<exists>s tc s1 s2. get_test_case_from_instructions E ins s = Inr (tc, s1) \<and>
        check_for_violation E tc inputs ignore_list s1 = Inr (True, s2))"

text \<open>Modifications at a list of positions, each of which succeeded.\<close>

fun steps :: "('s, 'inp, 'tc) min_env \<Rightarrow> pass_class \<Rightarrow> string list \<Rightarrow> nat list \<Rightarrow> string list \<Rightarrow> bool" where
  "steps E K ins [] ins' \<longleftrightarrow> ins' = ins"
| "steps E K ins (i # ids) ins' \<longleftrightarrow> (\<exists>m. modify_instruction E K ins i = Inr m \<and> m \<noteq> [] \<and> steps E K m ids ins')"

text \<open>Positions in the order of the loop: positive, strictly decreasing and below a bound.\<close>

fun descending :: "nat \<Rightarrow> nat list \<Rightarrow> bool" where
  "descending n [] \<longleftrightarrow> True"
| "descending n (i # ids) \<longleftrightarrow> 0 < i \<and> i < n \<and> descending i ids"

lemma descending_mono: "descending m ids \<Longrightarrow> m \<le> n \<Longrightarrow> descending n ids"
  by (cases ids) auto

lemma descending_less: "descending n ids \<Longrightarrow> i \<in> set ids \<Longrightarrow> 0 < i \<and> i < n"
  by (induction ids arbitrary: n) force+

lemma loop_from_result:
  assumes "loop_from E K skip ign inputs n ins ids s = Inr ((ids', ins'), s')"
  shows "\<exists>new. ids' = ids @ new \<and> descending n new \<and> steps E K ins new ins' \<and>
     (new = [] \<or> verified E ign inputs ins')"
  using assms
proof (induction n arbitrary: ins ids s)
  case (Suc c)
  from Suc.prems obtain l where l: "py_nth ins (int c) = Inr l" by (auto simp: rbind_eq_Inr_iff)
  show ?case
  proof (cases "c = 0 \<or> loop_from E K skip ign inputs c ins ids s = Inr ((ids', ins'), s')")
    case True
    then show ?thesis
    proof
      assume "c = 0"
      then show ?thesis using Suc.prems l by auto
    next
      assume "loop_from E K skip ign inputs c ins ids s = Inr ((ids', ins'), s')"
      then obtain new where "ids' = ids @ new" "descending c new" "steps E K ins new ins'" "new = [] \<or> verified E ign inputs ins'"
        using Suc.IH by blast
      then show ?thesis using descending_mono by (intro exI [of _ new]) auto
    qed
  next
    case False
    with Suc.prems l obtain m where m: "modify_instruction E K ins c = Inr m"
      by (auto simp: rbind_eq_Inr_iff split: if_splits)
    with False Suc.prems l have "m \<noteq> []" by (auto split: if_splits)
    with False Suc.prems l m obtain tmp s1 b s2 where t: "get_test_case_from_instructions E m s = Inr (tmp, s1)"
      "check_for_violation E tmp inputs ign s1 = Inr (b, s2)"
      and r: "(if b then loop_from E K skip ign inputs c m (ids @ [c]) s2 else loop_from E K skip ign inputs c ins ids s2) =
        Inr ((ids', ins'), s')"
      by (auto simp: rbind_eq_Inr_iff split: if_splits)
    show ?thesis
    proof (cases b)
      case True
      with r have "loop_from E K skip ign inputs c m (ids @ [c]) s2 = Inr ((ids', ins'), s')" by simp
      from Suc.IH [OF this] obtain new where new: "ids' = (ids @ [c]) @ new" "descending c new" "steps E K m new ins'"
        "new = [] \<or> verified E ign inputs ins'" by blast
      have "verified E ign inputs m" using t True by (auto simp: verified_def)
      then show ?thesis
        using new False m \<open>m \<noteq> []\<close> by (intro exI [of _ "c # new"]) auto
    next
      case b: False
      with r have "loop_from E K skip ign inputs c ins ids s2 = Inr ((ids', ins'), s')" by simp
      from Suc.IH [OF this] obtain new where "ids' = ids @ new" "descending c new" "steps E K ins new ins'"
        "new = [] \<or> verified E ign inputs ins'" by blast
      then show ?thesis using descending_mono by (intro exI [of _ new]) auto
    qed
  qed
qed simp

lemma replay_steps: "steps E K ins ids ins' \<Longrightarrow> replay E K ins ids = Inr ins'"
  by (induction ids arbitrary: ins) auto

lemma insert_fences_steps: "steps E FenceInsertionPass ins ids ins' \<Longrightarrow> insert_fences (isa_of E) ins ids = ins'"
proof (induction ids arbitrary: ins)
  case (Cons i ids)
  then obtain m where "modify_instruction E FenceInsertionPass ins i = Inr m" "m \<noteq> []" "steps E FenceInsertionPass m ids ins'"
    by auto
  then show ?case
    using Cons.IH by (auto simp: modify_instruction_def rbind_eq_Inr_iff split: if_splits)
qed simp

text \<open>Removed lines.\<close>

lemma nths_cong: "(\<And>j. j < length xs \<Longrightarrow> j \<in> A \<longleftrightarrow> j \<in> B) \<Longrightarrow> nths xs A = nths xs B"
  unfolding nths_def by (rule arg_cong [where f = "map fst"], rule filter_cong) (auto simp: set_zip)

lemma removal_steps:
  assumes "steps E InstructionRemovalPass ins ids ins'" and "descending k ids" and "k \<le> length ins"
  shows "ins' = nths (take k ins) (- set ids) @ drop k ins"
  using assms
proof (induction ids arbitrary: ins k)
  case (Cons i ids)
  let ?m = "take i ins @ drop (Suc i) ins"
  have i: "i < k" "descending i ids" using Cons.prems(2) by auto
  have st: "steps E InstructionRemovalPass ?m ids ins'"
    using Cons.prems(1) by (auto simp: modify_instruction_def rbind_eq_Inr_iff)
  have "i \<le> length ?m" using i Cons.prems(3) by simp
  from Cons.IH [OF st i(2) this] have ins': "ins' = nths (take i ins) (- set ids) @ drop (Suc i) ins"
    using i Cons.prems(3) by simp
  have below: "j < i" if "j \<in> set ids" for j using descending_less [OF i(2) that] by simp
  have split: "take k ins = take i ins @ ins ! i # take (k - Suc i) (drop (Suc i) ins)"
  proof -
    have "take k ins = take i ins @ take (k - i) (drop i ins)" using i by (metis less_imp_le_nat take_add le_add_diff_inverse)
    then show ?thesis
      using i Cons.prems(3) by (simp add: Cons_nth_drop_Suc [symmetric] take_Cons' Suc_diff_Suc)
  qed
  have "{j. Suc j + i \<notin> set (i # ids)} = UNIV"
    using below by force
  then have "nths (ins ! i # take (k - Suc i) (drop (Suc i) ins)) {j. j + i \<in> - set (i # ids)} = take (k - Suc i) (drop (Suc i) ins)"
    by (simp add: nths_Cons nths_all)
  moreover have "nths (take i ins) (- set (i # ids)) = nths (take i ins) (- set ids)"
    by (rule nths_cong) (use i Cons.prems(3) in \<open>auto\<close>)
  ultimately have "nths (take k ins) (- set (i # ids)) = nths (take i ins) (- set ids) @ take (k - Suc i) (drop (Suc i) ins)"
    unfolding split nths_append using i Cons.prems(3) by simp
  moreover have "take (k - Suc i) (drop (Suc i) ins) @ drop k ins = drop (Suc i) ins"
    using take_drop_append [of "k - Suc i" "Suc i" ins] i by simp
  ultimately show ?case by (simp add: ins')
qed (simp add: nths_all)

text \<open>Lines equal up to cleared instrumentation tags.\<close>

definition cleared :: "string \<Rightarrow> string \<Rightarrow> bool" where
  "cleared l l' \<longleftrightarrow> (\<exists>n. l' = (clear_tag ^^ n) l)"

lemma cleared_refl [simp]: "cleared l l"
  unfolding cleared_def by (rule exI [of _ 0]) simp

lemma cleared_step: "cleared (clear_tag l) l' \<Longrightarrow> cleared l l'"
  unfolding cleared_def by (metis comp_apply funpow_Suc_right)

lemma cleared_list_refl [simp]: "list_all2 cleared xs xs"
  by (simp add: list_all2_refl)

lemma cleared_prev:
  assumes "list_all2 cleared (rev (clear_tag p # ps) @ xs) r"
  shows "list_all2 cleared (rev (p # ps) @ xs) r"
  using assms by (auto simp: list_all2_append1 list_all2_Cons1 dest!: cleared_step)

lemma nths_shift: "nths (x # xs) {j. n + j \<notin> A} = (if n \<in> A then [] else [x]) @ nths xs {j. Suc n + j \<notin> A}"
  by (simp add: nths_Cons)

lemma keep_lines_result:
  "keep_lines ids acc (enumerate n lines) = Inr r \<Longrightarrow>
   list_all2 cleared (rev acc @ nths lines {j. n + j \<notin> set ids}) r"
proof (induction lines arbitrary: acc n)
  case (Cons line lines)
  show ?case
  proof (cases "n \<in> set ids")
    case True
    with Cons.prems obtain p ps where acc: "acc = p # ps"
      and r: "keep_lines ids (clear_tag p # ps) (enumerate (Suc n) lines) = Inr r"
      by (auto split: list.splits)
    show ?thesis using cleared_prev [OF Cons.IH [OF r]] True by (simp add: acc nths_shift)
  next
    case False
    with Cons show ?thesis by (fastforce simp: nths_shift)
  qed
qed simp

lemma keep_lines_ok:
  "acc \<noteq> [] \<or> n \<notin> set ids \<Longrightarrow> \<exists>r. keep_lines ids acc (enumerate n lines) = Inr r"
proof (induction lines arbitrary: acc n)
  case (Cons line lines)
  show ?case
  proof (cases "n \<in> set ids")
    case True
    with Cons.prems obtain p ps where "acc = p # ps" by (cases acc) auto
    then show ?thesis using True Cons.IH [of "clear_tag p # ps" "Suc n"] by simp
  next
    case False
    then show ?thesis using Cons.IH [of "line # acc" "Suc n"] by simp
  qed
qed simp

text \<open>Lines replaced by instructions without effect.\<close>

lemma nop_modify:
  "i < length ins \<Longrightarrow> modify_instruction E NopReplacementPass ins i = rbind (nop_line E (ins ! i)) (\<lambda>l. ok (replaced ins i l))"
  by (simp add: modify_instruction_def)

lemma nop_steps:
  assumes "steps E NopReplacementPass ins ids ins'" and "descending (length ins) ids"
  shows "length ins' = length ins \<and> (\<forall>i < length ins. if i \<in> set ids then nop_line E (ins ! i) = Inr (Some (ins' ! i)) else ins' ! i = ins ! i)"
  using assms
proof (induction ids arbitrary: ins)
  case (Cons i ids)
  have i: "i < length ins" using Cons.prems(2) by simp
  from Cons.prems(1) obtain m where m: "modify_instruction E NopReplacementPass ins i = Inr m" "m \<noteq> []"
    "steps E NopReplacementPass m ids ins'" by auto
  then obtain l where l: "nop_line E (ins ! i) = Inr (Some l)" "m = ins[i := l]"
    using i by (auto simp: nop_modify rbind_eq_Inr_iff replaced_def split: option.splits)
  have "descending i ids" using Cons.prems(2) by simp
  then have "i \<notin> set ids" "descending (length m) ids"
    using descending_less descending_mono i l(2) by (blast, simp add: descending_mono)
  from Cons.IH [OF m(3) this(2)] show ?case
    using i l \<open>i \<notin> set ids\<close> by (auto simp: nth_list_update split: if_splits)
qed simp

lemma nop_lines_result:
  assumes "\<forall>i < length lines. if n + i \<in> set ids then nop_line E (lines ! i) = Inr (Some (out ! i)) else out ! i = lines ! i"
    and "length out = length lines" and "acc \<noteq> [] \<or> n \<notin> set ids"
  shows "\<exists>r. nop_lines E ids acc (enumerate n lines) = Inr r \<and> list_all2 cleared (rev acc @ out) r"
  using assms
proof (induction lines arbitrary: acc n out)
  case (Cons line lines)
  then obtain o1 os where out: "out = o1 # os" "length os = length lines" by (cases out) auto
  have rest: "\<forall>i < length lines. if Suc n + i \<in> set ids then nop_line E (lines ! i) = Inr (Some (os ! i)) else os ! i = lines ! i"
    using Cons.prems(1) out(1) by fastforce
  show ?case
  proof (cases "n \<in> set ids")
    case False
    with Cons.prems(1) out have "o1 = line" by force
    with False Cons.IH [OF rest out(2), of "line # acc"] show ?thesis by (simp add: out)
  next
    case True
    with Cons.prems(3) obtain p ps where acc: "acc = p # ps" by (cases acc) auto
    have "nop_line E line = Inr (Some o1)" using Cons.prems(1) True out(1) by force
    then have "modify_instruction E NopReplacementPass [line] 0 = Inr [o1]"
      by (simp add: modify_instruction_def py_nth_def py_index_def replaced_def)
    moreover obtain r where "nop_lines E ids (o1 # clear_tag p # ps) (enumerate (Suc n) lines) = Inr r"
      "list_all2 cleared (rev (o1 # clear_tag p # ps) @ os) r"
      using Cons.IH [OF rest out(2), of "o1 # clear_tag p # ps"] by auto
    moreover from this(2) have "list_all2 cleared (rev (o1 # p # ps) @ os) r"
      using cleared_prev [of p ps "o1 # os" r] by simp
    ultimately show ?thesis using True by (simp add: acc out)
  qed
qed simp

text \<open>The final lines of a pass are the lines the loop ended with, up to tags.\<close>

lemma final_lines_steps:
  assumes "steps E K lines ids ins'" and "descending (length lines) ids"
  shows "\<exists>r. final_lines E K lines ids = Inr r \<and> list_all2 cleared ins' r \<and>
     (K \<notin> {InstructionRemovalPass, NopReplacementPass} \<longrightarrow> r = ins')"
proof -
  have zero: "0 \<notin> set ids" using descending_less [OF assms(2)] by blast
  consider (removal) "K = InstructionRemovalPass" | (nop) "K = NopReplacementPass"
    | (fence) "K = FenceInsertionPass" | (other) "K \<notin> {InstructionRemovalPass, NopReplacementPass, FenceInsertionPass}" by blast
  then show ?thesis
  proof cases
    case removal
    obtain r where r: "keep_lines ids [] (enumerate 0 lines) = Inr r" using keep_lines_ok [of "[]" 0 ids] zero by blast
    have "ins' = nths lines (- set ids)" using removal_steps [OF _ assms(2) order_refl] assms(1) removal by fastforce
    then show ?thesis
      using removal r keep_lines_result [OF r] by (simp add: final_lines_def Compl_eq)
  next
    case nop
    have "\<exists>r. nop_lines E ids [] (enumerate 0 lines) = Inr r \<and> list_all2 cleared (rev [] @ ins') r"
      by (rule nop_lines_result) (use nop_steps [of E lines ids ins'] assms nop zero in auto)
    then show ?thesis using nop by (simp add: final_lines_def)
  next
    case fence
    then show ?thesis using insert_fences_steps [of E lines ids ins'] assms(1) by (auto simp: final_lines_def)
  next
    case other
    then show ?thesis using replay_steps [OF assms(1)] by (cases K) (simp_all add: final_lines_def)
  qed
qed

lemma keep_lines_Nil: "keep_lines [] acc (enumerate n lines) = Inr (rev acc @ lines)"
  by (induction lines arbitrary: acc n) simp_all

lemma nop_lines_Nil: "nop_lines E [] acc (enumerate n lines) = Inr (rev acc @ lines)"
  by (induction lines arbitrary: acc n) simp_all

lemma final_lines_Nil: "final_lines E K lines [] = Inr lines"
  by (cases K) (simp_all add: final_lines_def keep_lines_Nil nop_lines_Nil)

lemma concat_readlines [simp]: "concat (readlines s) = s"
  by (induction s) (auto split: list.splits)

lemma pass_run_cases:
  assumes "pass_run E K ignore_list tc inputs s = Inr (tc', s')"
  shows "tc' = tc \<or> (\<exists>s1. parse_file E (asm_text E tc) s1 = Inr (tc', s')) \<or>
     (\<exists>ins lines s1. verified E ignore_list inputs ins \<and> list_all2 cleared ins lines \<and>
        (K \<notin> {InstructionRemovalPass, NopReplacementPass} \<longrightarrow> lines = ins) \<and> parse_file E (concat lines) s1 = Inr (tc', s'))"
proof (cases "K = InstructionSimplificationPass \<and> isa_of E = ARM64")
  case False
  let ?ls = "readlines (asm_text E tc)"
  from assms False obtain ids s1 lines where l: "minimization_loop E K (K \<noteq> MaskSimplificationPass) ignore_list tc inputs s = Inr (ids, s1)"
    and f: "final_lines E K ?ls ids = Inr lines" and p: "parse_file E (concat lines) s1 = Inr (tc', s')"
    by (auto simp: pass_run_def rbind_eq_Inr_iff get_test_case_from_instructions_def)
  from l obtain ins' where "loop_from E K (K \<noteq> MaskSimplificationPass) ignore_list inputs (length ?ls) ?ls [] s = Inr ((ids, ins'), s1)"
    by (auto simp: minimization_loop_def Let_def rbind_eq_Inr_iff)
  from loop_from_result [OF this] have d: "descending (length ?ls) ids" and st: "steps E K ?ls ids ins'"
    and v: "ids = [] \<or> verified E ignore_list inputs ins'" by auto
  from v show ?thesis
  proof
    assume "ids = []"
    then show ?thesis using f p by (auto simp: final_lines_Nil)
  next
    assume "verified E ignore_list inputs ins'"
    then show ?thesis using final_lines_steps [OF st d] f p by auto
  qed
qed (use assms in \<open>auto simp: pass_run_def\<close>)

text \<open>
  A small environment: a test case is its text, every round finds a violation as long as a move is
  left, and every instruction is two bytes long.
\<close>

definition move_env :: "(nat, nat, string) min_env" where
  "move_env =
     \<lparr>isa_of = X86_64, parse_file = (\<lambda>code s. ok (code, s)), asm_text = (\<lambda>tc. tc),
      fuzz_round = (\<lambda>n tc inputs ignore_list s. ok
        (if contains tc ''mov''
         then Some \<lparr>viol_class = \<lparr>eq_ctrace = CTrace_empty plain_hashing, eq_measurements = [], eq_hw_classes = None\<rparr>,
                    input_sequence = inputs, viol_test_case_code = tc\<rparr>
         else None, Suc s)),
      minimizer_retries = 1, conf_inputs_per_class = 1, inst_size = (\<lambda>line. ok 2)\<rparr>"

definition move_code :: string where
  "move_code = ''nop'' @ [CHR 0x0A] @ ''add rax, 1'' @ [CHR 0x0A] @ ''mov rax, 1'' @ [CHR 0x0A]"

text \<open>
  A minimisation pass keeps the violation. The test case it returns is the one it was given, or has
  the same text, or its text is a code for which the check of the violation passed; only removals and
  replacements by no-ops may clear instrumentation tags in comments on top of that.
\<close>
theorem pass_keeps_violation:
  assumes "pass_run E K ignore_list tc inputs s = Inr (tc', s')"
  shows "tc' = tc \<or> (\<exists>s1. parse_file E (asm_text E tc) s1 = Inr (tc', s')) \<or>
     (\<exists>ins lines s1. verified E ignore_list inputs ins \<and> list_all2 cleared ins lines \<and>
        (K \<notin> {InstructionRemovalPass, NopReplacementPass} \<longrightarrow> lines = ins) \<and> parse_file E (concat lines) s1 = Inr (tc', s'))"
  using assms by (rule pass_run_cases)

theorem pass_keeps_violation_witness:
  "pass_run move_env InstructionRemovalPass [] move_code [] 0 = Inr (''nop'' @ [CHR 0x0A] @ ''mov rax, 1'' @ [CHR 0x0A], 2) \<and>
   (\<exists>ins lines s1. verified move_env [] [] ins \<and> list_all2 cleared ins lines \<and>
     parse_file move_env (concat lines) s1 = Inr (''nop'' @ [CHR 0x0A] @ ''mov rax, 1'' @ [CHR 0x0A], 2))"
proof -
  have run: "pass_run move_env InstructionRemovalPass [] move_code [] 0 =
    Inr (''nop'' @ [CHR 0x0A] @ ''mov rax, 1'' @ [CHR 0x0A], 2)" by code_simp
  have "''nop'' @ [CHR 0x0A] @ ''mov rax, 1'' @ [CHR 0x0A] \<noteq> move_code" by code_simp
  then have "\<not> (\<exists>s1. parse_file move_env (asm_text move_env move_code) s1 = Inr (''nop'' @ [CHR 0x0A] @ ''mov rax, 1'' @ [CHR 0x0A], 2))"
    by (simp add: move_env_def)
  with run pass_keeps_violation [OF run] \<open>_ \<noteq> move_code\<close> show ?thesis by blast
qed

section \<open>A pass always returns\<close>

text \<open>The services behind the pass do not raise.\<close>

definition responsive :: "('s, 'inp, 'tc) min_env \<Rightarrow> bool" where
  "responsive E \<longleftrightarrow>
     (\<forall>txt s. \<exists>r. parse_file E txt s = Inr r) \<and> (\<forall>n tc inputs ign s. \<exists>r. fuzz_round E n tc inputs ign s = Inr r) \<and>
     (\<forall>line. \<exists>n. inst_size E line = Inr n)"

lemma check_rounds_ok: "responsive E \<Longrightarrow> \<exists>b s'. check_rounds E n tc inputs ign s = Inr (b, s')"
proof (induction n arbitrary: s)
  case (Suc n)
  obtain v s1 where "fuzz_round E (conf_inputs_per_class E) tc inputs ign s = Inr (v, s1)"
    using Suc.prems by (force simp: responsive_def)
  then show ?case using Suc.IH [OF Suc.prems, of s1] by auto
qed (simp, blast)

lemma modify_instruction_ok:
  assumes "responsive E" and "c < length ins"
  shows "\<exists>m. modify_instruction E K ins c = Inr m \<and> (m = [] \<or> length ins \<le> Suc (length m))"
proof -
  obtain n where "inst_size E (lower (strip (ins ! c))) = Inr n" using assms(1) unfolding responsive_def by blast
  then have "\<exists>l. nop_line E (ins ! c) = Inr l" by (simp add: nop_line_def Let_def)
  then show ?thesis
    using assms(2) by (cases K) (auto simp: modify_instruction_def replaced_def split: option.splits)
qed

lemma loop_from_ok:
  assumes "responsive E" and "0 < n" and "n \<le> length ins"
  shows "\<exists>r. loop_from E K skip ign inputs n ins ids s = Inr r"
  using assms(2,3)
proof (induction n arbitrary: ins ids s)
  case (Suc c)
  show ?case
  proof (cases "c = 0")
    case False
    have c: "c < length ins" using Suc.prems by simp
    have IH: "c \<le> length ins' \<Longrightarrow> \<exists>r. loop_from E K skip ign inputs c ins' ids' s' = Inr r" for ins' ids' s'
      using Suc.IH False by simp
    obtain m where m: "modify_instruction E K ins c = Inr m" "m = [] \<or> length ins \<le> Suc (length m)"
      using modify_instruction_ok [OF assms(1) c] by blast
    obtain tmp s1 where t: "get_test_case_from_instructions E m s = Inr (tmp, s1)"
      using assms(1) by (force simp: responsive_def get_test_case_from_instructions_def)
    obtain b s2 where b: "check_for_violation E tmp inputs ign s1 = Inr (b, s2)"
      using check_rounds_ok [OF assms(1)] by (force simp: check_for_violation_def)
    have "m \<noteq> [] \<Longrightarrow> c \<le> length m" using m(2) c by linarith
    then show ?thesis using c False m(1) t b IH [of m] IH [of ins] by (cases "m = []") simp_all
  next
    case True
    then show ?thesis using Suc.prems py_nth_nat [of 0 ins] by (simp add: Suc_le_eq)
  qed
qed simp

lemma readlines_Nil [simp]: "readlines s = [] \<longleftrightarrow> s = []"
  by (cases s) (auto split: list.splits)

text \<open>
  A minimisation pass over a non-empty file always returns, if the parser, the fuzzer and the
  assembler return: the loop over the lines ends, and none of the accesses to lines is out of range.
\<close>
theorem pass_run_returns:
  assumes "responsive E" and "asm_text E tc \<noteq> []"
  shows "\<exists>tc' s'. pass_run E K ignore_list tc inputs s = Inr (tc', s')"
proof (cases "K = InstructionSimplificationPass \<and> isa_of E = ARM64")
  case False
  let ?ls = "readlines (asm_text E tc)"
  obtain ids ins' s1 where l: "loop_from E K (K \<noteq> MaskSimplificationPass) ignore_list inputs (length ?ls) ?ls [] s = Inr ((ids, ins'), s1)"
    using loop_from_ok [OF assms(1), of "length ?ls" ?ls K "K \<noteq> MaskSimplificationPass" ignore_list inputs "[]" s] assms(2)
    by (metis length_greater_0_conv order_refl prod.exhaust readlines_Nil)
  from loop_from_result [OF this] have "descending (length ?ls) ids" "steps E K ?ls ids ins'" by auto
  with final_lines_steps obtain r where "final_lines E K ?ls ids = Inr r" by blast
  moreover obtain tc' s' where "parse_file E (concat r) s1 = Inr (tc', s')"
    using assms(1) unfolding responsive_def by (metis surj_pair)
  ultimately show ?thesis
    using False l by (simp add: pass_run_def minimization_loop_def get_test_case_from_instructions_def)
qed (simp add: pass_run_def)

theorem pass_run_returns_witness:
  "(\<exists>tc' s'. pass_run move_env ConstantSimplificationPass [] move_code [] 0 = Inr (tc', s')) \<and> responsive move_env \<and>
   asm_text move_env move_code \<noteq> []"
proof -
  have "responsive move_env" "asm_text move_env move_code \<noteq> []" by (simp_all add: responsive_def move_env_def move_code_def)
  with pass_run_returns [OF this] show ?thesis by blast
qed

section \<open>Masks\<close>

definition is_line :: "string \<Rightarrow> bool" where
  "is_line l \<longleftrightarrow> (\<exists>b. CHR 0x0A \<notin> set b \<and> l = b @ [CHR 0x0A])"

lemma readlines_line: "CHR 0x0A \<notin> set b \<Longrightarrow> readlines (b @ CHR 0x0A # rest) = (b @ [CHR 0x0A]) # readlines rest"
  by (induction b) auto

lemma readlines_rest: "CHR 0x0A \<notin> set b \<Longrightarrow> b \<noteq> [] \<Longrightarrow> readlines b = [b]"
proof (induction b)
  case (Cons c b)
  then show ?case by (cases b) auto
qed simp

lemma readlines_shape:
  "\<exists>ls t. readlines cs = ls @ t \<and> list_all is_line ls \<and> (t = [] \<or> (\<exists>l. t = [l] \<and> l \<noteq> [] \<and> CHR 0x0A \<notin> set l)) \<and> concat (ls @ t) = cs"
proof (induction cs rule: length_induct)
  case (1 cs)
  show ?case
  proof (cases "CHR 0x0A \<in> set cs")
    case True
    then obtain b rest where cs: "cs = b @ CHR 0x0A # rest" "CHR 0x0A \<notin> set b" by (meson split_list_first)
    then have "length rest < length cs" by simp
    with 1 obtain ls t where "readlines rest = ls @ t" "list_all is_line ls"
      "t = [] \<or> (\<exists>l. t = [l] \<and> l \<noteq> [] \<and> CHR 0x0A \<notin> set l)" "concat (ls @ t) = rest" by blast
    moreover have "is_line (b @ [CHR 0x0A])" using cs(2) unfolding is_line_def by blast
    ultimately show ?thesis
      using cs by (intro exI [of _ "(b @ [CHR 0x0A]) # ls"] exI [of _ t]) (simp add: readlines_line)
  next
    case False
    then show ?thesis
      by (intro exI [of _ "[]"] exI [of _ "readlines cs"]) (cases "cs = []", simp_all add: readlines_rest)
  qed
qed

lemma readlines_lines: "list_all is_line ls \<Longrightarrow> readlines (concat ls @ rest) = ls @ readlines rest"
  by (induction ls) (auto simp: is_line_def readlines_line)

lemma split_str_none: "CHR ''#'' \<notin> set s \<Longrightarrow> split_str ''#'' s = [s]"
proof (induction s)
  case (Cons c s)
  then show ?case by (subst split_str.simps) auto
qed (simp add: split_str.simps)

lemma set_strip_line: "CHR 0x0A \<notin> set (strip (b @ [CHR 0x0A]))" if "CHR 0x0A \<notin> set b"
proof -
  have nl: "is_space (CHR 0x0A)" by (simp add: is_space_def)
  have "set (strip (b @ [CHR 0x0A])) \<subseteq> set b"
    using nl by (cases "\<forall>c \<in> set b. is_space c") (auto simp: strip_def dropWhile_append dest!: set_dropWhileD)
  then show ?thesis using that by auto
qed

lemma set_split_on: "w \<in> set (split_on P s) \<Longrightarrow> set w \<subseteq> set s"
proof (induction s arbitrary: w)
  case (Cons c s)
  obtain x xs where x: "split_on P s = x # xs" using split_on_nonempty [of P s] by (cases "split_on P s") auto
  have IH: "set v \<subseteq> set s" if "v \<in> set (x # xs)" for v using Cons.IH [of v] x that by simp
  show ?case
  proof (cases "w \<in> set (x # xs)")
    case False
    then have "w = [] \<or> w = c # x" using Cons.prems x by (auto split: if_splits)
    then show ?thesis using IH [of x] by auto
  qed (use IH in auto)
qed simp

lemma set_join: "c \<in> set (join sep ws) \<Longrightarrow> c \<in> set sep \<or> (\<exists>w \<in> set ws. c \<in> set w)"
  by (induction sep ws rule: join.induct) auto

lemma replace_word_words:
  "replace_word stop repl ws = Some ws' \<Longrightarrow> w \<in> set ws' \<Longrightarrow> w \<in> set ws \<or> (\<exists>x. repl x = Some w)"
  by (induction ws arbitrary: ws') (auto split: if_splits option.splits)

lemma lower_newline: "CHR 0x0A \<in> set (lower s) \<Longrightarrow> CHR 0x0A \<in> set s"
proof -
  have "lower_char c = CHR 0x0A \<Longrightarrow> c = CHR 0x0A" for c
    by (cases "65 \<le> (of_char c :: nat) \<and> (of_char c :: nat) \<le> 90")
      (auto simp: lower_char_def Let_def dest!: arg_cong [where f = "of_char :: char \<Rightarrow> nat"])
  then show "CHR 0x0A \<in> set (lower s) \<Longrightarrow> CHR 0x0A \<in> set s" by (force simp: lower_def)
qed

lemma mask_values: "map_of mask_replacements x = Some w \<Longrightarrow> CHR 0x0A \<notin> set w"
  by (auto simp: mask_replacements_def split: if_splits)

lemma mask_line_no_newline:
  assumes "CHR ''#'' \<notin> set line" and "is_line line" and "mask_line X86_64 line = Some l"
  shows "\<exists>pre. l = pre @ ''#'' \<and> CHR 0x0A \<notin> set l"
proof -
  obtain b where b: "CHR 0x0A \<notin> set b" "line = b @ [CHR 0x0A]" using assms(2) by (auto simp: is_line_def)
  have clean: "CHR 0x0A \<notin> set (lower (strip line))" using lower_newline set_strip_line [OF b(1)] b(2) by blast
  have "split_str ''#'' line = [line]" using assms(1) by (rule split_str_none)
  with assms(3) obtain ws where ws: "replace_word (\<lambda>_. False) (map_of mask_replacements) (comma_words (lower (strip line))) = Some ws"
    and l: "l = join '', '' ws @ '' #''"
    by (auto simp: mask_line_def comment_symbol_def Let_def)
  have "CHR 0x0A \<notin> set w" if "w \<in> set ws" for w
    using replace_word_words [OF ws that] clean mask_values set_split_on by (fastforce simp: comma_words_def)
  then have "CHR 0x0A \<notin> set (join '', '' ws)" using set_join [of "CHR 0x0A" "'', ''" ws] by auto
  then show ?thesis using l by (intro exI [of _ "join '', '' ws @ '' ''"]) simp
qed

text \<open>
  On x86, simplifying the mask of a line without a comment loses the line end: the file that is
  written has the next line behind the comment sign, so the next instruction is gone.
\<close>
theorem mask_pass_comments_out_next_line:
  assumes "isa_of E = X86_64" and "Suc c < length (readlines code)" and "CHR ''#'' \<notin> set (readlines code ! c)"
    and "modify_instruction E MaskSimplificationPass (readlines code) c = Inr modified" and "modified \<noteq> []"
  shows "\<exists>pre. readlines (concat modified) =
     take c (readlines code) @ [pre @ ''#'' @ readlines code ! Suc c] @ drop (Suc (Suc c)) (readlines code)"
proof -
  let ?ls = "readlines code"
  obtain ls t where sh: "?ls = ls @ t" "list_all is_line ls" "t = [] \<or> (\<exists>l. t = [l] \<and> l \<noteq> [] \<and> CHR 0x0A \<notin> set l)"
    using readlines_shape by blast
  have c: "c < length ls" using assms(2) sh(1,3) by auto
  then have line: "is_line (?ls ! c)" using sh(1,2) by (simp add: nth_append list_all_length)
  from assms(1,2,4,5) obtain l where l: "mask_line X86_64 (?ls ! c) = Some l" "modified = ?ls[c := l]"
    by (auto simp: modify_instruction_def replaced_def split: option.splits)
  obtain pre where pre: "l = pre @ ''#''" "CHR 0x0A \<notin> set l" using mask_line_no_newline [OF assms(3) line l(1)] by blast
  have split: "?ls = take c ?ls @ ?ls ! c # ?ls ! Suc c # drop (Suc (Suc c)) ?ls"
    using assms(2) by (metis Cons_nth_drop_Suc Suc_lessD append_take_drop_id)
  have m: "concat modified = concat (take c ?ls) @ (l @ ?ls ! Suc c) @ concat (drop (Suc (Suc c)) ?ls)"
  proof -
    have "modified = take c ?ls @ l # ?ls ! Suc c # drop (Suc (Suc c)) ?ls"
      unfolding l(2) using assms(2) by (metis Cons_nth_drop_Suc Suc_lessD upd_conv_take_nth_drop)
    then show ?thesis by simp
  qed
  have head: "list_all is_line (take c ?ls)"
    using sh(2) c by (auto simp: sh(1) list_all_iff dest: in_set_takeD)
  have tail: "readlines ((l @ ?ls ! Suc c) @ concat (drop (Suc (Suc c)) ?ls)) = (l @ ?ls ! Suc c) # drop (Suc (Suc c)) ?ls"
  proof (cases "Suc c < length ls")
    case True
    then have nxt: "?ls ! Suc c = ls ! Suc c" "is_line (ls ! Suc c)" and rest: "drop (Suc (Suc c)) ?ls = drop (Suc (Suc c)) ls @ t"
      using sh(1,2) by (simp_all add: nth_append list_all_length)
    then have "is_line (l @ ?ls ! Suc c)"
      using pre(2) unfolding is_line_def by (metis append.assoc Un_iff set_append)
    moreover have "list_all is_line (drop (Suc (Suc c)) ls)" using sh(2) by (auto simp: list_all_iff dest: in_set_dropD)
    moreover have "readlines (concat t) = t" using sh(3) by (auto simp: readlines_rest)
    ultimately show ?thesis
      using readlines_lines [of "(l @ ?ls ! Suc c) # drop (Suc (Suc c)) ls" "concat t"] rest by simp
  next
    case False
    with assms(2) sh(1,3) c obtain x where x: "t = [x]" "x \<noteq> []" "CHR 0x0A \<notin> set x" "Suc c = length ls" by auto
    then have "drop (Suc (Suc c)) ?ls = []" "?ls ! Suc c = x" using sh(1) by simp_all
    then show ?thesis using x pre(2) by (simp add: readlines_rest)
  qed
  show ?thesis
    using tail unfolding m readlines_lines [OF head] pre(1) by (intro exI [of _ pre]) simp
qed


definition mask_code :: string where
  "mask_code = ''nop'' @ [CHR 0x0A] @ ''and rax, 0b1111111111111'' @ [CHR 0x0A] @ ''mov rax, 1'' @ [CHR 0x0A]"

theorem mask_pass_comments_out_next_line_witness:
  "\<exists>pre. readlines (concat [''nop'' @ [CHR 0x0A], ''and rax, 0b1111111111110 #'', ''mov rax, 1'' @ [CHR 0x0A]]) =
     take 1 (readlines mask_code) @ [pre @ ''#'' @ readlines mask_code ! Suc 1] @ drop (Suc (Suc 1)) (readlines mask_code)"
proof -
  have hyps: "isa_of move_env = X86_64" "Suc 1 < length (readlines mask_code)" "CHR ''#'' \<notin> set (readlines mask_code ! 1)"
    by (simp_all add: move_env_def mask_code_def)
  have "modify_instruction move_env MaskSimplificationPass (readlines mask_code) 1 =
    Inr [''nop'' @ [CHR 0x0A], ''and rax, 0b1111111111110 #'', ''mov rax, 1'' @ [CHR 0x0A]]" by code_simp
  from mask_pass_comments_out_next_line [OF hyps this] show ?thesis by simp
qed

section \<open>Labels\<close>

definition drop_label :: "string list \<Rightarrow> nat \<Rightarrow> string list" where
  "drop_label ins i = (if label_is_unused ins i then ins[i := []] else ins)"

definition is_label_line :: "string \<Rightarrow> bool" where
  "is_label_line l \<longleftrightarrow> starts_with (lower (strip l)) ''.''"

lemma label_is_unused_dot: "label_is_unused ins i \<Longrightarrow> is_label_line (ins ! i)"
  by (simp add: label_is_unused_def is_label_line_def Let_def)

lemma drop_labels_prefix:
  assumes "k \<le> length lines"
  shows "length (foldl drop_label lines [0..<k]) = length lines \<and>
     (\<forall>j < length lines. foldl drop_label lines [0..<k] ! j = lines ! j \<or>
        j < k \<and> is_label_line (lines ! j) \<and> foldl drop_label lines [0..<k] ! j = [])"
  using assms
proof (induction k)
  case (Suc k)
  let ?ins = "foldl drop_label lines [0..<k]"
  have len: "length ?ins = length lines" and IH: "j < length lines \<Longrightarrow> ?ins ! j = lines ! j \<or> j < k \<and> is_label_line (lines ! j) \<and> ?ins ! j = []" for j
    using Suc by auto
  have "label_is_unused ?ins k \<Longrightarrow> is_label_line (lines ! k)"
    using label_is_unused_dot [of ?ins k] IH [of k] Suc.prems by auto
  then have "drop_label ?ins k ! j = lines ! j \<or> j < Suc k \<and> is_label_line (lines ! j) \<and> drop_label ?ins k ! j = []"
    if "j < length lines" for j
    using len IH [OF that] that by (cases "j = k") (auto simp: drop_label_def [of ?ins k])
  then show ?case using len by (simp add: drop_label_def [of ?ins k])
qed simp

lemma drop_labels_keep:
  assumes "i < k" and "k \<le> length lines"
  shows "foldl drop_label lines [0..<k] ! i = drop_label (foldl drop_label lines [0..<i]) i ! i"
  using assms
proof (induction k)
  case (Suc k)
  then show ?case by (cases "i = k") (auto simp: drop_label_def [of "foldl drop_label lines [0..<k]" k])
qed simp

lemma remove_labels_nth:
  assumes "i < length lines"
  shows "remove_labels lines ! i = (if label_is_unused (foldl drop_label lines [0..<i]) i then [] else lines ! i)"
proof -
  have "remove_labels lines = foldl drop_label lines [0..<length lines]"
    by (simp add: remove_labels_def drop_label_def [abs_def])
  then show ?thesis
    using drop_labels_keep [OF assms order_refl] drop_labels_prefix [of i lines] assms
    by (auto simp: drop_label_def [of "foldl drop_label lines [0..<i]" i])
qed

text \<open>
  Removing labels keeps every line that is not a label, and every label that such a line mentions.
\<close>
theorem used_labels_are_kept:
  assumes "i < length lines" and "j < length lines" and "\<not> is_label_line (lines ! j)"
    and "j = i \<or> contains (lines ! j) (remove_all '':'' (strip (lines ! i))) \<and> lines ! j \<noteq> lines ! i"
  shows "remove_labels lines ! i = lines ! i"
proof -
  let ?ins = "foldl drop_label lines [0..<i]"
  have len: "length ?ins = length lines" and i: "?ins ! i = lines ! i" and j: "?ins ! j = lines ! j"
    using drop_labels_prefix [of i lines] assms by auto
  have "\<not> label_is_unused ?ins i"
    using assms(4)
  proof
    assume "j = i"
    then show ?thesis using label_is_unused_dot [of ?ins i] i assms(3) by auto
  next
    assume "contains (lines ! j) (remove_all '':'' (strip (lines ! i))) \<and> lines ! j \<noteq> lines ! i"
    moreover have "lines ! j \<in> set ?ins" using j len assms(2) by (metis nth_mem)
    ultimately show ?thesis using i by (auto simp: label_is_unused_def Let_def list_ex_iff)
  qed
  then show ?thesis using remove_labels_nth [OF assms(1)] by simp
qed

definition label_lines :: "string list" where
  "label_lines = [''.l1:'' @ [CHR 0x0A], ''jmp .l1'' @ [CHR 0x0A]]"

theorem used_labels_are_kept_witness: "remove_labels label_lines ! 0 = label_lines ! 0"
proof -
  have "0 < length label_lines" "1 < length label_lines" "\<not> is_label_line (label_lines ! 1)"
    "(1 :: nat) = 0 \<or> contains (label_lines ! 1) (remove_all '':'' (strip (label_lines ! 0))) \<and> label_lines ! 1 \<noteq> label_lines ! 0"
    by code_simp+
  then show ?thesis by (rule used_labels_are_kept)
qed

definition two_byte_nop :: string where
  "two_byte_nop = ''.byte 0x66, 0x90  # 2 B'' @ [CHR 0x0A]"

text \<open>
  The pass that removes labels takes the two-byte no-op, which the replacement by no-ops inserts, for
  an unused label and removes it, so the code after it moves.
\<close>
theorem label_pass_removes_nops:
  assumes "i < length lines" and "lines ! i = two_byte_nop"
    and "\<forall>l \<in> set lines. contains l ''.byte 0x66, 0x90  # 2 B'' \<longrightarrow> l = two_byte_nop"
  shows "map_of (nop_replacements X86_64) 2 = Some ''.byte 0x66, 0x90  # 2 B'' \<and> remove_labels lines ! i = []"
proof -
  let ?ins = "foldl drop_label lines [0..<i]"
  have len: "length ?ins = length lines" and i: "?ins ! i = two_byte_nop"
    and old: "\<forall>j < length lines. ?ins ! j = lines ! j \<or> ?ins ! j = []"
    using drop_labels_prefix [of i lines] assms(1,2) by auto
  have str: "remove_all '':'' (strip two_byte_nop) = ''.byte 0x66, 0x90  # 2 B''"
    "starts_with (lower (strip two_byte_nop)) ''.''" "\<not> list_ex (contains (lower (strip two_byte_nop))) reserved_labels"
    "\<not> contains [] ''.byte 0x66, 0x90  # 2 B''"
    by code_simp+
  have "l = two_byte_nop" if "l \<in> set ?ins" "contains l ''.byte 0x66, 0x90  # 2 B''" for l
  proof -
    from that(1) len obtain j where "j < length lines" "l = ?ins ! j" by (metis in_set_conv_nth)
    with old that(2) str(4) have "l \<in> set lines" by auto
    with that(2) assms(3) show ?thesis by blast
  qed
  then have "label_is_unused ?ins i"
    unfolding label_is_unused_def Let_def i str using str(2,3) by (auto simp: list_ex_iff)
  then show ?thesis using remove_labels_nth [OF assms(1)] by (simp add: nop_replacements_def)
qed

theorem label_pass_removes_nops_witness:
  "map_of (nop_replacements X86_64) 2 = Some ''.byte 0x66, 0x90  # 2 B'' \<and>
   remove_labels [two_byte_nop, ''mov rax, 1'' @ [CHR 0x0A]] ! 0 = []"
proof -
  have "0 < length [two_byte_nop, ''mov rax, 1'' @ [CHR 0x0A]]" "[two_byte_nop, ''mov rax, 1'' @ [CHR 0x0A]] ! 0 = two_byte_nop"
    "\<forall>l \<in> set [two_byte_nop, ''mov rax, 1'' @ [CHR 0x0A]]. contains l ''.byte 0x66, 0x90  # 2 B'' \<longrightarrow> l = two_byte_nop"
    by code_simp+
  then show ?thesis by (rule label_pass_removes_nops)
qed

end
