(* ===== verification/InputPasses.thy ===== *)
theory InputPasses
  imports InstructionPasses TestCaseData "HOL-Library.Sublist"
begin

text \<open>
  Model of \<^verbatim>\<open>rvzr/postprocessing/input_passes.py\<close>: the pass that shortens the input sequence and the pass
  that makes the two violating inputs as similar as the violation allows. The second one writes into
  inputs that other sequences share, so its inputs are references into a store. Progress output is not
  modelled.
\<close>

section \<open>Shortening the sequence\<close>

function halve ::
  "('s, 'inp, 'tc) min_env \<Rightarrow> 'tc \<Rightarrow> 'inp list \<Rightarrow> ('inp, 'tc) Violation \<Rightarrow> 's \<Rightarrow> (('inp, 'tc) Violation \<times> 's) res" where
  "halve E tc nonboosted_inputs violation s =
     (if 5 < length nonboosted_inputs
      then (let new_inputs = take (length nonboosted_inputs div 2) nonboosted_inputs
            in rbind (fuzz_round E (conf_inputs_per_class E) tc new_inputs [] s) (\<lambda>(new_violation, s').
                 case new_violation of
                   None \<Rightarrow> ok (violation, s')
                 | Some v \<Rightarrow> halve E tc new_inputs v s'))
      else ok (violation, s))"
  by pat_completeness auto
termination
  by (relation "measure (\<lambda>(E, tc, inputs, v, s). length inputs)") auto

declare halve.simps [simp del]

text \<open>One iteration over the positions that are left; boosting is off.\<close>

fun removals ::
  "('s, 'inp, 'tc) min_env \<Rightarrow> 'tc \<Rightarrow> nat list \<Rightarrow> 'inp list \<Rightarrow> ('inp, 'tc) Violation \<Rightarrow> 's \<Rightarrow>
   (('inp list \<times> ('inp, 'tc) Violation) \<times> 's) res" where
  "removals E tc [] inputs violation s = ok ((inputs, violation), s)"
| "removals E tc (i # is) inputs violation s =
     (let new_inputs = take i inputs @ drop (Suc i) inputs
      in rbind (fuzz_round E 1 tc new_inputs [] s) (\<lambda>(new_violation, s').
           case new_violation of
             None \<Rightarrow> removals E tc is inputs violation s'
           | Some v \<Rightarrow> removals E tc is new_inputs v s'))"

fun iterations ::
  "('s, 'inp, 'tc) min_env \<Rightarrow> 'tc \<Rightarrow> nat \<Rightarrow> 'inp list \<Rightarrow> ('inp, 'tc) Violation \<Rightarrow> 's \<Rightarrow>
   (('inp list \<times> ('inp, 'tc) Violation) \<times> 's) res" where
  "iterations E tc 0 inputs violation s = ok ((inputs, violation), s)"
| "iterations E tc (Suc n) inputs violation s =
     rbind (removals E tc (rev [1..<Suc (length inputs)]) inputs violation s) (\<lambda>((new_inputs, v), s').
       if length new_inputs = length inputs then ok ((new_inputs, v), s') else iterations E tc n new_inputs v s')"

definition sequence_pass_run ::
  "('s, 'inp, 'tc) min_env \<Rightarrow> 'tc \<Rightarrow> 'inp list \<Rightarrow> ('inp, 'tc) Violation \<Rightarrow> 's \<Rightarrow> ('inp list \<times> 's) res" where
  "sequence_pass_run E tc org_inputs org_violation s =
     rbind (halve E tc org_inputs org_violation s) (\<lambda>(violation, s1).
     rbind (iterations E tc 10 (input_sequence violation) violation s1) (\<lambda>((_, v), s2). ok (input_sequence v, s2)))"

lemma subseq_without: "subseq (take i xs @ drop (Suc i) xs) xs"
proof -
  have "subseq (drop (Suc i) xs) (drop i xs)"
    using suffix_imp_subseq [OF suffix_drop, of 1 "drop i xs"] by simp
  then have "subseq (take i xs @ drop (Suc i) xs) (take i xs @ drop i xs)"
    by (intro list_emb_append_mono) auto
  then show ?thesis by simp
qed

lemma halve_result:
  assumes "halve E tc inputs v s = Inr (v', s')"
  shows "v' = v \<or> (\<exists>n s1 s2. fuzz_round E (conf_inputs_per_class E) tc (take n inputs) [] s1 = Inr (Some v', s2))"
  using assms
proof (induction "length inputs" arbitrary: inputs v s rule: less_induct)
  case less
  show ?case
  proof (cases "5 < length inputs")
    case True
    let ?new = "take (length inputs div 2) inputs"
    from less.prems True obtain nv s1 where r: "fuzz_round E (conf_inputs_per_class E) tc ?new [] s = Inr (nv, s1)"
      and rest: "(case nv of None \<Rightarrow> ok (v, s1) | Some w \<Rightarrow> halve E tc ?new w s1) = Inr (v', s')"
      using halve.simps [of E tc inputs v s] by (auto simp: rbind_eq_Inr_iff Let_def)
    show ?thesis
    proof (cases nv)
      case (Some w)
      then have "v' = w \<or> (\<exists>n s1 s2. fuzz_round E (conf_inputs_per_class E) tc (take n ?new) [] s1 = Inr (Some v', s2))"
        using less.hyps [of ?new w s1] rest True by simp
      then show ?thesis using r Some by (metis take_take)
    qed (use rest in auto)
  qed (use less.prems halve.simps [of E tc inputs v s] in simp)
qed

text \<open>A round found a violation with the sequence; no violation was found without one of its inputs.\<close>

definition violates :: "('s, 'inp, 'tc) min_env \<Rightarrow> 'tc \<Rightarrow> 'inp list \<Rightarrow> bool" where
  "violates E tc inputs \<longleftrightarrow> (\<exists>s v s'. fuzz_round E 1 tc inputs [] s = Inr (Some v, s'))"

definition tried :: "('s, 'inp, 'tc) min_env \<Rightarrow> 'tc \<Rightarrow> 'inp list \<Rightarrow> nat \<Rightarrow> bool" where
  "tried E tc inputs i \<longleftrightarrow> (\<exists>s s'. fuzz_round E 1 tc (take i inputs @ drop (Suc i) inputs) [] s = Inr (None, s'))"

text \<open>
  What the passes rely on: a round without boosting measures the sequence it is given.
\<close>

locale unboosted_rounds =
  fixes E :: "('s, 'inp, 'tc) min_env"
  assumes unboosted: "fuzz_round E 1 tc inputs ign s = Inr (Some v, s') \<Longrightarrow> input_sequence v = inputs"
begin

lemma removals_result:
  assumes "removals E tc is inputs v s = Inr ((inputs', v'), s')" and "input_sequence v = inputs" and "0 \<notin> set is"
  shows "input_sequence v' = inputs' \<and> subseq inputs' inputs \<and> take 1 inputs' = take 1 inputs \<and>
     (inputs' = inputs \<or> violates E tc inputs') \<and>
     (length inputs' = length inputs \<longrightarrow> (\<forall>i \<in> set is. i < length inputs \<longrightarrow> tried E tc inputs i))"
  using assms
proof (induction "is" arbitrary: inputs v s)
  case (Cons i "is")
  let ?new = "take i inputs @ drop (Suc i) inputs"
  have i: "0 < i" "0 \<notin> set is" using Cons.prems(3) by auto
  from Cons.prems(1) obtain nv s1 where r: "fuzz_round E 1 tc ?new [] s = Inr (nv, s1)"
    and rest: "(case nv of None \<Rightarrow> removals E tc is inputs v s1 | Some w \<Rightarrow> removals E tc is ?new w s1) = Inr ((inputs', v'), s')"
    by (auto simp: Let_def rbind_eq_Inr_iff simp del: One_nat_def)
  show ?case
  proof (cases nv)
    case None
    then have "tried E tc inputs i" using r by (auto simp: tried_def)
    moreover from rest None have "removals E tc is inputs v s1 = Inr ((inputs', v'), s')" by simp
    from Cons.IH [OF this Cons.prems(2) i(2)] have "input_sequence v' = inputs' \<and> subseq inputs' inputs \<and> take 1 inputs' = take 1 inputs \<and>
     (inputs' = inputs \<or> violates E tc inputs') \<and>
     (length inputs' = length inputs \<longrightarrow> (\<forall>i \<in> set is. i < length inputs \<longrightarrow> tried E tc inputs i))" .
    ultimately show ?thesis by auto
  next
    case (Some w)
    then have w: "input_sequence w = ?new" "violates E tc ?new" using r unboosted by (auto simp: violates_def)
    from rest Some have "removals E tc is ?new w s1 = Inr ((inputs', v'), s')" by simp
    from Cons.IH [OF this w(1) i(2)] have new: "input_sequence v' = inputs'" "subseq inputs' ?new" "take 1 inputs' = take 1 ?new"
      "inputs' = ?new \<or> violates E tc inputs'" "length inputs' = length ?new \<longrightarrow> (\<forall>i \<in> set is. i < length ?new \<longrightarrow> tried E tc ?new i)"
      by auto
    have sub: "subseq ?new inputs" by (rule subseq_without)
    have "take 1 ?new = take 1 inputs" using i(1) by (cases inputs; cases i) auto
    moreover have "length inputs' \<noteq> length inputs \<or> ?new = inputs \<and> \<not> i < length inputs"
    proof (cases "i < length inputs")
      case True
      then have "length inputs' < length inputs" using list_emb_length [OF new(2)] by simp
      then show ?thesis by simp
    qed simp
    ultimately show ?thesis using new sub w(2) i subseq_order.order_trans [OF new(2) sub] by (cases "i < length inputs") auto
  qed
qed auto

lemma iterations_result:
  assumes "iterations E tc n inputs v s = Inr ((inputs', v'), s')" and "input_sequence v = inputs"
  shows "input_sequence v' = inputs' \<and> subseq inputs' inputs \<and> take 1 inputs' = take 1 inputs \<and>
     (inputs' = inputs \<or> violates E tc inputs') \<and>
     ((\<forall>i. 0 < i \<longrightarrow> i < length inputs' \<longrightarrow> tried E tc inputs' i) \<or> length inputs' + n \<le> length inputs)"
  using assms
proof (induction n arbitrary: inputs v s)
  case (Suc n)
  from Suc.prems(1) obtain in1 v1 s1 where r: "removals E tc (rev [1..<Suc (length inputs)]) inputs v s = Inr ((in1, v1), s1)"
    and rest: "(if length in1 = length inputs then ok ((in1, v1), s1) else iterations E tc n in1 v1 s1) = Inr ((inputs', v'), s')"
    by (auto simp: rbind_eq_Inr_iff simp del: upt_Suc)
  have "0 \<notin> set (rev [1..<Suc (length inputs)])" by (simp del: upt_Suc)
  from removals_result [OF r Suc.prems(2) this] have one: "input_sequence v1 = in1" "subseq in1 inputs" "take 1 in1 = take 1 inputs"
    "in1 = inputs \<or> violates E tc in1" "length in1 = length inputs \<longrightarrow> (\<forall>i \<in> {1..<Suc (length inputs)}. i < length inputs \<longrightarrow> tried E tc inputs i)"
    by (auto simp del: upt_Suc)
  show ?case
  proof (cases "length in1 = length inputs")
    case True
    then have "in1 = inputs" using one(2) by (metis subseq_same_length)
    then show ?thesis using rest one by auto
  next
    case False
    with rest have "iterations E tc n in1 v1 s1 = Inr ((inputs', v'), s')" by simp
    from Suc.IH [OF this one(1)] have two: "input_sequence v' = inputs'" "subseq inputs' in1" "take 1 inputs' = take 1 in1"
      "inputs' = in1 \<or> violates E tc inputs'" "(\<forall>i. 0 < i \<longrightarrow> i < length inputs' \<longrightarrow> tried E tc inputs' i) \<or> length inputs' + n \<le> length in1"
      by auto
    have "length in1 < length inputs" using False list_emb_length [OF one(2)] by simp
    moreover have "subseq inputs' inputs" using two(2) one(2) by (rule subseq_order.order_trans)
    ultimately show ?thesis using one two by auto
  qed
qed auto

lemma sequence_pass_result:
  assumes "sequence_pass_run E tc inputs v s = Inr (r, s')"
  shows "\<exists>v0. (v0 = v \<or> (\<exists>n s1 s2. fuzz_round E (conf_inputs_per_class E) tc (take n inputs) [] s1 = Inr (Some v0, s2))) \<and>
     subseq r (input_sequence v0) \<and> take 1 r = take 1 (input_sequence v0) \<and>
     (r = input_sequence v0 \<or> violates E tc r) \<and>
     ((\<forall>i. 0 < i \<longrightarrow> i < length r \<longrightarrow> tried E tc r i) \<or> length r + 10 \<le> length (input_sequence v0))"
proof -
  from assms obtain v0 s1 r' v' where h: "halve E tc inputs v s = Inr (v0, s1)"
    and i: "iterations E tc 10 (input_sequence v0) v0 s1 = Inr ((r', v'), s')" and r: "r = input_sequence v'"
    by (auto simp: sequence_pass_run_def rbind_eq_Inr_iff)
  show ?thesis using halve_result [OF h] iterations_result [OF i refl] unfolding r by metis
qed

end

section \<open>The store\<close>

record 's store =
  inputs_of :: "nat \<Rightarrow> InputData"
  next_ref :: nat
  world :: 's

datatype region = R_main | R_faulty | R_gpr | R_simd

definition region_data :: "region \<Rightarrow> ActorInput \<Rightarrow> u64 list" where
  "region_data reg a = (case reg of R_main \<Rightarrow> ai_main a | R_faulty \<Rightarrow> ai_faulty a | R_gpr \<Rightarrow> ai_gpr a | R_simd \<Rightarrow> ai_simd a)"

definition set_region :: "region \<Rightarrow> u64 list \<Rightarrow> ActorInput \<Rightarrow> ActorInput" where
  "set_region reg d a =
     (case reg of R_main \<Rightarrow> a\<lparr>ai_main := d\<rparr> | R_faulty \<Rightarrow> a\<lparr>ai_faulty := d\<rparr> | R_gpr \<Rightarrow> a\<lparr>ai_gpr := d\<rparr> | R_simd \<Rightarrow> a\<lparr>ai_simd := d\<rparr>)"

definition read_entry :: "InputData \<Rightarrow> nat \<Rightarrow> region \<Rightarrow> nat \<Rightarrow> u64 res" where
  "read_entry x actor reg i =
     rbind (py_nth (actors x) (int actor)) (\<lambda>a. py_nth (region_data reg a) (int i))"

definition write_entry :: "nat \<Rightarrow> nat \<Rightarrow> region \<Rightarrow> nat \<Rightarrow> u64 \<Rightarrow> 's store \<Rightarrow> 's store res" where
  "write_entry r actor reg i v s =
     (let x = inputs_of s r
      in rbind (py_nth (actors x) (int actor)) (\<lambda>a.
         rbind (py_set (region_data reg a) (int i) v) (\<lambda>d.
           ok (s\<lparr>inputs_of := (inputs_of s)(r := x\<lparr>actors := (actors x)[actor := set_region reg d a]\<rparr>)\<rparr>))))"

section \<open>The differential pass\<close>

text \<open>The context of the pass: the sequence, its two violating inputs and the ids to ignore.\<close>

record 'tc diff_ctx =
  dx_test_case :: 'tc
  dx_inputs :: "nat list"
  dx_a :: nat
  dx_b :: nat
  dx_ignore :: "nat list"

definition set_pass_context :: "'tc \<Rightarrow> (nat, 'tc) Violation \<Rightarrow> 'tc diff_ctx res" where
  "set_pass_context tc v =
     (let inputs = input_sequence v;
          ids = map input_id (eq_measurements (viol_class v));
          violating_ids = (if 2 < length ids then take 2 ids else ids)
      in rbind (py_nth violating_ids 0) (\<lambda>i. rbind (py_nth violating_ids 1) (\<lambda>j.
         rbind (py_nth inputs (int i)) (\<lambda>a. rbind (py_nth inputs (int j)) (\<lambda>b.
           ok \<lparr>dx_test_case = tc, dx_inputs = inputs, dx_a = a, dx_b = b,
               dx_ignore = filter (\<lambda>k. k \<notin> set violating_ids) [0..<length inputs]\<rparr>)))))"

definition diff_check ::
  "('s store, nat, 'tc) min_env \<Rightarrow> 'tc diff_ctx \<Rightarrow> 's store \<Rightarrow> (bool \<times> 's store) res" where
  "diff_check E X s = check_for_violation (E\<lparr>conf_inputs_per_class := 1\<rparr>) (dx_test_case X) (dx_inputs X) (dx_ignore X) s"

definition restore_addr ::
  "'tc diff_ctx \<Rightarrow> (nat \<Rightarrow> InputData) \<Rightarrow> nat \<Rightarrow> region \<Rightarrow> nat \<Rightarrow> 's store \<Rightarrow> 's store res" where
  "restore_addr X org actor reg addr s =
     rbind (read_entry (org (dx_a X)) actor reg addr) (\<lambda>va. rbind (write_entry (dx_a X) actor reg addr va s) (\<lambda>s1.
     rbind (read_entry (org (dx_b X)) actor reg addr) (\<lambda>vb. write_entry (dx_b X) actor reg addr vb s1)))"

definition zero_addr :: "'tc diff_ctx \<Rightarrow> nat \<Rightarrow> region \<Rightarrow> nat \<Rightarrow> 's store \<Rightarrow> 's store res" where
  "zero_addr X actor reg addr s =
     rbind (write_entry (dx_a X) actor reg addr 0 s) (\<lambda>s1. write_entry (dx_b X) actor reg addr 0 s1)"

text \<open>\<^verbatim>\<open>2 ** int(log2(n))\<close> for a positive \<open>n\<close> of at most 64.\<close>

fun pow2_below :: "nat \<Rightarrow> nat" where
  "pow2_below n = (if n < 2 then 1 else 2 * pow2_below (n div 2))"

declare pow2_below.simps [simp del]

fun align_block :: "nat \<Rightarrow> nat \<Rightarrow> nat" where
  "align_block addr n = (if 1 < n \<and> addr mod n \<noteq> 0 then align_block addr (n div 2) else n)"

declare align_block.simps [simp del]

definition MAX_BLOCK_SIZE :: nat where
  "MAX_BLOCK_SIZE = 64"

definition start_block_size :: "nat \<Rightarrow> nat \<Rightarrow> nat" where
  "start_block_size addr region_size =
     align_block addr (pow2_below (min (MAX_BLOCK_SIZE - addr mod MAX_BLOCK_SIZE) (region_size - addr)))"

function zero_out_block ::
  "('s store, nat, 'tc) min_env \<Rightarrow> 'tc diff_ctx \<Rightarrow> (nat \<Rightarrow> InputData) \<Rightarrow> nat \<Rightarrow> region \<Rightarrow> nat \<Rightarrow> nat \<Rightarrow> 's store \<Rightarrow>
   (nat \<times> 's store) res" where
  "zero_out_block E X org actor reg addr block_size s =
     (if 1 < block_size
      then rbind (rfold (\<lambda>s i. zero_addr X actor reg (addr + i) s) s [0..<block_size]) (\<lambda>s1.
           rbind (diff_check E X s1) (\<lambda>(reproduced, s2).
             if reproduced then ok (block_size, s2)
             else rbind (rfold (\<lambda>s i. restore_addr X org actor reg (addr + i) s) s2 [0..<block_size]) (\<lambda>s3.
                  zero_out_block E X org actor reg addr (block_size div 2) s3)))
      else ok (1, s))"
  by pat_completeness auto
termination
  by (relation "measure (\<lambda>(E, X, org, actor, reg, addr, n, s). n)") auto

declare zero_out_block.simps [simp del]

text \<open>The single entries: copying between the inputs, after zeroing did not work.\<close>

definition copy_entry ::
  "('s store, nat, 'tc) min_env \<Rightarrow> 'tc diff_ctx \<Rightarrow> (nat \<Rightarrow> InputData) \<Rightarrow> nat \<Rightarrow> region \<Rightarrow> nat \<Rightarrow> nat \<Rightarrow> nat list \<Rightarrow> 's store \<Rightarrow>
   (nat list \<times> 's store) res" where
  "copy_entry E X org actor reg block_start absolute_address leaked s4 =
     rbind (read_entry (inputs_of s4 (dx_a X)) actor reg block_start) (\<lambda>va.
     rbind (read_entry (inputs_of s4 (dx_b X)) actor reg block_start) (\<lambda>vb.
       if va = vb then ok (leaked, s4)
       else rbind (read_entry (org (dx_a X)) actor reg block_start) (\<lambda>v0.
         rbind (write_entry (dx_a X) actor reg block_start v0 s4) (\<lambda>s5.
         rbind (read_entry (inputs_of s5 (dx_a X)) actor reg block_start) (\<lambda>v1.
         rbind (write_entry (dx_b X) actor reg block_start v1 s5) (\<lambda>s6.
         rbind (diff_check E X s6) (\<lambda>(copied, s7).
           if copied then ok (leaked, s7)
           else rbind (restore_addr X org actor reg block_start s7) (\<lambda>s8.
             ok (leaked @ [absolute_address], s8)))))))))"

definition process_entry ::
  "('s store, nat, 'tc) min_env \<Rightarrow> 'tc diff_ctx \<Rightarrow> (nat \<Rightarrow> InputData) \<Rightarrow> nat \<Rightarrow> region \<Rightarrow> nat \<Rightarrow> nat \<Rightarrow> nat list \<Rightarrow> 's store \<Rightarrow>
   (nat list \<times> 's store) res" where
  "process_entry E X org actor reg block_start absolute_address leaked s1 =
     rbind (zero_addr X actor reg block_start s1) (\<lambda>s2.
     rbind (diff_check E X s2) (\<lambda>(zeroed, s3).
       if zeroed then ok (leaked, s3)
       else rbind (restore_addr X org actor reg block_start s3) (\<lambda>s4.
         copy_entry E X org actor reg block_start absolute_address leaked s4)))"

definition process_block ::
  "('s store, nat, 'tc) min_env \<Rightarrow> 'tc diff_ctx \<Rightarrow> nat \<Rightarrow> region \<Rightarrow> nat \<Rightarrow> nat \<Rightarrow> nat \<Rightarrow> nat list \<Rightarrow> 's store \<Rightarrow>
   ((nat \<times> nat list) \<times> 's store) res" where
  "process_block E X actor reg block_start region_size absolute_address leaked s =
     (let org = inputs_of s
      in rbind (zero_out_block E X org actor reg block_start (start_block_size block_start region_size) s) (\<lambda>(n, s1).
         if 1 < n then ok ((n, leaked), s1)
         else rbind (process_entry E X org actor reg block_start absolute_address leaked s1) (\<lambda>(leaked', s2).
           ok ((1, leaked'), s2))))"

lemma zero_out_block_pos: "zero_out_block E X org actor reg addr n s = Inr (k, s') \<Longrightarrow> 0 < k"
proof (induction n arbitrary: s rule: less_induct)
  case (less n)
  note unf = zero_out_block.simps [of E X org actor reg addr n s]
  show ?case
  proof (cases "1 < n")
    case True
    with less.prems unf have "k = n \<or> (\<exists>s3. zero_out_block E X org actor reg addr (n div 2) s3 = Inr (k, s'))"
      by (auto simp: rbind_eq_Inr_iff split: if_splits)
    then show ?thesis using less.IH [of "n div 2"] True by auto
  qed (use less.prems unf in auto)
qed

lemma process_block_pos: "process_block E X actor reg i sz addr leaked s = Inr ((n, leaked'), s') \<Longrightarrow> 0 < n"
  by (auto simp: process_block_def Let_def rbind_eq_Inr_iff split: if_splits)

lemma rbind_cong: "m = m' \<Longrightarrow> (\<And>x. m' = Inr x \<Longrightarrow> f x = f' x) \<Longrightarrow> rbind m f = rbind m' f'"
  by (auto simp: rbind_def split: sum.splits)

declare rbind_cong [fundef_cong]

function process_region ::
  "('s store, nat, 'tc) min_env \<Rightarrow> 'tc diff_ctx \<Rightarrow> nat \<Rightarrow> region \<Rightarrow> nat \<Rightarrow> nat \<Rightarrow> nat \<Rightarrow> nat list \<Rightarrow> 's store \<Rightarrow>
   (nat list \<times> 's store) res" where
  "process_region E X actor reg region_size region_offset i leaked s =
     (if i < region_size
      then rbind (process_block E X actor reg i region_size (actor * 0x4000 + region_offset + i * 8) leaked s)
             (\<lambda>((n, leaked'), s'). process_region E X actor reg region_size region_offset (i + n) leaked' s')
      else ok (leaked, s))"
  by pat_completeness auto
termination
  by (relation "measure (\<lambda>(E, X, actor, reg, sz, off, i, leaked, s). sz - i)") (auto dest: process_block_pos)

declare rbind_cong [fundef_cong del]
declare process_region.simps [simp del]

fun process_regions ::
  "('s store, nat, 'tc) min_env \<Rightarrow> 'tc diff_ctx \<Rightarrow> nat \<Rightarrow> region list \<Rightarrow> nat \<Rightarrow> nat list \<Rightarrow> 's store \<Rightarrow> (nat list \<times> 's store) res" where
  "process_regions E X actor [] region_offset leaked s = ok (leaked, s)"
| "process_regions E X actor (reg # regs) region_offset leaked s =
     rbind (py_nth (actors (inputs_of s (dx_a X))) (int actor)) (\<lambda>a.
       let region_size = length (region_data reg a)
       in rbind (process_region E X actor reg region_size region_offset 0 leaked s) (\<lambda>(leaked', s').
            process_regions E X actor regs (region_offset + region_size * 8) leaked' s'))"

definition process_actor ::
  "('s store, nat, 'tc) min_env \<Rightarrow> 'tc diff_ctx \<Rightarrow> nat \<Rightarrow> nat list \<Rightarrow> 's store \<Rightarrow> (nat list \<times> 's store) res" where
  "process_actor E X actor leaked s = process_regions E X actor [R_main, R_faulty, R_gpr, R_simd] 0 leaked s"

text \<open>The leaked addresses, which the pass only prints, are part of the result.\<close>

definition diff_pass_run ::
  "('s store, nat, 'tc) min_env \<Rightarrow> nat \<Rightarrow> 'tc \<Rightarrow> (nat, 'tc) Violation \<Rightarrow> 's store \<Rightarrow> ((nat list \<times> nat list) \<times> 's store) res" where
  "diff_pass_run E n_actors tc org_violation s =
     rbind (set_pass_context tc org_violation) (\<lambda>X.
     rbind (rfold (\<lambda>(leaked, s) actor. process_actor E X actor leaked s) ([], s) [0..<n_actors]) (\<lambda>(leaked, s').
       ok ((dx_inputs X, leaked), s')))"

section \<open>Cells\<close>

type_synonym pos = "nat \<times> region \<times> nat"

definition cell :: "InputData \<Rightarrow> pos \<Rightarrow> u64" where
  "cell x p = (case p of (k, reg, i) \<Rightarrow> region_data reg (actors x ! k) ! i)"

definition valid :: "InputData \<Rightarrow> pos \<Rightarrow> bool" where
  "valid x p \<longleftrightarrow> (case p of (k, reg, i) \<Rightarrow> k < length (actors x) \<and> i < length (region_data reg (actors x ! k)))"

text \<open>Inputs that differ at most in the contents of the four regions.\<close>

definition alike :: "InputData \<Rightarrow> InputData \<Rightarrow> bool" where
  "alike x y \<longleftrightarrow> seed x = seed y \<and> length (actors x) = length (actors y) \<and>
     (\<forall>k < length (actors x). ai_padding (actors x ! k) = ai_padding (actors y ! k) \<and>
        (\<forall>reg. length (region_data reg (actors x ! k)) = length (region_data reg (actors y ! k))))"

lemma alike_refl [simp]: "alike x x"
  by (simp add: alike_def)

lemma alike_trans: "alike x y \<Longrightarrow> alike y z \<Longrightarrow> alike x z"
  by (simp add: alike_def)

lemma alike_valid: "alike x y \<Longrightarrow> valid x p \<longleftrightarrow> valid y p"
  by (auto simp: alike_def valid_def split: prod.splits)

lemma region_set [simp]: "region_data reg (set_region reg' d a) = (if reg = reg' then d else region_data reg a)"
  by (cases reg; cases reg') (simp_all add: region_data_def set_region_def)

lemma padding_set [simp]: "ai_padding (set_region reg d a) = ai_padding a"
  by (cases reg) (simp_all add: set_region_def)

lemma actor_ext:
  assumes "\<And>reg. region_data reg a = region_data reg b" and "ai_padding a = ai_padding b"
  shows "a = (b :: ActorInput)"
  using assms(1) [of R_main] assms(1) [of R_faulty] assms(1) [of R_gpr] assms(1) [of R_simd] assms(2)
  by (intro ActorInput.equality) (simp_all add: region_data_def)

lemma alike_ext:
  assumes "alike x y" and "\<And>p. valid x p \<Longrightarrow> cell x p = cell y p"
  shows "x = y"
proof (rule InputData.equality)
  show "actors x = actors y"
  proof (rule nth_equalityI)
    fix k assume k: "k < length (actors x)"
    have "region_data reg (actors x ! k) = region_data reg (actors y ! k)" for reg
    proof (rule nth_equalityI)
      fix i assume "i < length (region_data reg (actors x ! k))"
      then show "region_data reg (actors x ! k) ! i = region_data reg (actors y ! k) ! i"
        using assms(2) [of "(k, reg, i)"] k by (simp add: valid_def cell_def)
    qed (use assms(1) k in \<open>simp add: alike_def\<close>)
    then show "actors x ! k = actors y ! k" using assms(1) k by (intro actor_ext) (simp_all add: alike_def)
  qed (use assms(1) in \<open>simp add: alike_def\<close>)
qed (use assms(1) in \<open>simp_all add: alike_def\<close>)

lemma read_entry_iff: "read_entry x k reg i = Inr v \<longleftrightarrow> valid x (k, reg, i) \<and> v = cell x (k, reg, i)"
  by (cases "k < length (actors x)"; cases "i < length (region_data reg (actors x ! k))")
    (auto simp: read_entry_def valid_def cell_def py_nth_def rbind_eq_Inr_iff)

text \<open>The effect of writing at references in \<open>R\<close> and positions in \<open>D\<close>.\<close>

definition writes :: "nat set \<Rightarrow> pos set \<Rightarrow> (nat \<Rightarrow> pos \<Rightarrow> u64) \<Rightarrow> 's store \<Rightarrow> 's store \<Rightarrow> bool" where
  "writes R D f s s' \<longleftrightarrow> next_ref s' = next_ref s \<and> (\<forall>r. r \<notin> R \<longrightarrow> inputs_of s' r = inputs_of s r) \<and>
     (\<forall>r. alike (inputs_of s r) (inputs_of s' r)) \<and>
     (\<forall>r p. cell (inputs_of s' r) p = (if r \<in> R \<and> p \<in> D then f r p else cell (inputs_of s r) p))"

lemma write_entry_writes:
  assumes "write_entry r k reg i v s = Inr s'"
  shows "writes {r} {(k, reg, i)} (\<lambda>_ _. v) s s'"
proof -
  let ?x = "inputs_of s r"
  have k: "k < length (actors ?x)" and i: "i < length (region_data reg (actors ?x ! k))"
    using assms by (auto simp: write_entry_def Let_def py_nth_def py_set_def rbind_eq_Inr_iff py_index_def split: if_splits)
  then have s': "s' = s\<lparr>inputs_of := (inputs_of s)(r := ?x\<lparr>actors := (actors ?x)[k := set_region reg ((region_data reg (actors ?x ! k))[i := v]) (actors ?x ! k)]\<rparr>)\<rparr>"
    using assms by (simp add: write_entry_def Let_def)
  show ?thesis
    unfolding writes_def s' using k i by (auto simp: alike_def cell_def nth_list_update split: prod.splits)
qed

lemma writes_refl: "writes R {} f s s"
  by (simp add: writes_def)

lemma writes_positions: "writes R D f s s1 \<Longrightarrow> writes R D' f s1 s2 \<Longrightarrow> writes R (D \<union> D') f s s2"
  unfolding writes_def by (auto intro: alike_trans)

lemma writes_refs: "writes R D f s s1 \<Longrightarrow> writes R' D f s1 s2 \<Longrightarrow> writes (R \<union> R') D f s s2"
  unfolding writes_def by (auto intro: alike_trans)

lemma writes_cong: "writes R D f s s' \<Longrightarrow> (\<And>r p. r \<in> R \<Longrightarrow> p \<in> D \<Longrightarrow> f r p = g r p) \<Longrightarrow> writes R D g s s'"
  unfolding writes_def by auto

definition block :: "nat \<Rightarrow> region \<Rightarrow> nat \<Rightarrow> nat \<Rightarrow> pos set" where
  "block k reg i n = {(k, reg, j) |j. i \<le> j \<and> j < i + n}"

lemma zero_addr_writes:
  assumes "zero_addr X k reg i s = Inr s'"
  shows "writes {dx_a X, dx_b X} {(k, reg, i)} (\<lambda>_ _. 0) s s'"
proof -
  from assms obtain s1 where "write_entry (dx_a X) k reg i 0 s = Inr s1" "write_entry (dx_b X) k reg i 0 s1 = Inr s'"
    by (auto simp: zero_addr_def rbind_eq_Inr_iff)
  from writes_refs [OF write_entry_writes [OF this(1)] write_entry_writes [OF this(2)]] show ?thesis
    by (simp add: insert_commute)
qed

lemma restore_addr_writes:
  assumes "restore_addr X org k reg i s = Inr s'"
  shows "writes {dx_a X, dx_b X} {(k, reg, i)} (\<lambda>r p. cell (org r) p) s s'"
proof -
  from assms obtain s1 where
    "write_entry (dx_a X) k reg i (cell (org (dx_a X)) (k, reg, i)) s = Inr s1"
    "write_entry (dx_b X) k reg i (cell (org (dx_b X)) (k, reg, i)) s1 = Inr s'"
    by (auto simp: restore_addr_def rbind_eq_Inr_iff read_entry_iff)
  then have "writes {dx_a X} {(k, reg, i)} (\<lambda>r p. cell (org r) p) s s1" "writes {dx_b X} {(k, reg, i)} (\<lambda>r p. cell (org r) p) s1 s'"
    by (auto intro: writes_cong dest!: write_entry_writes)
  from writes_refs [OF this] show ?thesis by (simp add: insert_commute)
qed

lemma rfold_writes:
  assumes "\<And>i s s'. g s i = Inr s' \<Longrightarrow> writes R {(k, reg, addr + i)} f s s'" and "rfold g s [0..<n] = Inr s'"
  shows "writes R (block k reg addr n) f s s'"
  using assms(2)
proof (induction n arbitrary: s')
  case (Suc n)
  then obtain s1 where "rfold g s [0..<n] = Inr s1" "g s1 n = Inr s'" by (auto simp: rfold_append rbind_eq_Inr_iff)
  then have "writes R (block k reg addr n \<union> {(k, reg, addr + n)}) f s s'" using Suc.IH assms(1) writes_positions by metis
  moreover have "block k reg addr n \<union> {(k, reg, addr + n)} = block k reg addr (Suc n)" by (auto simp: block_def)
  ultimately show ?case by simp
next
  case 0
  have "block k reg addr 0 = {}" by (auto simp: block_def)
  then show ?case using 0 by (simp add: writes_refl)
qed

text \<open>
  The inputs below \<open>N\<close> are those of the snapshot \<open>org\<close>, except for the positions \<open>B\<close> of the two inputs
  of the pass, which have the contents \<open>f\<close>.
\<close>

definition changed :: "nat \<Rightarrow> 'tc diff_ctx \<Rightarrow> pos set \<Rightarrow> (nat \<Rightarrow> pos \<Rightarrow> u64) \<Rightarrow> (nat \<Rightarrow> InputData) \<Rightarrow> 's store \<Rightarrow> bool" where
  "changed N X B f org s \<longleftrightarrow> N \<le> next_ref s \<and> (\<forall>r < N. alike (org r) (inputs_of s r) \<and>
     (r \<notin> {dx_a X, dx_b X} \<longrightarrow> inputs_of s r = org r) \<and>
     (\<forall>p. cell (inputs_of s r) p = (if r \<in> {dx_a X, dx_b X} \<and> p \<in> B then f r p else cell (org r) p)))"

definition unchanged :: "nat \<Rightarrow> (nat \<Rightarrow> InputData) \<Rightarrow> 's store \<Rightarrow> bool" where
  "unchanged N org s \<longleftrightarrow> N \<le> next_ref s \<and> (\<forall>r < N. inputs_of s r = org r)"

lemma changed_writes:
  "unchanged N org s \<Longrightarrow> writes {dx_a X, dx_b X} B f s s' \<Longrightarrow> changed N X B f org s'"
  unfolding unchanged_def writes_def changed_def by metis

lemma changed_restore:
  assumes "changed N X B f org s" and "writes {dx_a X, dx_b X} B (\<lambda>r p. cell (org r) p) s s'"
  shows "unchanged N org s'"
proof -
  have "inputs_of s' r = org r" if "r < N" for r
  proof (rule alike_ext [symmetric])
    show "alike (org r) (inputs_of s' r)"
      using assms that unfolding changed_def writes_def by (blast intro: alike_trans)
    have "cell (inputs_of s r) p = (if r \<in> {dx_a X, dx_b X} \<and> p \<in> B then f r p else cell (org r) p)"
      "cell (inputs_of s' r) p = (if r \<in> {dx_a X, dx_b X} \<and> p \<in> B then cell (org r) p else cell (inputs_of s r) p)" for p
      using assms that unfolding changed_def writes_def by blast+
    then show "cell (org r) p = cell (inputs_of s' r) p" for p by simp
  qed
  then show ?thesis using assms unfolding changed_def writes_def unchanged_def by simp
qed

text \<open>The check passed for the inputs below \<open>N\<close> as they are now.\<close>

definition confirmed :: "('s store, nat, 'tc) min_env \<Rightarrow> 'tc diff_ctx \<Rightarrow> nat \<Rightarrow> 's store \<Rightarrow> bool" where
  "confirmed E X N s \<longleftrightarrow> (\<exists>s1 s2. diff_check E X s1 = Inr (True, s2) \<and> (\<forall>r < N. inputs_of s1 r = inputs_of s r))"

text \<open>A stretch of the pass: it writes the positions \<open>D\<close> only, and ends with confirmed inputs if it changed any.\<close>

definition evolves :: "('s store, nat, 'tc) min_env \<Rightarrow> 'tc diff_ctx \<Rightarrow> nat \<Rightarrow> pos set \<Rightarrow> 's store \<Rightarrow> 's store \<Rightarrow> bool" where
  "evolves E X N D s s' \<longleftrightarrow> N \<le> next_ref s' \<and> (\<forall>r < N. alike (inputs_of s r) (inputs_of s' r) \<and>
     (r \<notin> {dx_a X, dx_b X} \<longrightarrow> inputs_of s' r = inputs_of s r) \<and>
     (\<forall>p. p \<notin> D \<longrightarrow> cell (inputs_of s' r) p = cell (inputs_of s r) p)) \<and>
     ((\<forall>r < N. inputs_of s' r = inputs_of s r) \<or> confirmed E X N s')"

lemma evolves_refl: "N \<le> next_ref s \<Longrightarrow> evolves E X N D s s"
  by (simp add: evolves_def)

lemma evolves_trans:
  assumes "evolves E X N D s s1" and "evolves E X N D' s1 s2"
  shows "evolves E X N (D \<union> D') s s2"
proof -
  have "alike (inputs_of s r) (inputs_of s2 r)" "r \<notin> {dx_a X, dx_b X} \<longrightarrow> inputs_of s2 r = inputs_of s r"
    "p \<notin> D \<union> D' \<longrightarrow> cell (inputs_of s2 r) p = cell (inputs_of s r) p" if "r < N" for r p
    using assms that unfolding evolves_def by (meson alike_trans, metis, metis UnCI)
  moreover have "(\<forall>r < N. inputs_of s2 r = inputs_of s r) \<or> confirmed E X N s2"
  proof (cases "\<forall>r < N. inputs_of s2 r = inputs_of s1 r")
    case True
    then show ?thesis using assms(1) by (auto simp: evolves_def confirmed_def)
  qed (use assms(2) in \<open>auto simp: evolves_def\<close>)
  ultimately show ?thesis using assms(2) by (auto simp: evolves_def)
qed

lemma evolves_changed:
  "changed N X B f (inputs_of s) s' \<Longrightarrow> confirmed E X N s' \<Longrightarrow> B \<subseteq> D \<Longrightarrow> evolves E X N D s s'"
  unfolding changed_def evolves_def by (auto split: if_splits)

lemma evolves_unchanged: "unchanged N (inputs_of s) s' \<Longrightarrow> evolves E X N D s s'"
  by (simp add: unchanged_def evolves_def)

lemma block_one: "block k reg i (Suc 0) = {(k, reg, i)}"
  by (auto simp: block_def)

text \<open>The two inputs agree at a position, or its address was reported.\<close>

definition settled :: "'tc diff_ctx \<Rightarrow> (pos \<Rightarrow> nat) \<Rightarrow> nat list \<Rightarrow> 's store \<Rightarrow> pos \<Rightarrow> bool" where
  "settled X addr leaked s p \<longleftrightarrow>
     cell (inputs_of s (dx_a X)) p = cell (inputs_of s (dx_b X)) p \<or> addr p \<in> set leaked"

lemma changed_settled:
  assumes "changed N X B f org s" and "dx_a X < N" and "dx_b X < N" and "p \<in> B" and "f (dx_a X) p = f (dx_b X) p"
  shows "settled X addr leaked s p"
proof -
  have "cell (inputs_of s r) p = f r p" if "r \<in> {dx_a X, dx_b X}" for r
    using assms that by (auto simp: changed_def simp del: split_paired_All)
  then show ?thesis using assms(5) by (simp add: settled_def)
qed

lemma settled_evolves:
  assumes "settled X addr leaked s p" and "evolves E X N D s s'" and "p \<notin> D" and "set leaked \<subseteq> set leaked'"
    and "dx_a X < N" and "dx_b X < N"
  shows "settled X addr leaked' s' p"
proof -
  have "cell (inputs_of s' r) p = cell (inputs_of s r) p" if "r < N" for r
    using assms(2,3) that by (simp add: evolves_def del: split_paired_All)
  then show ?thesis using assms by (auto simp: settled_def)
qed

lemma evolves_mono: "evolves E X N D s s' \<Longrightarrow> D \<subseteq> D' \<Longrightarrow> evolves E X N D' s s'"
  unfolding evolves_def by blast

text \<open>The address the pass reports for a position: regions follow each other, actors are 16 KB apart.\<close>

definition regions :: "region list" where
  "regions = [R_main, R_faulty, R_gpr, R_simd]"

definition region_len :: "InputData \<Rightarrow> nat \<Rightarrow> region \<Rightarrow> nat" where
  "region_len x k reg = length (region_data reg (actors x ! k))"

definition len_before :: "(region \<Rightarrow> nat) \<Rightarrow> region list \<Rightarrow> region \<Rightarrow> nat" where
  "len_before len regs reg = sum_list (map len (takeWhile (\<lambda>r. r \<noteq> reg) regs))"

definition entry_address :: "InputData \<Rightarrow> pos \<Rightarrow> nat" where
  "entry_address x p = (case p of (k, reg, j) \<Rightarrow> k * 0x4000 + len_before (region_len x k) regions reg * 8 + j * 8)"

lemma evolves_len:
  assumes "evolves E X N D s s'" and "r < N" and "k < length (actors (inputs_of s r))"
  shows "region_len (inputs_of s' r) k = region_len (inputs_of s r) k \<and> k < length (actors (inputs_of s' r))"
proof -
  have "alike (inputs_of s r) (inputs_of s' r)" using assms(1,2) by (simp add: evolves_def)
  then show ?thesis using assms(3) by (simp add: alike_def region_len_def fun_eq_iff)
qed

text \<open>
  What the differential pass relies on: a round keeps the inputs that exist and may create new ones.
\<close>

locale heap_rounds =
  fixes E :: "('s store, nat, 'tc) min_env"
  assumes keeps: "fuzz_round E n tc refs ign s = Inr (v, s') \<Longrightarrow> unchanged (next_ref s) (inputs_of s) s'"
begin

lemma check_keeps:
  assumes "check_rounds (E\<lparr>conf_inputs_per_class := n\<rparr>) m tc refs ign s = Inr (b, s')" and "unchanged N org s"
  shows "unchanged N org s'"
  using assms
proof (induction m arbitrary: s)
  case (Suc m)
  then obtain v s1 where r: "fuzz_round E n tc refs ign s = Inr (v, s1)"
    and rest: "s1 = s' \<or> check_rounds (E\<lparr>conf_inputs_per_class := n\<rparr>) m tc refs ign s1 = Inr (b, s')"
    by (auto simp: rbind_eq_Inr_iff split: if_splits)
  have "unchanged N org s1" using keeps [OF r] Suc.prems(2) by (auto simp: unchanged_def)
  then show ?case using rest Suc.IH by auto
qed simp

lemma diff_check_keeps: "diff_check E X s = Inr (b, s') \<Longrightarrow> unchanged N org s \<Longrightarrow> unchanged N org s'"
  unfolding diff_check_def check_for_violation_def by (rule check_keeps)

lemma changed_check:
  assumes "diff_check E X s = Inr (b, s')" and "changed N X B f org s"
  shows "changed N X B f org s' \<and> (b \<longrightarrow> confirmed E X N s')"
proof -
  have "unchanged N (inputs_of s) s" using assms(2) by (simp add: changed_def unchanged_def)
  from diff_check_keeps [OF assms(1) this] have "unchanged N (inputs_of s) s'" .
  then have same: "N \<le> next_ref s'" "\<forall>r < N. inputs_of s' r = inputs_of s r" by (simp_all add: unchanged_def)
  then have "changed N X B f org s'" using assms(2) by (simp add: changed_def)
  moreover have "b \<longrightarrow> confirmed E X N s'" unfolding confirmed_def using assms(1) same(2) by metis
  ultimately show ?thesis by blast
qed

lemma zero_out_block_result:
  assumes "zero_out_block E X org k reg i n s = Inr (m, s')" and "unchanged N org s"
  shows "m = 1 \<and> unchanged N org s' \<or> 1 < m \<and> changed N X (block k reg i m) (\<lambda>_ _. 0) org s' \<and> confirmed E X N s'"
  using assms
proof (induction n arbitrary: s rule: less_induct)
  case (less n)
  note unf = zero_out_block.simps [of E X org k reg i n s]
  show ?case
  proof (cases "1 < n")
    case True
    with less.prems(1) unf obtain s1 b s2 where z: "rfold (\<lambda>s j. zero_addr X k reg (i + j) s) s [0..<n] = Inr s1"
      and c: "diff_check E X s1 = Inr (b, s2)" by (auto simp: rbind_eq_Inr_iff)
    have "changed N X (block k reg i n) (\<lambda>_ _. 0) org s1"
      by (rule changed_writes [OF less.prems(2) rfold_writes [OF zero_addr_writes z]])
    from changed_check [OF c this] have c2: "changed N X (block k reg i n) (\<lambda>_ _. 0) org s2" "b \<Longrightarrow> confirmed E X N s2" by auto
    show ?thesis
    proof (cases b)
      case False
      with less.prems(1) unf True z c obtain s3 where
        r: "rfold (\<lambda>s j. restore_addr X org k reg (i + j) s) s2 [0..<n] = Inr s3"
        and rest: "zero_out_block E X org k reg i (n div 2) s3 = Inr (m, s')" by (auto simp: rbind_eq_Inr_iff)
      have "unchanged N org s3" by (rule changed_restore [OF c2(1) rfold_writes [OF restore_addr_writes r]])
      from less.IH [OF _ rest this] True show ?thesis by simp
    qed (use less.prems(1) unf True z c c2 in auto)
  qed (use less.prems unf in auto)
qed

lemma copy_entry_result:
  assumes r: "copy_entry E X org k reg i (addr (k, reg, i)) leaked s4 = Inr (leaked', s')"
    and u4: "unchanged N org s4" and N: "dx_a X < N" "dx_b X < N" and s: "inputs_of s = org"
  shows "evolves E X N {(k, reg, i)} s s' \<and> set leaked \<subseteq> set leaked' \<and> settled X addr leaked' s' (k, reg, i)"
proof -
  let ?p = "(k, reg, i)"
  show ?thesis
  proof (cases "cell (inputs_of s4 (dx_a X)) ?p = cell (inputs_of s4 (dx_b X)) ?p")
    case True
    then have "leaked' = leaked" "s' = s4" using r by (auto simp: copy_entry_def rbind_eq_Inr_iff read_entry_iff)
    then show ?thesis using evolves_unchanged [of N s s4] u4 True s by (simp add: settled_def)
  next
    case ne: False
    with r obtain s5 s6 b s7 where
      w5: "write_entry (dx_a X) k reg i (cell (org (dx_a X)) ?p) s4 = Inr s5"
      and w6: "write_entry (dx_b X) k reg i (cell (inputs_of s5 (dx_a X)) ?p) s5 = Inr s6"
      and c7: "diff_check E X s6 = Inr (b, s7)"
      and rest: "b \<and> leaked' = leaked \<and> s' = s7 \<or> leaked' = leaked @ [addr ?p] \<and> restore_addr X org k reg i s7 = Inr s'"
      by (auto simp: copy_entry_def rbind_eq_Inr_iff read_entry_iff split: if_splits)
    have "cell (inputs_of s5 (dx_a X)) ?p = cell (org (dx_a X)) ?p"
      using write_entry_writes [OF w5] by (simp add: writes_def)
    then have "writes {dx_a X, dx_b X} {?p} (\<lambda>_ _. cell (org (dx_a X)) ?p) s4 s6"
      using writes_refs [OF write_entry_writes [OF w5]] write_entry_writes [OF w6] by (simp add: insert_commute)
    from changed_check [OF c7 changed_writes [OF u4 this]]
    have c8: "changed N X {?p} (\<lambda>_ _. cell (org (dx_a X)) ?p) org s7" "b \<Longrightarrow> confirmed E X N s7" by auto
    from rest show ?thesis
    proof
      assume "b \<and> leaked' = leaked \<and> s' = s7"
      then have b: "b" "leaked' = leaked" "s' = s7" by auto
      show ?thesis
        unfolding b(2,3) using evolves_changed [OF c8(1) [folded s] c8(2) [OF b(1)] order_refl] changed_settled [OF c8(1) N] by simp
    next
      assume l: "leaked' = leaked @ [addr ?p] \<and> restore_addr X org k reg i s7 = Inr s'"
      then have "unchanged N (inputs_of s) s'" using changed_restore [OF c8(1) restore_addr_writes] s by simp
      from evolves_unchanged [OF this] l show ?thesis by (simp add: settled_def subset_insertI)
    qed
  qed
qed

lemma process_entry_result:
  assumes r: "process_entry E X org k reg i (addr (k, reg, i)) leaked s1 = Inr (leaked', s')"
    and u: "unchanged N org s1" and N: "dx_a X < N" "dx_b X < N" and s: "inputs_of s = org"
  shows "evolves E X N {(k, reg, i)} s s' \<and> set leaked \<subseteq> set leaked' \<and> settled X addr leaked' s' (k, reg, i)"
proof -
  let ?p = "(k, reg, i)"
  from r obtain s2 b s3 where w: "zero_addr X k reg i s1 = Inr s2" and c: "diff_check E X s2 = Inr (b, s3)"
    and rest: "b \<and> leaked' = leaked \<and> s' = s3 \<or>
      (\<exists>s4. restore_addr X org k reg i s3 = Inr s4 \<and> copy_entry E X org k reg i (addr ?p) leaked s4 = Inr (leaked', s'))"
    by (auto simp: process_entry_def rbind_eq_Inr_iff split: if_splits)
  from changed_check [OF c changed_writes [OF u zero_addr_writes [OF w]]]
  have c3: "changed N X {?p} (\<lambda>_ _. 0) org s3" "b \<Longrightarrow> confirmed E X N s3" by auto
  from rest show ?thesis
  proof
    assume "b \<and> leaked' = leaked \<and> s' = s3"
    then have b: "b" "leaked' = leaked" "s' = s3" by auto
    show ?thesis
      unfolding b(2,3) using evolves_changed [OF c3(1) [folded s] c3(2) [OF b(1)] order_refl] changed_settled [OF c3(1) N] by simp
  next
    assume "\<exists>s4. restore_addr X org k reg i s3 = Inr s4 \<and> copy_entry E X org k reg i (addr ?p) leaked s4 = Inr (leaked', s')"
    then obtain s4 where r4: "restore_addr X org k reg i s3 = Inr s4"
      "copy_entry E X org k reg i (addr ?p) leaked s4 = Inr (leaked', s')" by blast
    show ?thesis by (rule copy_entry_result [where addr = addr, OF r4(2) changed_restore [OF c3(1) restore_addr_writes [OF r4(1)]] N s])
  qed
qed

lemma process_block_result:
  assumes "process_block E X k reg i sz (addr (k, reg, i)) leaked s = Inr ((n, leaked'), s')"
    and N: "N \<le> next_ref s" "dx_a X < N" "dx_b X < N"
  shows "evolves E X N (block k reg i n) s s' \<and> set leaked \<subseteq> set leaked' \<and>
     (\<forall>p \<in> block k reg i n. settled X addr leaked' s' p)"
proof -
  have start: "unchanged N (inputs_of s) s" using N(1) by (simp add: unchanged_def)
  from assms(1) obtain m s1 where z: "zero_out_block E X (inputs_of s) k reg i (start_block_size i sz) s = Inr (m, s1)"
    and rest: "if 1 < m then n = m \<and> leaked' = leaked \<and> s' = s1
      else n = 1 \<and> process_entry E X (inputs_of s) k reg i (addr (k, reg, i)) leaked s1 = Inr (leaked', s')"
    by (auto simp: process_block_def Let_def rbind_eq_Inr_iff split: if_splits)
  note z1 = zero_out_block_result [OF z start]
  show ?thesis
  proof (cases "1 < m")
    case True
    then have c: "changed N X (block k reg i m) (\<lambda>_ _. 0) (inputs_of s) s1" "confirmed E X N s1" using z1 by auto
    show ?thesis using rest True evolves_changed [OF c order_refl] changed_settled [OF c(1) N(2,3)] by auto
  next
    case False
    then have "unchanged N (inputs_of s) s1" using z1 by simp
    moreover have "process_entry E X (inputs_of s) k reg i (addr (k, reg, i)) leaked s1 = Inr (leaked', s')" "n = 1"
      using rest False by auto
    ultimately show ?thesis using process_entry_result [where addr = addr, OF _ _ N(2,3) refl] by (metis block_one One_nat_def singletonD)
  qed
qed

lemma process_region_result:
  assumes "process_region E X k reg sz off i leaked s = Inr (leaked', s')"
    and "N \<le> next_ref s" and N: "dx_a X < N" "dx_b X < N" and addr: "\<And>j. addr (k, reg, j) = k * 0x4000 + off + j * 8"
  shows "evolves E X N {(k, reg, j) |j. i \<le> j} s s' \<and> set leaked \<subseteq> set leaked' \<and>
     (\<forall>j. i \<le> j \<longrightarrow> j < sz \<longrightarrow> settled X addr leaked' s' (k, reg, j))"
  using assms(1,2)
proof (induction "sz - i" arbitrary: i leaked s rule: less_induct)
  case less
  show ?case
  proof (cases "i < sz")
    case True
    with less.prems(1) process_region.simps [of E X k reg sz off i leaked s] obtain n l1 s1 where
      b: "process_block E X k reg i sz (addr (k, reg, i)) leaked s = Inr ((n, l1), s1)"
      and rest: "process_region E X k reg sz off (i + n) l1 s1 = Inr (leaked', s')"
      by (auto simp: rbind_eq_Inr_iff addr)
    from process_block_result [where addr = addr, OF b less.prems(2) N] have one: "evolves E X N (block k reg i n) s s1" "set leaked \<subseteq> set l1"
      "\<forall>p \<in> block k reg i n. settled X addr l1 s1 p" by auto
    have "N \<le> next_ref s1" "sz - (i + n) < sz - i" using one(1) process_block_pos [OF b] True by (auto simp: evolves_def)
    from less.hyps [OF this(2) rest this(1)] have two: "evolves E X N {(k, reg, j) |j. i + n \<le> j} s1 s'" "set l1 \<subseteq> set leaked'"
      "\<forall>j. i + n \<le> j \<longrightarrow> j < sz \<longrightarrow> settled X addr leaked' s' (k, reg, j)" by auto
    have "evolves E X N {(k, reg, j) |j. i \<le> j} s s'"
      by (rule evolves_mono [OF evolves_trans [OF one(1) two(1)]]) (auto simp: block_def)
    moreover have "settled X addr leaked' s' (k, reg, j)" if "i \<le> j" "j < i + n" for j
      by (rule settled_evolves [OF _ two(1) _ two(2) N]) (use one(3) that in \<open>auto simp: block_def\<close>)
    ultimately show ?thesis using one(2) two by (auto simp: not_less [symmetric])
  next
    case False
    with less.prems(1) have "leaked' = leaked" "s' = s" using process_region.simps [of E X k reg sz off i leaked s] by auto
    then show ?thesis using False less.prems(2) evolves_refl by auto
  qed
qed

lemma process_regions_result:
  assumes "process_regions E X k regs off leaked s = Inr (leaked', s')"
    and "N \<le> next_ref s" and N: "dx_a X < N" "dx_b X < N" and "distinct regs"
    and "\<And>reg j. reg \<in> set regs \<Longrightarrow> addr (k, reg, j) = k * 0x4000 + (off + len_before len regs reg * 8) + j * 8"
    and "k < length (actors (inputs_of s (dx_a X)))" and "region_len (inputs_of s (dx_a X)) k = len"
  shows "evolves E X N {(k, reg, j) |reg j. reg \<in> set regs} s s' \<and> set leaked \<subseteq> set leaked' \<and>
     (\<forall>reg j. reg \<in> set regs \<longrightarrow> j < len reg \<longrightarrow> settled X addr leaked' s' (k, reg, j))"
  using assms(1,2,5-)
proof (induction regs arbitrary: off leaked s)
  case (Cons r regs)
  from Cons.prems(1,5,6) obtain l1 s1 where r: "process_region E X k r (len r) off 0 leaked s = Inr (l1, s1)"
    and rest: "process_regions E X k regs (off + len r * 8) l1 s1 = Inr (leaked', s')"
    by (auto simp: rbind_eq_Inr_iff Let_def region_len_def)
  have "addr (k, r, j) = k * 0x4000 + off + j * 8" for j using Cons.prems(4) [of r j] by (simp add: len_before_def)
  from process_region_result [where addr = addr, OF r Cons.prems(2) N this]
  have one: "evolves E X N {(k, r, j) |j. 0 \<le> j} s s1" "set leaked \<subseteq> set l1" "\<forall>j < len r. settled X addr l1 s1 (k, r, j)" by auto
  have "addr (k, reg, j) = k * 0x4000 + ((off + len r * 8) + len_before len regs reg * 8) + j * 8" if "reg \<in> set regs" for reg j
  proof -
    have "reg \<noteq> r" using that Cons.prems(3) by auto
    then show ?thesis using Cons.prems(4) [of reg j] that by (simp add: len_before_def)
  qed
  moreover have "N \<le> next_ref s1" using one(1) by (simp add: evolves_def)
  moreover have "region_len (inputs_of s1 (dx_a X)) k = len" "k < length (actors (inputs_of s1 (dx_a X)))"
    using evolves_len [OF one(1) N(1) Cons.prems(5)] Cons.prems(6) by auto
  moreover have "distinct regs" "r \<notin> set regs" using Cons.prems(3) by auto
  ultimately have two: "evolves E X N {(k, reg, j) |reg j. reg \<in> set regs} s1 s'" "set l1 \<subseteq> set leaked'"
    "\<forall>reg j. reg \<in> set regs \<longrightarrow> j < len reg \<longrightarrow> settled X addr leaked' s' (k, reg, j)"
    using Cons.IH [OF rest] by auto
  have "evolves E X N {(k, reg, j) |reg j. reg \<in> set (r # regs)} s s'"
    by (rule evolves_mono [OF evolves_trans [OF one(1) two(1)]]) auto
  moreover have "settled X addr leaked' s' (k, r, j)" if "j < len r" for j
    by (rule settled_evolves [OF _ two(1) _ two(2) N]) (use one(3) that \<open>r \<notin> set regs\<close> in auto)
  ultimately show ?case using one(2) two by auto
qed (use evolves_refl in auto)

lemma process_actors_result:
  assumes "rfold (\<lambda>(leaked, s) actor. process_actor E X actor leaked s) ([], s) [0..<n] = Inr (leaked, s')"
    and "N \<le> next_ref s" and N: "dx_a X < N" "dx_b X < N"
  shows "evolves E X N {(k, reg, j) |k reg j. k < n} s s' \<and>
     (\<forall>p. fst p < n \<longrightarrow> valid (inputs_of s (dx_a X)) p \<longrightarrow> settled X (entry_address (inputs_of s (dx_a X))) leaked s' p)"
  using assms(1)
proof (induction n arbitrary: leaked s')
  case (Suc n)
  let ?x = "inputs_of s (dx_a X)"
  from Suc.prems obtain l1 s1 where f: "rfold (\<lambda>(leaked, s) actor. process_actor E X actor leaked s) ([], s) [0..<n] = Inr (l1, s1)"
    and a: "process_regions E X n regions 0 l1 s1 = Inr (leaked, s')"
    by (auto simp: rfold_append rbind_eq_Inr_iff process_actor_def regions_def)
  from Suc.IH [OF f] have one: "evolves E X N {(k, reg, j) |k reg j. k < n} s s1"
    "\<forall>p. fst p < n \<longrightarrow> valid ?x p \<longrightarrow> settled X (entry_address ?x) l1 s1 p" by auto
  have all: "reg \<in> set regions" for reg by (cases reg) (auto simp: regions_def)
  have al: "alike ?x (inputs_of s1 (dx_a X))" using one(1) N(1) by (simp add: evolves_def)
  have n1: "n < length (actors (inputs_of s1 (dx_a X)))"
    using a by (auto simp: regions_def rbind_eq_Inr_iff py_nth_def py_index_def split: if_splits)
  then have len: "region_len (inputs_of s1 (dx_a X)) n = region_len ?x n" using al by (auto simp: alike_def region_len_def)
  have "N \<le> next_ref s1" using one(1) by (simp add: evolves_def)
  moreover have "distinct regions" by (simp add: regions_def)
  moreover have "entry_address ?x (n, reg, j) = n * 0x4000 + (0 + len_before (region_len ?x n) regions reg * 8) + j * 8" for reg j
    by (simp add: entry_address_def)
  ultimately have two: "evolves E X N {(n, reg, j) |reg j. reg \<in> set regions} s1 s'" "set l1 \<subseteq> set leaked"
    "\<forall>reg j. j < region_len ?x n reg \<longrightarrow> settled X (entry_address ?x) leaked s' (n, reg, j)"
    using process_regions_result [where addr = "entry_address ?x", OF a _ N _ _ n1 len] all by auto
  have "evolves E X N {(k, reg, j) |k reg j. k < Suc n} s s'"
    by (rule evolves_mono [OF evolves_trans [OF one(1) two(1)]]) auto
  moreover have "settled X (entry_address ?x) leaked s' p" if "fst p < Suc n" "valid ?x p" for p
  proof (cases "fst p = n")
    case True
    then show ?thesis using two(3) that by (cases p) (auto simp: valid_def region_len_def)
  next
    case False
    then have "settled X (entry_address ?x) l1 s1 p" using that one(2) by (simp del: split_paired_All)
    then show ?thesis by (rule settled_evolves [OF _ two(1) _ two(2) N]) (use False in auto)
  qed
  ultimately show ?case by blast
qed (use assms(2) evolves_refl in auto)

lemma diff_pass_result:
  assumes "diff_pass_run E n tc v s = Inr ((refs, leaked), s')" and "\<forall>r \<in> set (input_sequence v). r < next_ref s"
  shows "\<exists>X. set_pass_context tc v = Inr X \<and> refs = input_sequence v \<and>
     (\<forall>r < next_ref s. r \<notin> {dx_a X, dx_b X} \<longrightarrow> inputs_of s' r = inputs_of s r) \<and>
     (\<forall>p. fst p < n \<longrightarrow> valid (inputs_of s (dx_a X)) p \<longrightarrow>
        cell (inputs_of s' (dx_a X)) p = cell (inputs_of s' (dx_b X)) p \<or> entry_address (inputs_of s (dx_a X)) p \<in> set leaked) \<and>
     ((\<forall>r < next_ref s. inputs_of s' r = inputs_of s r) \<or> confirmed E X (next_ref s) s')"
proof -
  from assms(1) obtain X where X: "set_pass_context tc v = Inr X" and refs: "refs = dx_inputs X"
    and r: "rfold (\<lambda>(leaked, s) actor. process_actor E X actor leaked s) ([], s) [0..<n] = Inr (leaked, s')"
    by (auto simp: diff_pass_run_def rbind_eq_Inr_iff)
  from X have "dx_inputs X = input_sequence v" "dx_a X \<in> set (input_sequence v)" "dx_b X \<in> set (input_sequence v)"
    by (auto simp: set_pass_context_def Let_def rbind_eq_Inr_iff py_nth_def py_index_def split: if_splits)
  with process_actors_result [OF r order_refl] assms(2) X refs show ?thesis
    by (auto simp: evolves_def settled_def simp del: split_paired_All)
qed

end

section \<open>Blocks\<close>

lemma pow2_below_bounds: "0 < n \<Longrightarrow> \<exists>e. pow2_below n = 2 ^ e \<and> pow2_below n \<le> n"
proof (induction n rule: pow2_below.induct)
  case (1 n)
  show ?case
  proof (cases "n < 2")
    case True
    then show ?thesis using 1(2) by (subst (1 2) pow2_below.simps) (auto intro: exI [of _ 0])
  next
    case False
    then have "0 < n div 2" by (simp add: div_greater_zero_iff)
    then obtain e where e: "pow2_below (n div 2) = 2 ^ e" "pow2_below (n div 2) \<le> n div 2" using 1(1) False by auto
    have "pow2_below n = 2 * pow2_below (n div 2)" using False by (subst pow2_below.simps) simp
    then show ?thesis using e by (intro exI [of _ "Suc e"]) auto
  qed
qed

lemma align_block_bounds: "\<exists>k \<le> e. align_block addr (2 ^ e) = 2 ^ k \<and> addr mod 2 ^ k = 0"
proof (induction e)
  case 0
  show ?case by (subst align_block.simps) simp
next
  case (Suc e)
  show ?case
  proof (cases "addr mod 2 ^ Suc e = 0")
    case True
    then show ?thesis by (subst align_block.simps) (auto intro!: exI [of _ "Suc e"])
  next
    case False
    have "1 < (2 :: nat) ^ Suc e" by (rule one_less_power) auto
    then have "align_block addr (2 ^ Suc e) = align_block addr (2 ^ e)"
      using False by (subst align_block.simps) simp
    then show ?thesis using Suc by (auto intro: le_SucI)
  qed
qed

text \<open>
  The blocks that the differential pass tries to zero are powers of two of at most 64 entries, aligned
  to their size, and stay inside the region, so that no entry of another region is written.
\<close>
theorem block_size_bounds:
  assumes "addr < region_size"
  shows "\<exists>e. start_block_size addr region_size = 2 ^ e \<and> addr mod 2 ^ e = 0 \<and>
     start_block_size addr region_size \<le> 64 \<and> addr + start_block_size addr region_size \<le> region_size"
proof -
  let ?n = "min (MAX_BLOCK_SIZE - addr mod MAX_BLOCK_SIZE) (region_size - addr)"
  have "addr mod 64 < 64" by simp
  then have "0 < ?n" using assms by (simp add: MAX_BLOCK_SIZE_def)
  then obtain e where e: "pow2_below ?n = 2 ^ e" "(2 :: nat) ^ e \<le> ?n" using pow2_below_bounds [of ?n] by auto
  obtain k where k: "k \<le> e" "start_block_size addr region_size = 2 ^ k" "addr mod 2 ^ k = 0"
    using align_block_bounds [of e addr] e(1) by (auto simp: start_block_size_def)
  have "(2 :: nat) ^ k \<le> 2 ^ e" using k(1) by (rule power_increasing) simp
  then have "(2 :: nat) ^ k \<le> ?n" using e(2) by (rule order_trans)
  then have "(2 :: nat) ^ k \<le> 64" "(2 :: nat) ^ k \<le> region_size - addr" by (auto simp: MAX_BLOCK_SIZE_def)
  then show ?thesis using k(2,3) assms by auto
qed

theorem block_size_bounds_witness:
  "\<exists>e. start_block_size 96 512 = 2 ^ e \<and> (96 :: nat) mod 2 ^ e = 0 \<and> start_block_size 96 512 \<le> 64 \<and> 96 + start_block_size 96 512 \<le> 512"
  using block_size_bounds [of 96 512] by simp

end
