(* ===== verification/AnalysisPasses.thy ===== *)
theory AnalysisPasses
  imports InstructionPasses Sandbox
begin

text \<open>
  Model of \<^verbatim>\<open>rvzr/postprocessing/analysis_passes.py\<close>: the pass that writes, behind every line of the
  assembly file that accesses memory, a comment with the addresses the two violating inputs access. The
  traces of the sequential model and the positions of the instructions are arguments; the result is the
  new text of the file.
\<close>

text \<open>Loads and stores by program counter: a later entry for the same counter replaces an earlier one.\<close>

fun ctrace_map :: "CTraceEntry list \<Rightarrow> (int, int \<times> int) dict" where
  "ctrace_map (v1 # v2 # v3 # rest) =
     (let m = ctrace_map (v2 # v3 # rest)
      in if entry_type v1 = CT_pc \<and> entry_type v2 = CT_mem \<and> map_of m (entry_value v1) = None
         then AList.update (entry_value v1) (entry_value v2, if entry_type v3 = CT_mem then entry_value v3 else 0) m
         else m)"
| "ctrace_map _ = []"

text \<open>Instructions as owner, offset in the section and line number; the sandbox starts at \<open>code_start\<close>.\<close>

definition line_num_to_pc :: "SandboxLayout \<Rightarrow> int \<Rightarrow> (nat \<times> int \<times> nat) list \<Rightarrow> (nat, int) dict res" where
  "line_num_to_pc l start insts =
     rfold (\<lambda>d (actor_id, section_offset, line_num).
       rbind (get_code_addr l CA_MAIN (int actor_id)) (\<lambda>actor_start_pc.
         ok (if line_num \<noteq> 0 then AList.update line_num (actor_start_pc + section_offset - start) d else d))) [] insts"

definition access_text :: "nat \<Rightarrow> int \<times> int \<Rightarrow> bool \<Rightarrow> string" where
  "access_text i access stores =
     (let ld = fst access; st = snd access
      in ''['' @ str_nat i @ ''] '' @ hex_int ld @ (if stores then ''-'' @ hex_int st else []) @
         '' CL '' @ str_int (ld mod 0x1000 div 64) @ '':'' @ str_int (ld mod 0x1000 mod 64))"

definition access_comments :: "isa \<Rightarrow> nat \<Rightarrow> nat \<Rightarrow> int \<times> int \<Rightarrow> int \<times> int \<Rightarrow> string list" where
  "access_comments I i j a b =
     (let stores = (snd a \<noteq> 0 \<or> snd b \<noteq> 0)
      in (comment_symbol I @ '' mem access: '' @ access_text i a stores @ '' | '' @ access_text j b stores @ [CHR 0x0A]) #
         (if snd a = 0xff8 \<or> snd b = 0xff8 then [comment_symbol I @ '' exception?'' @ [CHR 0x0A]] else []))"

text \<open>
  The comments behind line \<open>i\<close>. With fewer than two violating inputs the maps or the ids run out, which
  raises when the first line with an instruction is written.
\<close>

definition line_comments ::
  "isa \<Rightarrow> nat list \<Rightarrow> (int, int \<times> int) dict list \<Rightarrow> (nat, int) dict \<Rightarrow> nat \<Rightarrow> string list res" where
  "line_comments I ids maps pcs i =
     (case map_of pcs i of
        None \<Rightarrow> ok []
      | Some pc \<Rightarrow>
          rbind (py_nth maps 0) (\<lambda>m0.
            case map_of m0 pc of
              None \<Rightarrow> ok []
            | Some a \<Rightarrow>
                rbind (py_nth maps 1) (\<lambda>m1.
                  case map_of m1 pc of
                    None \<Rightarrow> ok []
                  | Some b \<Rightarrow> rbind (py_nth ids 0) (\<lambda>id0. rbind (py_nth ids 1) (\<lambda>id1.
                      ok (access_comments I id0 id1 a b))))))"

definition annotate ::
  "isa \<Rightarrow> nat list \<Rightarrow> (int, int \<times> int) dict list \<Rightarrow> (nat, int) dict \<Rightarrow> string list \<Rightarrow> string list res" where
  "annotate I ids maps pcs lines =
     rbind (rmapM (\<lambda>(i, line). rbind (line_comments I ids maps pcs i) (\<lambda>cs. ok (line # cs))) (enumerate 0 lines))
       (\<lambda>ls. ok (concat ls))"

definition comments_pass_text ::
  "isa \<Rightarrow> 'inp TraceBundle list \<Rightarrow> CTraceEntry list list \<Rightarrow> (nat \<times> int \<times> nat) list \<Rightarrow> nat \<Rightarrow> string \<Rightarrow> string res" where
  "comments_pass_text I measurements ctraces insts n_actors code =
     (let data_base = 0x2000000; code_base = 0x1000000; ids = map input_id (take 2 measurements)
      in rbind (SandboxLayout_init (data_base, code_base) n_actors) (\<lambda>l.
         rbind (line_num_to_pc l code_base insts) (\<lambda>pcs.
         rbind (annotate I ids (map ctrace_map ctraces) pcs (readlines code)) (\<lambda>lines. ok (concat lines)))))"


section \<open>Only comments are added\<close>

lemma hex_digits_no_newline: "CHR 0x0A \<notin> set (hex_digits n)"
proof (induction n rule: hex_digits.induct)
  case (1 n)
  have "CHR 0x0A \<noteq> hex_digit d" if "d < 16" for d
    using that by (auto simp: hex_digit_def dest!: arg_cong [where f = "of_char :: char \<Rightarrow> nat"])
  from this [of n] this [of "n mod 16"] show ?case using 1 by (subst hex_digits.simps) (simp split: if_splits)
qed

lemma hex_int_no_newline: "CHR 0x0A \<notin> set (hex_int i)"
  using hex_digits_no_newline by (auto simp: hex_int_def hex_def)

lemma str_nat_no_newline: "CHR 0x0A \<notin> set (str_nat n)"
  using str_nat_is_digit [of "CHR 0x0A" n] by (auto simp: is_digit_def)

lemma str_int_no_newline: "CHR 0x0A \<notin> set (str_int i)"
  using str_nat_no_newline by (auto simp: str_int_def)

lemma access_text_no_newline: "CHR 0x0A \<notin> set (access_text i a st)"
  using hex_int_no_newline str_nat_no_newline str_int_no_newline by (auto simp: access_text_def Let_def)

text \<open>A line of the file that holds nothing but a comment.\<close>

definition comment_line :: "isa \<Rightarrow> string \<Rightarrow> bool" where
  "comment_line I l \<longleftrightarrow> starts_with l (comment_symbol I)"

lemma is_lineI: "CHR 0x0A \<notin> set b \<Longrightarrow> is_line (b @ [CHR 0x0A])"
  unfolding is_line_def by blast

lemma access_comments_lines: "c \<in> set (access_comments I i j a b) \<Longrightarrow> comment_line I c \<and> is_line c"
proof -
  let ?st = "snd a \<noteq> 0 \<or> snd b \<noteq> 0"
  let ?c = "comment_symbol I @ '' mem access: '' @ access_text i a ?st @ '' | '' @ access_text j b ?st"
  have sym: "CHR 0x0A \<notin> set (comment_symbol I)" "starts_with (comment_symbol I @ xs) (comment_symbol I)" for xs
    by (cases I; simp add: comment_symbol_def)+
  assume "c \<in> set (access_comments I i j a b)"
  then consider "c = ?c @ [CHR 0x0A]" | "c = (comment_symbol I @ '' exception?'') @ [CHR 0x0A]"
    by (auto simp: access_comments_def Let_def split: if_splits)
  then show ?thesis
  proof cases
    case 1
    have "CHR 0x0A \<notin> set ?c" using access_text_no_newline sym(1) by simp
    then show ?thesis using is_lineI sym(2) unfolding 1 comment_line_def by (metis append.assoc)
  next
    case 2
    have "CHR 0x0A \<notin> set (comment_symbol I @ '' exception?'')" using sym(1) by simp
    then show ?thesis using is_lineI sym(2) unfolding 2 comment_line_def by (metis append.assoc)
  qed
qed

lemma line_comments_lines:
  "line_comments I ids maps pcs i = Inr cs \<Longrightarrow> c \<in> set cs \<Longrightarrow> comment_line I c \<and> is_line c"
  using access_comments_lines by (auto simp: line_comments_def rbind_eq_Inr_iff split: option.splits)

lemma rmapM_annotate:
  assumes "rmapM (\<lambda>(i, line). rbind (line_comments I ids maps pcs i) (\<lambda>cs. ok (line # cs))) (enumerate n lines) = Inr ls"
    and "list_all is_line lines"
  shows "list_all is_line (concat ls) \<and> filter (\<lambda>l. \<not> comment_line I l) (concat ls) = filter (\<lambda>l. \<not> comment_line I l) lines"
  using assms
proof (induction lines arbitrary: n ls)
  case (Cons line lines)
  then obtain cs ls' where cs: "line_comments I ids maps pcs n = Inr cs" and ls: "ls = (line # cs) # ls'"
    and rest: "rmapM (\<lambda>(i, line). rbind (line_comments I ids maps pcs i) (\<lambda>cs. ok (line # cs))) (enumerate (Suc n) lines) = Inr ls'"
    by (auto simp: rbind_eq_Inr_iff)
  have "\<forall>c \<in> set cs. comment_line I c \<and> is_line c" using line_comments_lines [OF cs] by blast
  then have "list_all is_line cs" "filter (\<lambda>l. \<not> comment_line I l) cs = []" by (auto simp: list_all_iff)
  then show ?case using Cons.IH [OF rest] Cons.prems(2) by (simp add: ls)
qed simp

lemma readlines_complete:
  assumes "code = [] \<or> last code = CHR 0x0A"
  shows "list_all is_line (readlines code)"
proof -
  obtain ls t where sh: "readlines code = ls @ t" "list_all is_line ls"
    "t = [] \<or> (\<exists>l. t = [l] \<and> l \<noteq> [] \<and> CHR 0x0A \<notin> set l)" "concat (ls @ t) = code" using readlines_shape by blast
  have "t = []"
  proof (rule ccontr)
    assume "t \<noteq> []"
    with sh(3) obtain l where l: "t = [l]" "l \<noteq> []" "CHR 0x0A \<notin> set l" by blast
    with sh(4) have "last code = last l" "code \<noteq> []" by auto
    with assms l show False by (metis last_in_set)
  qed
  then show ?thesis using sh(1,2) by simp
qed

text \<open>
  The comment pass adds comments and nothing else: a file of complete lines keeps its other lines,
  in their order.
\<close>
theorem comments_pass_keeps_code:
  assumes "comments_pass_text I measurements ctraces insts n_actors code = Inr out" and "code = [] \<or> last code = CHR 0x0A"
  shows "filter (\<lambda>l. \<not> comment_line I l) (readlines out) = filter (\<lambda>l. \<not> comment_line I l) (readlines code)"
proof -
  let ?maps = "map ctrace_map ctraces" and ?ids = "map input_id (take 2 measurements)"
  from assms(1) obtain pcs ls where
    ls: "rmapM (\<lambda>(i, line). rbind (line_comments I ?ids ?maps pcs i) (\<lambda>cs. ok (line # cs))) (enumerate 0 (readlines code)) = Inr ls"
    and out: "out = concat (concat ls)"
    by (auto simp: comments_pass_text_def annotate_def Let_def rbind_eq_Inr_iff)
  from rmapM_annotate [OF ls readlines_complete [OF assms(2)]] show ?thesis
    using readlines_lines [of "concat ls" "[]"] by (simp add: out)
qed

definition commented_bundle :: "nat \<Rightarrow> nat TraceBundle" where
  "commented_bundle i = \<lparr>input_id = i, bundle_input = 0, bundle_ctrace = CTrace_empty plain_hashing,
     bundle_htrace = HTrace_init plain_hashing [] HT_cache\<rparr>"

definition commented_trace :: "int \<Rightarrow> CTraceEntry list" where
  "commented_trace a = map (\<lambda>(t, v). \<lparr>entry_type = t, entry_value = v\<rparr>) [(CT_pc, 4), (CT_mem, a), (CT_pc, 8)]"

theorem comments_pass_keeps_code_witness:
  "\<exists>out. comments_pass_text X86_64 [commented_bundle 3, commented_bundle 5] [commented_trace 0x40, commented_trace 0x1081]
     [(0, 0, 1), (0, 4, 2)] 1 (''.intel_syntax noprefix'' @ [CHR 0x0A] @ ''nop'' @ [CHR 0x0A] @ ''mov rax, [r14]'' @ [CHR 0x0A]) = Inr out \<and>
   readlines out ! 3 = ''# mem access: [3] 0x40 CL 1:0 | [5] 0x1081 CL 2:1'' @ [CHR 0x0A] \<and>
   filter (\<lambda>l. \<not> comment_line X86_64 l) (readlines out) =
     [''.intel_syntax noprefix'' @ [CHR 0x0A], ''nop'' @ [CHR 0x0A], ''mov rax, [r14]'' @ [CHR 0x0A]]"
proof -
  let ?code = "''.intel_syntax noprefix'' @ [CHR 0x0A] @ ''nop'' @ [CHR 0x0A] @ ''mov rax, [r14]'' @ [CHR 0x0A]"
  let ?out = "?code @ ''# mem access: [3] 0x40 CL 1:0 | [5] 0x1081 CL 2:1'' @ [CHR 0x0A]"
  have run: "comments_pass_text X86_64 [commented_bundle 3, commented_bundle 5] [commented_trace 0x40, commented_trace 0x1081]
     [(0, 0, 1), (0, 4, 2)] 1 ?code = Inr ?out" by code_simp
  have "?code = [] \<or> last ?code = CHR 0x0A" by simp
  from comments_pass_keeps_code [OF run this] have "filter (\<lambda>l. \<not> comment_line X86_64 l) (readlines ?out) =
     filter (\<lambda>l. \<not> comment_line X86_64 l) (readlines ?code)" .
  moreover have "filter (\<lambda>l. \<not> comment_line X86_64 l) (readlines ?code) =
     [''.intel_syntax noprefix'' @ [CHR 0x0A], ''nop'' @ [CHR 0x0A], ''mov rax, [r14]'' @ [CHR 0x0A]]" by code_simp
  moreover have "readlines ?out ! 3 = ''# mem access: [3] 0x40 CL 1:0 | [5] 0x1081 CL 2:1'' @ [CHR 0x0A]" by code_simp
  ultimately show ?thesis using run by metis
qed

end
