(* ===== verification/Minimizer.thy ===== *)
theory Minimizer
  imports InputPasses AnalysisPasses Fuzzer
begin

text \<open>
  Model of \<^verbatim>\<open>rvzr/postprocessing/minimizer.py\<close>: the driver that reproduces a violation and runs the
  passes over its inputs and its code. Inputs are references into a store; a fuzzing round of the
  fuzzer's model becomes a round on references by giving the boosted inputs it creates new references.
  Files other than the assembly text of a test case, and progress output, are not modelled.
\<close>

section \<open>Rounds on references\<close>

definition refer_bundle :: "nat list \<Rightarrow> InputData TraceBundle \<Rightarrow> nat TraceBundle" where
  "refer_bundle refs m = \<lparr>input_id = input_id m, bundle_input = refs ! input_id m, bundle_ctrace = bundle_ctrace m,
     bundle_htrace = bundle_htrace m\<rparr>"

definition refer_hw_class :: "nat list \<Rightarrow> InputData HardwareEqClass \<Rightarrow> nat HardwareEqClass" where
  "refer_hw_class refs h = \<lparr>hw_htrace = hw_htrace h, hw_measurements = map (refer_bundle refs) (hw_measurements h)\<rparr>"

definition refer_violation :: "nat list \<Rightarrow> (InputData, 'tc) Violation \<Rightarrow> (nat, 'tc) Violation" where
  "refer_violation refs v =
     \<lparr>viol_class = \<lparr>eq_ctrace = eq_ctrace (viol_class v),
        eq_measurements = map (refer_bundle refs) (eq_measurements (viol_class v)),
        eq_hw_classes = map_option (map (refer_hw_class refs)) (eq_hw_classes (viol_class v))\<rparr>,
      input_sequence = refs, viol_test_case_code = viol_test_case_code v\<rparr>"

text \<open>The originals come first in a boosted sequence and keep their references.\<close>

definition heap_round ::
  "fuzz_conf \<Rightarrow> (InputData, 'taint, 'tc, 'w fuzz_state) modules \<Rightarrow> nat \<Rightarrow> 'tc \<Rightarrow> nat list \<Rightarrow> nat list \<Rightarrow>
   'w fuzz_state store \<Rightarrow> ((nat, 'tc) Violation option \<times> 'w fuzz_state store) res" where
  "heap_round C M n tc refs ign s =
     rbind (fuzzing_round (C\<lparr>inputs_per_class := n\<rparr>) M tc (map (inputs_of s) refs) ign (world s)) (\<lambda>(v, w).
       case v of
         None \<Rightarrow> ok (None, s\<lparr>world := w\<rparr>)
       | Some v \<Rightarrow>
           (let new = drop (length refs) (input_sequence v);
                seq = refs @ [next_ref s..<next_ref s + length new]
            in ok (Some (refer_violation seq v),
                   s\<lparr>inputs_of := (\<lambda>r. if next_ref s \<le> r \<and> r < next_ref s + length new then new ! (r - next_ref s) else inputs_of s r),
                     next_ref := next_ref s + length new, world := w\<rparr>)))"

definition heap_env ::
  "fuzz_conf \<Rightarrow> 'g rng_ops \<Rightarrow> ('m, 'tc) outside \<Rightarrow> (('m, 'tc) std_state store, nat, 'tc) min_env \<Rightarrow>
   (('m, 'tc) std_state store, nat, 'tc) min_env" where
  "heap_env C R W E = E\<lparr>fuzz_round := heap_round C (standard_modules R W)\<rparr>"

lemma heap_round_keeps:
  "heap_round C M n tc refs ign s = Inr (v, s') \<Longrightarrow> unchanged (next_ref s) (inputs_of s) s'"
  by (auto simp: heap_round_def unchanged_def rbind_eq_Inr_iff Let_def split: option.splits)

lemma heap_round_unboosted:
  assumes "heap_round C (standard_modules R W) 1 tc refs ign s = Inr (Some v, s')"
  shows "input_sequence v = refs"
proof -
  from assms obtain v0 w where
    r: "fuzzing_round (C\<lparr>inputs_per_class := 1\<rparr>) (standard_modules R W) tc (map (inputs_of s) refs) ign (world s) = Inr (Some v0, w)"
    and v: "v = refer_violation (refs @ [next_ref s..<next_ref s + length (drop (length refs) (input_sequence v0))]) v0"
    by (auto simp: heap_round_def rbind_eq_Inr_iff Let_def split: option.splits)
  have "input_sequence v0 = map (inputs_of s) refs"
    using std.fuzzing_round_sourced [OF r] by (auto simp: genuine_def)
  then show ?thesis by (simp add: v refer_violation_def)
qed

interpretation seq_rounds: unboosted_rounds "heap_env C R W E"
  by unfold_locales (simp add: heap_env_def heap_round_unboosted del: One_nat_def)

interpretation diff_rounds: heap_rounds "heap_env C R W E"
  by unfold_locales (simp add: heap_env_def heap_round_keeps)

section \<open>The driver\<close>

text \<open>
  What the driver uses besides the services of the passes: the number of configured actors, the input
  generator, and for the comment pass the sequential model, the positions of the instructions and the
  same test case with a new text in its file.
\<close>

record ('s, 'tc) minimizer_env =
  n_actors_conf :: nat
  generate_inputs :: "nat \<Rightarrow> nat \<Rightarrow> 's store \<Rightarrow> (nat list \<times> 's store) res"
  tc_n_actors :: "'tc \<Rightarrow> nat"
  seq_traces :: "'tc \<Rightarrow> nat list \<Rightarrow> 's store \<Rightarrow> (CTraceEntry list list \<times> 's store) res"
  instruction_positions :: "'tc \<Rightarrow> (nat \<times> int \<times> nat) list"
  rewrite_file :: "string \<Rightarrow> 'tc \<Rightarrow> 'tc"

datatype min_pass =
    CodePass pass_class | LabelRemovalPass | AddViolationCommentsPass
  | InputSequenceMinimizationPass | DifferentialInputMinimizerPass

definition pass_map :: "(string, min_pass \<times> bool) dict" where
  "pass_map =
     [(''instruction_pass'', CodePass InstructionRemovalPass, False),
      (''simplification_pass'', CodePass InstructionSimplificationPass, False),
      (''nop_pass'', CodePass NopReplacementPass, False), (''constant_pass'', CodePass ConstantSimplificationPass, False),
      (''mask_pass'', CodePass MaskSimplificationPass, False), (''label_pass'', LabelRemovalPass, False),
      (''fence_pass'', CodePass FenceInsertionPass, True), (''input_seq_pass'', InputSequenceMinimizationPass, False),
      (''input_diff_pass'', DifferentialInputMinimizerPass, False), (''comment_pass'', AddViolationCommentsPass, True)]"

definition is_input_pass :: "min_pass \<Rightarrow> bool" where
  "is_input_pass p \<longleftrightarrow> p = InputSequenceMinimizationPass \<or> p = DifferentialInputMinimizerPass"

record min_passes =
  input_passes :: "min_pass list"
  instruction_passes :: "min_pass list"
  analysis_passes :: "min_pass list"

definition set_passes :: "(string \<Rightarrow> bool) \<Rightarrow> min_passes" where
  "set_passes enabled =
     (let passes = map snd (filter (\<lambda>(k, _). enabled (''enable_'' @ k)) pass_map)
      in \<lparr>input_passes = map fst (filter (\<lambda>(p, _). is_input_pass p) passes),
          instruction_passes = map fst (filter (\<lambda>(p, a). \<not> is_input_pass p \<and> \<not> a) passes),
          analysis_passes = map fst (filter (\<lambda>(p, a). \<not> is_input_pass p \<and> a) passes)\<rparr>)"

text \<open>The configuration of the fuzzer after \<^verbatim>\<open>_reset\<close>: the largest sample only.\<close>

definition reset_conf :: "fuzz_conf \<Rightarrow> fuzz_conf res" where
  "reset_conf C = rbind (py_nth (executor_sample_sizes C) (-1)) (\<lambda>n. ok (C\<lparr>executor_sample_sizes := [n]\<rparr>))"

fun reproduce_org_violation ::
  "('s, 'inp, 'tc) min_env \<Rightarrow> nat \<Rightarrow> 'tc \<Rightarrow> 'inp list \<Rightarrow> 's \<Rightarrow> (('inp, 'tc) Violation option \<times> 's) res" where
  "reproduce_org_violation E 0 tc inputs s = ok (None, s)"
| "reproduce_org_violation E (Suc n) tc inputs s =
     rbind (fuzz_round E (conf_inputs_per_class E) tc inputs [] s) (\<lambda>(v, s').
       if v \<noteq> None then ok (v, s') else reproduce_org_violation E n tc inputs s')"

definition input_pass_run ::
  "('s, 'tc) minimizer_env \<Rightarrow> ('s store, nat, 'tc) min_env \<Rightarrow> min_pass \<Rightarrow> 'tc \<Rightarrow> nat list \<Rightarrow> (nat, 'tc) Violation \<Rightarrow>
   's store \<Rightarrow> (nat list \<times> 's store) res" where
  "input_pass_run Z E p tc inputs v s =
     (case p of
        InputSequenceMinimizationPass \<Rightarrow> sequence_pass_run E tc inputs v s
      | DifferentialInputMinimizerPass \<Rightarrow> rbind (diff_pass_run E (n_actors_conf Z) tc v s) (\<lambda>((refs, _), s'). ok (refs, s'))
      | _ \<Rightarrow> raise TypeError)"

fun run_input_passes ::
  "('s, 'tc) minimizer_env \<Rightarrow> ('s store, nat, 'tc) min_env \<Rightarrow> min_pass list \<Rightarrow> 'tc \<Rightarrow> nat list \<Rightarrow> (nat, 'tc) Violation \<Rightarrow>
   's store \<Rightarrow> (nat list \<times> 's store) res" where
  "run_input_passes Z E [] tc inputs v s = ok (inputs, s)"
| "run_input_passes Z E (p # ps) tc inputs v s =
     rbind (input_pass_run Z E p tc inputs v s) (\<lambda>(new_inputs, s1).
     rbind (fuzz_round E (conf_inputs_per_class E) tc new_inputs [] s1) (\<lambda>(new_violation, s2).
       case new_violation of
         Some v' \<Rightarrow> run_input_passes Z E ps tc new_inputs v' s2
       | None \<Rightarrow> run_input_passes Z E ps tc inputs v s2))"

text \<open>The inputs, the violation and the boosting factor that the passes over the code go on with.\<close>

definition input_phase ::
  "('s, 'tc) minimizer_env \<Rightarrow> ('s store, nat, 'tc) min_env \<Rightarrow> min_pass list \<Rightarrow> 'tc \<Rightarrow> nat list \<Rightarrow> (nat, 'tc) Violation \<Rightarrow>
   's store \<Rightarrow> ((nat list \<times> (nat, 'tc) Violation \<times> nat) \<times> 's store) res" where
  "input_phase Z E passes tc inputs violation s =
     (if passes = [] then ok ((inputs, violation, conf_inputs_per_class E), s)
      else rbind (run_input_passes Z E passes tc inputs violation s) (\<lambda>(new_inputs, s1).
           rbind (fuzz_round E (conf_inputs_per_class E) tc inputs [] s1) (\<lambda>(new_violation, s2).
             case new_violation of
               Some v \<Rightarrow> ok ((new_inputs, v, 1), s2)
             | None \<Rightarrow> ok ((inputs, violation, conf_inputs_per_class E), s2))))"

definition minimizer_ignore_list :: "('inp, 'tc) Violation \<Rightarrow> nat list" where
  "minimizer_ignore_list v =
     (let ids = map input_id (eq_measurements (viol_class v))
      in filter (\<lambda>i. i \<notin> set ids) [0..<length (input_sequence v)])"

definition comments_pass_run ::
  "('s, 'tc) minimizer_env \<Rightarrow> ('s store, nat, 'tc) min_env \<Rightarrow> (nat, 'tc) Violation \<Rightarrow> 'tc \<Rightarrow> 's store \<Rightarrow> ('tc \<times> 's store) res" where
  "comments_pass_run Z E v tc s =
     (let ms = eq_measurements (viol_class v)
      in rbind (seq_traces Z tc (map bundle_input (take 2 ms)) s) (\<lambda>(traces, s1).
         rbind (comments_pass_text (isa_of E) ms traces (instruction_positions Z tc) (tc_n_actors Z tc) (asm_text E tc)) (\<lambda>code.
           ok (rewrite_file Z code tc, s1))))"

definition code_pass_run ::
  "('s, 'tc) minimizer_env \<Rightarrow> ('s store, nat, 'tc) min_env \<Rightarrow> nat list \<Rightarrow> (nat, 'tc) Violation \<Rightarrow> nat list \<Rightarrow> min_pass \<Rightarrow> 'tc \<Rightarrow>
   's store \<Rightarrow> ('tc \<times> 's store) res" where
  "code_pass_run Z E ign v inputs p tc s =
     (case p of
        CodePass K \<Rightarrow> pass_run E K ign tc inputs s
      | LabelRemovalPass \<Rightarrow> label_pass_run E tc s
      | AddViolationCommentsPass \<Rightarrow> comments_pass_run Z E v tc s
      | _ \<Rightarrow> raise TypeError)"

definition run_instruction_passes ::
  "('s, 'tc) minimizer_env \<Rightarrow> ('s store, nat, 'tc) min_env \<Rightarrow> nat list \<Rightarrow> (nat, 'tc) Violation \<Rightarrow> nat list \<Rightarrow> min_pass list \<Rightarrow>
   'tc \<Rightarrow> 's store \<Rightarrow> ('tc \<times> 's store) res" where
  "run_instruction_passes Z E ign v inputs passes tc s =
     rfold (\<lambda>(tc, s) p. code_pass_run Z E ign v inputs p tc s) (tc, s) passes"

definition run_analysis_passes ::
  "('s, 'tc) minimizer_env \<Rightarrow> ('s store, nat, 'tc) min_env \<Rightarrow> nat list \<Rightarrow> (nat, 'tc) Violation \<Rightarrow> nat list \<Rightarrow> min_pass list \<Rightarrow>
   'tc \<Rightarrow> 's store \<Rightarrow> ('tc \<times> 's store) res" where
  "run_analysis_passes Z E ign v inputs passes tc s =
     rfold (\<lambda>(tc, s) p. code_pass_run Z E ign v inputs p tc s) (tc, s) passes"

text \<open>
  The loop is meant to end early when a test case does not change. Test cases are compared by identity
  with a copy, so the comparison is never true.
\<close>

fun attempts ::
  "('s, 'tc) minimizer_env \<Rightarrow> ('s store, nat, 'tc) min_env \<Rightarrow> nat \<Rightarrow> nat list \<Rightarrow> (nat, 'tc) Violation \<Rightarrow> nat list \<Rightarrow> min_pass list \<Rightarrow>
   'tc \<Rightarrow> 's store \<Rightarrow> ('tc \<times> 's store) res" where
  "attempts Z E 0 ign v inputs passes tc s = ok (tc, s)"
| "attempts Z E (Suc n) ign v inputs passes tc s =
     rbind (run_instruction_passes Z E ign v inputs passes tc s) (\<lambda>(tc', s'). attempts Z E n ign v inputs passes tc' s')"

definition minimizer_run ::
  "('s, 'tc) minimizer_env \<Rightarrow> ('s store, nat, 'tc) min_env \<Rightarrow> (string \<Rightarrow> bool) \<Rightarrow> string \<Rightarrow> nat \<Rightarrow> nat \<Rightarrow> 's store \<Rightarrow>
   ('tc option \<times> 's store) res" where
  "minimizer_run Z E enabled test_case_asm n_inputs n_attempts s =
     (let passes = set_passes enabled
      in rbind (parse_file E test_case_asm s) (\<lambda>(tc, s1).
         rbind (generate_inputs Z n_inputs (tc_n_actors Z tc) s1) (\<lambda>(inputs, s2).
         rbind (reproduce_org_violation E (minimizer_retries E) tc inputs s2) (\<lambda>(violation, s3).
           case violation of
             None \<Rightarrow> ok (None, s3)
           | Some v0 \<Rightarrow>
               rbind (input_phase Z E (input_passes passes) tc inputs v0 s3) (\<lambda>((inputs', v, ipc), s4).
                 let E' = E\<lparr>conf_inputs_per_class := ipc\<rparr>; ign = minimizer_ignore_list v
                 in rbind (attempts Z E' n_attempts ign v inputs' (instruction_passes passes) tc s4) (\<lambda>(tc1, s5).
                    rbind (run_analysis_passes Z E' ign v inputs' (analysis_passes passes) tc1 s5) (\<lambda>(tc2, s6).
                    rbind (if enabled ''enable_label_pass''
                           then run_instruction_passes Z E' ign v inputs' [LabelRemovalPass] tc2 s6 else ok (tc2, s6))
                      (\<lambda>(tc3, s7). ok (Some tc3, s7)))))))))"

section \<open>The passes over the inputs\<close>


text \<open>
  C15: The differential pass leaves the two violating inputs equal in every entry of every actor, except
  for the entries it reports as leaked. All other inputs stay as they are, and either nothing was changed
  or the violation was reproduced with exactly the inputs that the pass leaves behind.
\<close>
theorem diff_pass_settles:
  assumes "diff_pass_run (heap_env C R W E) n tc v s = Inr ((refs, leaked), s')"
    and "\<forall>r \<in> set (input_sequence v). r < next_ref s"
  shows "\<exists>X. set_pass_context tc v = Inr X \<and> refs = input_sequence v \<and>
     (\<forall>r < next_ref s. r \<notin> {dx_a X, dx_b X} \<longrightarrow> inputs_of s' r = inputs_of s r) \<and>
     (\<forall>p. fst p < n \<longrightarrow> valid (inputs_of s (dx_a X)) p \<longrightarrow>
        cell (inputs_of s' (dx_a X)) p = cell (inputs_of s' (dx_b X)) p \<or> entry_address (inputs_of s (dx_a X)) p \<in> set leaked) \<and>
     ((\<forall>r < next_ref s. inputs_of s' r = inputs_of s r) \<or> confirmed (heap_env C R W E) X (next_ref s) s')"
  using diff_rounds.diff_pass_result [OF assms] by simp

section \<open>A module that rejects every input\<close>

definition rejecting :: "(unit, nat) outside" where
  "rejecting = demo_outside\<lparr>o_accept := (\<lambda>_. False)\<rparr>"

definition rejected :: "nat \<Rightarrow> nat list \<Rightarrow> (unit, nat) std_state \<Rightarrow> (unit, nat) std_state" where
  "rejected tc ign w =
     (let X = load_test_case (sm_executor (fz_mods w)) tc
      in bump (\<lambda>st. st\<lparr>fast_path := fast_path st + 1\<rparr>)
           (w\<lparr>fz_mods := (fz_mods w)\<lparr>sm_executor := (if ign = [] then X else set_ignore_list X ign)\<rparr>\<rparr>))"

lemma rdbf_ok: "length xs < 2 ^ 64 \<Longrightarrow> n_actors_of (hd xs) < 2 ^ 64 \<Longrightarrow> \<exists>bytes. save_input_sequence_as_rdbf xs = Inr bytes"
  by (auto simp: save_input_sequence_as_rdbf_def to_bytes8_def to_bytes_def ACTOR_DATA_SIZE_eq Let_def)

lemma rejected_round:
  assumes "inputs \<noteq> []" and "length inputs < 2 ^ 64" and "n_actors_of (hd inputs) < 2 ^ 64" and "card (set ign) < length inputs"
  shows "fuzzing_round (demo_fuzz_conf\<lparr>inputs_per_class := 1\<rparr>) (standard_modules R rejecting) tc inputs ign w = Inr (None, rejected tc ign w)"
proof -
  obtain bytes where "save_input_sequence_as_rdbf inputs = Inr bytes" using rdbf_ok assms by blast
  then show ?thesis
    using assms by (auto simp: round_simps demo_simps rejecting_def trace_test_case_def Let_def py_nth_def py_index_def rejected_def
        load_test_case_def set_ignore_list_def bump_def)
qed

definition small_input :: "u64 \<Rightarrow> InputData" where
  "small_input w = \<lparr>actors = [\<lparr>ai_main = [w], ai_faulty = [], ai_gpr = [], ai_simd = [], ai_padding = []\<rparr>], seed = 0\<rparr>"

definition small_store :: "(unit, nat) std_state store" where
  "small_store = \<lparr>inputs_of = (\<lambda>r. small_input (of_nat r)), next_ref = 2, world = demo_state const_gen\<rparr>"

definition small_env :: "((unit, nat) std_state store, nat, nat) min_env" where
  "small_env = \<lparr>isa_of = X86_64, parse_file = (\<lambda>code s. ok (0, s)), asm_text = (\<lambda>_. []), fuzz_round = (\<lambda>_ _ _ _ s. ok (None, s)),
     minimizer_retries = 1, conf_inputs_per_class = 1, inst_size = (\<lambda>_. ok 1)\<rparr>"

definition small_bundle :: "nat \<Rightarrow> nat TraceBundle" where
  "small_bundle i = \<lparr>input_id = i, bundle_input = i, bundle_ctrace = CTrace_empty demo_hashing, bundle_htrace = demo_htrace 0\<rparr>"

definition small_violation :: "(nat, nat) Violation" where
  "small_violation = \<lparr>viol_class = \<lparr>eq_ctrace = CTrace_empty demo_hashing, eq_measurements = [small_bundle 0, small_bundle 1],
     eq_hw_classes = None\<rparr>, input_sequence = [0, 1], viol_test_case_code = 0\<rparr>"

abbreviation rejecting_env :: "((unit, nat) std_state store, nat, nat) min_env" where
  "rejecting_env \<equiv> heap_env demo_fuzz_conf const_rng rejecting small_env"

text \<open>Inputs of one actor each, as in the store above.\<close>

definition one_actor :: "(unit, nat) std_state store \<Rightarrow> bool" where
  "one_actor s \<longleftrightarrow> (\<forall>r. length (actors (inputs_of s r)) = 1)"

lemma rejecting_env_round:
  assumes "one_actor s" and "refs \<noteq> []" and "length refs < 2 ^ 64" and "card (set ign) < length refs"
  shows "fuzz_round rejecting_env 1 tc refs ign s = Inr (None, s\<lparr>world := rejected tc ign (world s)\<rparr>)"
proof -
  have "n_actors_of (hd (map (inputs_of s) refs)) < 2 ^ 64" using assms(1,2) by (cases refs) (auto simp: n_actors_of_def one_actor_def)
  then show ?thesis
    using rejected_round [of "map (inputs_of s) refs" ign const_rng tc "world s"] assms(2-4) by (simp add: heap_env_def heap_round_def)
qed

lemma small_store_one_actor: "one_actor (small_store\<lparr>world := w\<rparr>)" "one_actor small_store"
  by (simp_all add: one_actor_def small_store_def small_input_def)

lemma rejecting_env_small_round:
  assumes "refs \<in> {[0, 1], [0]}"
  shows "fuzz_round rejecting_env (Suc 0) 0 refs [] (small_store\<lparr>world := w\<rparr>) = Inr (None, small_store\<lparr>world := rejected 0 [] w\<rparr>)"
  using rejecting_env_round [of "small_store\<lparr>world := w\<rparr>" refs "[]" 0] small_store_one_actor(1) [of w] assms by auto

lemma small_removals:
  "removals rejecting_env 0 [2, 1] [0, 1] v (small_store\<lparr>world := w\<rparr>) =
     Inr (([0, 1], v), small_store\<lparr>world := rejected 0 [] (rejected 0 [] w)\<rparr>)"
  by (simp add: rejecting_env_small_round)

lemma small_sequence_run:
  "sequence_pass_run rejecting_env 0 [0] small_violation (small_store\<lparr>world := w\<rparr>) =
     Inr ([0, 1], small_store\<lparr>world := rejected 0 [] (rejected 0 [] w)\<rparr>)"
proof -
  have ids: "rev [1..<Suc (length [0 :: nat, 1])] = [2, 1]" by (simp add: upt_rec)
  have "iterations rejecting_env 0 (Suc 9) [0, 1] v (small_store\<lparr>world := w\<rparr>) =
     Inr (([0, 1], v), small_store\<lparr>world := rejected 0 [] (rejected 0 [] w)\<rparr>)" for v
    unfolding iterations.simps ids small_removals by simp
  then show ?thesis
    by (simp add: sequence_pass_run_def halve.simps [of rejecting_env 0 "[0]"] small_violation_def del: iterations.simps)
qed


definition small_ctx :: "nat diff_ctx" where
  "small_ctx = \<lparr>dx_test_case = 0, dx_inputs = [0, 1], dx_a = 0, dx_b = 1, dx_ignore = []\<rparr>"

lemma small_context: "set_pass_context 0 small_violation = Inr small_ctx"
  by (simp add: set_pass_context_def small_violation_def small_bundle_def small_ctx_def py_nth_def py_index_def)

lemma small_check: "one_actor s \<Longrightarrow> diff_check rejecting_env small_ctx s = Inr (False, s\<lparr>world := rejected 0 [] (world s)\<rparr>)"
  using rejecting_env_round [of s "[0, 1]" "[]" 0]
  by (simp add: diff_check_def check_for_violation_def small_ctx_def heap_env_def small_env_def)

lemma small_block: "start_block_size 0 (Suc 0) = 1"
  by (simp add: start_block_size_def MAX_BLOCK_SIZE_def pow2_below.simps align_block.simps)

lemma small_read: "read_entry (small_input x) 0 R_main 0 = Inr x"
  by (simp add: read_entry_def small_input_def region_data_def py_nth_def py_index_def)

lemma small_write:
  "inputs_of s r = small_input x \<Longrightarrow>
   write_entry r 0 R_main 0 v s = Inr (s\<lparr>inputs_of := (inputs_of s)(r := small_input v)\<rparr>)"
  by (simp add: write_entry_def small_input_def region_data_def set_region_def py_nth_def py_set_def py_index_def Let_def)

lemma small_one_actor: "(\<And>r. \<exists>x. inputs_of s r = small_input x) \<Longrightarrow> one_actor s"
  by (metis one_actor_def small_input_def InputData.select_convs(1) length_Cons list.size(3) One_nat_def)

text \<open>The two inputs of the context hold the values 0 and 1.\<close>

definition small_heap :: "u64 \<Rightarrow> u64 \<Rightarrow> nat \<Rightarrow> InputData" where
  "small_heap x y r = small_input (if r = 0 then x else if r = 1 then y else of_nat r)"

definition small_state :: "u64 \<Rightarrow> u64 \<Rightarrow> (unit, nat) std_state \<Rightarrow> (unit, nat) std_state store" where
  "small_state x y w = \<lparr>inputs_of = small_heap x y, next_ref = 2, world = w\<rparr>"

lemma small_store_state: "small_store\<lparr>world := w\<rparr> = small_state 0 1 w"
  by (auto simp: small_store_def small_state_def small_heap_def)

lemma small_heap_upd: "(small_heap x y)(0 := small_input v) = small_heap v y" "(small_heap x y)(Suc 0 := small_input v) = small_heap x v"
  by (auto simp: small_heap_def)

lemma small_state_write:
  "write_entry 0 0 R_main 0 v (small_state x y w) = Inr (small_state v y w)"
  "write_entry (Suc 0) 0 R_main 0 v (small_state x y w) = Inr (small_state x v w)"
  by (subst small_write [of _ _ x] small_write [of _ _ y]; simp add: small_state_def small_heap_upd; simp add: small_heap_def)+

lemma small_state_check:
  "diff_check rejecting_env small_ctx (small_state x y w) = Inr (False, small_state x y (rejected 0 [] w))"
proof -
  have "one_actor (small_state x y w)" by (rule small_one_actor) (auto simp: small_state_def small_heap_def)
  from small_check [OF this] show ?thesis by (simp add: small_state_def)
qed

lemma small_entry:
  "process_entry rejecting_env small_ctx (small_heap 0 1) 0 R_main 0 0 [] (small_state 0 1 w) =
     Inr ([0], small_state 0 1 (rejected 0 [] (rejected 0 [] w)))"
proof -
  have read: "read_entry (small_heap x y 0) 0 R_main 0 = Inr x" "read_entry (small_heap x y (Suc 0)) 0 R_main 0 = Inr y" for x y
    by (simp_all add: small_heap_def small_read)
  have ab: "dx_a small_ctx = 0" "dx_b small_ctx = Suc 0" by (simp_all add: small_ctx_def)
  have heap: "inputs_of (small_state x y w) = small_heap x y" for x y w by (simp add: small_state_def)
  show ?thesis
    by (simp add: process_entry_def copy_entry_def zero_addr_def restore_addr_def ab heap read small_state_write small_state_check)
qed

lemma small_diff_run:
  "diff_pass_run rejecting_env (Suc 0) 0 small_violation (small_state 0 1 w) =
     Inr (([0, 1], [0]), small_state 0 1 (rejected 0 [] (rejected 0 [] w)))"
proof -
  have heap: "inputs_of (small_state x y w) = small_heap x y" for x y w by (simp add: small_state_def)
  have zero: "zero_out_block rejecting_env small_ctx org 0 R_main 0 1 s = Inr (1, s)" for org s
    by (subst zero_out_block.simps) simp
  have main: "process_region rejecting_env small_ctx 0 R_main (Suc 0) 0 0 [] (small_state 0 1 w) =
      Inr ([0], small_state 0 1 (rejected 0 [] (rejected 0 [] w)))"
    by (subst process_region.simps)
      (simp add: process_block_def small_block zero heap small_entry process_region.simps [of _ _ _ _ _ _ 1] del: One_nat_def)
  have rest: "process_region rejecting_env small_ctx 0 reg 0 off 0 leaked s = Inr (leaked, s)" for reg off leaked s
    by (subst process_region.simps) simp
  have len: "py_nth (actors (small_heap x y (dx_a small_ctx))) 0 =
      Inr \<lparr>ai_main = [x], ai_faulty = [], ai_gpr = [], ai_simd = [], ai_padding = []\<rparr>" for x y
    by (simp add: small_ctx_def small_heap_def small_input_def py_nth_def py_index_def)
  show ?thesis
    by (simp add: diff_pass_run_def small_context process_actor_def heap len region_data_def main rest)
      (simp add: small_ctx_def)
qed

theorem diff_pass_settles_witness:
  "\<exists>X. set_pass_context 0 small_violation = Inr X \<and> [0, 1] = input_sequence small_violation \<and>
     (\<forall>p. fst p < Suc 0 \<longrightarrow> valid (small_heap 0 1 (dx_a X)) p \<longrightarrow>
        cell (small_heap 0 1 (dx_a X)) p = cell (small_heap 0 1 (dx_b X)) p \<or> entry_address (small_heap 0 1 (dx_a X)) p \<in> set [0])"
proof -
  have "\<forall>r \<in> set (input_sequence small_violation). r < next_ref (small_state 0 1 (demo_state const_gen))"
    by (simp add: small_violation_def small_state_def)
  from diff_pass_settles [OF small_diff_run this] show ?thesis by (auto simp: small_state_def)
qed

section \<open>The passes over the code\<close>

lemma cleared_trans: "cleared a b \<Longrightarrow> cleared b c \<Longrightarrow> cleared a c"
  unfolding cleared_def by (metis comp_apply funpow_add)

text \<open>The text is the one at the code0, or a code that was verified, up to cleared tags.\<close>

definition kept :: "('s store, nat, 'tc) min_env \<Rightarrow> nat list \<Rightarrow> nat list \<Rightarrow> string \<Rightarrow> string \<Rightarrow> bool" where
  "kept E ign inputs code0 code \<longleftrightarrow> code = code0 \<or>
     (\<exists>ins lines. verified E ign inputs ins \<and> list_all2 cleared ins lines \<and> code = concat lines)"

definition keeps_text :: "('s store, nat, 'tc) min_env \<Rightarrow> bool" where
  "keeps_text E \<longleftrightarrow> (\<forall>code s tc s'. parse_file E code s = Inr (tc, s') \<longrightarrow> asm_text E tc = code)"

lemma code_pass_kept:
  assumes "keeps_text E" and "code_pass_run Z E ign v inputs (CodePass K) tc s = Inr (tc', s')"
    and "kept E ign inputs code0 (asm_text E tc)"
  shows "kept E ign inputs code0 (asm_text E tc')"
proof -
  have txts: "asm_text E tc' = code" if "parse_file E code s1 = Inr (tc', s')" for code s1
    using assms(1) that by (auto simp: keeps_text_def)
  from assms(2) have "pass_run E K ign tc inputs s = Inr (tc', s')" by (simp add: code_pass_run_def)
  from pass_run_cases [OF this] show ?thesis
  proof (elim disjE exE conjE)
    fix ins lines s1
    assume "verified E ign inputs ins" "list_all2 cleared ins lines" "parse_file E (concat lines) s1 = Inr (tc', s')"
    then show ?thesis using txts unfolding kept_def by blast
  qed (use txts assms(3) in auto)
qed

lemma run_instruction_passes_kept:
  assumes "keeps_text E" and "run_instruction_passes Z E ign v inputs passes tc s = Inr (tc', s')"
    and "\<forall>p \<in> set passes. \<exists>K. p = CodePass K" and "kept E ign inputs code0 (asm_text E tc)"
  shows "kept E ign inputs code0 (asm_text E tc')"
  using assms(2-4)
proof (induction passes arbitrary: tc s)
  case (Cons p passes)
  then obtain K where p: "p = CodePass K" by auto
  from Cons.prems(1) obtain tc1 s1 where r: "code_pass_run Z E ign v inputs (CodePass K) tc s = Inr (tc1, s1)"
    and rest: "run_instruction_passes Z E ign v inputs passes tc1 s1 = Inr (tc', s')"
    by (auto simp: run_instruction_passes_def rbind_eq_Inr_iff p)
  show ?case using Cons.IH [OF rest] code_pass_kept [OF assms(1) r Cons.prems(3)] Cons.prems(2) by simp
qed (simp add: run_instruction_passes_def)


text \<open>An environment in which every round finds a violation as long as a move is left in the code.\<close>

definition found_violation :: "nat list \<Rightarrow> string \<Rightarrow> (nat, string) Violation" where
  "found_violation refs tc = \<lparr>viol_class = \<lparr>eq_ctrace = CTrace_empty demo_hashing,
     eq_measurements = map (\<lambda>i. (small_bundle i)\<lparr>bundle_input := refs ! i\<rparr>) [length refs - 2, length refs - 1], eq_hw_classes = None\<rparr>,
     input_sequence = refs, viol_test_case_code = tc\<rparr>"

definition found_env :: "(unit store, nat, string) min_env" where
  "found_env = \<lparr>isa_of = X86_64, parse_file = (\<lambda>code s. ok (code, s)), asm_text = (\<lambda>tc. tc),
     fuzz_round = (\<lambda>n tc refs ign s. ok (if contains tc ''mov'' then Some (found_violation (concat (replicate n refs)) tc) else None, s)),
     minimizer_retries = 1, conf_inputs_per_class = 2, inst_size = (\<lambda>line. ok 2)\<rparr>"

definition found_min_env :: "(unit, string) minimizer_env" where
  "found_min_env = \<lparr>n_actors_conf = 0, generate_inputs = (\<lambda>n k s. ok ([0..<n], s)), tc_n_actors = (\<lambda>_. 1),
     seq_traces = (\<lambda>_ _ s. ok ([], s)), instruction_positions = (\<lambda>_. []), rewrite_file = (\<lambda>code _. code)\<rparr>"

definition found_store :: "unit store" where
  "found_store = \<lparr>inputs_of = (\<lambda>r. \<lparr>actors = [], seed = 0\<rparr>), next_ref = 8, world = ()\<rparr>"


section \<open>Which inputs the driver checks\<close>

text \<open>
  After the passes over the inputs the driver repeats the round with the inputs it had before, not
  with the minimised ones. When that round finds a violation, the minimised inputs are used from then on
  together with the ids of that violation: if they point behind the minimised sequence, the
  driver ignores every input it uses.
\<close>
theorem minimizer_checks_old_inputs:
  assumes "input_phase Z E passes tc inputs v s = Inr ((inputs', v', ipc), s')" and "passes \<noteq> []"
    and "\<forall>m \<in> set (eq_measurements (viol_class v')). length inputs' \<le> input_id m"
    and "length inputs' \<le> length (input_sequence v')"
  shows "(inputs' = inputs \<and> v' = v \<or> ipc = 1 \<and> (\<exists>s1. fuzz_round E (conf_inputs_per_class E) tc inputs [] s1 = Inr (Some v', s'))) \<and>
     set [0..<length inputs'] \<subseteq> set (minimizer_ignore_list v')"
proof -
  have "inputs' = inputs \<and> v' = v \<or> ipc = 1 \<and> (\<exists>s1. fuzz_round E (conf_inputs_per_class E) tc inputs [] s1 = Inr (Some v', s'))"
    using assms(1,2) by (auto simp: input_phase_def rbind_eq_Inr_iff split: option.splits)
  moreover have "set [0..<length inputs'] \<subseteq> set (minimizer_ignore_list v')"
    using assms(3,4) by (fastforce simp: minimizer_ignore_list_def Let_def)
  ultimately show ?thesis by blast
qed

theorem minimizer_checks_old_inputs_witness:
  "\<exists>s'. input_phase found_min_env found_env [InputSequenceMinimizationPass] move_code [0, 1]
       (found_violation [0, 1, 0, 1] move_code) found_store = Inr (([0], found_violation [0, 1, 0, 1] move_code, 1), s') \<and>
     set [0..<length [0 :: nat]] \<subseteq> set (minimizer_ignore_list (found_violation [0, 1, 0, 1] move_code))"
proof -
  let ?v = "found_violation [0, 1, 0, 1] move_code"
  have "case input_phase found_min_env found_env [InputSequenceMinimizationPass] move_code [0, 1] ?v found_store of
      Inl _ \<Rightarrow> False | Inr r \<Rightarrow> fst r = ([0], ?v, 1)" by code_simp
  then obtain s' where run: "input_phase found_min_env found_env [InputSequenceMinimizationPass] move_code [0, 1] ?v found_store =
      Inr (([0], ?v, 1), s')" by (auto split: sum.splits)
  have "\<forall>m \<in> set (eq_measurements (viol_class ?v)). length [0 :: nat] \<le> input_id m" "length [0 :: nat] \<le> length (input_sequence ?v)"
    by (simp_all add: found_violation_def small_bundle_def)
  from minimizer_checks_old_inputs [OF run _ this] run show ?thesis by auto
qed

end
