(* ===== verification/PyRandom.thy ===== *)
theory PyRandom
  imports Prelude
begin

text \<open>
  Python's module \<^verbatim>\<open>random\<close> as the generators use it. The generator's stream of numbers is an argument:
  \<open>rnd k\<close> is the k-th number drawn. Operations that draw know the number of draws made before them. Longer computations are in a small monad that counts the draws and stops at an exception.
\<close>

type_synonym draws = "nat \<Rightarrow> nat"

text \<open>\<^verbatim>\<open>random.randint(a, b)\<close> and \<^verbatim>\<open>random.choice\<close> with the n-th draw.\<close>

definition randint :: "draws \<Rightarrow> nat \<Rightarrow> nat \<Rightarrow> nat \<Rightarrow> nat" where
  "randint rnd k a b = a + rnd k mod (b - a + 1)"

definition choice :: "draws \<Rightarrow> nat \<Rightarrow> 'a list \<Rightarrow> 'a res" where
  "choice rnd k xs = (if xs = [] then raise IndexError else ok (xs ! (rnd k mod length xs)))"

section \<open>Computations that draw\<close>

type_synonym 'a gen = "nat \<Rightarrow> ('a \<times> nat) res"

definition gret :: "'a \<Rightarrow> 'a gen" where
  "gret x = (\<lambda>k. ok (x, k))"

definition gbind :: "'a gen \<Rightarrow> ('a \<Rightarrow> 'b gen) \<Rightarrow> 'b gen" where
  "gbind m f = (\<lambda>k. rbind (m k) (\<lambda>(x, k'). f x k'))"

definition glift :: "'a res \<Rightarrow> 'a gen" where
  "glift r = (\<lambda>k. rbind r (\<lambda>x. ok (x, k)))"

fun gmapM :: "('a \<Rightarrow> 'b gen) \<Rightarrow> 'a list \<Rightarrow> 'b list gen" where
  "gmapM f [] = gret []"
| "gmapM f (x # xs) = gbind (f x) (\<lambda>y. gbind (gmapM f xs) (\<lambda>ys. gret (y # ys)))"

fun gfold :: "('s \<Rightarrow> 'a \<Rightarrow> 's gen) \<Rightarrow> 's \<Rightarrow> 'a list \<Rightarrow> 's gen" where
  "gfold f s [] = gret s"
| "gfold f s (x # xs) = gbind (f s x) (\<lambda>s'. gfold f s' xs)"

record random_source =
  ints :: draws
  fractions :: "nat \<Rightarrow> rat"

definition g_choice :: "random_source \<Rightarrow> 'a list \<Rightarrow> 'a gen" where
  "g_choice R xs = (\<lambda>k. rbind (choice (ints R) k xs) (\<lambda>x. ok (x, Suc k)))"

definition g_randint :: "random_source \<Rightarrow> int \<Rightarrow> int \<Rightarrow> int gen" where
  "g_randint R a b = (\<lambda>k. if a \<le> b then ok (a + int (ints R k) mod (b - a + 1), Suc k) else raise ValueError)"

definition g_random :: "random_source \<Rightarrow> rat gen" where
  "g_random R = (\<lambda>k. ok (fractions R k, Suc k))"

section \<open>Total computations\<close>

text \<open>A computation that returns whatever is drawn, with a result that satisfies \<open>P\<close>.\<close>

definition always :: "'a gen \<Rightarrow> ('a \<Rightarrow> bool) \<Rightarrow> bool" where
  "always m P \<longleftrightarrow> (\<forall>k. \<exists>x k'. m k = Inr (x, k') \<and> P x)"

lemma alwaysE:
  assumes "always m P"
  obtains x k' where "m k = Inr (x, k')" and "P x"
  using assms unfolding always_def by meson

lemma always_mono: "always m P \<Longrightarrow> (\<And>x. P x \<Longrightarrow> Q x) \<Longrightarrow> always m Q"
  by (meson always_def)

lemma always_gret [intro]: "P x \<Longrightarrow> always (gret x) P"
  by (simp add: always_def gret_def)

lemma always_glift: "r = Inr x \<Longrightarrow> P x \<Longrightarrow> always (glift r) P"
  by (simp add: always_def glift_def)

lemma always_gbind:
  assumes "always m P" and "\<And>x. P x \<Longrightarrow> always (f x) Q"
  shows "always (gbind m f) Q"
proof -
  have "\<exists>y k'. gbind m f k = Inr (y, k') \<and> Q y" for k
  proof -
    obtain x k1 where x: "m k = Inr (x, k1)" "P x" by (rule alwaysE [OF assms(1)])
    obtain y k2 where "f x k1 = Inr (y, k2)" "Q y" by (rule alwaysE [OF assms(2) [OF x(2)]])
    with x(1) show ?thesis by (simp add: gbind_def)
  qed
  then show ?thesis by (simp add: always_def)
qed

lemma always_choice: "xs \<noteq> [] \<Longrightarrow> (\<And>x. x \<in> set xs \<Longrightarrow> P x) \<Longrightarrow> always (g_choice R xs) P"
  by (simp add: always_def g_choice_def choice_def)

lemma always_randint: "a \<le> b \<Longrightarrow> (\<And>v. a \<le> v \<Longrightarrow> v \<le> b \<Longrightarrow> P v) \<Longrightarrow> always (g_randint R a b) P"
proof -
  assume b: "a \<le> b" and P: "\<And>v. a \<le> v \<Longrightarrow> v \<le> b \<Longrightarrow> P v"
  have "P (a + int (ints R k) mod (b - a + 1))" for k
    using b pos_mod_bound [of "b - a + 1" "int (ints R k)"] pos_mod_sign [of "b - a + 1" "int (ints R k)"] by (intro P) auto
  with b show ?thesis by (simp add: always_def g_randint_def)
qed

lemma always_random: "(\<And>q. P q) \<Longrightarrow> always (g_random R) P"
  by (simp add: always_def g_random_def)

lemma gbind_glift [simp]: "gbind (glift (Inr x)) f = f x"
  by (simp add: gbind_def glift_def)

lemma gbind_gret [simp]: "gbind (gret x) f = f x"
  by (simp add: gbind_def gret_def)

lemma always_bind_choice: "xs \<noteq> [] \<Longrightarrow> (\<And>x. x \<in> set xs \<Longrightarrow> always (f x) Q) \<Longrightarrow> always (gbind (g_choice R xs) f) Q"
  by (rule always_gbind [OF always_choice])

lemma always_bind_randint: "a \<le> b \<Longrightarrow> (\<And>v. a \<le> v \<Longrightarrow> v \<le> b \<Longrightarrow> always (f v) Q) \<Longrightarrow> always (gbind (g_randint R a b) f) Q"
  by (rule always_gbind [OF always_randint])

lemma always_bind_random: "(\<And>q. always (f q) Q) \<Longrightarrow> always (gbind (g_random R) f) Q"
  by (rule always_gbind [OF always_random])

lemmas always_binds = always_bind_choice always_bind_randint always_bind_random

lemma always_gmapM:
  assumes "\<And>x. x \<in> set xs \<Longrightarrow> always (f x) (P x)"
  shows "always (gmapM f xs) (\<lambda>ys. list_all2 P xs ys)"
  using assms
proof (induction xs)
  case (Cons x xs)
  have "always (f x) (P x)" using Cons.prems by simp
  moreover have "always (gmapM f xs) (list_all2 P xs)" using Cons.prems by (intro Cons.IH) simp
  ultimately show ?case by (auto intro!: always_gbind)
qed auto

lemma always_gfold:
  assumes "I s" and "\<And>s x. x \<in> set xs \<Longrightarrow> I s \<Longrightarrow> always (f s x) I"
  shows "always (gfold f s xs) I"
  using assms
proof (induction xs arbitrary: s)
  case (Cons x xs)
  have "always (f s x) I" using Cons.prems by simp
  moreover have "always (gfold f s' xs) I" if "I s'" for s' using that Cons.prems(2) by (intro Cons.IH) auto
  ultimately show ?case by (auto intro: always_gbind)
qed auto

text \<open>A fold whose invariant speaks of the elements that were processed.\<close>

lemma always_gfold_prefix:
  assumes "I ys s" and "\<And>ys x s. x \<in> set xs \<Longrightarrow> I ys s \<Longrightarrow> always (f s x) (I (ys @ [x]))"
  shows "always (gfold f s xs) (I (ys @ xs))"
  using assms
proof (induction xs arbitrary: s ys)
  case (Cons x xs)
  have "always (f s x) (I (ys @ [x]))" using Cons.prems by simp
  moreover have "always (gfold f s' xs) (I (ys @ x # xs))" if "I (ys @ [x]) s'" for s'
    using Cons.IH [OF that] Cons.prems(2) by simp
  ultimately show ?case by (auto intro: always_gbind)
qed auto

end
