(* ===== verification/TargetDesc.thy ===== *)
theory TargetDesc
  imports Instruction Actor
begin

text \<open>
  Model of \<^verbatim>\<open>rvzr/target_desc.py\<close> and its two implementations \<^verbatim>\<open>rvzr/arch/x86/target_desc.py\<close> and
  \<^verbatim>\<open>rvzr/arch/arm64/target_desc.py\<close>: the tables of registers, page table bits, macros and emulator
  registers. The numbers of the emulator's registers are a parameter \<open>ucc\<close>, applied to the name of the
  constant. Reading the processor's name and model from the system is not modelled; the vendor is an
  argument.
\<close>

section \<open>Macros and blocked registers\<close>

record MacroSpec =
  ms_type :: int
  ms_name :: string
  ms_args :: "string list"

definition macro_specs :: "(string, MacroSpec) dict" where
  "macro_specs =
    [(''random_instructions'', \<lparr>ms_type = - 1, ms_name = ''random_instructions'', ms_args = [''int'', ''int'', '''', '''']\<rparr>),
     (''function'', \<lparr>ms_type = 0, ms_name = ''function'', ms_args = ['''', '''', '''', '''']\<rparr>),
     (''measurement_start'', \<lparr>ms_type = 1, ms_name = ''measurement_start'', ms_args = ['''', '''', '''', '''']\<rparr>),
     (''measurement_end'', \<lparr>ms_type = 2, ms_name = ''measurement_end'', ms_args = ['''', '''', '''', '''']\<rparr>),
     (''fault_handler'', \<lparr>ms_type = 3, ms_name = ''fault_handler'', ms_args = ['''', '''', '''', '''']\<rparr>),
     (''switch'', \<lparr>ms_type = 4, ms_name = ''switch'', ms_args = [''actor_id'', ''function_id'', '''', '''']\<rparr>),
     (''set_k2u_target'', \<lparr>ms_type = 5, ms_name = ''set_k2u_target'', ms_args = [''actor_id'', ''function_id'', '''', '''']\<rparr>),
     (''switch_k2u'', \<lparr>ms_type = 6, ms_name = ''switch_k2u'', ms_args = [''actor_id'', '''', '''', '''']\<rparr>),
     (''set_u2k_target'', \<lparr>ms_type = 7, ms_name = ''set_u2k_target'', ms_args = [''actor_id'', ''function_id'', '''', '''']\<rparr>),
     (''switch_u2k'', \<lparr>ms_type = 8, ms_name = ''switch_u2k'', ms_args = [''actor_id'', '''', '''', '''']\<rparr>),
     (''set_h2g_target'', \<lparr>ms_type = 9, ms_name = ''set_h2g_target'', ms_args = [''actor_id'', ''function_id'', '''', '''']\<rparr>),
     (''switch_h2g'', \<lparr>ms_type = 10, ms_name = ''switch_h2g'', ms_args = [''actor_id'', '''', '''', '''']\<rparr>),
     (''set_g2h_target'', \<lparr>ms_type = 11, ms_name = ''set_g2h_target'', ms_args = [''actor_id'', ''function_id'', '''', '''']\<rparr>),
     (''switch_g2h'', \<lparr>ms_type = 12, ms_name = ''switch_g2h'', ms_args = [''actor_id'', '''', '''', '''']\<rparr>),
     (''landing_k2u'', \<lparr>ms_type = 13, ms_name = ''landing_k2u'', ms_args = ['''', '''', '''', '''']\<rparr>),
     (''landing_u2k'', \<lparr>ms_type = 14, ms_name = ''landing_u2k'', ms_args = ['''', '''', '''', '''']\<rparr>),
     (''landing_h2g'', \<lparr>ms_type = 15, ms_name = ''landing_h2g'', ms_args = ['''', '''', '''', '''']\<rparr>),
     (''landing_g2h'', \<lparr>ms_type = 16, ms_name = ''landing_g2h'', ms_args = ['''', '''', '''', '''']\<rparr>),
     (''set_data_permissions'', \<lparr>ms_type = 18, ms_name = ''set_data_permissions'', ms_args = [''actor_id'', ''int'', ''int'', '''']\<rparr>)]"

definition get_macro_spec_from_type :: "int \<Rightarrow> MacroSpec res" where
  "get_macro_spec_from_type ty =
     (case filter (\<lambda>m. ms_type m = ty) (dict_values macro_specs) of [] \<Rightarrow> raise KeyError | m # _ \<Rightarrow> ok m)"

definition filter_blocked_registers ::
  "string list \<Rightarrow> string list \<Rightarrow> (int, string list) dict \<Rightarrow> (int, string list) dict" where
  "filter_blocked_registers register_blocklist register_allowlist by_size =
     map (\<lambda>(sz, regs). (sz, filter (\<lambda>r. r \<notin> set register_blocklist \<or> r \<in> set register_allowlist) regs)) by_size"

text \<open>
  The tables of one architecture, as the other components see them.
\<close>

record target_desc =
  td_register_sizes :: "(string, int) dict"
  td_registers_by_size :: "(int, string list) dict"
  td_reg_normalized :: "(string, string) dict"
  td_reg_denormalized :: "(string, (int, string) dict) dict"
  td_mem_index_registers :: "string list"
  td_page_property_to_pte_bit_name :: PropertyMap
  td_pte_bits :: PTEDescriptor
  td_page_property_to_vm_pte_bit_name :: PropertyMap
  td_vm_pte_bits :: PTEDescriptor

section \<open>x86\<close>

definition x86_register_sizes :: "(string, int) dict" where
  "x86_register_sizes =
    [(''mm0'', 64), (''mm1'', 64), (''mm2'', 64), (''mm3'', 64), (''mm4'', 64), (''mm5'', 64),
     (''mm6'', 64), (''mm7'', 64), (''xmm0'', 128), (''xmm1'', 128), (''xmm2'', 128), (''xmm3'', 128),
     (''xmm4'', 128), (''xmm5'', 128), (''xmm6'', 128), (''xmm7'', 128), (''ymm0'', 256),
     (''ymm1'', 256), (''ymm2'', 256), (''ymm3'', 256), (''ymm4'', 256), (''ymm5'', 256),
     (''ymm6'', 256), (''ymm7'', 256), (''rax'', 64), (''rbx'', 64), (''rcx'', 64), (''rdx'', 64),
     (''rsi'', 64), (''rdi'', 64), (''rsp'', 64), (''rbp'', 64), (''r8'', 64), (''r9'', 64),
     (''r10'', 64), (''r11'', 64), (''r12'', 64), (''r13'', 64), (''r14'', 64), (''r15'', 64),
     (''eax'', 32), (''ebx'', 32), (''ecx'', 32), (''edx'', 32), (''esi'', 32), (''edi'', 32),
     (''r8d'', 32), (''r9d'', 32), (''r10d'', 32), (''r11d'', 32), (''r12d'', 32), (''r13d'', 32),
     (''r14d'', 32), (''r15d'', 32), (''ax'', 16), (''bx'', 16), (''cx'', 16), (''dx'', 16),
     (''si'', 16), (''di'', 16), (''r8w'', 16), (''r9w'', 16), (''r10w'', 16), (''r11w'', 16),
     (''r12w'', 16), (''r13w'', 16), (''r14w'', 16), (''r15w'', 16), (''al'', 8), (''bl'', 8),
     (''cl'', 8), (''dl'', 8), (''sil'', 8), (''dil'', 8), (''r8b'', 8), (''r9b'', 8), (''r10b'', 8),
     (''r11b'', 8), (''r12b'', 8), (''r13b'', 8), (''r14b'', 8), (''r15b'', 8), (''ah'', 8),
     (''bh'', 8), (''ch'', 8), (''dh'', 8)]"

definition x86_registers_by_size :: "(int, string list) dict" where
  "x86_registers_by_size =
    [(8, [''al'', ''bl'', ''cl'', ''dl'', ''sil'', ''dil'', ''r8b'', ''r9b'', ''r10b'', ''r11b'', ''r12b'',
     ''r13b'', ''r14b'', ''r15b'']),
     (16, [''ax'', ''bx'', ''cx'', ''dx'', ''si'', ''di'', ''r8w'', ''r9w'', ''r10w'', ''r11w'', ''r12w'',
     ''r13w'', ''r14w'', ''r15w'']),
     (32, [''eax'', ''ebx'', ''ecx'', ''edx'', ''esi'', ''edi'', ''r8d'', ''r9d'', ''r10d'', ''r11d'',
     ''r12d'', ''r13d'', ''r14d'', ''r15d'']),
     (64, [''rax'', ''rbx'', ''rcx'', ''rdx'', ''rsi'', ''rdi'', ''r8'', ''r9'', ''r10'', ''r11'', ''r12'',
     ''r13'', ''r14'', ''r15'', ''rsp'', ''rbp'', ''mm0'', ''mm1'', ''mm2'', ''mm3'', ''mm4'', ''mm5'',
     ''mm6'', ''mm7'']),
     (128, [''xmm0'', ''xmm1'', ''xmm2'', ''xmm3'', ''xmm4'', ''xmm5'', ''xmm6'', ''xmm7'']),
     (256, [''ymm0'', ''ymm1'', ''ymm2'', ''ymm3'', ''ymm4'', ''ymm5'', ''ymm6'', ''ymm7''])]"

definition x86_reg_normalized :: "(string, string) dict" where
  "x86_reg_normalized =
    [(''rax'', ''A''), (''eax'', ''A''), (''ax'', ''A''), (''al'', ''A''), (''ah'', ''A''),
     (''rbx'', ''B''), (''ebx'', ''B''), (''bx'', ''B''), (''bl'', ''B''), (''bh'', ''B''),
     (''rcx'', ''C''), (''ecx'', ''C''), (''cx'', ''C''), (''cl'', ''C''), (''ch'', ''C''),
     (''rdx'', ''D''), (''edx'', ''D''), (''dx'', ''D''), (''dl'', ''D''), (''dh'', ''D''),
     (''rsi'', ''SI''), (''esi'', ''SI''), (''si'', ''SI''), (''sil'', ''SI''), (''rdi'', ''DI''),
     (''edi'', ''DI''), (''di'', ''DI''), (''dil'', ''DI''), (''r8'', ''8''), (''r8d'', ''8''),
     (''r8w'', ''8''), (''r8b'', ''8''), (''r9'', ''9''), (''r9d'', ''9''), (''r9w'', ''9''),
     (''r9b'', ''9''), (''r10'', ''10''), (''r10d'', ''10''), (''r10w'', ''10''), (''r10b'', ''10''),
     (''r11'', ''11''), (''r11d'', ''11''), (''r11w'', ''11''), (''r11b'', ''11''), (''r12'', ''12''),
     (''r12d'', ''12''), (''r12w'', ''12''), (''r12b'', ''12''), (''r13'', ''13''), (''r13d'', ''13''),
     (''r13w'', ''13''), (''r13b'', ''13''), (''r14'', ''14''), (''r14d'', ''14''), (''r14w'', ''14''),
     (''r14b'', ''14''), (''r15'', ''15''), (''r15d'', ''15''), (''r15w'', ''15''), (''r15b'', ''15''),
     (''FLAGS'', ''FLAGS''), (''rip'', ''RIP''), (''rsp'', ''RSP''), (''CF'', ''CF''), (''PF'', ''PF''),
     (''AF'', ''AF''), (''ZF'', ''ZF''), (''SF'', ''SF''), (''TF'', ''TF''), (''IF'', ''IF''),
     (''DF'', ''DF''), (''OF'', ''OF''), (''AC'', ''AC''), (''mm0'', ''MM0''), (''mm1'', ''MM1''),
     (''mm2'', ''MM2''), (''mm3'', ''MM3''), (''mm4'', ''MM4''), (''mm5'', ''MM5''), (''mm6'', ''MM6''),
     (''mm7'', ''MM7''), (''xmm0'', ''XMM0''), (''xmm1'', ''XMM1''), (''xmm2'', ''XMM2''),
     (''xmm3'', ''XMM3''), (''xmm4'', ''XMM4''), (''xmm5'', ''XMM5''), (''xmm6'', ''XMM6''),
     (''xmm7'', ''XMM7''), (''ymm0'', ''YMM0''), (''ymm1'', ''YMM1''), (''ymm2'', ''YMM2''),
     (''ymm3'', ''YMM3''), (''ymm4'', ''YMM4''), (''ymm5'', ''YMM5''), (''ymm6'', ''YMM6''),
     (''ymm7'', ''YMM7''), (''cr0'', ''CR0''), (''cr2'', ''CR2''), (''cr3'', ''CR3''),
     (''cr4'', ''CR4''), (''cr8'', ''CR8''), (''xcr0'', ''XCR0''), (''dr0'', ''DR0''),
     (''dr1'', ''DR1''), (''dr2'', ''DR2''), (''dr3'', ''DR3''), (''dr6'', ''DR6''), (''dr7'', ''DR7''),
     (''gdtr'', ''GDTR''), (''idtr'', ''IDTR''), (''ldtr'', ''LDTR''), (''tr'', ''TR''),
     (''gs'', ''GS''), (''fs'', ''FS''), (''es'', ''ES''), (''ds'', ''DS''), (''cs'', ''CS''),
     (''ss'', ''SS''), (''fsbase'', ''FSBASE''), (''gsbase'', ''GSBASE''), (''msrs'', ''MSRS''),
     (''x87control'', ''X87CONTROL''), (''tsc'', ''TSC''), (''tscaux'', ''TSCAUX'')]"

definition x86_reg_denormalized :: "(string, (int, string) dict) dict" where
  "x86_reg_denormalized =
    [(''A'', [(64, ''rax''), (32, ''eax''), (16, ''ax''), (8, ''al'')]),
     (''B'', [(64, ''rbx''), (32, ''ebx''), (16, ''bx''), (8, ''bl'')]),
     (''C'', [(64, ''rcx''), (32, ''ecx''), (16, ''cx''), (8, ''cl'')]),
     (''D'', [(64, ''rdx''), (32, ''edx''), (16, ''dx''), (8, ''dl'')]),
     (''SI'', [(64, ''rsi''), (32, ''esi''), (16, ''si''), (8, ''sil'')]),
     (''DI'', [(64, ''rdi''), (32, ''edi''), (16, ''di''), (8, ''dil'')]),
     (''8'', [(64, ''r8''), (32, ''r8d''), (16, ''r8w''), (8, ''r8b'')]),
     (''9'', [(64, ''r9''), (32, ''r9d''), (16, ''r9w''), (8, ''r9b'')]),
     (''10'', [(64, ''r10''), (32, ''r10d''), (16, ''r10w''), (8, ''r10b'')]),
     (''11'', [(64, ''r11''), (32, ''r11d''), (16, ''r11w''), (8, ''r11b'')]),
     (''12'', [(64, ''r12''), (32, ''r12d''), (16, ''r12w''), (8, ''r12b'')]),
     (''13'', [(64, ''r13''), (32, ''r13d''), (16, ''r13w''), (8, ''r13b'')]),
     (''14'', [(64, ''r14''), (32, ''r14d''), (16, ''r14w''), (8, ''r14b'')]),
     (''15'', [(64, ''r15''), (32, ''r15d''), (16, ''r15w''), (8, ''r15b'')]),
     (''RIP'', [(64, ''rip''), (32, ''rip''), (16, ''rip''), (8, ''rip'')]),
     (''RSP'', [(64, ''rsp''), (32, ''rsp''), (16, ''rsp''), (8, ''rsp'')]), (''MM0'', [(64, ''mm0'')]),
     (''MM1'', [(64, ''mm1'')]), (''MM2'', [(64, ''mm2'')]), (''MM3'', [(64, ''mm3'')]),
     (''MM4'', [(64, ''mm4'')]), (''MM5'', [(64, ''mm5'')]), (''MM6'', [(64, ''mm6'')]),
     (''MM7'', [(64, ''mm7'')]), (''XMM0'', [(128, ''xmm0'')]), (''XMM1'', [(128, ''xmm1'')]),
     (''XMM2'', [(128, ''xmm2'')]), (''XMM3'', [(128, ''xmm3'')]), (''XMM4'', [(128, ''xmm4'')]),
     (''XMM5'', [(128, ''xmm5'')]), (''XMM6'', [(128, ''xmm6'')]), (''XMM7'', [(128, ''xmm7'')]),
     (''YMM0'', [(256, ''ymm0'')]), (''YMM1'', [(256, ''ymm1'')]), (''YMM2'', [(256, ''ymm2'')]),
     (''YMM3'', [(256, ''ymm3'')]), (''YMM4'', [(256, ''ymm4'')]), (''YMM5'', [(256, ''ymm5'')]),
     (''YMM6'', [(256, ''ymm6'')]), (''YMM7'', [(256, ''ymm7'')])]"

definition x86_mem_index_registers :: "string list" where
  "x86_mem_index_registers =
    [''rax'', ''rbx'', ''rcx'', ''rdx'', ''rsi'', ''rdi'']"

definition x86_page_property_to_pte_bit_name :: "PropertyMap" where
  "x86_page_property_to_pte_bit_name =
    [(''present'', (''present'', False)), (''writable'', (''writable'', False)),
     (''user'', (''user'', False)), (''write-through'', (''write-through'', False)),
     (''cache-disable'', (''cache-disable'', False)), (''accessed'', (''accessed'', False)),
     (''dirty'', (''dirty'', False)), (''executable'', (''non_executable'', True)),
     (''reserved_bit'', (''reserved_bit'', False))]"

definition x86_pte_bits :: "PTEDescriptor" where
  "x86_pte_bits =
    [(''present'', (0, True)), (''writable'', (1, True)), (''user'', (2, False)),
     (''write-through'', (3, False)), (''cache-disable'', (4, False)), (''accessed'', (5, True)),
     (''dirty'', (6, True)), (''reserved_bit'', (51, False)), (''non_executable'', (63, True))]"

definition x86_page_property_to_epte_bit_name :: "PropertyMap" where
  "x86_page_property_to_epte_bit_name =
    [(''present'', (''present'', False)), (''writable'', (''writable'', False)),
     (''user'', (''user'', False)), (''accessed'', (''accessed'', False)),
     (''dirty'', (''dirty'', False)), (''executable'', (''executable'', False)),
     (''reserved_bit'', (''reserved_bit'', False))]"

definition x86_epte_bits_intel :: "PTEDescriptor" where
  "x86_epte_bits_intel =
    [(''present'', (0, True)), (''writable'', (1, True)), (''executable'', (2, False)),
     (''accessed'', (8, True)), (''dirty'', (9, True)), (''user'', (10, False)),
     (''reserved_bit'', (51, False))]"

definition x86_page_property_to_npte_bit_name :: "PropertyMap" where
  "x86_page_property_to_npte_bit_name =
    [(''present'', (''present'', False)), (''writable'', (''writable'', False)),
     (''user'', (''user'', False)), (''accessed'', (''accessed'', False)),
     (''dirty'', (''dirty'', False)), (''executable'', (''non_executable'', True)),
     (''reserved_bit'', (''reserved_bit'', False))]"

definition x86_npte_bits_amd :: "PTEDescriptor" where
  "x86_npte_bits_amd =
    [(''present'', (0, True)), (''writable'', (1, True)), (''user'', (2, True)),
     (''accessed'', (5, True)), (''dirty'', (6, True)), (''reserved_bit'', (51, False)),
     (''non_executable'', (63, True))]"

definition x86_memory_addr_prefixes :: "(int, string) dict" where
  "x86_memory_addr_prefixes =
    [(8, ''byte ptr''), (16, ''word ptr''), (32, ''dword ptr''), (64, ''qword ptr''),
     (80, ''tbyte ptr''), (128, ''xmmword ptr''), (256, ''ymmword ptr''), (512, ''zmmword ptr''),
     (4608, ''ptr'')]"

definition X86TargetDesc_init :: "string \<Rightarrow> string list \<Rightarrow> string list \<Rightarrow> target_desc" where
  "X86TargetDesc_init vendor register_blocklist register_allowlist =
     \<lparr>td_register_sizes = x86_register_sizes,
      td_registers_by_size = filter_blocked_registers register_blocklist register_allowlist x86_registers_by_size,
      td_reg_normalized = x86_reg_normalized, td_reg_denormalized = x86_reg_denormalized,
      td_mem_index_registers = x86_mem_index_registers,
      td_page_property_to_pte_bit_name = x86_page_property_to_pte_bit_name, td_pte_bits = x86_pte_bits,
      td_page_property_to_vm_pte_bit_name =
        (if vendor = ''Intel'' then x86_page_property_to_epte_bit_name else x86_page_property_to_npte_bit_name),
      td_vm_pte_bits = (if vendor = ''Intel'' then x86_epte_bits_intel else x86_npte_bits_amd)\<rparr>"

definition x86_is_unconditional_branch :: "Instruction \<Rightarrow> bool" where
  "x86_is_unconditional_branch i \<longleftrightarrow> i_category i = ''BASE-UNCOND_BR''"

definition x86_is_call :: "Instruction \<Rightarrow> bool" where
  "x86_is_call i \<longleftrightarrow> i_category i = ''BASE-CALL''"

definition x86_usable_registers :: "(string \<Rightarrow> int) \<Rightarrow> int list" where
  "x86_usable_registers ucc =
    [ucc ''UC_X86_REG_RAX'', ucc ''UC_X86_REG_RBX'', ucc ''UC_X86_REG_RCX'', ucc ''UC_X86_REG_RDX'',
     ucc ''UC_X86_REG_RSI'', ucc ''UC_X86_REG_RDI'', ucc ''UC_X86_REG_EFLAGS'', ucc ''UC_X86_REG_RSP'']"

definition x86_usable_simd128_registers :: "(string \<Rightarrow> int) \<Rightarrow> int list" where
  "x86_usable_simd128_registers ucc =
    [ucc ''UC_X86_REG_XMM0'', ucc ''UC_X86_REG_XMM1'', ucc ''UC_X86_REG_XMM2'', ucc ''UC_X86_REG_XMM3'',
     ucc ''UC_X86_REG_XMM4'', ucc ''UC_X86_REG_XMM5'', ucc ''UC_X86_REG_XMM6'', ucc ''UC_X86_REG_XMM7'']"

definition x86_reg_str_to_constant :: "(string \<Rightarrow> int) \<Rightarrow> (string, int) dict" where
  "x86_reg_str_to_constant ucc =
    [(''al'', ucc ''UC_X86_REG_AL''), (''bl'', ucc ''UC_X86_REG_BL''), (''cl'', ucc ''UC_X86_REG_CL''),
     (''dl'', ucc ''UC_X86_REG_DL''), (''dil'', ucc ''UC_X86_REG_DIL''),
     (''sil'', ucc ''UC_X86_REG_SIL''), (''spl'', ucc ''UC_X86_REG_SPL''),
     (''bpl'', ucc ''UC_X86_REG_BPL''), (''ah'', ucc ''UC_X86_REG_AH''),
     (''bh'', ucc ''UC_X86_REG_BH''), (''ch'', ucc ''UC_X86_REG_CH''), (''dh'', ucc ''UC_X86_REG_DH''),
     (''ax'', ucc ''UC_X86_REG_AX''), (''bx'', ucc ''UC_X86_REG_BX''), (''cx'', ucc ''UC_X86_REG_CX''),
     (''dx'', ucc ''UC_X86_REG_DX''), (''di'', ucc ''UC_X86_REG_DI''), (''si'', ucc ''UC_X86_REG_SI''),
     (''sp'', ucc ''UC_X86_REG_SP''), (''bp'', ucc ''UC_X86_REG_BP''),
     (''eax'', ucc ''UC_X86_REG_EAX''), (''ebx'', ucc ''UC_X86_REG_EBX''),
     (''ecx'', ucc ''UC_X86_REG_ECX''), (''edx'', ucc ''UC_X86_REG_EDX''),
     (''edi'', ucc ''UC_X86_REG_EDI''), (''esi'', ucc ''UC_X86_REG_ESI''),
     (''esp'', ucc ''UC_X86_REG_ESP''), (''ebp'', ucc ''UC_X86_REG_EBP''),
     (''rax'', ucc ''UC_X86_REG_RAX''), (''rbx'', ucc ''UC_X86_REG_RBX''),
     (''rcx'', ucc ''UC_X86_REG_RCX''), (''rdx'', ucc ''UC_X86_REG_RDX''),
     (''rdi'', ucc ''UC_X86_REG_RDI''), (''rsi'', ucc ''UC_X86_REG_RSI''),
     (''rsp'', ucc ''UC_X86_REG_RSP''), (''rbp'', ucc ''UC_X86_REG_RBP''),
     (''xmm0'', ucc ''UC_X86_REG_XMM0''), (''xmm1'', ucc ''UC_X86_REG_XMM1''),
     (''xmm2'', ucc ''UC_X86_REG_XMM2''), (''xmm3'', ucc ''UC_X86_REG_XMM3''),
     (''xmm4'', ucc ''UC_X86_REG_XMM4''), (''xmm5'', ucc ''UC_X86_REG_XMM5''),
     (''xmm6'', ucc ''UC_X86_REG_XMM6''), (''xmm7'', ucc ''UC_X86_REG_XMM7'')]"

definition x86_reg_norm_to_constant :: "(string \<Rightarrow> int) \<Rightarrow> (string, int) dict" where
  "x86_reg_norm_to_constant ucc =
    [(''A'', ucc ''UC_X86_REG_RAX''), (''B'', ucc ''UC_X86_REG_RBX''), (''C'', ucc ''UC_X86_REG_RCX''),
     (''D'', ucc ''UC_X86_REG_RDX''), (''DI'', ucc ''UC_X86_REG_RDI''),
     (''SI'', ucc ''UC_X86_REG_RSI''), (''SP'', ucc ''UC_X86_REG_RSP''),
     (''BP'', ucc ''UC_X86_REG_RBP''), (''8'', ucc ''UC_X86_REG_R8''), (''9'', ucc ''UC_X86_REG_R9''),
     (''10'', ucc ''UC_X86_REG_R10''), (''11'', ucc ''UC_X86_REG_R11''),
     (''12'', ucc ''UC_X86_REG_R12''), (''13'', ucc ''UC_X86_REG_R13''),
     (''14'', ucc ''UC_X86_REG_R14''), (''15'', ucc ''UC_X86_REG_R15''),
     (''FLAGS'', ucc ''UC_X86_REG_EFLAGS''), (''CF'', ucc ''UC_X86_REG_EFLAGS''),
     (''PF'', ucc ''UC_X86_REG_EFLAGS''), (''AF'', ucc ''UC_X86_REG_EFLAGS''),
     (''ZF'', ucc ''UC_X86_REG_EFLAGS''), (''SF'', ucc ''UC_X86_REG_EFLAGS''),
     (''TF'', ucc ''UC_X86_REG_EFLAGS''), (''IF'', ucc ''UC_X86_REG_EFLAGS''),
     (''DF'', ucc ''UC_X86_REG_EFLAGS''), (''OF'', ucc ''UC_X86_REG_EFLAGS''),
     (''AC'', ucc ''UC_X86_REG_EFLAGS''), (''XMM0'', ucc ''UC_X86_REG_XMM0''),
     (''XMM1'', ucc ''UC_X86_REG_XMM1''), (''XMM2'', ucc ''UC_X86_REG_XMM2''),
     (''XMM3'', ucc ''UC_X86_REG_XMM3''), (''XMM4'', ucc ''UC_X86_REG_XMM4''),
     (''XMM5'', ucc ''UC_X86_REG_XMM5''), (''XMM6'', ucc ''UC_X86_REG_XMM6''),
     (''XMM7'', ucc ''UC_X86_REG_XMM7''), (''XMM8'', ucc ''UC_X86_REG_XMM8''),
     (''XMM9'', ucc ''UC_X86_REG_XMM9''), (''XMM10'', ucc ''UC_X86_REG_XMM10''),
     (''XMM11'', ucc ''UC_X86_REG_XMM11''), (''XMM12'', ucc ''UC_X86_REG_XMM12''),
     (''XMM14'', ucc ''UC_X86_REG_XMM14''), (''XMM15'', ucc ''UC_X86_REG_XMM15''), (''RIP'', - 1),
     (''RSP'', - 1), (''CR0'', - 1), (''CR2'', - 1), (''CR3'', - 1), (''CR4'', - 1), (''CR8'', - 1),
     (''XCR0'', - 1), (''DR0'', - 1), (''DR1'', - 1), (''DR2'', - 1), (''DR3'', - 1), (''DR6'', - 1),
     (''DR7'', - 1), (''GDTR'', - 1), (''IDTR'', - 1), (''LDTR'', - 1), (''TR'', - 1),
     (''FSBASE'', - 1), (''GSBASE'', - 1), (''MSRS'', - 1), (''X87CONTROL'', - 1), (''TSC'', - 1),
     (''TSCAUX'', - 1)]"

definition x86_barriers :: "string list" where
  "x86_barriers =
    [''mfence'', ''lfence'']"

definition x86_flags_register :: "(string \<Rightarrow> int) \<Rightarrow> int" where
  "x86_flags_register ucc =
    ucc ''UC_X86_REG_EFLAGS''"

definition x86_pc_register :: "(string \<Rightarrow> int) \<Rightarrow> int" where
  "x86_pc_register ucc =
    ucc ''UC_X86_REG_RIP''"

definition x86_sp_register :: "(string \<Rightarrow> int) \<Rightarrow> int" where
  "x86_sp_register ucc =
    ucc ''UC_X86_REG_RSP''"

definition x86_actor_base_register :: "(string \<Rightarrow> int) \<Rightarrow> int" where
  "x86_actor_base_register ucc =
    ucc ''UC_X86_REG_R14''"

section \<open>ARM64\<close>

definition arm64_register_sizes :: "(string, int) dict" where
  "arm64_register_sizes =
    [(''w0'', 32), (''w1'', 32), (''w2'', 32), (''w3'', 32), (''w4'', 32), (''w5'', 32), (''w6'', 32),
     (''w7'', 32), (''wsp'', 32), (''wzr'', 32), (''x0'', 64), (''x1'', 64), (''x2'', 64), (''x3'', 64),
     (''x4'', 64), (''x5'', 64), (''x6'', 64), (''x7'', 64), (''sp'', 64), (''xsp'', 64), (''xzr'', 64)]"

definition arm64_registers_by_size :: "(int, string list) dict" where
  "arm64_registers_by_size =
    [(32, [''w0'', ''w1'', ''w2'', ''w3'', ''w4'', ''w5'', ''w6'', ''w7'']),
     (64, [''x0'', ''x1'', ''x2'', ''x3'', ''x4'', ''x5'', ''x6'', ''x7''])]"

definition arm64_reg_normalized :: "(string, string) dict" where
  "arm64_reg_normalized =
    [(''w0'', ''R0''), (''x0'', ''R0''), (''w1'', ''R1''), (''x1'', ''R1''), (''w2'', ''R2''),
     (''x2'', ''R2''), (''w3'', ''R3''), (''x3'', ''R3''), (''w4'', ''R4''), (''x4'', ''R4''),
     (''w5'', ''R5''), (''x5'', ''R5''), (''w6'', ''R6''), (''x6'', ''R6''), (''w7'', ''R7''),
     (''x7'', ''R7''), (''w8'', ''R8''), (''x8'', ''R8''), (''w9'', ''R9''), (''x9'', ''R9''),
     (''w10'', ''R10''), (''x10'', ''R10''), (''w20'', ''R20''), (''x20'', ''R20''), (''w30'', ''R30''),
     (''x30'', ''R30''), (''CF'', ''CF''), (''ZF'', ''ZF''), (''SF'', ''SF''), (''OF'', ''OF''),
     (''pc'', ''RIP''), (''sp'', ''RSP''), (''wsp'', ''RSP''), (''xsp'', ''RSP'')]"

definition arm64_reg_denormalized :: "(string, (int, string) dict) dict" where
  "arm64_reg_denormalized =
    [(''R0'', [(64, ''x0''), (32, ''w0'')]), (''R1'', [(64, ''x1''), (32, ''w1'')]),
     (''R2'', [(64, ''x2''), (32, ''w2'')]), (''R3'', [(64, ''x3''), (32, ''w3'')]),
     (''R4'', [(64, ''x4''), (32, ''w4'')]), (''R5'', [(64, ''x5''), (32, ''w5'')]),
     (''R6'', [(64, ''x6''), (32, ''w6'')]), (''R7'', [(64, ''x7''), (32, ''w7'')]),
     (''R20'', [(64, ''x20''), (32, ''w20'')]), (''R30'', [(64, ''x30''), (32, ''w30'')]),
     (''RIP'', [(64, ''pc'')]), (''RSP'', [(64, ''sp''), (32, ''wsp'')])]"

definition arm64_mem_index_registers :: "string list" where
  "arm64_mem_index_registers =
    [''x0'', ''x1'', ''x2'', ''x3'', ''x4'', ''x5'']"

definition arm64_page_property_to_pte_bit_name :: "PropertyMap" where
  "arm64_page_property_to_pte_bit_name =
    [(''present'', (''valid'', False)), (''writable'', (''non_writable'', True)),
     (''user'', (''user'', False)), (''accessed'', (''accessed'', False)),
     (''executable'', (''non_executable'', True))]"

definition arm64_pte_bits :: "PTEDescriptor" where
  "arm64_pte_bits =
    [(''valid'', (0, True)), (''user'', (6, False)), (''non_writable'', (7, False)),
     (''accessed'', (10, True)), (''non_executable'', (53, True))]"

definition arm64_page_property_to_vm_pte_bit_name :: "PropertyMap" where
  "arm64_page_property_to_vm_pte_bit_name =
    [(''present'', (''valid'', False)), (''writable'', (''non_writable'', True)),
     (''user'', (''user'', False)), (''accessed'', (''accessed'', False)),
     (''executable'', (''non_executable'', True))]"

definition arm64_vm_pte_bits :: "PTEDescriptor" where
  "arm64_vm_pte_bits =
    [(''valid'', (0, True)), (''user'', (0, False)), (''non_writable'', (0, False)),
     (''accessed'', (0, True)), (''non_executable'', (0, True))]"

definition arm64_branch_conditions :: "(string, string list) dict" where
  "arm64_branch_conditions =
    [(''eq'', ['''', '''', '''', ''r'', '''', '''', '''', '''', '''']),
     (''ne'', ['''', '''', '''', ''r'', '''', '''', '''', '''', '''']),
     (''cs'', [''r'', '''', '''', '''', '''', '''', '''', '''', '''']),
     (''cc'', [''r'', '''', '''', '''', '''', '''', '''', '''', '''']),
     (''mi'', ['''', '''', '''', '''', ''r'', '''', '''', '''', '''']),
     (''pl'', ['''', '''', '''', '''', ''r'', '''', '''', '''', '''']),
     (''vs'', ['''', '''', '''', '''', '''', '''', '''', '''', ''r'']),
     (''vc'', ['''', '''', '''', '''', '''', '''', '''', '''', ''r'']),
     (''hi'', [''r'', '''', '''', ''r'', '''', '''', '''', '''', '''']),
     (''ls'', [''r'', '''', '''', ''r'', '''', '''', '''', '''', '''']),
     (''ge'', ['''', '''', '''', '''', ''r'', '''', '''', '''', ''r'']),
     (''lt'', ['''', '''', '''', '''', ''r'', '''', '''', '''', ''r'']),
     (''gt'', ['''', '''', '''', ''r'', ''r'', '''', '''', '''', ''r'']),
     (''le'', ['''', '''', '''', ''r'', ''r'', '''', '''', '''', ''r'']),
     (''al'', ['''', '''', '''', '''', '''', '''', '''', '''', ''''])]"

definition ARM64TargetDesc_init :: "string list \<Rightarrow> string list \<Rightarrow> target_desc" where
  "ARM64TargetDesc_init register_blocklist register_allowlist =
     \<lparr>td_register_sizes = arm64_register_sizes,
      td_registers_by_size = filter_blocked_registers register_blocklist register_allowlist arm64_registers_by_size,
      td_reg_normalized = arm64_reg_normalized, td_reg_denormalized = arm64_reg_denormalized,
      td_mem_index_registers = arm64_mem_index_registers,
      td_page_property_to_pte_bit_name = arm64_page_property_to_pte_bit_name, td_pte_bits = arm64_pte_bits,
      td_page_property_to_vm_pte_bit_name = arm64_page_property_to_vm_pte_bit_name,
      td_vm_pte_bits = arm64_vm_pte_bits\<rparr>"

definition arm64_is_unconditional_branch :: "Instruction \<Rightarrow> bool" where
  "arm64_is_unconditional_branch i \<longleftrightarrow> i_name i = ''b''"

definition arm64_is_call :: "Instruction \<Rightarrow> bool" where
  "arm64_is_call i \<longleftrightarrow> i_name i = ''bl''"

definition arm64_usable_registers :: "(string \<Rightarrow> int) \<Rightarrow> int list" where
  "arm64_usable_registers ucc =
    [ucc ''UC_ARM64_REG_X0'', ucc ''UC_ARM64_REG_X1'', ucc ''UC_ARM64_REG_X2'', ucc ''UC_ARM64_REG_X3'',
     ucc ''UC_ARM64_REG_X4'', ucc ''UC_ARM64_REG_X5'', ucc ''UC_ARM64_REG_NZCV'', ucc ''UC_ARM64_REG_SP'']"

definition arm64_usable_simd128_registers :: "(string \<Rightarrow> int) \<Rightarrow> int list" where
  "arm64_usable_simd128_registers ucc =
    []"

definition arm64_reg_str_to_constant :: "(string \<Rightarrow> int) \<Rightarrow> (string, int) dict" where
  "arm64_reg_str_to_constant ucc =
    [(''x0'', ucc ''UC_ARM64_REG_X0''), (''x1'', ucc ''UC_ARM64_REG_X1''),
     (''x2'', ucc ''UC_ARM64_REG_X2''), (''x3'', ucc ''UC_ARM64_REG_X3''),
     (''x4'', ucc ''UC_ARM64_REG_X4''), (''x5'', ucc ''UC_ARM64_REG_X5''),
     (''x6'', ucc ''UC_ARM64_REG_X6''), (''x7'', ucc ''UC_ARM64_REG_X7''),
     (''x8'', ucc ''UC_ARM64_REG_X8''), (''x9'', ucc ''UC_ARM64_REG_X9''),
     (''x10'', ucc ''UC_ARM64_REG_X10''), (''x11'', ucc ''UC_ARM64_REG_X11''),
     (''x12'', ucc ''UC_ARM64_REG_X12''), (''x13'', ucc ''UC_ARM64_REG_X13''),
     (''x14'', ucc ''UC_ARM64_REG_X14''), (''x15'', ucc ''UC_ARM64_REG_X15''),
     (''x16'', ucc ''UC_ARM64_REG_X16''), (''x17'', ucc ''UC_ARM64_REG_X17''),
     (''x18'', ucc ''UC_ARM64_REG_X18''), (''x19'', ucc ''UC_ARM64_REG_X19''),
     (''x20'', ucc ''UC_ARM64_REG_X20''), (''x21'', ucc ''UC_ARM64_REG_X21''),
     (''x22'', ucc ''UC_ARM64_REG_X22''), (''x23'', ucc ''UC_ARM64_REG_X23''),
     (''x24'', ucc ''UC_ARM64_REG_X24''), (''x25'', ucc ''UC_ARM64_REG_X25''),
     (''x26'', ucc ''UC_ARM64_REG_X26''), (''x27'', ucc ''UC_ARM64_REG_X27''),
     (''x28'', ucc ''UC_ARM64_REG_X28''), (''x29'', ucc ''UC_ARM64_REG_X29''),
     (''x30'', ucc ''UC_ARM64_REG_X30'')]"

definition arm64_reg_norm_to_constant :: "(string \<Rightarrow> int) \<Rightarrow> (string, int) dict" where
  "arm64_reg_norm_to_constant ucc =
    [(''R0'', ucc ''UC_ARM64_REG_X0''), (''R1'', ucc ''UC_ARM64_REG_X1''),
     (''R2'', ucc ''UC_ARM64_REG_X2''), (''R3'', ucc ''UC_ARM64_REG_X3''),
     (''R4'', ucc ''UC_ARM64_REG_X4''), (''R5'', ucc ''UC_ARM64_REG_X5''),
     (''R6'', ucc ''UC_ARM64_REG_X6''), (''R7'', ucc ''UC_ARM64_REG_X7''),
     (''R20'', ucc ''UC_ARM64_REG_X20''), (''R30'', ucc ''UC_ARM64_REG_X30''),
     (''FLAGS'', ucc ''UC_ARM64_REG_NZCV''), (''SF'', ucc ''UC_ARM64_REG_NZCV''),
     (''ZF'', ucc ''UC_ARM64_REG_NZCV''), (''CF'', ucc ''UC_ARM64_REG_NZCV''),
     (''OF'', ucc ''UC_ARM64_REG_NZCV''), (''RIP'', - 1), (''RSP'', - 1)]"

definition arm64_barriers :: "string list" where
  "arm64_barriers =
    [''dmb'', ''dsb'', ''isb'']"

definition arm64_flags_register :: "(string \<Rightarrow> int) \<Rightarrow> int" where
  "arm64_flags_register ucc =
    ucc ''UC_ARM64_REG_NZCV''"

definition arm64_pc_register :: "(string \<Rightarrow> int) \<Rightarrow> int" where
  "arm64_pc_register ucc =
    ucc ''UC_ARM64_REG_PC''"

definition arm64_sp_register :: "(string \<Rightarrow> int) \<Rightarrow> int" where
  "arm64_sp_register ucc =
    ucc ''UC_ARM64_REG_SP''"

definition arm64_actor_base_register :: "(string \<Rightarrow> int) \<Rightarrow> int" where
  "arm64_actor_base_register ucc =
    ucc ''UC_ARM64_REG_X20''"

section \<open>Consistency of the register tables\<close>

text \<open>
  The tests of one architecture: every register listed under a size has that size; every register name of
  a general purpose register has a normalised name, and going through the normalised name to the same size
  comes back to the register; every denormalised name normalises back.
\<close>

definition sizes_agree :: "target_desc \<Rightarrow> bool" where
  "sizes_agree T \<longleftrightarrow>
     list_all (\<lambda>(sz, regs). list_all (\<lambda>r. map_of (td_register_sizes T) r = Some sz) regs) (td_registers_by_size T)"

definition names_roundtrip :: "string list \<Rightarrow> target_desc \<Rightarrow> bool" where
  "names_roundtrip unnamed T \<longleftrightarrow>
     list_all (\<lambda>(sz, regs). list_all (\<lambda>r. r \<in> set unnamed \<or>
       Option.bind (map_of (td_reg_normalized T) r) (\<lambda>n.
         Option.bind (map_of (td_reg_denormalized T) n) (\<lambda>d. map_of d sz)) = Some r) regs) (td_registers_by_size T)"

definition names_normalise :: "target_desc \<Rightarrow> bool" where
  "names_normalise T \<longleftrightarrow>
     list_all (\<lambda>(n, d). list_all (\<lambda>(sz, r). map_of (td_reg_normalized T) r = Some n) d) (td_reg_denormalized T)"

definition index_registers_ok :: "target_desc \<Rightarrow> bool" where
  "index_registers_ok T \<longleftrightarrow>
     list_all (\<lambda>r. map_of (td_register_sizes T) r = Some 64 \<and> map_of (td_reg_normalized T) r \<noteq> None)
       (td_mem_index_registers T)"

lemma filter_blocked_list_all:
  assumes "list_all (\<lambda>(sz, regs). list_all (P sz) regs) d"
  shows "list_all (\<lambda>(sz, regs). list_all (P sz) regs) (filter_blocked_registers b a d)"
  using assms by (auto simp: filter_blocked_registers_def list_all_iff)

lemma filter_blocked_nothing: "filter_blocked_registers [] [] d = d"
  by (induction d) (auto simp: filter_blocked_registers_def)

lemma x86_sizes_agree: "sizes_agree (X86TargetDesc_init v [] [])"
  unfolding sizes_agree_def X86TargetDesc_init_def target_desc.simps filter_blocked_nothing by code_simp

lemma x86_names_roundtrip: "names_roundtrip [''rbp''] (X86TargetDesc_init v [] [])"
  unfolding names_roundtrip_def X86TargetDesc_init_def target_desc.simps filter_blocked_nothing by code_simp

lemma x86_names_normalise: "names_normalise (X86TargetDesc_init v b a)"
  unfolding names_normalise_def X86TargetDesc_init_def target_desc.simps by code_simp

lemma x86_index_registers_ok: "index_registers_ok (X86TargetDesc_init v b a)"
  unfolding index_registers_ok_def X86TargetDesc_init_def target_desc.simps by code_simp

lemma arm64_tables_ok:
  "sizes_agree (ARM64TargetDesc_init [] [])" "names_roundtrip [] (ARM64TargetDesc_init [] [])"
  "names_normalise (ARM64TargetDesc_init b a)" "index_registers_ok (ARM64TargetDesc_init b a)"
  unfolding names_normalise_def index_registers_ok_def ARM64TargetDesc_init_def target_desc.simps by code_simp+

lemma sizes_agree_filtered:
  "sizes_agree T \<Longrightarrow> sizes_agree (T\<lparr>td_registers_by_size := filter_blocked_registers b a (td_registers_by_size T)\<rparr>)"
  by (simp add: sizes_agree_def filter_blocked_list_all)

lemma names_roundtrip_filtered:
  "names_roundtrip u T \<Longrightarrow>
   names_roundtrip u (T\<lparr>td_registers_by_size := filter_blocked_registers b a (td_registers_by_size T)\<rparr>)"
  by (simp add: names_roundtrip_def filter_blocked_list_all)

lemma init_filtered:
  "X86TargetDesc_init v b a = (X86TargetDesc_init v [] [])
     \<lparr>td_registers_by_size := filter_blocked_registers b a (td_registers_by_size (X86TargetDesc_init v [] []))\<rparr>"
  "ARM64TargetDesc_init b a = (ARM64TargetDesc_init [] [])
     \<lparr>td_registers_by_size := filter_blocked_registers b a (td_registers_by_size (ARM64TargetDesc_init [] []))\<rparr>"
  by (simp_all add: X86TargetDesc_init_def ARM64TargetDesc_init_def filter_blocked_nothing)


section \<open>Page table bits\<close>

definition pte_tables :: "(PTEDescriptor \<times> PropertyMap) list" where
  "pte_tables =
     [(x86_pte_bits, x86_page_property_to_pte_bit_name), (x86_epte_bits_intel, x86_page_property_to_epte_bit_name),
      (x86_npte_bits_amd, x86_page_property_to_npte_bit_name), (arm64_pte_bits, arm64_page_property_to_pte_bit_name)]"

definition table_ok :: "PTEDescriptor \<times> PropertyMap \<Rightarrow> bool" where
  "table_ok t = (case t of (desc, pm) \<Rightarrow>
     distinct (map fst desc) \<and> distinct (map (fst \<circ> snd) desc) \<and> distinct (map (fst \<circ> snd) pm) \<and>
     list_all (\<lambda>(p, b, inv). map_of desc b \<noteq> None) pm)"

lemma pte_tables_ok: "list_all table_ok pte_tables"
  by code_simp

lemma offsets_injectiveI:
  assumes "distinct (map (fst \<circ> snd) desc)" shows "offsets_injective desc"
  unfolding offsets_injective_def
proof (intro allI impI, elim conjE)
  fix n n' off d d' assume "map_of desc n = Some (off, d)" "map_of desc n' = Some (off, d')"
  then have m: "(n, off, d) \<in> set desc" "(n', off, d') \<in> set desc" by (auto dest: map_of_SomeD)
  have "inj_on (fst \<circ> snd) (set desc)" using assms by (simp add: distinct_map)
  from inj_onD [OF this _ m] show "n = n'" by simp
qed

lemma arch_properties_keep:
  assumes "arch_properties pm acc ps = Inr props" and "map_of acc b = Some w"
    and "\<And>p inv. p \<in> set (dict_keys ps) \<Longrightarrow> map_of pm p \<noteq> Some (b, inv)"
  shows "map_of props b = Some w"
  using assms
proof (induction ps arbitrary: acc)
  case (Cons x ps)
  obtain p v where x: "x = (p, v)" by (cases x)
  show ?case
  proof (cases "p = ''randomized''")
    case True
    then show ?thesis using Cons.prems by (intro Cons.IH) (auto simp: x)
  next
    case False
    then obtain bn inv where m: "map_of pm p = Some (bn, inv)"
      and run: "arch_properties pm (dict_set acc bn (if inv then \<not> v else v)) ps = Inr props"
      using Cons.prems(1) by (auto simp: x split: option.splits prod.splits)
    have "bn \<noteq> b" using Cons.prems(3) [of p inv] m by (auto simp: x)
    then show ?thesis
      using Cons.prems(2,3) by (intro Cons.IH [OF run]) (auto simp: x update_conv')
  qed
qed simp

lemma arch_properties_value:
  assumes "arch_properties pm acc ps = Inr props" and "distinct (dict_keys ps)"
    and "distinct (map (fst \<circ> snd) pm)" and "map_of ps p = Some v" and "p \<noteq> ''randomized''"
  shows "\<exists>b inv. map_of pm p = Some (b, inv) \<and> map_of props b = Some (v \<noteq> inv)"
  using assms(1,2,4)
proof (induction ps arbitrary: acc)
  case (Cons x ps)
  obtain q w where x: "x = (q, w)" by (cases x)
  show ?case
  proof (cases "q = p")
    case True
    then have w: "w = v" using Cons.prems(3) by (simp add: x)
    from True Cons.prems(1) assms(5) obtain b inv where m: "map_of pm p = Some (b, inv)"
      and run: "arch_properties pm (dict_set acc b (if inv then \<not> v else v)) ps = Inr props"
      by (auto simp: x w split: option.splits prod.splits)
    have "map_of props b = Some (if inv then \<not> v else v)"
    proof (rule arch_properties_keep [OF run])
      fix p' inv' assume p': "p' \<in> set (dict_keys ps)"
      show "map_of pm p' \<noteq> Some (b, inv')"
      proof
        assume "map_of pm p' = Some (b, inv')"
        then have "(p', b, inv') \<in> set pm" "(p, b, inv) \<in> set pm" using m by (auto dest: map_of_SomeD)
        moreover have "inj_on (fst \<circ> snd) (set pm)" using assms(3) by (simp add: distinct_map)
        ultimately have "p' = p" using inj_onD [of "fst \<circ> snd" "set pm" "(p', b, inv')" "(p, b, inv)"] by simp
        then show False using p' Cons.prems(2) True by (auto simp: x)
      qed
    qed (simp add: update_conv')
    then show ?thesis using m by auto
  next
    case False
    then have mp: "map_of ps p = Some v" using Cons.prems(3) by (simp add: x)
    have d: "distinct (dict_keys ps)" using Cons.prems(2) by simp
    from Cons.prems(1) obtain acc' where "arch_properties pm acc' ps = Inr props"
      by (auto simp: x split: if_splits option.splits prod.splits)
    from Cons.IH [OF this d mp] show ?thesis .
  qed
qed simp


text \<open>A page that is present, read-only and executable, on x86.\<close>

definition demo_page :: "(string, bool) dict" where
  "demo_page = [(''present'', True), (''writable'', False), (''user'', False), (''executable'', True),
     (''randomized'', False)]"


end
