(* ===== verification/X86Machine.thy ===== *)
theory X86Machine
  imports Instruction TargetDesc
begin

unbundle bit_operations_syntax

text \<open>
  The instructions that the generator uses for instrumentation, executed on registers and memory: the
  semantics against which the instrumentation passes are judged. A cell is a register, named by its
  normalised name, or the memory at an address; it holds a number of which an operand uses the lowest
  bits (memory at an address stands for the little-endian number that starts there). Flags are left
  out: no instruction here reads them. The width of a register operand is that of the register with the
  given name, as in the assembly text. Execution gives no result if a division faults or if an
  instruction or an operand is unknown.
\<close>

datatype cell = Reg string | Mem nat

type_synonym machine = "cell \<Rightarrow> nat"

definition reg_value :: "machine \<Rightarrow> string \<Rightarrow> nat" where
  "reg_value st n = take_bit 64 (st (Reg n))"

section \<open>Operands\<close>

text \<open>An address is a sum of registers and numbers, as in \<^verbatim>\<open>r14 + rax - 4096\<close>.\<close>

fun ea_terms :: "machine \<Rightarrow> int \<Rightarrow> string list \<Rightarrow> int option" where
  "ea_terms st sg [] = Some 0"
| "ea_terms st sg (w # ws) =
     (if w = ''+'' then ea_terms st 1 ws
      else if w = ''-'' then ea_terms st (- 1) ws
      else case map_of x86_reg_normalized w of
             Some n \<Rightarrow> map_option (\<lambda>x. sg * int (reg_value st n) + x) (ea_terms st 1 ws)
           | None \<Rightarrow> (case int_base0 w of
                 Inr k \<Rightarrow> map_option (\<lambda>x. sg * k + x) (ea_terms st 1 ws)
               | Inl _ \<Rightarrow> None))"

definition ea :: "machine \<Rightarrow> string \<Rightarrow> nat option" where
  "ea st v = map_option (\<lambda>x. nat (x mod 2 ^ 64)) (ea_terms st 1 (split_on (\<lambda>c. c = CHR '' '') v))"

definition high_bytes :: "string list" where
  "high_bytes = [''ah'', ''bh'', ''ch'', ''dh'']"

definition op_cell :: "machine \<Rightarrow> Operand \<Rightarrow> cell option" where
  "op_cell st o1 =
     (if is_mem o1 then map_option Mem (ea st (op_value o1))
      else if is_reg o1 then map_option Reg (map_of x86_reg_normalized (op_value o1)) else None)"

definition op_bits :: "Operand \<Rightarrow> nat option" where
  "op_bits o1 =
     (case op_class o1 of
        MemoryOp w \<Rightarrow> Some (nat w)
      | RegisterOp _ \<Rightarrow> map_option nat (map_of x86_register_sizes (op_value o1))
      | _ \<Rightarrow> None)"

definition set_low :: "nat \<Rightarrow> nat \<Rightarrow> nat \<Rightarrow> nat" where
  "set_low w c v = push_bit w (drop_bit w c) OR take_bit w v"

definition read_op :: "machine \<Rightarrow> Operand \<Rightarrow> nat option" where
  "read_op st o1 =
     (if is_imm o1 then (case int_base0 (op_value o1) of Inr k \<Rightarrow> Some (nat k) | Inl _ \<Rightarrow> None)
      else Option.bind (op_cell st o1) (\<lambda>c. Option.bind (op_bits o1) (\<lambda>w.
        if is_reg o1 \<and> op_value o1 \<in> set high_bytes then Some (take_bit 8 (drop_bit 8 (st c)))
        else Some (take_bit w (st c)))))"

text \<open>Writing 32 bits of a register clears its upper half; narrower writes keep the rest.\<close>

definition write_op :: "machine \<Rightarrow> Operand \<Rightarrow> nat \<Rightarrow> machine option" where
  "write_op st o1 v =
     Option.bind (op_cell st o1) (\<lambda>c. Option.bind (op_bits o1) (\<lambda>w.
       if is_reg o1 \<and> op_value o1 \<in> set high_bytes
       then Some (st(c := set_low 16 (st c) (push_bit 8 (take_bit 8 v) OR take_bit 8 (st c))))
       else if is_reg o1 \<and> w = 32 then Some (st(c := take_bit 32 v))
       else Some (st(c := set_low w (st c) v))))"

section \<open>Instructions\<close>

definition alu :: "string \<Rightarrow> nat \<Rightarrow> nat \<Rightarrow> nat \<Rightarrow> nat option" where
  "alu name w a b =
     (if name = ''mov'' then Some b
      else if name = ''and'' then Some (a AND b)
      else if name = ''or'' then Some (a OR b)
      else if name = ''xor'' then Some (a XOR b)
      else if name = ''add'' then Some ((a + b) mod 2 ^ w)
      else if name = ''sub'' then Some ((a + (2 ^ w - b mod 2 ^ w)) mod 2 ^ w)
      else if name = ''shr'' then Some (drop_bit b a)
      else None)"

definition signed_value :: "nat \<Rightarrow> nat \<Rightarrow> int" where
  "signed_value w n = (if n < 2 ^ (w - 1) then int n else int n - 2 ^ w)"

definition trunc_div :: "int \<Rightarrow> int \<Rightarrow> int" where
  "trunc_div a b = sgn a * sgn b * (\<bar>a\<bar> div \<bar>b\<bar>)"

text \<open>
  Quotient and remainder of a dividend of twice the width, or nothing: division by zero and a quotient
  that does not fit both raise a divide error.
\<close>

definition udivide :: "nat \<Rightarrow> nat \<Rightarrow> nat \<Rightarrow> (nat \<times> nat) option" where
  "udivide w n d = (if d = 0 \<or> 2 ^ w \<le> n div d then None else Some (n div d, n mod d))"

definition sdivide :: "nat \<Rightarrow> nat \<Rightarrow> nat \<Rightarrow> (nat \<times> nat) option" where
  "sdivide w n d =
     (let sn = signed_value (2 * w) n; sd = signed_value w d; q = trunc_div sn sd
      in if sd = 0 \<or> q < - (2 ^ (w - 1)) \<or> 2 ^ (w - 1) \<le> q then None
         else Some (nat (q mod 2 ^ w), nat ((sn - q * sd) mod 2 ^ w)))"

definition dividend :: "machine \<Rightarrow> nat \<Rightarrow> nat" where
  "dividend st w =
     (if w = 8 then take_bit 16 (st (Reg ''A''))
      else take_bit w (st (Reg ''D'')) * 2 ^ w + take_bit w (st (Reg ''A'')))"

definition put_result :: "machine \<Rightarrow> nat \<Rightarrow> nat \<times> nat \<Rightarrow> machine" where
  "put_result st w qr =
     (if w = 8 then st(Reg ''A'' := set_low 16 (st (Reg ''A'')) (fst qr + 256 * snd qr))
      else if w = 32 then st(Reg ''A'' := fst qr, Reg ''D'' := snd qr)
      else st(Reg ''A'' := set_low w (st (Reg ''A'')) (fst qr), Reg ''D'' := set_low w (st (Reg ''D'')) (snd qr)))"

definition exec :: "machine \<Rightarrow> Instruction \<Rightarrow> machine option" where
  "exec st i =
     (case operands i of
        [o1] \<Rightarrow>
          if i_name i \<in> {''div'', ''rex div'', ''idiv'', ''rex idiv''}
          then Option.bind (op_bits o1) (\<lambda>w. Option.bind (read_op st o1) (\<lambda>d.
                 map_option (put_result st w)
                   (if contains (i_name i) ''idiv'' then sdivide w (dividend st w) d else udivide w (dividend st w) d)))
          else None
      | [o1, o2] \<Rightarrow>
          Option.bind (op_bits o1) (\<lambda>w. Option.bind (read_op st o1) (\<lambda>a. Option.bind (read_op st o2) (\<lambda>b.
            Option.bind (alu (i_name i) w a b) (write_op st o1))))
      | _ \<Rightarrow> None)"

fun exec_all :: "Instruction list \<Rightarrow> machine \<Rightarrow> machine option" where
  "exec_all [] st = Some st"
| "exec_all (i # is) st = Option.bind (exec st i) (exec_all is)"

lemma exec_all_append: "exec_all (xs @ ys) st = Option.bind (exec_all xs st) (exec_all ys)"
  by (induction xs arbitrary: st) (auto simp: Option.bind_assoc intro!: Option.bind_cong)

section \<open>Reading and writing\<close>

lemma bit_set_low [bit_simps]: "bit (set_low w c v) k \<longleftrightarrow> (if k < w then bit v k else bit c k)"
  by (auto simp: set_low_def bit_simps not_less)

lemma take_bit_set_low [simp]: "take_bit w (set_low w c v) = take_bit w v"
  by (rule bit_eqI) (auto simp: bit_simps)

lemma read_op_cong:
  "op_cell st' o1 = op_cell st o1 \<Longrightarrow> (\<And>c. op_cell st o1 = Some c \<Longrightarrow> st' c = st c) \<Longrightarrow> read_op st' o1 = read_op st o1"
  by (cases "op_cell st o1") (auto simp: read_op_def intro!: Option.bind_cong)

lemma write_opE:
  assumes "op_cell st o1 = Some c" and "op_bits o1 = Some w"
  obtains st' where "write_op st o1 v = Some st'" and "\<And>c'. c' \<noteq> c \<Longrightarrow> st' c' = st c'"
    and "\<And>k. op_value o1 \<notin> set high_bytes \<or> is_mem o1 \<Longrightarrow> k < w \<Longrightarrow> bit (st' c) k = bit v k"
    and "\<And>k. op_value o1 \<notin> set high_bytes \<or> is_mem o1 \<Longrightarrow> w \<noteq> 32 \<or> is_mem o1 \<Longrightarrow> w \<le> k \<Longrightarrow> bit (st' c) k = bit (st c) k"
    and "\<And>k. op_value o1 \<in> set high_bytes \<Longrightarrow> is_reg o1 \<Longrightarrow> k < 8 \<Longrightarrow> bit (st' c) (8 + k) = bit v k"
proof -
  have "is_mem o1 \<Longrightarrow> \<not> is_reg o1" by (simp add: op_class_defs split: op_class.splits)
  show ?thesis
  proof (rule that)
    show "write_op st o1 v = Some (st(c :=
        if is_reg o1 \<and> op_value o1 \<in> set high_bytes then set_low 16 (st c) (push_bit 8 (take_bit 8 v) OR take_bit 8 (st c))
        else if is_reg o1 \<and> w = 32 then take_bit 32 v else set_low w (st c) v))"
      using assms by (simp add: write_op_def)
  qed (use \<open>is_mem o1 \<Longrightarrow> \<not> is_reg o1\<close> in \<open>auto simp: bit_simps\<close>)
qed

text \<open>One instruction with two operands: the effect on the cell of the first.\<close>

lemma exec_aluE:
  assumes "operands i = [o1, o2]" and "op_cell st o1 = Some c" and "op_bits o1 = Some w"
    and "read_op st o2 = Some b" and "\<And>a. read_op st o1 = Some a \<Longrightarrow> alu (i_name i) w a b = Some (f a)"
  obtains a st' where "exec st i = Some st'" and "read_op st o1 = Some a" and "\<And>c'. c' \<noteq> c \<Longrightarrow> st' c' = st c'"
    and "\<And>k. op_value o1 \<notin> set high_bytes \<or> is_mem o1 \<Longrightarrow> k < w \<Longrightarrow> bit (st' c) k = bit (f a) k"
    and "\<And>k. op_value o1 \<notin> set high_bytes \<or> is_mem o1 \<Longrightarrow> w \<noteq> 32 \<or> is_mem o1 \<Longrightarrow> w \<le> k \<Longrightarrow> bit (st' c) k = bit (st c) k"
    and "\<And>k. op_value o1 \<in> set high_bytes \<Longrightarrow> is_reg o1 \<Longrightarrow> k < 8 \<Longrightarrow> bit (st' c) (8 + k) = bit (f a) k"
proof -
  obtain a where a: "read_op st o1 = Some a"
  proof -
    have "\<not> is_imm o1" using assms(2) by (auto simp: op_cell_def op_class_defs split: op_class.splits if_splits)
    then show ?thesis using that assms(2,3) by (cases "is_reg o1 \<and> op_value o1 \<in> set high_bytes") (auto simp: read_op_def)
  qed
  from write_opE [OF assms(2,3), of "f a"] obtain st' where w: "write_op st o1 (f a) = Some st'"
    "\<And>c'. c' \<noteq> c \<Longrightarrow> st' c' = st c'"
    "\<And>k. op_value o1 \<notin> set high_bytes \<or> is_mem o1 \<Longrightarrow> k < w \<Longrightarrow> bit (st' c) k = bit (f a) k"
    "\<And>k. op_value o1 \<notin> set high_bytes \<or> is_mem o1 \<Longrightarrow> w \<noteq> 32 \<or> is_mem o1 \<Longrightarrow> w \<le> k \<Longrightarrow> bit (st' c) k = bit (st c) k"
    "\<And>k. op_value o1 \<in> set high_bytes \<Longrightarrow> is_reg o1 \<Longrightarrow> k < 8 \<Longrightarrow> bit (st' c) (8 + k) = bit (f a) k"
    by blast
  have "exec st i = Some st'" using assms a w(1) by (simp add: exec_def)
  then show ?thesis using that a w by blast
qed

section \<open>Divisions that cannot fault\<close>

lemma nat_and_le: "(a AND b :: nat) \<le> b"
proof -
  have "int (a AND b) \<le> int b" unfolding of_nat_and_eq by (rule AND_upper2) simp
  then show ?thesis by linarith
qed

lemma masked_half_less: "0 < d \<Longrightarrow> drop_bit 1 (a AND d) < (d :: nat)"
  using nat_and_le [of a d] by (simp add: drop_bit_eq_div)

lemma udivide_ok:
  assumes "h < d" and "a < 2 ^ w" shows "udivide w (h * 2 ^ w + a) d \<noteq> None"
proof -
  have "h * 2 ^ w + a < (h + 1) * 2 ^ w" using assms(2) by simp
  also have "\<dots> \<le> d * 2 ^ w" using assms(1) by (intro mult_right_mono) auto
  finally have "(h * 2 ^ w + a) div d < 2 ^ w" by (intro less_mult_imp_div_less) (simp add: mult.commute)
  then show ?thesis using assms(1) by (simp add: udivide_def)
qed

lemma divide_one_ok:
  assumes "0 < d" and "d < 256" shows "udivide 8 1 d \<noteq> None" and "sdivide 8 1 d \<noteq> None"
proof -
  have "1 div d \<le> (1 :: nat)" by (rule div_le_dividend)
  then have "1 div d < (2 :: nat)" by linarith
  then show "udivide 8 1 d \<noteq> None" using assms by (simp add: udivide_def)
  have sd: "signed_value 8 d \<noteq> 0" using assms by (auto simp: signed_value_def)
  have "\<bar>1 div \<bar>signed_value 8 d\<bar>\<bar> \<le> (1 :: int)"
    by (cases "\<bar>signed_value 8 d\<bar> = 1") (use sd in \<open>simp_all add: div_pos_pos_trivial\<close>)
  then have "\<bar>trunc_div (signed_value (2 * 8) 1) (signed_value 8 d)\<bar> \<le> 1"
    by (auto simp: trunc_div_def signed_value_def [of 16] abs_mult sgn_if split: if_splits)
  then have "- 128 \<le> trunc_div (signed_value (2 * 8) 1) (signed_value 8 d)"
    "trunc_div (signed_value (2 * 8) 1) (signed_value 8 d) < 128" by linarith+
  then show "sdivide 8 1 d \<noteq> None" using sd by (simp add: sdivide_def Let_def)
qed

lemma signed_value_mod: "1 \<le> w \<Longrightarrow> 16 dvd (2 :: int) ^ w \<Longrightarrow> signed_value w d mod 16 = int d mod 16"
  by (auto simp: signed_value_def mod_diff_eq [symmetric] dvd_eq_mod_eq_0)

lemma sdivide_ok:
  assumes d: "d mod 16 = 8" and h: "h \<le> 3" and a: "a < 2 ^ w" and w: "w \<in> {16, 32, 64}"
  shows "sdivide w (h * 2 ^ w + a) d \<noteq> None"
proof -
  define sd where "sd = signed_value w d"
  have "16 dvd (2 :: int) ^ w" using w by auto
  moreover have "int d mod 16 = 8" using d by presburger
  ultimately have "sd mod 16 = 8" using signed_value_mod [of w d] w by (auto simp: sd_def)
  then have sd: "8 \<le> \<bar>sd\<bar>" by presburger
  have n: "h * 2 ^ w + a < 4 * 2 ^ w"
  proof -
    have "h * 2 ^ w \<le> 3 * 2 ^ w" using h by (intro mult_right_mono) auto
    then show ?thesis using a by linarith
  qed
  have "(4 :: nat) * 2 ^ w \<le> 2 ^ (2 * w - 1)" using w by auto
  then have sn: "signed_value (2 * w) (h * 2 ^ w + a) = int (h * 2 ^ w + a)"
    using n by (simp add: signed_value_def)
  define q where "q = trunc_div (int (h * 2 ^ w + a)) sd"
  have "\<bar>q\<bar> \<le> int (h * 2 ^ w + a) div \<bar>sd\<bar>"
    by (auto simp: q_def trunc_div_def abs_mult sgn_if pos_imp_zdiv_nonneg_iff)
  also have "\<dots> \<le> int (h * 2 ^ w + a) div 8" using sd by (intro zdiv_mono2) auto
  also have "\<dots> < 2 ^ (w - 1)"
  proof -
    have "(h * 2 ^ w + a) div 8 < 2 ^ (w - 1)"
      using n w by (intro less_mult_imp_div_less) auto
    then show ?thesis by (metis of_nat_less_numeral_power_cancel_iff of_nat_numeral zdiv_int)
  qed
  finally have "- (2 ^ (w - 1)) < q \<and> q < 2 ^ (w - 1)" by linarith
  then show ?thesis using sd by (auto simp: sdivide_def Let_def sn sd_def [symmetric] q_def)
qed

section \<open>The general purpose registers\<close>

definition gp_names :: "string list" where
  "gp_names = [''A'', ''B'', ''C'', ''D'', ''SI'', ''DI'', ''8'', ''9'', ''10'', ''11'', ''12'', ''13'', ''14'', ''15'']"

text \<open>A register with its width and its normalised name.\<close>

definition gp_register :: "string \<Rightarrow> nat \<Rightarrow> string \<Rightarrow> bool" where
  "gp_register r w n \<longleftrightarrow> map_of x86_reg_normalized r = Some n \<and> map_of x86_register_sizes r = Some (int w) \<and>
     w \<in> {8, 16, 32, 64} \<and> n \<in> set gp_names"

definition family :: "string \<Rightarrow> string list" where
  "family n =
     (if n = ''A'' then [''rax'', ''eax'', ''ax'', ''al'', ''ah'']
      else if n = ''D'' then [''rdx'', ''edx'', ''dx'', ''dl'', ''dh'']
      else if n = ''14'' then [''r14'', ''r14d'', ''r14w'', ''r14b''] else [])"

definition name_facts :: "string \<times> string \<Rightarrow> bool" where
  "name_facts rn = (case rn of (r, n) \<Rightarrow>
     (n \<in> set gp_names \<longrightarrow> lower r = r \<and> list_all (\<lambda>c. c \<noteq> CHR '' '') r \<and> r \<noteq> ''+'' \<and> r \<noteq> ''-'') \<and>
     (n \<in> {''A'', ''D'', ''14''} \<longrightarrow> r \<in> set (family n)))"

lemma name_facts_all: "list_all name_facts x86_reg_normalized"
  by code_simp

lemma name_factsD: "map_of x86_reg_normalized r = Some n \<Longrightarrow> name_facts (r, n)"
  using name_facts_all by (auto simp: list_all_iff dest!: map_of_SomeD)

lemma family_sizes:
  "map (map_of x86_register_sizes) (family ''A'') = map Some [64, 32, 16, 8, 8]"
  "map (map_of x86_register_sizes) (family ''D'') = map Some [64, 32, 16, 8, 8]"
  "map (map_of x86_register_sizes) (family ''14'') = map Some [64, 32, 16, 8]"
  "map (map_of x86_register_sizes) high_bytes = map Some [8, 8, 8, 8]"
  by code_simp+

lemma family_member: "gp_register r w n \<Longrightarrow> n \<in> {''A'', ''D'', ''14''} \<Longrightarrow> r \<in> set (family n)"
  using name_factsD [of r n] unfolding gp_register_def name_facts_def by (elim conjE) blast

lemma family_size_list:
  assumes "gp_register r w n" and "r \<in> set fam" and "map (map_of x86_register_sizes) fam = map Some ws"
  shows "(r, int w) \<in> set (zip fam ws)"
proof -
  from assms(2) obtain k where k: "k < length fam" "fam ! k = r" by (auto simp: in_set_conv_nth)
  have len: "length ws = length fam" using assms(3) by (metis length_map)
  have "map_of x86_register_sizes (fam ! k) = Some (ws ! k)" using assms(3) k(1) len by (metis nth_map)
  then have "ws ! k = int w" using assms(1) k(2) by (simp add: gp_register_def)
  then show ?thesis using k len by (auto simp: set_zip)
qed

lemma gp_A: assumes "gp_register r w ''A''" shows "(w = 64 \<longrightarrow> r = ''rax'') \<and> (w = 8 \<longrightarrow> r \<in> {''al'', ''ah''})"
  using family_size_list [OF assms family_member [OF assms] family_sizes(1)] by (simp add: family_def) (elim disjE conjE, simp_all)

lemma gp_D: assumes "gp_register r w ''D''"
  shows "r \<in> {''rdx'', ''edx'', ''dx'', ''dh'', ''dl''} \<and> (w = 64 \<longrightarrow> r = ''rdx'')"
  using family_size_list [OF assms family_member [OF assms] family_sizes(2)] by (simp add: family_def) (elim disjE conjE, simp_all)

lemma gp_14: assumes "gp_register r 64 ''14''" shows "r = ''r14''"
  using family_size_list [OF assms family_member [OF assms] family_sizes(3)] by (simp add: family_def)

lemma high_byte_width: assumes "gp_register r w n" and "r \<in> set high_bytes" shows "w = 8"
  using family_size_list [OF assms family_sizes(4)] by (simp add: high_bytes_def) (elim disjE conjE, simp_all)

definition low_byte_facts :: "string \<Rightarrow> bool" where
  "low_byte_facts n =
     (case Option.bind (map_of x86_reg_denormalized n) (\<lambda>d. map_of d 8) of
        None \<Rightarrow> False
      | Some r \<Rightarrow> map_of x86_reg_normalized r = Some n \<and> map_of x86_register_sizes r = Some 8 \<and> r \<notin> set high_bytes)"

lemma low_byte_facts_all: "list_all low_byte_facts gp_names"
  by code_simp

lemma low_byteE:
  assumes "n \<in> set gp_names"
  obtains d r where "map_of x86_reg_denormalized n = Some d" and "map_of d 8 = Some r"
    and "gp_register r 8 n" and "r \<notin> set high_bytes"
proof -
  have "low_byte_facts n" using low_byte_facts_all assms by (simp add: list_all_iff)
  then show ?thesis
    using that assms by (auto simp: low_byte_facts_def gp_register_def split: option.splits bind_splits)
qed

lemma fixed_registers:
  "gp_register ''rdx'' 64 ''D''" "gp_register ''edx'' 32 ''D''" "gp_register ''dx'' 16 ''D''"
  "gp_register ''ax'' 16 ''A''" "gp_register ''r14'' 64 ''14''" "gp_register ''rcx'' 64 ''C''"
  by code_simp+

lemma gp_register_lower: "gp_register r w n \<Longrightarrow> lower r = r"
  using name_factsD by (force simp: gp_register_def name_facts_def)

text \<open>A register operand made by the constructor, and what it denotes.\<close>

lemma RegisterOp_cell:
  assumes "gp_register r w n" and "op_class o1 = RegisterOp w'" and "op_value o1 = r"
  shows "is_reg o1" and "\<not> is_mem o1" and "\<not> is_imm o1" and "op_cell st o1 = Some (Reg n)" and "op_bits o1 = Some w"
  using assms by (auto simp: op_class_defs op_cell_def op_bits_def gp_register_def)

lemma ImmediateOp_read:
  "op_class o1 = ImmediateOp w \<Longrightarrow> int_base0 (op_value o1) = Inr k \<Longrightarrow> read_op st o1 = Some (nat k)"
  by (simp add: read_op_def op_class_defs)

text \<open>The address that the sandbox pass writes.\<close>

lemma ea_sandboxed:
  assumes "gp_register r 64 n"
  shows "ea st (''r14 + '' @ r) = Some ((reg_value st ''14'' + reg_value st n) mod 2 ^ 64)"
proof -
  have "name_facts (r, n)" "n \<in> set gp_names" using assms name_factsD by (auto simp: gp_register_def)
  then have sp: "\<forall>c \<in> set r. c \<noteq> CHR '' ''" and ops: "r \<noteq> ''+''" "r \<noteq> ''-''"
    by (auto simp: name_facts_def list_all_iff)
  have "split_on (\<lambda>c. c = CHR '' '') (''r14 + '' @ r) = [''r14'', ''+'', r]"
    using split_on_none [of r "\<lambda>c. c = CHR '' ''"] sp by simp
  moreover have "map_of x86_reg_normalized ''r14'' = Some ''14''" using fixed_registers(5) by (simp add: gp_register_def)
  moreover have "map_of x86_reg_normalized r = Some n" using assms by (simp add: gp_register_def)
  ultimately have "ea st (''r14 + '' @ r) = Some (nat (int (reg_value st ''14'' + reg_value st n) mod 2 ^ 64))"
    using ops by (simp add: ea_def)
  then show ?thesis by (simp add: nat_mod_distrib nat_add_distrib)
qed

end
