(* ===== verification/X86Sandbox.thy ===== *)
theory X86Sandbox
  imports PyRandom Instruction Sandbox X86Machine
begin

unbundle bit_operations_syntax

text \<open>
  Model of the instrumentation passes of \<^verbatim>\<open>rvzr/arch/x86/generator.py\<close> that keep a test case from
  faulting: sandboxing of memory accesses, divisions, bit tests and repeated instructions, the patches
  of undefined results and of opcodes, and the pass that redirects accesses to kernel memory. The nodes
  of a basic block are a list of slots: the instruction and what the pass put before and behind it,
  which is all that inserting next to a node of a linked list can do. Random draws are a stream of
  numbers with a counter.
\<close>

section \<open>Slots\<close>

record slot =
  sl_before :: "Instruction list"
  sl_inst :: "Instruction option"
  sl_after :: "Instruction list"

definition slot_of :: "Instruction \<Rightarrow> slot" where
  "slot_of i = \<lparr>sl_before = [], sl_inst = Some i, sl_after = []\<rparr>"

definition slot_insert_before :: "Instruction \<Rightarrow> slot \<Rightarrow> slot" where
  "slot_insert_before i s = s\<lparr>sl_before := sl_before s @ [i]\<rparr>"

definition slot_insert_after :: "Instruction \<Rightarrow> slot \<Rightarrow> slot" where
  "slot_insert_after i s = s\<lparr>sl_after := i # sl_after s\<rparr>"

definition slot_delete :: "slot \<Rightarrow> slot" where
  "slot_delete s = s\<lparr>sl_inst := None\<rparr>"

definition slot_instructions :: "slot \<Rightarrow> Instruction list" where
  "slot_instructions s = sl_before s @ (case sl_inst s of None \<Rightarrow> [] | Some i \<Rightarrow> [i]) @ sl_after s"

definition block_instructions :: "slot list \<Rightarrow> Instruction list" where
  "block_instructions ss = concat (map slot_instructions ss)"

section \<open>Instrumentation\<close>

definition op_width :: "Operand \<Rightarrow> int" where
  "op_width o1 = (case op_class o1 of RegisterOp w \<Rightarrow> w | MemoryOp w \<Rightarrow> w | ImmediateOp w \<Rightarrow> w | AgenOp w \<Rightarrow> w | _ \<Rightarrow> 0)"

definition logic_flags :: "string list" where
  "logic_flags = [''w'', ''w'', ''undef'', ''w'', ''w'', '''', '''', '''', ''w'']"

text \<open>An instrumentation instruction with two operands and, unless the list is empty, its flags.\<close>

definition instrument :: "string \<Rightarrow> Operand \<Rightarrow> Operand \<Rightarrow> string list \<Rightarrow> Instruction res" where
  "instrument name dst src flags =
     (let i = add_op (add_op (Instruction_init name '''' False True False) dst False) src False
      in if flags = [] then ok i else rbind (FlagsOp_init flags) (\<lambda>f. ok (add_op i f True)))"

text \<open>Options of the generator and the faults that the owner of a block may raise.\<close>

record sandbox_conf =
  x86_generator_align_locks :: bool
  x86_disable_div64 :: bool
  enable_div_by_zero :: bool
  enable_div_overflow :: bool

record FaultFilter =
  div_by_zero :: bool
  div_overflow :: bool
  non_canonical_access :: bool
  u2k_access :: bool

definition FaultFilter_init :: "string list \<Rightarrow> FaultFilter" where
  "FaultFilter_init faults_allowlist =
     \<lparr>div_by_zero = ''div-by-zero'' \<in> set faults_allowlist, div_overflow = ''div-overflow'' \<in> set faults_allowlist,
      non_canonical_access = ''non-canonical-access'' \<in> set faults_allowlist,
      u2k_access = ''user-to-kernel-access'' \<in> set faults_allowlist\<rparr>"

text \<open>What is allowed in a block: the faults of the test case less those its owner blocks.\<close>

definition block_conf :: "FaultFilter \<Rightarrow> string list \<Rightarrow> bool \<Rightarrow> bool \<Rightarrow> sandbox_conf" where
  "block_conf F fault_blocklist align_locks disable_div64 =
     \<lparr>x86_generator_align_locks = align_locks, x86_disable_div64 = disable_div64,
      enable_div_by_zero = (div_by_zero F \<and> ''div-by-zero'' \<notin> set fault_blocklist),
      enable_div_overflow = (div_overflow F \<and> ''div-overflow'' \<notin> set fault_blocklist)\<rparr>"

section \<open>Memory accesses\<close>

text \<open>\<^verbatim>\<open>int(math.log(n, 2))\<close> for the size of the directly accessible memory.\<close>

fun int_log2 :: "nat \<Rightarrow> nat" where
  "int_log2 n = (if n < 2 then 0 else Suc (int_log2 (n div 2)))"

declare int_log2.simps [simp del]

definition sandbox_address_mask :: "string res" where
  "sandbox_address_mask =
     rbind (data_area_size DA_MAIN) (\<lambda>m. rbind (data_area_size DA_FAULTY) (\<lambda>f.
       ok (''0b'' @ replicate (int_log2 (nat (m + f))) (CHR ''1''))))"

definition clear_low :: "nat \<Rightarrow> string \<Rightarrow> string" where
  "clear_low n msk = take (length msk - n) msk @ replicate n (CHR ''0'')"

definition access_mask :: "sandbox_conf \<Rightarrow> Instruction \<Rightarrow> Operand list \<Rightarrow> string res" where
  "access_mask C i mem_operands =
     rbind sandbox_address_mask (\<lambda>m0.
       let m1 = (if list_ex (\<lambda>o1. 256 \<le> op_width o1) mem_operands then clear_low 5 m0
                 else if list_ex (\<lambda>o1. 128 \<le> op_width o1) mem_operands then clear_low 4 m0 else m0)
       in ok (if x86_generator_align_locks C \<and> (contains (i_name i) ''lock'' \<or> i_name i = ''xchg'')
              then clear_low 3 m1 else m1))"

definition imm_width_of :: "Operand \<Rightarrow> int" where
  "imm_width_of o1 = (if op_width o1 \<le> 32 then op_width o1 else 32)"

text \<open>The first memory operand gets a new address.\<close>

fun set_first_mem :: "string \<Rightarrow> Operand list \<Rightarrow> Operand list" where
  "set_first_mem v [] = []"
| "set_first_mem v (o1 # os) = (if is_mem o1 then o1\<lparr>op_value := v\<rparr> # os else o1 # set_first_mem v os)"

text \<open>The first operand with each address, in the order of their appearance.\<close>

definition uniq_operands :: "Operand list \<Rightarrow> (string, Operand) dict" where
  "uniq_operands os = foldl (\<lambda>d o1. if map_of d (op_value o1) = None then d @ [(op_value o1, o1)] else d) [] os"

definition sandbox_implicit :: "target_desc \<Rightarrow> string \<Rightarrow> slot \<Rightarrow> string \<times> Operand \<Rightarrow> slot res" where
  "sandbox_implicit T msk s ro =
     (case ro of (address_reg, mem_operand) \<Rightarrow>
        rbind (dict_get (td_registers_by_size T) 64) (\<lambda>registers64.
        py_assert (address_reg \<in> set registers64)
          (rbind (RegisterOp_init address_reg (op_width mem_operand) True True) (\<lambda>reg.
           rbind (RegisterOp_init ''r14'' 64 True False) (\<lambda>base.
           rbind (instrument ''and'' reg (ImmediateOp_init msk (imm_width_of mem_operand)) logic_flags) (\<lambda>apply_mask.
           rbind (instrument ''add'' reg base logic_flags) (\<lambda>add_base.
           rbind (instrument ''sub'' reg base logic_flags) (\<lambda>remove_base.
             ok (slot_insert_after remove_base (slot_insert_before add_base (slot_insert_before apply_mask s)))))))))))"

definition sandbox_memory_access :: "target_desc \<Rightarrow> sandbox_conf \<Rightarrow> Instruction \<Rightarrow> slot \<Rightarrow> slot res" where
  "sandbox_memory_access T C i s =
     (let explicit = filter is_mem (operands i); implicit = filter is_mem (implicit_operands i)
      in rbind (access_mask C i explicit) (\<lambda>msk.
         if explicit \<noteq> [] \<and> implicit = []
         then py_assert (length explicit = 1)
           (let mem_operand = hd explicit; address_reg = op_value mem_operand
            in rbind (RegisterOp_init address_reg 64 True True) (\<lambda>reg.
               rbind (instrument ''and'' reg (ImmediateOp_init msk (imm_width_of mem_operand)) logic_flags) (\<lambda>apply_mask.
                 ok ((slot_insert_before apply_mask s)
                       \<lparr>sl_inst := Some (i\<lparr>operands := set_first_mem (''r14 + '' @ address_reg) (operands i)\<rparr>)\<rparr>))))
         else py_assert (implicit \<noteq> []) (rfold (sandbox_implicit T msk) s (uniq_operands implicit))))"

section \<open>Divisions\<close>

definition low_byte_operand :: "target_desc \<Rightarrow> Operand \<Rightarrow> Operand res" where
  "low_byte_operand T divisor =
     (if is_mem divisor then ok (MemoryOp_init (op_value divisor) 8 (op_src divisor) (op_dest divisor))
      else rbind (dict_get (td_reg_normalized T) (op_value divisor)) (\<lambda>n.
           rbind (dict_get (td_reg_denormalized T) n) (\<lambda>d.
           rbind (dict_get d 8) (\<lambda>r. RegisterOp_init r 8 (op_src divisor) (op_dest divisor)))))"

definition prevent_div_by_zero :: "target_desc \<Rightarrow> sandbox_conf \<Rightarrow> Instruction \<Rightarrow> Operand \<Rightarrow> slot \<Rightarrow> slot res" where
  "prevent_div_by_zero T C i divisor s =
     (if enable_div_by_zero C then ok s
      else if \<not> contains (i_name i) ''idiv'' \<or> enable_div_overflow C
      then rbind (instrument ''or'' divisor (ImmediateOp_init ''1'' 8) logic_flags) (\<lambda>x. ok (slot_insert_before x s))
      else rbind (instrument ''or'' divisor (ImmediateOp_init ''0b1000'' 8) logic_flags) (\<lambda>x.
           rbind (low_byte_operand T divisor) (\<lambda>b.
           rbind (instrument ''and'' b (ImmediateOp_init ''0b11111000'' 8) logic_flags) (\<lambda>y.
             ok (slot_insert_before y (slot_insert_before x s))))))"

definition d_register :: "int \<Rightarrow> string res" where
  "d_register sz = dict_get [(64, ''rdx''), (32, ''edx''), (16, ''dx'')] sz"

definition prevent_div_overflow :: "Instruction \<Rightarrow> Operand \<Rightarrow> slot \<Rightarrow> slot res" where
  "prevent_div_overflow i divisor s =
     (let sz = op_width divisor; v = op_value divisor
      in if v \<in> {''rdx'', ''edx'', ''dx'', ''dh'', ''dl''} \<or> contains v ''rdx'' \<or> (contains v ''rax'' \<and> sz = 8)
         then ok (slot_delete s)
         else if sz = 8
         then rbind (RegisterOp_init ''ax'' 16 False True) (\<lambda>ax.
              rbind (instrument ''mov'' ax (ImmediateOp_init ''1'' 16) []) (\<lambda>x. ok (slot_insert_before x s)))
         else rbind (d_register sz) (\<lambda>d.
              rbind (RegisterOp_init d sz True True) (\<lambda>dreg.
                if contains (i_name i) ''idiv''
                then rbind (instrument ''and'' dreg (ImmediateOp_init ''0b11'' 8) logic_flags) (\<lambda>x. ok (slot_insert_before x s))
                else rbind (instrument ''and'' dreg divisor logic_flags) (\<lambda>x.
                     rbind (instrument ''shr'' dreg (ImmediateOp_init ''1'' 8)
                              [''w'', ''w'', ''undef'', ''w'', ''w'', '''', '''', '''', ''undef'']) (\<lambda>y.
                       ok (slot_insert_before y (slot_insert_before x s)))))))"

definition sandbox_division :: "target_desc \<Rightarrow> sandbox_conf \<Rightarrow> Instruction \<Rightarrow> slot \<Rightarrow> slot res" where
  "sandbox_division T C i s =
     rbind (py_nth (operands i) 0) (\<lambda>operand.
       py_assert (is_reg operand \<or> is_mem operand)
         (rbind (copy_op_with_flow_modification operand None (Some True)) (\<lambda>divisor.
            if op_width divisor = 64 \<and> x86_disable_div64 C then ok (slot_delete s)
            else rbind (prevent_div_by_zero T C i divisor s) (\<lambda>s1.
              if enable_div_overflow C then ok s1 else prevent_div_overflow i divisor s1))))"

section \<open>Other instructions\<close>

definition sandbox_bit_test :: "draws \<Rightarrow> Instruction \<Rightarrow> slot \<times> nat \<Rightarrow> (slot \<times> nat) res" where
  "sandbox_bit_test rnd i sk =
     (case sk of (s, k) \<Rightarrow>
        rbind (py_nth (operands i) 0) (\<lambda>address.
          if is_reg address then ok (s, k)
          else rbind (py_nth (operands i) 1) (\<lambda>offset.
            if is_imm offset
            then ok (s\<lparr>sl_inst := Some (i\<lparr>operands := (operands i)[1 := offset\<lparr>op_value := str_nat (randint rnd k 0 7)\<rparr>]\<rparr>)\<rparr>, Suc k)
            else py_assert (is_reg offset)
              (if op_value address \<noteq> op_value offset
               then rbind (copy_op_with_flow_modification offset None (Some True)) (\<lambda>new_offset.
                    rbind (instrument ''and'' new_offset (ImmediateOp_init ''0b111'' 8) logic_flags) (\<lambda>x.
                      ok (slot_insert_before x s, k)))
               else ok (slot_delete s, k)))))"

definition sandbox_repeated_instruction :: "slot \<Rightarrow> slot res" where
  "sandbox_repeated_instruction s =
     rbind (RegisterOp_init ''rcx'' 64 True True) (\<lambda>rcx.
     rbind (instrument ''and'' rcx (ImmediateOp_init ''0xff'' 8) logic_flags) (\<lambda>x.
     rbind (instrument ''add'' rcx (ImmediateOp_init ''1'' 1) [''w'', ''w'', ''w'', ''w'', ''w'', '''', '''', '''', ''w'']) (\<lambda>y.
       ok (slot_insert_before y (slot_insert_before x s)))))"

definition sandbox_corrupted_cf :: "slot \<Rightarrow> slot res" where
  "sandbox_corrupted_cf s =
     rbind (FlagsOp_init [''w'', '''', '''', '''', '''', '''', '''', '''', '''']) (\<lambda>f.
       ok (slot_insert_after (add_op (Instruction_init ''stc'' '''' False True False) f True) s))"

definition sandbox_enclu :: "draws \<Rightarrow> slot \<times> nat \<Rightarrow> (slot \<times> nat) res" where
  "sandbox_enclu rnd sk =
     (case sk of (s, k) \<Rightarrow>
        rbind (choice rnd k [''0'', ''1'', ''4'', ''5'', ''6'', ''7'']) (\<lambda>v.
        rbind (RegisterOp_init ''eax'' 32 True True) (\<lambda>eax.
        rbind (instrument ''mov'' eax (ImmediateOp_init v 1) []) (\<lambda>x.
          ok (slot_insert_before x s, Suc k)))))"

section \<open>The sandboxing pass\<close>

datatype sandbox_kind = K_memory | K_division | K_bit_test | K_repeated | K_corrupted_cf | K_enclu

definition bit_test_names :: "string list" where
  "bit_test_names = [''bt'', ''btc'', ''btr'', ''bts'', ''lock bt'', ''lock btc'', ''lock btr'', ''lock bts'']"

definition kinds_of :: "Instruction \<Rightarrow> sandbox_kind list" where
  "kinds_of i =
     (if is_instrumentation i \<or> is_from_template i then []
      else (if has_mem_operand i True then [K_memory] else []) @
           (if i_name i \<in> {''div'', ''rex div'', ''idiv'', ''rex idiv''} then [K_division]
            else if i_name i \<in> set bit_test_names then [K_bit_test]
            else if contains (i_name i) ''rep'' then [K_repeated]
            else if i_category i \<in> {''BASE-ROTATE'', ''BASE-SHIFT''} then [K_corrupted_cf]
            else if i_name i = ''enclu'' then [K_enclu] else []))"

text \<open>
  The sandboxing function of a kind on the current state of the node. A deleted node keeps its
  instruction in the code; no kind comes after one that deletes.
\<close>

definition sandbox_func :: "target_desc \<Rightarrow> sandbox_conf \<Rightarrow> draws \<Rightarrow> sandbox_kind \<Rightarrow> slot \<times> nat \<Rightarrow> (slot \<times> nat) res" where
  "sandbox_func T C rnd K sk =
     (case sk of (s, k) \<Rightarrow>
        (case sl_inst s of
           None \<Rightarrow> ok (s, k)
         | Some i \<Rightarrow>
             (case K of
                K_memory \<Rightarrow> rbind (sandbox_memory_access T C i s) (\<lambda>s'. ok (s', k))
              | K_division \<Rightarrow> rbind (sandbox_division T C i s) (\<lambda>s'. ok (s', k))
              | K_bit_test \<Rightarrow> sandbox_bit_test rnd i (s, k)
              | K_repeated \<Rightarrow> rbind (sandbox_repeated_instruction s) (\<lambda>s'. ok (s', k))
              | K_corrupted_cf \<Rightarrow> rbind (sandbox_corrupted_cf s) (\<lambda>s'. ok (s', k))
              | K_enclu \<Rightarrow> sandbox_enclu rnd (s, k))))"

text \<open>All nodes of one kind, in order; then the next kind.\<close>

fun run_kind ::
  "target_desc \<Rightarrow> sandbox_conf \<Rightarrow> draws \<Rightarrow> sandbox_kind \<Rightarrow> (sandbox_kind list \<times> slot) list \<Rightarrow> nat \<Rightarrow>
   ((sandbox_kind list \<times> slot) list \<times> nat) res" where
  "run_kind T C rnd K [] k = ok ([], k)"
| "run_kind T C rnd K ((ks, s) # rest) k =
     rbind (if K \<in> set ks then sandbox_func T C rnd K (s, k) else ok (s, k)) (\<lambda>(s', k').
     rbind (run_kind T C rnd K rest k') (\<lambda>(rest', k''). ok ((ks, s') # rest', k'')))"

definition sandbox_block ::
  "target_desc \<Rightarrow> sandbox_conf \<Rightarrow> draws \<Rightarrow> Instruction list \<Rightarrow> nat \<Rightarrow> (Instruction list \<times> nat) res" where
  "sandbox_block T C rnd insts k =
     rbind (rfold (\<lambda>(nodes, k) K. run_kind T C rnd K nodes k) (map (\<lambda>i. (kinds_of i, slot_of i)) insts, k)
              [K_memory, K_division, K_bit_test, K_repeated, K_corrupted_cf, K_enclu])
       (\<lambda>(nodes, k'). ok (block_instructions (map snd nodes), k'))"

section \<open>The inserted instructions\<close>

lemma instrumentE:
  assumes "length flags \<in> {0, 9}"
  obtains i where "instrument name dst src flags = Inr i" and "i_name i = name" and "operands i = [dst, src]"
    and "is_instrumentation i"
proof -
  have "\<exists>i. instrument name dst src flags = Inr i \<and> i_name i = name \<and> operands i = [dst, src] \<and> is_instrumentation i"
    using assms by (auto simp: instrument_def FlagsOp_init_def flag_names_def add_op_def Instruction_init_def Let_def)
  then show ?thesis using that by blast
qed

lemma logic_flags_length [simp]: "length logic_flags \<in> {0, 9}"
  by (simp add: logic_flags_def)

lemma RegisterOp_init_gp:
  assumes "gp_register r w n"
  shows "RegisterOp_init r (int w) s d = Inr (Operand_init (RegisterOp (int w)) r s d)"
    and "op_class (Operand_init c r s d) = c" and "op_value (Operand_init c r s d) = r"
  using assms gp_register_lower [OF assms]
  by (auto simp: RegisterOp_init_def RegSizes_def Operand_init_def gp_register_def)

lemma read_imm:
  assumes "int_base0 (lower v) = Inr k"
  shows "read_op st (ImmediateOp_init v w) = Some (nat k)"
  using assms by (intro ImmediateOp_read [where w = w]) (simp_all add: ImmediateOp_init_def Operand_init_def)

section \<open>Sandboxed accesses stay with their actor\<close>

definition mask_string :: "nat \<Rightarrow> string" where
  "mask_string z = ''0b'' @ replicate (13 - z) (CHR ''1'') @ replicate z (CHR ''0'')"

lemma sandbox_address_mask_eq: "sandbox_address_mask = Inr (mask_string 0)"
proof -
  have "sandbox_address_mask = Inr ''0b1111111111111''"
    by (simp add: sandbox_address_mask_def layout_simps int_log2.simps)
  moreover have "mask_string 0 = ''0b1111111111111''" by code_simp
  ultimately show ?thesis by simp
qed

lemma mask_string_values:
  "list_all (\<lambda>z. lower (mask_string z) = mask_string z \<and> int_base0 (mask_string z) = Inr (int (2 ^ 13 - 2 ^ z))) [0, 3, 4, 5]"
  by code_simp

lemma clear_low_mask:
  "clear_low 5 (mask_string 0) = mask_string 5" "clear_low 4 (mask_string 0) = mask_string 4"
  "clear_low 3 (mask_string 0) = mask_string 3" "clear_low 3 (mask_string 4) = mask_string 4"
  "clear_low 3 (mask_string 5) = mask_string 5"
  by code_simp+

text \<open>The mask of an access and the number of its cleared low bits.\<close>

lemma access_maskE:
  obtains z where "access_mask C i os = Inr (mask_string z)" and "z \<in> {0, 3, 4, 5}"
    and "lower (mask_string z) = mask_string z" and "int_base0 (mask_string z) = Inr (int (2 ^ 13 - 2 ^ z))"
    and "\<And>o1. o1 \<in> set os \<Longrightarrow> 128 \<le> op_width o1 \<Longrightarrow> 4 \<le> z"
    and "\<And>o1. o1 \<in> set os \<Longrightarrow> 256 \<le> op_width o1 \<Longrightarrow> z = 5"
proof -
  have "\<exists>z. access_mask C i os = Inr (mask_string z) \<and> z \<in> {0, 3, 4, 5} \<and>
     (\<forall>o1 \<in> set os. 128 \<le> op_width o1 \<longrightarrow> 4 \<le> z) \<and> (\<forall>o1 \<in> set os. 256 \<le> op_width o1 \<longrightarrow> z = 5)"
    (is "\<exists>z. ?P z")
  proof (cases "list_ex (\<lambda>o1. 256 \<le> op_width o1) os")
    case True
    then have "?P 5" by (simp add: access_mask_def sandbox_address_mask_eq Let_def clear_low_mask)
    then show ?thesis by blast
  next
    case no256: False
    show ?thesis
    proof (cases "list_ex (\<lambda>o1. 128 \<le> op_width o1) os")
      case True
      then have "?P 4" using no256
        by (auto simp: access_mask_def sandbox_address_mask_eq Let_def clear_low_mask list_ex_iff)
      then show ?thesis by blast
    next
      case False
      then have "?P 0 \<or> ?P 3" using no256
        by (auto simp: access_mask_def sandbox_address_mask_eq Let_def clear_low_mask list_ex_iff)
      then show ?thesis by blast
    qed
  qed
  then obtain z where z: "?P z" by blast
  moreover from z have "lower (mask_string z) = mask_string z \<and> int_base0 (mask_string z) = Inr (int (2 ^ 13 - 2 ^ z))"
    using mask_string_values by auto
  ultimately show ?thesis using that by blast
qed

text \<open>What masking leaves: an offset into the two accessible pages, aligned to the cleared bits.\<close>

lemma masked_offset:
  assumes "z \<in> {0, 3, 4, 5 :: nat}"
  shows "a AND (2 ^ 13 - 2 ^ z) \<le> 8192 - 2 ^ z" and "2 ^ z dvd (a AND (2 ^ 13 - 2 ^ z) :: nat)"
proof -
  show "a AND (2 ^ 13 - 2 ^ z) \<le> 8192 - 2 ^ z" using nat_and_le [of a "2 ^ 13 - 2 ^ z"] by simp
  have "take_bit z (2 ^ 13 - 2 ^ z :: nat) = 0" using assms by (auto simp: take_bit_eq_mod)
  then have "take_bit z (a AND (2 ^ 13 - 2 ^ z)) = 0" by simp
  then show "2 ^ z dvd (a AND (2 ^ 13 - 2 ^ z) :: nat)" unfolding take_bit_eq_0_iff .
qed

text \<open>A logical operation of a 64-bit register with an immediate.\<close>

lemma exec_reg64_immE:
  assumes "gp_register r 64 n" and "operands i = [Operand_init (RegisterOp 64) r True True, ImmediateOp_init v w]"
    and "int_base0 (lower v) = Inr (int m)" and "\<And>a. a < 2 ^ 64 \<Longrightarrow> alu (i_name i) 64 a m = Some (f a) \<and> f a < 2 ^ 64"
  obtains st' where "exec st i = Some st'" and "\<And>c. c \<noteq> Reg n \<Longrightarrow> st' c = st c"
    and "reg_value st' n = f (reg_value st n)"
proof -
  let ?o = "Operand_init (RegisterOp 64) r True True"
  have cl: "op_class ?o = RegisterOp 64" and vl: "op_value ?o = r" by (simp_all add: RegisterOp_init_gp(2,3) [OF assms(1)])
  have nh: "r \<notin> set high_bytes" using high_byte_width [OF assms(1)] by auto
  have rd: "read_op s ?o = Some (reg_value s n)" for s
    using RegisterOp_cell [OF assms(1) cl vl] nh by (simp add: read_op_def reg_value_def vl)
  have lt: "reg_value st n < 2 ^ 64" unfolding reg_value_def by (rule take_bit_nat_less_exp)
  have al: "alu (i_name i) 64 a m = Some (f a)" if "read_op st ?o = Some a" for a
    using that rd lt assms(4) by auto
  obtain a st' where e: "exec st i = Some st'" "read_op st ?o = Some a" "\<And>c'. c' \<noteq> Reg n \<Longrightarrow> st' c' = st c'"
    "\<And>k. k < 64 \<Longrightarrow> bit (st' (Reg n)) k = bit (f a) k"
    by (rule exec_aluE [where f = f and st = st, OF assms(2) RegisterOp_cell(4,5) [OF assms(1) cl vl] read_imm [OF assms(3)], unfolded nat_int, OF al])
      (use nh vl in auto)
  have a: "a = reg_value st n" using e(2) rd by simp
  have "reg_value st' n = take_bit 64 (f a)"
    unfolding reg_value_def by (rule bit_eqI) (auto simp: bit_simps e(4))
  also have "\<dots> = f a" using assms(4) [OF lt] by (simp add: a take_bit_nat_eq_self)
  finally show ?thesis using that e(1,3) a by blast
qed

lemma sandbox_memory_access_textE:
  assumes "filter is_mem (operands i) = [o1]" and "filter is_mem (implicit_operands i) = []"
    and "gp_register (op_value o1) 64 n"
  obtains am z where
    "sandbox_memory_access T C i s = Inr (s\<lparr>sl_before := sl_before s @ [am],
       sl_inst := Some (i\<lparr>operands := set_first_mem (''r14 + '' @ op_value o1) (operands i)\<rparr>)\<rparr>)"
    and "z \<in> {0, 3, 4, 5}" and "128 \<le> op_width o1 \<Longrightarrow> 4 \<le> z" and "256 \<le> op_width o1 \<Longrightarrow> z = 5"
    and "i_name am = ''and''" and "is_instrumentation am"
    and "operands am = [Operand_init (RegisterOp 64) (op_value o1) True True, ImmediateOp_init (mask_string z) (imm_width_of o1)]"
    and "int_base0 (lower (mask_string z)) = Inr (int (2 ^ 13 - 2 ^ z))"
proof -
  from access_maskE [of C i "[o1]"] obtain z where z: "access_mask C i [o1] = Inr (mask_string z)" "z \<in> {0, 3, 4, 5}"
    "lower (mask_string z) = mask_string z" "int_base0 (mask_string z) = Inr (int (2 ^ 13 - 2 ^ z))"
    "128 \<le> op_width o1 \<Longrightarrow> 4 \<le> z" "256 \<le> op_width o1 \<Longrightarrow> z = 5" by (metis list.set_intros(1))
  let ?reg = "Operand_init (RegisterOp 64) (op_value o1) True True"
  let ?imm = "ImmediateOp_init (mask_string z) (imm_width_of o1)"
  have reg: "RegisterOp_init (op_value o1) 64 True True = Inr ?reg"
    using RegisterOp_init_gp(1) [OF assms(3)] by simp
  obtain am where am: "instrument ''and'' ?reg ?imm logic_flags = Inr am" "i_name am = ''and''" "operands am = [?reg, ?imm]"
    "is_instrumentation am" by (rule instrumentE [OF logic_flags_length, of "''and''" ?reg ?imm])
  have run: "sandbox_memory_access T C i s = Inr (s\<lparr>sl_before := sl_before s @ [am],
       sl_inst := Some (i\<lparr>operands := set_first_mem (''r14 + '' @ op_value o1) (operands i)\<rparr>)\<rparr>)"
    using assms(1,2) by (simp add: sandbox_memory_access_def Let_def z(1) reg am(1) slot_insert_before_def)
  show ?thesis by (rule that [OF run z(2,5,6) am(2,4,3)]) (simp_all add: z(3,4))
qed

text \<open>Executing a mask of the pass.\<close>

lemma exec_and_maskE:
  assumes "gp_register r 64 n" and "operands am = [Operand_init (RegisterOp 64) r True True, ImmediateOp_init v w]"
    and "i_name am = ''and''" and "int_base0 (lower v) = Inr (int m)" and "m < 2 ^ 64"
  obtains st' where "exec st am = Some st'" and "\<And>c. c \<noteq> Reg n \<Longrightarrow> st' c = st c" and "reg_value st' n = reg_value st n AND m"
proof -
  have alu: "alu (i_name am) 64 a m = Some (a AND m) \<and> a AND m < 2 ^ 64" for a
    using nat_and_le [of a m] assms(5) by (simp add: alu_def assms(3))
  obtain st' where "exec st am = Some st'" "\<And>c. c \<noteq> Reg n \<Longrightarrow> st' c = st c" "reg_value st' n = reg_value st n AND m"
    by (rule exec_reg64_immE [where f = "\<lambda>a. a AND m" and st = st, OF assms(1,2,4) alu]) (rule that, assumption+)
  then show ?thesis by (rule that)
qed

lemma sandbox_memory_accessE:
  assumes "filter is_mem (operands i) = [o1]" and "filter is_mem (implicit_operands i) = []"
    and "gp_register (op_value o1) 64 n"
  obtains am z where
    "sandbox_memory_access T C i s = Inr (s\<lparr>sl_before := sl_before s @ [am],
       sl_inst := Some (i\<lparr>operands := set_first_mem (''r14 + '' @ op_value o1) (operands i)\<rparr>)\<rparr>)"
    and "z \<in> {0, 3, 4, 5}" and "128 \<le> op_width o1 \<Longrightarrow> 4 \<le> z" and "256 \<le> op_width o1 \<Longrightarrow> z = 5"
    and "\<And>st. \<exists>st'. exec st am = Some st' \<and> (\<forall>c. c \<noteq> Reg n \<longrightarrow> st' c = st c) \<and>
           reg_value st' n = reg_value st n AND (2 ^ 13 - 2 ^ z)"
proof (rule sandbox_memory_access_textE [OF assms, of T C s])
  fix am z
  assume r: "sandbox_memory_access T C i s = Inr (s\<lparr>sl_before := sl_before s @ [am],
       sl_inst := Some (i\<lparr>operands := set_first_mem (''r14 + '' @ op_value o1) (operands i)\<rparr>)\<rparr>)"
    and z: "z \<in> {0, 3, 4, 5}" "128 \<le> op_width o1 \<Longrightarrow> 4 \<le> z" "256 \<le> op_width o1 \<Longrightarrow> z = 5"
    and am: "i_name am = ''and''"
    "operands am = [Operand_init (RegisterOp 64) (op_value o1) True True, ImmediateOp_init (mask_string z) (imm_width_of o1)]"
    and v: "int_base0 (lower (mask_string z)) = Inr (int (2 ^ 13 - 2 ^ z))"
  have "\<exists>st'. exec st am = Some st' \<and> (\<forall>c. c \<noteq> Reg n \<longrightarrow> st' c = st c) \<and>
      reg_value st' n = reg_value st n AND (2 ^ 13 - 2 ^ z)" for st
  proof -
    have lt: "(2 :: nat) ^ 13 - 2 ^ z < 2 ^ 64" by simp
    obtain st' where "exec st am = Some st'" "\<And>c. c \<noteq> Reg n \<Longrightarrow> st' c = st c" "reg_value st' n = reg_value st n AND (2 ^ 13 - 2 ^ z)"
      by (rule exec_and_maskE [where st = st, OF assms(3) am(2,1) v lt]) (rule that, assumption+)
    then show ?thesis by blast
  qed
  then show thesis using r z that by blast
qed

lemma filter_set_first_mem:
  "filter is_mem os = [o1] \<Longrightarrow> filter is_mem (set_first_mem v os) = [o1\<lparr>op_value := v\<rparr>]"
  by (induction os) (auto simp: is_mem_def split: if_splits op_class.splits)

lemma op_width_value [simp]: "op_width (o1\<lparr>op_value := v\<rparr>) = op_width o1"
  by (simp add: op_width_def)

text \<open>
  C6: Memory accesses stay in the sandbox of the actor that runs the code. Take an instruction with one explicit
  memory operand, addressed by a general purpose register other than the base register. Whatever the
  registers hold, executing the instrumentation in front of it makes the address of the rewritten operand an
  offset below two pages from the base of the actor's main area, aligned to the operand for 128 and 256 bits,
  and every byte of the access, at its width, belongs to the data area of that same actor.
\<close>
theorem sandboxed_access_in_actor:
  assumes "filter is_mem (operands i) = [o1]" and "filter is_mem (implicit_operands i) = []"
    and "gp_register (op_value o1) 64 n" and "n \<noteq> ''14''" and "op_width o1 \<le> 4608"
    and "get_data_addr l DA_MAIN actor = Inr base" and "reg_value st ''14'' = nat base" and "0 \<le> base"
    and "base + 8192 \<le> 2 ^ 64"
  shows "\<exists>s i' o' st' off. sandbox_memory_access T C i (slot_of i) = Inr s \<and> sl_inst s = Some i' \<and>
     filter is_mem (operands i') = [o'] \<and> op_width o' = op_width o1 \<and> exec_all (sl_before s) st = Some st' \<and>
     ea st' (op_value o') = Some (nat base + off) \<and> off < 8192 \<and>
     (128 \<le> op_width o1 \<longrightarrow> 16 dvd off) \<and> (256 \<le> op_width o1 \<longrightarrow> 32 dvd off) \<and>
     (\<forall>k \<ge> 0. 8 * k < op_width o1 \<longrightarrow> data_addr_to_actor_id l (int (nat base + off) + k) = actor)"
proof -
  let ?i = "i\<lparr>operands := set_first_mem (''r14 + '' @ op_value o1) (operands i)\<rparr>"
  from sandbox_memory_accessE [OF assms(1-3), of T C "slot_of i"] obtain am z
    where run: "sandbox_memory_access T C i (slot_of i) = Inr ((slot_of i)\<lparr>sl_before := sl_before (slot_of i) @ [am], sl_inst := Some ?i\<rparr>)"
    and z: "z \<in> {0, 3, 4, 5}" "128 \<le> op_width o1 \<Longrightarrow> 4 \<le> z" "256 \<le> op_width o1 \<Longrightarrow> z = 5"
    and ex: "\<And>st. \<exists>st'. exec st am = Some st' \<and> (\<forall>c. c \<noteq> Reg n \<longrightarrow> st' c = st c) \<and>
           reg_value st' n = reg_value st n AND (2 ^ 13 - 2 ^ z)" by blast
  from ex [of st] obtain st' where st': "exec st am = Some st'" "\<forall>c. c \<noteq> Reg n \<longrightarrow> st' c = st c"
    "reg_value st' n = reg_value st n AND (2 ^ 13 - 2 ^ z)" by blast
  define off where "off = reg_value st n AND (2 ^ 13 - 2 ^ z)"
  have "(1 :: nat) \<le> 2 ^ z" by simp
  with masked_offset [OF z(1), of "reg_value st n"] have off: "off < 8192" "2 ^ z dvd off"
    unfolding off_def by (linarith, blast)
  have "reg_value st' ''14'' = nat base" using st'(2) assms(4,7) by (simp add: reg_value_def)
  then have "ea st' (''r14 + '' @ op_value o1) = Some ((nat base + off) mod 2 ^ 64)"
    using ea_sandboxed [OF assms(3), of st'] st'(3) by (simp add: off_def)
  also have "(nat base + off) mod 2 ^ 64 = nat base + off" using off(1) assms(8,9) by (intro mod_less) simp
  finally have ea: "ea st' (''r14 + '' @ op_value o1) = Some (nat base + off)" .
  have al: "128 \<le> op_width o1 \<Longrightarrow> 16 dvd off" "256 \<le> op_width o1 \<Longrightarrow> 32 dvd off"
  proof -
    show "16 dvd off" if "128 \<le> op_width o1"
    proof -
      have "(2 :: nat) ^ 4 dvd 2 ^ z" using z(2) [OF that] by (rule le_imp_power_dvd)
      then show ?thesis using off(2) by (auto intro: dvd_trans)
    qed
    show "32 dvd off" if "256 \<le> op_width o1" using off(2) z(3) [OF that] by simp
  qed
  have own: "data_addr_to_actor_id l (int (nat base + off) + k) = actor" if "0 \<le> k" "8 * k < op_width o1" for k
  proof -
    have "base = data_start l + actor * 16384 + 4096"
      using assms(6) by (simp add: get_data_addr_eq)
    then show ?thesis using that assms(5,8) off(1) unfolding data_addr_to_actor_id_def layout_simps
      by (intro int_div_eqI) auto
  qed
  have flt: "filter is_mem (operands ?i) = [o1\<lparr>op_value := ''r14 + '' @ op_value o1\<rparr>]"
    using filter_set_first_mem [OF assms(1)] by simp
  show ?thesis
    by (rule exI [of _ "(slot_of i)\<lparr>sl_before := sl_before (slot_of i) @ [am], sl_inst := Some ?i\<rparr>"], rule exI [of _ ?i],
        rule exI [of _ "o1\<lparr>op_value := ''r14 + '' @ op_value o1\<rparr>"], rule exI [of _ st'], rule exI [of _ off])
      (use run flt st'(1) ea off(1) al own in \<open>simp add: slot_of_def\<close>)
qed

text \<open>A concrete run: a load of 256 bits through \<^verbatim>\<open>rbx\<close>, by the second actor of a sandbox at 64 KiB.\<close>

definition demo_load :: Instruction where
  "demo_load = add_op (add_op (Instruction_init ''vmovdqa'' ''AVX-DATAXFER'' False False False)
     (Operand_init (RegisterOp 256) ''ymm0'' False True) False) (MemoryOp_init ''rbx'' 256 True False) False"

definition demo_machine :: "nat \<Rightarrow> machine" where
  "demo_machine b c = (if c = Reg ''14'' then b else if c = Reg ''B'' then 2 ^ 64 - 1 else 0)"

definition demo_layout :: SandboxLayout where
  "demo_layout = (case SandboxLayout_init (65536, 1048576) 2 of Inr l \<Rightarrow> l)"

definition demo_conf :: "bool \<Rightarrow> bool \<Rightarrow> sandbox_conf" where
  "demo_conf z v = \<lparr>x86_generator_align_locks = True, x86_disable_div64 = False, enable_div_by_zero = z, enable_div_overflow = v\<rparr>"

theorem sandboxed_access_in_actor_witness:
  "\<exists>s i' o' st' off. sandbox_memory_access (X86TargetDesc_init ''Intel'' [] []) (demo_conf False False) demo_load (slot_of demo_load) = Inr s \<and>
     sl_inst s = Some i' \<and> filter is_mem (operands i') = [o'] \<and>
     exec_all (sl_before s) (demo_machine 86016) = Some st' \<and> ea st' (op_value o') = Some (86016 + off) \<and>
     off < 8192 \<and> 32 dvd off \<and> data_addr_to_actor_id demo_layout (int (86016 + off) + 31) = 1"
proof -
  have ops: "filter is_mem (operands demo_load) = [MemoryOp_init ''rbx'' 256 True False]"
    "filter is_mem (implicit_operands demo_load) = []"
    by (simp_all add: demo_load_def add_op_def Instruction_init_def MemoryOp_init_def Operand_init_def is_mem_def)
  have val: "op_value (MemoryOp_init ''rbx'' 256 True False) = ''rbx''" "op_width (MemoryOp_init ''rbx'' 256 True False) = 256"
    by code_simp+
  have gp: "gp_register (op_value (MemoryOp_init ''rbx'' 256 True False)) 64 ''B''" unfolding val by code_simp
  have base: "get_data_addr demo_layout DA_MAIN 1 = Inr 86016"
    by (simp add: get_data_addr_eq demo_layout_def SandboxLayout_init_ok layout_simps)
  have r14: "reg_value (demo_machine 86016) ''14'' = nat 86016"
    by (simp add: reg_value_def demo_machine_def take_bit_eq_mod)
  have b: "''B'' \<noteq> ''14''" "op_width (MemoryOp_init ''rbx'' 256 True False) \<le> 4608" by (simp_all add: val)
  have all: "\<forall>k \<ge> (0 :: int). 8 * k < 256 \<longrightarrow> P (x + k) \<Longrightarrow> P (x + 31)" for P x by simp
  from sandboxed_access_in_actor [OF ops gp b base r14, of "X86TargetDesc_init ''Intel'' [] []" "demo_conf False False"]
  obtain s i' o' st' off where s: "sandbox_memory_access (X86TargetDesc_init ''Intel'' [] []) (demo_conf False False) demo_load (slot_of demo_load) = Inr s"
    "sl_inst s = Some i'" "filter is_mem (operands i') = [o']" "exec_all (sl_before s) (demo_machine 86016) = Some st'"
    "ea st' (op_value o') = Some (nat 86016 + off)" "off < 8192" "32 dvd off"
    "\<forall>k \<ge> 0. 8 * k < 256 \<longrightarrow> data_addr_to_actor_id demo_layout (int (nat 86016 + off) + k) = 1"
    unfolding val by auto
  have "data_addr_to_actor_id demo_layout (int (nat 86016 + off) + 31) = 1" by (rule all [OF s(8)])
  with s show ?thesis by simp
qed

end
