(* ===== verification/X86Division.thy ===== *)
theory X86Division
  imports X86Sandbox
begin

unbundle bit_operations_syntax

text \<open>
  The instrumentation of divisions in \<^verbatim>\<open>rvzr/arch/x86/generator.py\<close> at work: with both division faults
  forbidden, a sandboxed division never raises a divide error, whatever the registers and the memory hold;
  and the two cases in which it still does.
\<close>

section \<open>Operands at a fixed place\<close>

text \<open>
  An operand that denotes a cell in every state that agrees with the given one on the cells of its address.
\<close>

definition fixed_place :: "machine \<Rightarrow> cell set \<Rightarrow> cell \<Rightarrow> nat \<Rightarrow> Operand \<Rightarrow> bool" where
  "fixed_place st K c w o1 \<longleftrightarrow> c \<notin> K \<and> op_bits o1 = Some w \<and> \<not> is_imm o1 \<and>
     (\<forall>st'. (\<forall>c' \<in> K. st' c' = st c') \<longrightarrow> op_cell st' o1 = Some c)"

definition plain :: "Operand \<Rightarrow> bool" where
  "plain o1 \<longleftrightarrow> \<not> (is_reg o1 \<and> op_value o1 \<in> set high_bytes)"

lemma fixed_place_cell: "fixed_place st K c w o1 \<Longrightarrow> \<forall>c' \<in> K. st' c' = st c' \<Longrightarrow> op_cell st' o1 = Some c"
  by (simp add: fixed_place_def)

lemma fixed_place_shift: "fixed_place st K c w o1 \<Longrightarrow> \<forall>c' \<in> K. st' c' = st c' \<Longrightarrow> fixed_place st' K c w o1"
  by (simp add: fixed_place_def)

lemma read_plain:
  "fixed_place st K c w o1 \<Longrightarrow> plain o1 \<Longrightarrow> read_op st o1 = Some (take_bit w (st c))"
  by (auto simp: fixed_place_def plain_def read_op_def)

lemma fixed_place_reg:
  assumes "gp_register r w n" and "op_class o1 = RegisterOp w'" and "op_value o1 = r"
  shows "fixed_place st {} (Reg n) w o1"
  using RegisterOp_cell [OF assms] by (simp add: fixed_place_def)

lemma fixed_place_mem:
  assumes "gp_register r 64 n" and "op_class o1 = MemoryOp (int w)" and "op_value o1 = ''r14 + '' @ r"
  shows "\<exists>e. fixed_place st {Reg ''14'', Reg n} (Mem e) w o1"
proof (intro exI)
  show "fixed_place st {Reg ''14'', Reg n} (Mem ((reg_value st ''14'' + reg_value st n) mod 2 ^ 64)) w o1"
    using assms(2,3) ea_sandboxed [OF assms(1)]
    by (auto simp: fixed_place_def op_cell_def op_bits_def op_class_defs reg_value_def)
qed

lemma same_place:
  assumes "fixed_place st K c w o1" and "op_class o2 = op_class o1" and "op_value o2 = op_value o1"
  shows "fixed_place st K c w o2" and "plain o2 = plain o1"
proof -
  have k: "is_mem o2 = is_mem o1" "is_reg o2 = is_reg o1" "is_imm o2 = is_imm o1"
    using assms(2) by (simp_all add: op_class_defs)
  have "op_cell s o2 = op_cell s o1" for s by (simp add: op_cell_def k assms(3))
  moreover have "op_bits o2 = op_bits o1" unfolding op_bits_def assms(2,3) ..
  ultimately show "fixed_place st K c w o2" using assms(1) by (simp add: fixed_place_def k)
  show "plain o2 = plain o1" by (simp add: plain_def k assms(3))
qed

lemma exec_plainE:
  assumes "fixed_place st K c w o1" and "plain o1" and "operands i = [o1, o2]" and "read_op st o2 = Some b"
    and "alu (i_name i) w (take_bit w (st c)) b = Some v"
  obtains st' where "exec st i = Some st'" and "\<And>c'. c' \<noteq> c \<Longrightarrow> st' c' = st c'"
    and "take_bit w (st' c) = take_bit w v" and "fixed_place st' K c w o1"
    and "w \<noteq> 32 \<Longrightarrow> drop_bit w (st' c) = drop_bit w (st c)"
proof -
  have cell: "op_cell st o1 = Some c" and bits: "op_bits o1 = Some w"
    using assms(1) by (auto simp: fixed_place_def)
  have rd: "read_op st o1 = Some (take_bit w (st c))" by (rule read_plain [OF assms(1,2)])
  have pl: "op_value o1 \<notin> set high_bytes \<or> is_mem o1"
    using assms(2) cell by (auto simp: plain_def op_cell_def split: if_splits)
  have al: "alu (i_name i) w a b = Some v" if "read_op st o1 = Some a" for a using that rd assms(5) by simp
  obtain a st' where e: "exec st i = Some st'" "\<And>c'. c' \<noteq> c \<Longrightarrow> st' c' = st c'"
    "\<And>k. k < w \<Longrightarrow> bit (st' c) k = bit v k" "\<And>k. w \<noteq> 32 \<or> is_mem o1 \<Longrightarrow> w \<le> k \<Longrightarrow> bit (st' c) k = bit (st c) k"
    by (rule exec_aluE [where f = "\<lambda>_. v" and st = st, OF assms(3) cell bits assms(4) al]) (use pl in auto)
  have "take_bit w (st' c) = take_bit w v" by (rule bit_eqI) (auto simp: bit_simps e(3))
  moreover have "fixed_place st' K c w o1"
  proof (rule fixed_place_shift [OF assms(1)], intro ballI)
    fix c' assume "c' \<in> K"
    then have "c' \<noteq> c" using assms(1) by (auto simp: fixed_place_def)
    then show "st' c' = st c'" by (rule e(2))
  qed
  moreover have "drop_bit w (st' c) = drop_bit w (st c)" if "w \<noteq> 32"
    by (rule bit_eqI) (use e(4) that in \<open>auto simp: bit_simps\<close>)
  ultimately show ?thesis using that e(1,2) by blast
qed

section \<open>The instrumented division\<close>

lemma exec_divI:
  assumes "fixed_place st K c w o1" and "operands i = [o1]" and "i_name i \<in> {''div'', ''rex div'', ''idiv'', ''rex idiv''}"
    and "read_op st o1 = Some d"
    and "contains (i_name i) ''idiv'' \<Longrightarrow> sdivide w (dividend st w) d \<noteq> None"
    and "\<not> contains (i_name i) ''idiv'' \<Longrightarrow> udivide w (dividend st w) d \<noteq> None"
  shows "exec st i \<noteq> None"
proof -
  have bits: "op_bits o1 = Some w" using assms(1) by (simp add: fixed_place_def)
  have "exec st i = map_option (put_result st w)
      (if contains (i_name i) ''idiv'' then sdivide w (dividend st w) d else udivide w (dividend st w) d)"
    using assms(2-4) bits by (simp add: exec_def)
  then show ?thesis using assms(5,6) by auto
qed

lemma unsigned_division_safe:
  assumes pl: "fixed_place st K c w o1" "plain o1" and w: "w \<in> {16, 32, 64}" and D: "Reg ''D'' \<notin> insert c K"
    and d: "\<And>st. fixed_place st {} (Reg ''D'') w dreg" "plain dreg"
    and i1: "operands i1 = [o1, one]" "i_name i1 = ''or''" "\<And>st. read_op st one = Some 1"
    and i2: "operands i2 = [dreg, o1]" "i_name i2 = ''and''"
    and i3: "operands i3 = [dreg, one]" "i_name i3 = ''shr''"
    and i: "operands i = [o1]" "i_name i \<in> {''div'', ''rex div''}"
  shows "exec_all [i1, i2, i3, i] st \<noteq> None"
proof -
  have cD: "c \<noteq> Reg ''D''" using D by auto
  have KD: "(\<And>c'. c' \<noteq> Reg ''D'' \<Longrightarrow> s' c' = s c') \<Longrightarrow> \<forall>c' \<in> K. s' c' = s c'" for s s' :: machine
  proof
    fix c' assume *: "\<And>c'. c' \<noteq> Reg ''D'' \<Longrightarrow> s' c' = s c'" and "c' \<in> K"
    then have "c' \<noteq> Reg ''D''" using D by auto
    then show "s' c' = s c'" by (rule *)
  qed
  obtain st1 where e1: "exec st i1 = Some st1" "take_bit w (st1 c) = take_bit w (take_bit w (st c) OR 1)" "fixed_place st1 K c w o1"
    by (rule exec_plainE [OF pl i1(1,3), where v = "take_bit w (st c) OR 1"]) (simp_all add: i1(2) alu_def)
  define dv where "dv = take_bit w (st1 c)"
  have "bit dv 0" using w by (auto simp: dv_def e1(2) bit_simps)
  then have dv: "0 < dv" by (cases "dv = 0") auto
  have r1: "read_op st1 o1 = Some dv" unfolding dv_def by (rule read_plain [OF e1(3) pl(2)])
  define h where "h = take_bit w (st1 (Reg ''D'')) AND dv"
  obtain st2 where e2: "exec st1 i2 = Some st2" "\<And>c'. c' \<noteq> Reg ''D'' \<Longrightarrow> st2 c' = st1 c'" "take_bit w (st2 (Reg ''D'')) = take_bit w h"
    by (rule exec_plainE [OF d(1) [of st1] d(2) i2(1) r1, where v = h]) (simp_all add: i2(2) alu_def h_def)
  have h: "take_bit w h = h" unfolding h_def dv_def by (rule bit_eqI) (auto simp: bit_simps)
  obtain st3 where e3: "exec st2 i3 = Some st3" "\<And>c'. c' \<noteq> Reg ''D'' \<Longrightarrow> st3 c' = st2 c'" "take_bit w (st3 (Reg ''D'')) = take_bit w (drop_bit 1 h)"
    by (rule exec_plainE [OF d(1) [of st2] d(2) i3(1) i1(3), where v = "drop_bit 1 h"]) (simp_all add: i3(2) alu_def e2(3) h)
  have "take_bit w (drop_bit 1 h) = drop_bit 1 h"
    by (subst (2) h [symmetric], rule bit_eqI) (auto simp: bit_simps h_def)
  then have D3: "take_bit w (st3 (Reg ''D'')) = drop_bit 1 h" using e3(3) by simp
  have f3: "fixed_place st3 K c w o1"
    by (rule fixed_place_shift [OF e1(3)], rule KD) (simp add: e2(2) e3(2))
  have r3: "read_op st3 o1 = Some dv"
    using read_plain [OF f3 pl(2)] cD by (simp add: dv_def e2(2) e3(2))
  have less: "drop_bit 1 h < dv" unfolding h_def by (rule masked_half_less [OF dv])
  have "dividend st3 w = drop_bit 1 h * 2 ^ w + take_bit w (st3 (Reg ''A''))"
    using w D3 by (auto simp: dividend_def)
  then have "udivide w (dividend st3 w) dv \<noteq> None"
    using udivide_ok [OF less take_bit_nat_less_exp] by simp
  then have "exec st3 i \<noteq> None"
    by (intro exec_divI [OF f3 i(1) _ r3]) (use i(2) in auto)
  then show ?thesis by (auto simp: e1(1) e2(1) e3(1))
qed

lemma take_bit_less_mod16: "4 \<le> w \<Longrightarrow> take_bit w (x :: nat) mod 16 = x mod 16"
proof -
  assume "4 \<le> w"
  then have "take_bit 4 (take_bit w x) = take_bit 4 x" by (simp add: min_absorb1)
  then show ?thesis by (simp add: take_bit_eq_mod)
qed

lemma low_bits_eq: "take_bit 8 x = take_bit 8 y \<Longrightarrow> (x :: nat) mod 16 = y mod 16"
  by (metis take_bit_less_mod16 numeral_le_iff semiring_norm(71,68,69))

lemma and_f8_mod16: "((x :: nat) AND 248) mod 16 = x mod 16 AND 8"
proof -
  have "take_bit 4 (x AND 248) = take_bit 4 x AND take_bit 4 248" by simp
  then show ?thesis by (simp add: take_bit_eq_mod)
qed

lemma or_8_mod16: "((x :: nat) OR 8) mod 16 AND 8 = 8"
proof -
  have absorb: "(a OR b) AND b = b" for a b :: nat by (rule bit_eqI) (auto simp: bit_simps)
  have "take_bit 4 (x OR 8) = take_bit 4 x OR 8" by simp
  then have "take_bit 4 (x OR 8) AND 8 = 8" by (simp only: absorb)
  then show ?thesis by (simp add: take_bit_eq_mod)
qed

lemma signed_division_safe:
  assumes pl: "fixed_place st K c w o1" "plain o1" and w: "w \<in> {16, 32, 64}" and D: "Reg ''D'' \<notin> insert c K"
    and lo: "\<And>st'. fixed_place st' K c w o1 \<Longrightarrow> fixed_place st' K c 8 lo" "plain lo"
    and d: "\<And>st. fixed_place st {} (Reg ''D'') w dreg" "plain dreg"
    and i1: "operands i1 = [o1, eight]" "i_name i1 = ''or''" "\<And>st. read_op st eight = Some 8"
    and i2: "operands i2 = [lo, f8]" "i_name i2 = ''and''" "\<And>st. read_op st f8 = Some 248"
    and i3: "operands i3 = [dreg, three]" "i_name i3 = ''and''" "\<And>st. read_op st three = Some 3"
    and i: "operands i = [o1]" "i_name i \<in> {''idiv'', ''rex idiv''}"
  shows "exec_all [i1, i2, i3, i] st \<noteq> None"
proof -
  have cD: "c \<noteq> Reg ''D''" using D by auto
  have w4: "4 \<le> w" "8 \<le> w" using w by auto
  obtain st1 where e1: "exec st i1 = Some st1" "take_bit w (st1 c) = take_bit w (take_bit w (st c) OR 8)" "fixed_place st1 K c w o1"
    by (rule exec_plainE [OF pl i1(1,3), where v = "take_bit w (st c) OR 8"]) (simp_all add: i1(2) alu_def)
  have m1: "st1 c mod 16 AND 8 = 8"
    using take_bit_less_mod16 [OF w4(1), of "st1 c"] take_bit_less_mod16 [OF w4(1), of "take_bit w (st c) OR 8"] or_8_mod16
    by (simp add: e1(2))
  obtain st2 where e2: "exec st1 i2 = Some st2" "\<And>c'. c' \<noteq> c \<Longrightarrow> st2 c' = st1 c'" "take_bit 8 (st2 c) = take_bit 8 (take_bit 8 (st1 c) AND 248)"
    by (rule exec_plainE [OF lo(1) [OF e1(3)] lo(2) i2(1,3), where v = "take_bit 8 (st1 c) AND 248"])
      (simp_all add: i2(2) alu_def)
  have "st2 c mod 16 = (take_bit 8 (st1 c) AND 248) mod 16" by (rule low_bits_eq [OF e2(3)])
  also have "\<dots> = 8" using m1 by (simp add: and_f8_mod16 take_bit_less_mod16)
  finally have m2: "st2 c mod 16 = 8" .
  have f2: "fixed_place st2 K c w o1"
    by (rule fixed_place_shift [OF e1(3)]) (use e2(2) e1(3) in \<open>metis fixed_place_def\<close>)
  obtain st3 where e3: "exec st2 i3 = Some st3" "\<And>c'. c' \<noteq> Reg ''D'' \<Longrightarrow> st3 c' = st2 c'"
    "take_bit w (st3 (Reg ''D'')) = take_bit w (take_bit w (st2 (Reg ''D'')) AND 3)"
    by (rule exec_plainE [OF d(1) [of st2] d(2) i3(1,3), where v = "take_bit w (st2 (Reg ''D'')) AND 3"])
      (simp_all add: i3(2) alu_def)
  have h: "take_bit w (st3 (Reg ''D'')) \<le> 3"
    using nat_and_le [of "take_bit w (st2 (Reg ''D''))" 3] le_trans [OF take_bit_nat_less_eq_self] by (simp only: e3(3))
  have f3: "fixed_place st3 K c w o1"
    by (rule fixed_place_shift [OF f2]) (use e3(2) D in \<open>metis insertCI\<close>)
  have r3: "read_op st3 o1 = Some (take_bit w (st2 c))"
    using read_plain [OF f3 pl(2)] cD e3(2) by simp
  have "take_bit w (st2 c) mod 16 = 8" using m2 take_bit_less_mod16 [OF w4(1)] by simp
  then have "sdivide w (dividend st3 w) (take_bit w (st2 c)) \<noteq> None"
    using sdivide_ok [OF _ h take_bit_nat_less_exp w] w by (auto simp: dividend_def)
  then have "exec st3 i \<noteq> None"
    by (intro exec_divI [OF f3 i(1) _ r3]) (use i(2) in auto)
  then show ?thesis by (auto simp: e1(1) e2(1) e3(1))
qed

text \<open>Bytes, including the second byte of a register: one bit of the divisor is kept set.\<close>

definition byte_has_bit :: "machine \<Rightarrow> Operand \<Rightarrow> nat \<Rightarrow> bool" where
  "byte_has_bit st o1 j \<longleftrightarrow> (\<exists>d. read_op st o1 = Some d \<and> d < 256 \<and> bit d j)"

lemma byte_has_bit_iff:
  assumes "fixed_place st K c 8 o1"
  shows "byte_has_bit st o1 j \<longleftrightarrow> j < 8 \<and> bit (st c) (if plain o1 then j else 8 + j)"
proof -
  have c: "op_cell st o1 = Some c" "op_bits o1 = Some 8" "\<not> is_imm o1" using assms by (auto simp: fixed_place_def)
  have lt: "take_bit 8 x < (256 :: nat)" for x using take_bit_nat_less_exp [of 8 x] by simp
  show ?thesis
    using c lt by (cases "plain o1") (auto simp: byte_has_bit_def read_op_def plain_def bit_simps)
qed

lemma or_sets_bit:
  assumes "fixed_place st K c 8 o1" and "operands i = [o1, o2]" and "i_name i = ''or''" and "read_op st o2 = Some (2 ^ j)" and "j < 8"
  obtains st' where "exec st i = Some st'" and "fixed_place st' K c 8 o1" and "byte_has_bit st' o1 j"
proof -
  have cell: "op_cell st o1 = Some c" "op_bits o1 = Some 8" "\<not> is_imm o1" using assms(1) by (auto simp: fixed_place_def)
  have nm: "is_mem o1 \<Longrightarrow> \<not> is_reg o1" by (simp add: op_class_defs split: op_class.splits)
  have nr: "\<not> is_mem o1 \<Longrightarrow> is_reg o1" using cell(1) by (auto simp: op_cell_def split: if_splits)
  have al: "alu (i_name i) 8 a (2 ^ j) = Some (a OR 2 ^ j)" for a by (simp add: alu_def assms(3))
  obtain a st' where e: "exec st i = Some st'" "\<And>c'. c' \<noteq> c \<Longrightarrow> st' c' = st c'"
    "\<And>k. op_value o1 \<notin> set high_bytes \<or> is_mem o1 \<Longrightarrow> k < 8 \<Longrightarrow> bit (st' c) k = bit (a OR 2 ^ j :: nat) k"
    "\<And>k. op_value o1 \<in> set high_bytes \<Longrightarrow> is_reg o1 \<Longrightarrow> k < 8 \<Longrightarrow> bit (st' c) (8 + k) = bit (a OR 2 ^ j :: nat) k"
    by (rule exec_aluE [where f = "\<lambda>a. a OR 2 ^ j" and st = st, OF assms(2) cell(1,2) assms(4) al]) (rule that, assumption+)
  have f: "fixed_place st' K c 8 o1"
    by (rule fixed_place_shift [OF assms(1)]) (use e(2) assms(1) in \<open>metis fixed_place_def\<close>)
  have "bit (st' c) (if plain o1 then j else 8 + j)"
    using e(3,4) [of j] assms(5) nm nr by (auto simp: plain_def bit_simps)
  then have "byte_has_bit st' o1 j" using byte_has_bit_iff [OF f] assms(5) by simp
  with e(1) f show ?thesis using that by blast
qed

lemma and_keeps_bit:
  assumes f: "fixed_place st K c 8 o1" and lo: "fixed_place st K c 8 lo" "plain lo"
    and i: "operands i = [lo, o2]" "i_name i = ''and''" "read_op st o2 = Some 248" and b: "byte_has_bit st o1 3"
  obtains st' where "exec st i = Some st'" and "fixed_place st' K c 8 o1" and "byte_has_bit st' o1 3"
proof -
  obtain st' where e: "exec st i = Some st'" "\<And>c'. c' \<noteq> c \<Longrightarrow> st' c' = st c'"
    "take_bit 8 (st' c) = take_bit 8 (take_bit 8 (st c) AND 248)" "drop_bit 8 (st' c) = drop_bit 8 (st c)"
    by (rule exec_plainE [OF lo i(1,3), where v = "take_bit 8 (st c) AND 248"]) (simp_all add: i(2) alu_def)
  have f': "fixed_place st' K c 8 o1"
    by (rule fixed_place_shift [OF f]) (use e(2) f in \<open>metis fixed_place_def\<close>)
  have h: "bit (st' c) 11 = bit (st c) 11"
    using arg_cong [where f = "\<lambda>x. bit x 3", OF e(4)] by (simp add: bit_simps)
  have "bit (248 :: nat) 3" by simp
  then have l: "bit (st' c) 3 = bit (st c) 3"
    using arg_cong [where f = "\<lambda>x. bit x 3", OF e(3)] by (simp add: bit_simps)
  have "byte_has_bit st' o1 3"
    using b h l unfolding byte_has_bit_iff [OF f] byte_has_bit_iff [OF f'] by (cases "plain o1") auto
  with e(1) f' show ?thesis using that by blast
qed

lemma byte_division_safe:
  assumes f: "fixed_place st K c 8 o1" and b: "byte_has_bit st o1 j" and A: "Reg ''A'' \<notin> K" "c = Reg ''A'' \<Longrightarrow> plain o1"
    and ax: "fixed_place st {} (Reg ''A'') 16 ax" "plain ax"
    and m: "operands m = [ax, one]" "i_name m = ''mov''" "read_op st one = Some 1"
    and i: "operands i = [o1]" "i_name i \<in> {''div'', ''rex div'', ''idiv'', ''rex idiv''}"
  shows "exec_all [m, i] st \<noteq> None"
proof -
  obtain st' where e: "exec st m = Some st'" "\<And>c'. c' \<noteq> Reg ''A'' \<Longrightarrow> st' c' = st c'" "take_bit 16 (st' (Reg ''A'')) = take_bit 16 1"
    by (rule exec_plainE [OF ax m(1,3), where v = 1]) (simp_all add: m(2) alu_def)
  have K: "\<forall>c' \<in> K. st' c' = st c'"
  proof
    fix c' assume "c' \<in> K"
    then have "c' \<noteq> Reg ''A''" using A(1) by auto
    then show "st' c' = st c'" by (rule e(2))
  qed
  have f': "fixed_place st' K c 8 o1" by (rule fixed_place_shift [OF f K])
  have "\<exists>j. byte_has_bit st' o1 j"
  proof (cases "c = Reg ''A''")
    case True
    have "bit (take_bit 16 (st' (Reg ''A''))) 0" unfolding e(3) by (simp add: bit_simps)
    then have "bit (st' c) 0" using True by (simp add: bit_simps)
    then show ?thesis using byte_has_bit_iff [OF f', of 0] A(2) [OF True] by auto
  next
    case False
    then have "st' c = st c" by (rule e(2))
    then show ?thesis using b unfolding byte_has_bit_iff [OF f] byte_has_bit_iff [OF f'] by auto
  qed
  then obtain d j' where d: "read_op st' o1 = Some d" "d < 256" "bit d j'" by (auto simp: byte_has_bit_def)
  then have "0 < d" by (cases "d = 0") auto
  moreover have "dividend st' 8 = 1" using e(3) by (simp add: dividend_def)
  ultimately have "exec st' i \<noteq> None"
    using divide_one_ok [of d] d(2) by (intro exec_divI [OF f' i d(1)]) auto
  then show ?thesis by (auto simp: e(1))
qed

section \<open>The operand of a division\<close>

text \<open>
  The divisor after the memory accesses were sandboxed: a register, or memory addressed through the base
  register. The high byte of the dividend register is excluded.
\<close>

definition divisor_ok :: "Operand \<Rightarrow> nat \<Rightarrow> cell set \<Rightarrow> string \<Rightarrow> bool" where
  "divisor_ok o1 w K n \<longleftrightarrow>
     op_class o1 = RegisterOp (int w) \<and> gp_register (op_value o1) w n \<and> op_value o1 \<noteq> ''ah'' \<and> K = {} \<or>
     op_class o1 = MemoryOp (int w) \<and> w \<in> {8, 16, 32, 64} \<and>
       (\<exists>r. op_value o1 = ''r14 + '' @ r \<and> gp_register r 64 n \<and> K = {Reg ''14'', Reg n})"

definition not_instrumentable :: "string \<Rightarrow> nat \<Rightarrow> bool" where
  "not_instrumentable v w \<longleftrightarrow> v \<in> {''rdx'', ''edx'', ''dx'', ''dh'', ''dl''} \<or> contains v ''rdx'' \<or> contains v ''rax'' \<and> w = 8"

lemma divisor_ok_place:
  assumes "divisor_ok o1 w K n"
  obtains c where "fixed_place st K c w o1" and "c = Reg n \<and> K = {} \<and> is_reg o1 \<or> (\<exists>e. c = Mem e) \<and> K = {Reg ''14'', Reg n} \<and> is_mem o1"
  using assms unfolding divisor_ok_def
proof (elim disjE conjE exE)
  assume "op_class o1 = RegisterOp (int w)" "gp_register (op_value o1) w n" "K = {}"
  then show thesis using fixed_place_reg [of "op_value o1" w n o1] that by (simp add: op_class_defs)
next
  fix r assume "op_class o1 = MemoryOp (int w)" "op_value o1 = ''r14 + '' @ r" "gp_register r 64 n" "K = {Reg ''14'', Reg n}"
  then show thesis using fixed_place_mem [of r n o1 w st] that by (auto simp: op_class_defs)
qed

lemma divisor_ok_width: "divisor_ok o1 w K n \<Longrightarrow> w \<in> {8, 16, 32, 64} \<and> op_width o1 = int w \<and> n \<in> set gp_names"
  by (auto simp: divisor_ok_def gp_register_def op_width_def)

lemma divisor_ok_lower: "divisor_ok o1 w K n \<Longrightarrow> lower (op_value o1) = op_value o1"
  by (auto simp: divisor_ok_def gp_register_lower) (auto simp: lower_def lower_char_def dest: gp_register_lower [unfolded lower_def])

lemma divisor_ok_plain: "divisor_ok o1 w K n \<Longrightarrow> w \<noteq> 8 \<Longrightarrow> plain o1"
  using high_byte_width by (auto simp: divisor_ok_def plain_def op_class_defs)

lemma contains_suffix: "contains s p \<Longrightarrow> contains (c # s) p"
  by (cases p) simp_all

lemma divisor_not_D: assumes "divisor_ok o1 w K n" and "\<not> not_instrumentable (op_value o1) w" shows "n \<noteq> ''D''"
proof
  assume n: "n = ''D''"
  from assms(1) show False unfolding divisor_ok_def
  proof (elim disjE conjE exE)
    assume "gp_register (op_value o1) w n"
    then show False using gp_D [of "op_value o1" w] assms(2) n by (simp add: not_instrumentable_def)
  next
    fix r assume "op_value o1 = ''r14 + '' @ r" "gp_register r 64 n"
    moreover then have "r = ''rdx''" using gp_D [of r 64] n by simp
    ultimately show False using assms(2) by (simp add: not_instrumentable_def)
  qed
qed

lemma divisor_not_A: assumes "divisor_ok o1 8 K n" and "\<not> not_instrumentable (op_value o1) 8" and "n = ''A''"
  shows "plain o1 \<and> K = {}"
  using assms(1) unfolding divisor_ok_def
proof (elim disjE conjE exE)
  assume "gp_register (op_value o1) 8 n" "op_value o1 \<noteq> ''ah''" "K = {}"
  then show ?thesis using gp_A [of "op_value o1" 8] assms(3) by (auto simp: plain_def high_bytes_def)
next
  fix r assume "op_value o1 = ''r14 + '' @ r" "gp_register r 64 n"
  moreover then have "r = ''rax''" using gp_A [of r 64] assms(3) by simp
  ultimately show ?thesis using assms(2) by (simp add: not_instrumentable_def)
qed

text \<open>The low byte of the divisor.\<close>

lemma low_byte_operandE:
  assumes "divisor_ok o1 w K n" and "op_class dv = op_class o1" and "op_value dv = op_value o1"
  obtains lo where "low_byte_operand (X86TargetDesc_init v b a) dv = Inr lo" and "plain lo"
    and "\<And>st c. fixed_place st K c w o1 \<Longrightarrow> fixed_place st K c 8 lo"
  using assms(1) unfolding divisor_ok_def
proof (elim disjE conjE exE)
  assume r: "op_class o1 = RegisterOp (int w)" "gp_register (op_value o1) w n" "K = {}"
  have "n \<in> set gp_names" using r(2) by (simp add: gp_register_def)
  then obtain d r8 where lo: "map_of x86_reg_denormalized n = Some d" "map_of d 8 = Some r8" "gp_register r8 8 n" "r8 \<notin> set high_bytes"
    by (rule low_byteE)
  let ?lo = "Operand_init (RegisterOp 8) r8 (op_src dv) (op_dest dv)"
  have cv: "op_class ?lo = RegisterOp 8" "op_value ?lo = r8" by (simp_all add: RegisterOp_init_gp(2,3) [OF lo(3)])
  have norm: "map_of x86_reg_normalized (op_value o1) = Some n" using r(2) by (simp add: gp_register_def)
  have "\<not> is_mem dv" using assms(2) r(1) by (simp add: is_mem_def)
  then have run: "low_byte_operand (X86TargetDesc_init v b a) dv = Inr ?lo"
    using RegisterOp_init_gp(1) [OF lo(3), of "op_src dv" "op_dest dv"]
    by (simp add: low_byte_operand_def X86TargetDesc_init_def dict_get_def assms(3) norm lo(1,2))
  have pl: "plain ?lo" using lo(4) cv(2) by (simp add: plain_def)
  show thesis
  proof (rule that [OF run pl])
    fix st c assume "fixed_place st K c w o1"
    moreover have "op_cell st o1 = Some (Reg n)" using RegisterOp_cell(4) [OF r(2,1)] by simp
    ultimately have "c = Reg n" by (simp add: fixed_place_def r(3))
    then show "fixed_place st K c 8 ?lo" using fixed_place_reg [OF lo(3) cv] r(3) by simp
  qed
next
  fix r assume r: "op_class o1 = MemoryOp (int w)" "op_value o1 = ''r14 + '' @ r" "gp_register r 64 n" "K = {Reg ''14'', Reg n}"
  let ?lo = "MemoryOp_init (op_value dv) 8 (op_src dv) (op_dest dv)"
  have low: "lower (op_value o1) = op_value o1" by (rule divisor_ok_lower [OF assms(1)])
  have cv: "op_class ?lo = MemoryOp (int 8)" "op_value ?lo = op_value o1"
    using low by (simp_all add: MemoryOp_init_def Operand_init_def assms(3))
  have run: "low_byte_operand (X86TargetDesc_init v b a) dv = Inr ?lo"
    using assms(2) r(1) by (simp add: low_byte_operand_def is_mem_def)
  have pl: "plain ?lo" using cv(1) by (simp add: plain_def is_reg_def)
  show thesis
  proof (rule that [OF run pl])
    fix st c assume f: "fixed_place st K c w o1"
    have "op_cell s ?lo = op_cell s o1" for s using cv r(1) by (simp add: op_cell_def is_mem_def)
    then show "fixed_place st K c 8 ?lo" using f cv(1) by (auto simp: fixed_place_def op_bits_def is_imm_def)
  qed
qed

section \<open>The pass\<close>

lemma exec_alu_some:
  assumes "fixed_place st K c w o1" and "operands i = [o1, o2]" and "i_name i \<in> {''or'', ''and''}" and "read_op st o2 = Some b"
  obtains st' where "exec st i = Some st'" and "fixed_place st' K c w o1"
proof -
  have cell: "op_cell st o1 = Some c" "op_bits o1 = Some w" using assms(1) by (auto simp: fixed_place_def)
  have al: "alu (i_name i) w a b = Some (if i_name i = ''or'' then a OR b else a AND b)" for a
    using assms(3) by (auto simp: alu_def)
  obtain st' where e: "exec st i = Some st'" "\<And>c'. c' \<noteq> c \<Longrightarrow> st' c' = st c'"
    by (rule exec_aluE [where f = "\<lambda>a. if i_name i = ''or'' then a OR b else a AND b" and st = st, OF assms(2) cell assms(4) al])
      (rule that, assumption+)
  have "fixed_place st' K c w o1"
    by (rule fixed_place_shift [OF assms(1)]) (use e(2) assms(1) in \<open>metis fixed_place_def\<close>)
  with e(1) show ?thesis using that by blast
qed

text \<open>What the pass inserts to keep the divisor away from zero.\<close>

lemma prevent_div_by_zeroE:
  assumes ok: "divisor_ok o1 w K n" and dv: "op_class dv = op_class o1" "op_value dv = op_value o1"
    and C: "\<not> enable_div_by_zero C" "\<not> enable_div_overflow C"
  obtains (unsigned) i1 where "\<not> contains (i_name i) ''idiv''"
      and "prevent_div_by_zero (X86TargetDesc_init v b a) C i dv s = Inr (s\<lparr>sl_before := sl_before s @ [i1]\<rparr>)"
      and "operands i1 = [dv, ImmediateOp_init ''1'' 8]" and "i_name i1 = ''or''"
  | (signed) i1 i2 lo where "contains (i_name i) ''idiv''"
      and "prevent_div_by_zero (X86TargetDesc_init v b a) C i dv s = Inr (s\<lparr>sl_before := sl_before s @ [i1, i2]\<rparr>)"
      and "operands i1 = [dv, ImmediateOp_init ''0b1000'' 8]" and "i_name i1 = ''or''"
      and "operands i2 = [lo, ImmediateOp_init ''0b11111000'' 8]" and "i_name i2 = ''and''" and "plain lo"
      and "\<And>st c. fixed_place st K c w o1 \<Longrightarrow> fixed_place st K c 8 lo"
proof (cases "contains (i_name i) ''idiv''")
  case False
  obtain i1 where i1: "instrument ''or'' dv (ImmediateOp_init ''1'' 8) logic_flags = Inr i1" "i_name i1 = ''or''"
    "operands i1 = [dv, ImmediateOp_init ''1'' 8]" by (rule instrumentE [OF logic_flags_length, of "''or''" dv "ImmediateOp_init ''1'' 8"])
  show ?thesis
    by (rule unsigned [OF False _ i1(3,2)]) (simp add: prevent_div_by_zero_def C False i1(1) slot_insert_before_def)
next
  case True
  obtain i1 where i1: "instrument ''or'' dv (ImmediateOp_init ''0b1000'' 8) logic_flags = Inr i1" "i_name i1 = ''or''"
    "operands i1 = [dv, ImmediateOp_init ''0b1000'' 8]" by (rule instrumentE [OF logic_flags_length, of "''or''" dv "ImmediateOp_init ''0b1000'' 8"])
  obtain lo where lo: "low_byte_operand (X86TargetDesc_init v b a) dv = Inr lo" "plain lo"
    "\<And>st c. fixed_place st K c w o1 \<Longrightarrow> fixed_place st K c 8 lo" by (rule low_byte_operandE [OF ok dv]) (rule that, assumption+)
  obtain i2 where i2: "instrument ''and'' lo (ImmediateOp_init ''0b11111000'' 8) logic_flags = Inr i2" "i_name i2 = ''and''"
    "operands i2 = [lo, ImmediateOp_init ''0b11111000'' 8]" by (rule instrumentE [OF logic_flags_length, of "''and''" lo "ImmediateOp_init ''0b11111000'' 8"])
  have run: "prevent_div_by_zero (X86TargetDesc_init v b a) C i dv s = Inr (s\<lparr>sl_before := sl_before s @ [i1, i2]\<rparr>)"
    by (simp add: prevent_div_by_zero_def C True i1(1) i2(1) lo(1) slot_insert_before_def)
  show ?thesis by (rule signed [OF True run i1(3,2) i2(3,2) lo(2,3)])
qed

text \<open>What it inserts against overflows, for divisors of more than a byte.\<close>

lemma prevent_div_overflowE:
  assumes ok: "divisor_ok o1 w K n" and dv: "op_class dv = op_class o1" "op_value dv = op_value o1"
    and ni: "\<not> not_instrumentable (op_value o1) w" and w: "w \<noteq> 8"
  obtains (signed) i3 dreg where "contains (i_name i) ''idiv''"
      and "prevent_div_overflow i dv s = Inr (s\<lparr>sl_before := sl_before s @ [i3]\<rparr>)"
      and "operands i3 = [dreg, ImmediateOp_init ''0b11'' 8]" and "i_name i3 = ''and''"
      and "\<And>st. fixed_place st {} (Reg ''D'') w dreg" and "plain dreg"
  | (unsigned) i2 i3 dreg where "\<not> contains (i_name i) ''idiv''"
      and "prevent_div_overflow i dv s = Inr (s\<lparr>sl_before := sl_before s @ [i2, i3]\<rparr>)"
      and "operands i2 = [dreg, dv]" and "i_name i2 = ''and''"
      and "operands i3 = [dreg, ImmediateOp_init ''1'' 8]" and "i_name i3 = ''shr''"
      and "\<And>st. fixed_place st {} (Reg ''D'') w dreg" and "plain dreg"
proof -
  have w': "w \<in> {16, 32, 64}" and wd: "op_width dv = int w"
    using divisor_ok_width [OF ok] w dv(1) by (auto simp: op_width_def)
  obtain d where d: "d_register (int w) = Inr d" "gp_register d w ''D''"
  proof -
    have "d_register 16 = Inr ''dx''" "d_register 32 = Inr ''edx''" "d_register 64 = Inr ''rdx''"
      by (simp_all add: d_register_def dict_get_def)
    then show ?thesis using that w' fixed_registers(1-3) by auto
  qed
  let ?d = "Operand_init (RegisterOp (int w)) d True True"
  have cv: "op_class ?d = RegisterOp (int w)" "op_value ?d = d" by (simp_all add: RegisterOp_init_gp(2,3) [OF d(2)])
  have fd: "fixed_place st {} (Reg ''D'') w ?d" for st by (rule fixed_place_reg [OF d(2) cv])
  have pd: "plain ?d" using high_byte_width [OF d(2)] w cv(2) by (auto simp: plain_def)
  have guard: "\<not> (op_value dv \<in> {''rdx'', ''edx'', ''dx'', ''dh'', ''dl''} \<or> contains (op_value dv) ''rdx'' \<or>
      (contains (op_value dv) ''rax'' \<and> int w = 8))"
    using ni by (auto simp: not_instrumentable_def dv(2))
  have run: "prevent_div_overflow i dv s =
     (if contains (i_name i) ''idiv''
      then rbind (instrument ''and'' ?d (ImmediateOp_init ''0b11'' 8) logic_flags) (\<lambda>x. ok (slot_insert_before x s))
      else rbind (instrument ''and'' ?d dv logic_flags) (\<lambda>x.
           rbind (instrument ''shr'' ?d (ImmediateOp_init ''1'' 8) [''w'', ''w'', ''undef'', ''w'', ''w'', '''', '''', '''', ''undef'']) (\<lambda>y.
             ok (slot_insert_before y (slot_insert_before x s)))))"
    unfolding prevent_div_overflow_def Let_def wd if_not_P [OF guard] d(1) RegisterOp_init_gp(1) [OF d(2)] rbind_Inr
    using w by simp
  show ?thesis
  proof (cases "contains (i_name i) ''idiv''")
    case True
    obtain x where x: "instrument ''and'' ?d (ImmediateOp_init ''0b11'' 8) logic_flags = Inr x" "i_name x = ''and''"
      "operands x = [?d, ImmediateOp_init ''0b11'' 8]" by (rule instrumentE [OF logic_flags_length, of "''and''" ?d "ImmediateOp_init ''0b11'' 8"])
    show ?thesis by (rule signed [OF True _ x(3,2) fd pd]) (simp add: run True x(1) slot_insert_before_def)
  next
    case False
    obtain x where x: "instrument ''and'' ?d dv logic_flags = Inr x" "i_name x = ''and''" "operands x = [?d, dv]"
      by (rule instrumentE [OF logic_flags_length, of "''and''" ?d dv])
    obtain y where y: "instrument ''shr'' ?d (ImmediateOp_init ''1'' 8) [''w'', ''w'', ''undef'', ''w'', ''w'', '''', '''', '''', ''undef''] = Inr y"
      "i_name y = ''shr''" "operands y = [?d, ImmediateOp_init ''1'' 8]"
      by (rule instrumentE [of "[''w'', ''w'', ''undef'', ''w'', ''w'', '''', '''', '''', ''undef'']" "''shr''" ?d "ImmediateOp_init ''1'' 8"]) simp_all
    show ?thesis
      by (rule unsigned [OF False _ x(3,2) y(3,2) fd pd]) (simp add: run False x(1) y(1) slot_insert_before_def)
  qed
qed

lemma imm_reads:
  "read_op st (ImmediateOp_init ''1'' k) = Some 1" "read_op st (ImmediateOp_init ''0b1000'' k) = Some 8"
  "read_op st (ImmediateOp_init ''0b11111000'' k) = Some 248" "read_op st (ImmediateOp_init ''0b11'' k) = Some 3"
proof -
  have v: "int_base0 (lower ''1'') = Inr 1" "int_base0 (lower ''0b1000'') = Inr 8"
    "int_base0 (lower ''0b11111000'') = Inr 248" "int_base0 (lower ''0b11'') = Inr 3" by code_simp+
  show "read_op st (ImmediateOp_init ''1'' k) = Some 1" "read_op st (ImmediateOp_init ''0b1000'' k) = Some 8"
    "read_op st (ImmediateOp_init ''0b11111000'' k) = Some 248" "read_op st (ImmediateOp_init ''0b11'' k) = Some 3"
    using v [THEN read_imm, of st k] by simp_all
qed

lemma exec_same_operand:
  assumes "operands i = [o1]" and "op_class dv = op_class o1" and "op_value dv = op_value o1"
  shows "exec st i = exec st (i\<lparr>operands := [dv]\<rparr>)"
proof -
  have k: "is_mem dv = is_mem o1" "is_reg dv = is_reg o1" "is_imm dv = is_imm o1"
    using assms(2) by (simp_all add: op_class_defs)
  have c: "op_cell st dv = op_cell st o1" by (simp add: op_cell_def k assms(3))
  have b: "op_bits dv = op_bits o1" unfolding op_bits_def assms(2,3) ..
  have r: "read_op st dv = read_op st o1" unfolding read_op_def c b k assms(3) ..
  show ?thesis unfolding exec_def by (simp add: assms(1) b r)
qed

lemma divisor_ok_same: "divisor_ok o1 w K n \<Longrightarrow> op_class dv = op_class o1 \<Longrightarrow> op_value dv = op_value o1 \<Longrightarrow> divisor_ok dv w K n"
  by (simp add: divisor_ok_def)

lemma exec_all_last_same:
  assumes "\<And>st. exec st i = exec st i'" shows "exec_all (xs @ [i]) st = exec_all (xs @ [i']) st"
proof -
  have "exec_all [i] = exec_all [i']" by (rule ext) (simp add: assms)
  then show ?thesis by (simp only: exec_all_append)
qed

text \<open>
  The instrumentation that was put in front, followed by the division unless it was deleted, runs without a
  divide error.
\<close>

definition runs_through :: "Instruction list \<Rightarrow> Instruction option \<Rightarrow> bool" where
  "runs_through pre io \<longleftrightarrow> (\<forall>st. exec_all (pre @ (case io of None \<Rightarrow> [] | Some i \<Rightarrow> [i])) st \<noteq> None)"

lemma only_zero_check_runs:
  assumes "divisor_ok dv w K n"
    and i1: "operands i1 = [dv, x1]" "i_name i1 = ''or''" "\<And>st. read_op st x1 = Some b1"
  shows "runs_through [i1] None"
    and "operands i2 = [lo, x2] \<Longrightarrow> i_name i2 = ''and'' \<Longrightarrow> (\<And>st. read_op st x2 = Some b2) \<Longrightarrow>
      (\<And>st c. fixed_place st K c w dv \<Longrightarrow> fixed_place st K c 8 lo) \<Longrightarrow> runs_through [i1, i2] None"
proof -
  have step: "\<exists>st' c. exec st i1 = Some st' \<and> fixed_place st' K c w dv" for st
  proof -
    obtain c where c: "fixed_place st K c w dv" by (rule divisor_ok_place [OF assms(1)])
    obtain st' where "exec st i1 = Some st'" "fixed_place st' K c w dv"
      by (rule exec_alu_some [OF c i1(1) _ i1(3)]) (use i1(2) in auto)
    then show ?thesis by blast
  qed
  show "runs_through [i1] None"
    unfolding runs_through_def
  proof
    fix st
    obtain st1 where "exec st i1 = Some st1" using step by blast
    then show "exec_all ([i1] @ (case None of None \<Rightarrow> [] | Some i \<Rightarrow> [i])) st \<noteq> None" by simp
  qed
  assume i2: "operands i2 = [lo, x2]" "i_name i2 = ''and''" "\<And>st. read_op st x2 = Some b2"
    "\<And>st c. fixed_place st K c w dv \<Longrightarrow> fixed_place st K c 8 lo"
  show "runs_through [i1, i2] None"
    unfolding runs_through_def
  proof
    fix st
    obtain st1 c where e: "exec st i1 = Some st1" "fixed_place st1 K c w dv" using step by blast
    obtain st2 where "exec st1 i2 = Some st2"
      by (rule exec_alu_some [OF i2(4) [OF e(2)] i2(1) _ i2(3)]) (use i2(2) in auto)
    then show "exec_all ([i1, i2] @ (case None of None \<Rightarrow> [] | Some i \<Rightarrow> [i])) st \<noteq> None" by (simp add: e(1))
  qed
qed

lemma byte_runs:
  assumes ok: "divisor_ok dv 8 K n" and ni: "\<not> not_instrumentable (op_value dv) 8"
    and i1: "operands i1 = [dv, x1]" "i_name i1 = ''or''" "\<And>st. read_op st x1 = Some (2 ^ j)" "j < 8"
    and m: "operands m = [Operand_init (RegisterOp 16) ''ax'' False True, ImmediateOp_init ''1'' k]" "i_name m = ''mov''"
    and i: "operands i = [dv]" "i_name i \<in> {''div'', ''rex div'', ''idiv'', ''rex idiv''}"
  shows "runs_through [i1, m] (Some i)"
    and "operands i2 = [lo, x2] \<Longrightarrow> i_name i2 = ''and'' \<Longrightarrow> (\<And>st. read_op st x2 = Some 248) \<Longrightarrow> plain lo \<Longrightarrow> j = 3 \<Longrightarrow>
      (\<And>st c. fixed_place st K c 8 dv \<Longrightarrow> fixed_place st K c 8 lo) \<Longrightarrow> runs_through [i1, i2, m] (Some i)"
proof -
  let ?ax = "Operand_init (RegisterOp 16) ''ax'' False True"
  have axv: "op_class ?ax = RegisterOp 16" "op_value ?ax = ''ax''" by code_simp+
  have fax: "fixed_place st {} (Reg ''A'') 16 ?ax" for st by (rule fixed_place_reg [OF fixed_registers(4) axv])
  have pax: "plain ?ax" by (simp add: plain_def axv high_bytes_def)
  have first: "\<exists>st1 c. exec st i1 = Some st1 \<and> fixed_place st1 K c 8 dv \<and> byte_has_bit st1 dv j \<and>
      Reg ''A'' \<notin> K \<and> (c = Reg ''A'' \<longrightarrow> plain dv)" for st
  proof -
    obtain c where c: "fixed_place st K c 8 dv" "c = Reg n \<and> K = {} \<and> is_reg dv \<or> (\<exists>e. c = Mem e) \<and> K = {Reg ''14'', Reg n} \<and> is_mem dv"
      by (rule divisor_ok_place [OF ok])
    obtain st1 where "exec st i1 = Some st1" "fixed_place st1 K c 8 dv" "byte_has_bit st1 dv j"
      by (rule or_sets_bit [OF c(1) i1])
    moreover have "Reg ''A'' \<notin> K \<and> (c = Reg ''A'' \<longrightarrow> plain dv)"
      using c(2) divisor_not_A [OF ok ni] by auto
    ultimately show ?thesis by blast
  qed
  have last: "exec_all [m, i] st1 \<noteq> None" if "fixed_place st1 K c 8 dv" "byte_has_bit st1 dv j" "Reg ''A'' \<notin> K" "c = Reg ''A'' \<longrightarrow> plain dv" for st1 c
    by (rule byte_division_safe [OF that(1-3) _ fax pax m imm_reads(1) i]) (use that(4) in simp)
  show "runs_through [i1, m] (Some i)"
    unfolding runs_through_def
  proof
    fix st
    obtain st1 c where "exec st i1 = Some st1" "fixed_place st1 K c 8 dv" "byte_has_bit st1 dv j" "Reg ''A'' \<notin> K" "c = Reg ''A'' \<longrightarrow> plain dv"
      using first by blast
    with last [of st1 c] show "exec_all ([i1, m] @ (case Some i of None \<Rightarrow> [] | Some i \<Rightarrow> [i])) st \<noteq> None" by simp
  qed
  assume i2: "operands i2 = [lo, x2]" "i_name i2 = ''and''" "\<And>st. read_op st x2 = Some 248" "plain lo" "j = 3"
    "\<And>st c. fixed_place st K c 8 dv \<Longrightarrow> fixed_place st K c 8 lo"
  show "runs_through [i1, i2, m] (Some i)"
    unfolding runs_through_def
  proof
    fix st
    obtain st1 c where e: "exec st i1 = Some st1" "fixed_place st1 K c 8 dv" "byte_has_bit st1 dv j" "Reg ''A'' \<notin> K" "c = Reg ''A'' \<longrightarrow> plain dv"
      using first by blast
    have b3: "byte_has_bit st1 dv 3" using e(3) i2(5) by simp
    obtain st2 where e2: "exec st1 i2 = Some st2" "fixed_place st2 K c 8 dv" "byte_has_bit st2 dv 3"
      by (rule and_keeps_bit [OF e(2) i2(6) [OF e(2)] i2(4,1,2,3) b3])
    then show "exec_all ([i1, i2, m] @ (case Some i of None \<Rightarrow> [] | Some i \<Rightarrow> [i])) st \<noteq> None"
      using last [of st2 c] e i2(5) by simp
  qed
qed

text \<open>Both faults are forbidden: one division after the other cases of the pass.\<close>

lemma wide_runs:
  assumes ok: "divisor_ok dv w K n" and ni: "\<not> not_instrumentable (op_value dv) w" and w: "w \<noteq> 8"
    and d: "\<And>st. fixed_place st {} (Reg ''D'') w dreg" "plain dreg"
    and i: "operands i = [dv]"
  shows "operands i1 = [dv, ImmediateOp_init ''1'' 8] \<Longrightarrow> i_name i1 = ''or'' \<Longrightarrow> operands i2 = [dreg, dv] \<Longrightarrow> i_name i2 = ''and'' \<Longrightarrow>
      operands i3 = [dreg, ImmediateOp_init ''1'' 8] \<Longrightarrow> i_name i3 = ''shr'' \<Longrightarrow> i_name i \<in> {''div'', ''rex div''} \<Longrightarrow>
      runs_through [i1, i2, i3] (Some i)"
    and "operands i1 = [dv, ImmediateOp_init ''0b1000'' 8] \<Longrightarrow> i_name i1 = ''or'' \<Longrightarrow>
      operands i2 = [lo, ImmediateOp_init ''0b11111000'' 8] \<Longrightarrow> i_name i2 = ''and'' \<Longrightarrow> plain lo \<Longrightarrow>
      (\<And>st c. fixed_place st K c w dv \<Longrightarrow> fixed_place st K c 8 lo) \<Longrightarrow>
      operands i3 = [dreg, ImmediateOp_init ''0b11'' 8] \<Longrightarrow> i_name i3 = ''and'' \<Longrightarrow> i_name i \<in> {''idiv'', ''rex idiv''} \<Longrightarrow>
      runs_through [i1, i2, i3] (Some i)"
proof -
  have w': "w \<in> {16, 32, 64}" using divisor_ok_width [OF ok] w by auto
  have pl: "plain dv" by (rule divisor_ok_plain [OF ok w])
  have place: "\<exists>c. fixed_place st K c w dv \<and> Reg ''D'' \<notin> insert c K" for st
  proof -
    obtain c where c: "fixed_place st K c w dv" "c = Reg n \<and> K = {} \<and> is_reg dv \<or> (\<exists>e. c = Mem e) \<and> K = {Reg ''14'', Reg n} \<and> is_mem dv"
      by (rule divisor_ok_place [OF ok])
    moreover have "n \<noteq> ''D''" by (rule divisor_not_D [OF ok ni])
    ultimately show ?thesis by auto
  qed
  show "runs_through [i1, i2, i3] (Some i)"
    if "operands i1 = [dv, ImmediateOp_init ''1'' 8]" "i_name i1 = ''or''" "operands i2 = [dreg, dv]" "i_name i2 = ''and''"
      "operands i3 = [dreg, ImmediateOp_init ''1'' 8]" "i_name i3 = ''shr''" "i_name i \<in> {''div'', ''rex div''}"
    unfolding runs_through_def
  proof
    fix st
    obtain c where c: "fixed_place st K c w dv" "Reg ''D'' \<notin> insert c K" using place by blast
    from unsigned_division_safe [OF c(1) pl w' c(2) d that(1,2) imm_reads(1) that(3-6) i that(7)]
    show "exec_all ([i1, i2, i3] @ (case Some i of None \<Rightarrow> [] | Some i \<Rightarrow> [i])) st \<noteq> None" by simp
  qed
  show "runs_through [i1, i2, i3] (Some i)"
    if "operands i1 = [dv, ImmediateOp_init ''0b1000'' 8]" "i_name i1 = ''or''"
      "operands i2 = [lo, ImmediateOp_init ''0b11111000'' 8]" "i_name i2 = ''and''" "plain lo"
      "\<And>st c. fixed_place st K c w dv \<Longrightarrow> fixed_place st K c 8 lo"
      "operands i3 = [dreg, ImmediateOp_init ''0b11'' 8]" "i_name i3 = ''and''" "i_name i \<in> {''idiv'', ''rex idiv''}"
    unfolding runs_through_def
  proof
    fix st
    obtain c where c: "fixed_place st K c w dv" "Reg ''D'' \<notin> insert c K" using place by blast
    from signed_division_safe [OF c(1) pl w' c(2) that(6,5) d that(1,2) imm_reads(2) that(3,4) imm_reads(3) that(7,8) imm_reads(4) i that(9)]
    show "exec_all ([i1, i2, i3] @ (case Some i of None \<Rightarrow> [] | Some i \<Rightarrow> [i])) st \<noteq> None" by simp
  qed
qed

lemma byte_overflowE:
  assumes "op_width dv = 8" and "\<not> not_instrumentable (op_value dv) 8"
  obtains m where "prevent_div_overflow i dv s = Inr (s\<lparr>sl_before := sl_before s @ [m]\<rparr>)"
    and "operands m = [Operand_init (RegisterOp 16) ''ax'' False True, ImmediateOp_init ''1'' 16]" and "i_name m = ''mov''"
proof -
  have ax: "RegisterOp_init ''ax'' 16 False True = Inr (Operand_init (RegisterOp 16) ''ax'' False True)"
    using RegisterOp_init_gp(1) [OF fixed_registers(4)] by simp
  obtain m where m: "instrument ''mov'' (Operand_init (RegisterOp 16) ''ax'' False True) (ImmediateOp_init ''1'' 16) [] = Inr m"
    "i_name m = ''mov''" "operands m = [Operand_init (RegisterOp 16) ''ax'' False True, ImmediateOp_init ''1'' 16]"
    by (rule instrumentE [of "[]" "''mov''" "Operand_init (RegisterOp 16) ''ax'' False True" "ImmediateOp_init ''1'' 16"]) simp_all
  have guard: "\<not> (op_value dv \<in> {''rdx'', ''edx'', ''dx'', ''dh'', ''dl''} \<or> contains (op_value dv) ''rdx'' \<or>
      (contains (op_value dv) ''rax'' \<and> (8 :: int) = 8))"
    using assms(2) by (auto simp: not_instrumentable_def)
  have "prevent_div_overflow i dv s = Inr (s\<lparr>sl_before := sl_before s @ [m]\<rparr>)"
    unfolding prevent_div_overflow_def Let_def assms(1) if_not_P [OF guard]
    by (simp add: ax m(1) slot_insert_before_def)
  then show ?thesis using that m by blast
qed

lemma prevent_div_overflow_gives_up:
  "op_width dv = int w \<Longrightarrow> not_instrumentable (op_value dv) w \<Longrightarrow> prevent_div_overflow i dv s = Inr (slot_delete s)"
  unfolding prevent_div_overflow_def Let_def by (auto simp: not_instrumentable_def)

lemma copied_divisor:
  assumes "divisor_ok o1 w K n"
  obtains dv where "copy_op_with_flow_modification o1 None (Some True) = Inr dv" and "op_class dv = op_class o1" and "op_value dv = op_value o1"
proof -
  have "w \<in> {8, 16, 32, 64}" using divisor_ok_width [OF assms] by simp
  then have "\<exists>dv. copy_op_with_flow_modification o1 None (Some True) = Inr dv \<and> op_class dv = op_class o1 \<and> op_value dv = op_value o1"
    using assms divisor_ok_lower [OF assms]
    by (auto simp: divisor_ok_def copy_op_with_flow_modification_def RegisterOp_init_def MemoryOp_init_def RegSizes_def Operand_init_def)
  then show ?thesis using that by blast
qed

lemma runs_through_same:
  assumes "operands i = [o1]" and "op_class dv = op_class o1" and "op_value dv = op_value o1"
    and "runs_through pre (Some (i\<lparr>operands := [dv]\<rparr>))"
  shows "runs_through pre (Some i)"
  using assms(4) exec_all_last_same [of i "i\<lparr>operands := [dv]\<rparr>" pre] exec_same_operand [OF assms(1-3)]
  by (simp add: runs_through_def)

lemma sandbox_division_runs:
  assumes ok: "divisor_ok o1 w K n" and i: "operands i = [o1]" "i_name i \<in> {''div'', ''rex div'', ''idiv'', ''rex idiv''}"
    and C: "\<not> enable_div_by_zero C" "\<not> enable_div_overflow C" and s: "sl_inst s = Some i" "sl_after s = []"
  shows "\<exists>s' pre. sandbox_division (X86TargetDesc_init v b a) C i s = Inr s' \<and> sl_before s' = sl_before s @ pre \<and>
     sl_after s' = [] \<and> runs_through pre (sl_inst s')"
proof -
  let ?T = "X86TargetDesc_init v b a"
  obtain dv where dv: "copy_op_with_flow_modification o1 None (Some True) = Inr dv" "op_class dv = op_class o1" "op_value dv = op_value o1"
    by (rule copied_divisor [OF ok])
  have okd: "divisor_ok dv w K n" by (rule divisor_ok_same [OF ok dv(2,3)])
  have wd: "op_width dv = int w" using divisor_ok_width [OF okd] by simp
  have kind: "is_reg o1 \<or> is_mem o1" using ok by (auto simp: divisor_ok_def op_class_defs)
  have start: "sandbox_division ?T C i s = (if w = 64 \<and> x86_disable_div64 C then ok (slot_delete s)
      else rbind (prevent_div_by_zero ?T C i dv s) (\<lambda>s1. prevent_div_overflow i dv s1))"
    using kind by (simp add: sandbox_division_def i(1) py_nth_def py_index_def dv(1) wd C)
  note last = runs_through_same [OF i(1) dv(2,3)]
  let ?i = "i\<lparr>operands := [dv]\<rparr>"
  have i': "operands ?i = [dv]" "i_name ?i = i_name i" by simp_all
  show ?thesis
  proof (cases "w = 64 \<and> x86_disable_div64 C")
    case True
    then show ?thesis using s by (auto simp: start slot_delete_def runs_through_def)
  next
    case go: False
    show ?thesis
    proof (rule prevent_div_by_zeroE [OF okd refl refl C, of i v b a s])
      fix i1 assume u: "\<not> contains (i_name i) ''idiv''"
        and z: "prevent_div_by_zero ?T C i dv s = Inr (s\<lparr>sl_before := sl_before s @ [i1]\<rparr>)"
        and i1: "operands i1 = [dv, ImmediateOp_init ''1'' 8]" "i_name i1 = ''or''"
      let ?s1 = "s\<lparr>sl_before := sl_before s @ [i1]\<rparr>"
      have nm: "i_name ?i \<in> {''div'', ''rex div''}" using i(2) u by auto
      show ?thesis
      proof (cases "not_instrumentable (op_value dv) w")
        case True
        then show ?thesis using only_zero_check_runs(1) [OF okd i1 imm_reads(1)] s
          by (auto simp: start go z prevent_div_overflow_gives_up [OF wd True] slot_delete_def)
      next
        case ni: False
        show ?thesis
        proof (cases "w = 8")
          case True
          obtain m where m: "prevent_div_overflow i dv ?s1 = Inr (?s1\<lparr>sl_before := sl_before ?s1 @ [m]\<rparr>)"
            "operands m = [Operand_init (RegisterOp 16) ''ax'' False True, ImmediateOp_init ''1'' 16]" "i_name m = ''mov''"
            by (rule byte_overflowE [of dv i ?s1]) (use wd ni True in auto)
          have one: "read_op st (ImmediateOp_init ''1'' 8) = Some (2 ^ 0)" for st by (simp add: imm_reads)
          have "runs_through [i1, m] (Some ?i)"
            by (rule byte_runs(1) [OF okd [unfolded True] ni [unfolded True] i1 one _ m(2,3) i'(1)]) (use i(2) in auto)
          with last have "runs_through [i1, m] (Some i)" by blast
          then show ?thesis using s by (auto simp: start go z m(1))
        next
          case False
          show ?thesis
          proof (rule prevent_div_overflowE [OF okd refl refl ni False, of i ?s1])
            fix i2 i3 dreg assume o: "prevent_div_overflow i dv ?s1 = Inr (?s1\<lparr>sl_before := sl_before ?s1 @ [i2, i3]\<rparr>)"
              and x: "operands i2 = [dreg, dv]" "i_name i2 = ''and''" "operands i3 = [dreg, ImmediateOp_init ''1'' 8]" "i_name i3 = ''shr''"
              and d: "\<And>st. fixed_place st {} (Reg ''D'') w dreg" "plain dreg"
            have "runs_through [i1, i2, i3] (Some ?i)" by (rule wide_runs(1) [OF okd ni False d i'(1) i1 x nm])
            with last have "runs_through [i1, i2, i3] (Some i)" by blast
            then show ?thesis using s by (auto simp: start go z o)
          qed (use u in simp)
        qed
      qed
    next
      fix i1 i2 lo assume u: "contains (i_name i) ''idiv''"
        and z: "prevent_div_by_zero ?T C i dv s = Inr (s\<lparr>sl_before := sl_before s @ [i1, i2]\<rparr>)"
        and i1: "operands i1 = [dv, ImmediateOp_init ''0b1000'' 8]" "i_name i1 = ''or''"
        and i2: "operands i2 = [lo, ImmediateOp_init ''0b11111000'' 8]" "i_name i2 = ''and''" "plain lo"
          "\<And>st c. fixed_place st K c w dv \<Longrightarrow> fixed_place st K c 8 lo"
      let ?s1 = "s\<lparr>sl_before := sl_before s @ [i1, i2]\<rparr>"
      have nm: "i_name ?i \<in> {''idiv'', ''rex idiv''}" using i(2) u by auto
      show ?thesis
      proof (cases "not_instrumentable (op_value dv) w")
        case True
        then show ?thesis using only_zero_check_runs(2) [OF okd i1 imm_reads(2) i2(1,2) imm_reads(3) i2(4)] s
          by (auto simp: start go z prevent_div_overflow_gives_up [OF wd True] slot_delete_def)
      next
        case ni: False
        show ?thesis
        proof (cases "w = 8")
          case True
          obtain m where m: "prevent_div_overflow i dv ?s1 = Inr (?s1\<lparr>sl_before := sl_before ?s1 @ [m]\<rparr>)"
            "operands m = [Operand_init (RegisterOp 16) ''ax'' False True, ImmediateOp_init ''1'' 16]" "i_name m = ''mov''"
            by (rule byte_overflowE [of dv i ?s1]) (use wd ni True in auto)
          have eight: "read_op st (ImmediateOp_init ''0b1000'' 8) = Some (2 ^ 3)" for st by (simp add: imm_reads)
          have "runs_through [i1, i2, m] (Some ?i)"
            by (rule byte_runs(2) [OF okd [unfolded True] ni [unfolded True] i1 eight _ m(2,3) i'(1) _ i2(1,2) imm_reads(3) i2(3) refl i2(4) [unfolded True]])
              (use i(2) in auto)
          with last have "runs_through [i1, i2, m] (Some i)" by blast
          then show ?thesis using s by (auto simp: start go z m(1))
        next
          case False
          show ?thesis
          proof (rule prevent_div_overflowE [OF okd refl refl ni False, of i ?s1])
            fix i3 dreg assume o: "prevent_div_overflow i dv ?s1 = Inr (?s1\<lparr>sl_before := sl_before ?s1 @ [i3]\<rparr>)"
              and x: "operands i3 = [dreg, ImmediateOp_init ''0b11'' 8]" "i_name i3 = ''and''"
              and d: "\<And>st. fixed_place st {} (Reg ''D'') w dreg" "plain dreg"
            have "runs_through [i1, i2, i3] (Some ?i)" by (rule wide_runs(2) [OF okd ni False d i'(1) i1 i2 x nm])
            with last have "runs_through [i1, i2, i3] (Some i)" by blast
            then show ?thesis using s by (auto simp: start go z o)
          qed (use u in simp)
        qed
      qed
    qed
  qed
qed

section \<open>Divisions never fault\<close>

text \<open>
  The operand of a division as the generator makes it: a general purpose register that is not the high byte of
  the dividend, or memory addressed by a general purpose register.
\<close>

definition division_operand :: "Operand \<Rightarrow> bool" where
  "division_operand o1 \<longleftrightarrow>
     (\<exists>w n. op_class o1 = RegisterOp (int w) \<and> gp_register (op_value o1) w n \<and> op_value o1 \<noteq> ''ah'') \<or>
     (\<exists>w n. op_class o1 = MemoryOp (int w) \<and> w \<in> {8, 16, 32, 64} \<and> gp_register (op_value o1) 64 n)"

lemma sandbox_block_division:
  assumes "i_name i \<in> {''div'', ''rex div'', ''idiv'', ''rex idiv''}" and "\<not> is_instrumentation i" and "\<not> is_from_template i"
    and "(if has_mem_operand i True then sandbox_memory_access T C i (slot_of i) else ok (slot_of i)) = Inr s"
    and "sl_inst s = Some i'" and "sandbox_division T C i' s = Inr s'"
  shows "sandbox_block T C rnd [i] k = Inr (slot_instructions s', k)"
proof -
  have "kinds_of i = (if has_mem_operand i True then [K_memory] else []) @ [K_division]"
    using assms(1-3) by (auto simp: kinds_of_def)
  then show ?thesis using assms(4-6)
    by (auto simp: sandbox_block_def sandbox_func_def slot_of_def block_instructions_def split: if_splits)
qed

lemma runs_through_all:
  assumes "runs_through pre io" and "\<And>st. \<exists>st'. exec_all xs st = Some st'"
  shows "exec_all (xs @ pre @ (case io of None \<Rightarrow> [] | Some i \<Rightarrow> [i])) st \<noteq> None"
proof -
  obtain st' where "exec_all xs st = Some st'" using assms(2) by blast
  then show ?thesis using assms(1) by (simp add: runs_through_def exec_all_append [of xs])
qed


text \<open>A signed division by memory.\<close>

definition demo_division :: "string \<Rightarrow> Operand \<Rightarrow> Instruction" where
  "demo_division name o1 = add_op (Instruction_init name ''BASE-BINARY'' False False False) o1 False"


section \<open>Divisions that still fault\<close>

text \<open>
  When division by zero is allowed but overflow is forbidden, a signed division can still overflow: the
  divisor is only made large together with being made non-zero, while the upper half of the dividend is
  always left up to three. The divisor here is one, and the quotient does not fit.
\<close>
theorem idiv_overflows_if_zero_allowed:
  "\<exists>insts st. sandbox_block (X86TargetDesc_init ''Intel'' [] []) (demo_conf True False) rnd
       [demo_division ''idiv'' (Operand_init (RegisterOp 64) ''rbx'' True False)] k = Inr (insts, k) \<and>
     exec_all insts st = None \<and> (\<exists>st'. exec_all (butlast insts) st = Some st' \<and> reg_value st' ''B'' = 1)"
proof -
  let ?o = "Operand_init (RegisterOp 64) ''rbx'' True False"
  let ?i = "demo_division ''idiv'' ?o"
  have gp: "gp_register ''rbx'' 64 ''B''" by code_simp
  have ok: "divisor_ok ?o 64 {} ''B''"
    using gp RegisterOp_init_gp(2,3) [OF gp] by (simp add: divisor_ok_def)
  obtain dv where dv: "copy_op_with_flow_modification ?o None (Some True) = Inr dv" "op_class dv = op_class ?o" "op_value dv = op_value ?o"
    by (rule copied_divisor [OF ok])
  have okd: "divisor_ok dv 64 {} ''B''" by (rule divisor_ok_same [OF ok dv(2,3)])
  have v: "op_value dv = ''rbx''" using dv(3) RegisterOp_init_gp(3) [OF gp] by simp
  have ni: "\<not> not_instrumentable (op_value dv) 64" by (simp add: v not_instrumentable_def)
  have i: "operands ?i = [?o]" "i_name ?i = ''idiv''" "\<not> is_instrumentation ?i" "\<not> is_from_template ?i" "implicit_operands ?i = []"
    by (simp_all add: demo_division_def add_op_def Instruction_init_def)
  have idiv: "contains (i_name ?i) ''idiv''" by (simp add: i(2))
  have nomem: "\<not> has_mem_operand ?i True" using i(1,5) by (simp add: has_mem_operand_def is_mem_def Operand_init_def)
  have wd: "op_width dv = 64" using divisor_ok_width [OF okd] by simp
  have kr: "is_reg ?o" by (simp add: is_reg_def Operand_init_def)
  show ?thesis
  proof (rule prevent_div_overflowE [OF okd refl refl ni, of ?i "slot_of ?i"])
    fix i3 dreg assume o: "prevent_div_overflow ?i dv (slot_of ?i) = Inr ((slot_of ?i)\<lparr>sl_before := sl_before (slot_of ?i) @ [i3]\<rparr>)"
      and x: "operands i3 = [dreg, ImmediateOp_init ''0b11'' 8]" "i_name i3 = ''and''"
      and d: "\<And>st. fixed_place st {} (Reg ''D'') 64 dreg" "plain dreg"
    let ?s = "(slot_of ?i)\<lparr>sl_before := sl_before (slot_of ?i) @ [i3]\<rparr>"
    have "sandbox_division (X86TargetDesc_init ''Intel'' [] []) (demo_conf True False) ?i (slot_of ?i) = Inr ?s"
      by (simp add: sandbox_division_def i(1) py_nth_def py_index_def dv(1) wd demo_conf_def prevent_div_by_zero_def o kr)
    then have run: "sandbox_block (X86TargetDesc_init ''Intel'' [] []) (demo_conf True False) rnd [?i] k = Inr (slot_instructions ?s, k)"
      by (intro sandbox_block_division [OF _ i(3,4)]) (simp_all add: i(2) nomem, simp add: slot_of_def)
    define st where "st = (\<lambda>c. if c = Reg ''B'' then 1 else if c = Reg ''D'' then 3 else 0 :: nat)"
    obtain st' where st': "exec st i3 = Some st'" "\<And>c'. c' \<noteq> Reg ''D'' \<Longrightarrow> st' c' = st c'" "take_bit 64 (st' (Reg ''D'')) = take_bit 64 3"
      by (rule exec_plainE [OF d(1) [of st] d(2) x(1) imm_reads(4), where v = 3]) (simp_all add: x(2) alu_def st_def)
    have rd: "read_op st' ?o = Some 1"
      using read_plain [OF fixed_place_reg [OF gp, of ?o 64 st']] RegisterOp_init_gp(2,3) [OF gp] st'(2)
      by (simp add: plain_def high_bytes_def st_def)
    have "op_bits ?o = Some 64" using divisor_ok_place [OF ok] by (metis fixed_place_def)
    moreover have "dividend st' 64 = 3 * 2 ^ 64" using st'(2,3) by (simp add: dividend_def st_def)
    then have "sdivide 64 (dividend st' 64) 1 = None"
      by (simp add: sdivide_def signed_value_def trunc_div_def Let_def)
    ultimately have "exec st' ?i = None" by (simp add: exec_def i(1,2) rd idiv [unfolded i(2)])
    moreover have "slot_instructions ?s = [i3, ?i]" by (simp add: slot_instructions_def slot_of_def)
    moreover have "reg_value st' ''B'' = 1" using st'(2) by (simp add: reg_value_def st_def)
    ultimately show ?thesis using run st'(1) by (intro exI [of _ "[i3, ?i]"] exI [of _ st]) simp
  qed (use idiv in simp_all)
qed

text \<open>
  An 8-bit division by the high byte of the dividend register always faults: the pass sets the whole dividend
  to one, which makes that byte zero, after it had made it non-zero.
\<close>
theorem division_by_ah_always_faults:
  assumes "name \<in> {''div'', ''rex div'', ''idiv'', ''rex idiv''}"
  shows "\<exists>insts. sandbox_block (X86TargetDesc_init vendor blocked allowed) (demo_conf False False) rnd
       [demo_division name (Operand_init (RegisterOp 8) ''ah'' True False)] k = Inr (insts, k) \<and>
     (\<forall>st. exec_all insts st = None)"
proof -
  let ?o = "Operand_init (RegisterOp 8) ''ah'' True False" and ?T = "X86TargetDesc_init vendor blocked allowed"
  let ?i = "demo_division name ?o" and ?C = "demo_conf False False"
  let ?dv = "Operand_init (RegisterOp 8) ''ah'' True True"
  have gp: "gp_register ''ah'' 8 ''A''" by code_simp
  have v: "op_class ?o = RegisterOp 8" "op_value ?o = ''ah''" "op_class ?dv = RegisterOp 8" "op_value ?dv = ''ah''"
    by code_simp+
  have i: "operands ?i = [?o]" "i_name ?i = name" "\<not> is_instrumentation ?i" "\<not> is_from_template ?i" "implicit_operands ?i = []"
    by (simp_all add: demo_division_def add_op_def Instruction_init_def)
  have dv: "copy_op_with_flow_modification ?o None (Some True) = Inr ?dv" by code_simp
  have kr: "is_reg ?o" "op_width ?dv = 8" "\<not> is_mem ?o" "\<not> is_mem ?dv"
    by (simp_all add: op_class_defs op_width_def v)
  have nomem: "\<not> has_mem_operand ?i True" using i(1,5) kr(3) by (simp add: has_mem_operand_def)
  have lo: "low_byte_operand ?T ?dv = Inr (Operand_init (RegisterOp 8) ''al'' True True)"
    unfolding X86TargetDesc_init_def low_byte_operand_def target_desc.simps by code_simp
  have zero: "\<exists>pre. prevent_div_by_zero ?T ?C ?i ?dv (slot_of ?i) = Inr ((slot_of ?i)\<lparr>sl_before := pre\<rparr>)"
  proof (cases "contains name ''idiv''")
    case False
    obtain x where "instrument ''or'' ?dv (ImmediateOp_init ''1'' 8) logic_flags = Inr x"
      by (rule instrumentE [OF logic_flags_length, of "''or''" ?dv "ImmediateOp_init ''1'' 8"])
    then show ?thesis using False by (simp add: prevent_div_by_zero_def demo_conf_def i(2) slot_insert_before_def slot_of_def)
  next
    case True
    obtain x where x: "instrument ''or'' ?dv (ImmediateOp_init ''0b1000'' 8) logic_flags = Inr x"
      by (rule instrumentE [OF logic_flags_length, of "''or''" ?dv "ImmediateOp_init ''0b1000'' 8"])
    obtain y where y: "instrument ''and'' (Operand_init (RegisterOp 8) ''al'' True True) (ImmediateOp_init ''0b11111000'' 8) logic_flags = Inr y"
      by (rule instrumentE [OF logic_flags_length, of "''and''" "Operand_init (RegisterOp 8) ''al'' True True" "ImmediateOp_init ''0b11111000'' 8"])
    show ?thesis using True
      by (simp add: prevent_div_by_zero_def demo_conf_def i(2) x y lo slot_insert_before_def slot_of_def)
  qed
  then obtain pre where pre: "prevent_div_by_zero ?T ?C ?i ?dv (slot_of ?i) = Inr ((slot_of ?i)\<lparr>sl_before := pre\<rparr>)" by blast
  let ?s1 = "(slot_of ?i)\<lparr>sl_before := pre\<rparr>"
  obtain m where m: "prevent_div_overflow ?i ?dv ?s1 = Inr (?s1\<lparr>sl_before := sl_before ?s1 @ [m]\<rparr>)"
    "operands m = [Operand_init (RegisterOp 16) ''ax'' False True, ImmediateOp_init ''1'' 16]" "i_name m = ''mov''"
    by (rule byte_overflowE [OF kr(2), of ?i ?s1]) (simp_all add: v(4) not_instrumentable_def)
  have div: "sandbox_division ?T ?C ?i (slot_of ?i) = Inr (?s1\<lparr>sl_before := sl_before ?s1 @ [m]\<rparr>)"
    using pre m(1) by (simp add: sandbox_division_def i(1) py_nth_def py_index_def dv kr demo_conf_def)
  then have run: "sandbox_block ?T ?C rnd [?i] k = Inr (slot_instructions (?s1\<lparr>sl_before := sl_before ?s1 @ [m]\<rparr>), k)"
    by (intro sandbox_block_division [OF _ i(3,4) _ _ div]) (use assms in \<open>simp_all add: i(2) nomem\<close>, simp add: slot_of_def)
  have tail: "exec_all [m, ?i] st = None" for st
  proof -
    have axv: "op_class (Operand_init (RegisterOp 16) ''ax'' False True) = RegisterOp 16" "op_value (Operand_init (RegisterOp 16) ''ax'' False True) = ''ax''"
      by code_simp+
    have pax: "plain (Operand_init (RegisterOp 16) ''ax'' False True)" by (simp add: plain_def axv high_bytes_def)
    obtain st' where st': "exec st m = Some st'" "take_bit 16 (st' (Reg ''A'')) = take_bit 16 1"
      by (rule exec_plainE [OF fixed_place_reg [OF fixed_registers(4) axv] pax m(2) imm_reads(1), where v = 1]) (simp_all add: m(3) alu_def)
    have "take_bit 8 (drop_bit 8 (st' (Reg ''A''))) = drop_bit 8 (take_bit 16 (st' (Reg ''A'')))"
      by (rule bit_eqI) (auto simp: bit_simps)
    then have "take_bit 8 (drop_bit 8 (st' (Reg ''A''))) = 0" using st'(2) by (simp add: drop_bit_eq_div)
    then have rd: "read_op st' ?o = Some 0"
      using RegisterOp_cell [OF gp v(1,2)] by (simp add: read_op_def v(2) high_bytes_def)
    have "exec st' ?i = None" using assms rd RegisterOp_cell(5) [OF gp v(1,2)]
      by (simp add: exec_def i(1,2) udivide_def sdivide_def signed_value_def Let_def)
    then show ?thesis by (simp add: st'(1))
  qed
  have "slot_instructions (?s1\<lparr>sl_before := sl_before ?s1 @ [m]\<rparr>) = pre @ [m, ?i]" by (simp add: slot_instructions_def slot_of_def)
  moreover have "exec_all (pre @ [m, ?i]) st = None" for st
    by (cases "exec_all pre st") (simp_all add: exec_all_append [of pre] tail del: exec_all.simps)
  ultimately show ?thesis using run by auto
qed

theorem division_by_ah_always_faults_witness:
  "\<exists>insts. sandbox_block (X86TargetDesc_init ''Intel'' [] []) (demo_conf False False) (\<lambda>_. 0)
       [demo_division ''div'' (Operand_init (RegisterOp 8) ''ah'' True False)] 0 = Inr (insts, 0) \<and>
     (\<forall>st. exec_all insts st = None)"
  by (rule division_by_ah_always_faults) simp

end
