(* ===== verification/X86Passes.thy ===== *)
theory X86Passes
  imports X86Division Actor
begin

unbundle bit_operations_syntax

text \<open>
  Model of the smaller instrumentation passes of \<^verbatim>\<open>rvzr/arch/x86/generator.py\<close>: the patch for bit scans of zero,
  the replacement of instructions by their opcodes, the pass that makes an access non-canonical and the pass
  that redirects accesses of user actors to kernel memory. Blocks are lists of instructions; a pass that only
  changes single nodes works on their slots. Random integers are a stream of draws with a counter; random
  numbers between zero and one are a stream of rationals.
\<close>

section \<open>Undefined results\<close>

definition bit_scan_mask :: "int \<Rightarrow> (string \<times> int) res" where
  "bit_scan_mask w =
     (if w < 1 then raise ValueError
      else ok (if w \<in> {64, 32} then (''0b1000000000000000000000000000000'', 32)
               else (bin_str (push_bit (nat (w - 1)) 1), w)))"

definition patch_bit_scan :: "Instruction \<Rightarrow> slot \<Rightarrow> slot res" where
  "patch_bit_scan i s =
     rbind (py_nth (operands i) 1) (\<lambda>src_operand.
       py_assert (is_reg src_operand \<or> is_mem src_operand)
         (rbind (copy_op_with_flow_modification src_operand None (Some True)) (\<lambda>source.
          rbind (bit_scan_mask (op_width source)) (\<lambda>(msk, mask_size).
          rbind (instrument ''or'' source (ImmediateOp_init msk mask_size) logic_flags) (\<lambda>x.
            ok (slot_insert_before x s))))))"

definition is_generated :: "Instruction \<Rightarrow> bool" where
  "is_generated i \<longleftrightarrow> \<not> is_instrumentation i \<and> \<not> is_from_template i"

definition undefined_result_block :: "Instruction list \<Rightarrow> Instruction list res" where
  "undefined_result_block insts =
     rbind (rmapM (\<lambda>i. if is_generated i \<and> i_name i \<in> {''bsf'', ''bsr''} then patch_bit_scan i (slot_of i) else ok (slot_of i)) insts)
       (\<lambda>ss. ok (block_instructions ss))"

section \<open>Opcodes\<close>

definition OPCODES :: "(string, string list) dict" where
  "OPCODES =
    [(''ud2'', [''0x0f, 0x0b'', ''0x06, 0x90'', ''0x07, 0x90'', ''0x0e, 0x90'', ''0x16, 0x90'', ''0x17, 0x90'',
      ''0x1e, 0x90'', ''0x1f, 0x90'', ''0x27, 0x90'', ''0x2f, 0x90'', ''0x37, 0x90'', ''0x3f, 0x90'', ''0x60, 0x90'',
      ''0x61, 0x90'', ''0x62, 0x90'', ''0x82, 0x90'', ''0x9a, 0x90'', ''0xc4, 0x90'', ''0xd4, 0x90'', ''0xd5, 0x90'',
      ''0xd6, 0x90'', ''0xea, 0x90'']),
     (''int1'', [''0xf1''])]"

definition opcodes_instrument :: "draws \<Rightarrow> nat \<Rightarrow> Instruction \<Rightarrow> slot \<Rightarrow> slot res" where
  "opcodes_instrument rnd k i s =
     rbind (dict_get OPCODES (i_name i)) (\<lambda>opcode_options.
     rbind (choice rnd k opcode_options) (\<lambda>opcode.
       ok (slot_delete (slot_insert_before
         (copy_inst_with_modification i (Some (''.byte '' @ opcode)) None None None None) s))))"

fun opcodes_slots :: "draws \<Rightarrow> nat \<Rightarrow> Instruction list \<Rightarrow> (slot list \<times> nat) res" where
  "opcodes_slots rnd k [] = ok ([], k)"
| "opcodes_slots rnd k (i # is) =
     (if is_generated i \<and> i_name i \<in> set (dict_keys OPCODES)
      then rbind (opcodes_instrument rnd k i (slot_of i)) (\<lambda>s.
           rbind (opcodes_slots rnd (Suc k) is) (\<lambda>(ss, k'). ok (s # ss, k')))
      else rbind (opcodes_slots rnd k is) (\<lambda>(ss, k'). ok (slot_of i # ss, k')))"

definition opcodes_block :: "draws \<Rightarrow> nat \<Rightarrow> Instruction list \<Rightarrow> (Instruction list \<times> nat) res" where
  "opcodes_block rnd k insts = rbind (opcodes_slots rnd k insts) (\<lambda>(ss, k'). ok (block_instructions ss, k'))"

section \<open>Non-canonical addresses\<close>

definition address_pieces :: "string \<Rightarrow> string list" where
  "address_pieces v = split_on (\<lambda>c. c \<in> {CHR ''+'', CHR ''-'', CHR ''*'', CHR '' ''}) v"

definition find_mask_register :: "target_desc \<Rightarrow> Operand list \<Rightarrow> string res" where
  "find_mask_register T src_operands =
     rfold (\<lambda>mask_reg reg.
         rbind (dict_get (td_reg_normalized T) mask_reg) (\<lambda>m.
         rbind (dict_get (td_reg_normalized T) reg) (\<lambda>r. ok (if m = r then ''rbx'' else mask_reg))))
       ''rax'' (concat (map (\<lambda>o1. address_pieces (op_value o1)) src_operands))"

definition find_offset_register :: "target_desc \<Rightarrow> Instruction \<Rightarrow> string res" where
  "find_offset_register T i =
     rfold (\<lambda>offset_reg o1.
         if \<not> is_reg o1 then ok offset_reg
         else rbind (dict_get (td_reg_normalized T) offset_reg) (\<lambda>m.
              rbind (dict_get (td_reg_normalized T) (op_value o1)) (\<lambda>r. ok (if m = r then ''rdx'' else offset_reg))))
       ''rcx'' (get_all_operands i)"

definition non_canonical_mask :: "draws \<Rightarrow> nat \<Rightarrow> nat" where
  "non_canonical_mask rnd k = push_bit 48 (take_bit 16 (rnd k))"

definition replace_mem :: "string \<Rightarrow> Operand \<Rightarrow> Operand" where
  "replace_mem r o1 = (if is_mem o1 then MemoryOp_init r (op_width o1) (op_src o1) (op_dest o1) else o1)"

definition non_canonical_instrument :: "target_desc \<Rightarrow> draws \<Rightarrow> nat \<Rightarrow> Instruction \<Rightarrow> slot \<Rightarrow> (slot \<times> nat) res" where
  "non_canonical_instrument T rnd k i s =
     (let src_operands = filter is_reg (get_src_operands i False);
          mem_operands = filter is_mem (operands i); implicit_mem = filter is_mem (implicit_operands i)
      in if mem_operands = [] \<or> implicit_mem \<noteq> [] then ok (s, k)
         else py_assert (length mem_operands = 1)
           (rbind (find_mask_register T src_operands) (\<lambda>mask_reg.
            rbind (find_offset_register T i) (\<lambda>offset_reg.
            rbind (RegisterOp_init offset_reg 64 False True) (\<lambda>off_w.
            rbind (RegisterOp_init offset_reg 64 True True) (\<lambda>off_rw.
            rbind (RegisterOp_init mask_reg 64 True True) (\<lambda>msk_rw.
            rbind (RegisterOp_init mask_reg 64 True False) (\<lambda>msk_r.
            rbind (instrument ''lea'' off_w (MemoryOp_init (op_value (hd mem_operands)) 64 True False) []) (\<lambda>lea.
            rbind (instrument ''mov'' msk_rw (ImmediateOp_init (hex (non_canonical_mask rnd k)) 64) []) (\<lambda>mov.
            rbind (instrument ''xor'' off_rw msk_r []) (\<lambda>x.
              ok ((slot_insert_before x (slot_insert_before mov (slot_insert_before lea s)))
                   \<lparr>sl_inst := Some (i\<lparr>operands := map (replace_mem offset_reg) (operands i)\<rparr>)\<rparr>, Suc k))))))))))))"

definition non_canonical_candidate :: "Instruction \<Rightarrow> bool" where
  "non_canonical_candidate i \<longleftrightarrow> is_generated i \<and> i_name i \<notin> {''div'', ''idiv''} \<and> has_mem_operand i True"

text \<open>
  Each candidate is chosen with one draw among its block; the first one chosen in the whole test case ends
  the pass. The flag says whether it has ended.
\<close>

fun non_canonical_nodes ::
  "target_desc \<Rightarrow> draws \<Rightarrow> nat \<Rightarrow> nat \<Rightarrow> Instruction list \<Rightarrow> (slot list \<times> nat \<times> bool) res" where
  "non_canonical_nodes T rnd n k [] = ok ([], k, False)"
| "non_canonical_nodes T rnd n k (i # is) =
     (if non_canonical_candidate i
      then (if randint rnd k 0 n = 0
            then rbind (non_canonical_instrument T rnd (Suc k) i (slot_of i)) (\<lambda>(s, k').
                   ok (s # map slot_of is, k', True))
            else rbind (non_canonical_nodes T rnd n (Suc k) is) (\<lambda>(ss, k', e). ok (slot_of i # ss, k', e)))
      else rbind (non_canonical_nodes T rnd n k is) (\<lambda>(ss, k', e). ok (slot_of i # ss, k', e)))"

fun non_canonical_pass ::
  "target_desc \<Rightarrow> draws \<Rightarrow> nat \<Rightarrow> Instruction list list \<Rightarrow> (Instruction list list \<times> nat) res" where
  "non_canonical_pass T rnd k [] = ok ([], k)"
| "non_canonical_pass T rnd k (insts # blocks) =
     rbind (non_canonical_nodes T rnd (length (filter non_canonical_candidate insts)) k insts) (\<lambda>(ss, k', e).
       if e then ok (block_instructions ss # blocks, k')
       else rbind (non_canonical_pass T rnd k' blocks) (\<lambda>(rest, k''). ok (block_instructions ss # rest, k'')))"

section \<open>Accesses to kernel memory\<close>

definition u2k_offset :: "nat \<Rightarrow> int res" where
  "u2k_offset owner_id =
     rbind (SandboxLayout_init (0, 0) owner_id) (\<lambda>layout.
     rbind (get_data_addr layout DA_MAIN (int owner_id)) (\<lambda>user_main_start.
     rbind (get_data_addr layout DA_FAULTY 0) (\<lambda>kernel_faulty_start.
       ok (user_main_start - kernel_faulty_start))))"

definition reduce_mask :: "Operand \<Rightarrow> Operand res" where
  "reduce_mask o1 =
     (if \<not> is_imm o1 then ok o1
      else rbind (int_base0 (op_value o1)) (\<lambda>mask_value.
        ok (o1\<lparr>op_value := bin_str (if PAGE_SIZE < mask_value then mask_value mod PAGE_SIZE else mask_value)\<rparr>)))"

text \<open>The instrumentation directly in front of a node, from the node backwards.\<close>

fun reduce_masks_before :: "Instruction list \<Rightarrow> Instruction list res" where
  "reduce_masks_before [] = ok []"
| "reduce_masks_before (i # is) =
     (if is_instrumentation i
      then rbind (rmapM reduce_mask (operands i)) (\<lambda>os.
           rbind (reduce_masks_before is) (\<lambda>is'. ok (i\<lparr>operands := os\<rparr> # is')))
      else ok (i # is))"

fun add_offset_to_mem :: "nat \<Rightarrow> string \<Rightarrow> Operand list \<Rightarrow> Operand list" where
  "add_offset_to_mem j v [] = []"
| "add_offset_to_mem j v (o1 # os) =
     (if is_mem o1
      then (if j = 0 then o1\<lparr>op_value := op_value o1 @ v\<rparr> # os else o1 # add_offset_to_mem (j - 1) v os)
      else o1 # add_offset_to_mem j v os)"

text \<open>One node of a block, at position \<open>p\<close>.\<close>

definition u2k_instrument :: "draws \<Rightarrow> nat \<Rightarrow> nat \<Rightarrow> Instruction list \<Rightarrow> nat \<Rightarrow> (Instruction list \<times> nat) res" where
  "u2k_instrument rnd k owner_id insts p =
     rbind (u2k_offset owner_id) (\<lambda>offset.
     rbind (py_nth insts (int p)) (\<lambda>i.
       let n = length (filter is_mem (operands i)); j = (if n = 1 then 0 else rnd k mod n);
           i' = i\<lparr>operands := add_offset_to_mem j ('' - '' @ str_int offset) (operands i)\<rparr>
       in if n = 0 then raise IndexError
          else rbind (reduce_masks_before (rev (take p insts))) (\<lambda>before.
            ok (rev before @ i' # drop (Suc p) insts, if n = 1 then k else Suc k))))"

definition u2k_candidate :: "Instruction \<Rightarrow> bool" where
  "u2k_candidate i \<longleftrightarrow> is_generated i \<and> i_name i \<notin> {''div'', ''idiv''} \<and> has_mem_operand i False"

record u2k_state =
  u_blocks :: "Instruction list list"
  u_draws :: nat
  u_floats :: nat

text \<open>One node of the list of nodes to instrument: the block and the position in it.\<close>

definition u2k_node ::
  "(nat \<Rightarrow> rat) \<Rightarrow> rat \<Rightarrow> draws \<Rightarrow> nat \<Rightarrow> u2k_state \<Rightarrow> nat \<times> nat \<Rightarrow> u2k_state res" where
  "u2k_node rndf avg_mem_accesses rnd owner_id u bp =
     (let u' = u\<lparr>u_floats := Suc (u_floats u)\<rparr>
      in if avg_mem_accesses = 0 then raise ZeroDivisionError
         else if rndf (u_floats u) > 1 / avg_mem_accesses then ok u'
         else rbind (py_nth (u_blocks u) (int (fst bp))) (\<lambda>insts.
              rbind (u2k_instrument rnd (u_draws u) owner_id insts (snd bp)) (\<lambda>(insts', k').
                ok (u'\<lparr>u_blocks := (u_blocks u)[fst bp := insts'], u_draws := k'\<rparr>))))"

text \<open>
  The blocks of a function: the nodes of a block are added to the list of nodes, and then every node of the
  list is treated. The list is not cleared between the blocks.
\<close>

definition u2k_block ::
  "(nat \<Rightarrow> rat) \<Rightarrow> rat \<Rightarrow> draws \<Rightarrow> nat \<Rightarrow> (nat \<times> nat) list \<times> u2k_state \<Rightarrow> nat \<Rightarrow> ((nat \<times> nat) list \<times> u2k_state) res" where
  "u2k_block rndf avg rnd owner_id tu b =
     (case tu of (to_instrument, u) \<Rightarrow>
        let insts = u_blocks u ! b;
            to_instrument' = to_instrument @ map (\<lambda>p. (b, p)) (filter (\<lambda>p. u2k_candidate (insts ! p)) [0..<length insts])
        in rbind (rfold (u2k_node rndf avg rnd owner_id) u to_instrument') (\<lambda>u'. ok (to_instrument', u')))"

definition u2k_function ::
  "(nat \<Rightarrow> rat) \<Rightarrow> rat \<Rightarrow> draws \<Rightarrow> nat \<Rightarrow> u2k_state \<Rightarrow> u2k_state res" where
  "u2k_function rndf avg rnd owner_id u =
     rbind (rfold (u2k_block rndf avg rnd owner_id) ([], u) [0..<length (u_blocks u)]) (\<lambda>tu. ok (snd tu))"

text \<open>All sections, each with the privilege level of its owner and the blocks of its functions.\<close>

fun u2k_functions ::
  "(nat \<Rightarrow> rat) \<Rightarrow> rat \<Rightarrow> draws \<Rightarrow> nat \<Rightarrow> nat \<times> nat \<Rightarrow> Instruction list list list \<Rightarrow>
   (Instruction list list list \<times> nat \<times> nat) res" where
  "u2k_functions rndf avg rnd sec_id ks [] = ok ([], ks)"
| "u2k_functions rndf avg rnd sec_id ks (f # fs) =
     rbind (u2k_function rndf avg rnd sec_id \<lparr>u_blocks = f, u_draws = fst ks, u_floats = snd ks\<rparr>) (\<lambda>u.
     rbind (u2k_functions rndf avg rnd sec_id (u_draws u, u_floats u) fs) (\<lambda>(fs', ks'). ok (u_blocks u # fs', ks')))"

fun u2k_pass ::
  "(nat \<Rightarrow> rat) \<Rightarrow> rat \<Rightarrow> draws \<Rightarrow> nat \<Rightarrow> nat \<times> nat \<Rightarrow> (ActorPL \<times> Instruction list list list) list \<Rightarrow>
   ((ActorPL \<times> Instruction list list list) list \<times> nat \<times> nat) res" where
  "u2k_pass rndf avg rnd sec_id ks [] = ok ([], ks)"
| "u2k_pass rndf avg rnd sec_id ks ((pl, fs) # secs) =
     (if pl \<noteq> USER then rbind (u2k_pass rndf avg rnd (Suc sec_id) ks secs) (\<lambda>(ss, ks'). ok ((pl, fs) # ss, ks'))
      else rbind (u2k_functions rndf avg rnd sec_id ks fs) (\<lambda>(fs', ks').
           rbind (u2k_pass rndf avg rnd (Suc sec_id) ks' secs) (\<lambda>(ss, ks''). ok ((pl, fs') # ss, ks''))))"

section \<open>Addresses with offsets\<close>

lemma no_number_register: "map_of x86_reg_normalized (str_nat n) = None"
proof -
  have t: "list_all (\<lambda>(r, _). list_ex (\<lambda>c. \<not> is_digit c) r) x86_reg_normalized" by code_simp
  show ?thesis
  proof (rule ccontr)
    assume "map_of x86_reg_normalized (str_nat n) \<noteq> None"
    then obtain m where "(str_nat n, m) \<in> set x86_reg_normalized" by (auto dest: map_of_SomeD)
    then show False using t str_nat_is_digit by (fastforce simp: list_all_iff list_ex_iff)
  qed
qed

lemma str_nat_no_sign: "str_nat n \<noteq> ''+''" "str_nat n \<noteq> ''-''"
proof -
  have "c \<in> set (str_nat n) \<Longrightarrow> c \<noteq> CHR ''+'' \<and> c \<noteq> CHR ''-''" for c
    using str_nat_is_digit [of c n] by (auto simp: is_digit_def)
  then show "str_nat n \<noteq> ''+''" "str_nat n \<noteq> ''-''" by (metis list.set_intros(1))+
qed

abbreviation is_blank :: "char \<Rightarrow> bool" where
  "is_blank \<equiv> (\<lambda>c. c = CHR '' '')"

lemma split_on_offsets:
  assumes "\<forall>c \<in> set x. \<not> is_blank c" and "\<forall>c \<in> set s. \<not> is_blank c"
  shows "split_on is_blank (x @ concat (replicate m ('' - '' @ s))) = x # concat (replicate m [''-'', s])"
  using assms(1)
proof (induction m arbitrary: x)
  case 0
  then show ?case by (simp add: split_on_none)
next
  case (Suc m)
  have "split_on is_blank (x @ CHR '' '' # ''-'' @ CHR '' '' # s @ concat (replicate m ('' - '' @ s))) =
      x # ''-'' # split_on is_blank (s @ concat (replicate m ('' - '' @ s)))"
    using split_on_append [of x is_blank "CHR '' ''"] split_on_append [of "''-''" is_blank "CHR '' ''"] Suc.prems by simp
  also have "\<dots> = x # ''-'' # s # concat (replicate m [''-'', s])" by (simp add: Suc.IH [OF assms(2)] del: append.simps)
  finally show ?case by simp
qed

lemma ea_terms_offsets:
  "ea_terms st sg (concat (replicate m [''-'', str_nat n])) = Some (- int m * int n)"
proof (induction m arbitrary: sg)
  case (Suc m)
  then show ?case
    using str_nat_no_sign [of n] by (simp add: no_number_register int_base0_str_nat algebra_simps)
qed simp

lemma ea_offsets:
  assumes "gp_register r 64 n"
  shows "ea st (''r14 + '' @ r @ concat (replicate m ('' - '' @ str_nat k))) =
     Some (nat ((int (reg_value st ''14'') + int (reg_value st n) - int m * int k) mod 2 ^ 64))"
proof -
  have "name_facts (r, n)" "n \<in> set gp_names" using assms name_factsD by (auto simp: gp_register_def)
  then have sp: "\<forall>c \<in> set r. \<not> is_blank c" and ops: "r \<noteq> ''+''" "r \<noteq> ''-''"
    by (auto simp: name_facts_def list_all_iff)
  have dg: "\<forall>c \<in> set (str_nat k). \<not> is_blank c" using str_nat_is_digit by (fastforce simp: is_digit_def)
  have "split_on is_blank (''r14 + '' @ r @ concat (replicate m ('' - '' @ str_nat k))) =
      [''r14'', ''+'', r] @ concat (replicate m [''-'', str_nat k])"
    using split_on_offsets [OF sp dg, of m] by simp
  moreover have "map_of x86_reg_normalized ''r14'' = Some ''14''" using fixed_registers(5) by (simp add: gp_register_def)
  moreover have "map_of x86_reg_normalized r = Some n" using assms by (simp add: gp_register_def)
  ultimately show ?thesis using ops by (simp add: ea_def ea_terms_offsets algebra_simps)
qed

section \<open>Where redirected accesses go\<close>

lemma u2k_offset_eq: "u2k_offset owner_id = Inr (16384 * int owner_id - 4096)"
  by (simp add: u2k_offset_def SandboxLayout_init_ok get_data_addr_eq layout_simps)

definition page_mask :: "nat \<Rightarrow> string" where
  "page_mask z = bin_str (4096 - 2 ^ z)"

lemma lower_bin_str: "0 \<le> n \<Longrightarrow> lower (bin_str n) = bin_str n"
proof -
  have "lower (bin_digits m) = bin_digits m" for m
  proof (induction m rule: bin_digits.induct)
    case (1 m)
    have "m mod 2 < 2" by simp
    then have "lower [hex_digit (m mod 2)] = [hex_digit (m mod 2)]" "m < 2 \<Longrightarrow> lower [hex_digit m] = [hex_digit m]"
      by (simp_all add: lower_def lower_char_def hex_digit_def)
    with 1 show ?case by (simp add: bin_digits.simps [of m] lower_def)
  qed
  then show "0 \<le> n \<Longrightarrow> lower (bin_str n) = bin_str n" by (simp add: bin_str_def lower_def lower_char_def)
qed

lemma mask_facts:
  "list_all (\<lambda>z. lower (mask_string z) = mask_string z \<and> int_base0 (mask_string z) = Inr (8192 - 2 ^ z) \<and>
     PAGE_SIZE < (8192 - 2 ^ z) \<and> (8192 - 2 ^ z) mod PAGE_SIZE = 4096 - 2 ^ z \<and> \<not> PAGE_SIZE < (4096 - 2 ^ z)) [0, 3, 4, 5]"
  by code_simp

lemma page_mask_value:
  assumes "z \<in> {0, 3, 4, 5 :: nat}"
  shows "lower (page_mask z) = page_mask z" and "int_base0 (page_mask z) = Inr (4096 - 2 ^ z)"
proof -
  have "(0 :: int) \<le> 4096 - 2 ^ z" using assms by auto
  then show "lower (page_mask z) = page_mask z" "int_base0 (page_mask z) = Inr (4096 - 2 ^ z)"
    unfolding page_mask_def by (rule lower_bin_str, intro int_base0_bin_str)
qed

text \<open>Both masks, the one of the sandbox pass and the reduced one, are reduced to one page.\<close>

lemma reduce_mask_page:
  assumes "z \<in> {0, 3, 4, 5 :: nat}" and "x \<in> {mask_string z, page_mask z}"
  shows "reduce_mask (ImmediateOp_init x k) = Inr (ImmediateOp_init (page_mask z) k)"
proof -
  have z: "lower (page_mask z) = page_mask z" "lower (mask_string z) = mask_string z" "int_base0 (mask_string z) = Inr (8192 - 2 ^ z)"
    "int_base0 (page_mask z) = Inr (4096 - 2 ^ z)" "PAGE_SIZE < (8192 - 2 ^ z)" "(8192 - 2 ^ z) mod PAGE_SIZE = 4096 - 2 ^ z"
    "\<not> PAGE_SIZE < (4096 - 2 ^ z)"
    using assms(1) mask_facts page_mask_value [OF assms(1)] by auto
  then show ?thesis
    using assms(2) by (auto simp: reduce_mask_def ImmediateOp_init_def Operand_init_def is_imm_def page_mask_def)
qed

lemma add_offset_first:
  "filter is_mem os = [o1] \<Longrightarrow> add_offset_to_mem 0 v (set_first_mem a os) = set_first_mem (a @ v) os"
  by (induction os) (auto simp: is_mem_def split: if_splits op_class.splits)

text \<open>The instruction with the redirecting offset applied \<open>m\<close> times, behind its mask.\<close>

definition redirected :: "nat \<Rightarrow> nat \<Rightarrow> Instruction \<Rightarrow> string \<Rightarrow> Instruction" where
  "redirected m d i v = i\<lparr>operands := set_first_mem (''r14 + '' @ v @ concat (replicate m ('' - '' @ str_nat d))) (operands i)\<rparr>"

definition masked_by :: "Instruction \<Rightarrow> string \<Rightarrow> int \<Rightarrow> string \<Rightarrow> Instruction" where
  "masked_by am v k x = am\<lparr>operands := [Operand_init (RegisterOp 64) v True True, ImmediateOp_init x k]\<rparr>"

lemma replicate_snoc_concat: "concat (replicate m x) @ x = concat (replicate (Suc m) x)"
  by (induction m) auto

lemma u2k_instrument_step:
  assumes "filter is_mem (operands i) = [o1]" and "is_instrumentation am" and "z \<in> {0, 3, 4, 5}"
    and "x \<in> {mask_string z, page_mask z}" and "1 \<le> owner"
  shows "u2k_instrument rnd k owner [masked_by am v iw x, redirected m (16384 * owner - 4096) i v] 1 =
     Inr ([masked_by am v iw (page_mask z), redirected (Suc m) (16384 * owner - 4096) i v], k)"
proof -
  let ?r = "redirected m (16384 * owner - 4096) i v"
  have off: "str_int (16384 * int owner - 4096) = str_nat (16384 * owner - 4096)"
  proof -
    have "nat (16384 * int owner - 4096) = 16384 * owner - 4096" by linarith
    then show ?thesis using assms(5) by (simp add: str_int_def)
  qed
  have one: "length (filter is_mem (operands ?r)) = 1"
    using filter_set_first_mem [OF assms(1)] by (simp add: redirected_def)
  have nreg: "reduce_mask (Operand_init (RegisterOp 64) v True True) = Inr (Operand_init (RegisterOp 64) v True True)"
    by (simp add: reduce_mask_def is_imm_def Operand_init_def)
  have before: "reduce_masks_before [masked_by am v iw x] = Inr [masked_by am v iw (page_mask z)]"
    using assms(2) by (simp add: masked_by_def nreg reduce_mask_page [OF assms(3,4)])
  have add: "?r\<lparr>operands := add_offset_to_mem 0 ('' - '' @ str_nat (16384 * owner - 4096)) (operands ?r)\<rparr> =
      redirected (Suc m) (16384 * owner - 4096) i v"
    using add_offset_first [OF assms(1)] replicate_snoc_concat [of m "'' - '' @ str_nat (16384 * owner - 4096)"]
    by (simp add: redirected_def)
  show ?thesis
    unfolding u2k_instrument_def u2k_offset_eq rbind_Inr off Let_def
    using one before add by (auto simp: py_nth_def py_index_def simp del: reduce_masks_before.simps)
qed

text \<open>The address of the access when the mask in front of it was executed.\<close>

lemma redirected_address:
  assumes "gp_register v 64 n" and "n \<noteq> ''14''" and "filter is_mem (operands i) = [o1]" and "i_name am = ''and''"
    and "z \<in> {0, 3, 4, 5}"
  obtains st' off o' where "exec st (masked_by am v iw (page_mask z)) = Some st'" and "off < 4096"
    and "filter is_mem (operands (redirected m d i v)) = [o']"
    and "ea st' (op_value o') = Some (nat ((int (reg_value st ''14'') + int off - int m * int d) mod 2 ^ 64))"
proof -
  have z: "int_base0 (lower (page_mask z)) = Inr (4096 - 2 ^ z)" and le: "(1 :: nat) \<le> 2 ^ z" "(2 :: nat) ^ z \<le> 32"
    using assms(5) page_mask_value [OF assms(5)] by auto
  have "int (4096 - 2 ^ z) = 4096 - 2 ^ z" using le(2) by (simp add: of_nat_diff)
  with z have zn: "int_base0 (lower (page_mask z)) = Inr (int (4096 - 2 ^ z))" by simp
  have nm: "i_name (masked_by am v iw (page_mask z)) = ''and''" using assms(4) by (simp add: masked_by_def)
  have opm: "operands (masked_by am v iw (page_mask z)) = [Operand_init (RegisterOp 64) v True True, ImmediateOp_init (page_mask z) iw]"
    by (simp add: masked_by_def)
  have lt: "(4096 :: nat) - 2 ^ z < 2 ^ 64" using le by simp
  obtain st' where st': "exec st (masked_by am v iw (page_mask z)) = Some st'" "\<And>c. c \<noteq> Reg n \<Longrightarrow> st' c = st c"
    "reg_value st' n = reg_value st n AND (4096 - 2 ^ z)"
    by (rule exec_and_maskE [where st = st, OF assms(1) opm nm zn lt]) (rule that, assumption+)
  define off where "off = reg_value st n AND (4096 - 2 ^ z)"
  have off: "off < 4096" unfolding off_def by (rule le_less_trans [OF nat_and_le]) (use le(1) in linarith)
  have "filter is_mem (operands (redirected m d i v)) =
      [o1\<lparr>op_value := ''r14 + '' @ v @ concat (replicate m ('' - '' @ str_nat d))\<rparr>]"
    using filter_set_first_mem [OF assms(3)] by (simp add: redirected_def)
  moreover have "reg_value st' ''14'' = reg_value st ''14''" using st'(2) assms(2) by (simp add: reg_value_def)
  ultimately show ?thesis
    using that [OF st'(1) off] ea_offsets [OF assms(1), of st' m d] st'(3) by (simp add: off_def)
qed

lemma sandboxed_slot:
  assumes "filter is_mem (operands i) = [o1]" and "filter is_mem (implicit_operands i) = []" and "gp_register (op_value o1) 64 n"
  obtains s am z where "sandbox_memory_access T C i (slot_of i) = Inr s" and "z \<in> {0, 3, 4, 5}" and "i_name am = ''and''"
    and "is_instrumentation am" and "slot_instructions s = [masked_by am (op_value o1) (imm_width_of o1) (mask_string z), redirected 0 d i (op_value o1)]"
proof (rule sandbox_memory_access_textE [OF assms, of T C "slot_of i"])
  fix am z
  let ?s = "(slot_of i)\<lparr>sl_before := sl_before (slot_of i) @ [am],
     sl_inst := Some (i\<lparr>operands := set_first_mem (''r14 + '' @ op_value o1) (operands i)\<rparr>)\<rparr>"
  assume r: "sandbox_memory_access T C i (slot_of i) = Inr ?s" and z: "z \<in> {0, 3, 4, 5}" "i_name am = ''and''" "is_instrumentation am"
    and o: "operands am = [Operand_init (RegisterOp 64) (op_value o1) True True, ImmediateOp_init (mask_string z) (imm_width_of o1)]"
  have "masked_by am (op_value o1) (imm_width_of o1) (mask_string z) = am" using o by (simp add: masked_by_def)
  then have "slot_instructions ?s = [masked_by am (op_value o1) (imm_width_of o1) (mask_string z), redirected 0 d i (op_value o1)]"
    by (simp add: slot_instructions_def slot_of_def redirected_def)
  with r z show thesis by (rule that)
qed

text \<open>
  C37: A redirected access goes to the kernel. Take a memory access of a user actor that the sandbox pass has
  treated, and let the pass for kernel accesses treat it once: when the masks in front of it are executed,
  whatever the index register held, the address lies in the faulty page of the first actor.
\<close>
theorem redirected_access_hits_kernel_page:
  assumes "filter is_mem (operands i) = [o1]" and "filter is_mem (implicit_operands i) = []"
    and "gp_register (op_value o1) 64 n" and "n \<noteq> ''14''" and "1 \<le> owner"
    and "get_data_addr l DA_MAIN (int owner) = Inr base" and "reg_value st ''14'' = nat base" and "0 \<le> data_start l"
    and "base + 8192 \<le> 2 ^ 64"
  shows "\<exists>s am i' o' st' a. sandbox_memory_access T C i (slot_of i) = Inr s \<and>
     u2k_instrument rnd k owner (slot_instructions s) 1 = Inr ([am, i'], k) \<and>
     exec st am = Some st' \<and> filter is_mem (operands i') = [o'] \<and> ea st' (op_value o') = Some a \<and>
     addr_in_area l DA_FAULTY 0 (int a)"
proof -
  let ?d = "16384 * owner - 4096"
  obtain s am z where s: "sandbox_memory_access T C i (slot_of i) = Inr s" "z \<in> {0, 3, 4, 5}" "i_name am = ''and''"
    "is_instrumentation am" "slot_instructions s = [masked_by am (op_value o1) (imm_width_of o1) (mask_string z), redirected 0 ?d i (op_value o1)]"
    by (rule sandboxed_slot [OF assms(1-3), of T C ?d])
  have u: "u2k_instrument rnd k owner (slot_instructions s) 1 =
      Inr ([masked_by am (op_value o1) (imm_width_of o1) (page_mask z), redirected (Suc 0) ?d i (op_value o1)], k)"
    unfolding s(5) by (rule u2k_instrument_step [OF assms(1) s(4,2) _ assms(5)]) simp
  obtain st' off o' where e: "exec st (masked_by am (op_value o1) (imm_width_of o1) (page_mask z)) = Some st'" "off < 4096"
    "filter is_mem (operands (redirected (Suc 0) ?d i (op_value o1))) = [o']"
    "ea st' (op_value o') = Some (nat ((int (reg_value st ''14'') + int off - int (Suc 0) * int ?d) mod 2 ^ 64))"
    by (rule redirected_address [OF assms(3,4,1) s(3,2), of st "imm_width_of o1" "Suc 0" ?d])
  have base: "base = data_start l + int owner * 16384 + 4096" using assms(6) by (simp add: get_data_addr_eq)
  then have "int (reg_value st ''14'') + int off - int (Suc 0) * int ?d = data_start l + 8192 + int off"
    using assms(5,7,8) by (simp add: of_nat_diff)
  moreover have "(data_start l + 8192 + int off) mod 2 ^ 64 = data_start l + 8192 + int off"
    using base assms(5,8,9) e(2) by (intro mod_pos_pos_trivial) auto
  ultimately have ea: "ea st' (op_value o') = Some (nat (data_start l + 8192 + int off))" using e(4) by simp
  have "addr_in_area l DA_FAULTY 0 (int (nat (data_start l + 8192 + int off)))"
    using assms(8) e(2) by (simp add: addr_in_area_iff in_area_simps)
  then show ?thesis using s(1) u e(1,3) ea by blast
qed

text \<open>
  C38: The list of nodes is not cleared between the blocks of a function, so a node of an earlier block is treated
  again for each later block. With one more block, even an empty one, the offset is subtracted twice, and the
  access misses the sandbox: it lands below the data of the first actor.
\<close>
theorem redirected_twice_leaves_sandbox:
  assumes "filter is_mem (operands i) = [o1]" and "filter is_mem (implicit_operands i) = []"
    and "gp_register (op_value o1) 64 n" and "n \<noteq> ''14''" and "1 \<le> owner" and "u2k_candidate i"
    and "get_data_addr l DA_MAIN (int owner) = Inr base" and "reg_value st ''14'' = nat base" and "16384 * int owner \<le> data_start l"
    and "base + 8192 \<le> 2 ^ 64" and "0 < avg"
  shows "\<exists>s am i' o' st' a f. sandbox_memory_access T C i (slot_of i) = Inr s \<and>
     u2k_function (\<lambda>_. 0) avg rnd owner \<lparr>u_blocks = [slot_instructions s, []], u_draws = k, u_floats = 0\<rparr> =
       Inr \<lparr>u_blocks = [[am, i'], []], u_draws = k, u_floats = f\<rparr> \<and>
     exec st am = Some st' \<and> filter is_mem (operands i') = [o'] \<and> ea st' (op_value o') = Some a \<and>
     int a < data_start l \<and> \<not> is_data_addr l (int a)"
proof -
  let ?d = "16384 * owner - 4096" and ?v = "op_value o1" and ?w = "imm_width_of o1"
  obtain s am z where s: "sandbox_memory_access T C i (slot_of i) = Inr s" "z \<in> {0, 3, 4, 5}" "i_name am = ''and''"
    "is_instrumentation am" "slot_instructions s = [masked_by am ?v ?w (mask_string z), redirected 0 ?d i ?v]"
    by (rule sandboxed_slot [OF assms(1-3), of T C ?d])
  have u1: "u2k_instrument rnd k owner [masked_by am ?v ?w (mask_string z), redirected 0 ?d i ?v] (Suc 0) =
      Inr ([masked_by am ?v ?w (page_mask z), redirected (Suc 0) ?d i ?v], k)"
    using u2k_instrument_step [OF assms(1) s(4,2) _ assms(5), of "mask_string z" rnd k ?v ?w 0] by simp
  have u2: "u2k_instrument rnd k owner [masked_by am ?v ?w (page_mask z), redirected (Suc 0) ?d i ?v] (Suc 0) =
      Inr ([masked_by am ?v ?w (page_mask z), redirected (Suc (Suc 0)) ?d i ?v], k)"
    using u2k_instrument_step [OF assms(1) s(4,2) _ assms(5), of "page_mask z" rnd k ?v ?w "Suc 0"] by simp
  have c1: "\<not> u2k_candidate (masked_by am ?v ?w (mask_string z))"
    using s(4) by (simp add: u2k_candidate_def is_generated_def masked_by_def)
  have c2: "u2k_candidate (redirected 0 ?d i ?v)"
  proof -
    have "list_ex is_mem (operands (redirected 0 ?d i ?v))"
      using filter_set_first_mem [OF assms(1)] by (simp add: list_ex_filter redirected_def)
    then show ?thesis using assms(6) by (simp add: u2k_candidate_def is_generated_def has_mem_operand_def redirected_def)
  qed
  have prob: "\<not> (0 :: rat) > 1 / avg" "avg \<noteq> 0" using assms(11) by auto
  have fn: "u2k_function (\<lambda>_. 0) avg rnd owner \<lparr>u_blocks = [slot_instructions s, []], u_draws = k, u_floats = 0\<rparr> =
      Inr \<lparr>u_blocks = [[masked_by am ?v ?w (page_mask z), redirected (Suc (Suc 0)) ?d i ?v], []], u_draws = k, u_floats = 2\<rparr>"
    unfolding u2k_function_def s(5)
    using prob c1 c2 by (simp add: u2k_block_def u2k_node_def py_nth_def py_index_def u1 u2 numeral_2_eq_2 upt_rec [of 0] upt_rec [of "Suc 0"])
  obtain st' off o' where e: "exec st (masked_by am ?v ?w (page_mask z)) = Some st'" "off < 4096"
    "filter is_mem (operands (redirected (Suc (Suc 0)) ?d i ?v)) = [o']"
    "ea st' (op_value o') = Some (nat ((int (reg_value st ''14'') + int off - int (Suc (Suc 0)) * int ?d) mod 2 ^ 64))"
    by (rule redirected_address [OF assms(3,4,1) s(3,2), of st ?w "Suc (Suc 0)" ?d])
  let ?a = "data_start l + 12288 + int off - 16384 * int owner"
  have base: "base = data_start l + int owner * 16384 + 4096" using assms(7) by (simp add: get_data_addr_eq)
  then have "int (reg_value st ''14'') + int off - int (Suc (Suc 0)) * int ?d = ?a"
    using assms(5,8,9) by (simp add: of_nat_diff)
  moreover have "?a mod 2 ^ 64 = ?a"
    using base assms(5,9,10) e(2) by (intro mod_pos_pos_trivial) auto
  ultimately have ea: "ea st' (op_value o') = Some (nat ?a)" using e(4) by simp
  have lt: "int (nat ?a) < data_start l" using assms(5,9) e(2) by simp
  then have "\<not> is_data_addr l (int (nat ?a))" by (simp add: is_data_addr_def)
  then show ?thesis using s(1) fn e(1,3) ea lt by blast
qed

lemma demo_load_facts:
  "filter is_mem (operands demo_load) = [MemoryOp_init ''rbx'' 256 True False]"
  "filter is_mem (implicit_operands demo_load) = []"
  "gp_register (op_value (MemoryOp_init ''rbx'' 256 True False)) 64 ''B''" "''B'' \<noteq> ''14''" "u2k_candidate demo_load"
  "get_data_addr demo_layout DA_MAIN (int 1) = Inr 86016" "reg_value (demo_machine 86016) ''14'' = nat 86016"
  "data_start demo_layout = 65536"
proof -
  show "filter is_mem (operands demo_load) = [MemoryOp_init ''rbx'' 256 True False]"
    "filter is_mem (implicit_operands demo_load) = []" "u2k_candidate demo_load"
    by (simp_all add: demo_load_def add_op_def Instruction_init_def MemoryOp_init_def Operand_init_def is_mem_def
        u2k_candidate_def is_generated_def has_mem_operand_def)
  have v: "op_value (MemoryOp_init ''rbx'' 256 True False) = ''rbx''" by code_simp
  show "gp_register (op_value (MemoryOp_init ''rbx'' 256 True False)) 64 ''B''" unfolding v by code_simp
  show "get_data_addr demo_layout DA_MAIN (int 1) = Inr 86016" "data_start demo_layout = 65536"
    by (simp_all add: get_data_addr_eq demo_layout_def SandboxLayout_init_ok layout_simps)
  show "reg_value (demo_machine 86016) ''14'' = nat 86016"
    by (simp add: reg_value_def demo_machine_def take_bit_eq_mod)
qed simp

theorem redirected_access_hits_kernel_page_witness:
  "\<exists>s am i' o' st' a.
     sandbox_memory_access (X86TargetDesc_init ''Intel'' [] []) (demo_conf False False) demo_load (slot_of demo_load) = Inr s \<and>
     u2k_instrument (\<lambda>_. 0) 0 1 (slot_instructions s) 1 = Inr ([am, i'], 0) \<and>
     exec (demo_machine 86016) am = Some st' \<and> filter is_mem (operands i') = [o'] \<and> ea st' (op_value o') = Some a \<and>
     addr_in_area demo_layout DA_FAULTY 0 (int a)"
  by (rule redirected_access_hits_kernel_page [OF demo_load_facts(1-4) _ demo_load_facts(6,7)]) (simp_all add: demo_load_facts(8))

theorem redirected_twice_leaves_sandbox_witness:
  "\<exists>s am i' o' st' a f.
     sandbox_memory_access (X86TargetDesc_init ''Intel'' [] []) (demo_conf False False) demo_load (slot_of demo_load) = Inr s \<and>
     u2k_function (\<lambda>_. 0) 12 (\<lambda>_. 0) 1 \<lparr>u_blocks = [slot_instructions s, []], u_draws = 0, u_floats = 0\<rparr> =
       Inr \<lparr>u_blocks = [[am, i'], []], u_draws = 0, u_floats = f\<rparr> \<and>
     exec (demo_machine 86016) am = Some st' \<and> filter is_mem (operands i') = [o'] \<and> ea st' (op_value o') = Some a \<and>
     int a < data_start demo_layout \<and> \<not> is_data_addr demo_layout (int a)"
  by (rule redirected_twice_leaves_sandbox [OF demo_load_facts(1-4) _ demo_load_facts(5-7)]) (simp_all add: demo_load_facts(8))

section \<open>Bit scans\<close>

text \<open>
  A patched bit scan has a defined result: when the inserted instruction was executed, the source of the scan
  is not zero, for every source of 16, 32 or 64 bits and all values of registers and memory.
\<close>
theorem bit_scan_source_not_zero:
  assumes "operands i = [dst, src]" and "divisor_ok src w K n" and "w \<in> {16, 32, 64}"
  shows "\<exists>s st' d. patch_bit_scan i (slot_of i) = Inr s \<and> sl_inst s = Some i \<and> exec_all (sl_before s) st = Some st' \<and>
     read_op st' src = Some d \<and> d \<noteq> 0"
proof -
  have w8: "w \<noteq> 8" using assms(3) by auto
  obtain dv where dv: "copy_op_with_flow_modification src None (Some True) = Inr dv" "op_class dv = op_class src" "op_value dv = op_value src"
    by (rule copied_divisor [OF assms(2)])
  have okd: "divisor_ok dv w K n" by (rule divisor_ok_same [OF assms(2) dv(2,3)])
  have kind: "is_reg src \<or> is_mem src" using assms(2) by (auto simp: divisor_ok_def op_class_defs)
  have wd: "op_width dv = int w" using divisor_ok_width [OF okd] by simp
  obtain msk size j where m: "bit_scan_mask (int w) = Inr (msk, size)" "int_base0 (lower msk) = Inr (int (2 ^ j))" "j < w"
  proof -
    have h: "hex_digit 0 = CHR ''0''" "hex_digit 1 = CHR ''1''" "hex_digit (Suc 0) = CHR ''1''" by code_simp+
    have v: "bit_scan_mask (int 16) = Inr (''0b1000000000000000'', 16)"
      "bit_scan_mask (int 32) = Inr (''0b1000000000000000000000000000000'', 32)"
      "bit_scan_mask (int 64) = Inr (''0b1000000000000000000000000000000'', 32)"
      by (simp_all add: bit_scan_mask_def bin_str_def bin_digits.simps h push_bit_eq_mult)
    have b': "int_base0 (lower ''0b1000000000000000'') = Inr 32768"
      "int_base0 (lower ''0b1000000000000000000000000000000'') = Inr 1073741824"
      by (simp_all add: int_base0_def unsigned_base0_def lower_def lower_char_def hex_digit_value_def)
    have b: "int_base0 (lower ''0b1000000000000000'') = Inr (int (2 ^ 15))"
      "int_base0 (lower ''0b1000000000000000000000000000000'') = Inr (int (2 ^ 30))" unfolding b' by simp_all
    from assms(3) consider "w = 16" | "w = 32" | "w = 64" by auto
    then show ?thesis
    proof cases
      case 1
      show ?thesis by (rule that [OF v(1) [folded 1] b(1)]) (simp add: 1)
    next
      case 2
      show ?thesis by (rule that [OF v(2) [folded 2] b(2)]) (simp add: 2)
    next
      case 3
      show ?thesis by (rule that [OF v(3) [folded 3] b(2)]) (simp add: 3)
    qed
  qed
  obtain x where x: "instrument ''or'' dv (ImmediateOp_init msk size) logic_flags = Inr x" "i_name x = ''or''"
    "operands x = [dv, ImmediateOp_init msk size]" by (rule instrumentE [OF logic_flags_length, of "''or''" dv "ImmediateOp_init msk size"])
  have run: "patch_bit_scan i (slot_of i) = Inr (slot_insert_before x (slot_of i))"
    using kind by (simp add: patch_bit_scan_def assms(1) py_nth_def py_index_def dv(1) wd m(1) x(1))
  obtain c where c: "fixed_place st K c w dv" by (rule divisor_ok_place [OF okd])
  have pl: "plain dv" by (rule divisor_ok_plain [OF okd w8])
  have rd: "read_op st (ImmediateOp_init msk size) = Some (2 ^ j)" using read_imm [OF m(2)] by simp
  obtain st' where e: "exec st x = Some st'" "take_bit w (st' c) = take_bit w (take_bit w (st c) OR 2 ^ j)" "fixed_place st' K c w dv"
    by (rule exec_plainE [OF c pl x(3) rd, where v = "take_bit w (st c) OR 2 ^ j"]) (simp_all add: x(2) alu_def)
  have f: "fixed_place st' K c w src" by (rule same_place(1) [OF e(3)]) (simp_all add: dv)
  have "plain src" using same_place(2) [OF e(3)] pl dv by simp
  then have r: "read_op st' src = Some (take_bit w (st' c))" by (rule read_plain [OF f])
  have "bit (take_bit w (st' c)) j" unfolding e(2) using m(3) by (simp add: bit_simps)
  then have "take_bit w (st' c) \<noteq> 0" by (metis bit_0_eq bot_apply bot_bool_def)
  then show ?thesis using run r e(1) by (auto simp: slot_insert_before_def slot_of_def)
qed

definition demo_bsf :: Instruction where
  "demo_bsf = add_op (add_op (Instruction_init ''bsf'' ''BASE-BITBYTE'' False False False)
     (Operand_init (RegisterOp 64) ''rax'' False True) False) (Operand_init (RegisterOp 64) ''rbx'' True False) False"

theorem bit_scan_source_not_zero_witness:
  "\<exists>s st' d. patch_bit_scan demo_bsf (slot_of demo_bsf) = Inr s \<and> sl_inst s = Some demo_bsf \<and>
     exec_all (sl_before s) (\<lambda>_. 0) = Some st' \<and> read_op st' (Operand_init (RegisterOp 64) ''rbx'' True False) = Some d \<and> d \<noteq> 0"
proof -
  have gp: "gp_register ''rbx'' 64 ''B''" by code_simp
  have "divisor_ok (Operand_init (RegisterOp 64) ''rbx'' True False) 64 {} ''B''"
    using gp RegisterOp_init_gp(2,3) [OF gp] by (simp add: divisor_ok_def)
  then show ?thesis
    by (rule bit_scan_source_not_zero [where dst = "Operand_init (RegisterOp 64) ''rax'' False True", rotated])
      (simp_all add: demo_bsf_def add_op_def Instruction_init_def)
qed

section \<open>Non-canonical addresses\<close>

text \<open>A 64-bit address is canonical when its upper 17 bits are equal.\<close>

definition canonical :: "nat \<Rightarrow> bool" where
  "canonical a \<longleftrightarrow> (\<forall>k. 48 \<le> k \<and> k < 64 \<longrightarrow> bit a k = bit a 47)"

text \<open>
  The mask of the pass makes a canonical address non-canonical unless all of its random bits are zero, in
  which case the access is unchanged.
\<close>
theorem non_canonical_unless_zero:
  assumes "canonical a"
  shows "canonical (a XOR non_canonical_mask rnd k) \<longleftrightarrow> take_bit 16 (rnd k) = 0"
proof -
  let ?r = "take_bit 16 (rnd k)"
  have b: "bit (a XOR non_canonical_mask rnd k) j = (bit a j \<noteq> (48 \<le> j \<and> bit ?r (j - 48)))" for j
    by (auto simp: non_canonical_mask_def bit_simps)
  show ?thesis
  proof
    assume c: "canonical (a XOR non_canonical_mask rnd k)"
    have "\<not> bit ?r j" for j
    proof (cases "j < 16")
      case True
      have "bit (a XOR non_canonical_mask rnd k) (48 + j) = bit (a XOR non_canonical_mask rnd k) 47"
        using c True by (simp add: canonical_def)
      moreover have "bit a (48 + j) = bit a 47" using assms True by (simp add: canonical_def)
      ultimately show ?thesis by (cases "bit a 47") (simp_all add: b)
    qed (simp add: bit_simps)
    then show "?r = 0" by (intro bit_eqI) simp
  next
    assume "?r = 0"
    then have "non_canonical_mask rnd k = 0" by (simp add: non_canonical_mask_def)
    then show "canonical (a XOR non_canonical_mask rnd k)" using assms by simp
  qed
qed

theorem non_canonical_unless_zero_witness:
  "canonical (4096 XOR non_canonical_mask (\<lambda>_. 65536) 0) \<and> \<not> canonical (4096 XOR non_canonical_mask (\<lambda>_. 1) 0)"
proof -
  have "\<not> bit (4096 :: nat) k" if "47 \<le> k" for k
  proof -
    have "(4096 :: nat) = 2 ^ 12" by simp
    then show ?thesis using that by (simp only: bit_exp_iff) auto
  qed
  then have "canonical 4096" by (simp add: canonical_def)
  from non_canonical_unless_zero [OF this] show ?thesis by (simp add: take_bit_eq_mod)
qed

end
