(* ===== verification/IsaSpec.thy ===== *)
theory IsaSpec
  imports Instruction "HOL-Library.Multiset" "HOL-Library.List_Lexorder" "HOL-Library.Char_ord"
begin

text \<open>
  Model of \<^verbatim>\<open>rvzr/isa_spec.py\<close>: the instruction set is read from a parsed JSON file, reduced to the instructions and
  operand values that the configuration permits, freed of duplicates and sorted into the groups the program
  generator draws from. Equality of specifications is equality of records, as for the data classes of the code.
\<close>

section \<open>Configuration and file\<close>

record isa_conf =
  cf_instruction_set :: string
  cf_generation_enabled :: bool
  cf_instruction_allowlist :: "string list"
  cf_instruction_blocklist :: "string list"
  cf_register_blocklist :: "string list"
  cf_register_allowlist :: "string list"
  cf_avg_mem_accesses :: int
  cf_min_successors_per_bb :: int
  cf_max_successors_per_bb :: int

text \<open>The nodes of the file; keys that the code reads with a default are optional.\<close>

record op_node =
  on_type :: string
  on_values :: "string list option"
  on_src :: bool
  on_dest :: bool
  on_width :: int
  on_is_signed :: "bool option"
  on_xtype :: "string option"

record instruction_node =
  in_name :: string
  in_category :: string
  in_is_control_flow :: bool
  in_operands :: "op_node list"
  in_implicit_operands :: "op_node list"

record InstructionSet =
  instructions :: "InstructionSpec list"
  instructions_unfiltered :: "InstructionSpec list"
  has_unconditional_branch :: bool
  has_conditional_branch :: bool
  has_reads :: bool
  has_writes :: bool
  control_flow_specs :: "InstructionSpec list"
  non_control_flow_specs :: "InstructionSpec list"
  non_memory_access_specs :: "InstructionSpec list"
  load_instruction :: "InstructionSpec list"
  store_instructions :: "InstructionSpec list"
  cond_branches :: "InstructionSpec list"

section \<open>Reading\<close>

definition OT_STR_TO_ENUM :: "(string, OT) dict" where
  "OT_STR_TO_ENUM = [(''REG'', OT_REG), (''MEM'', OT_MEM), (''IMM'', OT_IMM), (''LABEL'', OT_LABEL),
     (''AGEN'', OT_AGEN), (''FLAGS'', OT_FLAGS), (''COND'', OT_COND)]"

definition OperandSpec_init ::
  "string list \<Rightarrow> OT \<Rightarrow> bool \<Rightarrow> bool \<Rightarrow> int \<Rightarrow> bool \<Rightarrow> bool \<Rightarrow> string option \<Rightarrow> OperandSpec" where
  "OperandSpec_init vals ty src dest w sg magic xty =
     \<lparr>os_values = vals, os_type = ty, os_xtype = xty, os_width = w, os_src = src, os_dest = dest,
      os_is_signed = sg, os_has_magic_value = magic\<rparr>"

definition parse_json_operand :: "op_node \<Rightarrow> InstructionSpec \<Rightarrow> (OperandSpec \<times> InstructionSpec) res" where
  "parse_json_operand op parent =
     rbind (dict_get OT_STR_TO_ENUM (on_type op)) (\<lambda>op_type.
       let op_values = (case on_values op of None \<Rightarrow> [] | Some v \<Rightarrow> v);
           op_values1 = (if op_type = OT_REG then sort op_values else op_values);
           spec = OperandSpec_init op_values1 op_type (on_src op) (on_dest op) (on_width op)
                    (case on_is_signed op of None \<Rightarrow> True | Some b \<Rightarrow> b) False (on_xtype op);
           parent1 = (if op_type = OT_MEM
                      then (if os_dest spec then parent\<lparr>is_has_mem_operand := True, is_has_write := True\<rparr>
                            else parent\<lparr>is_has_mem_operand := True\<rparr>)
                      else parent)
       in ok (spec, parent1))"

definition read_instruction :: "instruction_node \<Rightarrow> InstructionSpec res" where
  "read_instruction node =
     rbind (rfold (\<lambda>i n. rbind (parse_json_operand n i) (\<lambda>(op, i1).
                let i2 = i1\<lparr>is_operands := is_operands i1 @ [op]\<rparr>
                in ok (if os_has_magic_value op then i2\<lparr>is_has_magic_value := True\<rparr> else i2)))
              (InstructionSpec_init (in_name node) (in_category node) (in_is_control_flow node)) (in_operands node))
       (\<lambda>i. rfold (\<lambda>i n. rbind (parse_json_operand n i) (\<lambda>(op, i1).
                ok (i1\<lparr>is_implicit_operands := is_implicit_operands i1 @ [op]\<rparr>))) i (in_implicit_operands node))"

definition read_json_spec :: "instruction_node list \<Rightarrow> InstructionSpec list res" where
  "read_json_spec spec_file = rmapM read_instruction spec_file"

section \<open>Reduction\<close>

definition XOT :: "string list" where
  "XOT = [''f64'', ''f32'', ''f16'', ''2f16'', ''bf16'', ''int'', ''i64'', ''i32'', ''i16'', ''i8'', ''u256'', ''u128'',
     ''u64'', ''u32'', ''u16'', ''u8'']"

definition FP_XOT :: "string list" where
  "FP_XOT = [''f64'', ''f32'', ''f16'', ''2f16'']"

definition BFP_XOT :: "string list" where
  "BFP_XOT = [''bf16'']"

text \<open>The set of registers that must not be used.\<close>

definition blocked_registers :: "isa_conf \<Rightarrow> string list" where
  "blocked_registers C = filter (\<lambda>r. r \<notin> set (cf_register_allowlist C)) (cf_register_blocklist C)"

text \<open>The loops over operands of \<^verbatim>\<open>is_supported\<close>; they stop at the first operand that is not supported.\<close>

fun no_fp_operand :: "OperandSpec list \<Rightarrow> bool res" where
  "no_fp_operand [] = ok True"
| "no_fp_operand (op # ops) =
     (if os_type op \<noteq> OT_REG then no_fp_operand ops
      else case os_xtype op of
             None \<Rightarrow> no_fp_operand ops
           | Some x \<Rightarrow> py_assert (x \<in> set XOT)
               (if x \<in> set FP_XOT \<or> x \<in> set BFP_XOT then ok False else no_fp_operand ops))"

fun implicit_supported :: "string list \<Rightarrow> OperandSpec list \<Rightarrow> bool res" where
  "implicit_supported blocked [] = ok True"
| "implicit_supported blocked (op # ops) =
     py_assert (os_type op \<noteq> OT_LABEL)
       (if os_type op = OT_MEM
        then rbind (py_nth (os_values op) 0) (\<lambda>v. if v \<in> set blocked then ok False else implicit_supported blocked ops)
        else if os_type op = OT_REG
        then rbind (py_nth (os_values op) 0) (\<lambda>v.
               if v \<in> set blocked then py_assert (length (os_values op) = 1) (ok False)
               else implicit_supported blocked ops)
        else implicit_supported blocked ops)"

definition is_supported :: "isa_conf \<Rightarrow> string list option \<Rightarrow> InstructionSpec \<Rightarrow> bool res" where
  "is_supported C include_categories spec =
     (if \<not> cf_generation_enabled C then ok True
      else if is_name spec \<in> set (cf_instruction_allowlist C) then ok True
      else if (case include_categories of None \<Rightarrow> False | Some cs \<Rightarrow> cs \<noteq> [] \<and> is_category spec \<notin> set cs) then ok False
      else if is_name spec \<in> set (cf_instruction_blocklist C) then ok False
      else if list_ex (\<lambda>op. os_type op = OT_MEM \<and> os_values op \<noteq> [] \<and> hd (os_values op) \<in> set (blocked_registers C))
                (is_operands spec) then ok False
      else rbind (no_fp_operand (is_operands spec)) (\<lambda>b.
             if \<not> b then ok False else implicit_supported (blocked_registers C) (is_implicit_operands spec)))"

text \<open>\<^verbatim>\<open>instructions.remove(s)\<close> for every element of a list: the first equal element is removed.\<close>

definition remove_specs :: "InstructionSpec list \<Rightarrow> InstructionSpec list \<Rightarrow> InstructionSpec list" where
  "remove_specs skip_list insts = fold remove1 skip_list insts"

definition remove_unsupported :: "isa_conf \<Rightarrow> string list option \<Rightarrow> InstructionSpec list \<Rightarrow> InstructionSpec list res" where
  "remove_unsupported C cats insts =
     rbind (rmapM (is_supported C cats) insts) (\<lambda>bs.
       ok (remove_specs (map fst (filter (\<lambda>p. \<not> snd p) (zip insts bs))) insts))"

definition low_byte_name :: "string \<Rightarrow> string res" where
  "low_byte_name reg =
     (if reg = [] then raise IndexError
      else ok (if last reg = CHR ''h'' then map (\<lambda>c. if c = CHR ''h'' then CHR ''l'' else c) reg else reg))"

text \<open>
  The supported values of one operand, and the loop over the operands of an instruction. It stops at an
  operand without supported values; the operands before it have been replaced by then.
\<close>

definition supported_values :: "string list \<Rightarrow> OperandSpec \<Rightarrow> string list res" where
  "supported_values blocked op =
     rmapM low_byte_name (sort (remdups (filter (\<lambda>v. v \<notin> set blocked) (os_values op))))"

definition with_values :: "OperandSpec \<Rightarrow> string list \<Rightarrow> OperandSpec" where
  "with_values op vals = OperandSpec_init vals (os_type op) (os_src op) (os_dest op) (os_width op)
     (os_is_signed op) (os_has_magic_value op) (os_xtype op)"

fun reduce_operands :: "string list \<Rightarrow> OperandSpec list \<Rightarrow> (OperandSpec list \<times> bool) res" where
  "reduce_operands blocked [] = ok ([], True)"
| "reduce_operands blocked (op # ops) =
     (if os_type op \<noteq> OT_REG
      then rbind (reduce_operands blocked ops) (\<lambda>(ops', b). ok (op # ops', b))
      else rbind (supported_values blocked op) (\<lambda>vals.
        if vals = [] then ok (op # ops, False)
        else rbind (reduce_operands blocked ops) (\<lambda>(ops', b). ok (with_values op vals # ops', b))))"

definition reduce_values :: "isa_conf \<Rightarrow> InstructionSpec list \<Rightarrow> InstructionSpec list res" where
  "reduce_values C insts =
     rbind (rmapM (\<lambda>s. rbind (reduce_operands (blocked_registers C) (is_operands s)) (\<lambda>(ops, b).
              ok (s\<lparr>is_operands := ops\<rparr>, b))) insts) (\<lambda>ps.
       ok (remove_specs (map fst (filter (\<lambda>p. \<not> snd p) ps)) (map fst ps)))"

definition reduce :: "isa_conf \<Rightarrow> string list option \<Rightarrow> InstructionSpec list \<Rightarrow> InstructionSpec list res" where
  "reduce C cats insts = rbind (remove_unsupported C cats insts) (reduce_values C)"

section \<open>Properties, duplicates and groups\<close>

definition uncond_categories :: "string list" where
  "uncond_categories = [''BASE-UNCOND_BR'', ''general-uncond_branch'']"

definition set_isa_properties :: "InstructionSet \<Rightarrow> InstructionSet" where
  "set_isa_properties isa = fold (\<lambda>inst s.
     if is_is_control_flow inst
     then (if is_category inst \<in> set uncond_categories then s\<lparr>has_unconditional_branch := True\<rparr>
           else s\<lparr>has_conditional_branch := True\<rparr>)
     else if is_has_mem_operand inst
     then (if is_has_write inst then s\<lparr>has_writes := True\<rparr> else s\<lparr>has_reads := True\<rparr>)
     else s) (instructions isa) isa"

definition same_operand :: "OperandSpec \<Rightarrow> OperandSpec \<Rightarrow> bool" where
  "same_operand op1 op2 \<longleftrightarrow> os_type op1 = os_type op2 \<and> os_values op1 = os_values op2 \<and>
     (os_width op1 = os_width op2 \<or> os_type op1 = OT_IMM)"

definition same_spec :: "InstructionSpec \<Rightarrow> InstructionSpec \<Rightarrow> bool" where
  "same_spec i1 i2 \<longleftrightarrow> is_name i1 = is_name i2 \<and> list_all2 same_operand (is_operands i1) (is_operands i2)"

text \<open>
  Instructions that have a copy later in the list are collected in a set and then removed one by one.
  The set holds one of several equal instructions; its order does not matter.
\<close>

fun duplicated :: "InstructionSpec list \<Rightarrow> InstructionSpec list" where
  "duplicated [] = []"
| "duplicated (i # is) = (if list_ex (same_spec i) is then [i] else []) @ duplicated is"

definition dedup :: "InstructionSpec list \<Rightarrow> InstructionSpec list" where
  "dedup insts = remove_specs (remdups (duplicated insts)) insts"

definition get_return_spec :: "string \<Rightarrow> InstructionSpec res" where
  "get_return_spec iset =
     (if iset = ''x86-64'' then ok (InstructionSpec_init ''ret'' ''BASE-RET'' True)
      else if iset = ''arm64'' then ok (InstructionSpec_init ''ret'' ''general-ret'' True)
      else raise NotImplementedError)"

definition get_unconditional_jump_spec :: "string \<Rightarrow> InstructionSpec res" where
  "get_unconditional_jump_spec iset =
     (let label = OperandSpec_init [] OT_LABEL True False 64 True False None
      in if iset = ''x86-64''
         then ok ((InstructionSpec_init ''jmp'' ''BASE-UNCOND_BR'' True)\<lparr>is_operands := [label]\<rparr>)
         else if iset = ''arm64''
         then ok ((InstructionSpec_init ''b'' ''general-uncond_branch'' True)\<lparr>is_operands := [label]\<rparr>)
         else raise NotImplementedError)"

definition set_categories :: "isa_conf \<Rightarrow> InstructionSet \<Rightarrow> (InstructionSet \<times> isa_conf) res" where
  "set_categories C isa =
     (let cf = filter is_is_control_flow (instructions isa);
          ncf = filter (\<lambda>i. \<not> is_is_control_flow i) (instructions isa);
          C1 = (if cf = [] then C\<lparr>cf_min_successors_per_bb := 1, cf_max_successors_per_bb := 1\<rparr> else C);
          mem = filter is_has_mem_operand ncf;
          loads = filter (\<lambda>i. \<not> is_has_write i) mem;
          stores = filter is_has_write mem;
          isa1 = isa\<lparr>control_flow_specs := cf, non_control_flow_specs := ncf,
                   non_memory_access_specs := filter (\<lambda>i. \<not> is_has_mem_operand i) ncf\<rparr>
      in py_assert (ncf \<noteq> [])
           (rbind (if cf_avg_mem_accesses C \<noteq> 0
                   then py_assert (loads \<noteq> [] \<or> stores \<noteq> [])
                          (ok (isa1\<lparr>load_instruction := loads, store_instructions := stores\<rparr>))
                   else ok (isa1\<lparr>load_instruction := [], store_instructions := []\<rparr>)) (\<lambda>isa2.
            rbind (get_unconditional_jump_spec (cf_instruction_set C)) (\<lambda>u.
              ok (isa2\<lparr>cond_branches := filter (\<lambda>i. lower (is_name i) \<noteq> lower (is_name u)) cf\<rparr>, C1)))))"

text \<open>The attributes before the groups are set.\<close>

definition unsorted_set :: "InstructionSpec list \<Rightarrow> InstructionSpec list \<Rightarrow> InstructionSet" where
  "unsorted_set unfiltered insts = \<lparr>instructions = insts, instructions_unfiltered = unfiltered,
     has_unconditional_branch = False, has_conditional_branch = False, has_reads = False, has_writes = False,
     control_flow_specs = [], non_control_flow_specs = [], non_memory_access_specs = [],
     load_instruction = [], store_instructions = [], cond_branches = []\<rparr>"

definition InstructionSet_init ::
  "isa_conf \<Rightarrow> instruction_node list \<Rightarrow> string list option \<Rightarrow> (InstructionSet \<times> isa_conf) res" where
  "InstructionSet_init C spec_file cats =
     rbind (read_json_spec spec_file) (\<lambda>insts.
     rbind (reduce C cats insts) (\<lambda>reduced.
       let isa = set_isa_properties (unsorted_set insts reduced)
       in set_categories C (isa\<lparr>instructions := dedup (instructions isa)\<rparr>)))"

section \<open>What the reduction keeps\<close>

lemma mset_remove_specs: "mset (remove_specs sk xs) = mset xs - mset sk"
  by (induction sk arbitrary: xs) (simp_all add: remove_specs_def)

lemma mset_minus_filter: "mset xs - mset (filter P xs) = mset (filter (\<lambda>x. \<not> P x) xs)"
  by (metis add_diff_cancel_left' mset_filter multiset_partition)

lemma set_removed_pairs: "set (remove_specs (map fst (filter (\<lambda>p. \<not> snd p) ps)) (map fst ps)) = fst ` {p \<in> set ps. snd p}"
proof -
  have sub: "mset (filter (\<lambda>p. \<not> snd p) ps) \<subseteq># mset ps" by (simp add: mset_filter)
  have "mset (remove_specs (map fst (filter (\<lambda>p. \<not> snd p) ps)) (map fst ps)) =
      image_mset fst (mset ps - mset (filter (\<lambda>p. \<not> snd p) ps))"
    by (simp only: mset_remove_specs mset_map image_mset_Diff [OF sub])
  also have "\<dots> = image_mset fst (mset (filter snd ps))" by (simp add: mset_minus_filter del: mset_filter)
  finally have "set_mset (mset (remove_specs (map fst (filter (\<lambda>p. \<not> snd p) ps)) (map fst ps))) = fst ` set (filter snd ps)"
    by simp
  then show ?thesis by auto
qed

lemma remove_unsupported_set:
  assumes "remove_unsupported C cats insts = Inr out"
  shows "set out = {i \<in> set insts. is_supported C cats i = Inr True}"
proof -
  from assms obtain bs where bs: "rmapM (is_supported C cats) insts = Inr bs"
    and out: "out = remove_specs (map fst (filter (\<lambda>p. \<not> snd p) (zip insts bs))) insts"
    by (auto simp: remove_unsupported_def rbind_eq_Inr_iff)
  have len: "length insts = length bs" using rmapM_length [OF bs] by simp
  have "set out = fst ` {p \<in> set (zip insts bs). snd p}"
    using set_removed_pairs [of "zip insts bs"] len by (simp add: out)
  also have "\<dots> = {i \<in> set insts. is_supported C cats i = Inr True}"
  proof -
    have "p \<in> set (zip insts bs) \<Longrightarrow> is_supported C cats (fst p) = Inr (snd p)" for p
      using rmapM_nth [OF bs] by (metis in_set_zip)
    moreover have "\<exists>b. (i, b) \<in> set (zip insts bs)" if "i \<in> set insts" for i
      using that len by (metis in_set_conv_nth in_set_zip fst_conv snd_conv)
    ultimately show ?thesis by (force dest: set_zip_leftD)
  qed
  finally show ?thesis .
qed

lemma rmapM_in: "rmapM f xs = Inr ys \<Longrightarrow> y \<in> set ys \<Longrightarrow> \<exists>x \<in> set xs. f x = Inr y"
  by (metis in_set_conv_nth rmapM_length rmapM_nth)

lemma rmapM_in': "rmapM f xs = Inr ys \<Longrightarrow> x \<in> set xs \<Longrightarrow> \<exists>y \<in> set ys. f x = Inr y"
  by (metis in_set_conv_nth rmapM_length rmapM_nth)

lemma reduce_values_set:
  assumes "reduce_values C insts = Inr out"
  shows "set out = {s\<lparr>is_operands := ops\<rparr> | s ops. s \<in> set insts \<and>
           reduce_operands (blocked_registers C) (is_operands s) = Inr (ops, True)}"
proof -
  let ?f = "\<lambda>s. rbind (reduce_operands (blocked_registers C) (is_operands s)) (\<lambda>(ops, b). ok (s\<lparr>is_operands := ops\<rparr>, b))"
  from assms obtain ps where ps: "rmapM ?f insts = Inr ps"
    and out: "out = remove_specs (map fst (filter (\<lambda>p. \<not> snd p) ps)) (map fst ps)"
    by (auto simp: reduce_values_def rbind_eq_Inr_iff)
  have "set out = fst ` {p \<in> set ps. snd p}" by (simp add: out set_removed_pairs)
  also have "\<dots> = {s\<lparr>is_operands := ops\<rparr> | s ops. s \<in> set insts \<and>
           reduce_operands (blocked_registers C) (is_operands s) = Inr (ops, True)}" (is "?L = ?R")
  proof (intro set_eqI iffI)
    fix i assume "i \<in> ?L"
    then obtain p where p: "p \<in> set ps" "snd p" "i = fst p" by auto
    from rmapM_in [OF ps p(1)] obtain s where s: "s \<in> set insts" "?f s = Inr p" by blast
    then obtain ops b where o: "reduce_operands (blocked_registers C) (is_operands s) = Inr (ops, b)" "p = (s\<lparr>is_operands := ops\<rparr>, b)"
      by (auto simp: rbind_eq_Inr_iff)
    then have "i = s\<lparr>is_operands := ops\<rparr>" "b" using p(2,3) by simp_all
    with s(1) o(1) show "i \<in> ?R" by (intro CollectI exI conjI) simp_all
  next
    fix i assume "i \<in> ?R"
    then obtain s ops where s: "i = s\<lparr>is_operands := ops\<rparr>" "s \<in> set insts"
      "reduce_operands (blocked_registers C) (is_operands s) = Inr (ops, True)" by auto
    with rmapM_in' [OF ps s(2)] show "i \<in> ?L" by force
  qed
  finally show ?thesis .
qed

lemma reduce_operands_ok:
  assumes "reduce_operands blocked ops = Inr (ops', True)" and "op \<in> set ops'" and "os_type op = OT_REG"
  shows "os_values op \<noteq> [] \<and> (\<forall>v \<in> set (os_values op). \<exists>r. r \<notin> set blocked \<and> low_byte_name r = Inr v)"
  using assms
proof (induction ops arbitrary: ops')
  case (Cons o1 ops)
  show ?case
  proof (cases "os_type o1 = OT_REG")
    case False
    with Cons.prems(1) obtain ops1 where "reduce_operands blocked ops = Inr (ops1, True)" "ops' = o1 # ops1"
      by (auto simp: rbind_eq_Inr_iff)
    with Cons.IH [OF this(1)] Cons.prems(2,3) False show ?thesis by auto
  next
    case True
    with Cons.prems(1) obtain vals ops1 where v: "supported_values blocked o1 = Inr vals" "vals \<noteq> []"
      and r: "reduce_operands blocked ops = Inr (ops1, True)" "ops' = with_values o1 vals # ops1"
      by (auto simp: rbind_eq_Inr_iff split: if_splits)
    from v(1) have "\<exists>r. r \<notin> set blocked \<and> low_byte_name r = Inr x" if "x \<in> set vals" for x
      using rmapM_in [OF v(1) [unfolded supported_values_def] that] by auto
    with Cons.IH [OF r(1)] Cons.prems(2,3) v(2) r(2) show ?thesis
      by (auto simp: with_values_def OperandSpec_init_def)
  qed
qed simp

lemma is_supported_conf:
  assumes "is_supported C cats i = Inr True" and "cf_generation_enabled C" and "is_name i \<notin> set (cf_instruction_allowlist C)"
  shows "is_name i \<notin> set (cf_instruction_blocklist C)"
    and "cats = Some cs \<Longrightarrow> cs \<noteq> [] \<Longrightarrow> is_category i \<in> set cs"
  using assms by (auto simp: is_supported_def split: if_splits)

lemma set_isa_properties_instructions: "instructions (set_isa_properties isa) = instructions isa"
proof -
  have "instructions (fold (\<lambda>inst s.
     if is_is_control_flow inst
     then (if is_category inst \<in> set uncond_categories then s\<lparr>has_unconditional_branch := True\<rparr>
           else s\<lparr>has_conditional_branch := True\<rparr>)
     else if is_has_mem_operand inst
     then (if is_has_write inst then s\<lparr>has_writes := True\<rparr> else s\<lparr>has_reads := True\<rparr>)
     else s) xs s0) = instructions s0" for xs and s0 :: InstructionSet
    by (induction xs arbitrary: s0) auto
  then show ?thesis by (simp add: set_isa_properties_def)
qed

lemma set_categories_instructions: "set_categories C isa = Inr (isa', C') \<Longrightarrow> instructions isa' = instructions isa"
  by (auto simp: set_categories_def Let_def rbind_eq_Inr_iff py_assert_eq_Inr_iff split: if_splits)

lemma dedup_subset: "set (dedup insts) \<subseteq> set insts"
proof -
  have "set_mset (mset (dedup insts)) \<subseteq> set_mset (mset insts)"
    unfolding dedup_def mset_remove_specs by (meson in_diffD subsetI)
  then show ?thesis by simp
qed

lemma unsorted_set_instructions: "instructions (unsorted_set unfiltered insts) = insts"
  by (simp add: unsorted_set_def)

lemma InstructionSet_init_reduced:
  assumes "InstructionSet_init C spec_file cats = Inr (isa, C')"
  obtains insts reduced where "read_json_spec spec_file = Inr insts" and "reduce C cats insts = Inr reduced"
    and "instructions isa = dedup reduced"
  using assms by (auto simp: InstructionSet_init_def Let_def rbind_eq_Inr_iff set_isa_properties_instructions unsorted_set_instructions
      dest!: set_categories_instructions intro: that)

text \<open>
  C33: The instruction set respects the configuration. An instruction that is left in it is not on the block
  list and has a requested category, unless it is on the allow list. Every register operand has at least one
  value, and every value is the low-byte form of a register that is not blocked.
\<close>
theorem instruction_set_respects_conf:
  assumes "InstructionSet_init C spec_file cats = Inr (isa, C')" and "cf_generation_enabled C"
    and "i \<in> set (instructions isa)"
  shows "(is_name i \<notin> set (cf_instruction_allowlist C) \<longrightarrow>
            is_name i \<notin> set (cf_instruction_blocklist C) \<and>
            (\<forall>cs. cats = Some cs \<and> cs \<noteq> [] \<longrightarrow> is_category i \<in> set cs)) \<and>
         (\<forall>op \<in> set (is_operands i). os_type op = OT_REG \<longrightarrow>
            os_values op \<noteq> [] \<and> (\<forall>v \<in> set (os_values op). \<exists>r. r \<notin> set (blocked_registers C) \<and> low_byte_name r = Inr v))"
proof -
  obtain insts reduced where "reduce C cats insts = Inr reduced" "instructions isa = dedup reduced"
    by (rule InstructionSet_init_reduced [OF assms(1)])
  with assms(3) dedup_subset obtain mid where "remove_unsupported C cats insts = Inr mid"
    "reduce_values C mid = Inr reduced" "i \<in> set reduced"
    by (auto simp: reduce_def rbind_eq_Inr_iff)
  then obtain s ops where s: "is_supported C cats s = Inr True" "i = s\<lparr>is_operands := ops\<rparr>"
    "reduce_operands (blocked_registers C) (is_operands s) = Inr (ops, True)"
    using remove_unsupported_set reduce_values_set by blast
  from is_supported_conf [OF s(1) assms(2)] reduce_operands_ok [OF s(3)] s(2) show ?thesis by auto
qed

definition demo_conf_isa :: isa_conf where
  "demo_conf_isa = \<lparr>cf_instruction_set = ''x86-64'', cf_generation_enabled = True, cf_instruction_allowlist = [],
     cf_instruction_blocklist = [''hlt''], cf_register_blocklist = [''rsp''], cf_register_allowlist = [],
     cf_avg_mem_accesses = 0, cf_min_successors_per_bb = 2, cf_max_successors_per_bb = 2\<rparr>"

definition demo_reg_node :: op_node where
  "demo_reg_node = \<lparr>on_type = ''REG'', on_values = Some [''rsp'', ''rbx'', ''rax''], on_src = True, on_dest = True,
     on_width = 64, on_is_signed = None, on_xtype = None\<rparr>"

definition demo_file :: "instruction_node list" where
  "demo_file = [\<lparr>in_name = ''hlt'', in_category = ''BASE-SYSTEM'', in_is_control_flow = False, in_operands = [],
      in_implicit_operands = []\<rparr>,
     \<lparr>in_name = ''inc'', in_category = ''BASE-BINARY'', in_is_control_flow = False, in_operands = [demo_reg_node],
      in_implicit_operands = []\<rparr>]"

lemma demo_instruction_set:
  "case InstructionSet_init demo_conf_isa demo_file (Some [''BASE-BINARY'']) of
     Inr (isa, _) \<Rightarrow> map is_name (instructions isa) = [''inc''] \<and> map (map os_values \<circ> is_operands) (instructions isa) = [[[''rax'', ''rbx'']]]
   | Inl _ \<Rightarrow> False"
  by code_simp

theorem instruction_set_respects_conf_witness:
  "\<exists>isa C'. InstructionSet_init demo_conf_isa demo_file (Some [''BASE-BINARY'']) = Inr (isa, C') \<and>
     (\<forall>i. i \<in> set (instructions isa) \<longrightarrow> is_category i = ''BASE-BINARY'' \<and> is_name i \<noteq> ''hlt'') \<and> instructions isa \<noteq> []"
proof -
  obtain isa C' where run: "InstructionSet_init demo_conf_isa demo_file (Some [''BASE-BINARY'']) = Inr (isa, C')"
    "instructions isa \<noteq> []" using demo_instruction_set by (auto split: sum.splits)
  have "cf_generation_enabled demo_conf_isa" by (simp add: demo_conf_isa_def)
  from instruction_set_respects_conf [OF run(1) this] run show ?thesis by (auto simp: demo_conf_isa_def)
qed

section \<open>Duplicates\<close>

lemma same_operand_equiv: "same_operand x x" "same_operand x y \<Longrightarrow> same_operand y x"
  "same_operand x y \<Longrightarrow> same_operand y z \<Longrightarrow> same_operand x z"
  by (auto simp: same_operand_def)

lemma same_spec_refl [simp]: "same_spec i i"
  by (simp add: same_spec_def same_operand_equiv list_all2_refl)

lemma same_spec_sym: "same_spec i j \<Longrightarrow> same_spec j i"
  unfolding same_spec_def by (metis list_all2_conv_all_nth same_operand_equiv(2))

lemma same_spec_trans: "same_spec i j \<Longrightarrow> same_spec j l \<Longrightarrow> same_spec i l"
  unfolding same_spec_def using list_all2_trans [of same_operand same_operand same_operand, OF same_operand_equiv(3)] by auto

lemma duplicated_in: "x \<in> set (duplicated xs) \<Longrightarrow> x \<in> set xs"
  by (induction xs) (auto split: if_splits)

lemma mset_dedup: "mset (dedup xs) = mset xs - mset (remdups (duplicated xs))"
  by (simp add: dedup_def mset_remove_specs)

lemma count_remdups: "count (mset (remdups ys)) j = (if j \<in> set ys then 1 else 0)"
  by (induction ys) auto

lemma count_remdups_le: "count (mset (remdups ys)) j \<le> count (mset ys) j"
  by (induction ys) auto

lemma in_set_count: "j \<in> set ys \<longleftrightarrow> 0 < count (mset ys) j"
  by (metis count_greater_zero_iff set_mset_mset)

text \<open>The last instruction of every class of copies is not counted as a duplicate.\<close>

lemma class_representative:
  "i \<in> set xs \<Longrightarrow> \<exists>j \<in> set xs. same_spec i j \<and> count (mset (duplicated xs)) j < count (mset xs) j"
proof (induction xs arbitrary: i)
  case (Cons x xs)
  show ?case
  proof (cases "list_ex (same_spec i) xs")
    case True
    then obtain l where l: "l \<in> set xs" "same_spec i l" by (auto simp: list_ex_iff)
    from Cons.IH [OF l(1)] same_spec_trans [OF l(2)]
    have "\<exists>j \<in> set xs. same_spec i j \<and> count (mset (duplicated xs)) j < count (mset xs) j" by blast
    then show ?thesis by auto
  next
    case False
    then have i: "i = x" "i \<notin> set xs" using Cons.prems same_spec_refl [of i] by (auto simp: list_ex_iff)
    with False have "duplicated (x # xs) = duplicated xs" by simp
    moreover have "i \<notin> set (duplicated xs)" using i(2) duplicated_in by blast
    then have "count (mset (duplicated xs)) i = 0" unfolding in_set_count by linarith
    moreover have "count (mset (x # xs)) i = Suc (count (mset xs) i)" using i(1) by simp
    ultimately have "count (mset (duplicated (x # xs))) i < count (mset (x # xs)) i" by (simp only: zero_less_Suc)
    then show ?thesis using Cons.prems same_spec_refl [of i] by blast
  qed
qed simp


lemma dedup_keeps_class:
  assumes "i \<in> set xs"
  shows "\<exists>j \<in> set (dedup xs). same_spec i j"
proof -
  obtain j where j: "j \<in> set xs" "same_spec i j" "count (mset (duplicated xs)) j < count (mset xs) j"
    using class_representative [OF assms] by blast
  from j(3) have "count (mset (remdups (duplicated xs))) j < count (mset xs) j"
    by (rule le_less_trans [OF count_remdups_le])
  then have "j \<in># mset (dedup xs)" by (simp add: mset_dedup in_diff_count)
  with j(2) show ?thesis by auto
qed

lemma duplicated_of_two:
  "i \<in> set xs \<Longrightarrow> j \<in> set xs \<Longrightarrow> i \<noteq> j \<Longrightarrow> same_spec i j \<Longrightarrow> i \<in> set (duplicated xs) \<or> j \<in> set (duplicated xs)"
  by (induction xs) (auto simp: list_ex_iff dest: same_spec_sym)

text \<open>
  When no instruction of the list is repeated literally, removing duplicates leaves exactly one instruction
  of every class of instructions with the same name and operands.
\<close>
theorem dedup_one_per_class:
  assumes "distinct xs" and "i \<in> set xs"
  shows "\<exists>!j. j \<in> set (dedup xs) \<and> same_spec i j"
proof -
  have left: "j \<in> set xs \<and> j \<notin> set (duplicated xs)" if "j \<in> set (dedup xs)" for j
  proof -
    have "j \<in># mset (dedup xs)" using that by simp
    then have "count (mset (remdups (duplicated xs))) j < count (mset xs) j" by (simp add: mset_dedup in_diff_count)
    moreover have "count (mset xs) j \<le> 1" using assms(1) by (simp add: distinct_count_atmost_1)
    ultimately show ?thesis unfolding in_set_count [of j xs] by (auto simp: count_remdups split: if_splits)
  qed
  obtain j where j: "j \<in> set (dedup xs)" "same_spec i j" using dedup_keeps_class [OF assms(2)] by blast
  have "l = j" if "l \<in> set (dedup xs)" "same_spec i l" for l
    using left [OF j(1)] left [OF that(1)] duplicated_of_two [of l xs j] same_spec_trans [OF same_spec_sym [OF that(2)] j(2)] by blast
  with j show ?thesis by blast
qed

text \<open>
  C34: Literal repetitions are not all removed: the instructions to remove are collected in a set, in which
  equal instructions coincide, and each is removed once. Of \<open>n\<close> equal instructions one less is left.
\<close>
theorem dedup_leaves_repetitions:
  assumes "2 \<le> n"
  shows "dedup (replicate n s) = replicate (n - 1) s"
proof -
  obtain m where n: "n = Suc (Suc m)" using assms by (metis Suc_eq_plus1 add_2_eq_Suc le_Suc_ex)
  have d: "duplicated (replicate (Suc m) s) = replicate m s" for m
    by (induction m) (simp_all add: list_ex_iff)
  have r: "remdups (replicate (Suc m) s) = [s]" for m by (induction m) auto
  have "duplicated (replicate n s) = replicate (Suc m) s" unfolding n by (rule d)
  then show ?thesis by (simp add: dedup_def remove_specs_def n r del: replicate_Suc) (simp add: n)
qed

definition demo_spec :: "nat \<Rightarrow> InstructionSpec" where
  "demo_spec n = (InstructionSpec_init ''inc'' ''BASE-BINARY'' False)\<lparr>is_operands :=
     [OperandSpec_init [''rax''] OT_REG True True 64 True False None],
     is_implicit_operands := replicate n (OperandSpec_init [] OT_FLAGS False False 0 True False None)\<rparr>"

theorem dedup_one_per_class_witness: "\<exists>!j. j \<in> set (dedup [demo_spec 0, demo_spec 1]) \<and> same_spec (demo_spec 0) j"
proof (rule dedup_one_per_class)
  show "distinct [demo_spec 0, demo_spec 1]" by code_simp
qed simp

theorem dedup_leaves_repetitions_witness: "dedup (replicate 3 (demo_spec 0)) = replicate 2 (demo_spec 0)"
  using dedup_leaves_repetitions [of 3 "demo_spec 0"] by simp

section \<open>Groups and blocked registers\<close>

text \<open>
  A blocked register can come back: when a low byte is blocked and the high byte is not, the operand that had
  the high byte gets the low one.
\<close>
theorem blocked_low_byte_returns:
  assumes "''ah'' \<in> set (os_values op)" and "''ah'' \<notin> set blocked" and "''al'' \<in> set blocked"
    and "supported_values blocked op = Inr vals"
  shows "''al'' \<in> set vals \<and> ''al'' \<in> set blocked"
proof -
  have "''ah'' \<in> set (sort (remdups (filter (\<lambda>v. v \<notin> set blocked) (os_values op))))" using assms(1,2) by simp
  from rmapM_in' [OF assms(4) [unfolded supported_values_def] this] obtain y where "y \<in> set vals" "low_byte_name ''ah'' = Inr y" by blast
  with assms(3) show ?thesis by (simp add: low_byte_name_def)
qed

theorem blocked_low_byte_returns_witness:
  "\<exists>vals. supported_values [''al''] (OperandSpec_init [''ah'', ''al''] OT_REG True True 8 True False None) = Inr vals \<and> ''al'' \<in> set vals"
proof -
  have run: "supported_values [''al''] (OperandSpec_init [''ah'', ''al''] OT_REG True True 8 True False None) = Inr [''al'']" by code_simp
  from blocked_low_byte_returns [OF _ _ _ this] show ?thesis using run by (auto simp: OperandSpec_init_def)
qed

lemma has_conditional_branch_source:
  assumes "has_conditional_branch (set_isa_properties isa)" and "\<not> has_conditional_branch isa"
  shows "\<exists>i \<in> set (instructions isa). is_is_control_flow i \<and> is_category i \<notin> set uncond_categories"
proof -
  have "has_conditional_branch (fold (\<lambda>inst s.
     if is_is_control_flow inst
     then (if is_category inst \<in> set uncond_categories then s\<lparr>has_unconditional_branch := True\<rparr>
           else s\<lparr>has_conditional_branch := True\<rparr>)
     else if is_has_mem_operand inst
     then (if is_has_write inst then s\<lparr>has_writes := True\<rparr> else s\<lparr>has_reads := True\<rparr>)
     else s) xs s0) \<Longrightarrow>
     has_conditional_branch s0 \<or> (\<exists>i \<in> set xs. is_is_control_flow i \<and> is_category i \<notin> set uncond_categories)"
    for xs and s0 :: InstructionSet
    by (induction xs arbitrary: s0) (fastforce split: if_splits)+
  from this [of "instructions isa" isa] assms show ?thesis by (auto simp: set_isa_properties_def)
qed

text \<open>
  When the instruction set claims to have conditional branches, there is one to draw, provided the file names its
  jumps consistently: equal names agree on being control flow, and the name of the unconditional jump is not
  used in another category.
\<close>

definition consistent_names :: "string \<Rightarrow> InstructionSpec list \<Rightarrow> bool" where
  "consistent_names jump insts \<longleftrightarrow>
     (\<forall>i \<in> set insts. \<forall>j \<in> set insts. is_name i = is_name j \<longrightarrow> is_is_control_flow i = is_is_control_flow j) \<and>
     (\<forall>i \<in> set insts. is_is_control_flow i \<and> lower (is_name i) = jump \<longrightarrow> is_category i \<in> set uncond_categories)"

lemma set_categories_fields:
  assumes "set_categories C isa = Inr (isa', C')"
  obtains u where "get_unconditional_jump_spec (cf_instruction_set C) = Inr u"
    and "cond_branches isa' = filter (\<lambda>i. is_is_control_flow i \<and> lower (is_name i) \<noteq> lower (is_name u)) (instructions isa)"
    and "has_conditional_branch isa' = has_conditional_branch isa"
    and "non_memory_access_specs isa' = filter (\<lambda>i. \<not> is_is_control_flow i \<and> \<not> is_has_mem_operand i) (instructions isa)"
  using assms by (auto simp: set_categories_def Let_def rbind_eq_Inr_iff py_assert_eq_Inr_iff split: if_splits intro!: that)

lemma reduce_origin:
  assumes "reduce C cats insts = Inr out" and "i \<in> set out"
  shows "\<exists>s \<in> set insts. is_name i = is_name s \<and> is_category i = is_category s \<and> is_is_control_flow i = is_is_control_flow s"
proof -
  from assms obtain mid where mid: "remove_unsupported C cats insts = Inr mid" "reduce_values C mid = Inr out"
    by (auto simp: reduce_def rbind_eq_Inr_iff)
  with assms(2) obtain s ops where "i = s\<lparr>is_operands := ops\<rparr>" "s \<in> set mid" using reduce_values_set [OF mid(2)] by blast
  moreover have "set mid \<subseteq> set insts" using remove_unsupported_set [OF mid(1)] by blast
  ultimately show ?thesis by auto
qed

text \<open>
  When the instruction set claims to have conditional branches, there is one to draw for the terminators of
  basic blocks, provided the file names its jumps consistently.
\<close>
theorem conditional_branches_available:
  assumes "InstructionSet_init C spec_file cats = Inr (isa, C')" and "has_conditional_branch isa"
    and "get_unconditional_jump_spec (cf_instruction_set C) = Inr u" and "read_json_spec spec_file = Inr insts"
    and "consistent_names (lower (is_name u)) insts"
  shows "cond_branches isa \<noteq> []"
proof -
  from assms(1,4) obtain reduced where red1: "reduce C cats insts = Inr reduced"
    and sc1: "set_categories C ((set_isa_properties (unsorted_set insts reduced))\<lparr>instructions := dedup reduced\<rparr>) = Inr (isa, C')"
    by (auto simp: InstructionSet_init_def Let_def rbind_eq_Inr_iff set_isa_properties_instructions unsorted_set_instructions)
  define isa0 where "isa0 = unsorted_set insts reduced"
  have red: "reduce C cats insts = Inr reduced" "instructions isa0 = reduced" "\<not> has_conditional_branch isa0"
    using red1 by (simp_all add: isa0_def unsorted_set_def)
  note sc = sc1 [folded isa0_def]
  obtain u' where u': "get_unconditional_jump_spec (cf_instruction_set C) = Inr u'"
    "cond_branches isa = filter (\<lambda>i. is_is_control_flow i \<and> lower (is_name i) \<noteq> lower (is_name u')) (dedup reduced)"
    "has_conditional_branch (set_isa_properties isa0)"
    using assms(2) by (auto intro: set_categories_fields [OF sc])
  obtain i where i: "i \<in> set reduced" "is_is_control_flow i" "is_category i \<notin> set uncond_categories"
    using has_conditional_branch_source [OF u'(3) red(3)] red(2) by auto
  obtain j where j: "j \<in> set (dedup reduced)" "same_spec i j" using dedup_keeps_class [OF i(1)] by blast
  have "j \<in> set reduced" using j(1) dedup_subset by blast
  from reduce_origin [OF red(1) i(1)] reduce_origin [OF red(1) this] obtain s s' where
    s: "s \<in> set insts" "is_name i = is_name s" "is_category i = is_category s" "is_is_control_flow i = is_is_control_flow s"
    "s' \<in> set insts" "is_name j = is_name s'" "is_is_control_flow j = is_is_control_flow s'" by blast
  have nm: "is_name s = is_name s'" using j(2) s(2,6) by (simp add: same_spec_def)
  then have "is_is_control_flow s = is_is_control_flow s'" using assms(5) s(1,5) unfolding consistent_names_def by blast
  then have "is_is_control_flow j" using s(4,7) i(2) by simp
  moreover have "lower (is_name s) \<noteq> lower (is_name u)"
    using assms(5) s(1,3,4) i(2,3) unfolding consistent_names_def by metis
  then have "lower (is_name j) \<noteq> lower (is_name u)" using nm s(6) by simp
  ultimately have "j \<in> set (cond_branches isa)" using u'(1,2) assms(3) j(1) by simp
  then show ?thesis by auto
qed

definition demo_branch_file :: "instruction_node list" where
  "demo_branch_file = demo_file @ [\<lparr>in_name = ''jz'', in_category = ''BASE-COND_BR'', in_is_control_flow = True,
     in_operands = [], in_implicit_operands = []\<rparr>]"

lemma demo_branch_set:
  "case InstructionSet_init demo_conf_isa demo_branch_file None of Inr (isa, _) \<Rightarrow> has_conditional_branch isa | Inl _ \<Rightarrow> False"
  "case read_json_spec demo_branch_file of Inr insts \<Rightarrow> consistent_names ''jmp'' insts | Inl _ \<Rightarrow> False"
  "case get_unconditional_jump_spec ''x86-64'' of Inr u \<Rightarrow> lower (is_name u) = ''jmp'' | Inl _ \<Rightarrow> False"
  by code_simp+

theorem conditional_branches_available_witness:
  "\<exists>isa C'. InstructionSet_init demo_conf_isa demo_branch_file None = Inr (isa, C') \<and> cond_branches isa \<noteq> []"
proof -
  obtain isa C' insts u where run: "InstructionSet_init demo_conf_isa demo_branch_file None = Inr (isa, C')" "has_conditional_branch isa"
    "read_json_spec demo_branch_file = Inr insts" "consistent_names ''jmp'' insts"
    "get_unconditional_jump_spec ''x86-64'' = Inr u" "lower (is_name u) = ''jmp''"
    using demo_branch_set by (auto split: sum.splits)
  have "cf_instruction_set demo_conf_isa = ''x86-64''" by (simp add: demo_conf_isa_def)
  with run show ?thesis using conditional_branches_available [OF run(1,2) _ run(3)] by auto
qed

end
