(* ===== verification/CodeGenerator.thy ===== *)
theory CodeGenerator
  imports Program IsaSpec TargetDesc PyRandom
begin

text \<open>
  Model of \<^verbatim>\<open>rvzr/code_generator.py\<close>: random operands and instructions that follow their specification, the random
  control flow graph of a function, its terminators, and the distribution of random instructions over its
  blocks; templates and the printer. Random draws come from a \<open>random_source\<close>; the configuration's
  options are arguments. Blocks and nodes are named by numbers, with the nodes in a store as in \<open>BasicBlocks\<close>.
\<close>

section \<open>Operands\<close>

record gen_conf =
  gc_instruction_set :: string
  gc_program_size :: nat
  gc_avg_mem_accesses :: int
  gc_min_bb_per_function :: int
  gc_max_bb_per_function :: int
  gc_min_successors_per_bb :: int
  gc_max_successors_per_bb :: int

definition generate_reg_operand :: "random_source \<Rightarrow> OperandSpec \<Rightarrow> Operand gen" where
  "generate_reg_operand R sp =
     gbind (g_choice R (os_values sp)) (\<lambda>reg. glift (RegisterOp_init reg (os_width sp) (os_src sp) (os_dest sp)))"

definition generate_mem_operand :: "random_source \<Rightarrow> target_desc \<Rightarrow> OperandSpec \<Rightarrow> Operand gen" where
  "generate_mem_operand R T sp =
     gbind (g_choice R (if os_values sp \<noteq> [] then os_values sp else td_mem_index_registers T)) (\<lambda>address_reg.
       gret (MemoryOp_init address_reg (os_width sp) (os_src sp) (os_dest sp)))"

text \<open>\<^verbatim>\<open>int(s, 2)\<close> of a string of bits.\<close>

definition int_base2 :: "string \<Rightarrow> nat res" where
  "int_base2 s = (if s = [] then raise ValueError
     else case radix_value 2 0 s of None \<Rightarrow> raise ValueError | Some n \<Rightarrow> ok n)"

text \<open>\<^verbatim>\<open>0x{value:016x}\<close>: hexadecimal digits, filled with zeros to a width.\<close>

definition hex_padded :: "nat \<Rightarrow> nat \<Rightarrow> string" where
  "hex_padded w n = ''0x'' @ replicate (w - length (hex_digits n)) (CHR ''0'') @ hex_digits n"

definition rotate_bits :: "nat \<Rightarrow> nat \<Rightarrow> nat \<Rightarrow> nat" where
  "rotate_bits w r v = or (drop_bit r v) (and (push_bit (w - r) v) (2 ^ w - 1))"

definition bitmask_value :: "nat \<Rightarrow> nat \<Rightarrow> nat \<Rightarrow> nat \<Rightarrow> nat res" where
  "bitmask_value w pos imms_ones immr =
     (let pattern = replicate (2 ^ pos - imms_ones) (CHR ''0'') @ replicate imms_ones (CHR ''1'');
          value_str = concat (replicate (w div 2 ^ pos) pattern)
      in rbind (int_base2 value_str) (\<lambda>value. ok (rotate_bits w immr value)))"

definition generate_bitmask_operand :: "random_source \<Rightarrow> gen_conf \<Rightarrow> OperandSpec \<Rightarrow> Operand gen" where
  "generate_bitmask_operand R C sp =
     gbind (glift (py_assert (gc_instruction_set C = ''arm64'') (ok ()))) (\<lambda>_.
     gbind (g_randint R 1 (if os_width sp = 64 then 6 else 5)) (\<lambda>imms_zero_pos.
     gbind (g_randint R 1 (2 ^ nat imms_zero_pos - 1)) (\<lambda>imms_ones.
     gbind (g_randint R 0 (os_width sp - 1)) (\<lambda>immr.
     gbind (glift (bitmask_value (nat (os_width sp)) (nat imms_zero_pos) (nat imms_ones) (nat immr))) (\<lambda>value.
       gret (ImmediateOp_init (hex_padded (if os_width sp = 64 then 16 else 8) value) (os_width sp)))))))"

text \<open>The bounds of a range: \<^verbatim>\<open>[a-b]\<close>, where the lower bound may be negative.\<close>

definition imm_range :: "string \<Rightarrow> (int \<times> int) res" where
  "imm_range v =
     (let range0 = split_on (\<lambda>c. c = CHR ''-'') (butlast (tl v))
      in rbind (case range0 of
                  [] # rest \<Rightarrow> (case rest of [] \<Rightarrow> raise IndexError | r # rs \<Rightarrow> ok ((CHR ''-'' # r) # rs))
                | _ \<Rightarrow> ok range0) (\<lambda>range1.
           case range1 of
             [a, b] \<Rightarrow> rbind (int_of_str a) (\<lambda>lo. rbind (int_of_str b) (\<lambda>hi. ok (lo, hi)))
           | _ \<Rightarrow> raise AssertionError))"

definition imm_options :: "string list \<Rightarrow> string list" where
  "imm_options vals = (case rmapM int_of_str vals of Inr ns \<Rightarrow> map str_int ns | Inl _ \<Rightarrow> vals)"

definition width_range :: "OperandSpec \<Rightarrow> (int \<times> int) res" where
  "width_range sp =
     (if os_is_signed sp
      then (if os_width sp < 1 then raise ValueError
            else ok (- (2 ^ nat (os_width sp - 1)), 2 ^ nat (os_width sp - 1) - 1))
      else if os_width sp < 0 then raise ValueError else ok (0, 2 ^ nat (os_width sp) - 1))"

definition generate_imm_operand :: "random_source \<Rightarrow> gen_conf \<Rightarrow> OperandSpec \<Rightarrow> Operand gen" where
  "generate_imm_operand R C sp =
     (case os_values sp of
        v # _ \<Rightarrow>
          if v = ''bitmask'' then generate_bitmask_operand R C sp
          else if CHR ''['' \<notin> set v
          then gbind (g_choice R (imm_options (os_values sp))) (\<lambda>value. gret (ImmediateOp_init value (os_width sp)))
          else gbind (glift (imm_range v)) (\<lambda>(lo, hi).
               gbind (g_randint R lo hi) (\<lambda>value. gret (ImmediateOp_init (str_int value) (os_width sp))))
      | [] \<Rightarrow>
          gbind (glift (width_range sp)) (\<lambda>(lo, hi).
          gbind (g_randint R lo hi) (\<lambda>value. gret (ImmediateOp_init (str_int value) (os_width sp)))))"

definition generate_label_operand :: "Operand gen" where
  "generate_label_operand = gret (LabelOp_init [])"

definition generate_agen_operand :: "random_source \<Rightarrow> target_desc \<Rightarrow> OperandSpec \<Rightarrow> Operand gen" where
  "generate_agen_operand R T sp =
     gbind (g_randint R 1 3) (\<lambda>n_operands.
     gbind (g_choice R (td_mem_index_registers T)) (\<lambda>reg1.
       if n_operands = 1 then gret (AgenOp_init reg1 (os_width sp))
       else gbind (g_choice R (td_mem_index_registers T)) (\<lambda>reg2.
         if n_operands = 2 then gret (AgenOp_init (reg1 @ '' + '' @ reg2) (os_width sp))
         else gbind (g_randint R 0 (2 ^ 16 - 1)) (\<lambda>imm.
           gret (AgenOp_init (reg1 @ '' + '' @ reg2 @ '' + '' @ str_int imm) (os_width sp))))))"

definition generate_flags_operand :: "OperandSpec \<Rightarrow> Instruction \<Rightarrow> Operand gen" where
  "generate_flags_operand sp parent =
     (case get_cond_operand parent of None \<Rightarrow> glift (FlagsOp_init (os_values sp)) | Some _ \<Rightarrow> glift (raise NotImplementedError))"

definition generate_cond_operand :: "random_source \<Rightarrow> string list \<Rightarrow> Operand gen" where
  "generate_cond_operand R conditions = gbind (g_choice R conditions) (\<lambda>cond. gret (CondOp_init cond))"

text \<open>\<^verbatim>\<open>_OperandGenerator.generate\<close>; \<open>conditions\<close> are the keys of the target's \<^verbatim>\<open>branch_conditions\<close>.\<close>

definition generate_operand ::
  "random_source \<Rightarrow> gen_conf \<Rightarrow> target_desc \<Rightarrow> string list \<Rightarrow> OperandSpec \<Rightarrow> Instruction \<Rightarrow> Operand gen" where
  "generate_operand R C T conditions sp parent =
     (case os_type sp of
        OT_REG \<Rightarrow> generate_reg_operand R sp
      | OT_MEM \<Rightarrow> generate_mem_operand R T sp
      | OT_IMM \<Rightarrow> generate_imm_operand R C sp
      | OT_LABEL \<Rightarrow> generate_label_operand
      | OT_AGEN \<Rightarrow> generate_agen_operand R T sp
      | OT_FLAGS \<Rightarrow> generate_flags_operand sp parent
      | OT_COND \<Rightarrow> generate_cond_operand R conditions)"

section \<open>Instructions\<close>

text \<open>The arguments that all generators share.\<close>

record generator =
  g_source :: random_source
  g_conf :: gen_conf
  g_target :: target_desc
  g_conditions :: "string list"

definition generate_instruction :: "generator \<Rightarrow> InstructionSpec \<Rightarrow> bool \<Rightarrow> Instruction gen" where
  "generate_instruction G sp instrumentation =
     (let gen = generate_operand (g_source G) (g_conf G) (g_target G) (g_conditions G)
      in gbind (gfold (\<lambda>i op. gbind (gen op i) (\<lambda>o1. gret (i\<lparr>operands := operands i @ [o1]\<rparr>)))
                  (from_spec sp instrumentation False) (is_operands sp)) (\<lambda>inst.
           gfold (\<lambda>i op. gbind (gen op i) (\<lambda>o1. gret (i\<lparr>implicit_operands := implicit_operands i @ [o1]\<rparr>)))
             inst (is_implicit_operands sp)))"

definition pick_spec ::
  "random_source \<Rightarrow> InstructionSpec list \<Rightarrow> InstructionSpec list \<Rightarrow> InstructionSpec list \<Rightarrow> rat \<Rightarrow> InstructionSpec gen" where
  "pick_spec R non_memory stores loads probability =
     gbind (g_random R) (\<lambda>x.
       if \<not> x < probability then g_choice R non_memory
       else gbind (if stores \<noteq> [] then gbind (g_random R) (\<lambda>y. gret (y < 1 / 2)) else gret False) (\<lambda>search_for_store.
         if search_for_store then g_choice R stores else g_choice R loads))"

definition generate_from_random_spec ::
  "generator \<Rightarrow> InstructionSpec list \<Rightarrow> InstructionSpec list \<Rightarrow> InstructionSpec list \<Rightarrow> rat \<Rightarrow> Instruction gen" where
  "generate_from_random_spec G non_memory stores loads probability =
     gbind (pick_spec (g_source G) non_memory stores loads probability) (\<lambda>sp. generate_instruction G sp False)"

section \<open>The control flow graph of a function\<close>

definition successor_bounds :: "gen_conf \<Rightarrow> InstructionSet \<Rightarrow> (int \<times> int) res" where
  "successor_bounds C isa =
     (if has_conditional_branch isa
      then let hi = (if gc_max_successors_per_bb C < 2 then gc_max_successors_per_bb C else 2);
               lo = (if gc_min_successors_per_bb C < 2 then gc_min_successors_per_bb C else 2)
           in py_assert (lo \<le> hi) (ok (lo, hi))
      else ok (1, 1))"

definition random_node_count :: "random_source \<Rightarrow> gen_conf \<Rightarrow> int gen" where
  "random_node_count R C =
     (if gc_min_bb_per_function C = gc_max_bb_per_function C then gret (gc_min_bb_per_function C)
      else g_randint R (gc_min_bb_per_function C) (gc_max_bb_per_function C))"

fun pick_targets :: "random_source \<Rightarrow> nat \<Rightarrow> nat list \<Rightarrow> nat list gen" where
  "pick_targets R 0 options = gret []"
| "pick_targets R (Suc m) options =
     gbind (g_choice R options) (\<lambda>target.
     gbind (pick_targets R m (remove1 target options)) (\<lambda>ts. gret (target # ts)))"

text \<open>
  The successors of the i-th of the blocks \<open>ids\<close>. The number is drawn and adjusted near the end, the next block
  is always the first successor, the others are drawn from the blocks after it and the exit.
\<close>

definition choose_successors :: "random_source \<Rightarrow> nat list \<Rightarrow> nat \<Rightarrow> int \<times> int \<Rightarrow> nat \<Rightarrow> nat list gen" where
  "choose_successors R ids exit_id bounds i =
     (if Suc i = length ids then gret [exit_id]
      else gbind (g_randint R (fst bounds) (snd bounds)) (\<lambda>drawn.
        let successor_count = (if drawn + int i > int (length ids) then int (length ids) - int i else drawn);
            options = drop (i + 2) ids @ [exit_id]
        in gbind (pick_targets R (nat (successor_count - 1)) options) (\<lambda>ts. gret (ids ! Suc i # ts))))"

definition empty_blocks :: "nat \<Rightarrow> string \<Rightarrow> nat \<Rightarrow> 'i BasicBlock list" where
  "empty_blocks first label n =
     map (\<lambda>i. BasicBlock_init (first + i) (''.bb_'' @ removeprefix label ''.function_'' @ ''.'' @ str_nat i) False) [0..<n]"

definition set_first_operand :: "Instruction \<Rightarrow> string \<Rightarrow> Instruction res" where
  "set_first_operand inst v =
     rbind (py_nth (operands inst) 0) (\<lambda>o1.
       py_assert (is_label o1) (ok (inst\<lparr>operands := (operands inst)[0 := o1\<lparr>op_value := v\<rparr>]\<rparr>)))"

text \<open>The blocks of the function get the numbers after \<open>fid\<close>, which is the number of its exit.\<close>

definition generate_empty :: "generator \<Rightarrow> InstructionSet \<Rightarrow> nat \<Rightarrow> string \<Rightarrow> nat \<Rightarrow> Instruction Function gen" where
  "generate_empty G isa fid label parent =
     (let func = Function_init fid label parent
      in gbind (glift (successor_bounds (g_conf G) isa)) (\<lambda>bounds.
         gbind (random_node_count (g_source G) (g_conf G)) (\<lambda>node_count.
           let nodes = empty_blocks (Suc fid) label (nat node_count); ids = map bb_id nodes
           in gbind (gmapM (choose_successors (g_source G) ids fid bounds) [0..<length ids]) (\<lambda>succs.
              gbind (glift (get_unconditional_jump_spec (gc_instruction_set (g_conf G)))) (\<lambda>sp.
              gbind (generate_instruction G sp False) (\<lambda>inst.
              gbind (glift (set_first_operand inst TC_EXIT_LABEL)) (\<lambda>jump.
              gbind (glift (get_exit_bb func)) (\<lambda>exit_bb.
                glift (fn_extend (func\<lparr>all_bb := [exit_bb\<lparr>bb_terminators := [jump]\<rparr>]\<rparr>)
                         (map (\<lambda>(b, ss). b\<lparr>bb_successors := ss\<rparr>) (zip nodes succs)))))))))))"

section \<open>Filling a function\<close>

text \<open>The first label operand of a terminator is set to its destination.\<close>

fun set_first_label :: "string \<Rightarrow> Operand list \<Rightarrow> Operand list" where
  "set_first_label v [] = []"
| "set_first_label v (o1 # os) = (if is_label o1 then o1\<lparr>op_value := v\<rparr> # os else o1 # set_first_label v os)"

definition set_label :: "string \<Rightarrow> Instruction \<Rightarrow> Instruction res" where
  "set_label v inst =
     (case get_label_operand inst of None \<Rightarrow> raise AssertionError
      | Some _ \<Rightarrow> ok (inst\<lparr>operands := set_first_label v (operands inst)\<rparr>))"

definition add_fallthrough :: "generator \<Rightarrow> 'i BasicBlock \<Rightarrow> Instruction gen" where
  "add_fallthrough G destination =
     gbind (glift (get_unconditional_jump_spec (gc_instruction_set (g_conf G)))) (\<lambda>sp.
     gbind (generate_instruction G sp False) (\<lambda>terminator. glift (set_label (bb_name destination) terminator)))"

text \<open>A reference to a block, as the block of the function with its number.\<close>

definition block_of :: "'i Function \<Rightarrow> nat \<Rightarrow> 'i BasicBlock res" where
  "block_of f ident = (case find (\<lambda>b. bb_id b = ident) (all_bb f) of None \<Rightarrow> raise KeyError | Some b \<Rightarrow> ok b)"

definition terminators_of ::
  "generator \<Rightarrow> InstructionSet \<Rightarrow> Instruction Function \<Rightarrow> Instruction BasicBlock \<Rightarrow> Instruction list gen" where
  "terminators_of G isa f bb =
     gbind (glift (py_assert (bb_terminators bb = []) (ok ()))) (\<lambda>_.
       case bb_successors bb of
         [] \<Rightarrow> gret []
       | [s] \<Rightarrow> gbind (glift (block_of f s)) (\<lambda>dest.
                if bb_is_exit dest then gret [] else gbind (add_fallthrough G dest) (\<lambda>t. gret [t]))
       | [s1, s2] \<Rightarrow>
           gbind (g_choice (g_source G) (cond_branches isa)) (\<lambda>sp.
           gbind (generate_instruction G sp False) (\<lambda>terminator.
           gbind (glift (block_of f s1)) (\<lambda>dest1.
           gbind (glift (set_label (bb_name dest1) terminator)) (\<lambda>t1.
           gbind (glift (block_of f s2)) (\<lambda>dest2.
           gbind (add_fallthrough G dest2) (\<lambda>t2. gret [t1, t2]))))))
       | _ \<Rightarrow> glift (raise NotImplementedError))"

definition add_terminators_in_function ::
  "generator \<Rightarrow> InstructionSet \<Rightarrow> Instruction Function \<Rightarrow> Instruction Function gen" where
  "add_terminators_in_function G isa f =
     (if all_bb f = [] then gret f
      else gbind (gmapM (\<lambda>bb. gbind (terminators_of G isa f bb) (\<lambda>ts. gret (bb\<lparr>bb_terminators := ts\<rparr>))) (fn_iter f))
             (\<lambda>bbs. gret (f\<lparr>all_bb := bbs @ [last (all_bb f)]\<rparr>)))"

text \<open>One instruction goes to the end of a random block. Nodes are in the store of the program.\<close>

definition add_instruction ::
  "generator \<Rightarrow> InstructionSet \<Rightarrow> Instruction node_store \<times> Instruction BasicBlock list \<Rightarrow>
   (Instruction node_store \<times> Instruction BasicBlock list) gen" where
  "add_instruction G isa sb = (case sb of (s, bbs) \<Rightarrow>
     gbind (g_choice (g_source G) [0..<length bbs]) (\<lambda>j.
     gbind (generate_from_random_spec G (non_memory_access_specs isa) (store_instructions isa) (load_instruction isa)
              (of_int (gc_avg_mem_accesses (g_conf G)) / of_nat (gc_program_size (g_conf G)))) (\<lambda>inst.
     gbind (glift (insert_after s (bbs ! j) (get_last (bbs ! j)) inst)) (\<lambda>(s', b'). gret (s', bbs[j := b'])))))"

definition add_instructions_in_function ::
  "generator \<Rightarrow> InstructionSet \<Rightarrow> Instruction node_store \<Rightarrow> Instruction Function \<Rightarrow>
   (Instruction node_store \<times> Instruction Function) gen" where
  "add_instructions_in_function G isa s f =
     gbind (glift (py_assert (list_all (\<lambda>b. bb_len s b = Some 0) (fn_iter f)) (ok ()))) (\<lambda>_.
     gbind (gfold (\<lambda>sb _. add_instruction G isa sb) (s, fn_iter f) [0..<gc_program_size (g_conf G)]) (\<lambda>(s', bbs).
       gret (s', f\<lparr>all_bb := bbs @ drop (length bbs) (all_bb f)\<rparr>)))"

definition fill_function ::
  "generator \<Rightarrow> InstructionSet \<Rightarrow> Instruction node_store \<Rightarrow> Instruction Function \<Rightarrow>
   (Instruction node_store \<times> Instruction Function) gen" where
  "fill_function G isa s f =
     gbind (add_terminators_in_function G isa f) (\<lambda>f1. add_instructions_in_function G isa s f1)"

section \<open>Instructions follow their specifications\<close>

text \<open>What the generator needs of an operand's specification, and what the operand it builds has in common with it.\<close>

definition imm_spec_ok :: "gen_conf \<Rightarrow> OperandSpec \<Rightarrow> bool" where
  "imm_spec_ok C sp =
     (case os_values sp of
        [] \<Rightarrow> 1 \<le> os_width sp
      | v # _ \<Rightarrow> if v = ''bitmask'' then gc_instruction_set C = ''arm64'' \<and> os_width sp \<in> {32, 64}
                else CHR ''['' \<in> set v \<longrightarrow> (case imm_range v of Inr (lo, hi) \<Rightarrow> lo \<le> hi | Inl _ \<Rightarrow> False))"

definition operand_spec_ok :: "generator \<Rightarrow> OperandSpec \<Rightarrow> bool" where
  "operand_spec_ok G sp =
     (case os_type sp of
        OT_REG \<Rightarrow> os_values sp \<noteq> [] \<and> os_width sp \<in> set RegSizes
      | OT_MEM \<Rightarrow> os_values sp \<noteq> [] \<or> td_mem_index_registers (g_target G) \<noteq> []
      | OT_IMM \<Rightarrow> imm_spec_ok (g_conf G) sp
      | OT_LABEL \<Rightarrow> True
      | OT_AGEN \<Rightarrow> td_mem_index_registers (g_target G) \<noteq> []
      | OT_FLAGS \<Rightarrow> length (os_values sp) = length flag_names
      | OT_COND \<Rightarrow> g_conditions G \<noteq> [])"

definition spec_ok :: "generator \<Rightarrow> InstructionSpec \<Rightarrow> bool" where
  "spec_ok G sp \<longleftrightarrow> list_all (operand_spec_ok G) (is_operands sp @ is_implicit_operands sp) \<and>
     (list_all (\<lambda>op. os_type op \<noteq> OT_FLAGS) (is_operands sp @ is_implicit_operands sp) \<or>
      list_all (\<lambda>op. os_type op \<noteq> OT_COND) (is_operands sp))"

definition operand_matches :: "generator \<Rightarrow> OperandSpec \<Rightarrow> Operand \<Rightarrow> bool" where
  "operand_matches G sp o1 =
     (case os_type sp of
        OT_REG \<Rightarrow> op_class o1 = RegisterOp (os_width sp) \<and> op_value o1 \<in> lower ` set (os_values sp) \<and>
                  op_src o1 = os_src sp \<and> op_dest o1 = os_dest sp
      | OT_MEM \<Rightarrow> op_class o1 = MemoryOp (os_width sp) \<and>
                  op_value o1 \<in> lower ` set (if os_values sp \<noteq> [] then os_values sp else td_mem_index_registers (g_target G)) \<and>
                  op_src o1 = os_src sp \<and> op_dest o1 = os_dest sp
      | OT_IMM \<Rightarrow> op_class o1 = ImmediateOp (os_width sp) \<and> op_src o1 \<and> \<not> op_dest o1
      | OT_LABEL \<Rightarrow> op_class o1 = LabelOp
      | OT_AGEN \<Rightarrow> op_class o1 = AgenOp (os_width sp)
      | OT_FLAGS \<Rightarrow> op_class o1 = FlagsOp (os_values sp)
      | OT_COND \<Rightarrow> op_class o1 = CondOp \<and> op_value o1 \<in> lower ` set (g_conditions G))"

definition instruction_matches :: "generator \<Rightarrow> InstructionSpec \<Rightarrow> Instruction \<Rightarrow> bool" where
  "instruction_matches G sp i \<longleftrightarrow> i_name i = is_name sp \<and> i_category i = is_category sp \<and>
     is_control_flow i = is_is_control_flow sp \<and>
     list_all2 (operand_matches G) (is_operands sp) (operands i) \<and>
     list_all2 (operand_matches G) (is_implicit_operands sp) (implicit_operands i)"

subsection \<open>Bit masks\<close>

lemma radix_value_bits:
  assumes "set s \<subseteq> {CHR ''0'', CHR ''1''}"
  shows "\<exists>n. radix_value 2 acc s = Some n \<and>
    (\<forall>i. bit n i \<longleftrightarrow> (if i < length s then rev s ! i = CHR ''1'' else bit acc (i - length s)))"
  using assms
proof (induction s arbitrary: acc)
  case (Cons c cs)
  define d where "d = (if c = CHR ''1'' then 1 else 0 :: nat)"
  have v: "radix_value 2 acc (c # cs) = radix_value 2 (2 * acc + d) cs"
    using Cons.prems by (auto simp: d_def hex_digit_value_def)
  have b: "bit (2 * acc + d) j \<longleftrightarrow> (if j = 0 then c = CHR ''1'' else bit acc (j - 1))" for j
    by (cases j) (auto simp: d_def bit_0 bit_Suc)
  from Cons.IH [of "2 * acc + d"] Cons.prems obtain n where n: "radix_value 2 (2 * acc + d) cs = Some n"
    "\<forall>i. bit n i \<longleftrightarrow> (if i < length cs then rev cs ! i = CHR ''1'' else bit (2 * acc + d) (i - length cs))" by auto
  have "bit n i \<longleftrightarrow> (if i < length (c # cs) then rev (c # cs) ! i = CHR ''1'' else bit acc (i - length (c # cs)))" for i
    using n(2) by (cases "i < length cs") (auto simp: b nth_append)
  with n(1) v show ?case by auto
qed simp

lemma nth_concat_replicate: "i < m * length q \<Longrightarrow> concat (replicate m q) ! i = q ! (i mod length q)"
proof (induction m arbitrary: i)
  case (Suc m)
  show ?case
  proof (cases "i < length q")
    case False
    then have "concat (replicate (Suc m) q) ! i = concat (replicate m q) ! (i - length q)" by (simp add: nth_append)
    also have "\<dots> = q ! ((i - length q) mod length q)" using Suc False by (intro Suc.IH) simp
    also have "(i - length q) mod length q = i mod length q" using False by (simp add: le_mod_geq)
    finally show ?thesis .
  qed (simp add: nth_append)
qed simp

lemma rev_concat_replicate: "rev (concat (replicate m q)) = concat (replicate m (rev q))"
  by (simp add: rev_concat)

lemma length_concat_replicate: "length (concat (replicate m q)) = m * length q"
  by (induction m) auto

lemma bit_ones: "bit (2 ^ w - 1 :: nat) i \<longleftrightarrow> i < w"
  using bit_mask_iff [of w i, where ?'a = nat] by (simp only: mask_eq_exp_minus_1 possible_bit_nat simp_thms)

lemma bitmask_value_bits:
  assumes "2 ^ pos dvd w" and "0 < w" and "ones < 2 ^ pos" and "r < w"
  shows "\<exists>v. bitmask_value w pos ones r = Inr v \<and> v < 2 ^ w \<and> (\<forall>i < w. bit v i \<longleftrightarrow> (i + r) mod 2 ^ pos < ones)"
proof -
  define q where "q = replicate (2 ^ pos - ones) (CHR ''0'') @ replicate ones (CHR ''1'')"
  define s where "s = concat (replicate (w div 2 ^ pos) q)"
  have lq: "length q = 2 ^ pos" using assms(3) by (simp add: q_def)
  have ls: "length s = w" using assms(1) by (simp add: s_def length_concat_replicate lq)
  have "set s \<subseteq> {CHR ''0'', CHR ''1''}" by (auto simp: s_def q_def split: if_splits)
  from radix_value_bits [OF this, of 0] obtain n where n: "radix_value 2 0 s = Some n"
    "\<And>i. bit n i \<longleftrightarrow> i < length s \<and> rev s ! i = CHR ''1''" by auto
  have nb: "bit n i \<longleftrightarrow> i < w \<and> i mod 2 ^ pos < ones" for i
  proof -
    have "rev s ! i = rev q ! (i mod 2 ^ pos)" if "i < w"
      using that assms(1) nth_concat_replicate [of i "w div 2 ^ pos" "rev q"] by (simp add: s_def rev_concat_replicate lq)
    moreover have "rev q ! j = CHR ''1'' \<longleftrightarrow> j < ones" if "j < 2 ^ pos" for j
      using that assms(3) by (auto simp: q_def nth_append)
    then have "rev q ! (i mod 2 ^ pos) = CHR ''1'' \<longleftrightarrow> i mod 2 ^ pos < ones" by simp
    ultimately show ?thesis unfolding n(2) ls by metis
  qed
  let ?v = "rotate_bits w r n"
  have vb: "bit ?v i \<longleftrightarrow> (if i + r < w then (i + r) mod 2 ^ pos < ones else i < w \<and> (i + r - w) mod 2 ^ pos < ones)" for i
    using assms(4) by (auto simp: rotate_bits_def bit_or_iff bit_and_iff bit_drop_bit_eq bit_push_bit_iff bit_ones nb ac_simps
        simp del: One_nat_def)
  have wrap: "(i + r - w) mod 2 ^ pos = (i + r) mod 2 ^ pos" if "w \<le> i + r" for i
    using that assms(1) by (metis le_add_diff_inverse2 mod_mult_self2 dvd_def)
  have "bit ?v i \<longleftrightarrow> (i + r) mod 2 ^ pos < ones" if "i < w" for i using that wrap vb by auto
  moreover have "take_bit w ?v = ?v" by (rule bit_eqI) (use vb in \<open>auto simp: bit_take_bit_iff split: if_splits\<close>)
  then have "?v < 2 ^ w" by (metis take_bit_nat_less_exp)
  moreover have "s \<noteq> []" using ls assms(2) by auto
  then have "bitmask_value w pos ones r = Inr ?v"
    using n(1) by (simp add: bitmask_value_def int_base2_def Let_def q_def [symmetric] s_def [symmetric] del: concat_eq_Nil_conv)
  ultimately show ?thesis by blast
qed


lemma lower_char_digit [simp]: "d < 16 \<Longrightarrow> lower_char (hex_digit d) = hex_digit d"
  by (auto simp: lower_char_def hex_digit_def Let_def)

lemma lower_hex_digits [simp]: "map lower_char (hex_digits n) = hex_digits n"
proof (induction n rule: hex_digits.induct)
  case (1 n)
  then show ?case by (cases "n < 16") (simp_all add: hex_digits.simps [of n])
qed

lemma lower_str_nat [simp]: "map lower_char (str_nat n) = str_nat n"
proof (induction n rule: str_nat.induct)
  case (1 n)
  have d: "lower_char (dec_digit d) = dec_digit d" if "d < 10" for d
    using that by (auto simp: lower_char_def dec_digit_def Let_def)
  from 1 show ?case by (cases "n < 10") (simp_all add: str_nat.simps [of n] d)
qed

lemma lower_str_int [simp]: "lower (str_int i) = str_int i"
  by (simp add: lower_def str_int_def) (simp add: lower_char_def)

lemma lower_hex_padded: "lower (hex_padded w n) = hex_padded w n"
  by (simp add: lower_def hex_padded_def) (simp add: lower_char_def)

lemma radix_value_16: "radix_value 16 acc s = hex_value acc s"
proof (induction s arbitrary: acc)
  case (Cons c cs)
  have "d < 16" if "hex_digit_value c = Some d" for d
    using that by (auto simp: hex_digit_value_def Let_def split: if_splits)
  with Cons show ?case by (auto split: option.split)
qed simp

lemma int_base0_hex_padded: "int_base0 (hex_padded w n) = Inr (int n)"
proof -
  have z: "hex_value 0 (replicate m (CHR ''0'') @ s) = hex_value 0 s" for m s
    by (induction m) (simp_all add: hex_digit_value_def)
  have "hex_digits n \<noteq> []" by (subst hex_digits.simps) simp
  then show ?thesis by (simp add: hex_padded_def int_base0_def unsigned_base0_def radix_value_16 z hex_value_digits)
qed

lemma element_divides:
  assumes "pos \<in> {1..6}" and "pos \<le> 5 \<or> w = 64" and "w \<in> {32, 64 :: nat}"
  shows "2 ^ pos dvd w \<and> 0 < w"
proof (cases "w = 64")
  case True
  then have "w = 2 ^ pos * 2 ^ (6 - pos)" using assms(1) by (simp flip: power_add)
  then show ?thesis using assms(3) by (metis dvd_triv_left insertE singletonD zero_less_numeral)
next
  case False
  then have "w = 2 ^ pos * 2 ^ (5 - pos)" using assms by (auto simp flip: power_add)
  then show ?thesis using assms(3) by (metis dvd_triv_left insertE singletonD zero_less_numeral)
qed

lemma residue_hit:
  assumes "m < 2 ^ pos" and "2 ^ pos \<le> (w :: nat)"
  shows "\<exists>i < w. (i + r) mod 2 ^ pos = m"
proof -
  let ?N = "2 ^ pos :: nat"
  let ?i = "(m + (?N - r mod ?N)) mod ?N"
  have le: "r mod ?N \<le> ?N" by (simp add: less_imp_le)
  have "(?i + r) mod ?N = (m + (?N - r mod ?N) + r) mod ?N" by (simp add: mod_simps)
  also have "m + (?N - r mod ?N) + r = m + ?N * (1 + r div ?N)"
    using le mult_div_mod_eq [of ?N r] by (simp only: distrib_left mult_1_right)
  also have "\<dots> mod ?N = m" using assms(1) by (simp only: mod_mult_self2 mod_less)
  finally have "(?i + r) mod ?N = m" .
  moreover have "?i < ?N" by simp
  ultimately show ?thesis using assms(2) less_le_trans by blast
qed

definition encodable_bitmask :: "nat \<Rightarrow> nat \<Rightarrow> bool" where
  "encodable_bitmask w v \<longleftrightarrow> (\<exists>pos ones r. 2 ^ pos \<le> w \<and> 1 \<le> ones \<and> ones < 2 ^ pos \<and>
     (\<forall>i < w. bit v i \<longleftrightarrow> (i + r) mod 2 ^ pos < ones)) \<and> 0 < v \<and> v < 2 ^ w - 1"

lemma always_bitmask_operand:
  assumes "gc_instruction_set C = ''arm64''" and "os_width sp = int w" and "w \<in> {32, 64}"
  shows "always (generate_bitmask_operand R C sp)
     (\<lambda>o1. (\<exists>v. int_base0 (op_value o1) = Inr (int v) \<and> encodable_bitmask w v) \<and>
        op_class o1 = ImmediateOp (int w) \<and> op_src o1 \<and> \<not> op_dest o1)" (is "always _ ?P")
proof -
  have result: "?P (ImmediateOp_init (hex_padded d v) (int w))"
    if A: "bitmask_value w pos ones r = Inr v" "pos \<in> {1..6}" "pos \<le> 5 \<or> w = 64" "1 \<le> ones" "ones < 2 ^ pos" "r < w" for d v pos ones r
  proof -
    have dvd: "2 ^ pos dvd w" and w: "0 < w" using element_divides [OF A(2,3) assms(3)] by simp_all
    have le: "2 ^ pos \<le> w" by (rule dvd_imp_le [OF dvd w])
    from bitmask_value_bits [OF dvd w A(5,6)] A(1) have v: "v < 2 ^ w" "\<forall>i < w. bit v i \<longleftrightarrow> (i + r) mod 2 ^ pos < ones"
      by auto
    obtain i where i: "i < w" "(i + r) mod 2 ^ pos = 0" using residue_hit [OF _ le, of 0 r] by auto
    have "bit v i" using v(2) i A(4) by (simp only: i(2))
    then have "v \<noteq> 0" by (cases "v = 0") simp_all
    moreover obtain j where j: "j < w" "(j + r) mod 2 ^ pos = ones" using residue_hit [OF A(5) le, of r] by blast
    then have "v \<noteq> 2 ^ w - 1" using v(2) bit_ones [of w j] by auto
    ultimately have "0 < v \<and> v < 2 ^ w - 1" using v(1) by linarith
    moreover have "int_base0 (op_value (ImmediateOp_init (hex_padded d v) (int w))) = Inr (int v)"
      by (simp add: ImmediateOp_init_def Operand_init_def lower_hex_padded int_base0_hex_padded)
    moreover have "encodable_bitmask w v" unfolding encodable_bitmask_def using le A(4,5) v(2) calculation(1) by blast
    ultimately show ?thesis by (auto simp: ImmediateOp_init_def Operand_init_def)
  qed
  show ?thesis
    unfolding generate_bitmask_operand_def assms(1,2) simp_thms py_assert_True gbind_glift
  proof (intro always_bind_randint)
    fix p n q :: int
    assume p: "1 \<le> p" "p \<le> (if int w = 64 then 6 else 5)" and n: "1 \<le> n" "n \<le> 2 ^ nat p - 1" and q: "0 \<le> q" "q \<le> int w - 1"
    have b: "nat p \<in> {1..6}" "nat p \<le> 5 \<or> w = 64" "1 \<le> nat n" "nat q < w" using p n(1) q by (auto split: if_splits)
    have "n < 2 ^ nat p" using n(2) by simp
    then have o: "nat n < 2 ^ nat p" by (simp add: nat_less_iff)
    have dw: "2 ^ nat p dvd w" "0 < w" using element_divides [OF b(1,2) assms(3)] by simp_all
    obtain v where v: "bitmask_value w (nat p) (nat n) (nat q) = Inr v" using bitmask_value_bits [OF dw o b(4)] by blast
    show "always (gbind (glift (bitmask_value (nat (int w)) (nat p) (nat n) (nat q))) (\<lambda>value.
       gret (ImmediateOp_init (hex_padded (if int w = 64 then 16 else 8) value) (int w)))) ?P"
      unfolding nat_int v gbind_glift by (rule always_gret) (rule result [OF v b(1,2,3) o b(4)])
  qed (use assms(3) in auto)
qed

text \<open>
  C32: Bit mask immediates of ARM64 are encodable. For both operand widths the generator returns, whatever is
  drawn, and the immediate is a pattern of \<open>ones\<close> ones in elements of \<open>2 ^ pos\<close> bits that are repeated over the
  register and rotated. It is never zero and never all ones, which have no encoding.
\<close>
theorem bitmask_operand_encodable:
  assumes "gc_instruction_set C = ''arm64''" and "os_width sp = int w" and "w \<in> {32, 64}"
  shows "\<exists>o1 k' v. generate_bitmask_operand R C sp k = Inr (o1, k') \<and> int_base0 (op_value o1) = Inr (int v) \<and>
     encodable_bitmask w v"
  by (rule alwaysE [OF always_bitmask_operand [OF assms]]) blast

definition demo_bitmask_conf :: gen_conf where
  "demo_bitmask_conf = \<lparr>gc_instruction_set = ''arm64'', gc_program_size = 4, gc_avg_mem_accesses = 2,
     gc_min_bb_per_function = 2, gc_max_bb_per_function = 3, gc_min_successors_per_bb = 1, gc_max_successors_per_bb = 2\<rparr>"

definition demo_source :: random_source where
  "demo_source = \<lparr>ints = (\<lambda>_. 0), fractions = (\<lambda>_. 0)\<rparr>"

theorem bitmask_operand_encodable_witness:
  "\<exists>o1 k' v. generate_bitmask_operand demo_source demo_bitmask_conf
     (OperandSpec_init [''bitmask''] OT_IMM True False 64 True False None) 0 = Inr (o1, k') \<and>
     int_base0 (op_value o1) = Inr (int v) \<and> encodable_bitmask 64 v"
proof -
  have "gc_instruction_set demo_bitmask_conf = ''arm64''" by (simp add: demo_bitmask_conf_def)
  moreover have "os_width (OperandSpec_init [''bitmask''] OT_IMM True False 64 True False None) = int 64"
    by (simp add: OperandSpec_init_def)
  ultimately show ?thesis using bitmask_operand_encodable by (metis insertCI)
qed

subsection \<open>All operands\<close>

lemmas operand_inits = RegisterOp_init_def MemoryOp_init_def ImmediateOp_init_def LabelOp_init_def AgenOp_init_def
  FlagsOp_init_def CondOp_init_def Operand_init_def

lemma width_range_ok:
  assumes "1 \<le> os_width sp"
  shows "\<exists>lo hi. width_range sp = Inr (lo, hi) \<and> lo \<le> hi"
proof -
  have "- (2 ^ n) \<le> (2 ^ n - 1 :: int)" for n
    using one_le_power [of "2 :: int" n] by linarith
  then show ?thesis using assms by (auto simp: width_range_def)
qed

lemma always_imm_operand:
  assumes "imm_spec_ok C sp"
  shows "always (generate_imm_operand R C sp) (\<lambda>o1. op_class o1 = ImmediateOp (os_width sp) \<and> op_src o1 \<and> \<not> op_dest o1)"
    (is "always _ ?P")
proof -
  have lift: "always (gbind (g_randint R lo hi) (\<lambda>value. gret (ImmediateOp_init (str_int value) (os_width sp)))) ?P"
    if "lo \<le> hi" for lo hi
    using that by (auto intro!: always_binds simp: operand_inits)
  show ?thesis
  proof (cases "os_values sp")
    case Nil
    then obtain lo hi where "width_range sp = Inr (lo, hi)" "lo \<le> hi"
      using width_range_ok [of sp] assms by (auto simp: imm_spec_ok_def)
    then show ?thesis using lift by (simp add: generate_imm_operand_def Nil)
  next
    case (Cons v vs)
    consider "v = ''bitmask''" | "v \<noteq> ''bitmask''" "CHR ''['' \<notin> set v" | "v \<noteq> ''bitmask''" "CHR ''['' \<in> set v" by blast
    then show ?thesis
    proof cases
      case 1
      then obtain w where w: "gc_instruction_set C = ''arm64''" "os_width sp = int w" "w \<in> {32, 64}"
        using assms by (force simp: imm_spec_ok_def Cons)
      from always_mono [OF always_bitmask_operand [OF w]] show ?thesis
        by (simp add: generate_imm_operand_def Cons 1 w(2))
    next
      case 2
      have "imm_options (os_values sp) \<noteq> []"
        using rmapM_length [of int_of_str "os_values sp"] by (auto simp: imm_options_def Cons split: sum.split)
      with 2 show ?thesis by (auto simp: generate_imm_operand_def Cons operand_inits intro!: always_binds)
    next
      case 3
      then obtain lo hi where "imm_range v = Inr (lo, hi)" "lo \<le> hi"
        using assms by (auto simp: imm_spec_ok_def Cons split: sum.splits)
      then show ?thesis using 3 lift by (simp add: generate_imm_operand_def Cons)
    qed
  qed
qed


lemma always_operand:
  assumes "operand_spec_ok G sp" and "os_type sp = OT_FLAGS \<Longrightarrow> get_cond_operand parent = None"
  shows "always (generate_operand (g_source G) (g_conf G) (g_target G) (g_conditions G) sp parent) (operand_matches G sp)"
proof (cases "os_type sp")
  case OT_REG
  with assms(1) show ?thesis
    by (auto simp: generate_operand_def generate_reg_operand_def operand_spec_ok_def operand_matches_def operand_inits
        intro!: always_binds always_glift always_gret)
next
  case OT_MEM
  with assms(1) show ?thesis
    by (auto simp: generate_operand_def generate_mem_operand_def operand_spec_ok_def operand_matches_def operand_inits
        intro!: always_binds always_gret)
next
  case OT_IMM
  with assms(1) have "imm_spec_ok (g_conf G) sp" by (simp add: operand_spec_ok_def)
  from always_mono [OF always_imm_operand [OF this], of "operand_matches G sp"] OT_IMM show ?thesis
    by (simp add: generate_operand_def operand_matches_def)
next
  case OT_AGEN
  with assms(1) show ?thesis
    by (auto simp: generate_operand_def generate_agen_operand_def operand_spec_ok_def operand_matches_def operand_inits
        intro!: always_binds always_gret)
next
  case OT_COND
  with assms(1) show ?thesis
    by (auto simp: generate_operand_def generate_cond_operand_def operand_spec_ok_def operand_matches_def operand_inits
        intro!: always_binds always_gret)
next
  case OT_FLAGS
  with assms show ?thesis
    by (auto simp: generate_operand_def generate_flags_operand_def operand_spec_ok_def operand_matches_def operand_inits
        intro!: always_glift)
next
  case OT_LABEL
  then show ?thesis by (auto simp: generate_operand_def generate_label_operand_def operand_matches_def operand_inits)
qed

lemma matches_no_cond:
  assumes "list_all2 (operand_matches G) ops os" and "list_all (\<lambda>op. os_type op \<noteq> OT_COND) ops"
  shows "find is_cond os = None"
proof -
  have "\<not> is_cond o1" if "operand_matches G op o1" "os_type op \<noteq> OT_COND" for op o1
    using that by (auto simp: operand_matches_def is_cond_def split: OT.splits)
  with assms have "\<forall>o1 \<in> set os. \<not> is_cond o1"
    unfolding list_all_length list_all2_conv_all_nth by (metis in_set_conv_nth)
  then show ?thesis by (simp add: find_None_iff)
qed

lemma always_instruction:
  assumes "spec_ok G sp"
  shows "always (generate_instruction G sp b) (\<lambda>i. instruction_matches G sp i \<and> is_instrumentation i = b)"
proof -
  let ?gen = "generate_operand (g_source G) (g_conf G) (g_target G) (g_conditions G)"
  let ?base = "\<lambda>i :: Instruction. i_name i = is_name sp \<and> i_category i = is_category sp \<and> is_control_flow i = is_is_control_flow sp \<and>
     is_instrumentation i = b"
  let ?I = "\<lambda>done i. ?base i \<and> list_all2 (operand_matches G) done (operands i) \<and> implicit_operands i = [] \<and> set done \<subseteq> set (is_operands sp)"
  let ?J = "\<lambda>done i. ?base i \<and> list_all2 (operand_matches G) (is_operands sp) (operands i) \<and> list_all2 (operand_matches G) done (implicit_operands i)"
  have ok: "operand_spec_ok G op" if "op \<in> set (is_operands sp) \<union> set (is_implicit_operands sp)" for op
    using assms that by (auto simp: spec_ok_def list_all_iff)
  have nocond: "get_cond_operand i = None"
    if "list_all2 (operand_matches G) done (operands i)" "set done \<subseteq> set (is_operands sp)"
      "op \<in> set (is_operands sp) \<union> set (is_implicit_operands sp)" "os_type op = OT_FLAGS" for i op "done"
    using assms matches_no_cond [OF that(1)] that(2-4) by (auto simp: spec_ok_def list_all_iff get_cond_operand_def)
  have e: "always (gfold (\<lambda>i op. gbind (?gen op i) (\<lambda>o1. gret (i\<lparr>operands := operands i @ [o1]\<rparr>)))
      (from_spec sp b False) (is_operands sp)) (?I ([] @ is_operands sp))"
  proof (rule always_gfold_prefix)
    show "?I [] (from_spec sp b False)" by (simp add: from_spec_def Instruction_init_def)
    fix ys op i assume op: "op \<in> set (is_operands sp)" and I: "?I ys i"
    have "always (?gen op i) (operand_matches G op)" using ok nocond I op by (intro always_operand) auto
    then show "always (gbind (?gen op i) (\<lambda>o1. gret (i\<lparr>operands := operands i @ [o1]\<rparr>))) (?I (ys @ [op]))"
      by (rule always_gbind) (use I op in \<open>auto intro!: list_all2_appendI\<close>)
  qed
  have i: "always (gfold (\<lambda>i op. gbind (?gen op i) (\<lambda>o1. gret (i\<lparr>implicit_operands := implicit_operands i @ [o1]\<rparr>)))
      inst (is_implicit_operands sp)) (?J ([] @ is_implicit_operands sp))" if "?I (is_operands sp) inst" for inst
  proof (rule always_gfold_prefix)
    show "?J [] inst" using that by simp
    fix ys op i assume op: "op \<in> set (is_implicit_operands sp)" and J: "?J ys i"
    have "always (?gen op i) (operand_matches G op)" using ok nocond [of "is_operands sp"] J op by (intro always_operand) auto
    then show "always (gbind (?gen op i) (\<lambda>o1. gret (i\<lparr>implicit_operands := implicit_operands i @ [o1]\<rparr>))) (?J (ys @ [op]))"
      by (rule always_gbind) (use J in \<open>auto intro!: list_all2_appendI\<close>)
  qed
  show ?thesis unfolding generate_instruction_def Let_def
    by (rule always_gbind [OF e], rule always_mono [OF i]) (auto simp: instruction_matches_def)
qed

text \<open>
  C31: A generated instruction follows its specification: for a specification that the generator supports it
  returns, whatever is drawn, an instruction with the specified name, category and operands, each of the kind,
  width and direction given there, with a register of its list.
\<close>
theorem generated_instruction_matches_spec:
  assumes "spec_ok G sp"
  shows "\<exists>i k'. generate_instruction G sp b k = Inr (i, k') \<and> instruction_matches G sp i \<and> is_instrumentation i = b"
  by (rule alwaysE [OF always_instruction [OF assms]]) blast

definition demo_generator :: generator where
  "demo_generator = \<lparr>g_source = demo_source, g_conf = demo_bitmask_conf, g_target = ARM64TargetDesc_init [] [], g_conditions = []\<rparr>"

definition demo_add :: InstructionSpec where
  "demo_add = (InstructionSpec_init ''add'' ''general'' False)\<lparr>is_operands :=
     [OperandSpec_init [''x0'', ''x1''] OT_REG False True 64 True False None,
      OperandSpec_init [''x2''] OT_REG True False 64 True False None,
      OperandSpec_init [''[0-4095]''] OT_IMM True False 16 True False None]\<rparr>"

lemma demo_add_ok: "spec_ok demo_generator demo_add"
proof -
  have r: "imm_range ''[0-4095]'' = Inr (0, 4095)" by code_simp
  show ?thesis
    by (simp add: spec_ok_def demo_add_def InstructionSpec_init_def OperandSpec_init_def operand_spec_ok_def imm_spec_ok_def r RegSizes_def)
qed

theorem generated_instruction_matches_spec_witness:
  "\<exists>i k'. generate_instruction demo_generator demo_add False 0 = Inr (i, k') \<and> instruction_matches demo_generator demo_add i \<and>
     \<not> is_instrumentation i"
  using generated_instruction_matches_spec [OF demo_add_ok, of False 0] by simp

text \<open>
  Immediates without a list of values fit their operand: the text is a number in the range of the width,
  signed or unsigned as specified.
\<close>
theorem immediate_in_range:
  assumes "os_values sp = []" and "1 \<le> os_width sp"
  shows "\<exists>o1 k' v. generate_imm_operand R C sp k = Inr (o1, k') \<and> op_value o1 = str_int v \<and>
    (if os_is_signed sp then - (2 ^ nat (os_width sp - 1)) \<le> v \<and> v < 2 ^ nat (os_width sp - 1)
     else 0 \<le> v \<and> v < 2 ^ nat (os_width sp))"
proof -
  obtain lo hi where r: "width_range sp = Inr (lo, hi)" "lo \<le> hi" using width_range_ok [OF assms(2)] by blast
  have "always (generate_imm_operand R C sp) (\<lambda>o1. \<exists>v. op_value o1 = str_int v \<and> lo \<le> v \<and> v \<le> hi)"
    by (auto simp: generate_imm_operand_def assms(1) r operand_inits intro!: always_binds always_gret)
  then obtain o1 k' v where "generate_imm_operand R C sp k = Inr (o1, k')" "op_value o1 = str_int v" "lo \<le> v" "v \<le> hi"
    by (rule alwaysE) blast
  then show ?thesis using r(1) assms(2) by (auto simp: width_range_def split: if_splits)
qed

theorem immediate_in_range_witness:
  "\<exists>o1 k' v. generate_imm_operand demo_source demo_bitmask_conf (OperandSpec_init [] OT_IMM True False 8 True False None) 0 = Inr (o1, k') \<and>
     op_value o1 = str_int v \<and> - 128 \<le> v \<and> v < 128"
  using immediate_in_range [of "OperandSpec_init [] OT_IMM True False 8 True False None" demo_source demo_bitmask_conf 0]
  by (simp add: OperandSpec_init_def)

text \<open>
  With store instructions only, generation fails: after it decided for a memory access but against a store,
  the generator draws from the empty list of loads. Such a set passes the test of the instruction set, which
  asks for loads or stores.
\<close>
theorem stores_only_generation_fails:
  assumes "stores \<noteq> []" and "fractions (g_source G) k < probability" and "1 / 2 \<le> fractions (g_source G) (Suc k)"
  shows "generate_from_random_spec G non_memory stores [] probability k = Inl IndexError"
  using assms by (simp add: generate_from_random_spec_def pick_spec_def gbind_def gret_def g_random_def g_choice_def choice_def)

theorem stores_only_generation_fails_witness:
  "generate_from_random_spec (demo_generator\<lparr>g_source := demo_source\<lparr>fractions := \<lambda>k. if k = 0 then 0 else 3 / 4\<rparr>\<rparr>)
     [] [demo_add] [] (1 / 2) 0 = Inl IndexError"
  by (rule stores_only_generation_fails) simp_all

section \<open>The control flow graph\<close>

lemma always_pick_targets:
  assumes "m \<le> length options" and "distinct options"
  shows "always (pick_targets R m options) (\<lambda>ts. length ts = m \<and> distinct ts \<and> set ts \<subseteq> set options)"
  using assms
proof (induction m arbitrary: options)
  case (Suc m)
  have ne: "options \<noteq> []" using Suc.prems(1) by auto
  have "always (pick_targets R m (remove1 t options)) (\<lambda>ts. length ts = m \<and> distinct ts \<and> set ts \<subseteq> set options - {t})"
    if "t \<in> set options" for t
    using Suc.IH [of "remove1 t options"] Suc.prems that by (simp add: length_remove1 distinct_remove1 set_remove1_eq)
  then have "always (gbind (pick_targets R m (remove1 t options)) (\<lambda>ts. gret (t # ts)))
      (\<lambda>ts. length ts = Suc m \<and> distinct ts \<and> set ts \<subseteq> set options)" if "t \<in> set options" for t
    by (rule always_gbind [OF _ always_gret]) (use that in auto)
  then show ?case using ne by (auto intro: always_bind_choice)
qed auto

text \<open>What is known of the successors of the i-th of \<open>n\<close> blocks, when at most \<open>m\<close> are added to the next block.\<close>

definition successors_ok :: "nat \<Rightarrow> nat \<Rightarrow> nat \<Rightarrow> nat \<Rightarrow> nat list \<Rightarrow> bool" where
  "successors_ok m fid n i ss \<longleftrightarrow>
     (if Suc i = n then ss = [fid]
      else \<exists>ts. ss = (Suc fid + Suc i) # ts \<and> length ts \<le> m \<and>
             (\<forall>t \<in> set ts. t = fid \<or> Suc fid + Suc i < t \<and> t < Suc fid + n))"

lemma always_choose_successors:
  assumes "i < n" and "fst bounds \<le> snd bounds" and "snd bounds \<le> int m + 1" and "m \<le> 1"
  shows "always (choose_successors R [Suc fid..<Suc fid + n] fid bounds i) (successors_ok m fid n i)"
proof (cases "Suc i = n")
  case True
  then show ?thesis by (auto simp: choose_successors_def successors_ok_def intro!: always_gret)
next
  case False
  let ?opts = "[Suc fid + (i + 2)..<Suc fid + n] @ [fid]"
  have d: "distinct ?opts" by (simp del: upt_Suc)
  have body: "always (gbind (pick_targets R (nat (c - 1)) ?opts) (\<lambda>ts. gret ([Suc fid..<Suc fid + n] ! Suc i # ts))) (successors_ok m fid n i)"
    if "c \<le> int m + 1" for c
  proof -
    have "nat (c - 1) \<le> length ?opts" using that assms(4) by (simp del: upt_Suc)
    from always_pick_targets [OF this d, of R] show ?thesis
      by (rule always_gbind [OF _ always_gret]) (use that assms(1) False in \<open>auto simp: successors_ok_def simp del: upt_Suc\<close>)
  qed
  have f: "(Suc i = length [Suc fid..<Suc fid + n]) = False" using False by (simp del: upt_Suc)
  show ?thesis unfolding choose_successors_def Let_def drop_upt f if_False
    by (rule always_bind_randint [OF assms(2)], rule body) (use assms(1,3) in auto)
qed

text \<open>A generated function: numbered empty blocks with their successors, then the exit.\<close>

definition graph_ok :: "nat \<Rightarrow> nat \<Rightarrow> string \<Rightarrow> nat \<Rightarrow> Instruction Function \<Rightarrow> bool" where
  "graph_ok m fid label n f \<longleftrightarrow>
     (\<exists>succs jump. length succs = n \<and> (\<forall>i < n. successors_ok m fid n i (succs ! i)) \<and>
        fn_name f = label \<and> operands jump = [(LabelOp_init [])\<lparr>op_value := TC_EXIT_LABEL\<rparr>] \<and> 
        all_bb f = map (\<lambda>(b, ss). b\<lparr>bb_successors := ss\<rparr>) (zip (empty_blocks (Suc fid) label n) succs) @
          [(BasicBlock_init fid (''.exit_'' @ removeprefix label ''.function_'') True)\<lparr>bb_terminators := [jump]\<rparr>])"

lemma jump_spec:
  assumes "gc_instruction_set C \<in> {''x86-64'', ''arm64''}"
  obtains sp where "get_unconditional_jump_spec (gc_instruction_set C) = Inr sp" and "is_name sp \<in> {''jmp'', ''b''}"
    and "is_operands sp = [OperandSpec_init [] OT_LABEL True False 64 True False None]" and "is_implicit_operands sp = []"
  using assms by (auto simp: get_unconditional_jump_spec_def InstructionSpec_init_def Let_def intro: that)

lemma always_jump:
  assumes "is_operands sp = [OperandSpec_init [] OT_LABEL True False 64 True False None]" and "is_implicit_operands sp = []"
  shows "always (generate_instruction G sp False) (\<lambda>i. operands i = [LabelOp_init []] \<and> i_name i = is_name sp)"
  unfolding generate_instruction_def
  by (auto simp: assms OperandSpec_init_def generate_operand_def generate_label_operand_def from_spec_def Instruction_init_def
      intro!: always_gret)

lemma ids_empty_blocks: "map bb_id (empty_blocks (Suc fid) label n) = [Suc fid..<Suc fid + n]"
  by (rule nth_equalityI) (simp_all add: empty_blocks_def BasicBlock_init_def del: upt_Suc)

lemma bounds_ok:
  assumes "gc_min_successors_per_bb C \<le> gc_max_successors_per_bb C"
  obtains bounds where "successor_bounds C isa = Inr bounds" and "fst bounds \<le> snd bounds"
    and "snd bounds \<le> int (of_bool (has_conditional_branch isa)) + 1"
proof -
  define lo where "lo = (if gc_min_successors_per_bb C < 2 then gc_min_successors_per_bb C else 2)"
  define hi where "hi = (if gc_max_successors_per_bb C < 2 then gc_max_successors_per_bb C else 2)"
  have "lo \<le> hi" "hi \<le> 2" using assms by (auto simp: lo_def hi_def)
  then have "\<exists>b. successor_bounds C isa = Inr b \<and> fst b \<le> snd b \<and> snd b \<le> int (of_bool (has_conditional_branch isa)) + 1"
    by (simp add: successor_bounds_def lo_def [symmetric] hi_def [symmetric])
  with that show thesis by blast
qed

lemma always_generate_empty:
  assumes "1 \<le> gc_min_bb_per_function (g_conf G)" and "gc_min_bb_per_function (g_conf G) \<le> gc_max_bb_per_function (g_conf G)"
    and "gc_min_successors_per_bb (g_conf G) \<le> gc_max_successors_per_bb (g_conf G)"
    and "gc_instruction_set (g_conf G) \<in> {''x86-64'', ''arm64''}"
  shows "always (generate_empty G isa fid label parent) (\<lambda>f. \<exists>n. gc_min_bb_per_function (g_conf G) \<le> int n \<and>
    int n \<le> gc_max_bb_per_function (g_conf G) \<and> graph_ok (of_bool (has_conditional_branch isa)) fid label n f)" (is "always _ ?P")
proof -
  define m :: nat where "m = of_bool (has_conditional_branch isa)"
  have m: "m \<le> 1" by (simp add: m_def)
  obtain bounds where b: "successor_bounds (g_conf G) isa = Inr bounds" "fst bounds \<le> snd bounds" "snd bounds \<le> int m + 1"
    unfolding m_def by (rule bounds_ok [OF assms(3)])
  obtain sp where sp: "get_unconditional_jump_spec (gc_instruction_set (g_conf G)) = Inr sp"
    "is_operands sp = [OperandSpec_init [] OT_LABEL True False 64 True False None]" "is_implicit_operands sp = []"
    by (rule jump_spec [OF assms(4)])
  have cnt: "always (random_node_count (g_source G) (g_conf G))
      (\<lambda>c. gc_min_bb_per_function (g_conf G) \<le> c \<and> c \<le> gc_max_bb_per_function (g_conf G))"
    using assms(2) by (auto simp: random_node_count_def intro!: always_gret always_randint)
  have succ: "always (gmapM (choose_successors (g_source G) [Suc fid..<Suc fid + n] fid bounds) [0..<n])
      (\<lambda>ss. length ss = n \<and> (\<forall>i < n. successors_ok m fid n i (ss ! i)))" for n
    by (rule always_mono [OF always_gmapM [of _ _ "successors_ok m fid n"]])
      (auto intro!: always_choose_successors [OF _ b(2,3) m] simp: list_all2_conv_all_nth simp del: upt_Suc add_Suc)
  show ?thesis unfolding generate_empty_def Let_def b(1) gbind_glift ids_empty_blocks sp(1)
      length_upt add_diff_cancel_left'
  proof (rule always_gbind [OF cnt], rule always_gbind [OF succ], rule always_gbind [OF always_jump [OF sp(2,3)]])
    fix c succs and i :: Instruction
    assume c: "gc_min_bb_per_function (g_conf G) \<le> c \<and> c \<le> gc_max_bb_per_function (g_conf G)"
      and s: "length succs = nat c \<and> (\<forall>j < nat c. successors_ok m fid (nat c) j (succs ! j))"
      and i: "operands i = [LabelOp_init []] \<and> i_name i = is_name sp"
    let ?nodes = "map (\<lambda>(b, ss). b\<lparr>bb_successors := ss\<rparr>) (zip (empty_blocks (Suc fid) label (nat c)) succs)"
    let ?jump = "i\<lparr>operands := [(LabelOp_init [])\<lparr>op_value := TC_EXIT_LABEL\<rparr>]\<rparr>"
    have r: "set_first_operand i TC_EXIT_LABEL = Inr ?jump"
      "get_exit_bb (Function_init fid label parent) = Inr (BasicBlock_init fid (''.exit_'' @ removeprefix label ''.function_'') True)"
      using i by (simp_all add: set_first_operand_def py_nth_def py_index_def is_label_def LabelOp_init_def Operand_init_def
          get_exit_bb_def Function_init_def BasicBlock_init_def)
    have "nat c = n \<longleftrightarrow> int n = c" for n using c assms(1) by auto
    then have "int (nat c) = c" by blast
    then show "always (gbind (glift (set_first_operand i TC_EXIT_LABEL)) (\<lambda>jump.
       gbind (glift (get_exit_bb (Function_init fid label parent))) (\<lambda>exit_bb.
         glift (fn_extend ((Function_init fid label parent)\<lparr>all_bb := [exit_bb\<lparr>bb_terminators := [jump]\<rparr>]\<rparr>) ?nodes)))) ?P"
      unfolding r gbind_glift
      by (intro always_glift) (use c s in \<open>auto simp: fn_extend_def graph_ok_def Function_init_def m_def intro!: exI [of _ "nat c"] exI [of _ succs] exI [of _ ?jump]\<close>)
  qed
qed

definition cfg_edges :: "'i Function \<Rightarrow> (nat \<times> nat) set" where
  "cfg_edges f = {(bb_id b, s) | b s. b \<in> set (all_bb f) \<and> s \<in> set (bb_successors b)}"

lemma graph_blocks:
  assumes "graph_ok m fid label n f"
  obtains succs where "length succs = n" and "\<And>i. i < n \<Longrightarrow> successors_ok m fid n i (succs ! i)"
    and "fn_iter f = map (\<lambda>(b, ss). b\<lparr>bb_successors := ss\<rparr>) (zip (empty_blocks (Suc fid) label n) succs)"
    and "bb_id (last (all_bb f)) = fid" and "bb_successors (last (all_bb f)) = []" and "all_bb f = fn_iter f @ [last (all_bb f)]"
    and "bb_is_exit (last (all_bb f))"
  using assms by (auto simp: graph_ok_def fn_iter_def BasicBlock_init_def intro: that)

lemma graph_nth:
  assumes "graph_ok m fid label n f"
  shows "length (fn_iter f) = n"
    and "i < n \<Longrightarrow> bb_id (fn_iter f ! i) = Suc fid + i \<and> successors_ok m fid n i (bb_successors (fn_iter f ! i)) \<and>
           bb_terminators (fn_iter f ! i) = [] \<and> \<not> bb_is_exit (fn_iter f ! i) \<and>
           bb_start (fn_iter f ! i) = None \<and> bb_end (fn_iter f ! i) = None \<and>
           bb_name (fn_iter f ! i) = ''.bb_'' @ removeprefix label ''.function_'' @ ''.'' @ str_nat i"
  by (rule graph_blocks [OF assms], simp add: empty_blocks_def)
    (rule graph_blocks [OF assms], simp add: empty_blocks_def BasicBlock_init_def)

lemma graph_edge_iff:
  assumes "graph_ok m fid label n f"
  shows "(a, s) \<in> cfg_edges f \<longleftrightarrow> (\<exists>i < n. a = Suc fid + i \<and> s \<in> set (bb_successors (fn_iter f ! i)))"
proof (rule graph_blocks [OF assms])
  assume last: "bb_successors (last (all_bb f)) = []" and all: "all_bb f = fn_iter f @ [last (all_bb f)]"
  have "(a, s) \<in> cfg_edges f \<longleftrightarrow> (\<exists>b \<in> set (fn_iter f). a = bb_id b \<and> s \<in> set (bb_successors b))"
    unfolding cfg_edges_def by (subst all) (use last in auto)
  also have "\<dots> \<longleftrightarrow> (\<exists>i < n. a = Suc fid + i \<and> s \<in> set (bb_successors (fn_iter f ! i)))"
    using graph_nth [OF assms] by (metis in_set_conv_nth)
  finally show ?thesis .
qed

text \<open>Edges lead to later blocks or to the exit.\<close>

lemma graph_acyclic:
  assumes "graph_ok m fid label n f"
  shows "acyclic (cfg_edges f)"
proof (rule acyclicI_order [where f = "\<lambda>x. if x = fid then 0 else Suc fid + Suc n - x"])
  fix a s assume "(a, s) \<in> cfg_edges f"
  then obtain i where i: "i < n" "a = Suc fid + i" "s \<in> set (bb_successors (fn_iter f ! i))"
    using graph_edge_iff [OF assms] by blast
  from graph_nth(2) [OF assms i(1)] have "successors_ok m fid n i (bb_successors (fn_iter f ! i))" by blast
  with i(3) have "s = fid \<or> a < s \<and> s < Suc fid + n" using i(1,2) by (auto simp: successors_ok_def split: if_splits)
  then show "(if s = fid then 0 else Suc fid + Suc n - s) < (if a = fid then 0 else Suc fid + Suc n - a)"
    using i(1,2) by auto
qed

lemma graph_next_edge:
  assumes "graph_ok m fid label n f" and "Suc i < n"
  shows "(Suc fid + i, Suc fid + Suc i) \<in> cfg_edges f"
proof -
  have "successors_ok m fid n i (bb_successors (fn_iter f ! i))" using graph_nth(2) [OF assms(1), of i] assms(2) by simp
  then have "Suc fid + Suc i \<in> set (bb_successors (fn_iter f ! i))" using assms(2) by (auto simp: successors_ok_def)
  then show ?thesis using graph_edge_iff [OF assms(1)] assms(2) by (metis Suc_lessD)
qed

lemma graph_path:
  assumes "graph_ok m fid label n f" and "i \<le> j" and "j < n"
  shows "(Suc fid + i, Suc fid + j) \<in> (cfg_edges f)\<^sup>*"
  using assms(2,3)
proof (induction j)
  case (Suc j)
  show ?case
  proof (cases "i = Suc j")
    case False
    with Suc have "(Suc fid + i, Suc fid + j) \<in> (cfg_edges f)\<^sup>*" by simp
    moreover have "(Suc fid + j, Suc fid + Suc j) \<in> cfg_edges f" using graph_next_edge [OF assms(1)] Suc.prems(2) by blast
    ultimately show ?thesis by (rule rtrancl_into_rtrancl)
  qed simp
qed simp

lemma graph_to_exit:
  assumes "graph_ok m fid label n f" and "i < n"
  shows "(Suc fid + i, fid) \<in> (cfg_edges f)\<^sup>*"
proof -
  have "(Suc fid + i, Suc fid + (n - 1)) \<in> (cfg_edges f)\<^sup>*" using assms by (intro graph_path) auto
  moreover have "successors_ok m fid n (n - 1) (bb_successors (fn_iter f ! (n - 1)))" using graph_nth(2) [OF assms(1), of "n - 1"] assms(2) by simp
  then have "fid \<in> set (bb_successors (fn_iter f ! (n - 1)))" using assms(2) by (simp add: successors_ok_def)
  then have "(Suc fid + (n - 1), fid) \<in> cfg_edges f"
    using graph_edge_iff [OF assms(1), of "Suc fid + (n - 1)" fid] assms(2) by (metis Suc_pred' less_Suc_eq gr_implies_not0 neq0_conv)
  ultimately show ?thesis by (rule rtrancl_into_rtrancl)
qed

text \<open>
  C28: The control flow graph of a generated function is a DAG without dead code: whatever is drawn, generation
  returns a function with a permitted number of blocks and without cycles, in which every block has one or two
  successors, is reachable from the first block and reaches the exit.
\<close>
theorem generated_graph_is_dag:
  assumes "1 \<le> gc_min_bb_per_function (g_conf G)" and "gc_min_bb_per_function (g_conf G) \<le> gc_max_bb_per_function (g_conf G)"
    and "gc_min_successors_per_bb (g_conf G) \<le> gc_max_successors_per_bb (g_conf G)"
    and "gc_instruction_set (g_conf G) \<in> {''x86-64'', ''arm64''}"
  shows "\<exists>f k'. generate_empty G isa fid label parent k = Inr (f, k') \<and>
    gc_min_bb_per_function (g_conf G) \<le> int (fn_len f) \<and> int (fn_len f) \<le> gc_max_bb_per_function (g_conf G) \<and>
    acyclic (cfg_edges f) \<and>
    (\<forall>b \<in> set (fn_iter f). length (bb_successors b) \<in> {1, 2} \<and>
       (bb_id (hd (all_bb f)), bb_id b) \<in> (cfg_edges f)\<^sup>* \<and> (bb_id b, bb_id (last (all_bb f))) \<in> (cfg_edges f)\<^sup>*)"
proof -
  define m :: nat where "m = of_bool (has_conditional_branch isa)"
  have m: "m \<le> 1" by (simp add: m_def)
  obtain f k' n where run: "generate_empty G isa fid label parent k = Inr (f, k')" and g: "graph_ok m fid label n f"
    and n: "gc_min_bb_per_function (g_conf G) \<le> int n" "int n \<le> gc_max_bb_per_function (g_conf G)"
    unfolding m_def by (rule alwaysE [OF always_generate_empty [OF assms]]) blast
  have len: "fn_len f = n" using graph_nth(1) [OF g] by (simp add: fn_len_def fn_iter_def)
  have pos: "0 < n" using n(1) assms(1) by simp
  have ex: "bb_id (last (all_bb f)) = fid" and all: "all_bb f = fn_iter f @ [last (all_bb f)]"
    by (rule graph_blocks [OF g], blast)+
  have "hd (all_bb f) = fn_iter f ! 0" using pos graph_nth(1) [OF g] by (subst all) (auto simp: hd_append hd_conv_nth)
  then have first: "bb_id (hd (all_bb f)) = Suc fid" using graph_nth(2) [OF g pos] by simp
  have "length (bb_successors b) \<in> {1, 2} \<and> (Suc fid, bb_id b) \<in> (cfg_edges f)\<^sup>* \<and> (bb_id b, fid) \<in> (cfg_edges f)\<^sup>*"
    if "b \<in> set (fn_iter f)" for b
  proof -
    obtain i where i: "i < n" "b = fn_iter f ! i" using \<open>b \<in> set (fn_iter f)\<close> graph_nth(1) [OF g] by (auto simp: in_set_conv_nth)
    with graph_nth(2) [OF g i(1)] have b: "bb_id b = Suc fid + i" and s: "successors_ok m fid n i (bb_successors b)" by simp_all
    from s have "length (bb_successors b) \<in> {1, 2}" using m by (auto simp: successors_ok_def le_Suc_eq split: if_splits)
    moreover have "(Suc fid, bb_id b) \<in> (cfg_edges f)\<^sup>*" using graph_path [OF g, of 0 i] i(1) b by simp
    moreover have "(bb_id b, fid) \<in> (cfg_edges f)\<^sup>*" using graph_to_exit [OF g i(1)] b by simp
    ultimately show ?thesis by blast
  qed
  then show ?thesis using run n len graph_acyclic [OF g] first ex by auto
qed

definition demo_isa :: InstructionSet where
  "demo_isa = (unsorted_set [] [])\<lparr>has_conditional_branch := True\<rparr>"

theorem generated_graph_is_dag_witness:
  "\<exists>f k'. generate_empty demo_generator demo_isa 0 ''.function_0'' 0 0 = Inr (f, k') \<and> 2 \<le> int (fn_len f) \<and> acyclic (cfg_edges f)"
proof -
  have "gc_min_bb_per_function (g_conf demo_generator) = 2" by (simp add: demo_generator_def demo_bitmask_conf_def)
  with generated_graph_is_dag [of demo_generator demo_isa 0 "''.function_0''" 0 0] show ?thesis
    by (auto simp: demo_generator_def demo_bitmask_conf_def)
qed

end
