(* ===== verification/FunctionGenerator.thy ===== *)
theory FunctionGenerator
  imports CodeGenerator
begin

text \<open>
  What filling a generated function (\<^verbatim>\<open>_FunctionGenerator.fill_function\<close> in \<^verbatim>\<open>rvzr/code_generator.py\<close>) achieves: the terminators
  of the blocks realise the control flow graph, and the configured number of random instructions is distributed
  over the blocks in the store of nodes.
\<close>

section \<open>Terminators realise the graph\<close>

text \<open>
  Where control may go after the terminators of a block, when the block is printed in front of the one with
  the label \<open>next\<close>: a conditional branch goes to its label or on to the next terminator, an unconditional jump
  only to its label, and the end of the terminators is the next block.
\<close>

definition label_target :: "Instruction \<Rightarrow> string" where
  "label_target t = (case get_label_operand t of None \<Rightarrow> [] | Some o1 \<Rightarrow> op_value o1)"

fun exits :: "string \<Rightarrow> Instruction list \<Rightarrow> string list" where
  "exits nxt [] = [nxt]"
| "exits nxt (t # ts) = (if i_name t \<in> {''jmp'', ''b''} then [label_target t] else label_target t # exits nxt ts)"

definition branch_specs_ok :: "generator \<Rightarrow> InstructionSet \<Rightarrow> bool" where
  "branch_specs_ok G isa \<longleftrightarrow> (\<forall>sp \<in> set (cond_branches isa). spec_ok G sp \<and> is_name sp \<notin> {''jmp'', ''b''} \<and>
     (\<exists>op \<in> set (is_operands sp). os_type op = OT_LABEL))"

lemma find_set_first_label:
  "find is_label os = Some o1 \<Longrightarrow> find is_label (set_first_label v os) = Some (o1\<lparr>op_value := v\<rparr>)"
  by (induction os) (auto simp: is_label_def split: if_splits)

lemma set_label_ok:
  assumes "get_label_operand i = Some o1"
  obtains i' where "set_label v i = Inr i'" and "label_target i' = v" and "i_name i' = i_name i"
proof
  let ?i = "i\<lparr>operands := set_first_label v (operands i)\<rparr>"
  show "set_label v i = Inr ?i" using assms by (simp add: set_label_def)
  show "label_target ?i = v"
    using find_set_first_label [of "operands i" o1 v] assms by (simp add: label_target_def get_label_operand_def)
qed simp

lemma always_add_fallthrough:
  assumes "gc_instruction_set (g_conf G) \<in> {''x86-64'', ''arm64''}"
  shows "always (add_fallthrough G dest) (\<lambda>t. i_name t \<in> {''jmp'', ''b''} \<and> label_target t = bb_name dest)"
proof -
  obtain sp where sp: "get_unconditional_jump_spec (gc_instruction_set (g_conf G)) = Inr sp" "is_name sp \<in> {''jmp'', ''b''}"
    "is_operands sp = [OperandSpec_init [] OT_LABEL True False 64 True False None]" "is_implicit_operands sp = []"
    by (rule jump_spec [OF assms])
  show ?thesis unfolding add_fallthrough_def sp(1) gbind_glift
  proof (rule always_gbind [OF always_jump [OF sp(3,4)]])
    fix i :: Instruction assume i: "operands i = [LabelOp_init []] \<and> i_name i = is_name sp"
    then have "get_label_operand i = Some (LabelOp_init [])"
      by (simp add: get_label_operand_def is_label_def LabelOp_init_def Operand_init_def)
    then obtain i' where "set_label (bb_name dest) i = Inr i'" "label_target i' = bb_name dest" "i_name i' = i_name i"
      by (rule set_label_ok)
    then show "always (glift (set_label (bb_name dest) i)) (\<lambda>t. i_name t \<in> {''jmp'', ''b''} \<and> label_target t = bb_name dest)"
      using i sp(2) by (intro always_glift) auto
  qed
qed

lemma matches_label:
  assumes "instruction_matches G sp i" and "op \<in> set (is_operands sp)" and "os_type op = OT_LABEL"
  obtains o1 where "get_label_operand i = Some o1"
proof -
  obtain j where j: "j < length (is_operands sp)" "is_operands sp ! j = op" using assms(2) by (metis in_set_conv_nth)
  then have "operand_matches G op (operands i ! j)" "j < length (operands i)"
    using assms(1) by (auto simp: instruction_matches_def list_all2_conv_all_nth)
  then have "is_label (operands i ! j)" "operands i ! j \<in> set (operands i)"
    using assms(3) by (auto simp: operand_matches_def is_label_def)
  then have "find is_label (operands i) \<noteq> None" by (auto simp: find_None_iff)
  then show thesis using that by (auto simp: get_label_operand_def)
qed

lemma always_branch:
  assumes "branch_specs_ok G isa" and "sp \<in> set (cond_branches isa)"
  shows "always (gbind (generate_instruction G sp False) (\<lambda>t. glift (set_label v t)))
    (\<lambda>t. i_name t \<notin> {''jmp'', ''b''} \<and> label_target t = v)"
proof -
  obtain op where sp: "spec_ok G sp" "is_name sp \<notin> {''jmp'', ''b''}" "op \<in> set (is_operands sp)" "os_type op = OT_LABEL"
    using assms by (auto simp: branch_specs_ok_def)
  show ?thesis
  proof (rule always_gbind [OF always_instruction [OF sp(1)]])
    fix i assume i: "instruction_matches G sp i \<and> is_instrumentation i = False"
    obtain o1 where "get_label_operand i = Some o1" by (rule matches_label [OF _ sp(3,4)]) (use i in blast)
    then obtain i' where "set_label v i = Inr i'" "label_target i' = v" "i_name i' = i_name i" by (rule set_label_ok)
    then show "always (glift (set_label v i)) (\<lambda>t. i_name t \<notin> {''jmp'', ''b''} \<and> label_target t = v)"
      using i sp(2) by (intro always_glift) (auto simp: instruction_matches_def)
  qed
qed

lemma gbind_assoc: "gbind (gbind m f) h = gbind m (\<lambda>x. gbind (f x) h)"
proof
  show "gbind (gbind m f) h k = gbind m (\<lambda>x. gbind (f x) h) k" for k
    by (cases "m k") (auto simp: gbind_def split: prod.splits)
qed

lemma always_terminators:
  assumes "gc_instruction_set (g_conf G) \<in> {''x86-64'', ''arm64''}" and "branch_specs_ok G isa"
    and "bb_terminators bb = []" and "length ds = length (bb_successors bb)" and "length ds \<in> {1, 2}"
    and "\<And>j. j < length ds \<Longrightarrow> block_of f (bb_successors bb ! j) = Inr (ds ! j)"
    and "length ds = 1 \<Longrightarrow> bb_is_exit (hd ds) \<Longrightarrow> nxt = bb_name (hd ds)"
    and "length ds = 2 \<Longrightarrow> cond_branches isa \<noteq> []"
  shows "always (terminators_of G isa f bb) (\<lambda>ts. exits nxt ts = map bb_name ds)"
proof -
  consider d s where "ds = [d]" "bb_successors bb = [s]" | d1 d2 s1 s2 where "ds = [d1, d2]" "bb_successors bb = [s1, s2]"
    using assms(4,5) by (auto simp: length_Suc_conv numeral_2_eq_2 eq_commute [of "Suc _" "length _"])
  then show ?thesis
  proof cases
    case 1
    then have b: "block_of f s = Inr d" using assms(6) [of 0] by simp
    show ?thesis
    proof (cases "bb_is_exit d")
      case True
      with 1 b assms(3,7) show ?thesis by (auto simp: terminators_of_def intro!: always_gret)
    next
      case False
      have "always (gbind (add_fallthrough G d) (\<lambda>t. gret [t])) (\<lambda>ts. exits nxt ts = [bb_name d])"
        by (rule always_gbind [OF always_add_fallthrough [OF assms(1)] always_gret]) auto
      with 1 b False assms(3) show ?thesis by (simp add: terminators_of_def)
    qed
  next
    case 2
    then have b: "block_of f s1 = Inr d1" "block_of f s2 = Inr d2" using assms(6) [of 0] assms(6) [of 1] by simp_all
    have "always (gbind (gbind (generate_instruction G sp False) (\<lambda>t. glift (set_label (bb_name d1) t)))
        (\<lambda>t1. gbind (add_fallthrough G d2) (\<lambda>t2. gret [t1, t2]))) (\<lambda>ts. exits nxt ts = [bb_name d1, bb_name d2])"
      if "sp \<in> set (cond_branches isa)" for sp
      by (rule always_gbind [OF always_branch [OF assms(2) that]], rule always_gbind [OF always_add_fallthrough [OF assms(1)] always_gret]) auto
    then show ?thesis using 2 assms(3,8)
      by (auto simp: terminators_of_def b gbind_assoc intro!: always_bind_choice)
  qed
qed

lemma find_by_key: "distinct (map g xs) \<Longrightarrow> j < length xs \<Longrightarrow> find (\<lambda>b. g b = g (xs ! j)) xs = Some (xs ! j)"
proof (induction xs arbitrary: j)
  case (Cons x xs)
  show ?case
  proof (cases j)
    case (Suc l)
    then have "g (xs ! l) \<in> g ` set xs" using Cons.prems(2) by simp
    then have "g x \<noteq> g (xs ! l)" using Cons.prems(1) by auto
    then show ?thesis using Cons Suc by simp
  qed simp
qed simp

lemma graph_block_of:
  assumes "graph_ok m fid label n f" and "j \<le> n"
  shows "block_of f (bb_id (all_bb f ! j)) = Inr (all_bb f ! j)"
proof (rule graph_blocks [OF assms(1)])
  assume last: "bb_id (last (all_bb f)) = fid" and all: "all_bb f = fn_iter f @ [last (all_bb f)]"
  have len: "length (all_bb f) = Suc n" using graph_nth(1) [OF assms(1)] by (subst all) simp
  have "map bb_id (fn_iter f) = [Suc fid..<Suc fid + n]"
    using graph_nth [OF assms(1)] by (intro nth_equalityI) (simp_all del: upt_Suc)
  then have "map bb_id (all_bb f) = [Suc fid..<Suc fid + n] @ [fid]" by (subst all) (simp add: last del: upt_Suc)
  then have "distinct (map bb_id (all_bb f))" by (simp del: upt_Suc)
  from find_by_key [OF this, of j] assms(2) len show ?thesis by (simp add: block_of_def)
qed

text \<open>The successors of a block as blocks, with the block that follows it in the printed function.\<close>

lemma graph_successor_blocks:
  assumes "graph_ok m fid label n f" and "i < n" and "m \<le> 1"
  obtains ds where "list_all2 (\<lambda>s d. block_of f s = Inr d) (bb_successors (fn_iter f ! i)) ds"
    and "length ds = 1 \<Longrightarrow> bb_is_exit (hd ds) \<Longrightarrow> bb_name (all_bb f ! Suc i) = bb_name (hd ds)"
    and "length ds \<in> {1, 2}" and "length ds = 2 \<Longrightarrow> m = 1"
proof (rule graph_blocks [OF assms(1)])
  assume last: "bb_id (last (all_bb f)) = fid" and all: "all_bb f = fn_iter f @ [last (all_bb f)]"
  note nth = graph_nth [OF assms(1)]
  have at: "all_bb f ! j = fn_iter f ! j" if "j < n" for j using that nth(1) by (subst all) (simp add: nth_append)
  have exit: "all_bb f ! n = last (all_bb f)" using nth(1) by (subst all) (simp add: nth_append)
  have b: "block_of f (Suc fid + j) = Inr (fn_iter f ! j)" if "j < n" for j
    using graph_block_of [OF assms(1), of j] that nth(2) [OF that] at [OF that] by simp
  have bx: "block_of f fid = Inr (last (all_bb f))" using graph_block_of [OF assms(1), of n] last exit by simp
  let ?ss = "bb_successors (fn_iter f ! i)"
  have ok: "successors_ok m fid n i ?ss" using nth(2) [OF assms(2)] by simp
  show thesis
  proof (cases "Suc i = n")
    case True
    with ok have "?ss = [fid]" by (simp add: successors_ok_def)
    then show thesis using bx True exit by (intro that [of "[last (all_bb f)]"]) auto
  next
    case False
    with ok obtain ts where ts: "?ss = (Suc fid + Suc i) # ts" "length ts \<le> m"
      "\<forall>t \<in> set ts. t = fid \<or> Suc fid + Suc i < t \<and> t < Suc fid + n" by (auto simp: successors_ok_def)
    have i: "Suc i < n" using False assms(2) by simp
    have "\<exists>d. block_of f t = Inr d" if "t \<in> set ts" for t
    proof (cases "t = fid")
      case False
      with that ts(3) have "Suc fid + Suc i < t" "t < Suc fid + n" by auto
      then have "t = Suc fid + (t - Suc fid)" "t - Suc fid < n" by auto
      then show ?thesis using b by metis
    qed (use bx in blast)
    then obtain D where D: "\<And>t. t \<in> set ts \<Longrightarrow> block_of f t = Inr (D t)" by metis
    have "\<not> bb_is_exit (fn_iter f ! Suc i)" using nth(2) [OF i] by simp
    moreover have "list_all2 (\<lambda>s d. block_of f s = Inr d) ts (map D ts)" using D by (auto simp: list_all2_conv_all_nth)
    moreover have "length ts = 0 \<or> length ts = 1 \<and> m = 1" using ts(2) assms(3) by linarith
    ultimately show thesis using ts(1) b [OF i] by (intro that [of "fn_iter f ! Suc i # map D ts"]) auto
  qed
qed

lemma always_add_terminators:
  assumes "graph_ok (of_bool (has_conditional_branch isa)) fid label n f"
    and "gc_instruction_set (g_conf G) \<in> {''x86-64'', ''arm64''}" and "branch_specs_ok G isa"
    and "has_conditional_branch isa \<Longrightarrow> cond_branches isa \<noteq> []"
  shows "always (add_terminators_in_function G isa f) (\<lambda>f'. \<exists>tss. length tss = n \<and>
    f' = f\<lparr>all_bb := map (\<lambda>(b, ts). b\<lparr>bb_terminators := ts\<rparr>) (zip (fn_iter f) tss) @ [last (all_bb f)]\<rparr> \<and>
    (\<forall>i < n. \<exists>ds. list_all2 (\<lambda>s d. block_of f s = Inr d) (bb_successors (fn_iter f ! i)) ds \<and>
       exits (bb_name (all_bb f ! Suc i)) (tss ! i) = map bb_name ds))" (is "always _ ?P")
proof -
  note g = assms(1) and nth = graph_nth [OF assms(1)]
  let ?Q = "\<lambda>i ts. \<exists>ds. list_all2 (\<lambda>s d. block_of f s = Inr d) (bb_successors (fn_iter f ! i)) ds \<and>
       exits (bb_name (all_bb f ! Suc i)) ts = map bb_name ds"
  have each: "always (terminators_of G isa f (fn_iter f ! i)) (?Q i)" if i: "i < n" for i
  proof -
    obtain ds where ds: "list_all2 (\<lambda>s d. block_of f s = Inr d) (bb_successors (fn_iter f ! i)) ds"
      "length ds = 1 \<Longrightarrow> bb_is_exit (hd ds) \<Longrightarrow> bb_name (all_bb f ! Suc i) = bb_name (hd ds)"
      "length ds \<in> {1, 2}" "length ds = 2 \<Longrightarrow> of_bool (has_conditional_branch isa) = (1 :: nat)"
      by (rule graph_successor_blocks [OF g i]) auto
    have cond: "cond_branches isa \<noteq> []" if "length ds = 2" using ds(4) [OF that] assms(4) by (cases "has_conditional_branch isa") auto
    have len: "length ds = length (bb_successors (fn_iter f ! i))" using ds(1) by (simp add: list_all2_lengthD)
    have "always (terminators_of G isa f (fn_iter f ! i)) (\<lambda>ts. exits (bb_name (all_bb f ! Suc i)) ts = map bb_name ds)"
      by (rule always_terminators [OF assms(2,3) _ len ds(3) list_all2_nthD2 [OF ds(1)] ds(2) cond]) (use nth(2) [OF i] in auto)
    then show ?thesis by (rule always_mono) (use ds(1) in blast)
  qed
  let ?step = "\<lambda>bb. gbind (terminators_of G isa f bb) (\<lambda>ts. gret (bb\<lparr>bb_terminators := ts\<rparr>))"
  let ?R = "\<lambda>bb bb'. \<exists>ts. bb' = bb\<lparr>bb_terminators := ts\<rparr> \<and> (\<forall>i < n. fn_iter f ! i = bb \<longrightarrow> ?Q i ts)"
  have step: "always (?step bb) (?R bb)" if bb: "bb \<in> set (fn_iter f)" for bb
  proof -
    obtain i where i: "i < n" "bb = fn_iter f ! i" using bb nth(1) by (auto simp: in_set_conv_nth)
    have uniq: "l = i" if "l < n" "fn_iter f ! l = bb" for l
    proof -
      have "bb_id (fn_iter f ! l) = Suc fid + l" "bb_id (fn_iter f ! i) = Suc fid + i" using nth(2) that(1) i(1) by blast+
      then have "Suc fid + l = Suc fid + i" unfolding that(2) i(2) [symmetric] by (rule trans [OF sym])
      then show ?thesis by (rule add_left_imp_eq)
    qed
    from each [OF i(1)] show ?thesis unfolding i(2) [symmetric]
      by (rule always_gbind [OF _ always_gret]) (use uniq in blast)
  qed
  from nth(1) have ne: "all_bb f \<noteq> []" using assms(1) by (auto simp: graph_ok_def)
  show ?thesis unfolding add_terminators_in_function_def if_not_P [OF ne]
  proof (rule always_gbind [OF always_gmapM [OF step] always_gret])
    fix bbs assume R: "list_all2 ?R (fn_iter f) bbs"
    have len: "length bbs = n" using R nth(1) by (simp add: list_all2_lengthD)
    have at: "bbs ! i = (fn_iter f ! i)\<lparr>bb_terminators := bb_terminators (bbs ! i)\<rparr> \<and> ?Q i (bb_terminators (bbs ! i))" if "i < n" for i
    proof -
      from list_all2_nthD [OF R, of i] that nth(1) obtain ts where "bbs ! i = (fn_iter f ! i)\<lparr>bb_terminators := ts\<rparr>" "?Q i ts" by auto
      then show ?thesis by simp
    qed
    have "bbs = map (\<lambda>(b, ts). b\<lparr>bb_terminators := ts\<rparr>) (zip (fn_iter f) (map bb_terminators bbs))"
      by (rule nth_equalityI) (use len nth(1) at in auto)
    then show "?P (f\<lparr>all_bb := bbs @ [last (all_bb f)]\<rparr>)"
      using len at by (intro exI [of _ "map bb_terminators bbs"]) auto
  qed
qed

text \<open>
  C30: The terminators realise the control flow graph. After terminators were added to a generated function, control
  leaves every block to exactly its successors: the labels of its branches and, where the terminators fall through,
  the block that is printed next are the names of the successors in their order.
\<close>
theorem terminators_realise_graph:
  assumes "1 \<le> gc_min_bb_per_function (g_conf G)" and "gc_min_bb_per_function (g_conf G) \<le> gc_max_bb_per_function (g_conf G)"
    and "gc_min_successors_per_bb (g_conf G) \<le> gc_max_successors_per_bb (g_conf G)"
    and "gc_instruction_set (g_conf G) \<in> {''x86-64'', ''arm64''}" and "branch_specs_ok G isa"
    and "has_conditional_branch isa \<Longrightarrow> cond_branches isa \<noteq> []"
    and "generate_empty G isa fid label parent k = Inr (f, k1)"
  shows "\<exists>f' k2. add_terminators_in_function G isa f k1 = Inr (f', k2) \<and> fn_len f' = fn_len f \<and>
    (\<forall>i < fn_len f. bb_successors (all_bb f' ! i) = bb_successors (all_bb f ! i) \<and>
       (\<exists>ds. list_all2 (\<lambda>s d. block_of f s = Inr d) (bb_successors (all_bb f ! i)) ds \<and>
          exits (bb_name (all_bb f ! Suc i)) (bb_terminators (all_bb f' ! i)) = map bb_name ds))"
proof -
  obtain n where g: "graph_ok (of_bool (has_conditional_branch isa)) fid label n f"
    using alwaysE [OF always_generate_empty [OF assms(1-4), of isa fid label parent], of k] assms(7) by auto
  have len: "length (fn_iter f) = n" "fn_len f = n" using graph_nth(1) [OF g] by (simp_all add: fn_len_def fn_iter_def)
  have at: "all_bb f ! i = fn_iter f ! i" if "i < n" for i
    using that len by (simp add: fn_iter_def nth_butlast)
  obtain f' k2 tss where run: "add_terminators_in_function G isa f k1 = Inr (f', k2)" and t: "length tss = n"
    "f' = f\<lparr>all_bb := map (\<lambda>(b, ts). b\<lparr>bb_terminators := ts\<rparr>) (zip (fn_iter f) tss) @ [last (all_bb f)]\<rparr>"
    "\<forall>i < n. \<exists>ds. list_all2 (\<lambda>s d. block_of f s = Inr d) (bb_successors (fn_iter f ! i)) ds \<and>
       exits (bb_name (all_bb f ! Suc i)) (tss ! i) = map bb_name ds"
    by (rule alwaysE [OF always_add_terminators [OF g assms(4,5,6)], of k1]) auto
  have "all_bb f' ! i = (fn_iter f ! i)\<lparr>bb_terminators := tss ! i\<rparr>" if "i < n" for i
    using that t(1,2) len(1) by (simp add: nth_append)
  moreover have "fn_len f' = n" using t(1,2) len(1) by (simp add: fn_len_def)
  ultimately show ?thesis using run t(3) len(2) at by auto
qed

section \<open>Filling the blocks\<close>

definition isa_specs :: "InstructionSet \<Rightarrow> InstructionSpec set" where
  "isa_specs isa = set (non_memory_access_specs isa) \<union> set (store_instructions isa) \<union> set (load_instruction isa)"

lemma always_random_spec:
  assumes "\<forall>sp \<in> isa_specs isa. spec_ok G sp" and "non_memory_access_specs isa \<noteq> []" and "load_instruction isa \<noteq> []"
  shows "always (generate_from_random_spec G (non_memory_access_specs isa) (store_instructions isa) (load_instruction isa) p)
    (\<lambda>i. \<exists>sp \<in> isa_specs isa. instruction_matches G sp i)"
proof -
  have "always (pick_spec (g_source G) (non_memory_access_specs isa) (store_instructions isa) (load_instruction isa) p)
      (\<lambda>sp. sp \<in> isa_specs isa)"
    unfolding pick_spec_def using assms(2,3)
    by (auto simp: isa_specs_def gbind_assoc intro!: always_bind_random always_choice)
  then show ?thesis unfolding generate_from_random_spec_def
    by (rule always_gbind) (use assms(1) in \<open>auto intro!: always_mono [OF always_instruction]\<close>)
qed

text \<open>The parts of a block that adding instructions does not change.\<close>

definition block_frame :: "'i BasicBlock \<Rightarrow> nat \<times> string \<times> bool \<times> nat list \<times> 'i list" where
  "block_frame b = (bb_id b, bb_name b, bb_is_exit b, bb_successors b, bb_terminators b)"

text \<open>All blocks are represented in the store, hold \<open>amount\<close> instructions together, and each satisfies \<open>P\<close>.\<close>

definition filled :: "('i \<Rightarrow> bool) \<Rightarrow> 'i BasicBlock list \<Rightarrow> nat \<Rightarrow> 'i node_store \<times> 'i BasicBlock list \<Rightarrow> bool" where
  "filled P bbs0 amount sb \<longleftrightarrow> (case sb of (s, bbs) \<Rightarrow>
     map block_frame bbs = map block_frame bbs0 \<and>
     (\<exists>pss. length pss = length bbs \<and> sum_list (map length pss) = amount \<and>
        (\<forall>i < length bbs. represents s (bbs ! i) (pss ! i) \<and> list_all P (contents s (pss ! i)))))"

lemma insert_at_last:
  assumes "represents s b ps"
  shows "insert_after s b (get_last b) x = Inr (splice s b ps (length ps) x)"
proof (cases "ps = []")
  case True
  then show ?thesis using assms insert_empty_splice(1) by (simp add: get_last_def represents_def)
next
  case False
  then have "get_last b = Some (ps ! (length ps - 1))" using assms by (simp add: get_last_def represents_def last_conv_nth)
  then show ?thesis using insert_after_splice [OF assms, of "length ps - 1"] False by simp
qed

lemma sum_list_update_length:
  "j < length (pss :: 'a list list) \<Longrightarrow> sum_list (map length (pss[j := qs])) + length (pss ! j) = sum_list (map length pss) + length qs"
proof (induction pss arbitrary: j)
  case (Cons ps pss)
  then show ?case by (cases j) (auto split: nat.splits)
qed simp

lemma filled_insert:
  assumes "filled P bbs0 c (s, bbs)" and "distinct (map bb_id bbs0)" and "j < length bbs" and "P x"
  obtains s' b' where "insert_after s (bbs ! j) (get_last (bbs ! j)) x = Inr (s', b')"
    and "filled P bbs0 (Suc c) (s', bbs[j := b'])"
proof -
  from assms(1) obtain pss where fr: "map block_frame bbs = map block_frame bbs0" and pss: "length pss = length bbs"
    "sum_list (map length pss) = c" and rep: "\<And>i. i < length bbs \<Longrightarrow> represents s (bbs ! i) (pss ! i) \<and> list_all P (contents s (pss ! i))"
    by (auto simp: filled_def)
  have len: "length bbs = length bbs0" using fr by (metis length_map)
  have ids: "map bb_id bbs = map bb_id bbs0"
    using arg_cong [OF fr, of "map fst"] by (simp add: block_frame_def comp_def)
  let ?b = "bbs ! j" and ?ps = "pss ! j"
  have r: "represents s ?b ?ps" "list_all P (contents s ?ps)" using rep [OF assms(3)] by auto
  obtain s' b' where sp: "splice s ?b ?ps (length ?ps) x = (s', b')" by fastforce
  have ins: "insert_after s ?b (get_last ?b) x = Inr (s', b')" using insert_at_last [OF r(1)] sp by simp
  have frame: "block_frame b' = block_frame ?b" using sp by (auto simp: splice_def block_frame_def)
  have new: "represents s' b' (?ps @ [fresh s])" "contents s' (?ps @ [fresh s]) = contents s ?ps @ [x]"
    using represents_splice [OF r(1) order_refl sp] contents_splice [OF r(1) order_refl sp] contents_length [OF r(1)]
    by (simp_all add: insert_at_def)
  have old: "represents s' (bbs ! i) (pss ! i) \<and> contents s' (pss ! i) = contents s (pss ! i)" if "i < length bbs" "i \<noteq> j" for i
  proof (rule represents_splice_frame [OF r(1) order_refl sp])
    show "represents s (bbs ! i) (pss ! i)" using rep [OF that(1)] by simp
    have "i < length (map bb_id bbs0)" "j < length (map bb_id bbs0)" using that(1) assms(3) len by simp_all
    from nth_eq_iff_index_eq [OF assms(2) this] that(2) have "map bb_id bbs ! i \<noteq> map bb_id bbs ! j" unfolding ids by blast
    then show "bb_id (bbs ! i) \<noteq> bb_id ?b" using that(1) assms(3) by simp
  qed
  have "map block_frame (bbs[j := b']) = map block_frame (bbs[j := ?b])" by (simp only: map_update frame)
  then have "map block_frame (bbs[j := b']) = map block_frame bbs0" using fr by simp
  moreover have "sum_list (map length (pss[j := ?ps @ [fresh s]])) = Suc c"
    using sum_list_update_length [of j pss "?ps @ [fresh s]"] assms(3) pss by simp
  moreover have "represents s' (bbs[j := b'] ! i) (pss[j := ?ps @ [fresh s]] ! i) \<and> list_all P (contents s' (pss[j := ?ps @ [fresh s]] ! i))"
    if "i < length bbs" for i
    using that new old [of i] r(2) rep [of i] assms(3,4) pss(1) by (cases "i = j") auto
  ultimately have "filled P bbs0 (Suc c) (s', bbs[j := b'])"
    using pss(1) by (auto simp: filled_def intro!: exI [of _ "pss[j := ?ps @ [fresh s]]"])
  with ins show thesis by (rule that)
qed

lemma fn_iter_update: "fn_iter (f\<lparr>all_bb := xs @ [x]\<rparr>) = xs"
  by (simp add: fn_iter_def)

lemma always_add_instruction:
  assumes "\<forall>sp \<in> isa_specs isa. spec_ok G sp" and "non_memory_access_specs isa \<noteq> []" and "load_instruction isa \<noteq> []"
    and "distinct (map bb_id bbs0)" and "bbs0 \<noteq> []"
    and "filled (\<lambda>i. \<exists>sp \<in> isa_specs isa. instruction_matches G sp i) bbs0 c sb"
  shows "always (add_instruction G isa sb) (filled (\<lambda>i. \<exists>sp \<in> isa_specs isa. instruction_matches G sp i) bbs0 (Suc c))"
proof -
  obtain s bbs where sb: "sb = (s, bbs)" by fastforce
  have "length bbs = length bbs0" using assms(6) map_eq_imp_length_eq by (auto simp: filled_def sb)
  then have ne: "[0..<length bbs] \<noteq> []" using assms(5) by simp
  show ?thesis unfolding add_instruction_def sb prod.case
  proof (rule always_bind_choice [OF ne], rule always_gbind [OF always_random_spec [OF assms(1-3)]])
    fix j i assume j: "j \<in> set [0..<length bbs]" and i: "\<exists>sp \<in> isa_specs isa. instruction_matches G sp i"
    obtain s' b' where "insert_after s (bbs ! j) (get_last (bbs ! j)) i = Inr (s', b')"
      "filled (\<lambda>i. \<exists>sp \<in> isa_specs isa. instruction_matches G sp i) bbs0 (Suc c) (s', bbs[j := b'])"
      by (rule filled_insert [OF assms(6) [unfolded sb] assms(4) _ i]) (use j in auto)
    then show "always (gbind (glift (insert_after s (bbs ! j) (get_last (bbs ! j)) i)) (\<lambda>(s', b'). gret (s', bbs[j := b'])))
        (filled (\<lambda>i. \<exists>sp \<in> isa_specs isa. instruction_matches G sp i) bbs0 (Suc c))"
      by (auto intro!: always_gret)
  qed
qed

lemma filled_contents:
  assumes "filled P bbs0 c (s, bbs)"
  obtains css where "map (bb_iter s) bbs = map Some css" and "sum_list (map length css) = c"
    and "\<And>xs x. xs \<in> set css \<Longrightarrow> x \<in> set xs \<Longrightarrow> P x" and "map bb_successors bbs = map bb_successors bbs0"
    and "length bbs = length bbs0"
proof -
  from assms obtain pss where fr: "map block_frame bbs = map block_frame bbs0" and pss: "length pss = length bbs"
    "sum_list (map length pss) = c" "\<And>i. i < length bbs \<Longrightarrow> represents s (bbs ! i) (pss ! i) \<and> list_all P (contents s (pss ! i))"
    by (auto simp: filled_def)
  let ?css = "map (contents s) pss"
  show thesis
  proof (rule that [of ?css])
    show "map (bb_iter s) bbs = map Some ?css" by (rule nth_equalityI) (use pss bb_iter_represents in auto)
    have "map length ?css = map length pss" by (rule nth_equalityI) (use pss contents_length in auto)
    then show "sum_list (map length ?css) = c" using pss(2) by (simp only:)
    have "list_all P (contents s ps)" if "ps \<in> set pss" for ps using that pss(1,3) by (metis in_set_conv_nth)
    then show "P x" if "xs \<in> set ?css" "x \<in> set xs" for xs x using that by (auto simp: list_all_iff)
    show "map bb_successors bbs = map bb_successors bbs0"
      using arg_cong [OF fr, of "map (\<lambda>(a, b, c, d, e). d)"] by (simp add: block_frame_def comp_def)
    show "length bbs = length bbs0" using fr by (metis length_map)
  qed
qed

lemma always_add_instructions:
  assumes "\<forall>sp \<in> isa_specs isa. spec_ok G sp" and "non_memory_access_specs isa \<noteq> []" and "load_instruction isa \<noteq> []"
    and "\<forall>p. nodes s p \<noteq> None \<longrightarrow> p < fresh s" and "all_bb f = bbs0 @ [e]" and "bbs0 \<noteq> []" and "distinct (map bb_id bbs0)"
    and "\<And>b. b \<in> set bbs0 \<Longrightarrow> bb_start b = None \<and> bb_end b = None"
  shows "always (add_instructions_in_function G isa s f) (\<lambda>(s', f'). \<exists>bbs. f' = f\<lparr>all_bb := bbs @ [e]\<rparr> \<and>
    filled (\<lambda>i. \<exists>sp \<in> isa_specs isa. instruction_matches G sp i) bbs0 (gc_program_size (g_conf G)) (s', bbs))"
proof -
  let ?P = "\<lambda>i. \<exists>sp \<in> isa_specs isa. instruction_matches G sp i"
  let ?n = "gc_program_size (g_conf G)"
  have it: "fn_iter f = bbs0" using assms(5) by (simp add: fn_iter_def)
  have empty: "represents s b []" if "b \<in> set bbs0" for b using assms(4) assms(8) [OF that] by (simp add: represents_def)
  have zero: "list_all (\<lambda>b. bb_len s b = Some 0) bbs0"
    unfolding list_all_iff bb_len_def using iter_nodes_represents [OF empty] by simp
  have start: "filled ?P bbs0 0 (s, bbs0)"
    using empty by (auto simp: filled_def contents_def sum_list_replicate intro!: exI [of _ "replicate (length bbs0) []"])
  have "always (gfold (\<lambda>sb _. add_instruction G isa sb) (s, bbs0) [0..<?n]) ((\<lambda>ys. filled ?P bbs0 (length ys)) ([] @ [0..<?n]))"
  proof (rule always_gfold_prefix)
    show "filled ?P bbs0 (length []) (s, bbs0)" using start by simp
    fix ys :: "nat list" and x sb assume "filled ?P bbs0 (length ys) sb"
    then show "always (add_instruction G isa sb) (filled ?P bbs0 (length (ys @ [x])))"
      using always_add_instruction [OF assms(1-3,7,6)] by simp
  qed
  then have fill: "always (gfold (\<lambda>sb _. add_instruction G isa sb) (s, bbs0) [0..<?n]) (filled ?P bbs0 ?n)" by simp
  show ?thesis unfolding add_instructions_in_function_def it py_assert_def if_P [OF zero] gbind_glift
  proof (rule always_gbind [OF fill])
    fix sb assume "filled ?P bbs0 ?n sb"
    moreover obtain s' bbs where "sb = (s', bbs)" by fastforce
    moreover have "length bbs = length bbs0" by (rule filled_contents) (use calculation in auto)
    ultimately show "always (case sb of (s', bbs) \<Rightarrow> gret (s', f\<lparr>all_bb := bbs @ drop (length bbs) (all_bb f)\<rparr>))
        (\<lambda>(s', f'). \<exists>bbs. f' = f\<lparr>all_bb := bbs @ [e]\<rparr> \<and> filled ?P bbs0 ?n (s', bbs))"
      using assms(5) by (auto intro!: always_gret)
  qed
qed


definition demo_load_spec :: InstructionSpec where
  "demo_load_spec = (InstructionSpec_init ''ldr'' ''general'' False)\<lparr>is_operands :=
     [OperandSpec_init [''x0''] OT_REG False True 64 True False None,
      OperandSpec_init [''x1''] OT_MEM True False 64 True False None], is_has_mem_operand := True\<rparr>"

definition demo_branch :: InstructionSpec where
  "demo_branch = (InstructionSpec_init ''cbz'' ''general-cond_branch'' True)\<lparr>is_operands :=
     [OperandSpec_init [''x0''] OT_REG True False 64 True False None, OperandSpec_init [] OT_LABEL True False 64 True False None]\<rparr>"

definition demo_full_isa :: InstructionSet where
  "demo_full_isa = demo_isa\<lparr>non_memory_access_specs := [demo_add], load_instruction := [demo_load_spec],
     store_instructions := [], cond_branches := [demo_branch]\<rparr>"

lemma demo_specs_ok: "spec_ok demo_generator demo_load_spec" "spec_ok demo_generator demo_branch"
  by (simp_all add: spec_ok_def demo_load_spec_def demo_branch_def InstructionSpec_init_def OperandSpec_init_def
      operand_spec_ok_def RegSizes_def)

lemma demo_full_isa_ok:
  "branch_specs_ok demo_generator demo_full_isa" "\<forall>sp \<in> isa_specs demo_full_isa. spec_ok demo_generator sp"
  "non_memory_access_specs demo_full_isa \<noteq> []" "load_instruction demo_full_isa \<noteq> []" "cond_branches demo_full_isa \<noteq> []"
  using demo_specs_ok demo_add_ok
  by (simp_all add: branch_specs_ok_def isa_specs_def demo_full_isa_def demo_branch_def InstructionSpec_init_def OperandSpec_init_def
      demo_isa_def unsorted_set_def)

lemma demo_generator_conf:
  "gc_min_bb_per_function (g_conf demo_generator) = 2" "gc_max_bb_per_function (g_conf demo_generator) = 3"
  "gc_min_successors_per_bb (g_conf demo_generator) = 1" "gc_max_successors_per_bb (g_conf demo_generator) = 2"
  "gc_instruction_set (g_conf demo_generator) = ''arm64''" "gc_program_size (g_conf demo_generator) = 4"
  by (simp_all add: demo_generator_def demo_bitmask_conf_def)

lemma demo_empty: "\<exists>f k'. generate_empty demo_generator demo_full_isa 0 ''.function_0'' 0 0 = Inr (f, k')"
  by (rule alwaysE [OF always_generate_empty [of demo_generator demo_full_isa 0 "''.function_0''" 0], where k = 0])
    (auto simp: demo_generator_conf)

theorem terminators_realise_graph_witness:
  "\<exists>f k1 f' k2. generate_empty demo_generator demo_full_isa 0 ''.function_0'' 0 0 = Inr (f, k1) \<and>
     add_terminators_in_function demo_generator demo_full_isa f k1 = Inr (f', k2) \<and> fn_len f' = fn_len f"
proof -
  obtain f k1 where run: "generate_empty demo_generator demo_full_isa 0 ''.function_0'' 0 0 = Inr (f, k1)" using demo_empty by blast
  from terminators_realise_graph [OF _ _ _ _ demo_full_isa_ok(1) _ run] demo_full_isa_ok(5) run show ?thesis
    by (auto simp: demo_generator_conf)
qed


end
