(* ===== verification/Spec2Isabelle.thy ===== *)
theory Spec2Isabelle
  imports DataGenerator BasicBlocks Analyser Executor Tracer Fuzzer Model Minimizer X86Passes FunctionGenerator
begin

text \<open>
  A verification library for the relational fuzzer in \<^verbatim>\<open>src/rvzr\<close>. The fuzzer looks for microarchitectural
  leaks: it generates a random test case (code and inputs), computes for every input the trace that a
  \<^emph>\<open>contract\<close> allows to be exposed (by emulating the test case), measures the test case on the processor, and
  reports a \<^emph>\<open>violation\<close> when two inputs have the same contract trace but distinguishable measurements. A
  violation can then be minimised. The library models these parts as executable definitions and proves what
  makes each of them correct; where the code does not do what it says, a theorem of kind error shows what it
  does instead.

  \<^bold>\<open>How the theories correspond to the code\<close> (paths relative to \<^verbatim>\<open>src/rvzr\<close>).

  \<^item> \<open>Prelude\<close> and \<open>PyString\<close>: Python exceptions as values of a sum type with a result monad, dictionaries in
    insertion order, indexing, byte codecs and the string operations the sources use.
  \<^item> \<open>Sandbox\<close> (\<^verbatim>\<open>sandbox.py\<close>): the layout of the memory that model, executor and generator share. Shown: every
    address of the data sandbox lies in one area of one actor, and the tables agree with the arithmetic.
  \<^item> \<open>Actor\<close> (\<^verbatim>\<open>tc_components/actor.py\<close>) and \<open>TargetDesc\<close> (\<^verbatim>\<open>target_desc.py\<close>, \<^verbatim>\<open>arch/*/target_desc.py\<close>): page
    table masks of actors, tables of registers, page table bits and macros. Shown: the register tables of both
    architectures fit together, and in every page table format the requested properties end up in their bits.
  \<^item> \<open>Instruction\<close> (\<^verbatim>\<open>instruction_spec.py\<close>, \<^verbatim>\<open>tc_components/instruction.py\<close>), \<open>BasicBlocks\<close> and \<open>Program\<close>
    (\<^verbatim>\<open>tc_components/test_case_code.py\<close>, \<^verbatim>\<open>test_case_binary.py\<close>): instructions, the linked nodes of a basic block
    in a store, functions, sections, programs and the binary file for the kernel module. Shown: editing linked
    nodes is editing lists, actors and sections stay in correspondence, and a reader of the documented file
    format recovers what was written.
  \<^item> \<open>TestCaseData\<close> (\<^verbatim>\<open>tc_components/test_case_data.py\<close>) and \<open>DataGenerator\<close> (\<^verbatim>\<open>data_generator.py\<close>): inputs, their
    binary forms, taints, and the generation of inputs. Shown: round trips of both binary forms, the
    correspondence of sandbox addresses and taint cells, and that boosted inputs agree with their originals on
    every tainted entry.
  \<^item> \<open>Traces\<close> (\<^verbatim>\<open>traces.py\<close>), \<open>Analyser\<close> (\<^verbatim>\<open>analyser.py\<close>), \<open>Stats\<close> (\<^verbatim>\<open>stats.py\<close>): traces, equivalence classes and the search
    for violations. Shown: contract classes partition the measurements, and the search is sound and complete
    for the equivalence test it is given.
  \<^item> \<open>Executor\<close> (\<^verbatim>\<open>executor.py\<close>): parsing of the kernel module's output and the list of ignored inputs.
  \<^item> \<open>TaintTracker\<close>, \<open>Speculator\<close>, \<open>Tracer\<close>, \<open>ModelState\<close>, \<open>Interpreter\<close>, \<open>ModelInput\<close>, \<open>Model\<close>
    (\<^verbatim>\<open>model_unicorn/*.py\<close>): the contract model. Shown: taint tracking is sound (inputs that agree on the tainted
    entries expose the same values), rollbacks restore everything a checkpoint saved, the stacks of speculator
    and taint tracker stay balanced, traces do not depend on addresses of the sandbox, the loaded memory is the
    image the executor receives, tracing ends outside speculation, and with the sequential contract it
    terminates.
  \<^item> \<open>Fuzzer\<close> (\<^verbatim>\<open>fuzzer.py\<close>): one round with its stages and the main loop, over a record of modules that
    \<open>standard_modules\<close> fills with the models above. Shown: a returned violation passed every stage.
  \<^item> \<open>InstructionPasses\<close>, \<open>InputPasses\<close>, \<open>AnalysisPasses\<close>, \<open>Minimizer\<close> (\<^verbatim>\<open>postprocessing/*.py\<close>): minimisation of code
    and inputs. Shown: minimised code still shows the violation, the passes return, the minimised input
    sequence cannot lose a further input, and the two violating inputs agree outside the reported addresses.
  \<^item> \<open>IsaSpec\<close> (\<^verbatim>\<open>isa_spec.py\<close>), \<open>PyRandom\<close>, \<open>CodeGenerator\<close> and \<open>FunctionGenerator\<close> (\<^verbatim>\<open>code_generator.py\<close>): the instruction set that the
    configuration permits, and random operands, instructions and functions, as computations that count their
    draws. Shown: what is left of the instruction set respects the configuration, and whatever is drawn,
    generation returns instructions that follow their specification and functions whose control flow graph is a
    DAG without dead code, which their terminators realise, with the configured number of instructions.
  \<^item> \<open>X86Machine\<close>, \<open>X86Sandbox\<close>, \<open>X86Division\<close>, \<open>X86Passes\<close> (\<^verbatim>\<open>arch/x86/generator.py\<close>): the passes that instrument
    generated code so that it does not fault, has defined results, or reaches the kernel, judged by executing
    their output on registers and memory. Shown: memory accesses stay in the areas of their actor, divisions do
    not fault, bit scans have a source, and redirected accesses reach the kernel's page.

  \<^bold>\<open>Interfaces.\<close> What a component relies on is a locale that is interpreted on the model of the provider:
  \<open>linked_sequence\<close> (basic blocks), \<open>htrace_equivalence\<close> (the tests of the analysers), \<open>violation_source\<close> (the modules of a
  fuzzing round), \<open>unboosted_rounds\<close> and \<open>heap_rounds\<close> (the fuzzing rounds that the minimiser calls).

  \<^bold>\<open>Parameters.\<close> Code outside the repository is an argument: the Unicorn emulator (a record of calls, with its
  documented behaviour in \<open>unicorn_laws\<close>), numpy's generator, scipy's tests, hash functions, the kernel module's
  output, the assembler and the random draws. Theorems that need their documented behaviour have it as a named
  hypothesis, and their witnesses instantiate it.

  \<^bold>\<open>Bounds and fuel.\<close> Machine integers are words or are reduced explicitly. \<^verbatim>\<open>emu_start\<close> is called with a timeout of ten
  seconds; the model gives it a number of callbacks (\<open>budget\<close>), and no theorem depends on its size. The loop of
  the model's state machine has fuel; with the sequential contract two turns per input are shown to be enough.
  The loops of the passes are total functions.

  \<^bold>\<open>Not modelled.\<close> Logging, progress output, statistics reports, the command line, the factory and the
  loading of configuration files (options are arguments of the definitions that read them); the ELF parser and
  the downloaders of instruction specifications (third-party libraries and external tools); templates, the
  printing of generated programs, the passes of the ARM64 generator and the undefined-flags pass of the x86 one; the DynamoRIO
  model (an external process); the speculators for faults and value speculation; the parsers of assembly
  text; the system set-up of the executors.
\<close>

end
